(* ===== verification/Prelude.thy ===== *)
theory Prelude
  imports Main "HOL-Library.Char_ord" "HOL-Library.List_Lexorder" "HOL-Library.Product_Lexorder"
begin

text \<open>
  What the components share: a rule for counting loops written as \<open>fold\<close> over an index range,
  a two-dimensional table (a vector of vectors) read and written by index, and the collections of
  rewriting rules the component theories fill.
\<close>

named_theorems scan_simps \<open>unfolding rules of the scanner's primitive steps\<close>
named_theorems loop_intros \<open>introduction rules for counting loops\<close>

section \<open>Counting loops\<close>

text \<open>A loop \<open>for (i = a; i < b; ++i) s = f i s\<close> is \<open>fold f [a..<b] s\<close>; its invariant rule.\<close>

lemma fold_upt_invariant [loop_intros]:
  assumes "a \<le> b" and "P a s"
    and "\<And>i s. a \<le> i \<Longrightarrow> i < b \<Longrightarrow> P i s \<Longrightarrow> P (Suc i) (f i s)"
  shows "P b (fold f [a..<b] s)"
  using assms
proof (induction b)
  case 0
  then show ?case by simp
next
  case (Suc b)
  show ?case
  proof (cases "a = Suc b")
    case True
    with Suc.prems show ?thesis by simp
  next
    case False
    with Suc.prems(1) have "a \<le> b" by simp
    moreover have "P b (fold f [a..<b] s)"
      using Suc.IH Suc.prems(2,3) \<open>a \<le> b\<close> by simp
    ultimately show ?thesis using Suc.prems(3) by simp
  qed
qed

section \<open>Tables: a vector of vectors\<close>

type_synonym table = "nat list list"

definition tget :: "table \<Rightarrow> nat \<Rightarrow> nat \<Rightarrow> nat" where
  "tget dp i j = dp ! i ! j"

definition tset :: "table \<Rightarrow> nat \<Rightarrow> nat \<Rightarrow> nat \<Rightarrow> table" where
  "tset dp i j v = dp[i := (dp ! i)[j := v]]"

definition tshape :: "nat \<Rightarrow> nat \<Rightarrow> table \<Rightarrow> bool" where
  "tshape m n dp \<longleftrightarrow> length dp = m \<and> (\<forall>i < m. length (dp ! i) = n)"

lemma tshape_tset [simp]: "tshape m n dp \<Longrightarrow> i < m \<Longrightarrow> tshape m n (tset dp i j v)"
  by (auto simp: tshape_def tset_def nth_list_update)

lemma tshape_replicate [simp]: "tshape m n (replicate m (replicate n v))"
  by (simp add: tshape_def)

lemma tget_tset:
  "tshape m n dp \<Longrightarrow> i < m \<Longrightarrow> j < n \<Longrightarrow>
     tget (tset dp i j v) a b = (if a = i \<and> b = j then v else tget dp a b)"
  by (auto simp: tshape_def tset_def tget_def nth_list_update)

end
