(* ===== verification/EditDistance.thy ===== *)
theory EditDistance
  imports Prelude
begin

text \<open>
  \<open>src/src/analysis/Algorithms.cpp\<close>: the string distances behind every "did you mean?" of the
  compiler. \<open>getLevenshteinDistance\<close> is the dynamic program over an \<open>(m + 1) \<times> (n + 1)\<close> table;
  the specification is the least cost of an alignment of the two strings with the four edits
  (insertion, deletion, substitution, swap of two adjacent characters). The table holds C++
  \<open>int\<close>s; every entry lies between 0 and \<open>m + n\<close>, so they are natural numbers here.
\<close>

section \<open>The dynamic program\<close>

text \<open>One cell: deletion, insertion, substitution, then the swap of two adjacent characters.\<close>

definition osa_cell :: "string \<Rightarrow> string \<Rightarrow> table \<Rightarrow> nat \<Rightarrow> nat \<Rightarrow> nat" where
  "osa_cell s1 s2 dp i j =
     (let cost = (if s1 ! (i - 1) = s2 ! (j - 1) then 0 else 1);
          best = min (tget dp (i - 1) j + 1)
                   (min (tget dp i (j - 1) + 1) (tget dp (i - 1) (j - 1) + cost))
      in if i > 1 \<and> j > 1 \<and> s1 ! (i - 1) = s2 ! (j - 2) \<and> s1 ! (i - 2) = s2 ! (j - 1)
         then min best (tget dp (i - 2) (j - 2) + 1) else best)"

text \<open>The table after the two initialising loops.\<close>

definition osa_init :: "nat \<Rightarrow> nat \<Rightarrow> table" where
  "osa_init m n =
     fold (\<lambda>j dp. tset dp 0 j j) [0..<n + 1]
       (fold (\<lambda>i dp. tset dp i 0 i) [0..<m + 1] (replicate (m + 1) (replicate (n + 1) 0)))"

definition osa_table :: "string \<Rightarrow> string \<Rightarrow> table" where
  "osa_table s1 s2 =
     fold (\<lambda>i dp. fold (\<lambda>j dp. tset dp i j (osa_cell s1 s2 dp i j)) [1..<length s2 + 1] dp)
       [1..<length s1 + 1] (osa_init (length s1) (length s2))"

definition getLevenshteinDistance :: "string \<Rightarrow> string \<Rightarrow> nat" where
  "getLevenshteinDistance s1 s2 =
     (let m = length s1; n = length s2
      in if m = 0 then n else if n = 0 then m else tget (osa_table s1 s2) m n)"

section \<open>The recurrence the table solves\<close>

fun osaD :: "string \<Rightarrow> string \<Rightarrow> nat \<Rightarrow> nat \<Rightarrow> nat" where
  "osaD s t 0 j = j"
| "osaD s t (Suc i) 0 = Suc i"
| "osaD s t (Suc i) (Suc j) =
     (let best = min (osaD s t i (Suc j) + 1)
                   (min (osaD s t (Suc i) j + 1)
                      (osaD s t i j + (if s ! i = t ! j then 0 else 1)))
      in if i > 0 \<and> j > 0 \<and> s ! i = t ! (j - 1) \<and> s ! (i - 1) = t ! j
         then min best (osaD s t (i - 1) (j - 1) + 1) else best)"

lemma osaD_0 [simp]: "osaD s t i 0 = i"
  by (cases i) simp_all

lemma osaD_step:
  "0 < i \<Longrightarrow> 0 < j \<Longrightarrow> osaD s t i j =
     (let best = min (osaD s t (i - 1) j + 1)
                   (min (osaD s t i (j - 1) + 1)
                      (osaD s t (i - 1) (j - 1) + (if s ! (i - 1) = t ! (j - 1) then 0 else 1)))
      in if i > 1 \<and> j > 1 \<and> s ! (i - 1) = t ! (j - 2) \<and> s ! (i - 2) = t ! (j - 1)
         then min best (osaD s t (i - 2) (j - 2) + 1) else best)"
  by (cases i; cases j) (auto simp: numeral_2_eq_2 Let_def)

declare osaD.simps(3) [simp del]

text \<open>The recurrence reads only the first \<open>i\<close> and \<open>j\<close> characters.\<close>

lemma osaD_cong:
  "take i s = take i s' \<Longrightarrow> take j t = take j t' \<Longrightarrow> i \<le> length s \<Longrightarrow> j \<le> length t \<Longrightarrow>
   i \<le> length s' \<Longrightarrow> j \<le> length t' \<Longrightarrow> osaD s t i j = osaD s' t' i j"
proof (induction s t i j rule: osaD.induct)
  case (3 s t i j)
  have s: "\<And>k. k \<le> i \<Longrightarrow> s ! k = s' ! k" and t: "\<And>k. k \<le> j \<Longrightarrow> t ! k = t' ! k"
    using "3.prems"(1,2) by (metis le_imp_less_Suc nth_take)+
  have pre: "\<And>k. k \<le> Suc i \<Longrightarrow> take k s = take k s'" "\<And>k. k \<le> Suc j \<Longrightarrow> take k t = take k t'"
    using "3.prems"(1,2) by (metis min.absorb1 take_take)+
  show ?case
    using "3.IH" "3.prems" pre s t by (auto simp: osaD.simps(3) Let_def)
qed simp_all

section \<open>The table is the recurrence\<close>

definition filled :: "string \<Rightarrow> string \<Rightarrow> (nat \<Rightarrow> nat \<Rightarrow> bool) \<Rightarrow> table \<Rightarrow> bool" where
  "filled s t P dp \<longleftrightarrow> tshape (length s + 1) (length t + 1) dp \<and>
     (\<forall>i \<le> length s. \<forall>j \<le> length t. P i j \<longrightarrow> tget dp i j = osaD s t i j)"

lemma filled_tset:
  assumes "filled s t P dp" "i \<le> length s" "j \<le> length t" "v = osaD s t i j"
    and "\<And>a b. Q a b \<Longrightarrow> P a b \<or> a = i \<and> b = j"
  shows "filled s t Q (tset dp i j v)"
  using assms(1-4) assms(5) unfolding filled_def by (fastforce simp: tget_tset)

lemma filled_mono:
  "filled s t P dp \<Longrightarrow> (\<And>a b. a \<le> length s \<Longrightarrow> b \<le> length t \<Longrightarrow> Q a b \<Longrightarrow> P a b) \<Longrightarrow> filled s t Q dp"
  by (simp add: filled_def)

lemma osa_init_filled: "filled s t (\<lambda>i j. i = 0 \<or> j = 0) (osa_init (length s) (length t))"
proof -
  let ?m = "length s" and ?n = "length t"
  have "filled s t (\<lambda>i j. i < ?m + 1 \<and> j = 0)
          (fold (\<lambda>i dp. tset dp i 0 i) [0..<?m + 1] (replicate (?m + 1) (replicate (?n + 1) 0)))"
    by (rule fold_upt_invariant [where P = "\<lambda>k. filled s t (\<lambda>i j. i < k \<and> j = 0)"])
       (auto elim: filled_tset simp: filled_def [of _ _ _ "replicate _ _"] simp del: replicate_Suc)
  then have col: "filled s t (\<lambda>i j. j < 0 \<and> i = 0 \<or> j = 0)
          (fold (\<lambda>i dp. tset dp i 0 i) [0..<?m + 1] (replicate (?m + 1) (replicate (?n + 1) 0)))"
    by (rule filled_mono) auto
  have "filled s t (\<lambda>i j. j < ?n + 1 \<and> i = 0 \<or> j = 0) (osa_init ?m ?n)"
    unfolding osa_init_def
    by (rule fold_upt_invariant [where P = "\<lambda>k. filled s t (\<lambda>i j. j < k \<and> i = 0 \<or> j = 0)"])
       (use col in \<open>auto elim: filled_tset\<close>)
  then show ?thesis by (rule filled_mono) auto
qed

lemma osa_cell_correct:
  assumes "filled s t (\<lambda>a b. a = 0 \<or> b = 0 \<or> a < i \<or> a = i \<and> b < j) dp"
    and "1 \<le> i" "i \<le> length s" "1 \<le> j" "j \<le> length t"
  shows "osa_cell s t dp i j = osaD s t i j"
  using assms unfolding filled_def osa_cell_def by (subst osaD_step) (auto simp: Let_def)

lemma osa_table_filled: "filled s t (\<lambda>i j. True) (osa_table s t)"
proof -
  let ?m = "length s" and ?n = "length t"
  let ?row = "\<lambda>i dp. fold (\<lambda>j dp. tset dp i j (osa_cell s t dp i j)) [1..<?n + 1] dp"
  have row: "filled s t (\<lambda>a b. a = 0 \<or> b = 0 \<or> a < Suc i) (?row i dp)"
    if "filled s t (\<lambda>a b. a = 0 \<or> b = 0 \<or> a < i) dp" "1 \<le> i" "i < ?m + 1" for i dp
  proof -
    have "filled s t (\<lambda>a b. a = 0 \<or> b = 0 \<or> a < i \<or> a = i \<and> b < ?n + 1) (?row i dp)"
    proof (rule fold_upt_invariant
        [where P = "\<lambda>k. filled s t (\<lambda>a b. a = 0 \<or> b = 0 \<or> a < i \<or> a = i \<and> b < k)"])
      show "filled s t (\<lambda>a b. a = 0 \<or> b = 0 \<or> a < i \<or> a = i \<and> b < 1) dp"
        using that(1) by (rule filled_mono) auto
    next
      fix j dp assume "1 \<le> j" "j < ?n + 1"
        and "filled s t (\<lambda>a b. a = 0 \<or> b = 0 \<or> a < i \<or> a = i \<and> b < j) dp"
      then show "filled s t (\<lambda>a b. a = 0 \<or> b = 0 \<or> a < i \<or> a = i \<and> b < Suc j)
          (tset dp i j (osa_cell s t dp i j))"
        using that(2,3) osa_cell_correct by (intro filled_tset) auto
    qed simp
    then show ?thesis by (rule filled_mono) auto
  qed
  have "filled s t (\<lambda>a b. a = 0 \<or> b = 0 \<or> a < ?m + 1) (osa_table s t)"
    unfolding osa_table_def
  proof (rule fold_upt_invariant [where P = "\<lambda>k. filled s t (\<lambda>a b. a = 0 \<or> b = 0 \<or> a < k)"])
    show "filled s t (\<lambda>a b. a = 0 \<or> b = 0 \<or> a < 1) (osa_init ?m ?n)"
      using osa_init_filled [of s t] by (rule filled_mono) auto
  qed (use row in auto)
  then show ?thesis by (rule filled_mono) auto
qed

lemma getLevenshteinDistance_osaD:
  "getLevenshteinDistance s t = osaD s t (length s) (length t)"
  using osa_table_filled [of s t] by (simp add: getLevenshteinDistance_def filled_def Let_def)

section \<open>The specification: the least cost of an alignment\<close>

text \<open>
  \<open>align n xs ys\<close>: \<open>xs\<close> becomes \<open>ys\<close> by \<open>n\<close> edits, each part of the string edited at most once.
\<close>

inductive align :: "nat \<Rightarrow> 'a list \<Rightarrow> 'a list \<Rightarrow> bool" where
  align_Nil: "align 0 [] []"
| align_keep: "align n xs ys \<Longrightarrow> align n (xs @ [c]) (ys @ [c])"
| align_delete: "align n xs ys \<Longrightarrow> align (Suc n) (xs @ [c]) ys"
| align_insert: "align n xs ys \<Longrightarrow> align (Suc n) xs (ys @ [c])"
| align_subst: "align n xs ys \<Longrightarrow> align (Suc n) (xs @ [c]) (ys @ [d])"
| align_swap: "align n xs ys \<Longrightarrow> align (Suc n) (xs @ [c, d]) (ys @ [d, c])"

lemma align_sym: "align n xs ys \<Longrightarrow> align n ys xs"
  by (induction rule: align.induct) (auto intro: align.intros)

lemma align_refl: "align 0 xs xs"
  by (induction xs rule: rev_induct) (auto intro: align.intros)

lemma align_0_eq: "align n xs ys \<Longrightarrow> n = 0 \<Longrightarrow> xs = ys"
  by (induction rule: align.induct) auto

lemma align_length: "align n xs ys \<Longrightarrow> length xs \<le> length ys + n \<and> length ys \<le> length xs + n"
  by (induction rule: align.induct) auto

lemma align_delete_all: "align (length xs) xs []"
  by (induction xs rule: rev_induct) (auto intro: align.intros)

lemma align_insert_all: "align (length ys) [] ys"
  using align_delete_all align_sym by blast

lemma align_min: "align m xs ys \<Longrightarrow> align n xs ys \<Longrightarrow> align (min m n) xs ys"
  by (simp add: min_def)

text \<open>The recurrence is attained by an alignment...\<close>

lemma take_Suc_snoc: "i < length s \<Longrightarrow> take (Suc i) s = take i s @ [s ! i]"
  by (rule take_Suc_conv_app_nth)

lemma osaD_attained: "i \<le> length s \<Longrightarrow> j \<le> length t \<Longrightarrow> align (osaD s t i j) (take i s) (take j t)"
proof (induction s t i j rule: osaD.induct)
  case (1 s t j)
  then show ?case using align_insert_all [of "take j t"] by (simp add: min_absorb2)
next
  case (2 s t i)
  then show ?case using align_delete_all [of "take (Suc i) s"] by (simp add: min_absorb2)
next
  case (3 s t i j)
  let ?d1 = "osaD s t i (Suc j) + 1" and ?d2 = "osaD s t (Suc i) j + 1"
  let ?d3 = "osaD s t i j + (if s ! i = t ! j then 0 else 1)"
  let ?d4 = "osaD s t (i - 1) (j - 1) + 1"
  let ?swap = "i > 0 \<and> j > 0 \<and> s ! i = t ! (j - 1) \<and> s ! (i - 1) = t ! j"
  let ?goal = "\<lambda>d. align d (take (Suc i) s) (take (Suc j) t)"
  have len: "i < length s" "j < length t" using "3.prems" by auto
  have d1: "?goal ?d1"
    using "3.IH"(1) len align_delete [of _ "take i s" _ "s ! i"] by (simp add: take_Suc_snoc)
  have d2: "?goal ?d2"
    using "3.IH"(2) len align_insert [of _ _ "take j t" "t ! j"] by (simp add: take_Suc_snoc)
  have d3: "?goal ?d3"
    using "3.IH"(3) len by (simp add: take_Suc_snoc align_keep align_subst)
  have d4: "?goal ?d4" if swap: ?swap
  proof -
    from swap obtain a b where [simp]: "i = Suc a" "j = Suc b"
      by (auto simp: gr0_conv_Suc)
    have "align (osaD s t a b) (take a s) (take b t)" using "3.IH"(4) swap len by simp
    then show ?thesis
      using swap len align_swap [of _ "take a s" "take b t" "s ! a" "s ! i"]
      by (simp add: take_Suc_snoc)
  qed
  have eq: "osaD s t (Suc i) (Suc j)
      = (if ?swap then min (min ?d1 (min ?d2 ?d3)) ?d4 else min ?d1 (min ?d2 ?d3))"
    by (simp only: osaD.simps(3) Let_def)
  show ?case
    unfolding eq by (rule if_split [where P = ?goal, THEN iffD2])
      (intro conjI impI align_min d1 d2 d3 d4; simp)
qed

text \<open>... and bounds every alignment from below.\<close>

text \<open>One lemma per edit: what each lets the recurrence grow by.\<close>

lemma osaD_Suc_left: "osaD s t (Suc i) j \<le> Suc (osaD s t i j)"
  by (cases j) (auto simp: osaD.simps(3) Let_def)

lemma osaD_Suc_right: "osaD s t i (Suc j) \<le> Suc (osaD s t i j)"
  by (cases i) (auto simp: osaD.simps(3) Let_def)

lemma osaD_Suc_Suc: "osaD s t (Suc i) (Suc j) \<le> Suc (osaD s t i j)"
  by (auto simp: osaD.simps(3) Let_def min_le_iff_disj)

lemma osaD_keep: "s ! i = t ! j \<Longrightarrow> osaD s t (Suc i) (Suc j) \<le> osaD s t i j"
  by (auto simp: osaD.simps(3) Let_def min_le_iff_disj)

lemma osaD_swap:
  "s ! i = t ! Suc j \<Longrightarrow> s ! Suc i = t ! j \<Longrightarrow>
     osaD s t (Suc (Suc i)) (Suc (Suc j)) \<le> Suc (osaD s t i j)"
  by (auto simp: osaD.simps(3) [of s t "Suc i" "Suc j"] Let_def)

lemma osaD_app:
  "osaD (xs @ us) (ys @ vs) (length xs) (length ys) = osaD xs ys (length xs) (length ys)"
  "osaD (xs @ us) ys (length xs) (length ys) = osaD xs ys (length xs) (length ys)"
  "osaD xs (ys @ vs) (length xs) (length ys) = osaD xs ys (length xs) (length ys)"
  by (rule osaD_cong; simp)+

lemma osaD_le_align: "align n xs ys \<Longrightarrow> osaD xs ys (length xs) (length ys) \<le> n"
proof (induction rule: align.induct)
  case (align_keep n xs ys c)
  then show ?case
    using osaD_keep [of "xs @ [c]" "length xs" "ys @ [c]" "length ys"] by (simp add: osaD_app)
next
  case (align_delete n xs ys c)
  then show ?case
    using osaD_Suc_left [of "xs @ [c]" ys "length xs" "length ys"] by (simp add: osaD_app)
next
  case (align_insert n xs ys c)
  then show ?case
    using osaD_Suc_right [of xs "ys @ [c]" "length xs" "length ys"] by (simp add: osaD_app)
next
  case (align_subst n xs ys c d)
  then show ?case
    using osaD_Suc_Suc [of "xs @ [c]" "ys @ [d]" "length xs" "length ys"] by (simp add: osaD_app)
next
  case (align_swap n xs ys c d)
  then show ?case
    using osaD_swap [of "xs @ [c, d]" "length xs" "ys @ [d, c]" "length ys"]
    by (simp add: osaD_app nth_append)
qed simp

lemma align_osaD: "align (osaD s t (length s) (length t)) s t"
  using osaD_attained [of "length s" s "length t" t] by simp

text \<open>
  C31. The distance \<open>getLevenshteinDistance\<close> computes by filling its table is the least number of
  edits (insertions, deletions, substitutions and swaps of adjacent characters) of any alignment
  of the two strings.
\<close>

theorem getLevenshteinDistance_least_alignment:
  "getLevenshteinDistance s t = (LEAST n. align n s t)"
  unfolding getLevenshteinDistance_osaD
  by (rule Least_equality [symmetric]) (auto intro: align_osaD osaD_le_align)

end
