(* ===== verification/SuggestionIndex.thy ===== *)
theory SuggestionIndex
  imports EditDistance
begin

text \<open>
  \<open>src/src/diagnostics/SuggestionIndex.h\<close>: the trie of candidate names, its pruned search with
  one row of the edit-distance table per trie node, and the selection of the best suggestions.
  \<open>std::map<char, ...>\<close> is a list of children sorted by character, \<open>std::unordered_set\<close> a list
  of the words seen so far, and \<open>std::sort\<close> on (distance, word) pairs is \<open>sort\<close> over the
  lexicographic order (words compare as unsigned bytes, as \<open>std::string\<close> does).
\<close>

section \<open>The trie\<close>

datatype TrieNode = TrieNode (Terminal: bool) (Children: "(char \<times> TrieNode) list")

definition empty_node :: TrieNode where
  "empty_node = TrieNode False []"

text \<open>\<open>Node->Children[Ch]\<close>, created when absent, then updated in place.\<close>

fun child_update :: "char \<Rightarrow> (TrieNode \<Rightarrow> TrieNode) \<Rightarrow> (char \<times> TrieNode) list
    \<Rightarrow> (char \<times> TrieNode) list" where
  "child_update c f [] = [(c, f empty_node)]"
| "child_update c f ((d, t) # cs) =
     (if c = d then (d, f t) # cs
      else if c < d then (c, f empty_node) # (d, t) # cs
      else (d, t) # child_update c f cs)"

fun trie_insert :: "string \<Rightarrow> TrieNode \<Rightarrow> TrieNode" where
  "trie_insert [] t = TrieNode True (Children t)"
| "trie_insert (c # w) t = TrieNode (Terminal t) (child_update c (trie_insert w) (Children t))"

text \<open>The words of a trie, and its well-formedness: one child per character, in order.\<close>

fun trie_words :: "TrieNode \<Rightarrow> string set" where
  "trie_words (TrieNode b cs) =
     (if b then {[]} else {}) \<union> (\<Union>(c, t) \<in> set cs. (#) c ` trie_words t)"

fun trie_ok :: "TrieNode \<Rightarrow> bool" where
  "trie_ok (TrieNode b cs) \<longleftrightarrow> sorted_wrt (<) (map fst cs) \<and> (\<forall>(c, t) \<in> set cs. trie_ok t)"

definition child_words :: "(char \<times> TrieNode) list \<Rightarrow> string set" where
  "child_words cs = (\<Union>(c, t) \<in> set cs. (#) c ` trie_words t)"

lemma trie_words_node: "trie_words (TrieNode b cs) = (if b then {[]} else {}) \<union> child_words cs"
  by (simp add: child_words_def)

lemma child_words_simps [simp]:
  "child_words [] = {}"
  "child_words ((c, t) # cs) = (#) c ` trie_words t \<union> child_words cs"
  by (simp_all add: child_words_def)

lemma empty_node_simps [simp]:
  "Terminal empty_node = False" "Children empty_node = []" "trie_words empty_node = {}"
  "trie_ok empty_node"
  by (simp_all add: empty_node_def)

lemma child_words_update:
  "(\<And>t. trie_words (f t) = insert w (trie_words t)) \<Longrightarrow>
     child_words (child_update c f cs) = insert (c # w) (child_words cs)"
  by (induction c f cs rule: child_update.induct) auto

lemma trie_words_insert: "trie_words (trie_insert w t) = insert w (trie_words t)"
proof (induction w t rule: trie_insert.induct)
  case (1 t)
  then show ?case by (cases t) (auto simp: trie_words_node simp del: trie_words.simps)
next
  case (2 c w t)
  then show ?case
    by (cases t) (auto simp: trie_words_node child_words_update simp del: trie_words.simps)
qed

lemma set_child_update:
  "set (child_update c f cs) \<subseteq> {(c, f t) | t. t = empty_node \<or> (c, t) \<in> set cs} \<union> set cs"
  by (induction c f cs rule: child_update.induct) auto

lemma sorted_child_update:
  "sorted_wrt (<) (map fst cs) \<Longrightarrow> sorted_wrt (<) (map fst (child_update c f cs))"
proof (induction c f cs rule: child_update.induct)
  case (2 c f d t cs)
  have keys: "\<And>x. x \<in> fst ` set (child_update c f cs) \<Longrightarrow> x = c \<or> x \<in> fst ` set cs"
    using set_child_update [of c f cs] by force
  show ?case
  proof (cases "d < c")
    case True
    then have nc: "c \<noteq> d" "\<not> c < d" by auto
    have "\<forall>x \<in> set (map fst (child_update c f cs)). d < x"
      using keys True "2.prems" by fastforce
    with nc "2.IH" "2.prems" show ?thesis by simp
  next
    case False
    then consider "c = d" | "c < d" by force
    then show ?thesis
    proof cases
      case 1
      with "2.prems" show ?thesis by simp
    next
      case 2
      have "\<And>x. x \<in> set (map fst cs) \<Longrightarrow> c < x"
        using "2.prems" by (intro order.strict_trans [OF \<open>c < d\<close>]) auto
      with 2 "2.prems" show ?thesis by simp
    qed
  qed
qed simp

lemma trie_ok_insert: "trie_ok t \<Longrightarrow> trie_ok (trie_insert w t)"
proof (induction w t rule: trie_insert.induct)
  case (1 t)
  then show ?case by (cases t) simp
next
  case (2 c w t)
  obtain b cs where t: "t = TrieNode b cs" by (cases t)
  have "\<forall>(d, u) \<in> set (child_update c (trie_insert w) cs). trie_ok u"
    using set_child_update [of c "trie_insert w" cs] 2 t by fastforce
  with 2 t show ?case by (simp add: sorted_child_update)
qed

section \<open>The search\<close>

text \<open>
  The row of the table for one more candidate character: \<open>CurrentRow\<close> from \<open>PreviousRow\<close> and
  \<open>PrevPreviousRow\<close>, filled from left to right.
\<close>

definition row_cell ::
  "string \<Rightarrow> char \<Rightarrow> char \<Rightarrow> nat list \<Rightarrow> nat list \<Rightarrow> nat list \<Rightarrow> nat \<Rightarrow> nat" where
  "row_cell Query CurrentChar PrevChar PreviousRow PrevPreviousRow CurrentRow I =
     (let InsertCost = CurrentRow ! (I - 1) + 1;
          DeleteCost = PreviousRow ! I + 1;
          ReplaceCost = PreviousRow ! (I - 1) + (if Query ! (I - 1) = CurrentChar then 0 else 1);
          Best = min InsertCost (min DeleteCost ReplaceCost)
      in if I \<ge> 2 \<and> PrevChar \<noteq> CHR 0x00 \<and> CurrentChar = Query ! (I - 2) \<and> PrevChar = Query ! (I - 1)
         then min Best (PrevPreviousRow ! (I - 2) + 1) else Best)"

definition next_row ::
  "string \<Rightarrow> char \<Rightarrow> char \<Rightarrow> nat list \<Rightarrow> nat list \<Rightarrow> nat list" where
  "next_row Query CurrentChar PrevChar PreviousRow PrevPreviousRow =
     fold (\<lambda>I CurrentRow. CurrentRow[I :=
             row_cell Query CurrentChar PrevChar PreviousRow PrevPreviousRow CurrentRow I])
       [1..<length Query + 1]
       ((replicate (length Query + 1) 0)[0 := PreviousRow ! 0 + 1])"

fun searchRecursive ::
  "TrieNode \<Rightarrow> string \<Rightarrow> char \<Rightarrow> char \<Rightarrow> string \<Rightarrow> nat list \<Rightarrow> nat list \<Rightarrow> nat
     \<Rightarrow> (string \<times> nat) list" where
  "searchRecursive (TrieNode term cs) Prefix CurrentChar PrevChar Query PreviousRow
       PrevPreviousRow MaxDistance =
     (let CurrentRow = next_row Query CurrentChar PrevChar PreviousRow PrevPreviousRow;
          Found = (if term \<and> last CurrentRow \<le> MaxDistance then [(Prefix, last CurrentRow)] else [])
      in if Min (set CurrentRow) > MaxDistance then Found
         else Found @ concat (map (\<lambda>(c, t). searchRecursive t (Prefix @ [c]) c CurrentChar Query
                                      CurrentRow PreviousRow MaxDistance) cs))"

definition trie_search :: "TrieNode \<Rightarrow> string \<Rightarrow> nat \<Rightarrow> (string \<times> nat) list" where
  "trie_search Root Query MaxDistance =
     (let InitialRow = [0..<length Query + 1]
      in concat (map (\<lambda>(c, t). searchRecursive t [c] c (CHR 0x00) Query InitialRow InitialRow
                                 MaxDistance) (Children Root)))"

section \<open>One row per trie node\<close>

text \<open>The row of a candidate prefix is the recurrence's row for it.\<close>

definition rowD :: "string \<Rightarrow> string \<Rightarrow> nat list" where
  "rowD p q = map (osaD p q (length p)) [0..<length q + 1]"

lemma rowD_simps [simp]:
  "length (rowD p q) = length q + 1"
  "j \<le> length q \<Longrightarrow> rowD p q ! j = osaD p q (length p) j"
  by (simp_all add: rowD_def del: upt_Suc)

lemma last_rowD [simp]: "last (rowD p q) = osaD p q (length p) (length q)"
  by (simp add: rowD_def)

lemma rowD_Nil: "rowD [] q = [0..<length q + 1]"
  by (simp add: rowD_def map_idI)

definition prev_char :: "string \<Rightarrow> char" where
  "prev_char p = (if p = [] then CHR 0x00 else last p)"

definition prev_row_ok :: "string \<Rightarrow> string \<Rightarrow> nat list \<Rightarrow> bool" where
  "prev_row_ok p q r \<longleftrightarrow> (p \<noteq> [] \<longrightarrow> r = rowD (butlast p) q)"

lemma osaD_app_row:
  "k \<le> length q \<Longrightarrow> osaD (p @ w) q (length p) k = osaD p q (length p) k"
  by (rule osaD_cong) auto

lemma osaD_snoc_row:
  assumes "CHR 0x00 \<notin> set p" "prev_row_ok p q pp" "Suc j \<le> length q"
    and "row ! j = osaD (p @ [c]) q (Suc (length p)) j"
  shows "row_cell q c (prev_char p) (rowD p q) pp row (Suc j)
    = osaD (p @ [c]) q (Suc (length p)) (Suc j)"
proof -
  let ?s = "p @ [c]" and ?i = "length p"
  have cost: "(q ! (Suc j - 1) = c) = (?s ! ?i = q ! j)" by auto
  have cond: "(Suc j \<ge> 2 \<and> prev_char p \<noteq> CHR 0x00 \<and> c = q ! (Suc j - 2) \<and> prev_char p = q ! (Suc j - 1))
    = (?i > 0 \<and> j > 0 \<and> ?s ! ?i = q ! (j - 1) \<and> ?s ! (?i - 1) = q ! j)"
    using assms(1)
    by (cases p rule: rev_cases) (auto simp: prev_char_def nth_append numeral_2_eq_2)
  have swap: "pp ! (Suc j - 2) = osaD ?s q (?i - 1) (j - 1)" if "?i > 0" "j > 0"
  proof -
    obtain p' b where p: "p = p' @ [b]" using \<open>?i > 0\<close> by (cases p rule: rev_cases) auto
    then show ?thesis
      using assms(2,3) that osaD_app_row [of "j - 1" q p' "[b, c]"]
      by (simp add: prev_row_ok_def numeral_2_eq_2)
  qed
  have up: "rowD p q ! k = osaD ?s q ?i k" if "k \<le> length q" for k
    using that osaD_app_row [OF that, of p "[c]"] by simp
  have best: "min (row ! (Suc j - 1) + 1) (min (rowD p q ! Suc j + 1) (rowD p q ! (Suc j - 1) + x))
    = min (osaD ?s q ?i (Suc j) + 1) (min (osaD ?s q (Suc ?i) j + 1) (osaD ?s q ?i j + x))" for x
    using assms(3,4) up by (simp only: diff_Suc_1 min.left_commute)
  show ?thesis
    unfolding row_cell_def osaD.simps(3) Let_def cost cond best
    by (rule if_cong [OF refl]) (simp_all only: swap simp_thms)
qed

lemma next_row_correct:
  assumes "CHR 0x00 \<notin> set p" "prev_row_ok p q pp"
  shows "next_row q c (prev_char p) (rowD p q) pp = rowD (p @ [c]) q"
proof -
  let ?D = "osaD (p @ [c]) q (Suc (length p))"
  let ?P = "\<lambda>I row. length row = length q + 1 \<and> (\<forall>j < I. row ! j = ?D j)"
  have "?P (length q + 1) (next_row q c (prev_char p) (rowD p q) pp)"
    unfolding next_row_def
  proof (rule fold_upt_invariant [where P = ?P])
    fix I row assume I: "1 \<le> I" "I < length q + 1" and row: "?P I row"
    then obtain j where j: "I = Suc j" by (cases I) auto
    have "row_cell q c (prev_char p) (rowD p q) pp row I = ?D I"
      using assms I row unfolding j by (intro osaD_snoc_row) auto
    then show "?P (Suc I) (row[I := row_cell q c (prev_char p) (rowD p q) pp row I])"
      using row I by (auto simp: nth_list_update less_Suc_eq)
  qed auto
  then show ?thesis by (intro nth_equalityI) auto
qed

section \<open>Pruning loses nothing\<close>

lemma row_lower_bound:
  assumes "a \<le> i" "j \<le> n"
  shows "\<exists>j' \<le> n. osaD s q a j' \<le> osaD s q i j"
  using assms
proof (induction "i + j" arbitrary: i j rule: less_induct)
  case less
  show ?case
  proof (cases "i = a \<or> j = 0")
    case True
    then show ?thesis using less.prems by (auto intro: exI [of _ 0])
  next
    case False
    then obtain i' j' where ij: "i = Suc i'" "j = Suc j'" "a \<le> i'"
      using less.prems by (cases i; cases j) auto
    have rec: "\<exists>k \<le> n. osaD s q a k \<le> osaD s q x y + e" if "a \<le> x" "y \<le> n" "x + y < i + j" for x y e
      using less.hyps [OF that(3,1,2)] by (meson trans_le_add1)
    have swap: "\<exists>k \<le> n. osaD s q a k \<le> osaD s q (i' - 1) (j' - 1) + 1" if "0 < i'" "0 < j'"
    proof (cases "a \<le> i' - 1")
      case True
      then show ?thesis using rec [of "i' - 1" "j' - 1" 1] ij less.prems by simp
    next
      case False
      then have "a = i'" using ij by simp
      then show ?thesis
        using osaD_Suc_Suc [of s q "i' - 1" "j' - 1"] that ij less.prems
        by (intro exI [of _ j']) simp
    qed
    have step: "osaD s q i j \<in> {osaD s q i' j + 1, osaD s q i j' + 1,
        osaD s q i' j' + (if s ! i' = q ! j' then 0 else 1)}
      \<or> 0 < i' \<and> 0 < j' \<and> osaD s q i j = osaD s q (i' - 1) (j' - 1) + 1"
      unfolding ij(1,2) osaD.simps(3) Let_def by (simp add: min_def)
    show ?thesis
      using step rec [of i' j 1] rec [of i j' 1] rec [of i' j' "if s ! i' = q ! j' then 0 else 1"]
        swap ij less.prems
      by (elim disjE conjE insertE emptyE) simp_all
  qed
qed

lemma pruned:
  assumes "Min (set (rowD p q)) > k"
  shows "osaD (p @ w) q (length (p @ w)) (length q) > k"
proof -
  obtain j where j: "j \<le> length q"
      and le: "osaD (p @ w) q (length p) j \<le> osaD (p @ w) q (length (p @ w)) (length q)"
    using row_lower_bound [of "length p" "length (p @ w)" "length q" "length q"] by auto
  have "osaD (p @ w) q (length p) j = rowD p q ! j"
    using j by (simp, intro osaD_cong) auto
  moreover have "rowD p q ! j \<in> set (rowD p q)" using j by (intro nth_mem) simp
  ultimately have "k < osaD (p @ w) q (length p) j"
    using assms by (metis List.finite_set Min_le order.strict_trans2)
  with le show ?thesis by simp
qed

section \<open>What the search returns\<close>

lemma child_size: "(c, t) \<in> set cs \<Longrightarrow> size t < size (TrieNode b cs)"
  by (induction cs) auto

lemma searchRecursive_no_words:
  "trie_words t = {} \<Longrightarrow> searchRecursive t p c pc q row pp k = []"
proof (induction t arbitrary: p c pc row pp rule: measure_induct_rule [of size])
  case (less t)
  obtain b cs where t: "t = TrieNode b cs" by (cases t)
  have "searchRecursive u p' c' pc' q row' pp' k = []" if "(e, u) \<in> set cs" for e u p' c' pc' row' pp'
    using that less.prems t child_size [OF that] by (intro less.IH) (auto split: if_splits)
  with less.prems t show ?case by (auto simp: Let_def split: if_splits)
qed

lemma searchRecursive_set:
  assumes "CHR 0x00 \<notin> set p" "prev_row_ok p q pp"
    and "\<forall>w \<in> trie_words t. CHR 0x00 \<notin> set w" "c \<noteq> CHR 0x00"
  shows "set (searchRecursive t (p @ [c]) c (prev_char p) q (rowD p q) pp k) =
    {(p @ [c] @ w, d) | w d. w \<in> trie_words t \<and>
       d = getLevenshteinDistance (p @ [c] @ w) q \<and> d \<le> k}"
  using assms
proof (induction t arbitrary: p c pp rule: measure_induct_rule [of size])
  case (less t)
  obtain b cs where t: "t = TrieNode b cs" by (cases t)
  let ?row = "rowD (p @ [c]) q"
  let ?dist = "\<lambda>w. osaD (p @ c # w) q (length (p @ c # w)) (length q)"
  have row: "next_row q c (prev_char p) (rowD p q) pp = ?row"
    by (rule next_row_correct [OF less.prems(1,2)])
  show ?case
  proof (cases "Min (set ?row) > k")
    case True
    have far: "?dist w > k" for w using pruned [OF True, of w] by simp
    moreover have "last ?row > k" using far [of "[]"] by simp
    ultimately show ?thesis
      using True t row by (auto simp: getLevenshteinDistance_osaD Let_def dest: leD)
  next
    case False
    have sub: "set (searchRecursive u ((p @ [c]) @ [e]) e c q ?row (rowD p q) k) =
        {((p @ [c]) @ [e] @ w, d) | w d. w \<in> trie_words u \<and>
           d = getLevenshteinDistance ((p @ [c]) @ [e] @ w) q \<and> d \<le> k}"
      if eu: "(e, u) \<in> set cs" for e u
    proof (cases "trie_words u = {}")
      case True
      then show ?thesis by (simp add: searchRecursive_no_words)
    next
      case False
      have "size u < size t" using child_size [OF eu] t by simp
      moreover have nul: "CHR 0x00 \<notin> set (e # w)" if "w \<in> trie_words u" for w
        using less.prems(3) t eu that by fastforce
      then have "\<forall>w \<in> trie_words u. CHR 0x00 \<notin> set w" "e \<noteq> CHR 0x00"
        using False by auto
      moreover have "prev_char (p @ [c]) = c" "prev_row_ok (p @ [c]) q (rowD p q)"
        by (simp_all add: prev_char_def prev_row_ok_def)
      ultimately show ?thesis
        using less.IH [of u "p @ [c]" "rowD p q" e] less.prems(1,4) by simp
    qed
    have "set (searchRecursive t (p @ [c]) c (prev_char p) q (rowD p q) pp k)
      = (if b \<and> last ?row \<le> k then {(p @ [c], last ?row)} else {}) \<union>
        (\<Union>(e, u) \<in> set cs. set (searchRecursive u ((p @ [c]) @ [e]) e c q ?row (rowD p q) k))"
      using False t row by (auto simp: Let_def)
    also have "\<dots> = (if b \<and> last ?row \<le> k then {(p @ [c], last ?row)} else {}) \<union>
        {(p @ [c] @ w, d) | w d. w \<in> child_words cs \<and>
           d = getLevenshteinDistance (p @ [c] @ w) q \<and> d \<le> k}"
      using sub unfolding child_words_def by fastforce
    finally show ?thesis
      unfolding t trie_words_node by (auto simp: getLevenshteinDistance_osaD)
  qed
qed

theorem trie_search_set:
  assumes "\<forall>w \<in> trie_words t. CHR 0x00 \<notin> set w" "[] \<notin> trie_words t"
  shows "set (trie_search t q k) =
    {(w, getLevenshteinDistance w q) | w. w \<in> trie_words t \<and> getLevenshteinDistance w q \<le> k}"
proof -
  obtain b cs where t: "t = TrieNode b cs" by (cases t)
  have sub: "set (searchRecursive u [e] e (CHR 0x00) q (rowD [] q) (rowD [] q) k) =
      {(e # w, d) | w d. w \<in> trie_words u \<and> d = getLevenshteinDistance (e # w) q \<and> d \<le> k}"
    if eu: "(e, u) \<in> set cs" for e u
  proof (cases "trie_words u = {}")
    case True
    then show ?thesis by (simp add: searchRecursive_no_words)
  next
    case False
    have "CHR 0x00 \<notin> set (e # w)" if "w \<in> trie_words u" for w
      using assms(1) t eu that by fastforce
    then show ?thesis
      using False searchRecursive_set [of "[]" q "rowD [] q" u e k]
      by (force simp: prev_row_ok_def prev_char_def)
  qed
  have "set (trie_search t q k)
      = (\<Union>(e, u) \<in> set cs. set (searchRecursive u [e] e (CHR 0x00) q (rowD [] q) (rowD [] q) k))"
    unfolding trie_search_def Let_def rowD_Nil t by auto
  also have "\<dots> = {(w, d) | w d. w \<in> child_words cs \<and> d = getLevenshteinDistance w q \<and> d \<le> k}"
    using sub unfolding child_words_def by fastforce
  also have "child_words cs = trie_words t"
    using assms(2) t by (simp add: trie_words_node split: if_splits del: trie_words.simps)
  finally show ?thesis by auto
qed

section \<open>The interface: an index of words searched by distance\<close>

text \<open>
  What the selection of suggestions relies on: an index that starts empty, takes one more word at
  a time, and answers a search with exactly its words within the given distance.
\<close>

locale word_index =
  fixes index_empty :: 'i
    and index_insert :: "string \<Rightarrow> 'i \<Rightarrow> 'i"
    and index_words :: "'i \<Rightarrow> string set"
    and index_search :: "'i \<Rightarrow> string \<Rightarrow> nat \<Rightarrow> (string \<times> nat) list"
  assumes words_empty: "index_words index_empty = {}"
    and words_insert: "index_words (index_insert w t) = insert w (index_words t)"
    and search_set: "\<forall>w \<in> index_words t. CHR 0x00 \<notin> set w \<Longrightarrow> [] \<notin> index_words t \<Longrightarrow>
      set (index_search t q k) =
        {(w, getLevenshteinDistance w q) | w. w \<in> index_words t \<and> getLevenshteinDistance w q \<le> k}"
begin

lemma words_fold: "index_words (fold index_insert ws t) = set ws \<union> index_words t"
  by (induction ws arbitrary: t) (auto simp: words_insert)

lemma search_built:
  assumes "\<forall>w \<in> set ws. CHR 0x00 \<notin> set w" "[] \<notin> set ws"
  shows "set (index_search (fold index_insert ws index_empty) q k) =
    (\<lambda>w. (w, getLevenshteinDistance w q)) ` {w \<in> set ws. getLevenshteinDistance w q \<le> k}"
  using assms by (subst search_set) (auto simp: words_fold words_empty)

lemma search_finds:
  assumes "\<forall>w \<in> set ws. CHR 0x00 \<notin> set w" "[] \<notin> set ws" "w \<in> set ws"
    and "getLevenshteinDistance w q \<le> k"
  shows "(w, getLevenshteinDistance w q) \<in> set (index_search (fold index_insert ws index_empty) q k)"
  using assms by (simp add: search_built)

end

interpretation trie: word_index empty_node trie_insert trie_words trie_search
  by unfold_locales (auto simp: trie_words_insert trie_search_set)

section \<open>Selecting the suggestions\<close>

definition getThreshold :: "string \<Rightarrow> nat" where
  "getThreshold Query =
     (let N = length Query in if N \<le> 4 then 1 else if N \<le> 7 then 2 else max 3 (N div 3))"

text \<open>
  The loop over the candidates: \<open>Seen\<close> and the trie are its state. \<open>LengthDelta\<close> is the absolute
  difference of the two lengths.
\<close>

definition candidate_step ::
  "string \<Rightarrow> nat \<Rightarrow> string \<Rightarrow> string list \<times> TrieNode \<Rightarrow> string list \<times> TrieNode" where
  "candidate_step Query Threshold Candidate = (\<lambda>(Seen, TrieIndex).
     if Candidate = [] \<or> Candidate = Query then (Seen, TrieIndex)
     else let LengthDelta = \<bar>int (length Candidate) - int (length Query)\<bar>
       in if LengthDelta > int Threshold then (Seen, TrieIndex)
          else if Candidate \<in> set Seen then (Seen, TrieIndex)
          else (Candidate # Seen, trie_insert Candidate TrieIndex))"

text \<open>The loop over the sorted matches: it stops as soon as \<open>MaxResults\<close> names are collected.\<close>

fun pick_matches :: "nat \<Rightarrow> (string \<times> nat) list \<Rightarrow> string list \<Rightarrow> string list \<Rightarrow> string list" where
  "pick_matches MaxResults [] Added Suggestions = Suggestions"
| "pick_matches MaxResults ((w, d) # Matches) Added Suggestions =
     (if w \<in> set Added then pick_matches MaxResults Matches Added Suggestions
      else let Suggestions' = Suggestions @ [w]
        in if length Suggestions' = MaxResults then Suggestions'
           else pick_matches MaxResults Matches (w # Added) Suggestions')"

definition suggestFromCandidates :: "string \<Rightarrow> string list \<Rightarrow> nat \<Rightarrow> string list" where
  "suggestFromCandidates Query Candidates MaxResults =
     (if Query = [] \<or> Candidates = [] \<or> MaxResults = 0 then []
      else let Threshold = getThreshold Query;
               TrieIndex = snd (fold (candidate_step Query Threshold) Candidates ([], empty_node));
               Matches = sort_key (\<lambda>(w, d). (d, w)) (trie_search TrieIndex Query Threshold)
        in pick_matches MaxResults Matches [] [])"

text \<open>\<open>suggestVisible\<close> is the entry point for the names in scope.\<close>

definition suggestVisible :: "string \<Rightarrow> string list \<Rightarrow> nat \<Rightarrow> string list" where
  "suggestVisible Query VisibleNames MaxResults = suggestFromCandidates Query VisibleNames MaxResults"

section \<open>What the selection returns\<close>

text \<open>The length filter drops no word within the threshold.\<close>

lemma getLevenshteinDistance_length:
  "\<bar>int (length s) - int (length t)\<bar> \<le> int (getLevenshteinDistance s t)"
  using align_length [OF align_osaD [of s t]] by (auto simp: getLevenshteinDistance_osaD)

definition candidate_ok :: "string \<Rightarrow> string \<Rightarrow> bool" where
  "candidate_ok q w \<longleftrightarrow> w \<noteq> [] \<and> w \<noteq> q \<and>
     \<bar>int (length w) - int (length q)\<bar> \<le> int (getThreshold q)"

lemma candidate_fold:
  "fold (candidate_step q (getThreshold q)) cs (Seen, fold trie_insert ws t) = (Seen', t') \<Longrightarrow>
   set ws = set Seen \<Longrightarrow>
   \<exists>ws'. t' = fold trie_insert ws' t \<and> set ws' = set ws \<union> {w \<in> set cs. candidate_ok q w}"
proof (induction cs arbitrary: Seen ws)
  case Nil
  then show ?case by auto
next
  case (Cons c cs)
  show ?case
  proof (cases "candidate_ok q c \<and> c \<notin> set Seen")
    case True
    then have "candidate_step q (getThreshold q) c (Seen, fold trie_insert ws t)
        = (c # Seen, fold trie_insert (ws @ [c]) t)"
      by (auto simp: candidate_step_def candidate_ok_def)
    with Cons.prems True show ?thesis
      using Cons.IH [of "c # Seen" "ws @ [c]"] by auto
  next
    case False
    then have "candidate_step q (getThreshold q) c (Seen, fold trie_insert ws t)
        = (Seen, fold trie_insert ws t)"
      by (auto simp: candidate_step_def candidate_ok_def)
    with Cons.prems False show ?thesis
      using Cons.IH [of Seen ws] by auto
  qed
qed

fun dedup :: "'a set \<Rightarrow> 'a list \<Rightarrow> 'a list" where
  "dedup A [] = []"
| "dedup A (x # xs) = (if x \<in> A then dedup A xs else x # dedup (insert x A) xs)"

lemma set_dedup: "set (dedup A xs) = set xs - A"
  by (induction A xs rule: dedup.induct) auto

lemma distinct_dedup: "distinct (dedup A xs)"
  by (induction A xs rule: dedup.induct) (auto simp: set_dedup)

lemma sorted_dedup: "sorted (map f xs) \<Longrightarrow> sorted (map f (dedup A xs))"
  by (induction A xs rule: dedup.induct) (auto simp: set_dedup)

lemma pick_matches_dedup:
  "length S < k \<Longrightarrow>
     pick_matches k ms Added S = S @ take (k - length S) (dedup (set Added) (map fst ms))"
  by (induction k ms Added S rule: pick_matches.induct) (auto simp: Let_def take_Cons')

definition nearest :: "string \<Rightarrow> string set \<Rightarrow> (nat \<times> string) list" where
  "nearest q W = sorted_list_of_set ((\<lambda>w. (getLevenshteinDistance w q, w)) ` W)"

lemma dedup_nearest:
  assumes "set ms = (\<lambda>w. (w, getLevenshteinDistance w q)) ` W" "finite W"
  shows "dedup {} (map fst (sort_key (\<lambda>(w, d). (d, w)) ms)) = map snd (nearest q W)"
proof -
  let ?key = "\<lambda>w. (getLevenshteinDistance w q, w)"
  let ?ms = "sort_key (\<lambda>(w, d). (d, w)) ms"
  let ?ws = "map fst ?ms"
  have keys: "map ?key ?ws = map (\<lambda>(w, d). (d, w)) ?ms"
    using assms(1) by (auto simp: image_iff)
  have "sorted (map ?key ?ws)"
    unfolding keys by (rule sorted_sort_key)
  then have srt: "sorted (map ?key (dedup {} ?ws))" by (rule sorted_dedup)
  have dst: "distinct (map ?key (dedup {} ?ws))"
    by (auto simp: distinct_map distinct_dedup inj_on_def)
  have st: "set (map ?key (dedup {} ?ws)) = ?key ` W"
    using assms(1) by (simp add: set_dedup image_image)
  have "map ?key (dedup {} ?ws) = nearest q W"
    unfolding nearest_def
    by (rule sorted_distinct_set_unique) (use srt dst st assms(2) in simp_all)
  then have "map snd (nearest q W) = map snd (map ?key (dedup {} ?ws))" by simp
  then show ?thesis by (simp add: comp_def)
qed

text \<open>
  C30. The suggestions for a query are the (at most) \<open>MaxResults\<close> nearest candidates: all candidates
  other than the query itself whose edit distance is within the threshold, ordered by distance and
  then alphabetically. Neither the length filter, nor the row-by-row search of the trie, nor its
  pruning loses or reorders any of them.
\<close>

theorem suggestFromCandidates_nearest:
  assumes "Query \<noteq> []" "\<forall>w \<in> set Candidates. CHR 0x00 \<notin> set w"
  shows "suggestFromCandidates Query Candidates MaxResults =
    take MaxResults (map snd (nearest Query {w \<in> set Candidates. w \<noteq> [] \<and> w \<noteq> Query \<and>
      getLevenshteinDistance w Query \<le> getThreshold Query}))"
proof (cases "Candidates = [] \<or> MaxResults = 0")
  case True
  then show ?thesis by (auto simp: suggestFromCandidates_def nearest_def)
next
  case False
  let ?k = "getThreshold Query"
  let ?W = "{w \<in> set Candidates. w \<noteq> [] \<and> w \<noteq> Query \<and> getLevenshteinDistance w Query \<le> ?k}"
  obtain Seen t where fold: "fold (candidate_step Query ?k) Candidates ([], empty_node) = (Seen, t)"
    by fastforce
  then obtain ws where t: "t = fold trie_insert ws empty_node"
    and ws: "set ws = {w \<in> set Candidates. candidate_ok Query w}"
    using candidate_fold [of Query Candidates "[]" "[]" empty_node] by auto
  have near: "\<bar>int (length w) - int (length Query)\<bar> \<le> int ?k"
    if "getLevenshteinDistance w Query \<le> ?k" for w
    using getLevenshteinDistance_length [of w Query] that by linarith
  have "{w \<in> set ws. getLevenshteinDistance w Query \<le> ?k} = ?W"
    unfolding ws candidate_ok_def using near by blast
  moreover have "set (trie_search t Query ?k)
      = (\<lambda>w. (w, getLevenshteinDistance w Query)) ` {w \<in> set ws. getLevenshteinDistance w Query \<le> ?k}"
    unfolding t by (rule trie.search_built) (use assms(2) ws in \<open>auto simp: candidate_ok_def\<close>)
  ultimately have "set (trie_search t Query ?k) = (\<lambda>w. (w, getLevenshteinDistance w Query)) ` ?W"
    by simp
  then have "dedup {} (map fst (sort_key (\<lambda>(w, d). (d, w)) (trie_search t Query ?k)))
      = map snd (nearest Query ?W)"
    by (rule dedup_nearest) simp
  then show ?thesis
    using assms(1) False fold by (simp add: suggestFromCandidates_def Let_def pick_matches_dedup)
qed

theorem suggestFromCandidates_nearest_witness:
  "suggestFromCandidates ''itn'' [''bool'', ''in'', ''int'', ''into''] 2 =
     take 2 (map snd (nearest ''itn'' {w \<in> set [''bool'', ''in'', ''int'', ''into'']. w \<noteq> [] \<and> w \<noteq> ''itn'' \<and>
       getLevenshteinDistance w ''itn'' \<le> getThreshold ''itn''}))
   \<and> suggestFromCandidates ''itn'' [''bool'', ''in'', ''int'', ''into''] 2 = [''in'', ''int'']"
proof
  show "suggestFromCandidates ''itn'' [''bool'', ''in'', ''int'', ''into''] 2 =
     take 2 (map snd (nearest ''itn'' {w \<in> set [''bool'', ''in'', ''int'', ''into'']. w \<noteq> [] \<and> w \<noteq> ''itn'' \<and>
       getLevenshteinDistance w ''itn'' \<le> getThreshold ''itn''}))"
    by (rule suggestFromCandidates_nearest) simp_all
  show "suggestFromCandidates ''itn'' [''bool'', ''in'', ''int'', ''into''] 2 = [''in'', ''int'']"
    by code_simp
qed

end
