(* ===== verification/LexToken.thy ===== *)
theory LexToken
  imports Prelude
begin

text \<open>
  \<open>src/src/frontend/Lexer.h\<close> and the head of \<open>src/src/frontend/Lexer.cpp\<close>: source locations, token
  codes, the keyword table and the display form of operators. A token is an \<open>int\<close> as in the
  source: a negative code of \<open>enum Token\<close>, or the byte value of a single character. A character read
  from the stream is an \<open>int\<close> too: a byte value, or \<open>EOF = -1\<close>.
\<close>

section \<open>Source locations\<close>

text \<open>
  \<open>SourceLocation\<close>; \<open>EndLine = EndCol = -1\<close> means that no end was recorded. \<open>loc3\<close> is the
  three-argument aggregate initialisation \<open>{Line, Col, Filename}\<close>.
\<close>

record SourceLocation =
  Line :: int
  Col :: int
  LocFilename :: string
  EndLine :: int
  EndCol :: int

definition loc3 :: "int \<Rightarrow> int \<Rightarrow> string \<Rightarrow> SourceLocation" where
  "loc3 l c f = \<lparr>Line = l, Col = c, LocFilename = f, EndLine = -1, EndCol = -1\<rparr>"

lemma loc3_simps [simp]:
  "Line (loc3 l c f) = l" "Col (loc3 l c f) = c" "LocFilename (loc3 l c f) = f"
  "EndLine (loc3 l c f) = -1" "EndCol (loc3 l c f) = -1"
  by (simp_all add: loc3_def)

section \<open>Token codes\<close>

definition EOF :: int where [simp]: "EOF = -1"

definition TOK_EOF :: int where [simp]: "TOK_EOF = -1"
definition TOK_NUMBER :: int where [simp]: "TOK_NUMBER = -2"
definition TOK_IDENTIFIER :: int where [simp]: "TOK_IDENTIFIER = -3"
definition TOK_ASSIGN :: int where [simp]: "TOK_ASSIGN = -4"
definition TOK_ELSE :: int where [simp]: "TOK_ELSE = -6"
definition TOK_IF :: int where [simp]: "TOK_IF = -7"
definition TOK_WHILE :: int where [simp]: "TOK_WHILE = -8"
definition TOK_EQ :: int where [simp]: "TOK_EQ = -9"
definition TOK_NEQ :: int where [simp]: "TOK_NEQ = -10"
definition TOK_LEQ :: int where [simp]: "TOK_LEQ = -11"
definition TOK_GEQ :: int where [simp]: "TOK_GEQ = -12"
definition TOK_INT_LITERAL :: int where [simp]: "TOK_INT_LITERAL = -13"
definition TOK_BOOL_LITERAL :: int where [simp]: "TOK_BOOL_LITERAL = -14"
definition TOK_TYPE_INT :: int where [simp]: "TOK_TYPE_INT = -15"
definition TOK_TYPE_DOUBLE :: int where [simp]: "TOK_TYPE_DOUBLE = -16"
definition TOK_TYPE_BOOL :: int where [simp]: "TOK_TYPE_BOOL = -17"
definition TOK_STRING_LITERAL :: int where [simp]: "TOK_STRING_LITERAL = -18"
definition TOK_TYPE_STRING :: int where [simp]: "TOK_TYPE_STRING = -19"
definition TOK_AND :: int where [simp]: "TOK_AND = -20"
definition TOK_OR :: int where [simp]: "TOK_OR = -21"
definition TOK_CONV_INT :: int where [simp]: "TOK_CONV_INT = -22"
definition TOK_CONV_DOUBLE :: int where [simp]: "TOK_CONV_DOUBLE = -23"
definition TOK_TYPE_VOID :: int where [simp]: "TOK_TYPE_VOID = -24"
definition TOK_RETURN :: int where [simp]: "TOK_RETURN = -25"
definition TOK_FN :: int where [simp]: "TOK_FN = -26"
definition TOK_BREAK :: int where [simp]: "TOK_BREAK = -27"
definition TOK_CONTINUE :: int where [simp]: "TOK_CONTINUE = -28"
definition TOK_PLUS_ASSIGN :: int where [simp]: "TOK_PLUS_ASSIGN = -29"
definition TOK_MINUS_ASSIGN :: int where [simp]: "TOK_MINUS_ASSIGN = -30"
definition TOK_MUL_ASSIGN :: int where [simp]: "TOK_MUL_ASSIGN = -31"
definition TOK_DIV_ASSIGN :: int where [simp]: "TOK_DIV_ASSIGN = -32"
definition TOK_MOD_ASSIGN :: int where [simp]: "TOK_MOD_ASSIGN = -33"
definition TOK_PLUS_PLUS :: int where [simp]: "TOK_PLUS_PLUS = -34"
definition TOK_MINUS_MINUS :: int where [simp]: "TOK_MINUS_MINUS = -35"
definition TOK_FOR :: int where [simp]: "TOK_FOR = -36"
definition TOK_IN :: int where [simp]: "TOK_IN = -37"
definition TOK_STEP :: int where [simp]: "TOK_STEP = -38"
definition TOK_RANGE :: int where [simp]: "TOK_RANGE = -39"
definition TOK_ELSEIF :: int where [simp]: "TOK_ELSEIF = -40"
definition TOK_STRUCT :: int where [simp]: "TOK_STRUCT = -42"
definition TOK_SELF :: int where [simp]: "TOK_SELF = -43"
definition TOK_SIZEOF :: int where [simp]: "TOK_SIZEOF = -44"
definition TOK_IMPORT :: int where [simp]: "TOK_IMPORT = -45"
definition TOK_AT :: int where [simp]: "TOK_AT = -46"
definition TOK_LOOP :: int where [simp]: "TOK_LOOP = -50"
definition TOK_NULL :: int where [simp]: "TOK_NULL = -51"
definition TOK_MUTABLE :: int where [simp]: "TOK_MUTABLE = -65"
definition TOK_IMMUTABLE :: int where [simp]: "TOK_IMMUTABLE = -66"
definition TOK_COLON :: int where [simp]: "TOK_COLON = -67"
definition TOK_TO :: int where [simp]: "TOK_TO = -68"
definition TOK_GIVE :: int where [simp]: "TOK_GIVE = -69"
definition TOK_OTHERWISE :: int where [simp]: "TOK_OTHERWISE = -70"
definition TOK_EXTERN :: int where [simp]: "TOK_EXTERN = -71"
definition TOK_PTR :: int where [simp]: "TOK_PTR = -72"
definition TOK_ELLIPSIS :: int where [simp]: "TOK_ELLIPSIS = -73"
definition TOK_SCOPE :: int where [simp]: "TOK_SCOPE = -74"
definition TOK_COMPARE :: int where [simp]: "TOK_COMPARE = -75"
definition TOK_MATCHES :: int where [simp]: "TOK_MATCHES = -76"
definition TOK_DONE :: int where [simp]: "TOK_DONE = -77"
definition TOK_POWER :: int where [simp]: "TOK_POWER = -78"
definition TOK_ENUM :: int where [simp]: "TOK_ENUM = -81"
definition TOK_LSHIFT :: int where [simp]: "TOK_LSHIFT = -79"
definition TOK_RSHIFT :: int where [simp]: "TOK_RSHIFT = -80"
definition TOK_EXPORT :: int where [simp]: "TOK_EXPORT = -82"
definition TOK_STATIC :: int where [simp]: "TOK_STATIC = -83"
definition TOK_TYPE_CHAR :: int where [simp]: "TOK_TYPE_CHAR = -84"
definition TOK_CHAR_LITERAL :: int where [simp]: "TOK_CHAR_LITERAL = -85"
definition TOK_OPERATOR :: int where [simp]: "TOK_OPERATOR = -86"
definition TOK_TYPE_INT32 :: int where [simp]: "TOK_TYPE_INT32 = -87"
definition TOK_ERROR :: int where [simp]: "TOK_ERROR = -88"
definition TOK_RECOVER :: int where [simp]: "TOK_RECOVER = -89"
definition TOK_PRODUCE :: int where [simp]: "TOK_PRODUCE = -90"
definition TOK_RUN :: int where [simp]: "TOK_RUN = -91"
definition TOK_AS :: int where [simp]: "TOK_AS = -92"
definition TOK_DO :: int where [simp]: "TOK_DO = -93"
definition TOK_AND_ASSIGN :: int where [simp]: "TOK_AND_ASSIGN = -94"
definition TOK_OR_ASSIGN :: int where [simp]: "TOK_OR_ASSIGN = -95"
definition TOK_XOR_ASSIGN :: int where [simp]: "TOK_XOR_ASSIGN = -96"
definition TOK_LSHIFT_ASSIGN :: int where [simp]: "TOK_LSHIFT_ASSIGN = -97"
definition TOK_RSHIFT_ASSIGN :: int where [simp]: "TOK_RSHIFT_ASSIGN = -98"
definition TOK_POWER_ASSIGN :: int where [simp]: "TOK_POWER_ASSIGN = -99"
definition TOK_MACHINE :: int where [simp]: "TOK_MACHINE = -100"
definition TOK_ARROW :: int where [simp]: "TOK_ARROW = -101"
definition TOK_UNSAFE :: int where [simp]: "TOK_UNSAFE = -102"
definition TOK_GUESS :: int where [simp]: "TOK_GUESS = -103"
definition TOK_DEFER :: int where [simp]: "TOK_DEFER = -104"
definition TOK_PUB :: int where [simp]: "TOK_PUB = -106"
definition TOK_WILDCARD :: int where [simp]: "TOK_WILDCARD = -107"
definition TOK_TRY :: int where [simp]: "TOK_TRY = -108"
definition TOK_CALLER_LOCATION :: int where [simp]: "TOK_CALLER_LOCATION = -105"

text \<open>The enumeration as a table.\<close>

definition Token_enum :: "(string \<times> int) list" where
  "Token_enum = [
   (''TOK_EOF'', TOK_EOF), (''TOK_NUMBER'', TOK_NUMBER), (''TOK_IDENTIFIER'', TOK_IDENTIFIER),
   (''TOK_ASSIGN'', TOK_ASSIGN), (''TOK_ELSE'', TOK_ELSE), (''TOK_IF'', TOK_IF),
   (''TOK_WHILE'', TOK_WHILE), (''TOK_EQ'', TOK_EQ), (''TOK_NEQ'', TOK_NEQ),
   (''TOK_LEQ'', TOK_LEQ), (''TOK_GEQ'', TOK_GEQ), (''TOK_INT_LITERAL'', TOK_INT_LITERAL),
   (''TOK_BOOL_LITERAL'', TOK_BOOL_LITERAL), (''TOK_TYPE_INT'', TOK_TYPE_INT),
   (''TOK_TYPE_DOUBLE'', TOK_TYPE_DOUBLE), (''TOK_TYPE_BOOL'', TOK_TYPE_BOOL),
   (''TOK_STRING_LITERAL'', TOK_STRING_LITERAL), (''TOK_TYPE_STRING'', TOK_TYPE_STRING),
   (''TOK_AND'', TOK_AND), (''TOK_OR'', TOK_OR), (''TOK_CONV_INT'', TOK_CONV_INT),
   (''TOK_CONV_DOUBLE'', TOK_CONV_DOUBLE), (''TOK_TYPE_VOID'', TOK_TYPE_VOID),
   (''TOK_RETURN'', TOK_RETURN), (''TOK_FN'', TOK_FN), (''TOK_BREAK'', TOK_BREAK),
   (''TOK_CONTINUE'', TOK_CONTINUE), (''TOK_PLUS_ASSIGN'', TOK_PLUS_ASSIGN),
   (''TOK_MINUS_ASSIGN'', TOK_MINUS_ASSIGN), (''TOK_MUL_ASSIGN'', TOK_MUL_ASSIGN),
   (''TOK_DIV_ASSIGN'', TOK_DIV_ASSIGN), (''TOK_MOD_ASSIGN'', TOK_MOD_ASSIGN),
   (''TOK_PLUS_PLUS'', TOK_PLUS_PLUS), (''TOK_MINUS_MINUS'', TOK_MINUS_MINUS),
   (''TOK_FOR'', TOK_FOR), (''TOK_IN'', TOK_IN), (''TOK_STEP'', TOK_STEP),
   (''TOK_RANGE'', TOK_RANGE), (''TOK_ELSEIF'', TOK_ELSEIF), (''TOK_STRUCT'', TOK_STRUCT),
   (''TOK_SELF'', TOK_SELF), (''TOK_SIZEOF'', TOK_SIZEOF), (''TOK_IMPORT'', TOK_IMPORT),
   (''TOK_AT'', TOK_AT), (''TOK_LOOP'', TOK_LOOP), (''TOK_NULL'', TOK_NULL),
   (''TOK_MUTABLE'', TOK_MUTABLE), (''TOK_IMMUTABLE'', TOK_IMMUTABLE),
   (''TOK_COLON'', TOK_COLON), (''TOK_TO'', TOK_TO), (''TOK_GIVE'', TOK_GIVE),
   (''TOK_OTHERWISE'', TOK_OTHERWISE), (''TOK_EXTERN'', TOK_EXTERN), (''TOK_PTR'', TOK_PTR),
   (''TOK_ELLIPSIS'', TOK_ELLIPSIS), (''TOK_SCOPE'', TOK_SCOPE), (''TOK_COMPARE'', TOK_COMPARE),
   (''TOK_MATCHES'', TOK_MATCHES), (''TOK_DONE'', TOK_DONE), (''TOK_POWER'', TOK_POWER),
   (''TOK_ENUM'', TOK_ENUM), (''TOK_LSHIFT'', TOK_LSHIFT), (''TOK_RSHIFT'', TOK_RSHIFT),
   (''TOK_EXPORT'', TOK_EXPORT), (''TOK_STATIC'', TOK_STATIC),
   (''TOK_TYPE_CHAR'', TOK_TYPE_CHAR), (''TOK_CHAR_LITERAL'', TOK_CHAR_LITERAL),
   (''TOK_OPERATOR'', TOK_OPERATOR), (''TOK_TYPE_INT32'', TOK_TYPE_INT32),
   (''TOK_ERROR'', TOK_ERROR), (''TOK_RECOVER'', TOK_RECOVER), (''TOK_PRODUCE'', TOK_PRODUCE),
   (''TOK_RUN'', TOK_RUN), (''TOK_AS'', TOK_AS), (''TOK_DO'', TOK_DO),
   (''TOK_AND_ASSIGN'', TOK_AND_ASSIGN), (''TOK_OR_ASSIGN'', TOK_OR_ASSIGN),
   (''TOK_XOR_ASSIGN'', TOK_XOR_ASSIGN), (''TOK_LSHIFT_ASSIGN'', TOK_LSHIFT_ASSIGN),
   (''TOK_RSHIFT_ASSIGN'', TOK_RSHIFT_ASSIGN), (''TOK_POWER_ASSIGN'', TOK_POWER_ASSIGN),
   (''TOK_MACHINE'', TOK_MACHINE), (''TOK_ARROW'', TOK_ARROW), (''TOK_UNSAFE'', TOK_UNSAFE),
   (''TOK_GUESS'', TOK_GUESS), (''TOK_DEFER'', TOK_DEFER), (''TOK_PUB'', TOK_PUB),
   (''TOK_WILDCARD'', TOK_WILDCARD), (''TOK_TRY'', TOK_TRY),
   (''TOK_CALLER_LOCATION'', TOK_CALLER_LOCATION)]"

text \<open>Reserved words and their tokens.\<close>

definition Keywords :: "(string \<times> int) list" where
  "Keywords = [
   (''if'', TOK_IF), (''else'', TOK_ELSE), (''while'', TOK_WHILE), (''do'', TOK_DO),
   (''int'', TOK_TYPE_INT), (''float'', TOK_TYPE_DOUBLE), (''double'', TOK_TYPE_DOUBLE),
   (''bool'', TOK_TYPE_BOOL), (''char'', TOK_TYPE_CHAR), (''true'', TOK_BOOL_LITERAL),
   (''false'', TOK_BOOL_LITERAL), (''string'', TOK_TYPE_STRING), (''void'', TOK_TYPE_VOID),
   (''return'', TOK_RETURN), (''fn'', TOK_FN), (''break'', TOK_BREAK),
   (''continue'', TOK_CONTINUE), (''for'', TOK_FOR), (''in'', TOK_IN), (''step'', TOK_STEP),
   (''elseif'', TOK_ELSEIF), (''struct'', TOK_STRUCT), (''self'', TOK_SELF),
   (''sizeof'', TOK_SIZEOF), (''import'', TOK_IMPORT), (''enum'', TOK_ENUM),
   (''machine'', TOK_MACHINE), (''null'', TOK_NULL), (''mutable'', TOK_MUTABLE),
   (''mut'', TOK_MUTABLE), (''immutable'', TOK_IMMUTABLE), (''immut'', TOK_IMMUTABLE),
   (''to'', TOK_TO), (''give'', TOK_GIVE), (''otherwise'', TOK_OTHERWISE),
   (''extern'', TOK_EXTERN), (''ptr'', TOK_PTR), (''compare'', TOK_COMPARE),
   (''matches'', TOK_MATCHES), (''done'', TOK_DONE), (''export'', TOK_EXPORT),
   (''static'', TOK_STATIC), (''operator'', TOK_OPERATOR), (''int32'', TOK_TYPE_INT32),
   (''error'', TOK_ERROR), (''recover'', TOK_RECOVER), (''try'', TOK_TRY),
   (''produce'', TOK_PRODUCE), (''run'', TOK_RUN), (''as'', TOK_AS), (''unsafe'', TOK_UNSAFE),
   (''guess'', TOK_GUESS), (''defer'', TOK_DEFER), (''pub'', TOK_PUB), (''public'', TOK_PUB),
   (''caller_location'', TOK_CALLER_LOCATION)]"

section \<open>Character classes\<close>

text \<open>\<open>ch c\<close> is the byte value of a character; the classes are those of the "C" locale.\<close>

abbreviation ch :: "char \<Rightarrow> int" where
  "ch c \<equiv> of_char c"

abbreviation to_char :: "int \<Rightarrow> char" where
  "to_char n \<equiv> char_of n"

definition isspace :: "int \<Rightarrow> bool" where
  "isspace c \<longleftrightarrow> c = 32 \<or> 9 \<le> c \<and> c \<le> 13"

definition isdigit :: "int \<Rightarrow> bool" where
  "isdigit c \<longleftrightarrow> 48 \<le> c \<and> c \<le> 57"

definition isalpha :: "int \<Rightarrow> bool" where
  "isalpha c \<longleftrightarrow> 65 \<le> c \<and> c \<le> 90 \<or> 97 \<le> c \<and> c \<le> 122"

definition isalnum :: "int \<Rightarrow> bool" where
  "isalnum c \<longleftrightarrow> isalpha c \<or> isdigit c"

definition isxdigit :: "int \<Rightarrow> bool" where
  "isxdigit c \<longleftrightarrow> isdigit c \<or> 65 \<le> c \<and> c \<le> 70 \<or> 97 \<le> c \<and> c \<le> 102"

definition isprint :: "int \<Rightarrow> bool" where
  "isprint c \<longleftrightarrow> 32 \<le> c \<and> c \<le> 126"

lemmas char_class_defs = isspace_def isdigit_def isalpha_def isalnum_def isxdigit_def isprint_def

lemma not_class_EOF [simp]:
  "\<not> isspace (-1)" "\<not> isdigit (-1)" "\<not> isalpha (-1)" "\<not> isalnum (-1)" "\<not> isxdigit (-1)"
  by (simp_all add: char_class_defs)

lemma ch_nat: "ch c = int (of_char c)"
  by (rule of_nat_of_char [symmetric])

lemma ch_nonneg [simp]: "0 \<le> ch c"
  unfolding ch_nat by (rule of_nat_0_le_iff)

lemma ch_less [simp]: "ch c < 256"
  unfolding ch_nat using nat_of_char_less_256 [of c] by linarith

lemma ch_not_EOF [simp]: "ch c \<noteq> -1" "-1 \<noteq> ch c"
  using ch_nonneg [of c] by linarith+

lemma to_char_ch [simp]: "to_char (ch c) = c"
  by simp

section \<open>Displaying an operator\<close>

fun digits_of :: "nat \<Rightarrow> string" where
  "digits_of n = (if n < 10 then [char_of (48 + n)] else digits_of (n div 10) @ [char_of (48 + n mod 10)])"

declare digits_of.simps [simp del]

definition to_string :: "int \<Rightarrow> string" where
  "to_string i = (if i < 0 then CHR ''-'' # digits_of (nat (- i)) else digits_of (nat i))"

definition OpToDisplayString :: "int \<Rightarrow> string" where
  "OpToDisplayString Op =
    (if Op = TOK_EQ then ''=='' else if Op = TOK_NEQ then ''!=''
     else if Op = TOK_LEQ then ''<='' else if Op = TOK_GEQ then ''>=''
     else if Op = TOK_AND then ''&&'' else if Op = TOK_OR then ''||''
     else if Op = TOK_PLUS_PLUS then ''++'' else if Op = TOK_MINUS_MINUS then ''--''
     else if Op = TOK_POWER then ''**'' else if Op = TOK_LSHIFT then ''<<''
     else if Op = TOK_RSHIFT then ''>>'' else if Op = TOK_AND_ASSIGN then ''&=''
     else if Op = TOK_OR_ASSIGN then ''|='' else if Op = TOK_XOR_ASSIGN then ''^=''
     else if Op = TOK_LSHIFT_ASSIGN then ''<<='' else if Op = TOK_RSHIFT_ASSIGN then ''>>=''
     else if Op = TOK_POWER_ASSIGN then ''**='' else if Op = TOK_ARROW then ''->''
     else if 0 \<le> Op \<and> Op \<le> 127 \<and> isprint Op then [to_char Op]
     else ''op#'' @ to_string Op)"

end
