(* ===== verification/CppString.thy ===== *)
theory CppString
  imports Prelude
begin

text \<open>
  The parts of \<open>std::string\<close> the sources use: searching for a substring from either end, testing a
  prefix, and the decimal rendering of \<open>std::to_string\<close>.
\<close>

definition starts_with :: "string \<Rightarrow> string \<Rightarrow> bool" where
  "starts_with needle hay \<longleftrightarrow> take (length needle) hay = needle"

lemma starts_with_iff: "starts_with needle hay \<longleftrightarrow> (\<exists>b. hay = needle @ b)"
  unfolding starts_with_def by (metis append_eq_conv_conj append_take_drop_id)

text \<open>\<open>hay.find(needle)\<close>: the first position, \<open>None\<close> for \<open>npos\<close>.\<close>

fun str_find :: "string \<Rightarrow> string \<Rightarrow> nat option" where
  "str_find needle [] = (if needle = [] then Some 0 else None)"
| "str_find needle (c # cs) =
    (if starts_with needle (c # cs) then Some 0 else map_option Suc (str_find needle cs))"

definition contains :: "string \<Rightarrow> string \<Rightarrow> bool" where
  "contains needle hay \<longleftrightarrow> str_find needle hay \<noteq> None"

lemma str_find_None: "str_find needle hay = None \<longleftrightarrow> (\<nexists>a b. hay = a @ needle @ b)"
proof (induction hay)
  case Nil
  then show ?case by simp
next
  case (Cons c cs)
  have "(\<exists>a b. c # cs = a @ needle @ b) \<longleftrightarrow>
      (\<exists>b. c # cs = needle @ b) \<or> (\<exists>a b. cs = a @ needle @ b)"
    by (auto simp: Cons_eq_append_conv)
  then show ?case using Cons.IH by (simp add: starts_with_iff)
qed

lemma contains_iff: "contains needle hay \<longleftrightarrow> (\<exists>a b. hay = a @ needle @ b)"
  unfolding contains_def by (simp add: str_find_None)

lemma contains_append: "contains n a \<Longrightarrow> contains n (a @ b)" "contains n b \<Longrightarrow> contains n (a @ b)"
  unfolding contains_iff by (metis append.assoc)+

lemma starts_with_append [simp]: "starts_with n (n @ b)"
  by (simp add: starts_with_iff)

text \<open>\<open>hay.rfind(needle)\<close>, as the text from that position on.\<close>

fun rfind_suffix :: "string \<Rightarrow> string \<Rightarrow> string option" where
  "rfind_suffix needle [] = (if needle = [] then Some [] else None)"
| "rfind_suffix needle (c # cs) =
    (case rfind_suffix needle cs of
       Some s \<Rightarrow> Some s
     | None \<Rightarrow> if starts_with needle (c # cs) then Some (c # cs) else None)"

lemma rfind_suffix_Some: "rfind_suffix needle hay = Some s \<Longrightarrow> \<exists>a b. hay = a @ s \<and> s = needle @ b"
proof (induction hay arbitrary: s)
  case Nil
  then show ?case by (simp split: if_splits)
next
  case (Cons c cs)
  show ?case
  proof (cases "rfind_suffix needle cs")
    case None
    with Cons.prems have "starts_with needle (c # cs)" "s = c # cs"
      by (simp_all split: if_splits)
    then show ?thesis by (auto simp: starts_with_iff)
  next
    case (Some t)
    with Cons.prems Cons.IH [of t] show ?thesis by (auto intro: exI [of _ "c # _"])
  qed
qed

lemma rfind_suffix_None: "rfind_suffix needle hay = None \<longleftrightarrow> \<not> contains needle hay"
proof (induction hay)
  case Nil
  then show ?case by (simp add: contains_def)
next
  case (Cons c cs)
  then show ?case by (auto simp: contains_def split: option.split)
qed

end
