(* ===== verification/ErrorCodes.thy ===== *)
theory ErrorCodes
  imports CppString
begin

text \<open>
  \<open>src/src/diagnostics/ErrorCategory.h\<close> and \<open>src/src/diagnostics/ErrorCodes.h\<close>: the categories of a
  diagnostic, the fix-its and hints it carries, and the registry of diagnostic codes with its
  look-ups. The installation root (\<open>TurfInstallRoot\<close>) and the file system are parameters.
\<close>

section \<open>Fix-its, hints and categories\<close>

record FixIt =
  FixLine :: int
  StartCol :: int
  FixEndCol :: int
  Replacement :: string

record DiagnosticHints =
  KnownTypes :: "string list"
  Construct :: string
  ReceiverDecl :: string
  FixIts :: "FixIt list"
  FixReason :: string
  FixDescription :: string

definition no_hints :: DiagnosticHints where
  "no_hints = \<lparr>KnownTypes = [], Construct = [], ReceiverDecl = [], FixIts = [], FixReason = [],
     FixDescription = []\<rparr>"

text \<open>\<open>DiagnosticHints::empty()\<close>.\<close>

definition hints_empty :: "DiagnosticHints \<Rightarrow> bool" where
  "hints_empty h \<longleftrightarrow> KnownTypes h = [] \<and> ReceiverDecl h = [] \<and> FixIts h = []"

datatype ErrorCategory =
  TYPE_MISMATCH | UNDECLARED_VAR | CONTROL_FLOW | SYNTAX_ERROR | ARITHMETIC | STRING_CONVERSION
| ARRAY_ERROR | DECLARATION | FUNCTION_SIGNATURE | BUILTIN_FUNCTION | MEMORY_ERROR | GENERAL

definition getCategoryName :: "ErrorCategory \<Rightarrow> string" where
  "getCategoryName cat = (case cat of
      TYPE_MISMATCH \<Rightarrow> ''TYPE_MISMATCH'' | UNDECLARED_VAR \<Rightarrow> ''UNDECLARED_VARIABLE''
    | CONTROL_FLOW \<Rightarrow> ''CONTROL_FLOW'' | SYNTAX_ERROR \<Rightarrow> ''SYNTAX_ERROR''
    | ARITHMETIC \<Rightarrow> ''ARITHMETIC'' | STRING_CONVERSION \<Rightarrow> ''STRING_CONVERSION''
    | ARRAY_ERROR \<Rightarrow> ''ARRAY_ERROR'' | DECLARATION \<Rightarrow> ''DECLARATION''
    | FUNCTION_SIGNATURE \<Rightarrow> ''FUNCTION_SIGNATURE'' | BUILTIN_FUNCTION \<Rightarrow> ''BUILTIN_FUNCTION''
    | MEMORY_ERROR \<Rightarrow> ''MEMORY_ERROR'' | GENERAL \<Rightarrow> ''GENERAL'')"

definition categoryFromString :: "string \<Rightarrow> ErrorCategory" where
  "categoryFromString str =
    (if str = ''TYPE_MISMATCH'' then TYPE_MISMATCH
     else if str = ''UNDECLARED_VARIABLE'' then UNDECLARED_VAR
     else if str = ''CONTROL_FLOW'' then CONTROL_FLOW
     else if str = ''SYNTAX_ERROR'' then SYNTAX_ERROR
     else if str = ''ARITHMETIC'' then ARITHMETIC
     else if str = ''STRING_CONVERSION'' then STRING_CONVERSION
     else if str = ''ARRAY_ERROR'' then ARRAY_ERROR
     else if str = ''DECLARATION'' then DECLARATION
     else if str = ''FUNCTION_SIGNATURE'' then FUNCTION_SIGNATURE
     else if str = ''BUILTIN_FUNCTION'' then BUILTIN_FUNCTION
     else if str = ''MEMORY_ERROR'' then MEMORY_ERROR
     else GENERAL)"

lemma categoryFromString_getCategoryName: "categoryFromString (getCategoryName cat) = cat"
  by (cases cat) (simp_all add: categoryFromString_def getCategoryName_def)

section \<open>The construct a message is about\<close>

definition controlKeywords :: "string list" where
  "controlKeywords = [''elseif'', ''while'', ''for'', ''if'', ''return'', ''break'', ''continue'']"

definition extractContextKeyword :: "string \<Rightarrow> string" where
  "extractContextKeyword msg =
    (if contains ''Struct'' msg \<or> contains ''struct'' msg \<or> contains ''has no method named'' msg
     then ''struct''
     else if contains ''Enum'' msg \<or> contains ''enum'' msg then ''enum''
     else if contains ''module'' msg \<or> contains ''Module'' msg \<or> contains ''import'' msg \<or>
       contains ''Import'' msg \<or> contains ''export'' msg \<or> contains ''Export'' msg
     then ''module''
     else case find (\<lambda>kw. contains kw msg) controlKeywords of Some kw \<Rightarrow> kw | None \<Rightarrow> [])"

definition constructDocs :: "string \<Rightarrow> string option" where
  "constructDocs = map_of
    [(''typeof'', ''docs/slm/builtin_typeof.txt''), (''struct'', ''docs/slm/structs.txt''),
     (''enum'', ''docs/slm/enums.txt''), (''module'', ''docs/slm/modules.txt'')]"

definition categoryDocs :: "ErrorCategory \<Rightarrow> string" where
  "categoryDocs cat = (case cat of
      TYPE_MISMATCH \<Rightarrow> ''docs/slm/type_mismatch.txt''
    | UNDECLARED_VAR \<Rightarrow> ''docs/slm/undeclared_var.txt''
    | CONTROL_FLOW \<Rightarrow> ''docs/slm/control_flow.txt''
    | SYNTAX_ERROR \<Rightarrow> ''docs/slm/syntax_error.txt''
    | ARITHMETIC \<Rightarrow> ''docs/slm/arithmetic.txt''
    | STRING_CONVERSION \<Rightarrow> ''docs/slm/string_conversion.txt''
    | ARRAY_ERROR \<Rightarrow> ''docs/slm/array_error.txt''
    | DECLARATION \<Rightarrow> ''docs/slm/declaration.txt''
    | FUNCTION_SIGNATURE \<Rightarrow> ''docs/slm/function_signature.txt''
    | BUILTIN_FUNCTION \<Rightarrow> ''docs/slm/general.txt''
    | MEMORY_ERROR \<Rightarrow> ''docs/slm/general.txt''
    | GENERAL \<Rightarrow> ''docs/slm/general.txt'')"

definition getCategoryDocPath :: "ErrorCategory \<Rightarrow> string \<Rightarrow> string" where
  "getCategoryDocPath cat contextKeyword =
    (if contextKeyword \<noteq> [] then
       (case constructDocs contextKeyword of Some d \<Rightarrow> d | None \<Rightarrow> categoryDocs cat)
     else categoryDocs cat)"

section \<open>Codes named by the raw error path\<close>

text \<open>\<open>namespace ErrCode\<close>; \<open>ErrCode_X\<close> is \<open>ErrCode::X\<close>.\<close>

definition ErrCode_UnterminatedLiteral :: string where "ErrCode_UnterminatedLiteral = ''E099''"
definition ErrCode_InvalidEscapeSequence :: string where "ErrCode_InvalidEscapeSequence = ''E100''"
definition ErrCode_InvalidCharLiteral :: string where "ErrCode_InvalidCharLiteral = ''E101''"
definition ErrCode_MissingSemicolon :: string where "ErrCode_MissingSemicolon = ''E102''"
definition ErrCode_UnexpectedToken :: string where "ErrCode_UnexpectedToken = ''E103''"
definition ErrCode_UnclosedDelimiter :: string where "ErrCode_UnclosedDelimiter = ''E104''"
definition ErrCode_MissingComma :: string where "ErrCode_MissingComma = ''E105''"
definition ErrCode_MissingColon :: string where "ErrCode_MissingColon = ''E106''"
definition ErrCode_MissingOpeningDelimiter :: string where "ErrCode_MissingOpeningDelimiter = ''E107''"
definition ErrCode_ExpectedName :: string where "ErrCode_ExpectedName = ''E108''"
definition ErrCode_ExpectedType :: string where "ErrCode_ExpectedType = ''E109''"
definition ErrCode_ExpectedKeyword :: string where "ErrCode_ExpectedKeyword = ''E110''"
definition ErrCode_NestingTooDeep :: string where "ErrCode_NestingTooDeep = ''E111''"
definition ErrCode_VoidTypeNotAllowed :: string where "ErrCode_VoidTypeNotAllowed = ''E112''"
definition ErrCode_RemovedSyntax :: string where "ErrCode_RemovedSyntax = ''E113''"
definition ErrCode_DuplicateMember :: string where "ErrCode_DuplicateMember = ''E114''"
definition ErrCode_InvalidOperatorDeclaration :: string where "ErrCode_InvalidOperatorDeclaration = ''E115''"
definition ErrCode_ExternFunctionBody :: string where "ErrCode_ExternFunctionBody = ''E116''"
definition ErrCode_InvalidErrorDeclaration :: string where "ErrCode_InvalidErrorDeclaration = ''E117''"
definition ErrCode_StatementOutsideFunction :: string where "ErrCode_StatementOutsideFunction = ''E118''"
definition ErrCode_MissingEntryPoint :: string where "ErrCode_MissingEntryPoint = ''E119''"
definition ErrCode_InvalidLoopForm :: string where "ErrCode_InvalidLoopForm = ''E120''"
definition ErrCode_InternalCompilerError :: string where "ErrCode_InternalCompilerError = ''E121''"
definition ErrCode_NonAddressableExpression :: string where "ErrCode_NonAddressableExpression = ''E122''"
definition ErrCode_InvalidArraySize :: string where "ErrCode_InvalidArraySize = ''E123''"
definition ErrCode_InvalidComparison :: string where "ErrCode_InvalidComparison = ''E124''"
definition ErrCode_AmbiguousCall :: string where "ErrCode_AmbiguousCall = ''E125''"
definition ErrCode_UnsupportedOperation :: string where "ErrCode_UnsupportedOperation = ''E126''"
definition ErrCode_EnumValueOutOfRange :: string where "ErrCode_EnumValueOutOfRange = ''E127''"
definition ErrCode_MissingInitializer :: string where "ErrCode_MissingInitializer = ''E128''"
definition ErrCode_NothingToInfer :: string where "ErrCode_NothingToInfer = ''E129''"
definition ErrCode_RawPointerOutsideUnsafe :: string where "ErrCode_RawPointerOutsideUnsafe = ''E130''"
definition ErrCode_MethodOnNonStruct :: string where "ErrCode_MethodOnNonStruct = ''E131''"
definition ErrCode_InvalidRecover :: string where "ErrCode_InvalidRecover = ''E132''"
definition ErrCode_ArrayNonIntegerIndex :: string where "ErrCode_ArrayNonIntegerIndex = ''E002''"
definition ErrCode_ArraySizeMismatch :: string where "ErrCode_ArraySizeMismatch = ''E003''"
definition ErrCode_ArrayTypeMismatch :: string where "ErrCode_ArrayTypeMismatch = ''E004''"
definition ErrCode_WrongArity :: string where "ErrCode_WrongArity = ''E044''"
definition ErrCode_ArgumentType :: string where "ErrCode_ArgumentType = ''E056''"
definition ErrCode_ArithmeticOperand :: string where "ErrCode_ArithmeticOperand = ''E057''"
definition ErrCode_ReturnTypeMismatch :: string where "ErrCode_ReturnTypeMismatch = ''E064''"
definition ErrCode_TypeMismatch :: string where "ErrCode_TypeMismatch = ''E066''"
definition ErrCode_VoidValue :: string where "ErrCode_VoidValue = ''E067''"
definition ErrCode_DuplicateMatchArm :: string where "ErrCode_DuplicateMatchArm = ''E133''"
definition ErrCode_StringConversion :: string where "ErrCode_StringConversion = ''E065''"
definition ErrCode_InvalidCast :: string where "ErrCode_InvalidCast = ''E134''"
definition ErrCode_NotCallable :: string where "ErrCode_NotCallable = ''E135''"
definition ErrCode_InvalidModuleQualifier :: string where "ErrCode_InvalidModuleQualifier = ''E136''"
definition ErrCode_NotAValue :: string where "ErrCode_NotAValue = ''E137''"
definition ErrCode_MissingTypeArguments :: string where "ErrCode_MissingTypeArguments = ''E138''"
definition ErrCode_UnsizedArrayPlacement :: string where "ErrCode_UnsizedArrayPlacement = ''E140''"
definition ErrCode_ImmutableArrayWrittenThroughSlice :: string where "ErrCode_ImmutableArrayWrittenThroughSlice = ''E141''"
definition ErrCode_SliceOfNonArray :: string where "ErrCode_SliceOfNonArray = ''E142''"
definition ErrCode_SliceRangeOutOfBounds :: string where "ErrCode_SliceRangeOutOfBounds = ''E143''"
definition ErrCode_MutableViewOfImmutableArray :: string where "ErrCode_MutableViewOfImmutableArray = ''E144''"
definition ErrCode_DefaultThroughReferenceCycle :: string where "ErrCode_DefaultThroughReferenceCycle = ''E147''"
definition ErrCode_WrongTypeArgumentCount :: string where "ErrCode_WrongTypeArgumentCount = ''E148''"
definition ErrCode_LiteralNeverConverts :: string where "ErrCode_LiteralNeverConverts = ''E149''"
definition ErrCode_SizeParameter :: string where "ErrCode_SizeParameter = ''E150''"
definition ErrCode_LocalGenericStruct :: string where "ErrCode_LocalGenericStruct = ''E151''"
definition ErrCode_ErrorPayload :: string where "ErrCode_ErrorPayload = ''E096''"
definition ErrCode_ExportMutNotSupported :: string where "ErrCode_ExportMutNotSupported = ''E021''"
definition ErrCode_ExportNonConstantInitializer :: string where "ErrCode_ExportNonConstantInitializer = ''E022''"
definition ErrCode_UnknownStructField :: string where "ErrCode_UnknownStructField = ''E068''"
definition ErrCode_OperatorTemporaryWrite :: string where "ErrCode_OperatorTemporaryWrite = ''E098''"
definition ErrCode_ModuleArityOrType :: string where "ErrCode_ModuleArityOrType = ''E025''"
definition ErrCode_DuplicateDeclaration :: string where "ErrCode_DuplicateDeclaration = ''E033''"

lemmas ErrCode_defs =
  ErrCode_UnterminatedLiteral_def ErrCode_InvalidEscapeSequence_def ErrCode_InvalidCharLiteral_def
  ErrCode_MissingSemicolon_def ErrCode_UnexpectedToken_def ErrCode_UnclosedDelimiter_def
  ErrCode_MissingComma_def ErrCode_MissingColon_def ErrCode_MissingOpeningDelimiter_def
  ErrCode_ExpectedName_def ErrCode_ExpectedType_def ErrCode_ExpectedKeyword_def
  ErrCode_NestingTooDeep_def ErrCode_VoidTypeNotAllowed_def ErrCode_RemovedSyntax_def
  ErrCode_DuplicateMember_def ErrCode_InvalidOperatorDeclaration_def ErrCode_ExternFunctionBody_def
  ErrCode_InvalidErrorDeclaration_def ErrCode_StatementOutsideFunction_def ErrCode_MissingEntryPoint_def
  ErrCode_InvalidLoopForm_def ErrCode_InternalCompilerError_def ErrCode_NonAddressableExpression_def
  ErrCode_InvalidArraySize_def ErrCode_InvalidComparison_def ErrCode_AmbiguousCall_def
  ErrCode_UnsupportedOperation_def ErrCode_EnumValueOutOfRange_def ErrCode_MissingInitializer_def
  ErrCode_NothingToInfer_def ErrCode_RawPointerOutsideUnsafe_def ErrCode_MethodOnNonStruct_def
  ErrCode_InvalidRecover_def ErrCode_ArrayNonIntegerIndex_def ErrCode_ArraySizeMismatch_def
  ErrCode_ArrayTypeMismatch_def ErrCode_WrongArity_def ErrCode_ArgumentType_def
  ErrCode_ArithmeticOperand_def ErrCode_ReturnTypeMismatch_def ErrCode_TypeMismatch_def
  ErrCode_VoidValue_def ErrCode_DuplicateMatchArm_def ErrCode_StringConversion_def
  ErrCode_InvalidCast_def ErrCode_NotCallable_def ErrCode_InvalidModuleQualifier_def
  ErrCode_NotAValue_def ErrCode_MissingTypeArguments_def ErrCode_UnsizedArrayPlacement_def
  ErrCode_ImmutableArrayWrittenThroughSlice_def ErrCode_SliceOfNonArray_def ErrCode_SliceRangeOutOfBounds_def
  ErrCode_MutableViewOfImmutableArray_def ErrCode_DefaultThroughReferenceCycle_def ErrCode_WrongTypeArgumentCount_def
  ErrCode_LiteralNeverConverts_def ErrCode_SizeParameter_def ErrCode_LocalGenericStruct_def
  ErrCode_ErrorPayload_def ErrCode_ExportMutNotSupported_def ErrCode_ExportNonConstantInitializer_def
  ErrCode_UnknownStructField_def ErrCode_OperatorTemporaryWrite_def ErrCode_ModuleArityOrType_def
  ErrCode_DuplicateDeclaration_def

section \<open>The registry\<close>

record ErrorCodeEntry =
  Code :: string
  ClassName :: string
  Description :: string
  Category :: ErrorCategory
  Important :: bool
  SinceMinor :: int

text \<open>A row of four values takes the default member initialisers.\<close>

definition row6 :: "string \<Rightarrow> string \<Rightarrow> string \<Rightarrow> ErrorCategory \<Rightarrow> bool \<Rightarrow> int \<Rightarrow> ErrorCodeEntry" where
  "row6 c n d cat imp since = \<lparr>Code = c, ClassName = n, Description = d, Category = cat,
     Important = imp, SinceMinor = since\<rparr>"

definition row4 :: "string \<Rightarrow> string \<Rightarrow> string \<Rightarrow> ErrorCategory \<Rightarrow> ErrorCodeEntry" where
  "row4 c n d cat = row6 c n d cat False 0"

lemma row_Code [simp]: "Code (row4 c n d cat) = c" "Code (row6 c n d cat imp since) = c"
  by (simp_all add: row4_def row6_def)

definition AllErrorCodes_1 :: "ErrorCodeEntry list" where
  "AllErrorCodes_1 =
    [row4 ''E001'' ''ArrayBoundsError'' ''Array bounds'' ARRAY_ERROR,
     row4 ErrCode_ArrayNonIntegerIndex ''ArrayNonIntegerIndexError'' ''Index must be an integer'' ARRAY_ERROR,
     row4 ErrCode_ArraySizeMismatch ''ArraySizeMismatchError'' ''Array size mismatch'' ARRAY_ERROR,
     row4 ErrCode_ArrayTypeMismatch ''ArrayTypeMismatchError'' ''Array element type mismatch'' ARRAY_ERROR,
     row4 ''E005'' ''ForEachNonArrayError'' ''For each non array'' ARRAY_ERROR,
     row4 ''E006'' ''ForEachUnsizedArrayError'' ''For each unsized array (retired: T[] carries its length now)'' ARRAY_ERROR,
     row4 ''E007'' ''ControlFlowError'' ''Control flow'' CONTROL_FLOW,
     row4 ''E008'' ''DefiniteAssignmentError'' ''Definite assignment'' UNDECLARED_VAR,
     row4 ''E009'' ''MissingReturnError'' ''Missing return'' CONTROL_FLOW,
     row6 ''E010'' ''RecursionWithoutBaseError'' ''Recursion without base'' CONTROL_FLOW True 0,
     row4 ''E011'' ''SemanticError'' ''Semantic'' GENERAL,
     row4 ''E012'' ''StatementAfterTerminatorError'' ''Statement after terminator'' CONTROL_FLOW,
     row4 ''E013'' ''UnreachableCodeError'' ''Unreachable code (retired: now E012)'' CONTROL_FLOW,
     row4 ''E014'' ''KeywordError'' ''Keyword'' SYNTAX_ERROR,
     row4 ''E015'' ''SyntaxError'' ''Syntax (retired: now E099-E123)'' SYNTAX_ERROR,
     row4 ''E016'' ''BareErrorAsBindingError'' ''Bare error as binding'' CONTROL_FLOW,
     row6 ''E017'' ''DoubleFreeError'' ''Double free'' MEMORY_ERROR True 0,
     row6 ''E018'' ''UseAfterFreeError'' ''Use after free'' MEMORY_ERROR True 0,
     row4 ''E019'' ''CircularImportError'' ''Circular import'' DECLARATION,
     row4 ''E020'' ''ConflictingExternDeclarationError'' ''Conflicting extern declaration'' DECLARATION,
     row4 ''E021'' ''ExportMutNotSupportedError'' ''Export mut not supported'' DECLARATION,
     row4 ''E022'' ''ExportNonConstantInitializerError'' ''Export non constant initializer'' DECLARATION,
     row4 ''E023'' ''ExportOutsideTopLevelError'' ''Export outside top level'' DECLARATION,
     row4 ''E024'' ''ImportSymbolCollisionError'' ''Import symbol collision'' DECLARATION,
     row4 ErrCode_ModuleArityOrType ''ModuleArityOrTypeError'' ''No matching overload'' FUNCTION_SIGNATURE,
     row4 ''E026'' ''ModuleMethodNotFoundError'' ''Module method not found'' GENERAL,
     row4 ''E027'' ''ModuleNotFoundError'' ''Module not found'' DECLARATION,
     row4 ''E028'' ''OperatorBuiltinPairError'' ''Operator builtin pair'' DECLARATION,
     row4 ''E029'' ''ScopeOperatorOnInstanceError'' ''Scope operator on instance'' DECLARATION,
     row4 ''E030'' ''UnknownModuleSymbolError'' ''Unknown module symbol'' DECLARATION,
     row4 ''E031'' ''UnknownScopeQualifierError'' ''Unknown scope qualifier'' DECLARATION,
     row4 ''E032'' ''UnqualifiedTypeNotVisibleError'' ''Unqualified type not visible'' DECLARATION,
     row4 ''E033'' ''DuplicateDeclarationError'' ''Duplicate declaration'' DECLARATION,
     row4 ''E034'' ''DuplicateTypeNameError'' ''Duplicate type name'' DECLARATION,
     row6 ''E035'' ''InvalidTransitionError'' ''Invalid transition'' TYPE_MISMATCH True 0,
     row6 ''E036'' ''InvalidTransitionTargetError'' ''Invalid transition target'' TYPE_MISMATCH True 0,
     row4 ''E037'' ''LookupError'' ''Lookup (retired: unknown functions are E041)'' UNDECLARED_VAR,
     row4 ''E038'' ''NestedFunctionError'' ''Nested function'' FUNCTION_SIGNATURE,
     row4 ''E039'' ''NoSuchVariantError'' ''No such variant'' DECLARATION,
     row4 ''E040'' ''ReferenceError'' ''Reference'' UNDECLARED_VAR,
     row4 ''E041'' ''UnknownFunctionError'' ''Unknown function'' UNDECLARED_VAR,
     row4 ''E042'' ''UnknownTypeError'' ''Unknown type'' DECLARATION,
     row4 ''E043'' ''UseBeforeDeclarationError'' ''Use before declaration'' UNDECLARED_VAR,
     row4 ErrCode_WrongArity ''WrongArityError'' ''Wrong number of arguments'' FUNCTION_SIGNATURE,
     row4 ''E045'' ''ConstructorCalledOnInstanceError'' ''Constructor called on instance'' DECLARATION,
     row4 ''E046'' ''ConstructorCannotBeStaticError'' ''Constructor cannot be static'' DECLARATION,
     row4 ''E047'' ''DefaultConstructorArityError'' ''Default constructor arity'' FUNCTION_SIGNATURE,
     row4 ''E048'' ''DotOperatorOnNonInstanceError'' ''Dot operator on non instance'' DECLARATION,
     row4 ''E049'' ''IncompleteConstructorError'' ''Incomplete constructor'' DECLARATION,
     row4 ''E050'' ''NoConstructorDefinedError'' ''No constructor defined'' DECLARATION,
     row4 ''E051'' ''ReservedConstructorNameError'' ''Reserved constructor name'' DECLARATION,
     row4 ''E052'' ''StaticMethodCalledOnInstanceError'' ''Static method called on instance'' DECLARATION,
     row4 ''E053'' ''StaticOutsideStructError'' ''Static outside struct'' DECLARATION,
     row4 ''E054'' ''StructMethodNotFoundError'' ''Struct method not found'' UNDECLARED_VAR,
     row4 ''E055'' ''AbsArgTypeError'' ''Abs arg type (retired: now E056)'' BUILTIN_FUNCTION,
     row4 ErrCode_ArgumentType ''ArgumentTypeError'' ''Wrong argument type'' TYPE_MISMATCH,
     row4 ErrCode_ArithmeticOperand ''ArithmeticError'' ''Operator applied to the wrong kind of value'' ARITHMETIC,
     row4 ''E058'' ''CompareError'' ''Compare'' CONTROL_FLOW,
     row4 ''E059'' ''CompareTypeError'' ''Compare type'' TYPE_MISMATCH,
     row4 ''E060'' ''ImmutableAssignmentError'' ''Immutable assignment'' DECLARATION,
     row4 ''E061'' ''InvalidAssignmentTargetError'' ''Invalid assignment target'' DECLARATION,
     row4 ''E062'' ''NullAssignmentError'' ''Null assignment'' TYPE_MISMATCH,
     row4 ''E063'' ''PowerArgTypeError'' ''Power arg type (retired: now E056)'' BUILTIN_FUNCTION,
     row4 ErrCode_ReturnTypeMismatch ''ReturnTypeMismatchError'' ''Wrong return type'' TYPE_MISMATCH,
     row4 ''E065'' ''StringConversionError'' ''String conversion'' STRING_CONVERSION,
     row4 ''E066'' ''TypeError'' ''Type'' TYPE_MISMATCH,
     row4 ErrCode_VoidValue ''VoidValueError'' ''A void value can't be used here'' FUNCTION_SIGNATURE,
     row4 ''E068'' ''UnknownStructFieldError'' ''Unknown struct field'' UNDECLARED_VAR,
     row6 ''E069'' ''StructLayoutCycleError'' ''Struct layout cycle'' DECLARATION True 0,
     row4 ''E070'' ''MalformedRadixPrefixError'' ''Malformed radix prefix'' SYNTAX_ERROR,
     row4 ''E071'' ''InvalidRadixDigitError'' ''Invalid radix digit'' SYNTAX_ERROR,
     row4 ''E072'' ''MisplacedSeparatorError'' ''Misplaced separator'' SYNTAX_ERROR,
     row4 ''E073'' ''MalformedExponentError'' ''Malformed exponent'' SYNTAX_ERROR,
     row4 ''E074'' ''UnreachableBlockWarning'' ''Unreachable block'' CONTROL_FLOW,
     row4 ''E075'' ''DeadBranchWarning'' ''Dead branch'' CONTROL_FLOW]"

definition AllErrorCodes_2 :: "ErrorCodeEntry list" where
  "AllErrorCodes_2 =
    [row4 ''E076'' ''IntegerLiteralOutOfRangeError'' ''Integer literal out of range'' ARITHMETIC,
     row4 ''E077'' ''IntegerLiteralNotExactAsDoubleError'' ''Integer literal not exact as double'' ARITHMETIC,
     row4 ''E078'' ''FloatLiteralOverflowError'' ''Float literal overflow'' ARITHMETIC,
     row4 ''E079'' ''GenericInstantiationDepthError'' ''Generic instantiation depth exceeded'' DECLARATION,
     row4 ''E080'' ''OperatorOrphanRuleError'' ''Operator orphan rule violation'' DECLARATION,
     row4 ''E081'' ''PossibleNullDereferenceError'' ''Possible null dereference'' MEMORY_ERROR,
     row4 ''E082'' ''UnnarrowedNullableCastError'' ''Unnarrowed nullable-to-safe-reference cast'' TYPE_MISMATCH,
     row4 ''E083'' ''DeferControlFlowError'' ''Defer control flow'' CONTROL_FLOW,
     row4 ''E084'' ''CallerLocationOutsideMarkedFunctionError'' ''Caller location outside a marked function'' DECLARATION,
     row4 ''E085'' ''AmbiguousTypeReferenceError'' ''Ambiguous type reference'' DECLARATION,
     row6 ''E086'' ''DanglingReferenceEscapeError'' ''Dangling reference escape'' MEMORY_ERROR True 0,
     row4 ''E087'' ''MisplacedVisibilityError'' ''Misplaced visibility modifier'' DECLARATION,
     row6 ''E088'' ''PrivateSymbolAccessError'' ''Private symbol access'' DECLARATION True 0,
     row6 ''E089'' ''PrivateInPublicError'' ''Private type in public signature'' DECLARATION True 0,
     row4 ''E090'' ''AmbiguousModuleError'' ''Ambiguous module import'' DECLARATION,
     row4 ''E091'' ''ModuleNotImportableError'' ''Module not importable from this package'' DECLARATION,
     row4 ''E092'' ''InvalidPatternError'' ''Invalid pattern'' CONTROL_FLOW,
     row4 ''E093'' ''NonExhaustiveCompareError'' ''Non-exhaustive compare'' CONTROL_FLOW,
     row4 ''E094'' ''UnreachableArmWarning'' ''Unreachable compare arm'' CONTROL_FLOW,
     row4 ''E095'' ''TryMisuseError'' ''Misplaced try'' CONTROL_FLOW,
     row4 ''E096'' ''ErrorPayloadError'' ''Invalid error payload'' DECLARATION,
     row4 ''E097'' ''GenericOperatorError'' ''Invalid generic operator'' DECLARATION,
     row4 ''E098'' ''OperatorTemporaryWriteError'' ''Write to a temporary'' TYPE_MISMATCH,
     row4 ErrCode_UnterminatedLiteral ''UnterminatedLiteralError'' ''Unterminated string or character literal'' SYNTAX_ERROR,
     row4 ErrCode_InvalidEscapeSequence ''InvalidEscapeSequenceError'' ''Invalid escape sequence'' SYNTAX_ERROR,
     row4 ErrCode_InvalidCharLiteral ''InvalidCharLiteralError'' ''Invalid character literal'' SYNTAX_ERROR,
     row4 ErrCode_MissingSemicolon ''MissingSemicolonError'' ''Missing semicolon'' SYNTAX_ERROR,
     row4 ErrCode_UnexpectedToken ''UnexpectedTokenError'' ''Unexpected token'' SYNTAX_ERROR,
     row4 ErrCode_UnclosedDelimiter ''UnclosedDelimiterError'' ''Unclosed bracket, brace or parenthesis'' SYNTAX_ERROR,
     row4 ErrCode_MissingComma ''MissingCommaError'' ''Missing comma'' SYNTAX_ERROR,
     row4 ErrCode_MissingColon ''MissingColonError'' ''Missing colon'' SYNTAX_ERROR,
     row4 ErrCode_MissingOpeningDelimiter ''MissingOpeningDelimiterError'' ''Missing opening brace or parenthesis'' SYNTAX_ERROR,
     row4 ErrCode_ExpectedName ''ExpectedNameError'' ''Expected a name'' SYNTAX_ERROR,
     row4 ErrCode_ExpectedType ''ExpectedTypeError'' ''Expected a type'' SYNTAX_ERROR,
     row4 ErrCode_ExpectedKeyword ''ExpectedKeywordError'' ''Expected a specific word or symbol'' SYNTAX_ERROR,
     row4 ErrCode_NestingTooDeep ''NestingTooDeepError'' ''Nested too deeply'' SYNTAX_ERROR,
     row4 ErrCode_VoidTypeNotAllowed ''VoidTypeNotAllowedError'' ''void used as a type'' DECLARATION,
     row4 ErrCode_RemovedSyntax ''RemovedSyntaxError'' ''Syntax that no longer exists'' DECLARATION,
     row4 ErrCode_DuplicateMember ''DuplicateMemberError'' ''Duplicate member'' DECLARATION,
     row4 ErrCode_InvalidOperatorDeclaration ''InvalidOperatorDeclarationError'' ''Invalid operator declaration'' DECLARATION,
     row4 ErrCode_ExternFunctionBody ''ExternFunctionBodyError'' ''extern function with a body'' DECLARATION,
     row4 ErrCode_InvalidErrorDeclaration ''InvalidErrorDeclarationError'' ''Invalid error declaration'' DECLARATION,
     row4 ErrCode_StatementOutsideFunction ''StatementOutsideFunctionError'' ''Statement outside a function'' SYNTAX_ERROR,
     row4 ErrCode_MissingEntryPoint ''MissingEntryPointError'' ''No main function'' DECLARATION,
     row4 ErrCode_InvalidLoopForm ''InvalidLoopFormError'' ''Unsupported loop form'' CONTROL_FLOW,
     row6 ErrCode_InternalCompilerError ''InternalCompilerError'' ''Internal compiler error'' GENERAL True 0,
     row4 ErrCode_NonAddressableExpression ''NonAddressableExpressionError'' ''Cannot take the address of this'' GENERAL,
     row4 ErrCode_InvalidArraySize ''InvalidArraySizeError'' ''Invalid array size'' ARRAY_ERROR,
     row4 ErrCode_InvalidComparison ''InvalidComparisonError'' ''Values can't be compared'' TYPE_MISMATCH,
     row4 ErrCode_AmbiguousCall ''AmbiguousCallError'' ''Ambiguous call'' FUNCTION_SIGNATURE]"

definition AllErrorCodes_3 :: "ErrorCodeEntry list" where
  "AllErrorCodes_3 =
    [row4 ErrCode_UnsupportedOperation ''UnsupportedOperationError'' ''Operation not supported here'' TYPE_MISMATCH,
     row4 ErrCode_EnumValueOutOfRange ''EnumValueOutOfRangeError'' ''Enum value out of range'' ARITHMETIC,
     row4 ErrCode_MissingInitializer ''MissingInitializerError'' ''Missing initializer'' DECLARATION,
     row4 ErrCode_NothingToInfer ''NothingToInferError'' ''Nothing to infer a type from'' DECLARATION,
     row6 ErrCode_RawPointerOutsideUnsafe ''RawPointerOutsideUnsafeError'' ''Raw pointer outside unsafe'' MEMORY_ERROR True 0,
     row4 ErrCode_MethodOnNonStruct ''MethodOnNonStructError'' ''Method called on a non-struct'' UNDECLARED_VAR,
     row4 ErrCode_InvalidRecover ''InvalidRecoverError'' ''Invalid recover'' CONTROL_FLOW,
     row4 ErrCode_DuplicateMatchArm ''DuplicateMatchArmError'' ''Duplicate matches pattern'' CONTROL_FLOW,
     row4 ErrCode_InvalidCast ''InvalidCastError'' ''That conversion isn't allowed'' TYPE_MISMATCH,
     row4 ErrCode_NotCallable ''NotCallableError'' ''Not callable'' FUNCTION_SIGNATURE,
     row4 ErrCode_InvalidModuleQualifier ''InvalidModuleQualifierError'' ''Invalid module qualifier'' DECLARATION,
     row4 ErrCode_NotAValue ''NotAValueError'' ''Not a value'' FUNCTION_SIGNATURE,
     row4 ErrCode_MissingTypeArguments ''MissingTypeArgumentsError'' ''Missing type arguments'' DECLARATION,
     row4 ''E139'' ''MalformedNumberError'' ''Malformed number'' SYNTAX_ERROR,
     row4 ErrCode_UnsizedArrayPlacement ''UnsizedArrayPlacementError'' ''Unsized array where a size is needed'' ARRAY_ERROR,
     row4 ErrCode_ImmutableArrayWrittenThroughSlice ''ImmutableArrayWrittenThroughSliceError'' ''Immutable array passed to a function that changes it'' ARRAY_ERROR,
     row4 ErrCode_SliceOfNonArray ''SliceOfNonArrayError'' ''Slicing something that isn't an array'' ARRAY_ERROR,
     row4 ErrCode_SliceRangeOutOfBounds ''SliceRangeOutOfBoundsError'' ''Slice range out of bounds'' ARRAY_ERROR,
     row4 ErrCode_MutableViewOfImmutableArray ''MutableViewOfImmutableArrayError'' ''Mutable view of an immutable array'' ARRAY_ERROR,
     row4 ''E145'' ''ModuleNotImportedError'' ''Module not imported in this file'' DECLARATION,
     row4 ''E146'' ''InvalidAnnotationError'' ''Invalid annotation'' DECLARATION,
     row4 ErrCode_DefaultThroughReferenceCycle ''DefaultThroughReferenceCycleError'' ''No default through a reference cycle'' DECLARATION,
     row4 ErrCode_WrongTypeArgumentCount ''WrongTypeArgumentCountError'' ''Wrong number of type arguments'' DECLARATION,
     row4 ErrCode_LiteralNeverConverts ''LiteralNeverConvertsError'' ''Conversion that can never succeed'' TYPE_MISMATCH,
     row4 ErrCode_SizeParameter ''SizeParameterError'' ''Size parameter used where it can't be'' DECLARATION,
     row4 ErrCode_LocalGenericStruct ''LocalGenericStructError'' ''Generic struct declared inside a function'' DECLARATION,
     row4 ''E152'' ''ShadowingWarning'' ''Shadowed variable'' DECLARATION,
     row4 ''E153'' ''UnreachableStateWarning'' ''Machine state with no incoming transition'' DECLARATION,
     row4 ''E154'' ''CompareWarning'' ''Empty compare'' CONTROL_FLOW,
     row4 ''E155'' ''RedundantComparisonWarning'' ''Redundant comparison'' CONTROL_FLOW,
     row4 ''E156'' ''SelfAssignmentWarning'' ''Assignment to itself'' GENERAL,
     row4 ''E157'' ''SuspiciousInfiniteLoopWarning'' ''Loop that looks infinite'' CONTROL_FLOW,
     row4 ''E158'' ''CyclomaticComplexityWarning'' ''Function too complex'' CONTROL_FLOW,
     row4 ''E159'' ''InfiniteLoopWarning'' ''Loop with no exit path'' CONTROL_FLOW,
     row4 ''E160'' ''DeadStoreWarning'' ''Dead store'' CONTROL_FLOW,
     row4 ''E161'' ''DeadInitializerWarning'' ''Initial value never read'' CONTROL_FLOW,
     row4 ''E162'' ''RangeNeverEndsWarning'' ''Range that never ends'' CONTROL_FLOW,
     row4 ''E163'' ''UnusedVariableWarning'' ''Unused variable'' CONTROL_FLOW,
     row4 ''E164'' ''StuckForLoopVariableWarning'' ''Loop variable never changes'' CONTROL_FLOW,
     row4 ''E165'' ''EmptyBranchWarning'' ''Empty branch'' CONTROL_FLOW,
     row4 ''E166'' ''SelfComparisonWarning'' ''Comparison with itself'' GENERAL,
     row4 ''E167'' ''DivisionByZeroLiteralWarning'' ''Division by a zero literal'' ARITHMETIC,
     row4 ''E168'' ''IdenticalBranchesWarning'' ''Identical branches'' CONTROL_FLOW,
     row4 ''E169'' ''NeverReturnsErrorWarning'' ''Fallible function that never fails'' CONTROL_FLOW,
     row4 ''E170'' ''PossibleUseAfterFreeWarning'' ''Possible use after free'' MEMORY_ERROR,
     row4 ''E171'' ''PossibleDoubleFreeWarning'' ''Possible double free'' MEMORY_ERROR,
     row6 ''E172'' ''DeprecatedUseWarning'' ''Use of a deprecated item'' DECLARATION False 2,
     row6 ''E173'' ''TestFunctionUseError'' ''Use of a test function'' DECLARATION False 2]"

definition AllErrorCodes :: "ErrorCodeEntry list" where
  "AllErrorCodes = AllErrorCodes_1 @ AllErrorCodes_2 @ AllErrorCodes_3"

definition AllErrorCodesCount :: nat where
  "AllErrorCodesCount = length AllErrorCodes"

definition lookupByClassName :: "string \<Rightarrow> ErrorCodeEntry option" where
  "lookupByClassName n = find (\<lambda>e. n = ClassName e) AllErrorCodes"

definition lookupByCode :: "string \<Rightarrow> ErrorCodeEntry option" where
  "lookupByCode c = find (\<lambda>e. c = Code e) AllErrorCodes"

text \<open>\<open>strcmp(ClassName + Len - 7, "Warning") == 0\<close>, guarded by \<open>Len >= 7\<close>.\<close>

definition isWarningCode :: "ErrorCodeEntry \<Rightarrow> bool" where
  "isWarningCode e \<longleftrightarrow>
    (let Suffix = ''Warning''; Len = length (ClassName e)
     in length Suffix \<le> Len \<and> drop (Len - length Suffix) (ClassName e) = Suffix)"

section \<open>Documentation paths\<close>

definition InstalledDocPath :: "string \<Rightarrow> string \<Rightarrow> string" where
  "InstalledDocPath Root Relative =
    (if Relative \<noteq> [] \<and> (hd Relative = CHR ''/'' \<or> hd Relative = CHR 0x5C \<or>
        (1 < length Relative \<and> Relative ! 1 = CHR '':''))
     then Relative
     else if Root = [] then Relative
     else Root @ (if last Root = CHR ''/'' \<or> last Root = CHR 0x5C then [] else ''/'') @ Relative)"

definition getSlmCodeDocPath :: "(string \<Rightarrow> bool) \<Rightarrow> string \<Rightarrow> string \<Rightarrow> string" where
  "getSlmCodeDocPath exists_file Root code =
    (let Path = InstalledDocPath Root (''docs/slm/codes/'' @ code @ ''.txt'')
     in if exists_file Path then Path else [])"

definition getHumanCodeDocPath :: "(string \<Rightarrow> bool) \<Rightarrow> string \<Rightarrow> string \<Rightarrow> string" where
  "getHumanCodeDocPath exists_file Root code =
    (let Path = InstalledDocPath Root (''docs/errors/codes/'' @ code @ ''.txt'')
     in if exists_file Path then Path else [])"

section \<open>The registry is a numbering\<close>

text \<open>The code with number \<open>n\<close>, three digits wide.\<close>

definition digit :: "nat \<Rightarrow> char" where
  "digit n = ''0123456789'' ! n"

definition code_of :: "nat \<Rightarrow> string" where
  "code_of n = [CHR ''E'', digit (n div 100), digit (n div 10 mod 10), digit (n mod 10)]"

lemma digit_inject: "m < 10 \<Longrightarrow> n < 10 \<Longrightarrow> digit m = digit n \<longleftrightarrow> m = n"
  unfolding digit_def by (rule nth_eq_iff_index_eq) simp_all

lemma three_digits: "k = k div 100 * 100 + k div 10 mod 10 * 10 + k mod 10" for k :: nat
proof -
  have "k div 100 = k div 10 div 10" by (simp add: div_mult2_eq [symmetric])
  then have "k div 10 = k div 100 * 10 + k div 10 mod 10" by simp
  then have "k div 10 * 10 = k div 100 * 100 + k div 10 mod 10 * 10" by linarith
  then show ?thesis by (metis div_mult_mod_eq)
qed

lemma code_of_inject:
  assumes "m < 1000" "n < 1000" "code_of m = code_of n"
  shows "m = n"
proof -
  have bounds: "k div 100 < 10" "k div 10 mod 10 < 10" "k mod 10 < 10" if "k < 1000" for k :: nat
    using that by (simp_all add: less_mult_imp_div_less)
  have "m div 100 = n div 100" "m div 10 mod 10 = n div 10 mod 10" "m mod 10 = n mod 10"
    using assms bounds [of m] bounds [of n] by (simp_all add: code_of_def digit_inject)
  then show ?thesis using three_digits [of m] three_digits [of n] by argo
qed

lemma AllErrorCodes_codes: "map Code AllErrorCodes = map code_of [1..<174]"
proof -
  have "map Code AllErrorCodes_1 = map code_of [1..<76]"
    by (simp add: AllErrorCodes_1_def ErrCode_defs code_of_def digit_def upt_rec)
  moreover have "map Code AllErrorCodes_2 = map code_of [76..<126]"
    by (simp add: AllErrorCodes_2_def ErrCode_defs code_of_def digit_def upt_rec)
  moreover have "map Code AllErrorCodes_3 = map code_of [126..<174]"
    by (simp add: AllErrorCodes_3_def ErrCode_defs code_of_def digit_def upt_rec)
  moreover have "[1..<174] = [1..<76] @ [76..<126] @ [126..<174::nat]"
    by (simp add: upt_rec)
  ultimately show ?thesis by (simp only: AllErrorCodes_def map_append)
qed

lemma AllErrorCodesCount: "AllErrorCodesCount = 173"
proof -
  have "length (map Code AllErrorCodes) = 173" unfolding AllErrorCodes_codes by simp
  then show ?thesis by (simp add: AllErrorCodesCount_def)
qed

lemma distinct_codes: "distinct (map Code AllErrorCodes)"
  unfolding AllErrorCodes_codes distinct_map
  by (auto intro!: inj_onI code_of_inject)

lemma find_distinct_key:
  assumes "distinct (map f xs)" "x \<in> set xs"
  shows "find (\<lambda>e. f x = f e) xs = Some x"
  using assms by (induction xs) (auto simp: image_iff)

lemma lookupByCode_Some_iff: "lookupByCode c = Some e \<longleftrightarrow> e \<in> set AllErrorCodes \<and> Code e = c"
proof
  assume "lookupByCode c = Some e"
  then show "e \<in> set AllErrorCodes \<and> Code e = c"
    by (auto simp: lookupByCode_def find_Some_iff)
next
  assume "e \<in> set AllErrorCodes \<and> Code e = c"
  then show "lookupByCode c = Some e"
    using find_distinct_key [OF distinct_codes, of e] by (auto simp: lookupByCode_def)
qed

text \<open>
  Every number from 1 to 173 names exactly one row of the registry, at its own place, and no
  other string is a code: \<open>lookupByCode\<close> finds a row exactly for those codes.
\<close>

lemma lookupByCode_numbering:
  "(lookupByCode c \<noteq> None \<longleftrightarrow> (\<exists>n \<in> {1..173}. c = code_of n)) \<and>
   map lookupByCode (map code_of [1..<174]) = map Some AllErrorCodes"
proof (intro conjI)
  have "lookupByCode c \<noteq> None \<longleftrightarrow> c \<in> set (map Code AllErrorCodes)"
    by (auto simp: lookupByCode_Some_iff)
  then show "lookupByCode c \<noteq> None \<longleftrightarrow> (\<exists>n \<in> {1..173}. c = code_of n)"
    unfolding AllErrorCodes_codes by force
  have "map lookupByCode (map Code AllErrorCodes) = map Some AllErrorCodes"
    by (simp add: lookupByCode_Some_iff)
  then show "map lookupByCode (map code_of [1..<174]) = map Some AllErrorCodes"
    unfolding AllErrorCodes_codes .
qed

end
