(* ===== verification/LexScan.thy ===== *)
theory LexScan
  imports LexToken ErrorCodes
begin

text \<open>
  The scanner of \<open>src/src/frontend/Lexer.cpp\<close>: \<open>LexerState\<close>, \<open>gettokScan\<close>, \<open>gettok\<close> and the
  lookahead (\<open>peekToken\<close>, \<open>takeLookaheadToken\<close>). A stream is the text still to be read. A scanning
  call returns \<open>Inr (token, state)\<close>, or \<open>Inl (error, state)\<close> when the scanner raises one of the five
  classes of \<open>src/src/diagnostics/ErrorsLex.h\<close>; a diagnostic that is logged without leaving the
  scanner (\<open>LogErrorAt\<close>) is appended to the field \<open>Logged\<close>.
\<close>

section \<open>State\<close>

abbreviation NL :: char where "NL \<equiv> CHR 0x0A"
abbreviation CR :: char where "CR \<equiv> CHR 0x0D"
abbreviation BSL :: char where "BSL \<equiv> CHR 0x5C"
abbreviation DQ :: char where "DQ \<equiv> CHR 0x22"
abbreviation SQ :: char where "SQ \<equiv> CHR 0x27"

record LexedToken =
  LT_Tok :: int
  LT_IdentifierStr :: string
  LT_StringVal :: string
  LT_NumLitSpelling :: string
  LT_NumLitClean :: string
  LT_NumLitRadix :: int
  LT_BoolVal :: bool
  LT_CharVal :: char
  LT_Loc :: SourceLocation
  LT_PrevTokEndLine :: int
  LT_PrevTokEndCol :: int

text \<open>One call of \<open>LogErrorAt\<close>: location, code, message (the category is always \<open>SYNTAX_ERROR\<close> here).\<close>

type_synonym log_event = "SourceLocation \<times> string \<times> string"

record LexerState =
  HasSource :: bool
  Src :: string
  LexFilename :: string
  LastChar :: int
  CurLine :: int
  CurCol :: int
  CurLoc :: SourceLocation
  PrevTokEndLine :: int
  PrevTokEndCol :: int
  IdentifierStr :: string
  StringVal :: string
  NumLitSpelling :: string
  NumLitClean :: string
  NumLitRadix :: int
  BoolVal :: bool
  CharVal :: char
  Lookahead :: "LexedToken list"
  Logged :: "log_event list"

text \<open>The default member initialisers, with a caller's stream.\<close>

definition new_lexer :: "string \<Rightarrow> string \<Rightarrow> LexerState" where
  "new_lexer content name =
    \<lparr>HasSource = True, Src = content, LexFilename = name, LastChar = 32, CurLine = 1, CurCol = 0,
     CurLoc = loc3 1 0 [], PrevTokEndLine = -1, PrevTokEndCol = -1, IdentifierStr = [],
     StringVal = [], NumLitSpelling = [], NumLitClean = [], NumLitRadix = 10, BoolVal = False,
     CharVal = CHR 0x00, Lookahead = [], Logged = []\<rparr>"

definition lexer_reset :: "LexerState \<Rightarrow> LexerState" where
  "lexer_reset L = L\<lparr>Lookahead := [], LastChar := 32, CurLine := 1, CurCol := 0,
     CurLoc := loc3 1 0 [], PrevTokEndLine := -1, PrevTokEndCol := -1\<rparr>"

text \<open>\<open>LexerState::open\<close>, over a file system given as a parameter: a file that cannot be opened reads as empty.\<close>

definition lexer_open :: "(string \<Rightarrow> string option) \<Rightarrow> string \<Rightarrow> LexerState \<Rightarrow> bool \<times> LexerState" where
  "lexer_open fs path L =
    (fs path \<noteq> None,
     lexer_reset (L\<lparr>HasSource := True,
        Src := (case fs path of Some content \<Rightarrow> content | None \<Rightarrow> []), LexFilename := path\<rparr>))"

section \<open>Reading\<close>

text \<open>\<open>L.LastChar = L.Source->get()\<close>, and the same followed by \<open>L.CurCol++\<close>.\<close>

definition get_char :: "LexerState \<Rightarrow> LexerState" where
  "get_char L = (case Src L of [] \<Rightarrow> L\<lparr>LastChar := EOF\<rparr> | c # cs \<Rightarrow> L\<lparr>LastChar := ch c, Src := cs\<rparr>)"

definition next_char :: "LexerState \<Rightarrow> LexerState" where
  "next_char L = (let L1 = get_char L in L1\<lparr>CurCol := CurCol L1 + 1\<rparr>)"

text \<open>\<open>L.Source->get(); L.CurCol++;\<close> with the character discarded, and \<open>L.Source->peek()\<close>.\<close>

definition skip_char :: "LexerState \<Rightarrow> LexerState" where
  "skip_char L = L\<lparr>Src := tl (Src L), CurCol := CurCol L + 1\<rparr>"

definition peek :: "LexerState \<Rightarrow> int" where
  "peek L = (case Src L of [] \<Rightarrow> EOF | c # cs \<Rightarrow> ch c)"

definition log_error :: "SourceLocation \<Rightarrow> string \<Rightarrow> string \<Rightarrow> LexerState \<Rightarrow> LexerState" where
  "log_error loc code msg L = L\<lparr>Logged := Logged L @ [(loc, code, msg)]\<rparr>"

text \<open>What is left to read, the character already in \<open>LastChar\<close> included: the measure of every loop.\<close>

definition remaining :: "LexerState \<Rightarrow> nat" where
  "remaining L = length (Src L) + (if LastChar L = EOF then 0 else 1)"

lemma remaining_next:
  "remaining (next_char L) \<le> remaining L"
  "LastChar L \<noteq> -1 \<Longrightarrow> remaining (next_char L) < remaining L"
  by (auto simp: remaining_def next_char_def get_char_def Let_def split: list.splits)

lemma remaining_get:
  "LastChar L \<noteq> -1 \<Longrightarrow> remaining (get_char L) < remaining L"
  by (auto simp: remaining_def get_char_def split: list.splits)

lemma remaining_cong:
  "Src L' = Src L \<Longrightarrow> LastChar L' = LastChar L \<Longrightarrow> remaining L' = remaining L"
  by (simp add: remaining_def)

section \<open>White space and identifiers\<close>

text \<open>One turn of the white-space loop: the column does not move at the end of the input.\<close>

definition skip_space_step :: "LexerState \<Rightarrow> LexerState" where
  "skip_space_step L =
    (let L1 = (if LastChar L = ch NL then L\<lparr>CurLine := CurLine L + 1, CurCol := 0\<rparr> else L);
         L2 = get_char L1
     in if LastChar L2 \<noteq> EOF then L2\<lparr>CurCol := CurCol L2 + 1\<rparr> else L2)"

lemma remaining_skip_space_step: "LastChar L \<noteq> -1 \<Longrightarrow> remaining (skip_space_step L) < remaining L"
  by (auto simp: remaining_def skip_space_step_def get_char_def Let_def split: list.splits)

function skip_space :: "LexerState \<Rightarrow> LexerState" where
  "skip_space L = (if isspace (LastChar L) then skip_space (skip_space_step L) else L)"
  by pat_completeness auto
termination
  by (relation "measure remaining") (auto intro!: remaining_skip_space_step)

definition ident_start :: "int \<Rightarrow> bool" where
  "ident_start c \<longleftrightarrow> isalpha c \<or> c = ch CHR ''_''"

definition ident_part :: "int \<Rightarrow> bool" where
  "ident_part c \<longleftrightarrow> isalnum c \<or> c = ch CHR ''_''"

text \<open>\<open>L.IdentifierStr += L.LastChar; L.LastChar = L.Source->get(); L.CurCol++\<close>.\<close>

definition ident_step :: "LexerState \<Rightarrow> LexerState" where
  "ident_step L = next_char (L\<lparr>IdentifierStr := IdentifierStr L @ [to_char (LastChar L)]\<rparr>)"

lemma ident_part_EOF [simp]: "\<not> ident_part (-1)" "\<not> ident_start (-1)"
  by (simp_all add: ident_part_def ident_start_def)

function ident_loop :: "LexerState \<Rightarrow> LexerState" where
  "ident_loop L = (if ident_part (LastChar L) then ident_loop (ident_step L) else L)"
  by pat_completeness auto
termination
proof (relation "measure remaining")
  fix L :: LexerState assume "ident_part (LastChar L)"
  then have "LastChar L \<noteq> -1" by auto
  then show "(ident_step L, L) \<in> measure remaining"
    using remaining_next(2) [of "L\<lparr>IdentifierStr := IdentifierStr L @ [to_char (LastChar L)]\<rparr>"]
    by (simp add: ident_step_def remaining_def)
qed simp

definition scan_identifier :: "LexerState \<Rightarrow> int \<times> LexerState" where
  "scan_identifier L =
    (let L1 = next_char (L\<lparr>IdentifierStr := [to_char (LastChar L)]\<rparr>);
         L2 = ident_loop L1
     in if IdentifierStr L2 = ''_'' then (TOK_WILDCARD, L2)
        else case map_of Keywords (IdentifierStr L2) of
          Some t \<Rightarrow>
            (t, if t = TOK_BOOL_LITERAL then L2\<lparr>BoolVal := (IdentifierStr L2 = ''true'')\<rparr> else L2)
        | None \<Rightarrow> (TOK_IDENTIFIER, L2))"

section \<open>String and character literals\<close>

definition escape_of :: "int \<Rightarrow> char option" where
  "escape_of c =
    (if c = ch CHR ''n'' then Some NL
     else if c = ch CHR ''t'' then Some CHR 0x09
     else if c = ch CHR ''r'' then Some CR
     else if c = ch CHR ''0'' then Some CHR 0x00
     else if c = ch CHR ''a'' then Some CHR 0x07
     else if c = ch CHR ''b'' then Some CHR 0x08
     else if c = ch CHR ''f'' then Some CHR 0x0C
     else if c = ch CHR ''v'' then Some CHR 0x0B
     else if c = ch BSL then Some BSL
     else if c = ch DQ then Some DQ
     else if c = ch SQ then Some SQ
     else None)"

definition RecognizedEscapes :: string where
  "RecognizedEscapes = [NL] @ ''  Hint: Recognized escapes are '' @ [BSL] @ ''n '' @ [BSL] @ ''t '' @
     [BSL] @ ''r '' @ [BSL] @ ''0 '' @ [BSL] @ ''a '' @ [BSL] @ ''b '' @ [BSL] @ ''f '' @ [BSL] @
     ''v '' @ [BSL, BSL, CHR '' '', BSL, DQ, CHR '' '', BSL, SQ] @ ''.''"

definition unknown_escape_msg :: "int \<Rightarrow> string \<Rightarrow> string" where
  "unknown_escape_msg c where =
     ''Unknown escape sequence '' @ [SQ, BSL, to_char c, SQ] @ '' in '' @ where @ '' literal.'' @
     RecognizedEscapes"

definition UnterminatedStringHint :: string where
  "UnterminatedStringHint = [NL] @ ''  Hint: Add a closing '' @ [SQ, DQ, SQ] @
     '' before the end of the line -- Turf string literals can't span multiple lines. Need an actual line break inside the string? Use the '' @
     [BSL] @ ''n escape instead.''"

text \<open>The body of the string loop, without the read at its end.\<close>

definition string_char :: "LexerState \<Rightarrow> LexerState" where
  "string_char L =
    (if LastChar L = ch BSL then
       (let EscapeLoc = loc3 (CurLine L) (CurCol L) [];
            L1 = next_char L
        in case escape_of (LastChar L1) of
             Some c \<Rightarrow> L1\<lparr>StringVal := StringVal L1 @ [c]\<rparr>
           | None \<Rightarrow>
               (let L2 = log_error EscapeLoc ErrCode_InvalidEscapeSequence
                  (unknown_escape_msg (LastChar L1) ''string'' @
                   '' Did you mean to write a literal backslash? Use '' @ [SQ, BSL, BSL, SQ] @
                   '' instead.'') L1
                in L2\<lparr>StringVal := StringVal L2 @ [to_char (LastChar L2)]\<rparr>))
     else L\<lparr>StringVal := StringVal L @ [to_char (LastChar L)]\<rparr>)"

lemma remaining_string_char: "remaining (string_char L) \<le> remaining L"
  using remaining_next(1) [of L]
  by (auto simp: string_char_def Let_def log_error_def remaining_def split: option.split)

lemma remaining_string_char_EOF:
  "LastChar L \<noteq> -1 \<Longrightarrow> LastChar (string_char L) = -1 \<Longrightarrow> remaining (string_char L) < remaining L"
  using remaining_next(2) [of L]
  by (auto simp: string_char_def Let_def log_error_def remaining_def split: option.splits if_splits)

function string_loop :: "LexerState \<Rightarrow> LexerState" where
  "string_loop L =
    (if LastChar L \<noteq> ch DQ \<and> LastChar L \<noteq> EOF \<and> LastChar L \<noteq> ch NL
     then string_loop (next_char (string_char L)) else L)"
  by pat_completeness auto
termination
proof (relation "measure remaining")
  fix L :: LexerState assume *: "LastChar L \<noteq> ch DQ \<and> LastChar L \<noteq> EOF \<and> LastChar L \<noteq> ch NL"
  then have "LastChar L \<noteq> -1" by simp
  then have "remaining (next_char (string_char L)) < remaining L"
    using remaining_string_char [of L] remaining_string_char_EOF [of L]
      remaining_next [of "string_char L"]
    by (cases "LastChar (string_char L) = -1") linarith+
  then show "(next_char (string_char L), L) \<in> measure remaining" by simp
qed simp

definition unterminated_string :: "LexerState \<Rightarrow> LexerState" where
  "unterminated_string L = log_error (CurLoc L) ErrCode_UnterminatedLiteral
     (''Unterminated string literal'' @ UnterminatedStringHint) L"

definition scan_string :: "LexerState \<Rightarrow> int \<times> LexerState" where
  "scan_string L =
    (let L1 = next_char (L\<lparr>StringVal := []\<rparr>);
         L2 = string_loop L1
     in if LastChar L2 = EOF then (TOK_EOF, unterminated_string L2)
        else if LastChar L2 = ch NL then (TOK_STRING_LITERAL, unterminated_string L2)
        else (TOK_STRING_LITERAL, next_char L2))"

definition char_body :: "LexerState \<Rightarrow> LexerState" where
  "char_body L =
    (if LastChar L = ch BSL then
       (let EscapeLoc = loc3 (CurLine L) (CurCol L) [];
            L1 = next_char L
        in case escape_of (LastChar L1) of
             Some c \<Rightarrow> L1\<lparr>CharVal := c\<rparr>
           | None \<Rightarrow>
               (let L2 = log_error EscapeLoc ErrCode_InvalidEscapeSequence
                  (unknown_escape_msg (LastChar L1) ''char'') L1
                in L2\<lparr>CharVal := to_char (LastChar L2)\<rparr>))
     else L\<lparr>CharVal := to_char (LastChar L)\<rparr>)"

function char_skip :: "LexerState \<Rightarrow> LexerState" where
  "char_skip L =
    (if LastChar L \<noteq> ch SQ \<and> LastChar L \<noteq> EOF \<and> LastChar L \<noteq> ch NL then char_skip (next_char L)
     else L)"
  by pat_completeness auto
termination
  by (relation "measure remaining") (auto intro!: remaining_next(2))

definition EmptyCharMsg :: string where
  "EmptyCharMsg = ''Empty char literal.'' @ [NL] @
     ''  Hint: A char literal must contain exactly one character, e.g. '' @ [SQ, CHR ''a'', SQ] @ ''.''"

definition UnterminatedCharMsg :: string where
  "UnterminatedCharMsg = ''Unterminated char literal'' @ [NL] @ ''  Hint: Add a closing '' @
     [SQ, SQ, SQ] @ '' after the character.''"

definition LongCharMsg :: string where
  "LongCharMsg = ''Char literal must contain exactly one character.'' @ [NL] @
     ''  Hint: Use a string literal ('' @ [DQ] @ ''ab'' @ [DQ] @
     '') for multiple characters, or check for a missing closing '' @ [SQ] @ ''.''"

definition scan_char :: "LexerState \<Rightarrow> int \<times> LexerState" where
  "scan_char L =
    (let L1 = next_char L
     in if LastChar L1 = ch SQ then
          (let L2 = next_char (log_error (CurLoc L1) ErrCode_InvalidCharLiteral EmptyCharMsg L1)
           in (TOK_CHAR_LITERAL, L2\<lparr>CharVal := CHR 0x00\<rparr>))
        else if LastChar L1 = EOF \<or> LastChar L1 = ch NL then
          (if LastChar L1 = EOF then TOK_EOF else TOK_CHAR_LITERAL,
           log_error (CurLoc L1) ErrCode_UnterminatedLiteral UnterminatedCharMsg L1)
        else
          (let L2 = next_char (char_body L1)
           in if LastChar L2 \<noteq> ch SQ then
                (let L3 = char_skip
                   (log_error (CurLoc L2) ErrCode_InvalidCharLiteral LongCharMsg L2)
                 in (TOK_CHAR_LITERAL, if LastChar L3 = ch SQ then next_char L3 else L3))
              else (TOK_CHAR_LITERAL, next_char L2)))"

section \<open>Numbers\<close>

datatype NumberKind = SecondPoint | TrailingPoint | RadixPoint

text \<open>The classes of \<open>ErrorsLex.h\<close> the number scanner raises, with their constructor arguments.\<close>

datatype LexError =
  MalformedRadixPrefixError SourceLocation string
| InvalidRadixDigitError SourceLocation char int string
| MisplacedSeparatorError SourceLocation string bool
| MalformedExponentError SourceLocation string
| MalformedNumberError SourceLocation string NumberKind

type_synonym 'a scanned = "LexError \<times> LexerState + 'a"

definition bindS :: "'a scanned \<Rightarrow> ('a \<Rightarrow> 'b scanned) \<Rightarrow> 'b scanned" where
  "bindS m f = (case m of Inl e \<Rightarrow> Inl e | Inr a \<Rightarrow> f a)"

lemma bindS_simps [simp]: "bindS (Inl e) f = Inl e" "bindS (Inr a) f = f a"
  by (simp_all add: bindS_def)

text \<open>The \<open>IsDigit\<close> predicates passed to \<open>ScanDigitRun\<close>.\<close>

datatype digit_class = Dec | Hex | Bin | Oct

fun is_digit_of :: "digit_class \<Rightarrow> int \<Rightarrow> bool" where
  "is_digit_of Dec c = isdigit c"
| "is_digit_of Hex c = isxdigit c"
| "is_digit_of Bin c = (c = ch CHR ''0'' \<or> c = ch CHR ''1'')"
| "is_digit_of Oct c = (ch CHR ''0'' \<le> c \<and> c \<le> ch CHR ''7'')"

lemma is_digit_of_EOF [simp]: "\<not> is_digit_of cls (-1)"
  by (cases cls) simp_all

text \<open>The locals of the number branch: the lexer with \<open>Spelling\<close> and \<open>Clean\<close>.\<close>

type_synonym num_state = "LexerState \<times> string \<times> string"

definition digit_step :: "num_state \<Rightarrow> num_state" where
  "digit_step s = (case s of (L, Spelling, Clean) \<Rightarrow>
     (next_char L, Spelling @ [to_char (LastChar L)],
      if LastChar L \<noteq> ch CHR ''_'' then Clean @ [to_char (LastChar L)] else Clean))"

function digit_loop :: "digit_class \<Rightarrow> num_state \<Rightarrow> num_state" where
  "digit_loop cls s =
    (if is_digit_of cls (LastChar (fst s)) \<or> LastChar (fst s) = ch CHR ''_''
     then digit_loop cls (digit_step s) else s)"
  by pat_completeness auto
termination
proof (relation "measure (\<lambda>(_, s). remaining (fst s))")
  fix cls and s :: num_state
  assume "is_digit_of cls (LastChar (fst s)) \<or> LastChar (fst s) = ch CHR ''_''"
  then have "LastChar (fst s) \<noteq> -1" by auto
  then show "((cls, digit_step s), cls, s) \<in> measure (\<lambda>(_, s). remaining (fst s))"
    using remaining_next(2) [of "fst s"] by (cases s) (simp add: digit_step_def)
qed simp

definition ScanDigitRun ::
    "SourceLocation \<Rightarrow> digit_class \<Rightarrow> num_state \<Rightarrow> (nat \<times> num_state) scanned" where
  "ScanDigitRun NumLoc cls s = (case s of (L0, Spelling0, Clean0) \<Rightarrow>
     case digit_loop cls s of (L, Spelling, Clean) \<Rightarrow>
       if length Spelling0 < length Spelling \<and> Spelling ! length Spelling0 = CHR ''_''
       then Inl (MisplacedSeparatorError NumLoc Spelling True, L)
       else if length Spelling0 < length Spelling \<and> last Spelling = CHR ''_''
       then Inl (MisplacedSeparatorError NumLoc Spelling False, L)
       else Inr (length Clean - length Clean0, L, Spelling, Clean))"

definition RejectStrayPoint ::
    "SourceLocation \<Rightarrow> bool \<Rightarrow> bool \<Rightarrow> num_state \<Rightarrow> num_state scanned" where
  "RejectStrayPoint NumLoc Radix AlreadyFloat s = (case s of (L, Spelling, Clean) \<Rightarrow>
     if LastChar L \<noteq> ch CHR ''.'' then Inr s
     else if peek L = ch CHR ''.'' \<or> isalpha (peek L) \<or> peek L = ch CHR ''_'' then Inr s
     else if Radix then
       (if isdigit (peek L) then Inl (MalformedNumberError NumLoc Spelling RadixPoint, L) else Inr s)
     else Inl (MalformedNumberError NumLoc Spelling
                 (if AlreadyFloat then SecondPoint else TrailingPoint), L))"

text \<open>\<open>Spelling += LastChar; Clean += LastChar; LastChar = get(); CurCol++\<close>.\<close>

definition take_both :: "num_state \<Rightarrow> num_state" where
  "take_both s = (case s of (L, Spelling, Clean) \<Rightarrow>
     (next_char L, Spelling @ [to_char (LastChar L)], Clean @ [to_char (LastChar L)]))"

text \<open>The same without \<open>Clean\<close>, for the two characters of a radix prefix.\<close>

definition take_prefix :: "num_state \<Rightarrow> num_state" where
  "take_prefix s = (case s of (L, Spelling, Clean) \<Rightarrow>
     (next_char L, Spelling @ [to_char (LastChar L)], Clean))"

definition finish_number :: "int \<Rightarrow> num_state \<Rightarrow> (int \<times> LexerState) scanned" where
  "finish_number t s = (case s of (L, Spelling, Clean) \<Rightarrow>
     Inr (t, L\<lparr>NumLitSpelling := Spelling, NumLitClean := Clean\<rparr>))"

definition radix_of_prefix :: "char \<Rightarrow> int \<times> digit_class" where
  "radix_of_prefix c =
    (if c = CHR ''x'' \<or> c = CHR ''X'' then (16, Hex)
     else if c = CHR ''b'' \<or> c = CHR ''B'' then (2, Bin)
     else (8, Oct))"

definition is_radix_prefix :: "LexerState \<Rightarrow> bool" where
  "is_radix_prefix L \<longleftrightarrow> LastChar L = ch CHR ''0'' \<and>
    (peek L = ch CHR ''x'' \<or> peek L = ch CHR ''X'' \<or> peek L = ch CHR ''b'' \<or>
     peek L = ch CHR ''B'' \<or> peek L = ch CHR ''o'' \<or> peek L = ch CHR ''O'')"

definition scan_radix :: "SourceLocation \<Rightarrow> num_state \<Rightarrow> (int \<times> LexerState) scanned" where
  "scan_radix NumLoc s0 =
    (let s1 = take_prefix s0;
         RadixChar = to_char (LastChar (fst s1));
         s2 = take_prefix s1;
         (radix, cls) = radix_of_prefix RadixChar;
         s3 = (fst s2 \<lparr>NumLitRadix := radix\<rparr>, snd s2)
     in bindS (ScanDigitRun NumLoc cls s3) (\<lambda>(digits, L, Spelling, Clean).
          if isalnum (LastChar L)
          then Inl (InvalidRadixDigitError NumLoc (to_char (LastChar L)) (NumLitRadix L) Spelling, L)
          else if digits = 0 then Inl (MalformedRadixPrefixError NumLoc Spelling, L)
          else bindS (RejectStrayPoint NumLoc True False (L, Spelling, Clean))
                 (finish_number TOK_INT_LITERAL)))"

text \<open>The fractional part and the exponent; each returns whether it made the literal a float.\<close>

definition scan_fraction ::
    "SourceLocation \<Rightarrow> num_state \<Rightarrow> (bool \<times> num_state) scanned" where
  "scan_fraction NumLoc s =
    (if LastChar (fst s) = ch CHR ''.'' \<and> peek (fst s) \<noteq> ch CHR ''.'' \<and> isdigit (peek (fst s))
     then bindS (ScanDigitRun NumLoc Dec (take_both s)) (\<lambda>(_, s'). Inr (True, s'))
     else Inr (False, s))"

definition is_exponent_mark :: "int \<Rightarrow> bool" where
  "is_exponent_mark c \<longleftrightarrow> c = ch CHR ''e'' \<or> c = ch CHR ''E''"

definition is_sign :: "int \<Rightarrow> bool" where
  "is_sign c \<longleftrightarrow> c = ch CHR ''+'' \<or> c = ch CHR ''-''"

definition scan_exponent ::
    "SourceLocation \<Rightarrow> bool \<Rightarrow> num_state \<Rightarrow> (bool \<times> num_state) scanned" where
  "scan_exponent NumLoc IsFloat s =
    (if is_exponent_mark (LastChar (fst s)) then
       (let s1 = take_both s;
            s2 = (if is_sign (LastChar (fst s1)) then take_both s1 else s1)
        in bindS (ScanDigitRun NumLoc Dec s2) (\<lambda>(digits, L, Spelling, Clean).
             if digits = 0 then Inl (MalformedExponentError NumLoc Spelling, L)
             else Inr (True, L, Spelling, Clean)))
     else Inr (IsFloat, s))"

definition scan_number :: "LexerState \<Rightarrow> (int \<times> LexerState) scanned" where
  "scan_number L =
    (let NumLoc = CurLoc L in
     if is_radix_prefix L then scan_radix NumLoc (L, [], [])
     else
       bindS (ScanDigitRun NumLoc Dec (L\<lparr>NumLitRadix := 10\<rparr>, [], [])) (\<lambda>(_, s1).
       bindS (scan_fraction NumLoc s1) (\<lambda>(IsFloat1, s2).
       bindS (scan_exponent NumLoc IsFloat1 s2) (\<lambda>(IsFloat, s3).
       bindS (RejectStrayPoint NumLoc False IsFloat s3)
         (finish_number (if IsFloat then TOK_NUMBER else TOK_INT_LITERAL))))))"

section \<open>Dots, operators and comments\<close>

definition scan_dots :: "LexerState \<Rightarrow> int \<times> LexerState" where
  "scan_dots L =
    (let L1 = skip_char L
     in if peek L1 = ch CHR ''.'' then (TOK_ELLIPSIS, next_char (skip_char L1))
        else (TOK_RANGE, next_char L1))"

text \<open>\<open>if (L.LastChar == c) { LastChar = get(); CurCol++; return tok; }\<close> inside an operator's branch.\<close>

definition on_char :: "char \<Rightarrow> int \<Rightarrow> LexerState \<Rightarrow> int \<times> LexerState \<Rightarrow> int \<times> LexerState" where
  "on_char c tok L otherwise = (if LastChar L = ch c then (tok, next_char L) else otherwise)"

text \<open>The same where a third character may follow the second.\<close>

definition on_char2 ::
    "char \<Rightarrow> char \<Rightarrow> int \<Rightarrow> int \<Rightarrow> LexerState \<Rightarrow> int \<times> LexerState \<Rightarrow> int \<times> LexerState" where
  "on_char2 c d tok3 tok2 L otherwise =
    (if LastChar L = ch c
     then (let L1 = next_char L in on_char d tok3 L1 (tok2, L1))
     else otherwise)"

text \<open>The branches for an operator's first character, in the code's order, in three groups.\<close>

definition scan_comparison :: "LexerState \<Rightarrow> (int \<times> LexerState) option" where
  "scan_comparison L =
    (let c = LastChar L; L1 = next_char L in
     if c = ch CHR ''='' then
       Some (on_char CHR ''='' TOK_EQ L1 (TOK_ASSIGN, L1))
     else if c = ch CHR '':'' then
       Some (on_char CHR '':'' TOK_SCOPE L1 (TOK_COLON, L1))
     else if c = ch CHR ''!'' then
       Some (on_char CHR ''='' TOK_NEQ L1 (ch CHR ''!'', L1))
     else if c = ch CHR ''>'' then
       Some (on_char CHR ''='' TOK_GEQ L1
         (on_char2 CHR ''>'' CHR ''='' TOK_RSHIFT_ASSIGN TOK_RSHIFT L1 (ch CHR ''>'', L1)))
     else if c = ch CHR ''<'' then
       Some (on_char CHR ''='' TOK_LEQ L1
         (on_char2 CHR ''<'' CHR ''='' TOK_LSHIFT_ASSIGN TOK_LSHIFT L1 (ch CHR ''<'', L1)))
     else None)"

definition scan_bitwise :: "LexerState \<Rightarrow> (int \<times> LexerState) option" where
  "scan_bitwise L =
    (let c = LastChar L; L1 = next_char L in
     if c = ch CHR ''&'' then
       Some (on_char CHR ''&'' TOK_AND L1 (on_char CHR ''='' TOK_AND_ASSIGN L1 (ch CHR ''&'', L1)))
     else if c = ch CHR ''|'' then
       Some (on_char CHR ''|'' TOK_OR L1 (on_char CHR ''='' TOK_OR_ASSIGN L1 (ch CHR ''|'', L1)))
     else if c = ch CHR ''^'' then
       Some (on_char CHR ''='' TOK_XOR_ASSIGN L1 (ch CHR ''^'', L1))
     else None)"

definition scan_arith :: "LexerState \<Rightarrow> (int \<times> LexerState) option" where
  "scan_arith L =
    (let c = LastChar L; L1 = next_char L in
     if c = ch CHR ''+'' then
       Some (on_char CHR ''+'' TOK_PLUS_PLUS L1
         (on_char CHR ''='' TOK_PLUS_ASSIGN L1 (ch CHR ''+'', L1)))
     else if c = ch CHR ''-'' then
       Some (on_char CHR ''-'' TOK_MINUS_MINUS L1
         (on_char CHR ''='' TOK_MINUS_ASSIGN L1
           (on_char CHR ''>'' TOK_ARROW L1 (ch CHR ''-'', L1))))
     else if c = ch CHR ''*'' then
       Some (on_char CHR ''='' TOK_MUL_ASSIGN L1
         (on_char2 CHR ''*'' CHR ''='' TOK_POWER_ASSIGN TOK_POWER L1 (ch CHR ''*'', L1)))
     else if c = ch CHR ''%'' then
       Some (on_char CHR ''='' TOK_MOD_ASSIGN L1 (ch CHR ''%'', L1))
     else None)"

definition scan_operator :: "LexerState \<Rightarrow> (int \<times> LexerState) option" where
  "scan_operator L =
    (case scan_comparison L of Some r \<Rightarrow> Some r
     | None \<Rightarrow> (case scan_bitwise L of Some r \<Rightarrow> Some r | None \<Rightarrow> scan_arith L))"

lemma case_if_Some:
  "(case (if b then Some x else y) of Some r \<Rightarrow> Some r | None \<Rightarrow> z) =
     (if b then Some x else (case y of Some r \<Rightarrow> Some r | None \<Rightarrow> z))"
  by simp

lemma scan_operator_chain:
  "scan_operator L =
    (let c = LastChar L; L1 = next_char L in
     if c = ch CHR ''='' then
       Some (on_char CHR ''='' TOK_EQ L1 (TOK_ASSIGN, L1))
     else if c = ch CHR '':'' then
       Some (on_char CHR '':'' TOK_SCOPE L1 (TOK_COLON, L1))
     else if c = ch CHR ''!'' then
       Some (on_char CHR ''='' TOK_NEQ L1 (ch CHR ''!'', L1))
     else if c = ch CHR ''>'' then
       Some (on_char CHR ''='' TOK_GEQ L1
         (on_char2 CHR ''>'' CHR ''='' TOK_RSHIFT_ASSIGN TOK_RSHIFT L1 (ch CHR ''>'', L1)))
     else if c = ch CHR ''<'' then
       Some (on_char CHR ''='' TOK_LEQ L1
         (on_char2 CHR ''<'' CHR ''='' TOK_LSHIFT_ASSIGN TOK_LSHIFT L1 (ch CHR ''<'', L1)))
     else if c = ch CHR ''&'' then
       Some (on_char CHR ''&'' TOK_AND L1 (on_char CHR ''='' TOK_AND_ASSIGN L1 (ch CHR ''&'', L1)))
     else if c = ch CHR ''|'' then
       Some (on_char CHR ''|'' TOK_OR L1 (on_char CHR ''='' TOK_OR_ASSIGN L1 (ch CHR ''|'', L1)))
     else if c = ch CHR ''^'' then
       Some (on_char CHR ''='' TOK_XOR_ASSIGN L1 (ch CHR ''^'', L1))
     else if c = ch CHR ''+'' then
       Some (on_char CHR ''+'' TOK_PLUS_PLUS L1
         (on_char CHR ''='' TOK_PLUS_ASSIGN L1 (ch CHR ''+'', L1)))
     else if c = ch CHR ''-'' then
       Some (on_char CHR ''-'' TOK_MINUS_MINUS L1
         (on_char CHR ''='' TOK_MINUS_ASSIGN L1
           (on_char CHR ''>'' TOK_ARROW L1 (ch CHR ''-'', L1))))
     else if c = ch CHR ''*'' then
       Some (on_char CHR ''='' TOK_MUL_ASSIGN L1
         (on_char2 CHR ''*'' CHR ''='' TOK_POWER_ASSIGN TOK_POWER L1 (ch CHR ''*'', L1)))
     else if c = ch CHR ''%'' then
       Some (on_char CHR ''='' TOK_MOD_ASSIGN L1 (ch CHR ''%'', L1))
     else None)"
  unfolding scan_operator_def scan_comparison_def scan_bitwise_def scan_arith_def Let_def case_if_Some
    option.case ..

text \<open>The \<open>do ... while\<close> loop of a line comment.\<close>

function comment_loop :: "LexerState \<Rightarrow> LexerState" where
  "comment_loop L =
    (let L1 = next_char L
     in if LastChar L1 \<noteq> EOF \<and> LastChar L1 \<noteq> ch NL \<and> LastChar L1 \<noteq> ch CR
        then comment_loop L1 else L1)"
  by pat_completeness auto
termination
  by (relation "measure (\<lambda>L. length (Src L))")
    (auto simp: next_char_def get_char_def Let_def split: list.splits)

text \<open>The tail of \<open>gettokScan\<close>: \<open>@\<close>, the end of the input, any other single character.\<close>

definition scan_single :: "LexerState \<Rightarrow> int \<times> LexerState" where
  "scan_single L =
    (if LastChar L = ch CHR ''@'' then (TOK_AT, next_char L)
     else if LastChar L = EOF then (TOK_EOF, L)
     else (LastChar L, next_char L))"

definition at_dots :: "LexerState \<Rightarrow> bool" where
  "at_dots L \<longleftrightarrow> LastChar L = ch CHR ''.'' \<and> peek L = ch CHR ''.''"

definition at_number :: "LexerState \<Rightarrow> bool" where
  "at_number L \<longleftrightarrow> isdigit (LastChar L) \<or> LastChar L = ch CHR ''.'' \<and> isdigit (peek L)"

text \<open>Everything \<open>gettokScan\<close> does from the location snapshot on, a line comment apart.\<close>

definition scan_token :: "LexerState \<Rightarrow> (int \<times> LexerState) scanned" where
  "scan_token L =
    (if ident_start (LastChar L) then Inr (scan_identifier L)
     else if LastChar L = ch DQ then Inr (scan_string L)
     else if LastChar L = ch SQ then Inr (scan_char L)
     else if at_dots L then Inr (scan_dots L)
     else if at_number L then scan_number L
     else case scan_operator L of
       Some r \<Rightarrow> Inr r
     | None \<Rightarrow>
         if LastChar L = ch CHR ''/'' \<and> peek L = ch CHR ''=''
         then Inr (TOK_DIV_ASSIGN, next_char (next_char L))
         else Inr (scan_single L))"

definition at_comment :: "LexerState \<Rightarrow> bool" where
  "at_comment L \<longleftrightarrow> LastChar L = ch CHR ''/'' \<and> peek L = ch CHR ''/''"

definition snapshot :: "LexerState \<Rightarrow> LexerState" where
  "snapshot L = L\<lparr>CurLoc := loc3 (CurLine L) (CurCol L) (LexFilename L)\<rparr>"

lemma remaining_skip_space: "remaining (skip_space L) \<le> remaining L"
proof (induction L rule: skip_space.induct)
  case (1 L)
  show ?case
  proof (cases "isspace (LastChar L)")
    case True
    then have "LastChar L \<noteq> -1" by auto
    with 1 True show ?thesis
      using remaining_skip_space_step [of L] by (simp add: skip_space.simps [of L])
  qed (simp add: skip_space.simps [of L])
qed

lemma remaining_comment_loop: "LastChar L \<noteq> -1 \<Longrightarrow> remaining (comment_loop L) < remaining L"
proof (induction L rule: comment_loop.induct)
  case (1 L)
  have less: "remaining (next_char L) < remaining L" using 1(2) by (rule remaining_next(2))
  show ?case
  proof (cases "LastChar (next_char L) \<noteq> EOF \<and> LastChar (next_char L) \<noteq> ch NL \<and>
      LastChar (next_char L) \<noteq> ch CR")
    case True
    then have "remaining (comment_loop (next_char L)) < remaining (next_char L)"
      using 1(1) [OF refl] by simp
    moreover have "comment_loop L = comment_loop (next_char L)"
      using True by (subst comment_loop.simps) (simp add: Let_def del: comment_loop.simps)
    ultimately show ?thesis using less by simp
  next
    case False
    then have "comment_loop L = next_char L"
      by (subst comment_loop.simps) (auto simp: Let_def simp del: comment_loop.simps)
    then show ?thesis using less by simp
  qed
qed

declare skip_space.simps [simp del] ident_loop.simps [simp del] string_loop.simps [simp del]
  char_skip.simps [simp del] digit_loop.simps [simp del] comment_loop.simps [simp del]

function gettokScan :: "LexerState \<Rightarrow> (int \<times> LexerState) scanned" where
  "gettokScan L =
    (if \<not> HasSource L then Inr (TOK_EOF, snapshot L)
     else
       let L1 = snapshot (skip_space L)
       in if at_comment L1 then
            (let L2 = comment_loop L1
             in if LastChar L2 \<noteq> EOF then gettokScan L2 else Inr (TOK_EOF, L2))
          else scan_token L1)"
  by pat_completeness auto
termination
proof (relation "measure remaining")
  fix L :: LexerState and L1 L2
  assume *: "L1 = snapshot (skip_space L)" "at_comment L1" "L2 = comment_loop L1"
  then have "LastChar L1 \<noteq> -1" by (auto simp: at_comment_def)
  then have "remaining L2 < remaining L1" unfolding *(3) by (rule remaining_comment_loop)
  moreover have "remaining L1 = remaining (skip_space L)"
    unfolding *(1) by (rule remaining_cong) (simp_all add: snapshot_def)
  ultimately show "(L2, L) \<in> measure remaining" using remaining_skip_space [of L] by simp
qed simp

declare gettokScan.simps [simp del]

definition stamp_end :: "LexerState \<Rightarrow> LexerState" where
  "stamp_end L = L\<lparr>CurLoc := CurLoc L\<lparr>EndLine := CurLine L, EndCol := CurCol L\<rparr>\<rparr>"

definition gettok :: "LexerState \<Rightarrow> (int \<times> LexerState) scanned" where
  "gettok L =
    bindS (gettokScan (L\<lparr>PrevTokEndLine := EndLine (CurLoc L), PrevTokEndCol := EndCol (CurLoc L)\<rparr>))
      (\<lambda>(Tok, L1). Inr (Tok, stamp_end L1))"

section \<open>Lookahead\<close>

definition captureToken :: "LexerState \<Rightarrow> int \<Rightarrow> LexedToken" where
  "captureToken L Tok =
    \<lparr>LT_Tok = Tok, LT_IdentifierStr = IdentifierStr L, LT_StringVal = StringVal L,
     LT_NumLitSpelling = NumLitSpelling L, LT_NumLitClean = NumLitClean L,
     LT_NumLitRadix = NumLitRadix L, LT_BoolVal = BoolVal L, LT_CharVal = CharVal L,
     LT_Loc = CurLoc L, LT_PrevTokEndLine = PrevTokEndLine L, LT_PrevTokEndCol = PrevTokEndCol L\<rparr>"

definition installToken :: "LexedToken \<Rightarrow> LexerState \<Rightarrow> LexerState" where
  "installToken T L =
    L\<lparr>IdentifierStr := LT_IdentifierStr T, StringVal := LT_StringVal T,
      NumLitSpelling := LT_NumLitSpelling T, NumLitClean := LT_NumLitClean T,
      NumLitRadix := LT_NumLitRadix T, BoolVal := LT_BoolVal T, CharVal := LT_CharVal T,
      CurLoc := LT_Loc T, PrevTokEndLine := LT_PrevTokEndLine T,
      PrevTokEndCol := LT_PrevTokEndCol T\<rparr>"

text \<open>The loop of \<open>peekToken\<close>: lex until \<open>n\<close> more tokens are waiting.\<close>

fun fill_lookahead :: "nat \<Rightarrow> LexerState \<Rightarrow> LexerState scanned" where
  "fill_lookahead 0 L = Inr L"
| "fill_lookahead (Suc n) L =
    bindS (gettok L) (\<lambda>(Tok, L1).
      fill_lookahead n (L1\<lparr>Lookahead := Lookahead L1 @ [captureToken L1 Tok]\<rparr>))"

definition peekToken :: "nat \<Rightarrow> LexerState \<Rightarrow> (int \<times> LexerState) scanned" where
  "peekToken N L =
    (if N < length (Lookahead L) then Inr (LT_Tok (Lookahead L ! N), L)
     else
       let Current = captureToken L 0;
           L1 = (if Lookahead L \<noteq> [] then installToken (last (Lookahead L)) L else L)
       in bindS (fill_lookahead (N + 1 - length (Lookahead L)) L1) (\<lambda>L2.
            let L3 = installToken Current L2
            in Inr (LT_Tok (Lookahead L3 ! N), L3)))"

definition takeLookaheadToken :: "LexerState \<Rightarrow> (int \<times> LexerState) option" where
  "takeLookaheadToken L =
    (case Lookahead L of
       [] \<Rightarrow> None
     | T # Ts \<Rightarrow> Some (LT_Tok T, (installToken T L)\<lparr>Lookahead := Ts\<rparr>))"

end
