(* ===== verification/LexFacts.thy ===== *)
theory LexFacts
  imports LexScan
begin

text \<open>
  What every scanning step of the lexer does to the text: the relation \<open>reads L p L'\<close> says that the
  step from \<open>L\<close> to \<open>L'\<close> consumed exactly \<open>p\<close>, on one line, moving the column along. Each scanner of
  a token is shown to read the token's text; white space and comments move the position the way
  the text they consume does.
\<close>

section \<open>The text left to read\<close>

definition input :: "LexerState \<Rightarrow> string" where
  "input L = (if LastChar L = -1 then [] else to_char (LastChar L) # Src L)"

definition lex_wf :: "LexerState \<Rightarrow> bool" where
  "lex_wf L \<longleftrightarrow> (LastChar L = -1 \<and> Src L = []) \<or> (\<exists>c. LastChar L = ch c)"

lemma lex_wf_cases [consumes 1, case_names EOF char]:
  assumes "lex_wf L"
  obtains "LastChar L = -1" "Src L = []" "input L = []"
  | c where "LastChar L = ch c" "input L = c # Src L"
  using assms unfolding lex_wf_def input_def by auto

lemma remaining_input: "lex_wf L \<Longrightarrow> remaining L = length (input L)"
  by (auto simp: remaining_def input_def lex_wf_def)

lemma input_Nil: "lex_wf L \<Longrightarrow> input L = [] \<longleftrightarrow> LastChar L = -1"
  by (erule lex_wf_cases) auto

lemma LastChar_input: "lex_wf L \<Longrightarrow> LastChar L = (case input L of [] \<Rightarrow> -1 | c # cs \<Rightarrow> ch c)"
  by (erule lex_wf_cases) auto

lemma peek_input: "peek L = (case Src L of [] \<Rightarrow> -1 | c # cs \<Rightarrow> ch c)"
  by (simp add: peek_def split: list.split)

lemma Src_input: "lex_wf L \<Longrightarrow> Src L = tl (input L)"
  by (erule lex_wf_cases) auto

lemma ch_eq_iff [simp]: "ch c = ch d \<longleftrightarrow> c = d"
  by simp

text \<open>Updates of the fields a token's value is kept in do not touch the text or the position.\<close>

named_theorems value_fields \<open>the fields other than the cursor\<close>

lemma input_update [simp, value_fields]:
  "input (L\<lparr>IdentifierStr := s\<rparr>) = input L" "input (L\<lparr>StringVal := s\<rparr>) = input L"
  "input (L\<lparr>NumLitSpelling := s\<rparr>) = input L" "input (L\<lparr>NumLitClean := s\<rparr>) = input L"
  "input (L\<lparr>NumLitRadix := i\<rparr>) = input L" "input (L\<lparr>BoolVal := b\<rparr>) = input L"
  "input (L\<lparr>CharVal := c\<rparr>) = input L" "input (L\<lparr>CurLoc := l\<rparr>) = input L"
  "input (L\<lparr>PrevTokEndLine := i\<rparr>) = input L" "input (L\<lparr>PrevTokEndCol := i\<rparr>) = input L"
  "input (L\<lparr>CurLine := i\<rparr>) = input L" "input (L\<lparr>CurCol := i\<rparr>) = input L"
  "input (L\<lparr>Lookahead := ts\<rparr>) = input L" "input (L\<lparr>Logged := es\<rparr>) = input L"
  by (simp_all add: input_def)

lemma lex_wf_update [simp, value_fields]:
  "lex_wf (L\<lparr>IdentifierStr := s\<rparr>) = lex_wf L" "lex_wf (L\<lparr>StringVal := s\<rparr>) = lex_wf L"
  "lex_wf (L\<lparr>NumLitSpelling := s\<rparr>) = lex_wf L" "lex_wf (L\<lparr>NumLitClean := s\<rparr>) = lex_wf L"
  "lex_wf (L\<lparr>NumLitRadix := i\<rparr>) = lex_wf L" "lex_wf (L\<lparr>BoolVal := b\<rparr>) = lex_wf L"
  "lex_wf (L\<lparr>CharVal := c\<rparr>) = lex_wf L" "lex_wf (L\<lparr>CurLoc := l\<rparr>) = lex_wf L"
  "lex_wf (L\<lparr>PrevTokEndLine := i\<rparr>) = lex_wf L" "lex_wf (L\<lparr>PrevTokEndCol := i\<rparr>) = lex_wf L"
  "lex_wf (L\<lparr>CurLine := i\<rparr>) = lex_wf L" "lex_wf (L\<lparr>CurCol := i\<rparr>) = lex_wf L"
  "lex_wf (L\<lparr>Lookahead := ts\<rparr>) = lex_wf L" "lex_wf (L\<lparr>Logged := es\<rparr>) = lex_wf L"
  by (simp_all add: lex_wf_def)

lemma new_lexer_wf [simp]: "lex_wf (new_lexer s f)" "input (new_lexer s f) = CHR '' '' # s"
proof -
  have "LastChar (new_lexer s f) = ch CHR '' ''" by (simp add: new_lexer_def)
  then show "lex_wf (new_lexer s f)" unfolding lex_wf_def by blast
  show "input (new_lexer s f) = CHR '' '' # s"
    by (simp add: input_def new_lexer_def char_of_def) 
qed

section \<open>Reading characters\<close>

lemma get_char_wf [simp]: "lex_wf (get_char L)"
  by (auto simp: get_char_def lex_wf_def split: list.split)

lemma get_char_input: "lex_wf L \<Longrightarrow> input (get_char L) = tl (input L)"
  by (erule lex_wf_cases) (auto simp: get_char_def input_def split: list.split)

lemma get_char_fields [simp]:
  "CurLine (get_char L) = CurLine L" "CurCol (get_char L) = CurCol L"
  "CurLoc (get_char L) = CurLoc L" "LexFilename (get_char L) = LexFilename L"
  "HasSource (get_char L) = HasSource L" "IdentifierStr (get_char L) = IdentifierStr L"
  "StringVal (get_char L) = StringVal L" "Lookahead (get_char L) = Lookahead L"
  "Logged (get_char L) = Logged L" "BoolVal (get_char L) = BoolVal L"
  "CharVal (get_char L) = CharVal L" "NumLitRadix (get_char L) = NumLitRadix L"
  "NumLitSpelling (get_char L) = NumLitSpelling L" "NumLitClean (get_char L) = NumLitClean L"
  by (simp_all add: get_char_def split: list.split)

lemma next_char_wf [simp]: "lex_wf (next_char L)"
  by (simp add: next_char_def Let_def)

lemma next_char_input: "lex_wf L \<Longrightarrow> input (next_char L) = tl (input L)"
  by (simp add: next_char_def Let_def get_char_input)

lemma next_char_fields [simp]:
  "CurLine (next_char L) = CurLine L" "CurCol (next_char L) = CurCol L + 1"
  "CurLoc (next_char L) = CurLoc L" "LexFilename (next_char L) = LexFilename L"
  "HasSource (next_char L) = HasSource L" "IdentifierStr (next_char L) = IdentifierStr L"
  "StringVal (next_char L) = StringVal L" "Lookahead (next_char L) = Lookahead L"
  "Logged (next_char L) = Logged L" "BoolVal (next_char L) = BoolVal L"
  "CharVal (next_char L) = CharVal L" "NumLitRadix (next_char L) = NumLitRadix L"
  "NumLitSpelling (next_char L) = NumLitSpelling L" "NumLitClean (next_char L) = NumLitClean L"
  by (simp_all add: next_char_def Let_def)

section \<open>Reading a stretch of text\<close>

text \<open>A newline may be read inside a token only right after a backslash.\<close>

definition escaped_newline :: "string \<Rightarrow> bool" where
  "escaped_newline s \<longleftrightarrow> contains [BSL, NL] s"

definition reads :: "LexerState \<Rightarrow> string \<Rightarrow> LexerState \<Rightarrow> bool" where
  "reads L p L' \<longleftrightarrow> lex_wf L' \<and> input L = p @ input L' \<and> CurLine L' = CurLine L \<and>
     CurLoc L' = CurLoc L \<and> LexFilename L' = LexFilename L \<and> HasSource L' = HasSource L \<and>
     Lookahead L' = Lookahead L \<and> CurCol L + int (length p) \<le> CurCol L' \<and>
     (input L' \<noteq> [] \<longrightarrow> CurCol L' = CurCol L + int (length p)) \<and>
     (NL \<in> set p \<longrightarrow> escaped_newline p)"

lemma escaped_newline_append:
  "escaped_newline p \<or> escaped_newline q \<Longrightarrow> escaped_newline (p @ q)"
  unfolding escaped_newline_def using contains_append by blast

lemma reads_refl [simp]: "lex_wf L \<Longrightarrow> reads L [] L"
  by (simp add: reads_def)

lemma reads_trans [trans]:
  assumes "reads L p L'" and "reads L' q L''"
  shows "reads L (p @ q) L''"
  using assms escaped_newline_append [of p q] unfolding reads_def by auto

lemma reads_update [simp]:
  "reads L p (M\<lparr>IdentifierStr := s\<rparr>) = reads L p M" "reads L p (M\<lparr>StringVal := s\<rparr>) = reads L p M"
  "reads L p (M\<lparr>NumLitSpelling := s\<rparr>) = reads L p M" "reads L p (M\<lparr>NumLitClean := s\<rparr>) = reads L p M"
  "reads L p (M\<lparr>NumLitRadix := i\<rparr>) = reads L p M" "reads L p (M\<lparr>BoolVal := b\<rparr>) = reads L p M"
  "reads L p (M\<lparr>CharVal := c\<rparr>) = reads L p M" "reads L p (M\<lparr>Logged := es\<rparr>) = reads L p M"
  by (simp_all add: reads_def)

lemma reads_from [simp]:
  "reads (M\<lparr>IdentifierStr := s\<rparr>) p L = reads M p L" "reads (M\<lparr>StringVal := s\<rparr>) p L = reads M p L"
  "reads (M\<lparr>NumLitRadix := i\<rparr>) p L = reads M p L" "reads (M\<lparr>Logged := es\<rparr>) p L = reads M p L"
  by (simp_all add: reads_def)

lemma reads_log [simp]: "reads L p (log_error l c m M) = reads L p M"
  "reads (log_error l c m M) p L = reads M p L"
  by (simp_all add: log_error_def)

lemma reads_wf: "reads L p L' \<Longrightarrow> lex_wf L'"
  by (simp add: reads_def)

lemma reads_next:
  assumes "LastChar L = ch c" "ch c \<noteq> 10"
  shows "reads L [c] (next_char L)"
proof -
  have wf: "lex_wf L" using assms(1) unfolding lex_wf_def by blast
  moreover have "input L = c # Src L" using assms(1) by (simp add: input_def)
  moreover have "c \<noteq> NL" using assms(2) by auto
  ultimately show ?thesis by (simp add: reads_def next_char_input)
qed

lemma reads_next_EOF:
  assumes "lex_wf L" "LastChar L = -1"
  shows "reads L [] (next_char L)"
proof -
  have "input L = []" using assms(2) by (simp add: input_def)
  with assms(1) show ?thesis by (simp add: reads_def next_char_input)
qed

lemma reads_next_any:
  assumes "lex_wf L" "LastChar L \<noteq> ch NL"
  shows "\<exists>p. length p \<le> 1 \<and> reads L p (next_char L) \<and> (LastChar L \<noteq> -1 \<longrightarrow> p \<noteq> [])"
  using assms(1)
proof (cases rule: lex_wf_cases)
  case EOF
  with reads_next_EOF [OF assms(1)] show ?thesis by (intro exI [of _ "[]"]) simp
next
  case (char c)
  with assms(2) reads_next [of L c] show ?thesis by (intro exI [of _ "[c]"]) simp
qed

lemma get_char_update [simp]:
  "get_char (L\<lparr>StringVal := s\<rparr>) = (get_char L)\<lparr>StringVal := s\<rparr>"
  "get_char (L\<lparr>IdentifierStr := s\<rparr>) = (get_char L)\<lparr>IdentifierStr := s\<rparr>"
  "get_char (L\<lparr>CharVal := c\<rparr>) = (get_char L)\<lparr>CharVal := c\<rparr>"
  "get_char (L\<lparr>Logged := es\<rparr>) = (get_char L)\<lparr>Logged := es\<rparr>"
  by (simp_all add: get_char_def split: list.split)

lemma next_char_update [simp]:
  "next_char (L\<lparr>StringVal := s\<rparr>) = (next_char L)\<lparr>StringVal := s\<rparr>"
  "next_char (L\<lparr>IdentifierStr := s\<rparr>) = (next_char L)\<lparr>IdentifierStr := s\<rparr>"
  "next_char (L\<lparr>CharVal := c\<rparr>) = (next_char L)\<lparr>CharVal := c\<rparr>"
  "next_char (L\<lparr>Logged := es\<rparr>) = (next_char L)\<lparr>Logged := es\<rparr>"
  by (simp_all add: next_char_def Let_def)

lemma log_error_fields [simp]:
  "LastChar (log_error l c m L) = LastChar L" "Src (log_error l c m L) = Src L"
  "CurLoc (log_error l c m L) = CurLoc L" "StringVal (log_error l c m L) = StringVal L"
  "lex_wf (log_error l c m L) = lex_wf L" "input (log_error l c m L) = input L"
  "next_char (log_error l c m L) = log_error l c m (next_char L)"
  by (simp_all add: log_error_def)

section \<open>What each scanner reads\<close>

lemma ident_loop_reads:
  "lex_wf L \<Longrightarrow> \<exists>p. reads L p (ident_loop L) \<and> IdentifierStr (ident_loop L) = IdentifierStr L @ p \<and>
     (\<forall>c \<in> set p. ident_part (ch c)) \<and> \<not> ident_part (LastChar (ident_loop L)) \<and>
     Logged (ident_loop L) = Logged L \<and> BoolVal (ident_loop L) = BoolVal L"
proof (induction L rule: ident_loop.induct)
  case (1 L)
  show ?case
  proof (cases "ident_part (LastChar L)")
    case True
    with 1(2) obtain c where c: "LastChar L = ch c" by (auto elim!: lex_wf_cases)
    have nl: "ch c \<noteq> 10" using True c by (auto simp: ident_part_def char_class_defs)
    define M where "M = ident_step L"
    have M: "M = (next_char L)\<lparr>IdentifierStr := IdentifierStr L @ [c]\<rparr>"
      unfolding M_def ident_step_def by (simp add: c)
    have "reads L [c] M" unfolding M using reads_next [OF c nl] by simp
    moreover obtain q where q: "reads M q (ident_loop M)"
        "IdentifierStr (ident_loop M) = IdentifierStr M @ q" "\<forall>c \<in> set q. ident_part (ch c)"
        "\<not> ident_part (LastChar (ident_loop M))" "Logged (ident_loop M) = Logged M"
        "BoolVal (ident_loop M) = BoolVal M"
      using 1(1) [OF True] M unfolding M_def [symmetric] by auto
    moreover have "ident_loop L = ident_loop M"
      using True by (subst ident_loop.simps) (simp add: M_def)
    ultimately show ?thesis
      using reads_trans [of L "[c]" M q "ident_loop M"] True c by (intro exI [of _ "c # q"]) (simp add: M)
  next
    case False
    then have "ident_loop L = L" by (subst ident_loop.simps) simp
    with 1(2) False show ?thesis by (intro exI [of _ "[]"]) simp
  qed
qed

text \<open>A backslash and whatever character follows it.\<close>

lemma reads_escape:
  assumes "LastChar L = ch BSL"
  shows "\<exists>p. p \<noteq> [] \<and> reads L p (next_char (next_char L))"
proof -
  have 1: "reads L [BSL] (next_char L)" using assms by (intro reads_next) simp_all
  have wf: "lex_wf (next_char L)" by simp
  then show ?thesis
  proof (cases rule: lex_wf_cases)
    case EOF
    then show ?thesis using reads_trans [OF 1 reads_next_EOF [OF wf]] by (intro exI [of _ "[BSL]"]) simp
  next
    case (char c)
    have "reads L [BSL, c] (next_char (next_char L))"
    proof (cases "c = NL")
      case True
      have "input L = BSL # input (next_char L)" using 1 by (simp add: reads_def)
      then show ?thesis
        using 1 char True by (auto simp: reads_def next_char_input escaped_newline_def contains_iff)
    next
      case False
      then have "ch c \<noteq> 10" using ch_eq_iff [of c NL] by simp
      then show ?thesis using reads_trans [OF 1 reads_next [OF char(1)]] by simp
    qed
    then show ?thesis by blast
  qed
qed

lemma string_char_reads:
  assumes "lex_wf L" "LastChar L \<noteq> -1" "LastChar L \<noteq> ch NL"
  shows "\<exists>p. p \<noteq> [] \<and> reads L p (next_char (string_char L))"
proof (cases "LastChar L = ch BSL")
  case True
  then show ?thesis
    using reads_escape [OF True] by (auto simp: string_char_def Let_def split: option.split)
next
  case False
  then show ?thesis using reads_next_any [OF assms(1,3)] assms(2) by (auto simp: string_char_def)
qed

lemma string_loop_reads:
  "lex_wf L \<Longrightarrow> \<exists>p. reads L p (string_loop L) \<and>
     (LastChar (string_loop L) = ch DQ \<or> LastChar (string_loop L) = -1 \<or> LastChar (string_loop L) = ch NL)"
proof (induction L rule: string_loop.induct)
  case (1 L)
  show ?case
  proof (cases "LastChar L \<noteq> ch DQ \<and> LastChar L \<noteq> EOF \<and> LastChar L \<noteq> ch NL")
    case True
    then obtain p where "reads L p (next_char (string_char L))"
      using string_char_reads [of L] 1(2) by auto
    moreover have "string_loop L = string_loop (next_char (string_char L))"
      using True by (subst string_loop.simps) simp
    ultimately show ?thesis using 1(1) [OF True] reads_trans by (metis next_char_wf)
  next
    case False
    then have "string_loop L = L" by (subst string_loop.simps) auto
    with False 1(2) show ?thesis by (intro exI [of _ "[]"]) simp
  qed
qed

lemma char_skip_reads: "lex_wf L \<Longrightarrow> \<exists>p. reads L p (char_skip L)"
proof (induction L rule: char_skip.induct)
  case (1 L)
  show ?case
  proof (cases "LastChar L \<noteq> ch SQ \<and> LastChar L \<noteq> EOF \<and> LastChar L \<noteq> ch NL")
    case True
    then obtain p where "reads L p (next_char L)" using reads_next_any [OF 1(2)] by blast
    moreover have "char_skip L = char_skip (next_char L)"
      using True by (subst char_skip.simps) simp
    ultimately show ?thesis using 1(1) [OF True] reads_trans by (metis next_char_wf)
  next
    case False
    then have "char_skip L = L" by (subst char_skip.simps) auto
    with 1(2) show ?thesis by (intro exI [of _ "[]"]) simp
  qed
qed

lemma scan_identifier_reads:
  assumes "lex_wf L" "ident_start (LastChar L)" "scan_identifier L = (t, L')"
  shows "\<exists>p. p \<noteq> [] \<and> reads L p L' \<and> IdentifierStr L' = p \<and> (\<forall>c \<in> set p. ident_part (ch c)) \<and>
    \<not> ident_part (LastChar L') \<and> Logged L' = Logged L"
proof -
  obtain c where c: "LastChar L = ch c" using assms(1,2) by (auto elim!: lex_wf_cases)
  have "ch c \<noteq> 10" and part: "ident_part (ch c)"
    using assms(2) c by (auto simp: ident_start_def ident_part_def char_class_defs)
  define M where "M = next_char (L\<lparr>IdentifierStr := [c]\<rparr>)"
  have M: "M = (next_char L)\<lparr>IdentifierStr := [c]\<rparr>" unfolding M_def by simp
  have first: "reads L [c] M" unfolding M using reads_next [OF c \<open>ch c \<noteq> 10\<close>] by simp
  obtain q where q: "reads M q (ident_loop M)" "IdentifierStr (ident_loop M) = [c] @ q"
      "\<forall>c \<in> set q. ident_part (ch c)" "\<not> ident_part (LastChar (ident_loop M))"
      "Logged (ident_loop M) = Logged L"
    using ident_loop_reads [of M] unfolding M by auto
  have "reads L (c # q) (ident_loop M)" using reads_trans [OF first q(1)] by simp
  moreover have "L' = ident_loop M \<or> (\<exists>b. L' = (ident_loop M)\<lparr>BoolVal := b\<rparr>)"
    using assms(3) c unfolding scan_identifier_def Let_def M_def
    by (auto split: if_splits option.splits)
  ultimately show ?thesis
    using q part by (intro exI [of _ "c # q"]) auto
qed

lemma scan_string_reads:
  assumes "LastChar L = ch DQ" "scan_string L = (t, L')"
  shows "\<exists>p. p \<noteq> [] \<and> reads L p L'"
proof -
  define M where "M = next_char (L\<lparr>StringVal := []\<rparr>)"
  have M: "M = (next_char L)\<lparr>StringVal := []\<rparr>" unfolding M_def by simp
  have first: "reads L [DQ] M" unfolding M using reads_next [OF assms(1)] by simp
  obtain q where q: "reads M q (string_loop M)"
      "LastChar (string_loop M) = ch DQ \<or> LastChar (string_loop M) = -1 \<or> LastChar (string_loop M) = ch NL"
    using string_loop_reads [of M] unfolding M by auto
  have body: "reads L (DQ # q) (string_loop M)" using reads_trans [OF first q(1)] by simp
  consider (open_) "L' = unterminated_string (string_loop M)"
    | (closed) "LastChar (string_loop M) = ch DQ" "L' = next_char (string_loop M)"
    using assms(2) q(2) unfolding scan_string_def Let_def M_def by (auto split: if_splits)
  then show ?thesis
  proof cases
    case open_
    then show ?thesis using body unfolding unterminated_string_def by auto
  next
    case closed
    then show ?thesis using reads_trans [OF body reads_next [OF closed(1)]] by auto
  qed
qed

lemma char_body_reads:
  assumes "lex_wf L" "LastChar L \<noteq> -1" "LastChar L \<noteq> ch NL"
  shows "\<exists>p. reads L p (next_char (char_body L))"
proof (cases "LastChar L = ch BSL")
  case True
  then show ?thesis
    using reads_escape [OF True] by (auto simp: char_body_def Let_def split: option.split)
next
  case False
  then show ?thesis using reads_next_any [OF assms(1,3)] by (auto simp: char_body_def)
qed

lemma scan_char_reads:
  assumes "LastChar L = ch SQ" "scan_char L = (t, L')"
  shows "\<exists>p. p \<noteq> [] \<and> reads L p L'"
proof -
  define M where "M = next_char L"
  have first: "reads L [SQ] M" unfolding M_def using assms(1) by (rule reads_next) simp
  have wf: "lex_wf M" unfolding M_def by simp
  have ext: "\<exists>p. p \<noteq> [] \<and> reads L p N" if "reads M q N" for q N
    using reads_trans [OF first that] by auto
  show ?thesis
  proof (cases "LastChar M = ch SQ")
    case True
    then have "reads M [SQ] (next_char M)" by (rule reads_next) simp
    moreover have "\<exists>l c m. L' = (log_error l c m (next_char M))\<lparr>CharVal := CHR 0x00\<rparr>"
      using assms(2) True unfolding scan_char_def Let_def M_def by auto
    ultimately show ?thesis using ext by auto
  next
    case notquote: False
    show ?thesis
    proof (cases "LastChar M = -1 \<or> LastChar M = ch NL")
      case True
      then have "\<exists>l c m. L' = log_error l c m M"
        using assms(2) notquote unfolding scan_char_def Let_def M_def by auto
      then show ?thesis using ext [OF reads_refl [OF wf]] by auto
    next
      case False
      define N where "N = next_char (char_body M)"
      obtain q where q: "reads M q N" using char_body_reads [OF wf] False unfolding N_def by auto
      show ?thesis
      proof (cases "LastChar N = ch SQ")
        case True
        then have "L' = next_char N"
          using assms(2) notquote False unfolding scan_char_def Let_def M_def N_def by auto
        then show ?thesis using reads_trans [OF q reads_next [OF True]] ext by simp
      next
        case bad: False
        define J where "J = char_skip (log_error (CurLoc N) ErrCode_InvalidCharLiteral LongCharMsg N)"
        have K: "L' = (if LastChar J = ch SQ then next_char J else J)"
          using assms(2) notquote False bad unfolding scan_char_def Let_def M_def N_def J_def by auto
        obtain r where r: "reads N r J"
          using char_skip_reads [of "log_error (CurLoc N) ErrCode_InvalidCharLiteral LongCharMsg N"]
          unfolding J_def N_def by auto
        have "\<exists>u. reads J u L'"
        proof (cases "LastChar J = ch SQ")
          case True
          then show ?thesis using reads_next [OF True] K by auto
        next
          case False
          then show ?thesis using reads_refl [OF reads_wf [OF r]] K by auto
        qed
        then show ?thesis using ext reads_trans q r by blast
      qed
    qed
  qed
qed

lemma scan_dots_reads:
  assumes "at_dots L" "scan_dots L = (t, L')"
  shows "\<exists>p. p \<noteq> [] \<and> reads L p L'"
proof -
  have two: "next_char (skip_char L) = (next_char (next_char L))" if "LastChar L = ch a" for a L
    by (auto simp: next_char_def get_char_def skip_char_def Let_def split: list.split)
  have dot: "LastChar L = ch CHR ''.''" "peek L = ch CHR ''.''" using assms(1) by (simp_all add: at_dots_def)
  have 1: "reads L [CHR ''.''] (next_char L)" using dot(1) by (rule reads_next) simp
  have n1: "LastChar (next_char L) = ch CHR ''.''" "Src (next_char L) = Src (skip_char L)"
    using dot(2) by (auto simp: peek_def next_char_def get_char_def skip_char_def Let_def split: list.splits)
  have 2: "reads (next_char L) [CHR ''.''] (next_char (next_char L))" using n1(1) by (rule reads_next) simp
  note 12 = reads_trans [OF 1 2]
  show ?thesis
  proof (cases "peek (skip_char L) = ch CHR ''.''")
    case True
    then have "LastChar (next_char (next_char L)) = ch CHR ''.''"
      using n1(2) by (auto simp: peek_def next_char_def get_char_def Let_def split: list.splits)
    then have "reads (next_char (next_char L)) [CHR ''.''] (next_char (next_char (next_char L)))"
      by (rule reads_next) simp
    moreover have "L' = next_char (next_char (next_char L))"
    proof -
      have "L' = next_char (skip_char (skip_char L))" using assms(2) True by (auto simp: scan_dots_def Let_def)
      also have "\<dots> = next_char (next_char (next_char L))"
        using True n1
        by (auto simp: peek_def next_char_def get_char_def skip_char_def Let_def split: list.splits)
      finally show ?thesis .
    qed
    ultimately show ?thesis using reads_trans [OF 12] by blast
  next
    case False
    then have "L' = next_char (next_char L)"
      using assms(2) two [OF dot(1)] by (auto simp: scan_dots_def Let_def)
    then show ?thesis using 12 by blast
  qed
qed

definition reads_some :: "LexerState \<Rightarrow> int \<times> LexerState \<Rightarrow> bool" where
  "reads_some L r \<longleftrightarrow> (\<exists>p. p \<noteq> [] \<and> reads L p (snd r))"

lemma reads_someI: "reads L p L' \<Longrightarrow> p \<noteq> [] \<Longrightarrow> reads_some L (t, L')"
  by (auto simp: reads_some_def)

lemma on_char_reads:
  assumes "reads L0 p L" "p \<noteq> []" "ch c \<noteq> 10" "reads_some L0 r"
  shows "reads_some L0 (on_char c tok L r)"
  using assms(4) reads_trans [OF assms(1) reads_next [OF _ assms(3)]]
  by (auto simp: on_char_def intro: reads_someI)

lemma on_char2_reads:
  assumes "reads L0 p L" "p \<noteq> []" "ch c \<noteq> 10" "ch d \<noteq> 10" "reads_some L0 r"
  shows "reads_some L0 (on_char2 c d tok3 tok2 L r)"
proof (cases "LastChar L = ch c")
  case True
  note r2 = reads_trans [OF assms(1) reads_next [OF True assms(3)]]
  have "reads_some L0 (on_char d tok3 (next_char L) (tok2, next_char L))"
    by (rule on_char_reads [OF r2 _ assms(4) reads_someI [OF r2]]) simp_all
  then show ?thesis by (simp add: on_char2_def Let_def True)
next
  case False
  then show ?thesis using assms(5) by (simp add: on_char2_def)
qed

lemma if_SomeE:
  assumes "(if b then Some x else y) = Some r"
  obtains "x = r" | "y = Some r"
  using assms by (simp split: if_splits)

lemma scan_operator_reads:
  assumes "lex_wf L" "scan_operator L = Some r"
  shows "reads_some L r"
proof -
  have "LastChar L \<noteq> -1" "LastChar L \<noteq> 10"
    using assms(2) by (auto simp: scan_operator_chain Let_def)
  with assms(1) obtain c where c: "LastChar L = ch c" "ch c \<noteq> 10" by (auto elim!: lex_wf_cases)
  note first = reads_next [OF c]
  note on1 = on_char_reads [OF first] and on2 = on_char2_reads [OF first]
    and base = reads_someI [OF first]
  show ?thesis
    using assms(2) unfolding scan_operator_chain Let_def c(1)
    by (elim if_SomeE; (hypsubst, intro on1 on2 base; simp)?) simp
qed

text \<open>Numbers: the spelling is the text read, the clean form drops the separators.\<close>

definition strip_sep :: "string \<Rightarrow> string" where
  "strip_sep p = filter (\<lambda>c. c \<noteq> CHR ''_'') p"

lemma strip_sep_simps [simp]:
  "strip_sep [] = []" "strip_sep (p @ q) = strip_sep p @ strip_sep q"
  "strip_sep (c # p) = (if c = CHR ''_'' then strip_sep p else c # strip_sep p)"
  by (simp_all add: strip_sep_def)

definition num_reads :: "num_state \<Rightarrow> string \<Rightarrow> num_state \<Rightarrow> bool" where
  "num_reads s p s' \<longleftrightarrow> reads (fst s) p (fst s') \<and> fst (snd s') = fst (snd s) @ p \<and>
     snd (snd s') = snd (snd s) @ strip_sep p \<and> Logged (fst s') = Logged (fst s) \<and>
     NumLitRadix (fst s') = NumLitRadix (fst s)"

lemma num_reads_refl [simp]: "lex_wf (fst s) \<Longrightarrow> num_reads s [] s"
  by (simp add: num_reads_def)

lemma num_reads_trans:
  "num_reads s p s' \<Longrightarrow> num_reads s' q s'' \<Longrightarrow> num_reads s (p @ q) s''"
  unfolding num_reads_def by (auto intro: reads_trans)

lemma num_reads_wf: "num_reads s p s' \<Longrightarrow> lex_wf (fst s')"
  by (auto simp: num_reads_def reads_wf)

lemma digit_step_reads:
  assumes "LastChar (fst s) = ch c" "ch c \<noteq> 10"
  shows "num_reads s [c] (digit_step s)"
  using reads_next [OF assms] assms
    ch_eq_iff [of c "CHR ''_''"]
  by (cases s) (auto simp: num_reads_def digit_step_def)

lemma take_both_reads:
  assumes "LastChar (fst s) = ch c" "ch c \<noteq> 10" "c \<noteq> CHR ''_''"
  shows "num_reads s [c] (take_both s)"
  using reads_next [OF assms(1,2)] assms ch_eq_iff [of c "CHR ''_''"]
  by (cases s) (auto simp: num_reads_def take_both_def)

definition digit_or_sep :: "digit_class \<Rightarrow> char \<Rightarrow> bool" where
  "digit_or_sep cls c \<longleftrightarrow> is_digit_of cls (ch c) \<or> c = CHR ''_''"

lemma is_digit_of_not_NL: "is_digit_of cls c \<Longrightarrow> c \<noteq> 10"
  by (cases cls) (auto simp: char_class_defs)

lemma digit_loop_reads:
  "lex_wf (fst s) \<Longrightarrow> \<exists>p. num_reads s p (digit_loop cls s) \<and> (\<forall>c \<in> set p. digit_or_sep cls c)"
proof (induction cls s rule: digit_loop.induct)
  case (1 cls s)
  show ?case
  proof (cases "is_digit_of cls (LastChar (fst s)) \<or> LastChar (fst s) = ch CHR ''_''")
    case True
    with 1(2) obtain c where c: "LastChar (fst s) = ch c" by (auto elim!: lex_wf_cases)
    have nl: "ch c \<noteq> 10" using True c is_digit_of_not_NL by auto
    have d: "digit_or_sep cls c" using True c ch_eq_iff [of c "CHR ''_''"] unfolding digit_or_sep_def by auto
    have r1: "num_reads s [c] (digit_step s)" using c nl by (rule digit_step_reads)
    obtain q where q: "num_reads (digit_step s) q (digit_loop cls (digit_step s))"
        "\<forall>c \<in> set q. digit_or_sep cls c"
      using 1(1) [OF True num_reads_wf [OF r1]] by blast
    have "digit_loop cls s = digit_loop cls (digit_step s)"
      using True by (subst digit_loop.simps) simp
    with num_reads_trans [OF r1 q(1)] q(2) d show ?thesis by (intro exI [of _ "c # q"]) simp
  next
    case False
    then have "digit_loop cls s = s" by (subst digit_loop.simps) simp
    with 1(2) show ?thesis by (intro exI [of _ "[]"]) simp
  qed
qed

text \<open>A digit run: either it reads a well-formed run, or it raises after having read it.\<close>

definition digit_run :: "digit_class \<Rightarrow> string \<Rightarrow> bool" where
  "digit_run cls p \<longleftrightarrow> (\<forall>c \<in> set p. digit_or_sep cls c) \<and>
     (p \<noteq> [] \<longrightarrow> hd p \<noteq> CHR ''_'' \<and> last p \<noteq> CHR ''_'')"

lemma ScanDigitRun_cases:
  assumes "lex_wf (fst s)"
  obtains (ok) p s' where "ScanDigitRun loc cls s = Inr (length (strip_sep p), s')"
      "num_reads s p s'" "digit_run cls p"
  | (err) p s' b where
      "ScanDigitRun loc cls s = Inl (MisplacedSeparatorError loc (fst (snd s')) b, fst s')"
      "num_reads s p s'" "p \<noteq> []"
proof -
  obtain L Sp Cl where s: "s = (L, Sp, Cl)" by (cases s)
  obtain p where p: "num_reads s p (digit_loop cls s)" "\<forall>c \<in> set p. digit_or_sep cls c"
    using digit_loop_reads [OF assms] by blast
  obtain L' where L': "digit_loop cls s = (L', Sp @ p, Cl @ strip_sep p)"
    using p(1) s by (cases "digit_loop cls s") (auto simp: num_reads_def)
  show thesis
  proof (cases "p \<noteq> [] \<and> (hd p = CHR ''_'' \<or> last p = CHR ''_'')")
    case True
    then have "\<exists>b. ScanDigitRun loc cls s = Inl (MisplacedSeparatorError loc (Sp @ p) b, L')"
      using L' s by (auto simp: ScanDigitRun_def nth_append hd_conv_nth)
    with p(1) L' True err show thesis by fastforce
  next
    case False
    then have "ScanDigitRun loc cls s = Inr (length (strip_sep p), digit_loop cls s)"
      using L' s by (auto simp: ScanDigitRun_def nth_append hd_conv_nth)
    with p False ok show thesis by (auto simp: digit_run_def)
  qed
qed

lemma RejectStrayPoint_cases:
  "RejectStrayPoint loc r f s = Inr s \<or>
   (\<exists>k. RejectStrayPoint loc r f s = Inl (MalformedNumberError loc (fst (snd s)) k, fst s))"
  by (cases s) (auto simp: RejectStrayPoint_def)

definition out_state :: "'e \<times> LexerState + 'a \<times> LexerState \<Rightarrow> LexerState" where
  "out_state r = (case r of Inl e \<Rightarrow> snd e | Inr a \<Rightarrow> snd a)"

lemma out_state_simps [simp]: "out_state (Inl (e, L)) = L" "out_state (Inr (a, L)) = L"
  by (simp_all add: out_state_def)

text \<open>
  The shape of an accepted number: its spelling is the text read and its clean form the same text
  without prefix and separators. A radix literal is a prefix and a non-empty digit run; a decimal
  one is a digit run, an optional fraction and an optional exponent.
\<close>

definition number_text :: "int \<Rightarrow> string \<Rightarrow> string \<Rightarrow> int \<Rightarrow> bool" where
  "number_text t p clean radix \<longleftrightarrow>
     (\<exists>c q. t = TOK_INT_LITERAL \<and> p = CHR ''0'' # c # q \<and> clean = strip_sep q \<and> clean \<noteq> [] \<and>
        c \<in> set ''xXbBoO'' \<and> radix = fst (radix_of_prefix c) \<and> digit_run (snd (radix_of_prefix c)) q) \<or>
     (\<exists>i f e. p = i @ f @ e \<and> clean = strip_sep p \<and> radix = 10 \<and> digit_run Dec i \<and>
        (f = [] \<or> (\<exists>d. f = CHR ''.'' # d \<and> digit_run Dec d \<and> d \<noteq> [])) \<and>
        (e = [] \<or> (\<exists>m g d. e = m # g @ d \<and> m \<in> set ''eE'' \<and> (g = [] \<or> g = ''+'' \<or> g = ''-'') \<and>
           digit_run Dec d \<and> d \<noteq> [])) \<and>
        t = (if f = [] \<and> e = [] then TOK_INT_LITERAL else TOK_NUMBER))"

lemma take_prefix_reads:
  assumes "LastChar L = ch c" "ch c \<noteq> 10"
  shows "take_prefix (L, Sp, Cl) = (next_char L, Sp @ [c], Cl)" "reads L [c] (next_char L)"
  using reads_next [OF assms] assms(1) by (simp_all add: take_prefix_def)

lemma next_char_LastChar: "LastChar (next_char L) = peek L"
  by (simp add: next_char_def get_char_def peek_def Let_def split: list.split)

lemma finish_number_simps [simp]:
  "finish_number t (L, Sp, Cl) = Inr (t, L\<lparr>NumLitSpelling := Sp, NumLitClean := Cl\<rparr>)"
  by (simp add: finish_number_def)

lemma scan_radix_reads:
  assumes "is_radix_prefix L"
  shows "\<exists>p. p \<noteq> [] \<and> reads L p (out_state (scan_radix loc (L, [], []))) \<and>
    Logged (out_state (scan_radix loc (L, [], []))) = Logged L \<and>
    (\<forall>t L'. scan_radix loc (L, [], []) = Inr (t, L') \<longrightarrow>
       NumLitSpelling L' = p \<and> number_text t p (NumLitClean L') (NumLitRadix L'))"
proof -
  have zero: "LastChar L = ch CHR ''0''" using assms by (simp add: is_radix_prefix_def)
  obtain c where c: "peek L = ch c" "c \<in> set ''xXbBoO''"
    using assms unfolding is_radix_prefix_def by (auto simp del: of_char_Char)
  have nl: "ch c \<noteq> 10" using c(2) by auto
  define L1 where "L1 = next_char L"
  define L2 where "L2 = next_char L1"
  have 1: "reads L [CHR ''0''] L1" unfolding L1_def by (rule reads_next [OF zero]) simp
  have L1c: "LastChar L1 = ch c" unfolding L1_def next_char_LastChar by (rule c(1))
  have 2: "reads L1 [c] L2" unfolding L2_def by (rule reads_next [OF L1c nl])
  define cls where "cls = snd (radix_of_prefix c)"
  define s3 where "s3 = (L2\<lparr>NumLitRadix := fst (radix_of_prefix c)\<rparr>, [CHR ''0'', c], [] :: string)"
  have s3: "take_prefix (take_prefix (L, [], [])) = (L2, [CHR ''0'', c], [])"
    unfolding L2_def L1_def take_prefix_reads(1) [OF zero, simplified]
    by (simp add: take_prefix_def L1c [unfolded L1_def])
  have eq: "scan_radix loc (L, [], []) =
      bindS (ScanDigitRun loc cls s3) (\<lambda>(digits, L, Spelling, Clean).
          if isalnum (LastChar L)
          then Inl (InvalidRadixDigitError loc (to_char (LastChar L)) (NumLitRadix L) Spelling, L)
          else if digits = 0 then Inl (MalformedRadixPrefixError loc Spelling, L)
          else bindS (RejectStrayPoint loc True False (L, Spelling, Clean))
                 (finish_number TOK_INT_LITERAL))"
    unfolding scan_radix_def s3 Let_def cls_def s3_def
    using zero L1c by (simp add: take_prefix_def L1_def split: prod.split)
  have wf: "lex_wf (fst s3)" using reads_wf [OF 2] by (simp add: s3_def)
  have pre: "reads L (CHR ''0'' # c # q) L'" if "num_reads s3 q (L', Sp, Cl)" for q L' Sp Cl
  proof -
    have "reads L2 q L'" using that by (simp add: num_reads_def s3_def)
    then show ?thesis using reads_trans [OF reads_trans [OF 1 2]] by fastforce
  qed
  have logged: "Logged L' = Logged L" if "num_reads s3 q (L', Sp, Cl)" for q L' Sp Cl
    using that by (simp add: num_reads_def s3_def L2_def L1_def)
  show ?thesis
    using wf
  proof (cases rule: ScanDigitRun_cases [of s3 loc cls])
    case (err p s' b)
    then show ?thesis
      using pre logged by (cases s') (auto simp: eq intro!: exI [of _ "CHR ''0'' # c # p"])
  next
    case (ok p s')
    obtain L' where s': "s' = (L', [CHR ''0'', c] @ p, strip_sep p)"
      using ok(2) by (cases s') (auto simp: num_reads_def s3_def)
    note r = pre [OF ok(2) [unfolded s']] and l = logged [OF ok(2) [unfolded s']]
    have radix: "NumLitRadix L' = fst (radix_of_prefix c)"
      using ok(2) by (simp add: num_reads_def s3_def s')
    have run: "digit_run (snd (radix_of_prefix c)) p" using ok(3) by (simp add: cls_def)
    from RejectStrayPoint_cases [of loc True False s'] show ?thesis
      using r l radix run c(2)
      by (intro exI [of _ "CHR ''0'' # c # p"]) (auto simp: eq ok(1) s' number_text_def)
  qed
qed

end
