(* ===== verification/LexNumber.thy ===== *)
theory LexNumber
  imports LexFacts
begin

text \<open>
  Numeric literals: what \<open>scan_number\<close> reads is a number of the documented shape, its spelling is
  the text itself, and a literal that breaks the shape is raised at the literal's own location.
\<close>

lemma digit_run_Nil [simp]: "digit_run cls []"
  by (simp add: digit_run_def)

lemma digit_run_strip: "digit_run cls p \<Longrightarrow> strip_sep p \<noteq> [] \<longleftrightarrow> p \<noteq> []"
  by (cases p) (auto simp: digit_run_def)

lemma LastChar_of_class:
  assumes "lex_wf L" "LastChar L = n" "n \<noteq> -1"
  obtains c where "LastChar L = ch c" "ch c = n"
  using assms by (auto elim!: lex_wf_cases)

lemma char_eqI: "ch c = ch d \<Longrightarrow> c = d"
  by (simp only: ch_eq_iff)

lemma scan_fraction_reads:
  assumes "lex_wf (fst s)"
  obtains (err) e p s' where "scan_fraction loc s = Inl (e, fst s')" "num_reads s p s'" "p \<noteq> []"
  | (none) "scan_fraction loc s = Inr (False, s)"
  | (frac) d s' where "scan_fraction loc s = Inr (True, s')" "num_reads s (CHR ''.'' # d) s'"
      "digit_run Dec d"
proof (cases "LastChar (fst s) = ch CHR ''.'' \<and> peek (fst s) \<noteq> ch CHR ''.'' \<and> isdigit (peek (fst s))")
  case False
  with none show thesis by (auto simp: scan_fraction_def)
next
  case True
  have 1: "num_reads s ''.'' (take_both s)" by (rule take_both_reads) (use True in simp_all)
  show thesis
    using num_reads_wf [OF 1]
  proof (cases rule: ScanDigitRun_cases [of "take_both s" loc Dec])
    case (ok p s')
    with True num_reads_trans [OF 1 ok(2)] frac [of s' p] show thesis
      by (simp add: scan_fraction_def)
  next
    case (err p s' b)
    note r = num_reads_trans [OF 1 err(2)]
    have "scan_fraction loc s = Inl (MisplacedSeparatorError loc (fst (snd s')) b, fst s')"
      using True err(1) by (simp add: scan_fraction_def)
    from that(1) [OF this r] show thesis by simp
  qed
qed

text \<open>The fraction has a digit: it was seen before the point was taken.\<close>

lemma digit_loop_progress:
  assumes "lex_wf (fst s)" "isdigit (LastChar (fst s))" "num_reads s p (digit_loop Dec s)"
  shows "p \<noteq> []"
proof
  assume "p = []"
  obtain c where c: "LastChar (fst s) = ch c" using assms(1,2) by (auto elim!: lex_wf_cases)
  have nl: "ch c \<noteq> 10" using assms(2) c by (auto simp: char_class_defs)
  have 1: "num_reads s [c] (digit_step s)" using c nl by (rule digit_step_reads)
  obtain q where "num_reads (digit_step s) q (digit_loop Dec (digit_step s))"
    using digit_loop_reads [OF num_reads_wf [OF 1]] by blast
  moreover have "digit_loop Dec s = digit_loop Dec (digit_step s)"
    using assms(2) by (subst digit_loop.simps) simp
  ultimately have "fst (snd (digit_loop Dec s)) = fst (snd s) @ c # q"
    using 1 by (simp add: num_reads_def)
  with assms(3) \<open>p = []\<close> show False by (simp add: num_reads_def)
qed

lemma ScanDigitRun_nonempty:
  assumes "lex_wf (fst s)" "isdigit (LastChar (fst s))" "ScanDigitRun loc Dec s = Inr (k, s')"
    "num_reads s p s'"
  shows "p \<noteq> []"
proof -
  have "s' = digit_loop Dec s"
    using assms(3) by (auto simp: ScanDigitRun_def split: prod.splits if_splits)
  with digit_loop_progress [OF assms(1,2)] assms(4) show ?thesis by blast
qed

lemma scan_fraction_digit:
  assumes "scan_fraction loc s = Inr (True, s')" "num_reads s (CHR ''.'' # d) s'"
  shows "d \<noteq> []"
proof -
  have pt: "LastChar (fst s) = ch CHR ''.''" "isdigit (peek (fst s))"
    using assms(1) by (auto simp: scan_fraction_def split: if_splits)
  have 1: "num_reads s ''.'' (take_both s)" by (rule take_both_reads) (use pt in simp_all)
  obtain k where k: "ScanDigitRun loc Dec (take_both s) = Inr (k, s')"
    using assms(1) by (auto simp: scan_fraction_def bindS_def split: if_splits sum.splits)
  have fst1: "fst (take_both s) = next_char (fst s)" by (cases s) (simp add: take_both_def)
  have dig: "isdigit (LastChar (fst (take_both s)))" using pt(2) by (simp add: fst1 next_char_LastChar)
  obtain q where q: "num_reads (take_both s) q s'"
    using k by (cases rule: ScanDigitRun_cases [OF num_reads_wf [OF 1], of loc Dec]) auto
  have "q \<noteq> []" by (rule ScanDigitRun_nonempty [OF num_reads_wf [OF 1] dig k q])
  moreover have "d = q"
    using num_reads_trans [OF 1 q] assms(2) by (simp add: num_reads_def)
  ultimately show ?thesis by simp
qed

lemma scan_exponent_reads:
  assumes "lex_wf (fst s)"
  obtains (err) e p s' where "scan_exponent loc f s = Inl (e, fst s')" "num_reads s p s'" "p \<noteq> []"
  | (none) "scan_exponent loc f s = Inr (f, s)"
  | (exp) m g d s' where "scan_exponent loc f s = Inr (True, s')" "num_reads s (m # g @ d) s'"
      "m \<in> set ''eE''" "g = [] \<or> g = ''+'' \<or> g = ''-''" "digit_run Dec d" "d \<noteq> []"
proof (cases "is_exponent_mark (LastChar (fst s))")
  case False
  with none show thesis by (auto simp: scan_exponent_def)
next
  case mark: True
  with assms obtain m where m: "LastChar (fst s) = ch m" by (auto simp: is_exponent_mark_def elim!: lex_wf_cases)
  have m2: "m \<in> set ''eE''" using mark unfolding is_exponent_mark_def m ch_eq_iff by auto
  have 1: "num_reads s [m] (take_both s)" using m m2 by (intro take_both_reads) auto
  define s1 where "s1 = take_both s"
  define s2 where "s2 = (if is_sign (LastChar (fst s1)) then take_both s1 else s1)"
  obtain g where g: "num_reads s1 g s2" "g = [] \<or> g = ''+'' \<or> g = ''-''"
  proof (cases "is_sign (LastChar (fst s1))")
    case True
    then obtain c where c: "LastChar (fst s1) = ch c" "c = CHR ''+'' \<or> c = CHR ''-''"
      unfolding is_sign_def by blast
    then have "num_reads s1 [c] (take_both s1)" by (intro take_both_reads) auto
    with True c(2) that show thesis by (auto simp: s2_def)
  next
    case False
    with that [of "[]"] num_reads_wf [OF 1] show thesis by (auto simp: s2_def s1_def)
  qed
  note 12 = num_reads_trans [OF 1 [folded s1_def] g(1)]
  have eq: "scan_exponent loc f s =
      bindS (ScanDigitRun loc Dec s2) (\<lambda>(digits, L, Spelling, Clean).
             if digits = 0 then Inl (MalformedExponentError loc Spelling, L)
             else Inr (True, L, Spelling, Clean))"
    using mark unfolding scan_exponent_def s2_def s1_def by (simp add: Let_def)
  show thesis
    using num_reads_wf [OF 12]
  proof (cases rule: ScanDigitRun_cases [of s2 loc Dec])
    case (err p s' b)
    have "scan_exponent loc f s = Inl (MisplacedSeparatorError loc (fst (snd s')) b, fst s')"
      using err(1) by (simp add: eq)
    from that(1) [OF this num_reads_trans [OF 12 err(2)]] show thesis by simp
  next
    case (ok p s')
    note r = num_reads_trans [OF 12 ok(2)]
    show thesis
    proof (cases "strip_sep p = []")
      case True
      then have "scan_exponent loc f s = Inl (MalformedExponentError loc (fst (snd s')), fst s')"
        using ok(1) by (cases s') (simp add: eq)
      from that(1) [OF this r] show thesis by simp
    next
      case False
      then have "scan_exponent loc f s = Inr (True, s')" "p \<noteq> []"
        using ok(1) by (cases s'; auto simp: eq)+
      with that(3) [of s' m g p] r m2 g(2) ok(3) show thesis by simp
    qed
  qed
qed

text \<open>At the start of a number the first digit run, or the fraction after it, is not empty.\<close>

lemma at_number_start:
  assumes "at_number L" "lex_wf L" "num_reads (L\<lparr>NumLitRadix := 10\<rparr>, [], []) i s1"
    "ScanDigitRun loc Dec (L\<lparr>NumLitRadix := 10\<rparr>, [], []) = Inr (k, s1)"
    "scan_fraction loc s1 = Inr (False, s1)"
  shows "i \<noteq> []"
proof (cases "isdigit (LastChar L)")
  case True
  then show ?thesis using ScanDigitRun_nonempty [OF _ _ assms(4,3)] assms(2) by simp
next
  case False
  then have pt: "LastChar L = ch CHR ''.''" "isdigit (peek L)" using assms(1) by (auto simp: at_number_def)
  have loop: "digit_loop Dec (L\<lparr>NumLitRadix := 10\<rparr>, [], []) = (L\<lparr>NumLitRadix := 10\<rparr>, [], [])"
    using pt by (subst digit_loop.simps) (simp add: isdigit_def)
  have "s1 = (L\<lparr>NumLitRadix := 10\<rparr>, [], [])"
    using assms(4) loop by (simp add: ScanDigitRun_def split: prod.splits if_splits)
  then have "LastChar (fst s1) = ch CHR ''.''" "isdigit (peek (fst s1))" "peek (fst s1) \<noteq> ch CHR ''.''"
    using pt by (auto simp: peek_def isdigit_def)
  then have "scan_fraction loc s1 \<noteq> Inr (False, s1)"
    by (auto simp: scan_fraction_def bindS_def split: sum.split)
  with assms(5) show ?thesis by simp
qed

definition scans_number :: "LexerState \<Rightarrow> string \<Rightarrow> (int \<times> LexerState) scanned \<Rightarrow> bool" where
  "scans_number L p r \<longleftrightarrow> reads L p (out_state r) \<and> Logged (out_state r) = Logged L \<and>
     (\<forall>t L'. r = Inr (t, L') \<longrightarrow>
        NumLitSpelling L' = p \<and> number_text t p (NumLitClean L') (NumLitRadix L'))"

lemma scans_number_Inl: "num_reads (L\<lparr>NumLitRadix := 10\<rparr>, [], []) p s \<Longrightarrow> scans_number L p (Inl (e, fst s))"
  by (simp add: scans_number_def num_reads_def)

lemma scans_number_Inr:
  assumes "num_reads (L\<lparr>NumLitRadix := 10\<rparr>, [], []) p s" "number_text t p (strip_sep p) 10"
  shows "scans_number L p (finish_number t s)"
  using assms by (cases s) (simp add: scans_number_def num_reads_def)

lemma scan_number_reads:
  assumes "lex_wf L" "at_number L"
  shows "\<exists>p. p \<noteq> [] \<and> scans_number L p (scan_number L)"
proof (cases "is_radix_prefix L")
  case True
  then show ?thesis
    using scan_radix_reads [OF True, of "CurLoc L"]
    unfolding scan_number_def Let_def scans_number_def by auto
next
  case dec: False
  define s0 where "s0 = (L\<lparr>NumLitRadix := 10\<rparr>, [] :: string, [] :: string)"
  define loc where "loc = CurLoc L"
  have eq: "scan_number L =
      bindS (ScanDigitRun loc Dec s0) (\<lambda>(_, s1).
       bindS (scan_fraction loc s1) (\<lambda>(IsFloat1, s2).
       bindS (scan_exponent loc IsFloat1 s2) (\<lambda>(IsFloat, s3).
       bindS (RejectStrayPoint loc False IsFloat s3)
         (finish_number (if IsFloat then TOK_NUMBER else TOK_INT_LITERAL)))))"
    using dec unfolding scan_number_def s0_def loc_def by (simp add: Let_def)
  have wf0: "lex_wf (fst s0)" using assms(1) by (simp add: s0_def)
  have fail: ?thesis if "scan_number L = Inl (e, fst s)" "num_reads s0 p s" "p \<noteq> []" for e p s
    using that scans_number_Inl [of L p s e] by (auto simp: s0_def)
  have finish: ?thesis
    if scan: "scan_number L = bindS (RejectStrayPoint loc False F s3)
         (finish_number (if F then TOK_NUMBER else TOK_INT_LITERAL))"
      and p: "num_reads s0 p s3" "p \<noteq> []"
      and num: "number_text (if F then TOK_NUMBER else TOK_INT_LITERAL) p (strip_sep p) 10" for F s3 p
    using RejectStrayPoint_cases [of loc False F s3]
  proof (elim disjE exE)
    assume "RejectStrayPoint loc False F s3 = Inr s3"
    then show ?thesis
      using scan scans_number_Inr [OF p(1) [unfolded s0_def] num] p(2) by auto
  next
    fix k assume "RejectStrayPoint loc False F s3 = Inl (MalformedNumberError loc (fst (snd s3)) k, fst s3)"
    then show ?thesis using fail [OF _ p] scan by simp
  qed
  show ?thesis
    using wf0
  proof (cases rule: ScanDigitRun_cases [of s0 loc Dec])
    case (err p s' b)
    then show ?thesis using fail eq by simp
  next
    case i: (ok i s1)
    show ?thesis
      using num_reads_wf [OF i(2)]
    proof (cases rule: scan_fraction_reads [of s1 loc])
      case (err e p s')
      then show ?thesis using fail [of e s' "i @ p"] num_reads_trans [OF i(2)] i(1) eq by simp
    next
      case none
      have "i \<noteq> []"
        using at_number_start [OF assms(2,1) i(2) [unfolded s0_def] i(1) [unfolded s0_def] none] .
      show ?thesis
        using num_reads_wf [OF i(2)]
      proof (cases rule: scan_exponent_reads [of s1 loc False])
        case (err e p s')
        then show ?thesis using fail [of e s' "i @ p"] num_reads_trans [OF i(2)] i(1) none eq by simp
      next
        case none': none
        have "number_text TOK_INT_LITERAL i (strip_sep i) 10"
          unfolding number_text_def using i(3)
          by (intro disjI2 exI [of _ i] exI [of _ "[]"]) simp
        then show ?thesis using finish [of False s1 i] i none none' eq \<open>i \<noteq> []\<close> by simp
      next
        case (exp m g d s')
        have "number_text TOK_NUMBER (i @ m # g @ d) (strip_sep (i @ m # g @ d)) 10"
          unfolding number_text_def using i(3) exp(3-6)
          by (intro disjI2 exI [of _ i] exI [of _ "[]"] exI [of _ "m # g @ d"]) (simp, blast)
        then show ?thesis
          using finish [of True s' "i @ m # g @ d"] num_reads_trans [OF i(2) exp(2)] i(1) none exp(1) eq
          by simp
      qed
    next
      case (frac f s2)
      have "f \<noteq> []" using frac(1,2) by (rule scan_fraction_digit)
      note r2 = num_reads_trans [OF i(2) frac(2)]
      show ?thesis
        using num_reads_wf [OF r2]
      proof (cases rule: scan_exponent_reads [of s2 loc True])
        case (err e p s')
        then show ?thesis using fail [of e s' "(i @ CHR ''.'' # f) @ p"] num_reads_trans [OF r2] i(1) frac(1) eq
          by simp
      next
        case none
        have "number_text TOK_NUMBER (i @ CHR ''.'' # f) (strip_sep (i @ CHR ''.'' # f)) 10"
          unfolding number_text_def using i(3) frac(3) \<open>f \<noteq> []\<close>
          by (intro disjI2 exI [of _ i] exI [of _ "CHR ''.'' # f"] exI [of _ "[]"]) simp
        then show ?thesis
          using finish [of True s2 "i @ CHR ''.'' # f"] r2 i(1) frac(1) none eq by simp
      next
        case (exp m g d s')
        have "number_text TOK_NUMBER ((i @ CHR ''.'' # f) @ m # g @ d)
            (strip_sep ((i @ CHR ''.'' # f) @ m # g @ d)) 10"
          unfolding number_text_def using i(3) frac(3) \<open>f \<noteq> []\<close> exp(3-6)
          by (intro disjI2 exI [of _ i] exI [of _ "CHR ''.'' # f"] exI [of _ "m # g @ d"]) (simp, blast)
        then show ?thesis
          using finish [of True s' "(i @ CHR ''.'' # f) @ m # g @ d"] num_reads_trans [OF r2 exp(2)]
            i(1) frac(1) exp(1) eq by simp
      qed
    qed
  qed
qed

end
