(* ===== verification/Lexer.thy ===== *)
theory Lexer
  imports LexNumber
begin

text \<open>
  The lexer as a whole: \<open>gettokScan\<close> and \<open>gettok\<close> split the text into white space, comments and
  token texts, each token starting where its location says; driving \<open>gettok\<close> to the end of any
  input terminates; \<open>peekToken\<close> and \<open>takeLookaheadToken\<close> hand out the tokens \<open>gettok\<close> would have
  produced; operators are split by maximal munch; string literals and numbers keep their value.
\<close>

section \<open>Positions and trivia\<close>

fun pos_after :: "int \<times> int \<Rightarrow> string \<Rightarrow> int \<times> int" where
  "pos_after p [] = p"
| "pos_after (l, c) (x # xs) = pos_after (if x = NL then (l + 1, 1) else (l, c + 1)) xs"

lemma pos_after_append [simp]: "pos_after p (xs @ ys) = pos_after (pos_after p xs) ys"
  by (induction p xs rule: pos_after.induct) simp_all

lemma pos_after_line: "NL \<notin> set p \<Longrightarrow> pos_after (l, c) p = (l, c + int (length p))"
  by (induction p arbitrary: c) auto

inductive trivia :: "string \<Rightarrow> bool" where
  trivia_Nil: "trivia []"
| trivia_space: "isspace (ch c) \<Longrightarrow> trivia s \<Longrightarrow> trivia (c # s)"
| trivia_comment: "NL \<notin> set s \<Longrightarrow> CR \<notin> set s \<Longrightarrow> trivia t \<Longrightarrow> trivia (''//'' @ s @ t)"

lemma trivia_append: "trivia s \<Longrightarrow> trivia t \<Longrightarrow> trivia (s @ t)"
proof (induction rule: trivia.induct)
  case (trivia_comment s u)
  then show ?case using trivia.trivia_comment [of s "u @ t"] by simp
qed (auto intro: trivia.intros)

text \<open>\<open>L'\<close> comes from \<open>L\<close> by consuming \<open>p\<close>, the position following the text.\<close>

definition moved :: "LexerState \<Rightarrow> string \<Rightarrow> LexerState \<Rightarrow> bool" where
  "moved L p L' \<longleftrightarrow> lex_wf L' \<and> input L = p @ input L' \<and> LexFilename L' = LexFilename L \<and>
     HasSource L' = HasSource L \<and> Lookahead L' = Lookahead L \<and>
     (input L' \<noteq> [] \<longrightarrow> (CurLine L', CurCol L') = pos_after (CurLine L, CurCol L) p)"

lemma moved_refl [simp]: "lex_wf L \<Longrightarrow> moved L [] L"
  by (simp add: moved_def)

lemma moved_trans:
  assumes "moved L p L'" "moved L' q L''"
  shows "moved L (p @ q) L''"
  using assms unfolding moved_def by (cases "input L' = []") auto

lemma moved_wf: "moved L p L' \<Longrightarrow> lex_wf L'"
  by (simp add: moved_def)

lemma reads_moved:
  assumes "reads L p L'" "\<not> escaped_newline p"
  shows "moved L p L'"
  using assms pos_after_line [of p] unfolding reads_def moved_def by auto

lemma moved_snapshot [simp]: "moved L p (snapshot M) = moved L p M"
  by (simp add: moved_def snapshot_def)

lemma skip_space_moved:
  "lex_wf L \<Longrightarrow> \<exists>p. moved L p (skip_space L) \<and> trivia p \<and> \<not> isspace (LastChar (skip_space L)) \<and>
     (isspace (LastChar L) \<longrightarrow> p \<noteq> [])"
proof (induction L rule: skip_space.induct)
  case (1 L)
  show ?case
  proof (cases "isspace (LastChar L)")
    case True
    with 1(2) obtain c where c: "LastChar L = ch c" "input L = c # Src L" by (auto elim!: lex_wf_cases)
    define M where "M = skip_space_step L"
    have wf: "lex_wf M" by (simp add: M_def skip_space_step_def Let_def)
    have "moved L [c] M"
    proof -
      have "input M = Src L"
        using c 1(2) by (simp add: M_def skip_space_step_def Let_def get_char_input)
      moreover have "LastChar M \<noteq> -1 \<Longrightarrow> (CurLine M, CurCol M) = pos_after (CurLine L, CurCol L) [c]"
        using c ch_eq_iff [of c NL] by (auto simp: M_def skip_space_step_def Let_def split: if_splits)
      moreover have "LexFilename M = LexFilename L" "HasSource M = HasSource L" "Lookahead M = Lookahead L"
        by (simp_all add: M_def skip_space_step_def Let_def)
      ultimately show ?thesis using wf c(2) input_Nil [OF wf] by (simp add: moved_def)
    qed
    moreover obtain p where p: "moved M p (skip_space M)" "trivia p" "\<not> isspace (LastChar (skip_space M))"
      using 1(1) [OF True] wf unfolding M_def by blast
    moreover have "skip_space L = skip_space M"
      using True by (subst skip_space.simps) (simp add: M_def)
    ultimately show ?thesis
      using moved_trans [of L "[c]" M p "skip_space M"] trivia_space [of c p] True c(1)
      by (intro exI [of _ "c # p"]) simp
  next
    case False
    then have "skip_space L = L" by (subst skip_space.simps) simp
    with False 1(2) show ?thesis by (intro exI [of _ "[]"]) (simp add: trivia_Nil)
  qed
qed

lemma comment_loop_reads:
  "lex_wf L \<Longrightarrow> LastChar L \<noteq> -1 \<Longrightarrow> LastChar L \<noteq> ch NL \<Longrightarrow> LastChar L \<noteq> ch CR \<Longrightarrow>
   \<exists>p. reads L p (comment_loop L) \<and> NL \<notin> set p \<and> CR \<notin> set p \<and> p \<noteq> [] \<and>
     (LastChar (next_char L) \<noteq> -1 \<and> LastChar (next_char L) \<noteq> ch NL \<and> LastChar (next_char L) \<noteq> ch CR
        \<longrightarrow> 2 \<le> length p)"
proof (induction L rule: comment_loop.induct)
  case (1 L)
  obtain c where c: "LastChar L = ch c" using 1(2,3) by (auto elim!: lex_wf_cases)
  have nl: "ch c \<noteq> 10" and cr: "c \<noteq> NL" "c \<noteq> CR" using 1(4,5) c by auto
  have r: "reads L [c] (next_char L)" using c nl by (rule reads_next)
  show ?case
  proof (cases "LastChar (next_char L) \<noteq> EOF \<and> LastChar (next_char L) \<noteq> ch NL \<and>
      LastChar (next_char L) \<noteq> ch CR")
    case True
    obtain p where p: "reads (next_char L) p (comment_loop (next_char L))" "NL \<notin> set p" "CR \<notin> set p" "p \<noteq> []"
      using 1(1) [OF refl True] True by auto
    have "comment_loop L = comment_loop (next_char L)"
      using True by (subst comment_loop.simps) (simp add: Let_def)
    moreover have "2 \<le> length ([c] @ p)" using p(4) by (cases p) auto
    ultimately show ?thesis
      using reads_trans [OF r p(1)] p cr by (intro exI [of _ "[c] @ p"]) auto
  next
    case False
    then have "comment_loop L = next_char L"
      by (subst comment_loop.simps) (auto simp: Let_def)
    with r cr False show ?thesis by (intro exI [of _ "[c]"]) auto
  qed
qed

text \<open>A line comment is trivia.\<close>

lemma comment_trivia:
  assumes "lex_wf L" "at_comment L"
  shows "\<exists>p. reads L p (comment_loop L) \<and> trivia p \<and> p \<noteq> []"
proof -
  have c: "LastChar L = ch CHR ''/''" "peek L = ch CHR ''/''" using assms(2) by (simp_all add: at_comment_def)
  obtain cs where src: "Src L = CHR ''/'' # cs"
  proof (cases "Src L")
    case (Cons a cs)
    with c(2) have "ch a = ch CHR ''/''" by (simp only: peek_def list.case)
    with that Cons show thesis by (simp only: ch_eq_iff)
  qed (use c(2) in \<open>simp add: peek_def\<close>)
  have "LastChar (next_char L) = ch CHR ''/''" using c(2) by (simp add: next_char_LastChar)
  then obtain p where p: "reads L p (comment_loop L)" "NL \<notin> set p" "CR \<notin> set p" "p \<noteq> []" "2 \<le> length p"
    using comment_loop_reads [OF assms(1)] c(1) by auto
  have "p @ input (comment_loop L) = CHR ''/'' # CHR ''/'' # cs"
  proof -
    have "input L = CHR ''/'' # Src L"
      using assms(1)
    proof (cases rule: lex_wf_cases)
      case (char d)
      with c(1) have "ch d = ch CHR ''/''" by (simp only:)
      with char show ?thesis by (simp only: ch_eq_iff)
    qed (use c(1) in simp)
    with p(1) src show ?thesis by (simp add: reads_def)
  qed
  with p(5) obtain s where "p = ''//'' @ s"
    by (cases p; cases "tl p") auto
  with p trivia_comment [of s "[]"] show ?thesis by (auto intro: trivia_Nil)
qed

section \<open>One token\<close>

lemma scan_token_reads:
  assumes "lex_wf L" "\<not> isspace (LastChar L)"
  shows "\<exists>p. reads L p (out_state (scan_token L)) \<and>
    (p = [] \<longrightarrow> LastChar L = -1 \<and> scan_token L = Inr (TOK_EOF, L))"
proof -
  consider (ident) "ident_start (LastChar L)" | (str) "LastChar L = ch DQ" | (chr) "LastChar L = ch SQ"
    | (dots) "at_dots L" "\<not> ident_start (LastChar L)" "LastChar L \<noteq> ch DQ" "LastChar L \<noteq> ch SQ"
    | (num) "at_number L" "\<not> at_dots L" "\<not> ident_start (LastChar L)" "LastChar L \<noteq> ch DQ" "LastChar L \<noteq> ch SQ"
    | (rest) "\<not> at_number L" "\<not> at_dots L" "\<not> ident_start (LastChar L)" "LastChar L \<noteq> ch DQ" "LastChar L \<noteq> ch SQ"
    by blast
  then show ?thesis
  proof cases
    case ident
    obtain t L' where s: "scan_identifier L = (t, L')" by (cases "scan_identifier L")
    from scan_identifier_reads [OF assms(1) ident s] show ?thesis
      using s ident by (auto simp: scan_token_def)
  next
    case str
    obtain t L' where s: "scan_string L = (t, L')" by (cases "scan_string L")
    from scan_string_reads [OF str s] show ?thesis
      using s str by (auto simp: scan_token_def ident_start_def isalpha_def)
  next
    case chr
    obtain t L' where s: "scan_char L = (t, L')" by (cases "scan_char L")
    from scan_char_reads [OF chr s] show ?thesis
      using s chr by (auto simp: scan_token_def ident_start_def isalpha_def)
  next
    case dots
    obtain t L' where s: "scan_dots L = (t, L')" by (cases "scan_dots L")
    from scan_dots_reads [OF dots(1) s] show ?thesis using s dots by (auto simp: scan_token_def)
  next
    case num
    from scan_number_reads [OF assms(1) num(1)] show ?thesis
      using num by (auto simp: scan_token_def scans_number_def)
  next
    case rest
    show ?thesis
    proof (cases "scan_operator L")
      case (Some r)
      with scan_operator_reads [OF assms(1) Some] rest show ?thesis
        by (cases r) (auto simp: scan_token_def reads_some_def)
    next
      case None
      show ?thesis
      proof (cases "LastChar L = ch CHR ''/'' \<and> peek L = ch CHR ''=''")
        case True
        have 1: "reads L [CHR ''/''] (next_char L)" by (rule reads_next) (use True in simp_all)
        have "reads (next_char L) [CHR ''=''] (next_char (next_char L))"
          by (rule reads_next) (use True in \<open>simp_all add: next_char_LastChar\<close>)
        with reads_trans [OF 1 this] True None rest show ?thesis by (auto simp: scan_token_def)
      next
        case False
        have tok: "scan_token L = Inr (scan_single L)"
          using None rest False by (auto simp: scan_token_def)
        show ?thesis
          using assms(1)
        proof (cases rule: lex_wf_cases)
          case EOF
          then show ?thesis using assms(1) by (auto simp: tok scan_single_def intro!: exI [of _ "[]"])
        next
          case (char c)
          then have "ch c \<noteq> 10" using assms(2) by (auto simp: isspace_def)
          from reads_next [OF char(1) this] char(1) show ?thesis
            by (auto simp: tok scan_single_def intro!: exI [of _ "[c]"])
        qed
      qed
    qed
  qed
qed

text \<open>
  A scanning call: white space and comments \<open>ws\<close>, then the text \<open>p\<close> of the token, whose location is
  that of its first character. Only the end of the input yields an empty text.
\<close>

definition tokenizes :: "LexerState \<Rightarrow> (int \<times> LexerState) scanned \<Rightarrow> bool" where
  "tokenizes L r \<longleftrightarrow> (\<exists>ws p M.
     moved L ws M \<and> trivia ws \<and> (isspace (LastChar L) \<longrightarrow> ws \<noteq> []) \<and> reads M p (out_state r) \<and>
     (p = [] \<longrightarrow> r = Inr (TOK_EOF, out_state r) \<and> input M = []) \<and>
     (p \<noteq> [] \<longrightarrow> CurLoc M = loc3 (CurLine M) (CurCol M) (LexFilename M)))"

lemma gettokScan_tokenizes:
  "lex_wf L \<Longrightarrow> HasSource L \<Longrightarrow> tokenizes L (gettokScan L)"
proof (induction L rule: gettokScan.induct)
  case (1 L)
  define M where "M = snapshot (skip_space L)"
  obtain ws where ws: "moved L ws M" "trivia ws" "\<not> isspace (LastChar M)" "isspace (LastChar L) \<longrightarrow> ws \<noteq> []"
    using skip_space_moved [OF 1(2)] by (auto simp: M_def snapshot_def moved_def)
  have loc: "CurLoc M = loc3 (CurLine M) (CurCol M) (LexFilename M)" by (simp add: M_def snapshot_def)
  note wf = moved_wf [OF ws(1)]
  have src: "HasSource M" using ws(1) 1(3) by (simp add: moved_def)
  show ?case
  proof (cases "at_comment M")
    case True
    define N where "N = comment_loop M"
    obtain p where p: "reads M p N" "trivia p" "p \<noteq> []"
      using comment_trivia [OF wf True] by (auto simp: N_def)
    have no_nl: "\<not> escaped_newline p" if "NL \<notin> set p"
      using that by (auto simp: escaped_newline_def contains_iff)
    have nl: "NL \<notin> set p"
    proof -
      have "LastChar M \<noteq> -1" "LastChar M \<noteq> ch NL" "LastChar M \<noteq> ch CR"
        using True by (simp_all add: at_comment_def)
      from comment_loop_reads [OF wf this] obtain q where q: "reads M q N" "NL \<notin> set q"
        by (auto simp: N_def)
      with p(1) have "q = p" by (simp add: reads_def)
      with q(2) show ?thesis by simp
    qed
    have mv: "moved L (ws @ p) N" using moved_trans [OF ws(1) reads_moved [OF p(1) no_nl [OF nl]]] .
    have tr: "trivia (ws @ p)" using ws(2) p(2) by (rule trivia_append)
    show ?thesis
    proof (cases "LastChar N = -1")
      case eof: True
      have "gettokScan L = Inr (TOK_EOF, N)"
        using 1(3) True eof by (subst gettokScan.simps) (simp add: Let_def M_def N_def)
      moreover have "input N = []" using eof by (simp add: input_def)
      moreover have "lex_wf N" using mv by (rule moved_wf)
      ultimately show ?thesis
        unfolding tokenizes_def using mv tr p(3)
        by (intro exI [of _ "ws @ p"] exI [of _ "[]"] exI [of _ N]) simp
    next
      case False
      then have eq: "gettokScan L = gettokScan N"
        using 1(3) True by (subst gettokScan.simps) (simp add: Let_def M_def N_def)
      have "tokenizes N (gettokScan N)"
        using 1(1) [of M N] 1(3) True False moved_wf [OF mv] mv
        by (simp add: M_def N_def moved_def)
      then obtain ws' q K where *: "moved N ws' K" "trivia ws'" "reads K q (out_state (gettokScan N))"
          "q = [] \<longrightarrow> gettokScan N = Inr (TOK_EOF, out_state (gettokScan N)) \<and> input K = []"
          "q \<noteq> [] \<longrightarrow> CurLoc K = loc3 (CurLine K) (CurCol K) (LexFilename K)"
        unfolding tokenizes_def by blast
      show ?thesis
        unfolding tokenizes_def eq using moved_trans [OF mv *(1)] trivia_append [OF tr *(2)] *(3-5) p(3)
        by (intro exI [of _ "(ws @ p) @ ws'"] exI [of _ q] exI [of _ K]) simp
    qed
  next
    case False
    then have eq: "gettokScan L = scan_token M"
      using 1(3) by (subst gettokScan.simps) (simp add: Let_def M_def)
    obtain p where p: "reads M p (out_state (scan_token M))"
        "p = [] \<longrightarrow> LastChar M = -1 \<and> scan_token M = Inr (TOK_EOF, M)"
      using scan_token_reads [OF wf ws(3)] by blast
    show ?thesis
      unfolding tokenizes_def eq using ws(1,2,4) p loc
      by (intro exI [of _ ws] exI [of _ p] exI [of _ M]) (auto simp: input_def)
  qed
qed

text \<open>\<open>gettok\<close> does the same, and stamps the end of the token.\<close>

definition tok_text :: "LexerState \<Rightarrow> string \<Rightarrow> string \<Rightarrow> LexerState \<Rightarrow> bool" where
  "tok_text L ws p L' \<longleftrightarrow>
     input L = ws @ p @ input L' \<and> trivia ws \<and> lex_wf L' \<and>
     LexFilename L' = LexFilename L \<and> HasSource L' = HasSource L \<and> Lookahead L' = Lookahead L \<and>
     (isspace (LastChar L) \<longrightarrow> ws \<noteq> []) \<and>
     (p \<noteq> [] \<longrightarrow>
        LocFilename (CurLoc L') = LexFilename L \<and>
        (Line (CurLoc L'), Col (CurLoc L')) = pos_after (CurLine L, CurCol L) ws) \<and>
     (input L' \<noteq> [] \<longrightarrow> \<not> escaped_newline p \<longrightarrow>
        (CurLine L', CurCol L') = pos_after (CurLine L, CurCol L) (ws @ p) \<and>
        EndLine (CurLoc L') = CurLine L' \<and> EndCol (CurLoc L') = CurCol L')"

lemma gettok_text:
  assumes "lex_wf L" "HasSource L"
  shows "gettok L = Inr (t, L') \<Longrightarrow> \<exists>ws p. tok_text L ws p L' \<and> (p = [] \<longrightarrow> t = TOK_EOF \<and> input L' = [])"
    and "gettok L = Inl (e, L') \<Longrightarrow> lex_wf L' \<and> (\<exists>q. q \<noteq> [] \<and> input L = q @ input L')"
proof -
  define L0 where "L0 = L\<lparr>PrevTokEndLine := EndLine (CurLoc L), PrevTokEndCol := EndCol (CurLoc L)\<rparr>"
  have L0: "lex_wf L0" "HasSource L0" using assms by (simp_all add: L0_def)
  have g: "gettok L = bindS (gettokScan L0) (\<lambda>(Tok, L1). Inr (Tok, stamp_end L1))"
    by (simp add: gettok_def L0_def)
  obtain ws p M where *: "moved L0 ws M" "trivia ws" "isspace (LastChar L0) \<longrightarrow> ws \<noteq> []"
      "reads M p (out_state (gettokScan L0))"
      "p = [] \<longrightarrow> gettokScan L0 = Inr (TOK_EOF, out_state (gettokScan L0)) \<and> input M = []"
      "p \<noteq> [] \<longrightarrow> CurLoc M = loc3 (CurLine M) (CurCol M) (LexFilename M)"
    using gettokScan_tokenizes [OF L0] unfolding tokenizes_def by blast
  show "\<exists>ws p. tok_text L ws p L' \<and> (p = [] \<longrightarrow> t = TOK_EOF \<and> input L' = [])" if gt: "gettok L = Inr (t, L')"
  proof -
    obtain L1 where L1: "gettokScan L0 = Inr (t, L1)" "L' = stamp_end L1"
      using gt by (auto simp: g bindS_def split: sum.splits)
    have M_pos: "p \<noteq> [] \<Longrightarrow> (CurLine M, CurCol M) = pos_after (CurLine L, CurCol L) ws"
      using *(1,4) by (auto simp: moved_def reads_def L0_def)
    have "tok_text L ws p L'"
      unfolding tok_text_def
    proof (intro conjI impI)
      assume "input L' \<noteq> []" "\<not> escaped_newline p"
      then have "moved L0 (ws @ p) L1"
        using moved_trans [OF *(1) reads_moved [OF *(4)]] L1(1) by simp
      then show "(CurLine L', CurCol L') = pos_after (CurLine L, CurCol L) (ws @ p)"
        using \<open>input L' \<noteq> []\<close> by (simp add: moved_def L1(2) stamp_end_def L0_def)
    qed (use * L1 M_pos in \<open>auto simp: moved_def reads_def stamp_end_def L0_def\<close>)
    moreover have "p = [] \<longrightarrow> t = TOK_EOF \<and> input L' = []"
      using * L1 by (auto simp: stamp_end_def reads_def)
    ultimately show ?thesis by blast
  qed
  show "lex_wf L' \<and> (\<exists>q. q \<noteq> [] \<and> input L = q @ input L')" if "gettok L = Inl (e, L')"
  proof -
    have "gettokScan L0 = Inl (e, L')" using that by (auto simp: g bindS_def split: sum.splits)
    with *(1,4,5) show ?thesis
      by (auto simp: moved_def reads_def L0_def intro!: exI [of _ "ws @ p"])
  qed
qed

end
