(* ===== verification/LexRun.thy ===== *)
theory LexRun
  imports Lexer
begin

text \<open>
  Driving the lexer over a whole text. The locale \<open>scanner\<close> states what a client of a scanner relies
  on: a call consumes a piece of the text, and only the end-of-input token may consume none. The
  lexer's \<open>gettok\<close> is its interpretation.
\<close>

section \<open>The scanner interface\<close>

text \<open>Calling a scanner until it returns \<open>TOK_EOF\<close> or raises, at most \<open>n\<close> times.\<close>

fun drive :: "('s \<Rightarrow> ('e \<times> 's) + (int \<times> 's)) \<Rightarrow> nat \<Rightarrow> 's \<Rightarrow>
    ((int \<times> 's) list \<times> (('e \<times> 's) + 's)) option" where
  "drive scan 0 s = None"
| "drive scan (Suc n) s =
    (case scan s of
       Inl e \<Rightarrow> Some ([], Inl e)
     | Inr (t, s') \<Rightarrow>
         if t = TOK_EOF then Some ([], Inr s')
         else map_option (\<lambda>(ts, r). ((t, s') # ts, r)) (drive scan n s'))"

locale scanner =
  fixes scan :: "'s \<Rightarrow> ('e \<times> 's) + (int \<times> 's)"
    and unread :: "'s \<Rightarrow> string"
    and valid :: "'s \<Rightarrow> bool"
  assumes scan_valid: "valid s \<Longrightarrow> scan s = Inr (t, s') \<Longrightarrow> valid s'"
    and scan_consumes: "valid s \<Longrightarrow> scan s = Inr (t, s') \<Longrightarrow>
      \<exists>w. unread s = w @ unread s' \<and> (w = [] \<longrightarrow> t = TOK_EOF)"
begin

lemma scan_progress:
  assumes "valid s" "scan s = Inr (t, s')" "t \<noteq> TOK_EOF"
  shows "length (unread s') < length (unread s)"
  using scan_consumes [OF assms(1,2)] assms(3) by auto

lemma drive_total: "valid s \<Longrightarrow> length (unread s) < n \<Longrightarrow> \<exists>r. drive scan n s = Some r"
proof (induction n arbitrary: s)
  case 0
  then show ?case by simp
next
  case (Suc n)
  show ?case
  proof (cases "scan s")
    case (Inl e)
    then show ?thesis by simp
  next
    case (Inr a)
    obtain t s' where a: "a = (t, s')" by (cases a)
    show ?thesis
    proof (cases "t = TOK_EOF")
      case True
      then show ?thesis using Inr a by simp
    next
      case False
      with Suc scan_progress [OF Suc.prems(1) Inr [unfolded a] False] scan_valid [OF Suc.prems(1) Inr [unfolded a]]
      obtain r where "drive scan n s' = Some r" by fastforce
      then show ?thesis using Inr a False by (cases r) simp
    qed
  qed
qed

text \<open>A property kept by every call holds of every state the drive passes through.\<close>

lemma drive_invariant:
  assumes inv: "\<And>s t s'. valid s \<Longrightarrow> P s \<Longrightarrow> scan s = Inr (t, s') \<Longrightarrow> t \<noteq> TOK_EOF \<Longrightarrow> P s' \<and> Q t s'"
  shows "valid s \<Longrightarrow> P s \<Longrightarrow> drive scan n s = Some (ts, r) \<Longrightarrow> (t, s') \<in> set ts \<Longrightarrow> Q t s'"
proof (induction n arbitrary: s ts)
  case 0
  then show ?case by simp
next
  case (Suc n)
  from Suc.prems(3,4) obtain u s1 ts' where step: "scan s = Inr (u, s1)" "u \<noteq> TOK_EOF"
      "drive scan n s1 = Some (ts', r)" "ts = (u, s1) # ts'"
    by (auto split: sum.splits if_splits)
  from inv [OF Suc.prems(1,2) step(1,2)] have "P s1" "Q u s1" by auto
  with Suc.IH [OF scan_valid [OF Suc.prems(1) step(1)] _ step(3)] Suc.prems(4) step(4) show ?case by auto
qed

end

lemma gettok_progress:
  assumes "lex_wf L \<and> HasSource L" "gettok L = Inr (t, L')"
  shows "lex_wf L' \<and> HasSource L'"
    and "\<exists>w. input L = w @ input L' \<and> (w = [] \<longrightarrow> t = TOK_EOF)"
proof -
  obtain ws p where *: "tok_text L ws p L'" "p = [] \<longrightarrow> t = TOK_EOF \<and> input L' = []"
    using gettok_text(1) [OF _ _ assms(2)] assms(1) by blast
  from *(1) assms(1) show "lex_wf L' \<and> HasSource L'" by (simp add: tok_text_def)
  from * show "\<exists>w. input L = w @ input L' \<and> (w = [] \<longrightarrow> t = TOK_EOF)"
    by (intro exI [of _ "ws @ p"]) (auto simp: tok_text_def)
qed

interpretation lexer: scanner gettok input "\<lambda>L. lex_wf L \<and> HasSource L"
  by unfold_locales (use gettok_progress in blast)+

section \<open>The end of the input\<close>

lemma Keywords_not_EOF: "map_of Keywords w = Some t \<Longrightarrow> t \<noteq> -1"
proof -
  assume "map_of Keywords w = Some t"
  then have "t \<in> snd ` set Keywords" by (force dest: map_of_SomeD)
  then show "t \<noteq> -1" by (auto simp: Keywords_def)
qed

lemma on_char_not_EOF: "tok \<noteq> -1 \<Longrightarrow> fst r \<noteq> -1 \<Longrightarrow> fst (on_char c tok L r) \<noteq> -1"
  by (simp add: on_char_def)

lemma on_char2_not_EOF:
  "tok3 \<noteq> -1 \<Longrightarrow> tok2 \<noteq> -1 \<Longrightarrow> fst r \<noteq> -1 \<Longrightarrow> fst (on_char2 c d tok3 tok2 L r) \<noteq> -1"
  by (simp add: on_char2_def Let_def on_char_not_EOF)

lemma scan_operator_not_EOF: "scan_operator L = Some r \<Longrightarrow> fst r \<noteq> -1"
  unfolding scan_operator_chain Let_def
  by (elim if_SomeE; (hypsubst, intro on_char_not_EOF on_char2_not_EOF; simp)?) simp

lemma scan_token_EOF:
  assumes "lex_wf L" "scan_token L = Inr (-1, L')"
  shows "LastChar L' = -1"
proof -
  have sgl: "LastChar L' = -1" if "scan_single L = (-1, L')"
    using that assms(1) by (auto simp: scan_single_def split: if_splits)
  have num: "scan_number L \<noteq> Inr (-1, L')" if "at_number L"
    using scan_number_reads [OF assms(1) that] by (auto simp: scans_number_def number_text_def)
  have ident: "fst (scan_identifier L) \<noteq> -1"
    by (simp add: scan_identifier_def Let_def Keywords_not_EOF split: option.split)
  have str: "LastChar L' = -1" if "scan_string L = (-1, L')"
    using that by (auto simp: scan_string_def Let_def unterminated_string_def split: if_splits)
  have chr: "LastChar L' = -1" if "scan_char L = (-1, L')"
  proof (cases "LastChar (next_char L) = -1")
    case True
    then have "scan_char L = (TOK_EOF,
        log_error (CurLoc L) ErrCode_UnterminatedLiteral UnterminatedCharMsg (next_char L))"
      by (simp add: scan_char_def Let_def)
    with that True show ?thesis by auto
  next
    case False
    then have "fst (scan_char L) \<noteq> -1" by (simp add: scan_char_def Let_def)
    with that show ?thesis by simp
  qed
  have dots: "scan_dots L \<noteq> (-1, L')" by (auto simp: scan_dots_def Let_def)
  show ?thesis
  proof (cases "ident_start (LastChar L) \<or> LastChar L = ch DQ \<or> LastChar L = ch SQ \<or> at_dots L")
    case True
    then show ?thesis using assms(2) ident str chr dots by (auto simp: scan_token_def split: if_split_asm)
  next
    case other: False
    show ?thesis
    proof (cases "at_number L")
      case True
      then show ?thesis using assms(2) num other by (simp add: scan_token_def)
    next
      case False
      with other assms(2) sgl scan_operator_not_EOF [of L] show ?thesis
        by (cases "scan_operator L") (simp_all add: scan_token_def split: if_splits)
    qed
  qed
qed

lemma gettokScan_EOF:
  "lex_wf L \<Longrightarrow> HasSource L \<Longrightarrow> gettokScan L = Inr (-1, L') \<Longrightarrow> LastChar L' = -1"
proof (induction L rule: gettokScan.induct)
  case (1 L)
  define M where "M = snapshot (skip_space L)"
  have M: "lex_wf M" "HasSource M"
    using skip_space_moved [OF 1(2)] 1(3) by (auto simp: M_def snapshot_def moved_def)
  show ?case
  proof (cases "at_comment M")
    case True
    define N where "N = comment_loop M"
    have N: "lex_wf N" "HasSource N"
      using comment_trivia [OF M(1) True] M(2) by (auto simp: N_def reads_def)
    show ?thesis
    proof (cases "LastChar N = -1")
      case eof: True
      then show ?thesis
        using 1(3,4) True by (subst (asm) gettokScan.simps) (simp add: Let_def M_def N_def)
    next
      case False
      then have "gettokScan L = gettokScan N"
        using 1(3) True by (subst gettokScan.simps) (simp add: Let_def M_def N_def)
      then show ?thesis using 1(1) [of M N] 1(3,4) True False N by (simp add: M_def N_def)
    qed
  next
    case False
    then have "gettokScan L = scan_token M"
      using 1(3) by (subst gettokScan.simps) (simp add: Let_def M_def)
    then show ?thesis using scan_token_EOF [OF M(1)] 1(4) by simp
  qed
qed

lemma gettok_EOF:
  assumes "lex_wf L" "HasSource L" "gettok L = Inr (t, L')" "t = TOK_EOF"
  shows "input L' = []"
proof -
  define L0 where "L0 = L\<lparr>PrevTokEndLine := EndLine (CurLoc L), PrevTokEndCol := EndCol (CurLoc L)\<rparr>"
  obtain L1 where "gettokScan L0 = Inr (-1, L1)" "L' = stamp_end L1"
    using assms(3,4) by (auto simp: gettok_def L0_def bindS_def split: sum.splits)
  moreover have "lex_wf L0" "HasSource L0" using assms(1,2) by (simp_all add: L0_def)
  ultimately show ?thesis using gettokScan_EOF [of L0 L1] by (simp add: stamp_end_def input_def)
qed

section \<open>Tokenizing a text\<close>

text \<open>All tokens of a text, each with the state the lexer is in when the token is current.\<close>

definition tokenize ::
    "string \<Rightarrow> string \<Rightarrow> ((int \<times> LexerState) list \<times> ((LexError \<times> LexerState) + LexerState)) option" where
  "tokenize content name = drive gettok (length content + 2) (new_lexer content name)"

lemma new_lexer_HasSource [simp]: "HasSource (new_lexer s f)" "LexFilename (new_lexer s f) = f"
  "CurLine (new_lexer s f) = 1" "CurCol (new_lexer s f) = 0" "LastChar (new_lexer s f) = 32"
  by (simp_all add: new_lexer_def)

text \<open>The tokens' texts, with the white space and comments before each, are the text itself.\<close>

fun splits_text :: "string \<Rightarrow> (int \<times> LexerState) list \<Rightarrow> string \<Rightarrow> bool" where
  "splits_text s [] rest \<longleftrightarrow> s = rest"
| "splits_text s ((t, L) # ts) rest \<longleftrightarrow>
    (\<exists>ws p. s = ws @ p @ input L \<and> trivia ws \<and> p \<noteq> [] \<and> splits_text (input L) ts rest)"

lemma drive_splits:
  assumes "lex_wf L" "HasSource L" "drive gettok n L = Some (ts, r)"
  shows "\<exists>rest. splits_text (input L) ts rest \<and>
    (case r of Inl (e, L') \<Rightarrow> \<exists>q. rest = q @ input L' | Inr L' \<Rightarrow> input L' = [])"
  using assms
proof (induction n arbitrary: L ts)
  case 0
  then show ?case by simp
next
  case (Suc n)
  show ?case
  proof (cases "gettok L")
    case (Inl a)
    obtain e L' where a: "a = (e, L')" by (cases a)
    with Inl gettok_text(2) [OF Suc.prems(1,2)] Suc.prems(3) show ?thesis
      by (intro exI [of _ "input L"]) auto
  next
    case (Inr a)
    obtain t L' where a: "a = (t, L')" by (cases a)
    note step = Inr [unfolded a]
    obtain ws p where p: "tok_text L ws p L'" "p = [] \<longrightarrow> t = TOK_EOF \<and> input L' = []"
      using gettok_text(1) [OF Suc.prems(1,2) step] by blast
    show ?thesis
    proof (cases "t = TOK_EOF")
      case True
      with Suc.prems(3) step have "ts = []" "r = Inr L'" by auto
      moreover have "input L' = []" using gettok_EOF [OF Suc.prems(1,2) step True] .
      ultimately show ?thesis by simp
    next
      case False
      with Suc.prems(3) step obtain ts' where ts': "ts = (t, L') # ts'" "drive gettok n L' = Some (ts', r)"
        by auto
      from p(1) Suc.prems(2) have "lex_wf L'" "HasSource L'" by (simp_all add: tok_text_def)
      from Suc.IH [OF this ts'(2)] p False ts'(1) show ?thesis
        by (auto simp: tok_text_def)
    qed
  qed
qed

lemma tokenize_total: "tokenize content name \<noteq> None"
  using lexer.drive_total [of "new_lexer content name" "length content + 2"] by (auto simp: tokenize_def)


text \<open>Where a token is: its start, and its end unless it is the last thing in the text.\<close>

definition token_located :: "string \<Rightarrow> string \<Rightarrow> LexerState \<Rightarrow> bool" where
  "token_located content name L \<longleftrightarrow>
    (\<exists>before w. content = before @ w @ input L \<and> w \<noteq> [] \<and> LocFilename (CurLoc L) = name \<and>
       (Line (CurLoc L), Col (CurLoc L)) = pos_after (1, 1) before \<and>
       (input L \<noteq> [] \<longrightarrow> (EndLine (CurLoc L), EndCol (CurLoc L)) = pos_after (1, 1) (before @ w)))"

text \<open>The state between two tokens of a text: what has been read accounts for the position.\<close>

definition in_text :: "string \<Rightarrow> string \<Rightarrow> LexerState \<Rightarrow> bool" where
  "in_text content name L \<longleftrightarrow> LexFilename L = name \<and>
     (\<exists>p. CHR '' '' # content = p @ input L \<and> (p = [] \<longrightarrow> LastChar L = 32) \<and>
        (input L \<noteq> [] \<longrightarrow> (CurLine L, CurCol L) = pos_after (1, 0) p))"

lemma gettok_in_text:
  assumes quiet: "\<not> escaped_newline (CHR '' '' # content)"
    and L: "lex_wf L \<and> HasSource L" "in_text content name L"
    and step: "gettok L = Inr (t, L')" "t \<noteq> TOK_EOF"
  shows "in_text content name L' \<and> token_located content name L'"
proof -
  obtain p where p: "CHR '' '' # content = p @ input L" "p = [] \<longrightarrow> LastChar L = 32"
      "input L \<noteq> [] \<longrightarrow> (CurLine L, CurCol L) = pos_after (1, 0) p" "LexFilename L = name"
    using L(2) by (auto simp: in_text_def)
  obtain ws w where w: "tok_text L ws w L'" "w \<noteq> []"
    using gettok_text(1) [OF _ _ step(1)] L(1) step(2) by blast
  have ne: "input L \<noteq> []" using w by (auto simp: tok_text_def)
  have split: "CHR '' '' # content = (p @ ws) @ w @ input L'" using p(1) w(1) by (simp add: tok_text_def)
  have "\<not> escaped_newline w"
    using quiet unfolding split by (meson escaped_newline_append)
  note pos = p(3) [rule_format, OF ne]
  have fin: "input L' \<noteq> [] \<Longrightarrow> (CurLine L', CurCol L') = pos_after (1, 0) (p @ ws @ w) \<and>
      EndLine (CurLoc L') = CurLine L' \<and> EndCol (CurLoc L') = CurCol L'"
    using w(1) \<open>\<not> escaped_newline w\<close> pos by (simp add: tok_text_def)
  have start: "(Line (CurLoc L'), Col (CurLoc L')) = pos_after (1, 0) (p @ ws)"
      "LocFilename (CurLoc L') = name"
    using w pos p(4) by (simp_all add: tok_text_def)
  have "p @ ws \<noteq> []" using p(2) w(1) by (auto simp: tok_text_def isspace_def)
  with split obtain before where before: "p @ ws = CHR '' '' # before" "content = before @ w @ input L'"
    by (cases "p @ ws") auto
  have shift: "pos_after (1, 0) (CHR '' '' # s) = pos_after (1, 1) s" for s by simp
  have "token_located content name L'"
    unfolding token_located_def
    using before w(2) start fin by (intro exI [of _ before] exI [of _ w]) (simp add: append_assoc [symmetric] del: append_assoc)
  moreover have "in_text content name L'"
    unfolding in_text_def
    using split fin p(4) w by (intro conjI exI [of _ "p @ ws @ w"]) (auto simp: tok_text_def)
  ultimately show ?thesis by simp
qed



text \<open>
  The exception is real: after a backslash at the end of a line inside a string literal the
  newline is consumed as an escape without counting the line, so every later token is reported one
  line too high. Here the word \<open>z\<close> starts line 3 and its location says line 2.
\<close>

theorem escaped_newline_shifts_lines:
  "let content = [DQ, BSL, NL, DQ, NL, CHR ''z''] in
     pos_after (1, 1) (butlast content) = (3, 1) \<and>
     map_option (\<lambda>(ts, _). map (\<lambda>(t, L). (t, Line (CurLoc L), Col (CurLoc L))) ts)
       (tokenize content []) = Some [(TOK_STRING_LITERAL, 1, 1), (TOK_IDENTIFIER, 2, 1)]"
  by code_simp

end
