(* ===== verification/LexLiterals.thy ===== *)
theory LexLiterals
  imports LexRun
begin

text \<open>
  The values of tokens: operators by maximal munch, identifiers and keywords, string literals and
  integer literals read back what they denote.
\<close>

section \<open>Operators\<close>

text \<open>The operators of the language with their token codes; a single character is its own code.\<close>

definition operators :: "(string \<times> int) list" where
  "operators =
    [(''='', TOK_ASSIGN), (''=='', TOK_EQ), ('':'', TOK_COLON), (''::'', TOK_SCOPE),
     (''!'', ch CHR ''!''), (''!='', TOK_NEQ), (''>'', ch CHR ''>''), (''>='', TOK_GEQ),
     (''>>'', TOK_RSHIFT), (''>>='', TOK_RSHIFT_ASSIGN), (''<'', ch CHR ''<''), (''<='', TOK_LEQ),
     (''<<'', TOK_LSHIFT), (''<<='', TOK_LSHIFT_ASSIGN), (''&'', ch CHR ''&''), (''&&'', TOK_AND),
     (''&='', TOK_AND_ASSIGN), (''|'', ch CHR ''|''), (''||'', TOK_OR), (''|='', TOK_OR_ASSIGN),
     (''^'', ch CHR ''^''), (''^='', TOK_XOR_ASSIGN), (''+'', ch CHR ''+''), (''++'', TOK_PLUS_PLUS),
     (''+='', TOK_PLUS_ASSIGN), (''-'', ch CHR ''-''), (''--'', TOK_MINUS_MINUS),
     (''-='', TOK_MINUS_ASSIGN), (''->'', TOK_ARROW), (''*'', ch CHR ''*''), (''*='', TOK_MUL_ASSIGN),
     (''**'', TOK_POWER), (''**='', TOK_POWER_ASSIGN), (''%'', ch CHR ''%''), (''%='', TOK_MOD_ASSIGN),
     (''/'', ch CHR ''/''), (''/='', TOK_DIV_ASSIGN)]"

definition op_at :: "string \<Rightarrow> string \<times> int \<Rightarrow> bool" where
  "op_at s w \<longleftrightarrow> w \<in> set operators \<and> take (length (fst w)) s = fst w"

text \<open>The longest operator a text begins with.\<close>

definition longest_op :: "string \<Rightarrow> string \<times> int \<Rightarrow> bool" where
  "longest_op s w \<longleftrightarrow> op_at s w \<and> (\<forall>v. op_at s v \<longrightarrow> length (fst v) \<le> length (fst w))"

text \<open>Only the operators with the text's first character matter.\<close>

definition ops_from :: "char \<Rightarrow> (string \<times> int) list" where
  "ops_from c = filter (\<lambda>v. hd (fst v) = c) operators"

lemma ops_from_simps:
  "ops_from CHR ''='' = [(''='', TOK_ASSIGN), (''=='', TOK_EQ)]"
  "ops_from CHR '':'' = [('':'', TOK_COLON), (''::'', TOK_SCOPE)]"
  "ops_from CHR ''!'' = [(''!'', ch CHR ''!''), (''!='', TOK_NEQ)]"
  "ops_from CHR ''>'' = [(''>'', ch CHR ''>''), (''>='', TOK_GEQ), (''>>'', TOK_RSHIFT), (''>>='', TOK_RSHIFT_ASSIGN)]"
  "ops_from CHR ''<'' = [(''<'', ch CHR ''<''), (''<='', TOK_LEQ), (''<<'', TOK_LSHIFT), (''<<='', TOK_LSHIFT_ASSIGN)]"
  "ops_from CHR ''&'' = [(''&'', ch CHR ''&''), (''&&'', TOK_AND), (''&='', TOK_AND_ASSIGN)]"
  "ops_from CHR ''|'' = [(''|'', ch CHR ''|''), (''||'', TOK_OR), (''|='', TOK_OR_ASSIGN)]"
  "ops_from CHR ''^'' = [(''^'', ch CHR ''^''), (''^='', TOK_XOR_ASSIGN)]"
  "ops_from CHR ''+'' = [(''+'', ch CHR ''+''), (''++'', TOK_PLUS_PLUS), (''+='', TOK_PLUS_ASSIGN)]"
  "ops_from CHR ''-'' = [(''-'', ch CHR ''-''), (''--'', TOK_MINUS_MINUS), (''-='', TOK_MINUS_ASSIGN), (''->'', TOK_ARROW)]"
  "ops_from CHR ''*'' = [(''*'', ch CHR ''*''), (''*='', TOK_MUL_ASSIGN), (''**'', TOK_POWER), (''**='', TOK_POWER_ASSIGN)]"
  "ops_from CHR ''%'' = [(''%'', ch CHR ''%''), (''%='', TOK_MOD_ASSIGN)]"
  "ops_from CHR ''/'' = [(''/'', ch CHR ''/''), (''/='', TOK_DIV_ASSIGN)]"
  by (simp_all add: ops_from_def operators_def)

lemma operators_nonempty: "v \<in> set operators \<Longrightarrow> fst v \<noteq> []"
  by (auto simp: operators_def)

lemma op_at_ops_from: "op_at (c # s) v \<longleftrightarrow> v \<in> set (ops_from c) \<and> take (length (fst v)) (c # s) = fst v"
  using operators_nonempty [of v] by (cases "fst v") (auto simp: op_at_def ops_from_def)

lemma longest_op_code: "longest_op (c # s) w \<longleftrightarrow>
    w \<in> set (ops_from c) \<and> take (length (fst w)) (c # s) = fst w \<and>
    (\<forall>v \<in> set (ops_from c). take (length (fst v)) (c # s) = fst v \<longrightarrow> length (fst v) \<le> length (fst w))"
  by (auto simp: longest_op_def op_at_ops_from)

definition munches :: "LexerState \<Rightarrow> int \<times> LexerState \<Rightarrow> bool" where
  "munches L r \<longleftrightarrow> (\<exists>k. longest_op (input L) (take k (input L), fst r) \<and> snd r = (next_char ^^ k) L)"

lemma munches_if [simp]:
  "munches L (if b then x else y) \<longleftrightarrow> (if b then munches L x else munches L y)"
  by simp

lemma munches_one: "longest_op (input L) (take 1 (input L), t) \<Longrightarrow> munches L (t, next_char L)"
  unfolding munches_def by (intro exI [of _ 1]) simp

lemma munches_two: "longest_op (input L) (take 2 (input L), t) \<Longrightarrow> munches L (t, next_char (next_char L))"
  unfolding munches_def by (intro exI [of _ 2]) (simp add: numeral_2_eq_2)

lemma munches_three:
  "longest_op (input L) (take 3 (input L), t) \<Longrightarrow> munches L (t, next_char (next_char (next_char L)))"
  unfolding munches_def by (intro exI [of _ 3]) (simp add: numeral_3_eq_3)

lemma chars_ahead:
  assumes "LastChar L = ch c"
  obtains "input L = [c]" "LastChar (next_char L) = -1"
  | d where "input L = [c, d]" "LastChar (next_char L) = ch d" "LastChar (next_char (next_char L)) = -1"
  | d e es where "input L = c # d # e # es" "LastChar (next_char L) = ch d"
      "LastChar (next_char (next_char L)) = ch e"
proof (cases "Src L")
  case Nil
  then show thesis using that(1) assms by (auto simp: next_char_def get_char_def input_def)
next
  case (Cons d cs)
  then show thesis
    using that(2,3) assms by (cases cs) (auto simp: next_char_def get_char_def input_def Let_def)
qed

lemma if_Some_casesE:
  assumes "(if b then Some x else y) = Some r"
  obtains "b" "r = x" | "\<not> b" "y = Some r"
  using assms by (simp split: if_splits)

lemma scan_operator_munches:
  assumes "lex_wf L" "scan_operator L = Some r"
  shows "munches L r"
proof -
  have "LastChar L \<noteq> -1" using assms(2) by (auto simp: scan_operator_chain Let_def)
  with assms(1) obtain c where c: "LastChar L = ch c" by (auto elim!: lex_wf_cases)
  note defs = on_char_def on_char2_def Let_def
  note munch = munches_one munches_two munches_three
  note lo = longest_op_code ops_from_simps
  from c show ?thesis
  proof (cases rule: chars_ahead)
    case 1
    from assms(2) show ?thesis
      unfolding scan_operator_chain Let_def c ch_eq_iff
      by (elim if_Some_casesE; simp add: defs 1; intro munch; simp add: 1 lo)
  next
    case (2 d)
    from assms(2) show ?thesis
      unfolding scan_operator_chain Let_def c ch_eq_iff defs 2(2) 2(3)
      by (elim if_Some_casesE; simp; intro conjI impI munch; simp add: 2 lo)
  next
    case (3 d e es)
    from assms(2) show ?thesis
      unfolding scan_operator_chain Let_def c ch_eq_iff defs 3(2) 3(3)
      by (elim if_Some_casesE; simp; intro conjI impI munch; simp add: 3 lo)
  qed
qed

lemma input_funpow: "lex_wf L \<Longrightarrow> input ((next_char ^^ k) L) = drop k (input L) \<and> lex_wf ((next_char ^^ k) L)"
  by (induction k) (simp_all add: next_char_input tl_drop drop_Suc)

lemma munches_text:
  assumes "lex_wf L" "munches L (t, L')"
  shows "\<exists>w. longest_op (input L) (w, t) \<and> input L = w @ input L'"
proof -
  obtain k where k: "longest_op (input L) (take k (input L), t)" "L' = (next_char ^^ k) L"
    using assms(2) by (auto simp: munches_def)
  then show ?thesis using input_funpow [OF assms(1), of k] by (metis append_take_drop_id)
qed

lemma slash_munches:
  assumes "LastChar L = ch CHR ''/''" "peek L \<noteq> ch CHR ''/''"
  shows "\<exists>r. scan_token L = Inr r \<and> munches L r"
proof -
  have none: "scan_operator L = None" using assms(1) by (simp add: scan_operator_chain Let_def)
  note lo = longest_op_code ops_from_simps
  have tok: "scan_token L = Inr (if peek L = ch CHR ''='' then (TOK_DIV_ASSIGN, next_char (next_char L))
      else (ch CHR ''/'', next_char L))"
    using assms(1) none
    by (simp add: scan_token_def ident_start_def isalpha_def at_dots_def at_number_def isdigit_def scan_single_def)
  from assms(1) have "munches L (if peek L = ch CHR ''='' then (TOK_DIV_ASSIGN, next_char (next_char L))
      else (ch CHR ''/'', next_char L))"
  proof (cases rule: chars_ahead)
    case 1
    have p: "peek L = -1" using 1 next_char_LastChar [of L] by simp
    show ?thesis unfolding p by (simp, intro munches_one, simp add: 1 lo)
  next
    case (2 d)
    have p: "peek L = ch d" using 2 next_char_LastChar [of L] by simp
    show ?thesis
      using assms(2) unfolding p ch_eq_iff
      by (simp, intro conjI impI munches_one munches_two; simp add: 2 lo)
  next
    case (3 d e es)
    have p: "peek L = ch d" using 3 next_char_LastChar [of L] by simp
    show ?thesis
      using assms(2) unfolding p ch_eq_iff
      by (simp, intro conjI impI munches_one munches_two; simp add: 3 lo)
  qed
  with tok show ?thesis by simp
qed

lemma scan_operator_defined:
  assumes "LastChar L = ch c" "ops_from c \<noteq> []" "c \<noteq> CHR ''/''"
  shows "scan_operator L \<noteq> None"
proof -
  have "c \<in> (\<lambda>v. hd (fst v)) ` set operators"
    using assms(2) unfolding ops_from_def filter_empty_conv by auto
  then have "c \<in> set ''=:!><&|^+-*%''" using assms(3) by (auto simp: operators_def)
  with assms(1) show ?thesis by (auto simp: scan_operator_chain Let_def)
qed

text \<open>
  C28. Where an operator begins (and not a comment), \<open>gettokScan\<close> reads the longest operator that
  fits: the token returned is that operator's, and exactly its characters are consumed.
\<close>

theorem operators_maximal_munch:
  assumes "lex_wf L" "\<not> at_comment L" "op_at (input L) v"
  shows "\<exists>t L' w. scan_token L = Inr (t, L') \<and> longest_op (input L) (w, t) \<and> input L = w @ input L'"
proof -
  have "input L \<noteq> []" using assms(3) operators_nonempty [of v] by (auto simp: op_at_def)
  with assms(1) obtain c s where c: "LastChar L = ch c" "input L = c # s" by (auto elim!: lex_wf_cases)
  have ops: "ops_from c \<noteq> []" using assms(3) by (auto simp: c(2) op_at_ops_from)
  obtain r where r: "scan_token L = Inr r" "munches L r"
  proof (cases "c = CHR ''/''")
    case True
    with slash_munches [of L] c(1) assms(2) that show thesis by (auto simp: at_comment_def)
  next
    case False
    obtain r where r: "scan_operator L = Some r" using scan_operator_defined [OF c(1) ops False] by blast
    have "c \<in> (\<lambda>v. hd (fst v)) ` set operators"
      using ops unfolding ops_from_def filter_empty_conv by auto
    then have "c \<in> set ''=:!><&|^+-*%/''" by (auto simp: operators_def)
    then have "\<not> ident_start (ch c)" "ch c \<noteq> ch DQ" "ch c \<noteq> ch SQ" "ch c \<noteq> ch CHR ''.''" "\<not> isdigit (ch c)"
      by (auto simp: ident_start_def isalpha_def isdigit_def)
    then have "scan_token L = Inr r"
      unfolding scan_token_def at_dots_def at_number_def c(1) r by (simp del: ch_eq_iff)
    with scan_operator_munches [OF assms(1) r] that show thesis by blast
  qed
  obtain t L' where "r = (t, L')" by (cases r)
  with r munches_text [OF assms(1), of t L'] show ?thesis by blast
qed

lemma operators_maximal_munch_witness:
  "\<exists>t L' w. scan_token (next_char (new_lexer ''<<=x'' [])) = Inr (t, L') \<and>
     longest_op (input (next_char (new_lexer ''<<=x'' []))) (w, t) \<and>
     input (next_char (new_lexer ''<<=x'' [])) = w @ input L'"
proof (rule operators_maximal_munch [of _ "(''<<'', TOK_LSHIFT)"])
  show "\<not> at_comment (next_char (new_lexer ''<<=x'' []))" by code_simp
  show "op_at (input (next_char (new_lexer ''<<=x'' []))) (''<<'', TOK_LSHIFT)" by code_simp
qed simp

section \<open>Identifiers and keywords\<close>

definition word_shaped :: "string \<Rightarrow> bool" where
  "word_shaped w \<longleftrightarrow> w \<noteq> [] \<and> ident_start (ch (hd w)) \<and> (\<forall>c \<in> set w. ident_part (ch c))"

definition word_token :: "string \<Rightarrow> int" where
  "word_token w = (if w = ''_'' then TOK_WILDCARD
     else case map_of Keywords w of Some t \<Rightarrow> t | None \<Rightarrow> TOK_IDENTIFIER)"

lemma prefix_run_unique:
  assumes "p @ a = w @ b" "\<forall>c \<in> set p. P c" "\<forall>c \<in> set w. P c"
    and "a = [] \<or> \<not> P (hd a)" "b = [] \<or> \<not> P (hd b)"
  shows "p = w \<and> a = b"
proof -
  have run: "takeWhile P (x @ y) = x" if "\<forall>c \<in> set x. P c" "y = [] \<or> \<not> P (hd y)" for x y
    using that by (cases y) (auto simp: takeWhile_append)
  from run [OF assms(2,4)] run [OF assms(3,5)] assms(1) show ?thesis by auto
qed

text \<open>
  A word, read as far as its letters, digits and underscores go, is one token: the wildcard for
  a lone underscore, the keyword's code for a word of the keyword table, an identifier otherwise;
  \<open>IdentifierStr\<close> is the word, and nothing is logged.
\<close>

theorem words_are_classified:
  assumes "lex_wf L" "input L = w @ rest" "word_shaped w" "rest = [] \<or> \<not> ident_part (ch (hd rest))"
  shows "\<exists>L'. scan_token L = Inr (word_token w, L') \<and> IdentifierStr L' = w \<and> input L' = rest \<and>
    Logged L' = Logged L"
proof -
  obtain c s where c: "LastChar L = ch c" "input L = c # s" "c = hd w"
    using assms(2,3) LastChar_input [OF assms(1)] by (cases w) (auto simp: word_shaped_def)
  have start: "ident_start (LastChar L)" using c(1,3) assms(3) by (simp add: word_shaped_def)
  obtain t L' where s: "scan_identifier L = (t, L')" by (cases "scan_identifier L")
  obtain p where p: "reads L p L'" "IdentifierStr L' = p" "\<forall>c \<in> set p. ident_part (ch c)"
      "\<not> ident_part (LastChar L')" "Logged L' = Logged L"
    using scan_identifier_reads [OF assms(1) start s] by blast
  have "p @ input L' = w @ rest" using p(1) assms(2) by (simp add: reads_def)
  moreover have "input L' = [] \<or> \<not> ident_part (ch (hd (input L')))"
    using p(4) reads_wf [OF p(1)] by (auto elim!: lex_wf_cases)
  ultimately have eq: "p = w" "input L' = rest"
    using prefix_run_unique [of p "input L'" w rest "\<lambda>c. ident_part (ch c)"] p(3) assms(3,4)
    by (auto simp: word_shaped_def)
  have "t = word_token (IdentifierStr L')"
    using s unfolding scan_identifier_def Let_def word_token_def
    by (auto split: if_splits option.splits)
  moreover have "scan_token L = Inr (t, L')" using start s by (simp add: scan_token_def)
  ultimately show ?thesis using eq p(2,5) by auto
qed

lemma words_are_classified_witness:
  "\<exists>L'. scan_token (next_char (new_lexer ''while('' [])) = Inr (word_token ''while'', L') \<and>
     IdentifierStr L' = ''while'' \<and> input L' = ''('' \<and>
     Logged L' = Logged (next_char (new_lexer ''while('' []))"
proof (rule words_are_classified)
  show "input (next_char (new_lexer ''while('' [])) = ''while'' @ ''(''" by (simp add: next_char_input)
  show "word_shaped ''while''" by code_simp
  show "''('' = [] \<or> \<not> ident_part (ch (hd ''(''))" by code_simp
qed simp

section \<open>String and character literals\<close>

text \<open>How a character is written inside a literal delimited by \<open>q\<close>.\<close>

definition escape_char :: "char \<Rightarrow> char \<Rightarrow> string" where
  "escape_char q c = (if c = NL then [BSL, CHR ''n''] else if c = q \<or> c = BSL then [BSL, c] else [c])"

definition string_literal :: "string \<Rightarrow> string" where
  "string_literal s = DQ # concat (map (escape_char DQ) s) @ [DQ]"

definition char_literal :: "char \<Rightarrow> string" where
  "char_literal c = SQ # escape_char SQ c @ [SQ]"

lemma LastChar_Cons: "lex_wf L \<Longrightarrow> input L = c # s \<Longrightarrow> LastChar L = ch c"
  by (simp add: LastChar_input)

lemma input_next2: "lex_wf L \<Longrightarrow> input L = c # d # s \<Longrightarrow> LastChar (next_char L) = ch d"
  by (rule LastChar_Cons [of _ _ s]) (simp_all add: next_char_input)

lemma escape_of_simps [simp]:
  "escape_of (ch CHR ''n'') = Some NL" "escape_of (ch BSL) = Some BSL"
  "escape_of (ch DQ) = Some DQ" "escape_of (ch SQ) = Some SQ"
  by (simp_all add: escape_of_def)

text \<open>One written character of a string literal is read back as itself.\<close>

lemma string_char_escape:
  assumes "lex_wf L" "input L = escape_char DQ c @ s"
  shows "LastChar L \<noteq> ch DQ \<and> LastChar L \<noteq> EOF \<and> LastChar L \<noteq> ch NL"
    and "StringVal (string_char L) = StringVal L @ [c]" "Logged (string_char L) = Logged L"
    and "input (next_char (string_char L)) = s"
proof -
  consider (nl) "c = NL" | (esc) "c \<noteq> NL" "c = DQ \<or> c = BSL" | (raw) "c \<noteq> NL" "c \<noteq> DQ" "c \<noteq> BSL" by blast
  then have "(LastChar L \<noteq> ch DQ \<and> LastChar L \<noteq> EOF \<and> LastChar L \<noteq> ch NL) \<and>
      StringVal (string_char L) = StringVal L @ [c] \<and> Logged (string_char L) = Logged L \<and>
      input (next_char (string_char L)) = s"
  proof cases
    case nl
    with assms(2) have i: "input L = BSL # CHR ''n'' # s" by (simp add: escape_char_def)
    note l = LastChar_Cons [OF assms(1) i] input_next2 [OF assms(1) i]
    show ?thesis
      unfolding string_char_def Let_def l using i assms(1) nl escape_of_simps(1) by (simp add: next_char_input)
  next
    case esc
    with assms(2) have i: "input L = BSL # c # s" by (auto simp: escape_char_def)
    note l = LastChar_Cons [OF assms(1) i] input_next2 [OF assms(1) i]
    have e: "escape_of (ch c) = Some c" using esc(2) escape_of_simps(2,3) by blast
    show ?thesis
      unfolding string_char_def Let_def l e using i assms(1) by (simp add: next_char_input)
  next
    case raw
    with assms(2) have i: "input L = c # s" by (simp add: escape_char_def)
    note l = LastChar_Cons [OF assms(1) i]
    show ?thesis
      unfolding string_char_def Let_def l ch_eq_iff using i assms(1) raw by (simp add: next_char_input)
  qed
  then show "LastChar L \<noteq> ch DQ \<and> LastChar L \<noteq> EOF \<and> LastChar L \<noteq> ch NL"
      "StringVal (string_char L) = StringVal L @ [c]" "Logged (string_char L) = Logged L"
      "input (next_char (string_char L)) = s"
    by blast+
qed

lemma string_loop_escape:
  "lex_wf L \<Longrightarrow> input L = concat (map (escape_char DQ) s) @ DQ # rest \<Longrightarrow>
   StringVal (string_loop L) = StringVal L @ s \<and> Logged (string_loop L) = Logged L \<and>
   input (string_loop L) = DQ # rest \<and> lex_wf (string_loop L)"
proof (induction s arbitrary: L)
  case Nil
  then have "LastChar L = ch DQ" by (simp add: LastChar_Cons)
  then have "string_loop L = L" by (subst string_loop.simps) simp
  with Nil show ?case by simp
next
  case (Cons c s)
  let ?M = "next_char (string_char L)"
  note esc = string_char_escape [OF Cons.prems(1), of c "concat (map (escape_char DQ) s) @ DQ # rest"]
  have i: "input L = escape_char DQ c @ concat (map (escape_char DQ) s) @ DQ # rest"
    using Cons.prems(2) by simp
  have "string_loop L = string_loop ?M"
    using esc(1) [OF i] by (subst string_loop.simps) simp
  moreover have "StringVal ?M = StringVal L @ [c]" "Logged ?M = Logged L"
    using esc(2,3) [OF i] by simp_all
  ultimately show ?case using Cons.IH [of ?M] esc(4) [OF i] by simp
qed

text \<open>
  C29. A string literal reads back the string it was written for: every string, written between
  double quotes with newline, quote and backslash escaped, is scanned as one string token whose
  \<open>StringVal\<close> is that string, with nothing logged and the text after the closing quote left to read.
\<close>

theorem string_literal_roundtrip:
  assumes "lex_wf L" "input L = string_literal s @ rest"
  shows "\<exists>L'. scan_token L = Inr (TOK_STRING_LITERAL, L') \<and> StringVal L' = s \<and> input L' = rest \<and>
    Logged L' = Logged L"
proof -
  have dq: "LastChar L = ch DQ" using assms by (simp add: LastChar_input string_literal_def)
  define M where "M = next_char (L\<lparr>StringVal := []\<rparr>)"
  have M: "lex_wf M" "StringVal M = []" "Logged M = Logged L"
    by (simp_all add: M_def)
  have i: "input M = concat (map (escape_char DQ) s) @ DQ # rest"
    using assms by (simp add: M_def next_char_input string_literal_def)
  note loop = string_loop_escape [OF M(1) i]
  have "LastChar (string_loop M) = ch DQ" using loop by (simp add: LastChar_input)
  then have "scan_string L = (TOK_STRING_LITERAL, next_char (string_loop M))"
    unfolding scan_string_def Let_def M_def [symmetric] by simp
  moreover have "scan_token L = Inr (scan_string L)"
    using dq by (simp add: scan_token_def ident_start_def isalpha_def)
  ultimately show ?thesis using loop M by (simp add: next_char_input)
qed

lemma string_literal_roundtrip_witness:
  "\<exists>L'. scan_token (next_char (new_lexer (string_literal [DQ, NL] @ '';'') [])) =
      Inr (TOK_STRING_LITERAL, L') \<and>
     StringVal L' = [DQ, NL] \<and> input L' = '';'' \<and>
     Logged L' = Logged (next_char (new_lexer (string_literal [DQ, NL] @ '';'') []))"
  by (rule string_literal_roundtrip) (simp_all add: next_char_input)

lemma char_literal_scan:
  assumes "lex_wf L" "input L = char_literal c @ rest"
  shows "\<exists>L'. scan_token L = Inr (TOK_CHAR_LITERAL, L') \<and> CharVal L' = c \<and> input L' = rest \<and>
    Logged L' = Logged L"
proof -
  have i: "input L = SQ # escape_char SQ c @ SQ # rest" using assms(2) by (simp add: char_literal_def)
  have sq: "LastChar L = ch SQ" using LastChar_Cons [OF assms(1) i] .
  define M where "M = next_char L"
  have M: "lex_wf M" "input M = escape_char SQ c @ SQ # rest" "Logged M = Logged L"
    using i assms(1) by (simp_all add: M_def next_char_input)
  consider (nl) "c = NL" | (esc) "c \<noteq> NL" "c = SQ \<or> c = BSL" | (raw) "c \<noteq> NL" "c \<noteq> SQ" "c \<noteq> BSL" by blast
  then have body: "(LastChar M \<noteq> ch SQ \<and> LastChar M \<noteq> EOF \<and> LastChar M \<noteq> ch NL) \<and>
      CharVal (char_body M) = c \<and> Logged (char_body M) = Logged L \<and>
      input (next_char (char_body M)) = SQ # rest"
  proof cases
    case nl
    with M(2) have i: "input M = BSL # CHR ''n'' # SQ # rest" by (simp add: escape_char_def)
    note l = LastChar_Cons [OF M(1) i] input_next2 [OF M(1) i]
    show ?thesis
      unfolding char_body_def Let_def l using i M nl escape_of_simps(1) by (simp add: next_char_input)
  next
    case esc
    with M(2) have i: "input M = BSL # c # SQ # rest" by (auto simp: escape_char_def)
    note l = LastChar_Cons [OF M(1) i] input_next2 [OF M(1) i]
    have e: "escape_of (ch c) = Some c" using esc(2) escape_of_simps(2,4) by blast
    show ?thesis
      unfolding char_body_def Let_def l e using i M by (simp add: next_char_input)
  next
    case raw
    with M(2) have i: "input M = c # SQ # rest" by (simp add: escape_char_def)
    note l = LastChar_Cons [OF M(1) i]
    show ?thesis
      unfolding char_body_def Let_def l ch_eq_iff using i M raw by (simp add: next_char_input)
  qed
  define N where "N = next_char (char_body M)"
  have N: "lex_wf N" "input N = SQ # rest" "CharVal N = c" "Logged N = Logged L"
    using body by (simp_all add: N_def)
  have "scan_char L = (TOK_CHAR_LITERAL, next_char N)"
    using body LastChar_Cons [OF N(1,2)] unfolding scan_char_def Let_def M_def [symmetric] N_def [symmetric]
    by simp
  moreover have "scan_token L = Inr (scan_char L)"
    using sq by (simp add: scan_token_def ident_start_def isalpha_def)
  ultimately show ?thesis using N by (simp add: next_char_input)
qed

section \<open>Numbers\<close>

text \<open>
  C27. A number token is exactly a numeral of the documented shape: the text consumed is
  \<open>NumLitSpelling\<close>, \<open>NumLitClean\<close> is that text without radix prefix and separators, every digit run
  in it starts and ends with a digit of its radix, a radix literal has at least one digit, a fraction
  and an exponent have at least one digit, and the token is a float exactly if one of the two is there.
\<close>

theorem number_tokens_well_shaped:
  assumes "lex_wf L" "at_number L" "scan_token L = Inr (t, L')"
  shows "\<exists>p. p \<noteq> [] \<and> input L = p @ input L' \<and> NumLitSpelling L' = p \<and>
    number_text t p (NumLitClean L') (NumLitRadix L') \<and> Logged L' = Logged L"
proof -
  have d: "isdigit (LastChar L) \<or> LastChar L = ch CHR ''.'' \<and> isdigit (peek L)"
    using assms(2) by (simp add: at_number_def)
  then have "scan_token L = scan_number L"
    using assms(2) by (auto simp: scan_token_def ident_start_def isalpha_def isdigit_def at_dots_def)
  with scan_number_reads [OF assms(1,2)] assms(3) show ?thesis
    by (auto simp: scans_number_def reads_def)
qed

lemma number_tokens_well_shaped_witness:
  "\<exists>t L' p. scan_token (next_char (new_lexer ''0x_'' [])) \<noteq> Inr (t, L') \<and>
     (\<exists>t L'. scan_token (next_char (new_lexer ''1_0e5;'' [])) = Inr (t, L') \<and>
        NumLitSpelling L' = p \<and> number_text t p (NumLitClean L') (NumLitRadix L'))"
proof -
  let ?L = "next_char (new_lexer ''1_0e5;'' [])"
  have "\<not> isl (scan_token ?L)" by code_simp
  then obtain t L' where s: "scan_token ?L = Inr (t, L')" by (metis isl_def sum.exhaust surj_pair)
  have "at_number ?L" by code_simp
  with number_tokens_well_shaped [of ?L t L'] s obtain p where
    "NumLitSpelling L' = p" "number_text t p (NumLitClean L') (NumLitRadix L')" by auto
  moreover have "isl (scan_token (next_char (new_lexer ''0x_'' [])))" by code_simp
  ultimately show ?thesis using s by (metis isl_def Inl_Inr_False)
qed

definition ends_word :: "string \<Rightarrow> bool" where
  "ends_word rest \<longleftrightarrow> rest = [] \<or> \<not> ident_part (ch (hd rest)) \<and> hd rest \<noteq> CHR ''.''"

lemma digit_loop_stops:
  "\<not> (is_digit_of cls (LastChar (fst (digit_loop cls s))) \<or>
      LastChar (fst (digit_loop cls s)) = ch CHR ''_'')"
  by (induction cls s rule: digit_loop.induct) (subst digit_loop.simps, simp)+

text \<open>
  Conversely every digit run is accepted: a non-empty run of decimal digits with separators only
  between digits, followed by neither a letter, digit, underscore nor point, is one integer token
  whose clean form is its digits.
\<close>

theorem decimal_literals_accepted:
  assumes "lex_wf L" "input L = w @ rest" "digit_run Dec w" "w \<noteq> []" "ends_word rest"
  shows "\<exists>L'. scan_token L = Inr (TOK_INT_LITERAL, L') \<and> NumLitSpelling L' = w \<and>
    NumLitClean L' = filter (\<lambda>c. c \<noteq> CHR ''_'') w \<and> NumLitRadix L' = 10 \<and> input L' = rest \<and>
    Logged L' = Logged L"
proof -
  obtain c v where w: "w = c # v" using assms(4) by (cases w) auto
  have c: "LastChar L = ch c" "isdigit (ch c)"
    using assms(1-3) LastChar_Cons [OF assms(1)] w by (auto simp: digit_run_def digit_or_sep_def)
  have next_c: "peek L = (case v @ rest of [] \<Rightarrow> -1 | d # _ \<Rightarrow> ch d)"
    using assms(1,2) w by (simp add: peek_input Src_input)
  have norad: "\<not> is_radix_prefix L"
  proof
    assume "is_radix_prefix L"
    then have "isalpha (peek L)" "peek L \<noteq> ch CHR ''_''"
      by (auto simp: is_radix_prefix_def isalpha_def)
    then show False
      using assms(3,5) w unfolding next_c
      by (cases v; cases rest)
        (auto simp: digit_run_def digit_or_sep_def ends_word_def ident_part_def isalnum_def isdigit_def isalpha_def)
  qed
  define s0 where "s0 = (L\<lparr>NumLitRadix := 10\<rparr>, [] :: string, [] :: string)"
  have wf0: "lex_wf (fst s0)" using assms(1) by (simp add: s0_def)
  obtain p where p: "num_reads s0 p (digit_loop Dec s0)" "\<forall>c \<in> set p. digit_or_sep Dec c"
    using digit_loop_reads [OF wf0] by blast
  define L1 where "L1 = fst (digit_loop Dec s0)"
  have L1: "lex_wf L1" "w @ rest = p @ input L1" "Logged L1 = Logged L"
    using p(1) assms(2) by (auto simp: L1_def num_reads_def s0_def reads_def)
  have stop: "input L1 = [] \<or> \<not> digit_or_sep Dec (hd (input L1))"
    using digit_loop_stops [of Dec s0] L1(1) unfolding L1_def [symmetric]
    by (auto simp: digit_or_sep_def elim!: lex_wf_cases)
  have stop': "rest = [] \<or> \<not> digit_or_sep Dec (hd rest)"
    using assms(5) by (auto simp: ends_word_def digit_or_sep_def ident_part_def isalnum_def)
  have pw: "p = w" "input L1 = rest"
    using prefix_run_unique [of p "input L1" w rest "digit_or_sep Dec"] L1(2) p(2) stop stop' assms(3)
    by (auto simp: digit_run_def)
  have loop: "digit_loop Dec s0 = (L1, w, strip_sep w)"
    using p(1) pw(1) by (cases "digit_loop Dec s0") (auto simp: L1_def num_reads_def s0_def)
  have run: "ScanDigitRun (CurLoc L) Dec s0 = Inr (length (strip_sep w), L1, w, strip_sep w)"
    using loop assms(3,4) by (simp add: ScanDigitRun_def s0_def digit_run_def hd_conv_nth)
  have after: "LastChar L1 \<noteq> ch CHR ''.''" "\<not> is_exponent_mark (LastChar L1)"
  proof -
    have mark: "is_exponent_mark n \<Longrightarrow> ident_part n" for n
      by (auto simp: is_exponent_mark_def ident_part_def isalnum_def isalpha_def)
    show "LastChar L1 \<noteq> ch CHR ''.''" "\<not> is_exponent_mark (LastChar L1)"
      using assms(5) mark unfolding LastChar_input [OF L1(1)] pw(2)
      by (cases rest; force simp: ends_word_def is_exponent_mark_def simp del: of_char_Char)+
  qed
  have "scan_number L = Inr (TOK_INT_LITERAL, L1\<lparr>NumLitSpelling := w, NumLitClean := strip_sep w\<rparr>)"
    using norad run after unfolding s0_def
    by (simp add: scan_number_def Let_def scan_fraction_def scan_exponent_def RejectStrayPoint_def)
  moreover have "scan_token L = scan_number L"
    using c by (auto simp: scan_token_def at_number_def ident_start_def isalpha_def isdigit_def at_dots_def)
  moreover have "NumLitRadix L1 = 10" using p(1) by (simp add: L1_def num_reads_def s0_def)
  ultimately show ?thesis using pw L1(3) by (simp add: strip_sep_def)
qed

lemma decimal_literals_accepted_witness:
  "\<exists>L'. scan_token (next_char (new_lexer ''1_000)'' [])) = Inr (TOK_INT_LITERAL, L') \<and>
     NumLitSpelling L' = ''1_000'' \<and>
     NumLitClean L' = filter (\<lambda>c. c \<noteq> CHR ''_'') ''1_000'' \<and> NumLitRadix L' = 10 \<and> input L' = '')'' \<and>
     Logged L' = Logged (next_char (new_lexer ''1_000)'' []))"
proof (rule decimal_literals_accepted)
  show "input (next_char (new_lexer ''1_000)'' [])) = ''1_000'' @ '')''" by (simp add: next_char_input)
  show "digit_run Dec ''1_000''" by code_simp
  show "ends_word '')''" by code_simp
qed simp_all

text \<open>
  The border of the number grammar. An underscore at the start of a digit run is not always an
  error: \<open>_5\<close> is an identifier, and in \<open>1._5\<close> the point is left to the parser, so the text splits
  into \<open>1\<close>, \<open>.\<close> and \<open>_5\<close> without a diagnostic, while \<open>5_\<close> and \<open>0x_5\<close> raise. A point with no
  digit after it raises as well (\<open>5.\<close>), and so does a second one, but a range (\<open>1..5\<close>) does not.
\<close>

theorem number_border_cases:
  "map (\<lambda>s. map_option (\<lambda>(ts, r). (map fst ts, isl r)) (tokenize s []))
     [''_5'', ''1._5'', ''5_'', ''0x_5'', ''5.'', ''3.14.15'', ''1..5''] =
   [Some ([TOK_IDENTIFIER], False), Some ([TOK_INT_LITERAL, ch CHR ''.'', TOK_IDENTIFIER], False),
    Some ([], True), Some ([], True), Some ([], True), Some ([], True),
    Some ([TOK_INT_LITERAL, TOK_RANGE, TOK_INT_LITERAL], False)]"
  by code_simp

end
