(* ===== verification/Lookahead.thy ===== *)
theory Lookahead
  imports LexLiterals
begin

text \<open>
  The lookahead of the lexer. Scanning never reads the queue of waiting tokens, so lexing ahead and
  handing the tokens out later is the same as lexing them when they are asked for.
\<close>

section \<open>Scanning does not depend on the queue\<close>

definition la :: "LexedToken list \<Rightarrow> LexerState \<Rightarrow> LexerState" where
  "la q L = L\<lparr>Lookahead := q\<rparr>"

lemma la_fields [simp]:
  "HasSource (la q L) = HasSource L" "Src (la q L) = Src L"
  "LexFilename (la q L) = LexFilename L" "LastChar (la q L) = LastChar L"
  "CurLine (la q L) = CurLine L" "CurCol (la q L) = CurCol L"
  "CurLoc (la q L) = CurLoc L" "PrevTokEndLine (la q L) = PrevTokEndLine L"
  "PrevTokEndCol (la q L) = PrevTokEndCol L" "IdentifierStr (la q L) = IdentifierStr L"
  "StringVal (la q L) = StringVal L" "NumLitSpelling (la q L) = NumLitSpelling L"
  "NumLitClean (la q L) = NumLitClean L" "NumLitRadix (la q L) = NumLitRadix L"
  "BoolVal (la q L) = BoolVal L" "CharVal (la q L) = CharVal L"
  "Logged (la q L) = Logged L"
  by (simp_all add: la_def)

lemma la_updates [simp]:
  "(la q L)\<lparr>HasSource := v0\<rparr> = la q (L\<lparr>HasSource := v0\<rparr>)"
  "(la q L)\<lparr>Src := v1\<rparr> = la q (L\<lparr>Src := v1\<rparr>)"
  "(la q L)\<lparr>LexFilename := v2\<rparr> = la q (L\<lparr>LexFilename := v2\<rparr>)"
  "(la q L)\<lparr>LastChar := v3\<rparr> = la q (L\<lparr>LastChar := v3\<rparr>)"
  "(la q L)\<lparr>CurLine := v4\<rparr> = la q (L\<lparr>CurLine := v4\<rparr>)"
  "(la q L)\<lparr>CurCol := v5\<rparr> = la q (L\<lparr>CurCol := v5\<rparr>)"
  "(la q L)\<lparr>CurLoc := v6\<rparr> = la q (L\<lparr>CurLoc := v6\<rparr>)"
  "(la q L)\<lparr>PrevTokEndLine := v7\<rparr> = la q (L\<lparr>PrevTokEndLine := v7\<rparr>)"
  "(la q L)\<lparr>PrevTokEndCol := v8\<rparr> = la q (L\<lparr>PrevTokEndCol := v8\<rparr>)"
  "(la q L)\<lparr>IdentifierStr := v9\<rparr> = la q (L\<lparr>IdentifierStr := v9\<rparr>)"
  "(la q L)\<lparr>StringVal := v10\<rparr> = la q (L\<lparr>StringVal := v10\<rparr>)"
  "(la q L)\<lparr>NumLitSpelling := v11\<rparr> = la q (L\<lparr>NumLitSpelling := v11\<rparr>)"
  "(la q L)\<lparr>NumLitClean := v12\<rparr> = la q (L\<lparr>NumLitClean := v12\<rparr>)"
  "(la q L)\<lparr>NumLitRadix := v13\<rparr> = la q (L\<lparr>NumLitRadix := v13\<rparr>)"
  "(la q L)\<lparr>BoolVal := v14\<rparr> = la q (L\<lparr>BoolVal := v14\<rparr>)"
  "(la q L)\<lparr>CharVal := v15\<rparr> = la q (L\<lparr>CharVal := v15\<rparr>)"
  "(la q L)\<lparr>Logged := v16\<rparr> = la q (L\<lparr>Logged := v16\<rparr>)"
  by (simp_all add: la_def)

named_theorems la_simps \<open>how the scanner's functions commute with an update of the queue\<close>

lemma get_char_la [la_simps]: "get_char (la q L) = la q (get_char L)"
  by (simp add: get_char_def split: list.split)

lemma next_char_la [la_simps]: "next_char (la q L) = la q (next_char L)"
  by (simp add: next_char_def Let_def la_simps)

lemma skip_char_la [la_simps]: "skip_char (la q L) = la q (skip_char L)"
  by (simp add: skip_char_def)

lemma peek_la [la_simps]: "peek (la q L) = peek L"
  by (simp add: peek_def)

lemma log_error_la [la_simps]: "log_error l c m (la q L) = la q (log_error l c m L)"
  by (simp add: log_error_def)

lemma skip_space_step_la [la_simps]: "skip_space_step (la q L) = la q (skip_space_step L)"
  by (simp add: skip_space_step_def Let_def la_simps)

lemma skip_space_la [la_simps]: "skip_space (la q L) = la q (skip_space L)"
proof (induction L rule: skip_space.induct)
  case (1 L)
  then show ?case
    by (subst (1 2) skip_space.simps) (simp add: la_simps)
qed

lemma ident_step_la [la_simps]: "ident_step (la q L) = la q (ident_step L)"
  by (simp add: ident_step_def la_simps)

lemma ident_loop_la [la_simps]: "ident_loop (la q L) = la q (ident_loop L)"
proof (induction L rule: ident_loop.induct)
  case (1 L)
  then show ?case by (subst (1 2) ident_loop.simps) (simp add: la_simps)
qed

lemma scan_identifier_la [la_simps]:
  "scan_identifier (la q L) = apsnd (la q) (scan_identifier L)"
  by (simp add: scan_identifier_def Let_def la_simps split: option.split)

lemma string_char_la [la_simps]: "string_char (la q L) = la q (string_char L)"
  by (simp add: string_char_def Let_def la_simps split: option.split)

lemma string_loop_la [la_simps]: "string_loop (la q L) = la q (string_loop L)"
proof (induction L rule: string_loop.induct)
  case (1 L)
  then show ?case by (subst (1 2) string_loop.simps) (simp add: la_simps)
qed

lemma scan_string_la [la_simps]: "scan_string (la q L) = apsnd (la q) (scan_string L)"
  by (simp add: scan_string_def unterminated_string_def Let_def la_simps)

lemma char_body_la [la_simps]: "char_body (la q L) = la q (char_body L)"
  by (simp add: char_body_def Let_def la_simps split: option.split)

lemma char_skip_la [la_simps]: "char_skip (la q L) = la q (char_skip L)"
proof (induction L rule: char_skip.induct)
  case (1 L)
  then show ?case by (subst (1 2) char_skip.simps) (simp add: la_simps)
qed

lemma scan_char_la [la_simps]: "scan_char (la q L) = apsnd (la q) (scan_char L)"
  by (simp add: scan_char_def Let_def la_simps)

definition la_num :: "LexedToken list \<Rightarrow> num_state \<Rightarrow> num_state" where
  "la_num q s = (la q (fst s), snd s)"

lemma la_num_simps [simp]: "la_num q (L, Sp, Cl) = (la q L, Sp, Cl)" "fst (la_num q s) = la q (fst s)"
  "snd (la_num q s) = snd s"
  by (simp_all add: la_num_def)

text \<open>A result, with the queue of the state in it replaced.\<close>

definition la_res :: "('a \<Rightarrow> 'b) \<Rightarrow> LexedToken list \<Rightarrow> 'a scanned \<Rightarrow> 'b scanned" where
  "la_res f q r = map_sum (apsnd (la q)) f r"

lemma la_res_simps [simp]:
  "la_res f q (Inl (e, L)) = Inl (e, la q L)" "la_res f q (Inr a) = Inr (f a)"
  by (simp_all add: la_res_def)

lemma bindS_la:
  assumes "\<And>a. g (h a) = la_res k q (f a)"
  shows "bindS (la_res h q m) g = la_res k q (bindS m f)"
  using assms by (cases m) auto

lemma digit_step_la [la_simps]: "digit_step (la_num q s) = la_num q (digit_step s)"
  by (cases s) (simp add: digit_step_def la_simps)

lemma digit_loop_la [la_simps]: "digit_loop cls (la_num q s) = la_num q (digit_loop cls s)"
proof (induction cls s rule: digit_loop.induct)
  case (1 cls s)
  then show ?case by (subst (1 2) digit_loop.simps) (simp add: la_simps)
qed

lemma ScanDigitRun_la [la_simps]:
  "ScanDigitRun loc cls (la_num q s) = la_res (apsnd (la_num q)) q (ScanDigitRun loc cls s)"
proof -
  obtain L Sp Cl where s: "s = (L, Sp, Cl)" by (cases s)
  obtain L' Sp' Cl' where d: "digit_loop cls s = (L', Sp', Cl')" by (cases "digit_loop cls s")
  then show ?thesis
    using digit_loop_la [of cls q s] unfolding s ScanDigitRun_def by simp
qed

lemma RejectStrayPoint_la [la_simps]:
  "RejectStrayPoint loc r f (la_num q s) = la_res (la_num q) q (RejectStrayPoint loc r f s)"
  by (cases s) (simp add: RejectStrayPoint_def la_simps)

lemma take_both_la [la_simps]: "take_both (la_num q s) = la_num q (take_both s)"
  by (cases s) (simp add: take_both_def la_simps)

lemma take_prefix_la [la_simps]: "take_prefix (la_num q s) = la_num q (take_prefix s)"
  by (cases s) (simp add: take_prefix_def la_simps)

lemma finish_number_la [la_simps]:
  "finish_number t (la_num q s) = la_res (apsnd (la q)) q (finish_number t s)"
  by (cases s) (simp add: finish_number_def)

lemma scan_radix_la [la_simps]:
  "scan_radix loc (la_num q s) = la_res (apsnd (la q)) q (scan_radix loc s)"
proof -
  define c where "c = radix_of_prefix (to_char (LastChar (fst (take_prefix s))))"
  define s3 where "s3 = (fst (take_prefix (take_prefix s))\<lparr>NumLitRadix := fst c\<rparr>, snd (take_prefix (take_prefix s)))"
  define g where "g = (\<lambda>(digits :: nat, L, Spelling, Clean).
          if isalnum (LastChar L)
          then Inl (InvalidRadixDigitError loc (to_char (LastChar L)) (NumLitRadix L) Spelling, L)
          else if digits = 0 then Inl (MalformedRadixPrefixError loc Spelling, L)
          else bindS (RejectStrayPoint loc True False (L, Spelling, Clean))
                 (finish_number TOK_INT_LITERAL))"
  have g: "g (apsnd (la_num q) a) = la_res (apsnd (la q)) q (g a)" for a
  proof -
    obtain d L Sp Cl where a: "a = (d, L, Sp, Cl)" by (cases a) auto
    have "bindS (la_res (la_num q) q (RejectStrayPoint loc True False (L, Sp, Cl))) (finish_number TOK_INT_LITERAL)
        = la_res (apsnd (la q)) q (bindS (RejectStrayPoint loc True False (L, Sp, Cl)) (finish_number TOK_INT_LITERAL))"
      by (rule bindS_la) (rule finish_number_la)
    then show ?thesis
      unfolding a g_def using RejectStrayPoint_la [of loc True False q "(L, Sp, Cl)"] by (simp add: la_num_def)
  qed
  have "scan_radix loc s = bindS (ScanDigitRun loc (snd c) s3) g"
    unfolding scan_radix_def Let_def c_def s3_def g_def by (simp add: case_prod_beta)
  moreover have "scan_radix loc (la_num q s) = bindS (ScanDigitRun loc (snd c) (la_num q s3)) g"
    unfolding scan_radix_def Let_def c_def s3_def g_def take_prefix_la by (simp add: case_prod_beta la_num_def)
  moreover have "bindS (la_res (apsnd (la_num q)) q (ScanDigitRun loc (snd c) s3)) g =
      la_res (apsnd (la q)) q (bindS (ScanDigitRun loc (snd c) s3) g)"
    by (rule bindS_la) (rule g)
  ultimately show ?thesis by (simp only: ScanDigitRun_la)
qed

lemma scan_fraction_la [la_simps]:
  "scan_fraction loc (la_num q s) = la_res (apsnd (la_num q)) q (scan_fraction loc s)"
proof -
  have "bindS (la_res (apsnd (la_num q)) q (ScanDigitRun loc Dec (take_both s))) (\<lambda>(_, s'). Inr (True, s')) =
      la_res (apsnd (la_num q)) q (bindS (ScanDigitRun loc Dec (take_both s)) (\<lambda>(_, s'). Inr (True, s')))"
    by (rule bindS_la) auto
  then show ?thesis by (simp add: scan_fraction_def la_simps)
qed

lemma scan_exponent_la [la_simps]:
  "scan_exponent loc f (la_num q s) = la_res (apsnd (la_num q)) q (scan_exponent loc f s)"
proof -
  define s2 where "s2 = (if is_sign (LastChar (fst (take_both s))) then take_both (take_both s) else take_both s)"
  define g :: "nat \<times> num_state \<Rightarrow> (bool \<times> num_state) scanned"
    where "g = (\<lambda>(digits, L, Spelling, Clean).
             if digits = 0 then Inl (MalformedExponentError loc Spelling, L)
             else Inr (True, L, Spelling, Clean))"
  have "bindS (la_res (apsnd (la_num q)) q (ScanDigitRun loc Dec s2)) g =
      la_res (apsnd (la_num q)) q (bindS (ScanDigitRun loc Dec s2) g)"
    by (rule bindS_la) (auto simp: g_def)
  moreover have "scan_exponent loc f (la_num q s) =
      (if is_exponent_mark (LastChar (fst s)) then bindS (ScanDigitRun loc Dec (la_num q s2)) g else Inr (f, la_num q s))"
    by (simp add: scan_exponent_def Let_def s2_def g_def la_simps)
  moreover have "scan_exponent loc f s =
      (if is_exponent_mark (LastChar (fst s)) then bindS (ScanDigitRun loc Dec s2) g else Inr (f, s))"
    by (simp add: scan_exponent_def Let_def s2_def g_def)
  ultimately show ?thesis by (simp add: la_simps)
qed

lemma is_radix_prefix_la [la_simps]: "is_radix_prefix (la q L) = is_radix_prefix L"
  by (simp add: is_radix_prefix_def la_simps)

lemma scan_number_la [la_simps]: "scan_number (la q L) = la_res (apsnd (la q)) q (scan_number L)"
proof (cases "is_radix_prefix L")
  case True
  then show ?thesis
    using scan_radix_la [of "CurLoc L" q "(L, [], [])"] by (simp add: scan_number_def Let_def la_simps)
next
  case False
  define loc where "loc = CurLoc L"
  define s0 where "s0 = (L\<lparr>NumLitRadix := 10\<rparr>, [] :: string, [] :: string)"
  define c3 :: "bool \<times> num_state \<Rightarrow> (int \<times> LexerState) scanned"
    where "c3 = (\<lambda>(IsFloat, s3). bindS (RejectStrayPoint loc False IsFloat s3)
      (finish_number (if IsFloat then TOK_NUMBER else TOK_INT_LITERAL)))"
  define c2 where "c2 = (\<lambda>(IsFloat1, s2). bindS (scan_exponent loc IsFloat1 s2) c3)"
  define c1 where "c1 = (\<lambda>(k :: nat, s1). bindS (scan_fraction loc s1) c2)"
  have 3: "c3 (apsnd (la_num q) a) = la_res (apsnd (la q)) q (c3 a)" for a
  proof -
    obtain x y where a: "a = (x, y)" by (rule prod.exhaust)
    show ?thesis
      unfolding a c3_def by (cases x; simp add: RejectStrayPoint_la; intro bindS_la finish_number_la)
  qed
  have 2: "c2 (apsnd (la_num q) a) = la_res (apsnd (la q)) q (c2 a)" for a
  proof -
    obtain x y where a: "a = (x, y)" by (rule prod.exhaust)
    show ?thesis
      unfolding a c2_def by (simp add: scan_exponent_la, intro bindS_la 3)
  qed
  have 1: "c1 (apsnd (la_num q) a) = la_res (apsnd (la q)) q (c1 a)" for a
  proof -
    obtain x y where a: "a = (x, y)" by (rule prod.exhaust)
    show ?thesis
      unfolding a c1_def by (simp add: scan_fraction_la, intro bindS_la 2)
  qed
  have eq: "scan_number L = bindS (ScanDigitRun loc Dec s0) c1"
    using False by (simp add: scan_number_def Let_def c1_def c2_def c3_def s0_def loc_def)
  have eq': "scan_number (la q L) = bindS (ScanDigitRun loc Dec (la_num q s0)) c1"
    using False
    by (simp add: scan_number_def Let_def c1_def c2_def c3_def s0_def loc_def is_radix_prefix_la)
  show ?thesis unfolding eq eq' ScanDigitRun_la by (rule bindS_la) (rule 1)
qed

lemma scan_dots_la [la_simps]: "scan_dots (la q L) = apsnd (la q) (scan_dots L)"
  by (simp add: scan_dots_def Let_def la_simps)

lemma on_char_la [la_simps]: "on_char c tok (la q L) (apsnd (la q) r) = apsnd (la q) (on_char c tok L r)"
  by (simp add: on_char_def la_simps)

lemma on_char2_la [la_simps]:
  "on_char2 c d tok3 tok2 (la q L) (apsnd (la q) r) = apsnd (la q) (on_char2 c d tok3 tok2 L r)"
  by (simp add: on_char2_def on_char_def Let_def la_simps)

lemma scan_operator_la [la_simps]: "scan_operator (la q L) = map_option (apsnd (la q)) (scan_operator L)"
proof -
  have pair: "(t, la q M) = apsnd (la q) (t, M)" for t :: int and M by simp
  show ?thesis
    unfolding scan_operator_chain Let_def next_char_la la_fields pair on_char_la on_char2_la
    by (simp only: option.map(2) option.map(1) if_distrib [of "map_option (apsnd (la q))"])
qed

lemma comment_loop_la [la_simps]: "comment_loop (la q L) = la q (comment_loop L)"
proof (induction L rule: comment_loop.induct)
  case (1 L)
  then show ?case by (subst (1 2) comment_loop.simps) (simp add: la_simps Let_def)
qed

lemma scan_single_la [la_simps]: "scan_single (la q L) = apsnd (la q) (scan_single L)"
  by (simp add: scan_single_def la_simps)

lemma scan_token_la [la_simps]: "scan_token (la q L) = la_res (apsnd (la q)) q (scan_token L)"
  by (auto simp: scan_token_def at_dots_def at_number_def la_simps split: option.split)

lemma snapshot_la [la_simps]: "snapshot (la q L) = la q (snapshot L)"
  by (simp add: snapshot_def)

lemma gettokScan_la [la_simps]: "gettokScan (la q L) = la_res (apsnd (la q)) q (gettokScan L)"
proof (induction L rule: gettokScan.induct)
  case (1 L)
  let ?M = "snapshot (skip_space L)"
  have c: "at_comment (la q ?M) = at_comment ?M" by (simp add: at_comment_def la_simps)
  show ?case
    using 1 [OF _ refl _ refl] by (subst (1 2) gettokScan.simps) (simp add: Let_def la_simps c)
qed

lemma gettok_la: "gettok (la q L) = la_res (apsnd (la q)) q (gettok L)"
proof -
  let ?L = "L\<lparr>PrevTokEndLine := EndLine (CurLoc L), PrevTokEndCol := EndCol (CurLoc L)\<rparr>"
  have "bindS (la_res (apsnd (la q)) q (gettokScan ?L)) (\<lambda>(Tok, L1). Inr (Tok, stamp_end L1)) =
      la_res (apsnd (la q)) q (bindS (gettokScan ?L) (\<lambda>(Tok, L1). Inr (Tok, stamp_end L1)))"
    by (rule bindS_la) (auto simp: stamp_end_def)
  then show ?thesis by (simp add: gettok_def la_simps)
qed

section \<open>Handing out what was lexed ahead\<close>

text \<open>The state the lexer will be in once every waiting token has been taken.\<close>

definition flush :: "LexerState \<Rightarrow> LexerState" where
  "flush L = (if Lookahead L = [] then L else la [] (installToken (last (Lookahead L)) L))"

text \<open>Lexing \<open>n\<close> tokens in a row.\<close>

fun gettoks :: "nat \<Rightarrow> LexerState \<Rightarrow> (int list \<times> LexerState) scanned" where
  "gettoks 0 L = Inr ([], L)"
| "gettoks (Suc n) L =
    bindS (gettok L) (\<lambda>(t, L1). bindS (gettoks n L1) (\<lambda>(ts, L2). Inr (t # ts, L2)))"

text \<open>The next token as \<open>getNextToken\<close> asks for it: a waiting token first, else a new one; \<open>n\<close> times.\<close>

definition next_token :: "LexerState \<Rightarrow> (int \<times> LexerState) scanned" where
  "next_token L = (case takeLookaheadToken L of Some r \<Rightarrow> Inr r | None \<Rightarrow> gettok L)"

fun next_tokens :: "nat \<Rightarrow> LexerState \<Rightarrow> (int list \<times> LexerState) scanned" where
  "next_tokens 0 L = Inr ([], L)"
| "next_tokens (Suc n) L =
    bindS (next_token L) (\<lambda>(t, L1). bindS (next_tokens n L1) (\<lambda>(ts, L2). Inr (t # ts, L2)))"

lemma installToken_simps [simp]:
  "installToken a (installToken b L) = installToken a L"
  "installToken (captureToken L t) L = L"
  "installToken (captureToken L t) (installToken b L) = L"
  "installToken a (la q L) = la q (installToken a L)"
  "Lookahead (installToken a L) = Lookahead L" "la q (la r L) = la q L" "Lookahead (la q L) = q"
  "LT_Tok (captureToken L t) = t" "captureToken (la q L) t = captureToken L t"
  by (simp_all add: installToken_def captureToken_def la_def)

lemma la_same [simp]: "la (Lookahead L) L = L"
  by (simp add: la_def)

lemma la_empty: "Lookahead M = [] \<Longrightarrow> la [] M = M"
  by (simp add: la_def)

lemma take_la: "takeLookaheadToken (la [] L) = None"
  "takeLookaheadToken (la (T # Ts) L) = Some (LT_Tok T, la Ts (installToken T L))"
  by (simp_all add: takeLookaheadToken_def la_def installToken_def)

text \<open>Taking all waiting tokens leaves the flushed state.\<close>

lemma next_tokens_waiting:
  "next_tokens (length (Lookahead L)) L = Inr (map LT_Tok (Lookahead L), flush L)"
proof (induction "Lookahead L" arbitrary: L)
  case Nil
  then show ?case by (simp add: flush_def)
next
  case (Cons T Ts)
  let ?M = "la Ts (installToken T L)"
  have take: "next_token L = Inr (LT_Tok T, ?M)"
    using take_la(2) [of T Ts L] Cons(2) la_same [of L] by (simp add: next_token_def)
  have "next_tokens (length Ts) ?M = Inr (map LT_Tok Ts, flush ?M)"
    using Cons(1) [of ?M] by simp
  moreover have "flush ?M = flush L"
    by (simp add: flush_def Cons(2) [symmetric])
  ultimately show ?case using take Cons(2) by (simp flip: Cons(2))
qed

lemma gettok_Lookahead:
  assumes "gettok L = Inr (t, L')"
  shows "Lookahead L' = Lookahead L"
proof -
  have "gettok (la (Lookahead L) L) = la_res (apsnd (la (Lookahead L))) (Lookahead L) (gettok L)"
    by (rule gettok_la)
  with assms have "L' = la (Lookahead L) L'" by simp
  then show ?thesis by (metis installToken_simps(7))
qed

text \<open>Filling the queue lexes exactly what lexing in sequence would.\<close>

lemma fill_lookahead_Inr:
  "gettoks n (la [] L) = Inr (ts, M) \<Longrightarrow>
   \<exists>Q. fill_lookahead n L = Inr (la (Lookahead L @ Q) M) \<and> map LT_Tok Q = ts \<and> length Q = n \<and>
     Lookahead M = [] \<and> (Q \<noteq> [] \<longrightarrow> (\<exists>u. last Q = captureToken M u))"
proof (induction n arbitrary: L ts)
  case 0
  then show ?case by auto
next
  case (Suc n)
  obtain t M1 ts' where step: "gettok (la [] L) = Inr (t, M1)" "gettoks n M1 = Inr (ts', M)" "ts = t # ts'"
    using Suc.prems by (auto simp: bindS_def split: sum.splits)
  have M1: "Lookahead M1 = []" using gettok_Lookahead [OF step(1)] by simp
  have g: "gettok L = Inr (t, la (Lookahead L) M1)"
    using gettok_la [of "Lookahead L" "la [] L"] step(1) by simp
  let ?L1 = "la (Lookahead L @ [captureToken M1 t]) M1"
  have "gettoks n (la [] ?L1) = Inr (ts', M)" using step(2) la_empty [OF M1] by simp
  from Suc.IH [OF this] obtain Q where Q: "fill_lookahead n ?L1 = Inr (la (Lookahead ?L1 @ Q) M)"
      "map LT_Tok Q = ts'" "length Q = n" "Lookahead M = []" "Q \<noteq> [] \<longrightarrow> (\<exists>u. last Q = captureToken M u)"
    by blast
  have "fill_lookahead (Suc n) L = Inr (la (Lookahead L @ captureToken M1 t # Q) M)"
    using g Q(1) by (simp add: la_def captureToken_def)
  moreover have "Q = [] \<Longrightarrow> M1 = M" using step(2) Q(3) by simp
  ultimately show ?case using Q step(3) by (intro exI [of _ "captureToken M1 t # Q"]) auto
qed

lemma fill_lookahead_Inl:
  "gettoks n (la [] L) = Inl (e, M) \<Longrightarrow> \<exists>q. fill_lookahead n L = Inl (e, la q M)"
proof (induction n arbitrary: L)
  case 0
  then show ?case by simp
next
  case (Suc n)
  show ?case
  proof (cases "gettok (la [] L)")
    case (Inl a)
    then have "gettok L = la_res (apsnd (la (Lookahead L))) (Lookahead L) (Inl a)"
      using gettok_la [of "Lookahead L" "la [] L"] by simp
    with Inl Suc.prems show ?thesis by auto
  next
    case (Inr a)
    obtain t M1 where a: "a = (t, M1)" by (cases a)
    have M1: "Lookahead M1 = []" using gettok_Lookahead [OF Inr [unfolded a]] by simp
    have g: "gettok L = Inr (t, la (Lookahead L) M1)"
      using gettok_la [of "Lookahead L" "la [] L"] Inr a by simp
    have "gettoks n M1 = Inl (e, M)" using Suc.prems Inr a by (auto simp: bindS_def split: sum.splits)
    then have "gettoks n (la [] (la (Lookahead L @ [captureToken M1 t]) M1)) = Inl (e, M)"
      using la_empty [OF M1] by simp
    from Suc.IH [OF this] show ?thesis using g by (auto simp: la_def captureToken_def)
  qed
qed



end
