(* ===== verification/LintLevels.thy ===== *)
theory LintLevels
  imports LexToken ErrorCodes "HOL-Library.AList"
begin

text \<open>
  \<open>src/src/diagnostics/LintLevels.cpp\<close>: the level of every warning code. The two file-scope
  variables are the state; the error text of a rejected call is returned with it. What the theorems
  show: the level in force is the last one accepted for the code, else what the pinned set says.
\<close>

section \<open>State and operations\<close>

datatype LintLevel = LAllow | LWarn | LDeny

definition lint_name :: "LintLevel \<Rightarrow> string" where
  "lint_name l = (case l of LAllow \<Rightarrow> ''allow'' | LWarn \<Rightarrow> ''warn'' | LDeny \<Rightarrow> ''deny'')"

record LintState =
  Explicit :: "(string \<times> LintLevel) list"
  PinnedMinor :: int

definition lint_reset :: LintState where
  "lint_reset = \<lparr>Explicit = [], PinnedMinor = -1\<rparr>"

definition anySet :: "LintState \<Rightarrow> bool" where
  "anySet s \<longleftrightarrow> Explicit s \<noteq> [] \<or> PinnedMinor s \<ge> 0"

definition toupper :: "char \<Rightarrow> char" where
  "toupper c = (if 97 \<le> ch c \<and> ch c \<le> 122 then to_char (ch c - 32) else c)"

definition code_shaped :: "string \<Rightarrow> bool" where
  "code_shaped u \<longleftrightarrow> length u = 4 \<and> hd u = CHR ''E'' \<and> (\<forall>c \<in> set (tl u). isdigit (ch c))"

abbreviation quote1 :: "string \<Rightarrow> string" where
  "quote1 s \<equiv> CHR 0x27 # s @ [CHR 0x27]"

text \<open>The result is \<open>None\<close> for true, or the message for false; the state is returned in both cases.\<close>

definition setLevel :: "string \<Rightarrow> LintLevel \<Rightarrow> LintState \<Rightarrow> string option \<times> LintState" where
  "setLevel code l s =
    (let Upper = map toupper code in
     if \<not> code_shaped Upper then
       (Some (quote1 code @
          '' is not a diagnostic code (a code is E and three digits, such as E163)''), s)
     else case lookupByCode Upper of
       None \<Rightarrow> (Some (''unknown diagnostic code '' @ quote1 Upper), s)
     | Some e \<Rightarrow>
         if \<not> isWarningCode e then
           (if l = LDeny then (None, s)
            else (Some (Upper @ '' is an error, not a warning: an error's level is always '' @
              ''deny, so it cannot be set to '' @ lint_name l), s))
         else (None, s\<lparr>Explicit := AList.update Upper l (Explicit s)\<rparr>))"

text \<open>\<open>std::stoi\<close> of a string of digits.\<close>

definition stoi :: "string \<Rightarrow> int" where
  "stoi ds = foldl (\<lambda>n c. 10 * n + (ch c - 48)) 0 ds"

definition setLintSet :: "string \<Rightarrow> int \<Rightarrow> LintState \<Rightarrow> string option \<times> LintState" where
  "setLintSet Spec CompilerMinor s =
    (let Shaped = (case str_find ''.'' Spec of
           None \<Rightarrow> False
         | Some Dot \<Rightarrow> 0 < Dot \<and> Dot + 1 < length Spec \<and>
             list_all (\<lambda>i. i = Dot \<or> isdigit (ch (Spec ! i))) [0..<length Spec])
     in if \<not> Shaped then
          (Some (quote1 Spec @ '' is not a lint set (write 2.N, such as 2.1)''), s)
        else if 9 < length Spec then
          (Some (quote1 Spec @ '' is not a lint set this compiler has''), s)
        else
          let Dot = the (str_find ''.'' Spec);
              Major = stoi (take Dot Spec);
              Minor = stoi (drop (Dot + 1) Spec)
          in if Major \<noteq> 2 then
               (Some (''lint set '' @ quote1 Spec @
                  '' does not exist: only 2.N lint sets are defined''), s)
             else if Minor > CompilerMinor then
               (Some (''lint set '' @ quote1 Spec @ '' is newer than this compiler (2.'' @
                  to_string CompilerMinor @ ''): upgrade the compiler, or pin an older set''), s)
             else (None, s\<lparr>PinnedMinor := Minor\<rparr>))"

definition levelOfSince :: "LintState \<Rightarrow> string \<Rightarrow> int \<Rightarrow> LintLevel" where
  "levelOfSince s code since =
    (case map_of (Explicit s) code of
       Some l \<Rightarrow> l
     | None \<Rightarrow> if PinnedMinor s \<ge> 0 \<and> since > PinnedMinor s then LAllow else LWarn)"

definition levelOf :: "LintState \<Rightarrow> string \<Rightarrow> LintLevel" where
  "levelOf s code =
    levelOfSince s code (case lookupByCode code of Some e \<Rightarrow> SinceMinor e | None \<Rightarrow> 0)"

section \<open>A command line\<close>

text \<open>The calls a build makes, in order; a rejected call leaves the state unchanged.\<close>

datatype LintOption = Level string LintLevel | LintSet string int

definition apply_option :: "LintOption \<Rightarrow> LintState \<Rightarrow> string option \<times> LintState" where
  "apply_option opt s = (case opt of Level c l \<Rightarrow> setLevel c l s | LintSet v m \<Rightarrow> setLintSet v m s)"

definition apply_options :: "LintOption list \<Rightarrow> LintState \<Rightarrow> LintState" where
  "apply_options opts s = fold (\<lambda>opt s. snd (apply_option opt s)) opts s"

definition warning_code :: "string \<Rightarrow> bool" where
  "warning_code c \<longleftrightarrow> (case lookupByCode c of Some e \<Rightarrow> isWarningCode e | None \<Rightarrow> False)"

text \<open>Which options choose the level of a code, and which pin a set.\<close>

definition chosen_level :: "string \<Rightarrow> LintOption \<Rightarrow> LintLevel option" where
  "chosen_level c opt = (case opt of
      Level d l \<Rightarrow> if map toupper d = c \<and> code_shaped c \<and> warning_code c then Some l else None
    | LintSet _ _ \<Rightarrow> None)"

definition chosen_pin :: "LintOption \<Rightarrow> int option" where
  "chosen_pin opt = (case opt of
      Level _ _ \<Rightarrow> None
    | LintSet v m \<Rightarrow> if fst (setLintSet v m lint_reset) = None
        then Some (PinnedMinor (snd (setLintSet v m lint_reset))) else None)"

fun last_choice :: "('a \<Rightarrow> 'b option) \<Rightarrow> 'a list \<Rightarrow> 'b option" where
  "last_choice f [] = None"
| "last_choice f (x # xs) = (case last_choice f xs of Some y \<Rightarrow> Some y | None \<Rightarrow> f x)"

lemma last_choice_snoc:
  "last_choice f (xs @ [x]) = (case f x of Some y \<Rightarrow> Some y | None \<Rightarrow> last_choice f xs)"
  by (induction xs) (auto split: option.split)

lemma setLevel_Explicit:
  "map_of (Explicit (snd (setLevel d l s))) c =
     (case chosen_level c (Level d l) of Some l \<Rightarrow> Some l | None \<Rightarrow> map_of (Explicit s) c)"
  "PinnedMinor (snd (setLevel d l s)) = PinnedMinor s"
  by (auto simp: setLevel_def chosen_level_def warning_code_def update_conv' Let_def split: option.split)

lemma setLintSet_state:
  "Explicit (snd (setLintSet v m s)) = Explicit s"
  "PinnedMinor (snd (setLintSet v m s)) =
     (case chosen_pin (LintSet v m) of Some p \<Rightarrow> p | None \<Rightarrow> PinnedMinor s)"
  by (auto simp: setLintSet_def chosen_pin_def Let_def)

lemma chosen_level_LintSet: "chosen_level c (LintSet v m) = None"
  by (simp add: chosen_level_def)

lemma chosen_pin_Level: "chosen_pin (Level d l) = None"
  by (simp add: chosen_pin_def)

lemma apply_options_state:
  "map_of (Explicit (apply_options opts lint_reset)) c = last_choice (chosen_level c) opts"
  "PinnedMinor (apply_options opts lint_reset) =
     (case last_choice chosen_pin opts of Some p \<Rightarrow> p | None \<Rightarrow> -1)"
proof (induction opts rule: rev_induct)
  case Nil
  show "map_of (Explicit (apply_options [] lint_reset)) c = last_choice (chosen_level c) []"
    by (simp add: apply_options_def lint_reset_def)
  show "PinnedMinor (apply_options [] lint_reset) =
      (case last_choice chosen_pin [] of Some p \<Rightarrow> p | None \<Rightarrow> -1)"
    by (simp add: apply_options_def lint_reset_def)
next
  case (snoc x xs)
  let ?s = "apply_options xs lint_reset"
  have step: "apply_options (xs @ [x]) lint_reset = snd (apply_option x ?s)"
    by (simp add: apply_options_def)
  show "map_of (Explicit (apply_options (xs @ [x]) lint_reset)) c = last_choice (chosen_level c) (xs @ [x])"
    unfolding step last_choice_snoc
    by (cases x) (simp_all add: apply_option_def setLevel_Explicit setLintSet_state snoc chosen_level_LintSet split: option.split)
  show "PinnedMinor (apply_options (xs @ [x]) lint_reset) =
      (case last_choice chosen_pin (xs @ [x]) of Some p \<Rightarrow> p | None \<Rightarrow> -1)"
    unfolding step last_choice_snoc
    by (cases x) (simp_all add: apply_option_def setLevel_Explicit setLintSet_state snoc chosen_pin_Level split: option.split)
qed

lemma level_rule:
  "levelOf (apply_options opts lint_reset) c =
    (case last_choice (chosen_level c) opts of
       Some l \<Rightarrow> l
     | None \<Rightarrow>
         (case last_choice chosen_pin opts of
            Some p \<Rightarrow>
              if 0 \<le> p \<and> p < (case lookupByCode c of Some e \<Rightarrow> SinceMinor e | None \<Rightarrow> 0)
              then LAllow else LWarn
          | None \<Rightarrow> LWarn))"
  by (auto simp: levelOf_def levelOfSince_def apply_options_state split: option.split)


lemma lookup_E173: "lookupByCode ''E173'' =
    Some (row6 ''E173'' ''TestFunctionUseError'' ''Use of a test function'' DECLARATION False 2)"
  by (simp add: lookupByCode_Some_iff AllErrorCodes_def AllErrorCodes_3_def)

text \<open>
  A code of an error has no level of its own, but the pinned set still moves it: pinning 2.1 makes
  \<open>levelOf\<close> answer \<open>allow\<close> for E173, which is an error's code, where the header promises \<open>warn\<close>.
\<close>

theorem pinned_error_code_is_allowed:
  "\<not> warning_code ''E173'' \<and> fst (setLevel ''e173'' LAllow lint_reset) \<noteq> None \<and>
   levelOf (snd (setLintSet ''2.1'' 2 lint_reset)) ''E173'' = LAllow"
proof (intro conjI)
  show w: "\<not> warning_code ''E173''"
    by (simp add: warning_code_def lookup_E173 isWarningCode_def row6_def Let_def)
  have "map toupper ''e173'' = ''E173''" "code_shaped ''E173''" by code_simp+
  with w show "fst (setLevel ''e173'' LAllow lint_reset) \<noteq> None"
    by (auto simp: setLevel_def Let_def warning_code_def split: option.splits)
  have "Explicit (snd (setLintSet ''2.1'' 2 lint_reset)) = []"
      "PinnedMinor (snd (setLintSet ''2.1'' 2 lint_reset)) = 1" by code_simp+
  then show "levelOf (snd (setLintSet ''2.1'' 2 lint_reset)) ''E173'' = LAllow"
    by (simp add: levelOf_def levelOfSince_def lookup_E173 row6_def)
qed

end
