(* ===== verification/CompilerFix.thy ===== *)
theory CompilerFix
  imports LexToken ErrorCodes "HOL-Library.Multiset"
begin

text \<open>
  \<open>src/src/diagnostics/CompilerFix.cpp\<close>: building a fix from fix-its, checking it against a
  re-analysis of the program, rendering it. The analysis (\<open>turf::analyze\<close>, the errors of its result)
  and the file system's canonical paths are parameters. What the theorems show: a built fix is the
  simultaneous application of its edits to the original text, whatever order they were given in;
  a fix that passes the check adds no error and removes the one it is for.
\<close>

section \<open>Data\<close>

record Edit =
  EdLine :: int
  EdStart :: int
  EdEnd :: int
  EdText :: string

record CompilerFix =
  FixDesc :: string
  Edits :: "Edit list"
  FirstLine :: int
  LastLine :: int
  NewLines :: "string list"
  PatchedFile :: string

definition no_fix :: CompilerFix where
  "no_fix = \<lparr>FixDesc = [], Edits = [], FirstLine = 0, LastLine = 0, NewLines = [], PatchedFile = []\<rparr>"

definition fix_empty :: "CompilerFix \<Rightarrow> bool" where
  "fix_empty f \<longleftrightarrow> Edits f = []"

section \<open>Strings\<close>

definition blank :: "char \<Rightarrow> bool" where
  "blank c \<longleftrightarrow> c = CHR '' '' \<or> c = CHR 0x09"

text \<open>\<open>S.substr(p, n)\<close>, for \<open>p \<le> S.size()\<close>.\<close>

definition substr :: "string \<Rightarrow> nat \<Rightarrow> nat \<Rightarrow> string" where
  "substr s p n = take n (drop p s)"

definition trim :: "string \<Rightarrow> string" where
  "trim s = rev (dropWhile blank (rev (dropWhile blank s)))"

definition joinLines :: "string list \<Rightarrow> string" where
  "joinLines ls = concat (map (\<lambda>l. l @ [CHR 0x0A]) ls)"

section \<open>Describing an edit\<close>

definition quoted :: "string \<Rightarrow> string" where
  "quoted s = CHR 0x27 # s @ [CHR 0x27]"

text \<open>\<open>while (From > 0 && Line[From-1] is not blank) --From\<close>.\<close>

fun word_start :: "string \<Rightarrow> nat \<Rightarrow> nat" where
  "word_start line 0 = 0"
| "word_start line (Suc n) = (if blank (line ! n) then Suc n else word_start line n)"

definition describeEdit :: "Edit \<Rightarrow> string \<Rightarrow> string" where
  "describeEdit E line =
    (let At = nat (EdStart E - 1);
         Old = substr line At (nat (EdEnd E - EdStart E))
     in if Old = [] then
          (let What = ''insert '' @ quoted (trim (EdText E))
           in if list_all blank (drop At line) then What @ '' at the end of line '' @ to_string (EdLine E)
              else let From = word_start line At
                   in if From = At then What
                      else What @ '' after '' @ quoted (substr line From (At - From)))
        else if EdText E = [] then ''remove '' @ quoted (trim Old)
        else ''replace '' @ quoted (trim Old) @ '' with '' @ quoted (trim (EdText E)))"

text \<open>The descriptions said so far, each once, and their joining.\<close>

definition say :: "string \<Rightarrow> string list \<Rightarrow> string list" where
  "say text said = (if text \<in> set said then said else said @ [text])"

definition join_said :: "string list \<Rightarrow> string" where
  "join_said said =
    concat (map (\<lambda>i. (if i = 0 then [] else if i + 1 = length said then '' and '' else '', '') @ said ! i)
      [0..<length said])"

section \<open>Building\<close>

text \<open>One fix-it, checked against the text; line 0 stands for the diagnostic's own line.\<close>

definition edit_of :: "int \<Rightarrow> string list \<Rightarrow> FixIt \<Rightarrow> Edit option" where
  "edit_of ErrorLine Lines F =
    (let line = (if FixLine F = 0 then ErrorLine else FixLine F)
     in if line < 1 \<or> line > int (length Lines) \<or> CHR 0x0A \<in> set (Replacement F) then None
        else if StartCol F < 1 \<or> FixEndCol F < StartCol F \<or>
            FixEndCol F > int (length (Lines ! nat (line - 1))) + 1 then None
        else Some \<lparr>EdLine = line, EdStart = StartCol F, EdEnd = FixEndCol F, EdText = Replacement F\<rparr>)"

fun edits_of :: "int \<Rightarrow> string list \<Rightarrow> FixIt list \<Rightarrow> Edit list option" where
  "edits_of el Lines [] = Some []"
| "edits_of el Lines (F # Fs) =
    (case edit_of el Lines F of None \<Rightarrow> None
     | Some E \<Rightarrow> map_option ((#) E) (edits_of el Lines Fs))"

definition edit_key :: "Edit \<Rightarrow> int \<times> int" where
  "edit_key E = (EdLine E, EdStart E)"

fun conflicting :: "Edit list \<Rightarrow> bool" where
  "conflicting (P # E # Es) \<longleftrightarrow>
    EdLine E = EdLine P \<and> (EdStart E < EdEnd P \<or> EdStart E = EdStart P) \<or> conflicting (E # Es)"
| "conflicting _ \<longleftrightarrow> False"

text \<open>The inner loop over the edits of one line; \<open>At\<close> is how far the original has been copied.\<close>

fun splice_line :: "string \<Rightarrow> nat \<Rightarrow> string \<Rightarrow> Edit list \<Rightarrow> string" where
  "splice_line Orig At New [] = New @ drop At Orig"
| "splice_line Orig At New (E # Es) =
    splice_line Orig (nat (EdEnd E - 1))
      (New @ substr Orig At (nat (EdStart E - 1) - At) @ EdText E) Es"

fun fix_lines :: "string list \<Rightarrow> int \<Rightarrow> nat \<Rightarrow> Edit list \<Rightarrow> string list" where
  "fix_lines Lines line 0 es = []"
| "fix_lines Lines line (Suc n) es =
    splice_line (Lines ! nat (line - 1)) 0 [] (takeWhile (\<lambda>E. EdLine E = line) es)
      # fix_lines Lines (line + 1) n (dropWhile (\<lambda>E. EdLine E = line) es)"

definition edit_changes :: "string list \<Rightarrow> Edit \<Rightarrow> bool" where
  "edit_changes Lines E \<longleftrightarrow>
    substr (Lines ! nat (EdLine E - 1)) (nat (EdStart E - 1)) (nat (EdEnd E - EdStart E)) \<noteq> EdText E"

definition patch_lines :: "string list \<Rightarrow> int \<Rightarrow> string list \<Rightarrow> string list" where
  "patch_lines Lines first new =
    take (nat (first - 1)) Lines @ new @ drop (nat (first - 1) + length new) Lines"

definition build :: "DiagnosticHints \<Rightarrow> int \<Rightarrow> string list \<Rightarrow> CompilerFix option" where
  "build Hints ErrorLine Lines =
    (case edits_of ErrorLine Lines (FixIts Hints) of
       None \<Rightarrow> None
     | Some es0 \<Rightarrow>
         let es = sort_key edit_key es0
         in if es = [] \<or> conflicting es then None
            else
              let first = EdLine (hd es);
                  last_line = EdLine (last es);
                  new = fix_lines Lines first (nat (last_line - first + 1)) es;
                  said = fold (\<lambda>E. say (describeEdit E (Lines ! nat (EdLine E - 1)))) es []
              in if \<not> list_ex (edit_changes Lines) es then None
                 else Some \<lparr>FixDesc = (if FixDescription Hints \<noteq> [] then FixDescription Hints
                                        else join_said said),
                            Edits = es, FirstLine = first, LastLine = last_line, NewLines = new,
                            PatchedFile = joinLines (patch_lines Lines first new)\<rparr>)"

section \<open>A built fix is the simultaneous application of its edits\<close>

text \<open>One edit of a line by itself.\<close>

definition splice :: "Edit \<Rightarrow> string \<Rightarrow> string" where
  "splice E s = take (nat (EdStart E - 1)) s @ EdText E @ drop (nat (EdEnd E - 1)) s"

text \<open>
  The reference: every edit is applied to the original line, the rightmost first, so that no edit
  moves the columns of another.
\<close>

definition edited_line :: "Edit list \<Rightarrow> string list \<Rightarrow> nat \<Rightarrow> string" where
  "edited_line es Lines n = foldr splice (filter (\<lambda>E. EdLine E = int n + 1) es) (Lines ! n)"

fun ordered_from :: "nat \<Rightarrow> nat \<Rightarrow> Edit list \<Rightarrow> bool" where
  "ordered_from len At [] \<longleftrightarrow> At \<le> len"
| "ordered_from len At (E # Es) \<longleftrightarrow> 1 \<le> EdStart E \<and> EdStart E \<le> EdEnd E \<and> At \<le> nat (EdStart E - 1) \<and>
     ordered_from len (nat (EdEnd E - 1)) Es"

lemma ordered_from_le: "ordered_from len At es \<Longrightarrow> At \<le> len"
proof (induction es arbitrary: At)
  case (Cons E Es)
  then have "nat (EdEnd E - 1) \<le> len" by simp
  moreover have "At \<le> nat (EdStart E - 1)" "nat (EdStart E - 1) \<le> nat (EdEnd E - 1)"
    using Cons.prems by (auto intro: nat_mono)
  ultimately show ?case by linarith
qed simp

lemma splice_line_foldr:
  "ordered_from (length Orig) At es \<Longrightarrow>
     splice_line Orig At New es = New @ drop At (foldr splice es Orig) \<and>
     take At (foldr splice es Orig) = take At Orig"
proof (induction es arbitrary: At New)
  case Nil
  then show ?case by simp
next
  case (Cons E Es)
  let ?s = "nat (EdStart E - 1)" and ?e = "nat (EdEnd E - 1)" and ?R = "foldr splice Es Orig"
  have o: "At \<le> ?s" "?s \<le> ?e" "ordered_from (length Orig) ?e Es" using Cons.prems by auto
  have len: "?e \<le> length Orig" using ordered_from_le [OF o(3)] .
  have IH: "splice_line Orig ?e N Es = N @ drop ?e ?R" "take ?e ?R = take ?e Orig" for N
    using Cons.IH [OF o(3)] by blast+
  have "take ?s ?R = take ?s (take ?e ?R)" using o(2) by (simp add: min_def)
  also have "\<dots> = take ?s Orig" unfolding IH(2) using o(2) by (simp add: min_def)
  finally have ts: "take ?s ?R = take ?s Orig" .
  have r: "foldr splice (E # Es) Orig = take ?s Orig @ EdText E @ drop ?e ?R"
    by (simp add: splice_def ts)
  have "drop At (take ?s Orig) = substr Orig At (?s - At)"
    by (simp add: substr_def drop_take)
  moreover have "length (take ?s Orig) = ?s" using o(2) len by simp
  ultimately have "drop At (foldr splice (E # Es) Orig) = substr Orig At (?s - At) @ EdText E @ drop ?e ?R"
    unfolding r using o(1) by simp
  moreover have "take At (foldr splice (E # Es) Orig) = take At Orig"
    unfolding r using o(1,2) len by (simp add: min_def)
  ultimately show ?case by (simp add: IH(1))
qed

definition valid_edit :: "string list \<Rightarrow> Edit \<Rightarrow> bool" where
  "valid_edit Lines E \<longleftrightarrow> 1 \<le> EdLine E \<and> EdLine E \<le> int (length Lines) \<and> 1 \<le> EdStart E \<and>
     EdStart E \<le> EdEnd E \<and> EdEnd E \<le> int (length (Lines ! nat (EdLine E - 1))) + 1 \<and>
     CHR 0x0A \<notin> set (EdText E)"

lemma edits_of_valid: "edits_of el Lines Fs = Some es \<Longrightarrow> E \<in> set es \<Longrightarrow> valid_edit Lines E"
proof (induction Fs arbitrary: es)
  case (Cons F Fs)
  then obtain E0 es0 where "edit_of el Lines F = Some E0" "edits_of el Lines Fs = Some es0" "es = E0 # es0"
    by (auto split: option.splits)
  moreover have "valid_edit Lines E0" using \<open>edit_of el Lines F = Some E0\<close>
    by (auto simp: edit_of_def valid_edit_def Let_def split: if_splits)
  ultimately show ?case using Cons by auto
qed simp

lemma sorted_line:
  assumes "sorted (map edit_key (E # Es))" "F \<in> set Es"
  shows "EdLine E \<le> EdLine F" "EdLine E = EdLine F \<Longrightarrow> EdStart E \<le> EdStart F"
  using assms by (auto simp: edit_key_def less_eq_prod_def)

lemma edits_ordered:
  assumes "sorted (map edit_key es)" "\<not> conflicting es" "\<forall>E \<in> set es. valid_edit Lines E"
    and "\<forall>E \<in> set es. EdLine E = int n + 1 \<longrightarrow> At \<le> nat (EdStart E - 1)" "At \<le> length (Lines ! n)"
  shows "ordered_from (length (Lines ! n)) At (filter (\<lambda>E. EdLine E = int n + 1) es)"
  using assms
proof (induction es arbitrary: At)
  case Nil
  then show ?case by simp
next
  case (Cons E Es)
  have srt: "sorted (map edit_key Es)" "\<not> conflicting Es"
    using Cons.prems(1,2) by (simp, cases Es, simp_all)
  show ?case
  proof (cases "EdLine E = int n + 1")
    case False
    with Cons srt show ?thesis by simp
  next
    case True
    have v: "valid_edit Lines E" using Cons.prems(3) by simp
    have after: "nat (EdEnd E - 1) \<le> nat (EdStart F - 1)" if F: "F \<in> set Es" "EdLine F = int n + 1" for F
    proof (cases Es)
      case (Cons G Gs)
      have "EdLine E \<le> EdLine G" "EdLine G \<le> EdLine F"
        using sorted_line(1) [OF Cons.prems(1), of G] sorted_line(1) [of G Gs F] F(1) Cons.prems(1) Cons by auto
      with True F(2) have g: "EdLine G = EdLine E" by simp
      then have "EdEnd E \<le> EdStart G" using Cons.prems(2) Cons by simp
      moreover have "EdStart G \<le> EdStart F"
        using sorted_line(2) [of G Gs F] F Cons.prems(1) Cons g True by auto
      ultimately show ?thesis by (simp add: nat_mono)
    qed (use F in simp)
    have "nat (EdEnd E - 1) \<le> length (Lines ! n)" using v True by (simp add: valid_edit_def nat_le_iff)
    with Cons.IH [OF srt _ _ this] after Cons.prems(3,4) v True show ?thesis
      by (simp add: valid_edit_def)
  qed
qed

lemma fix_lines_map:
  assumes "sorted (map EdLine es)" "\<forall>E \<in> set es. line \<le> EdLine E"
  shows "fix_lines Lines line n es =
    map (\<lambda>i. splice_line (Lines ! nat (line + int i - 1)) 0 [] (filter (\<lambda>E. EdLine E = line + int i) es)) [0..<n]"
  using assms
proof (induction n arbitrary: line es)
  case 0
  then show ?case by simp
next
  case (Suc n)
  have split: "takeWhile (\<lambda>E. EdLine E = l) xs = filter (\<lambda>E. EdLine E = l) xs \<and>
      dropWhile (\<lambda>E. EdLine E = l) xs = filter (\<lambda>E. EdLine E \<noteq> l) xs"
    if "sorted (map EdLine xs)" "\<forall>E \<in> set xs. l \<le> EdLine E" for l xs
    using that
  proof (induction xs)
    case (Cons E xs)
    show ?case
    proof (cases "EdLine E = l")
      case False
      with Cons.prems have "\<forall>F \<in> set (E # xs). EdLine F \<noteq> l" by fastforce
      then show ?thesis by (simp add: filter_empty_conv filter_id_conv)
    qed (use Cons in simp)
  qed simp
  let ?es = "filter (\<lambda>E. EdLine E \<noteq> line) es"
  have later: "sorted (map EdLine ?es)" "\<forall>E \<in> set ?es. line + 1 \<le> EdLine E"
    using Suc.prems by (auto simp: sorted_filter less_le)
  have "filter (\<lambda>E. EdLine E = line + 1 + int i) ?es = filter (\<lambda>E. EdLine E = line + int (Suc i)) es" for i
    by (auto simp: filter_filter intro: filter_cong)
  then show ?case
    using split [OF Suc.prems] Suc.IH [OF later] by (simp add: map_upt_Suc del: upt_Suc filter_filter)
qed

lemma sorted_edit_lines: "sorted (map edit_key es) \<Longrightarrow> sorted (map EdLine es)"
  by (induction es) (auto simp: edit_key_def less_eq_prod_def)

lemma edited_line_none: "(\<forall>E \<in> set es. EdLine E \<noteq> int n + 1) \<Longrightarrow> edited_line es Lines n = Lines ! n"
  by (simp add: edited_line_def filter_False)

lemma fix_lines_edited:
  assumes "sorted (map edit_key es)" "\<not> conflicting es" "\<forall>E \<in> set es. valid_edit Lines E"
    and "\<forall>E \<in> set es. line \<le> EdLine E" "1 \<le> line" "line + int n - 1 \<le> int (length Lines)"
  shows "fix_lines Lines line n es = map (edited_line es Lines) [nat (line - 1)..<nat (line - 1) + n]"
proof -
  have "splice_line (Lines ! nat (line + int i - 1)) 0 [] (filter (\<lambda>E. EdLine E = line + int i) es) =
      edited_line es Lines (nat (line - 1) + i)" if "i < n" for i
  proof -
    let ?m = "nat (line - 1) + i"
    have m: "nat (line + int i - 1) = ?m" "int ?m + 1 = line + int i" using assms(5) by auto
    have "ordered_from (length (Lines ! ?m)) 0 (filter (\<lambda>E. EdLine E = int ?m + 1) es)"
      by (rule edits_ordered [OF assms(1-3)]) simp_all
    then show ?thesis
      using splice_line_foldr [of "Lines ! ?m" 0 _ "[]"] unfolding edited_line_def m by simp
  qed
  then show ?thesis
    unfolding fix_lines_map [OF sorted_edit_lines [OF assms(1)] assms(4)]
    by (intro nth_equalityI) auto
qed

text \<open>
  C33. A fix that is built is the simultaneous application of its edits. Every edit lies inside the
  text and none overlaps another; the replacement lines and the patched file are what applying all
  edits to the original lines gives (the rightmost first, so none moves another); the number of
  lines does not change; and the edits are the fix-its of the diagnostic, whatever their order.
\<close>

theorem build_applies_edits:
  assumes "build Hints ErrorLine Lines = Some F"
  shows "(\<forall>E \<in> set (Edits F). valid_edit Lines E) \<and> \<not> conflicting (Edits F) \<and>
    edits_of ErrorLine Lines (FixIts Hints) \<noteq> None \<and>
    mset (Edits F) = mset (the (edits_of ErrorLine Lines (FixIts Hints))) \<and>
    NewLines F = map (edited_line (Edits F) Lines) [nat (FirstLine F - 1)..<nat (LastLine F)] \<and>
    PatchedFile F = joinLines (map (edited_line (Edits F) Lines) [0..<length Lines])"
proof -
  obtain es0 where es0: "edits_of ErrorLine Lines (FixIts Hints) = Some es0"
    using assms by (auto simp: build_def split: option.splits)
  define es where "es = sort_key edit_key es0"
  have ne: "es \<noteq> []" and nc: "\<not> conflicting es"
    and F: "Edits F = es" "FirstLine F = EdLine (hd es)" "LastLine F = EdLine (last es)"
      "NewLines F = fix_lines Lines (EdLine (hd es)) (nat (EdLine (last es) - EdLine (hd es) + 1)) es"
      "PatchedFile F = joinLines (patch_lines Lines (FirstLine F) (NewLines F))"
    using assms by (auto simp: build_def es0 es_def Let_def split: if_splits)
  have srt: "sorted (map edit_key es)" by (simp add: es_def)
  have valid: "\<forall>E \<in> set es. valid_edit Lines E"
    using edits_of_valid [OF es0] by (simp add: es_def)
  have lo: "\<forall>E \<in> set es. EdLine (hd es) \<le> EdLine E"
    using sorted_edit_lines [OF srt] ne by (cases es) auto
  have hi: "\<forall>E \<in> set es. EdLine E \<le> EdLine (last es)"
    using sorted_edit_lines [OF srt] ne by (induction es) (auto split: if_splits)
  have hl: "valid_edit Lines (hd es)" "valid_edit Lines (last es)" "EdLine (hd es) \<le> EdLine (last es)"
    using valid ne lo by auto
  let ?a = "nat (EdLine (hd es) - 1)" and ?b = "nat (EdLine (last es))"
  have ab: "?a + nat (EdLine (last es) - EdLine (hd es) + 1) = ?b" "?a \<le> ?b" "?b \<le> length Lines"
    using hl by (auto simp: valid_edit_def)
  have new: "NewLines F = map (edited_line es Lines) [?a..<?b]"
    unfolding F(4)
    by (subst fix_lines_edited [OF srt nc valid lo]) (use hl ab(1) in \<open>auto simp: valid_edit_def\<close>)
  have "patch_lines Lines (FirstLine F) (NewLines F) = map (edited_line es Lines) [0..<length Lines]"
  proof -
    have out: "edited_line es Lines n = Lines ! n" if "n < ?a \<or> ?b \<le> n" for n
      using that lo hi hl by (intro edited_line_none) (force simp: valid_edit_def)
    have "take ?a Lines = map (edited_line es Lines) [0..<?a]"
      using ab out by (intro nth_equalityI) auto
    moreover have "drop ?b Lines = map (edited_line es Lines) [?b..<length Lines]"
      using ab out by (intro nth_equalityI) auto
    moreover have "[0..<length Lines] = [0..<?a] @ [?a..<?b] @ [?b..<length Lines]"
      using ab by (metis append.assoc le_add_diff_inverse upt_add_eq_append zero_le)
    ultimately show ?thesis
      using ab(2) unfolding patch_lines_def F(2) new by simp
  qed
  then show ?thesis
    using valid nc es0 new F by (auto simp: es_def)
qed

section \<open>Checking\<close>

text \<open>An error as the check compares it: file, line, code. \<open>canon\<close> is \<open>weakly_canonical\<close>, \<open>None\<close> on failure.\<close>

type_synonym error_key = "string \<times> int \<times> string"

definition samePath :: "(string \<Rightarrow> string option) \<Rightarrow> string \<Rightarrow> string \<Rightarrow> bool" where
  "samePath canon A B \<longleftrightarrow> A = B \<or> canon A \<noteq> None \<and> canon A = canon B"

definition sameError :: "(string \<Rightarrow> string option) \<Rightarrow> error_key \<Rightarrow> error_key \<Rightarrow> bool" where
  "sameError canon A B \<longleftrightarrow> fst (snd A) = fst (snd B) \<and> snd (snd A) = snd (snd B) \<and>
     samePath canon (fst A) (fst B)"

text \<open>The loop over the errors left: each uses up one allowed error like it.\<close>

fun remove_like :: "(error_key \<Rightarrow> bool) \<Rightarrow> error_key list \<Rightarrow> error_key list option" where
  "remove_like same [] = None"
| "remove_like same (A # As) = (if same A then Some As else map_option ((#) A) (remove_like same As))"

fun all_allowed :: "(string \<Rightarrow> string option) \<Rightarrow> error_key list \<Rightarrow> error_key list \<Rightarrow> bool" where
  "all_allowed canon [] Allowed = True"
| "all_allowed canon (K # Ks) Allowed =
    (case remove_like (\<lambda>A. sameError canon A K) Allowed of
       None \<Rightarrow> False
     | Some Allowed' \<Rightarrow> all_allowed canon Ks Allowed')"

text \<open>
  \<open>Checking\<close> is the re-entrancy flag, \<open>Main\<close> the main file's name, \<open>Entry\<close> its lines,
  \<open>errors\<close> the errors of an analysis of the given buffers.
\<close>

definition fix_check ::
    "bool \<Rightarrow> (string \<Rightarrow> string option) \<Rightarrow> string \<Rightarrow> string list option \<Rightarrow>
     ((string \<times> string) list \<Rightarrow> error_key list) \<Rightarrow> CompilerFix \<Rightarrow> string \<Rightarrow> string \<Rightarrow> int \<Rightarrow> bool" where
  "fix_check Checking canon Main Entry errors Fix File code ErrorLine =
    (if Checking \<or> fix_empty Fix \<or> code = [] then False
     else case Entry of
       None \<Rightarrow> False
     | Some Lines \<Rightarrow>
         let Original = (File, ErrorLine mod 2 ^ 32, code);
             Before = errors [(Main, joinLines Lines)]
         in if \<not> list_ex (\<lambda>K. sameError canon K Original) Before then False
            else
              let Buffers = (if samePath canon File Main then [(Main, PatchedFile Fix)]
                             else [(Main, joinLines Lines), (File, PatchedFile Fix)]);
                  Allowed = filter (\<lambda>K. \<not> sameError canon K Original) Before
              in all_allowed canon (errors Buffers) Allowed)"

lemma sameError_refl: "sameError canon K K"
  by (simp add: sameError_def samePath_def)

lemma sameError_sym: "sameError canon A B \<Longrightarrow> sameError canon B A"
  unfolding sameError_def samePath_def by metis

lemma sameError_trans: "sameError canon A B \<Longrightarrow> sameError canon B C \<Longrightarrow> sameError canon A C"
  unfolding sameError_def samePath_def by metis

definition count_like :: "(string \<Rightarrow> string option) \<Rightarrow> error_key \<Rightarrow> error_key list \<Rightarrow> nat" where
  "count_like canon K Ks = length (filter (sameError canon K) Ks)"

lemma remove_like_count:
  assumes "remove_like (\<lambda>A. sameError canon A K) As = Some Bs"
  shows "count_like canon J As = count_like canon J Bs + (if sameError canon J K then 1 else 0)"
  using assms
proof (induction As arbitrary: Bs)
  case (Cons A As)
  show ?case
  proof (cases "sameError canon A K")
    case True
    then have "sameError canon J A = sameError canon J K"
      using sameError_sym sameError_trans by blast
    with True Cons.prems show ?thesis by (simp add: count_like_def)
  next
    case False
    with Cons show ?thesis by (auto simp: count_like_def)
  qed
qed simp

lemma all_allowed_count:
  "all_allowed canon Ks Allowed \<Longrightarrow> count_like canon J Ks \<le> count_like canon J Allowed"
proof (induction Ks arbitrary: Allowed)
  case Nil
  then show ?case by (simp add: count_like_def)
next
  case (Cons K Ks)
  then obtain Bs where "remove_like (\<lambda>A. sameError canon A K) Allowed = Some Bs" "all_allowed canon Ks Bs"
    by (auto split: option.splits)
  with Cons.IH [of Bs] remove_like_count [of canon K Allowed Bs J] show ?case
    by (auto simp: count_like_def)
qed

text \<open>
  C34. A fix that passes the check removes the error it is for and adds none: the analysis of the
  original program reports that error; the analysis of the patched program reports no error like it,
  and of every kind of error (same file, line and code) at most as many as before.
\<close>

theorem check_removes_and_adds_nothing:
  assumes "fix_check Checking canon Main (Some Lines) errors Fix File code ErrorLine"
  defines "Original \<equiv> (File, ErrorLine mod 2 ^ 32, code)"
    and "Before \<equiv> errors [(Main, joinLines Lines)]"
    and "After \<equiv> errors (if samePath canon File Main then [(Main, PatchedFile Fix)]
           else [(Main, joinLines Lines), (File, PatchedFile Fix)])"
  shows "0 < count_like canon Original Before \<and> count_like canon Original After = 0 \<and>
    count_like canon K After \<le> count_like canon K Before"
proof -
  let ?Allowed = "filter (\<lambda>K. \<not> sameError canon K Original) Before"
  have all: "all_allowed canon After ?Allowed" and ex: "list_ex (\<lambda>K. sameError canon K Original) Before"
    using assms(1) by (auto simp: fix_check_def Let_def Original_def Before_def After_def split: if_splits)
  have "count_like canon Original ?Allowed = 0"
    by (auto simp: count_like_def filter_empty_conv dest: sameError_sym)
  with all_allowed_count [OF all, of Original] have 1: "count_like canon Original After = 0" by simp
  have "count_like canon K ?Allowed \<le> count_like canon K Before"
    unfolding count_like_def filter_filter by (induction Before) auto
  with all_allowed_count [OF all, of K] have 2: "count_like canon K After \<le> count_like canon K Before"
    by (rule le_trans)
  have "0 < count_like canon Original Before"
    using ex by (auto simp: count_like_def list_ex_iff filter_empty_conv dest: sameError_sym)
  with 1 2 show ?thesis by simp
qed

lemma check_removes_and_adds_nothing_witness:
  "let errors = (\<lambda>bs. if bs = [(''m'', ''x'' @ [CHR 0x0A])] then [(''m'', 1, ''E041'')] else []);
       Fix = no_fix\<lparr>Edits := [\<lparr>EdLine = 1, EdStart = 1, EdEnd = 2, EdText = ''y''\<rparr>],
         PatchedFile := ''y'' @ [CHR 0x0A]\<rparr>
   in 0 < count_like (\<lambda>_. None) (''m'', 1, ''E041'') (errors [(''m'', joinLines [''x''])])"
proof -
  define errors where "errors = (\<lambda>bs :: (string \<times> string) list.
    if bs = [(''m'', ''x'' @ [CHR 0x0A])] then [(''m'', 1 :: int, ''E041'')] else [])"
  define Fix where "Fix = no_fix\<lparr>Edits := [\<lparr>EdLine = 1, EdStart = 1, EdEnd = 2, EdText = ''y''\<rparr>],
         PatchedFile := ''y'' @ [CHR 0x0A]\<rparr>"
  have "fix_check False (\<lambda>_. None) ''m'' (Some [''x'']) errors Fix ''m'' ''E041'' 1"
    by (simp add: fix_check_def errors_def Fix_def fix_empty_def joinLines_def sameError_def samePath_def)
  from check_removes_and_adds_nothing [OF this] show ?thesis
    unfolding Let_def errors_def by simp
qed

section \<open>The order of the fix-its\<close>

lemma edits_of_map:
  "edits_of el Lines Fs =
    (if \<forall>F \<in> set Fs. edit_of el Lines F \<noteq> None then Some (map (\<lambda>F. the (edit_of el Lines F)) Fs) else None)"
  by (induction Fs) (auto split: option.split)

lemma not_conflicting_distinct:
  "sorted (map edit_key es) \<Longrightarrow> \<not> conflicting es \<Longrightarrow> distinct (map edit_key es)"
proof (induction es)
  case (Cons E Es)
  have IH: "distinct (map edit_key Es)" using Cons by (cases Es) auto
  have "edit_key E \<noteq> edit_key F" if "F \<in> set Es" for F
  proof (cases Es)
    case (Cons G Gs)
    have le: "edit_key E \<le> edit_key G" "edit_key G \<le> edit_key F"
      using Cons.prems(1) that Cons by auto
    have "edit_key E \<noteq> edit_key G" using Cons.prems(2) Cons by (auto simp: edit_key_def)
    with le show ?thesis by (metis order.antisym)
  qed (use that in simp)
  with IH show ?case by auto
qed simp

lemma sort_edits_unique:
  assumes "mset xs = mset ys" "\<not> conflicting (sort_key edit_key xs)"
  shows "sort_key edit_key xs = sort_key edit_key ys"
proof -
  let ?X = "sort_key edit_key xs" and ?Y = "sort_key edit_key ys"
  have d: "distinct (map edit_key ?X)" using not_conflicting_distinct [OF sorted_sort_key assms(2)] .
  have m: "mset ?X = mset ?Y" using assms(1) by simp
  have dY: "distinct (map edit_key ?Y)" using d m by (metis mset_eq_imp_distinct_iff mset_map)
  have s: "set ?X = set ?Y" using m by (rule mset_eq_setD)
  have "map edit_key ?X = map edit_key ?Y"
    by (rule sorted_distinct_set_unique) (use d dY s in \<open>simp_all add: image_image\<close>)
  then show ?thesis
    using d s by (intro map_inj_on [of edit_key]) (simp_all add: distinct_map)
qed

text \<open>
  The order in which a diagnostic lists its fix-its does not matter: \<open>build\<close> succeeds for every
  order or for none, and the fix is the same.
\<close>

lemma build_order_irrelevant:
  assumes "mset (FixIts H1) = mset (FixIts H2)" "FixDescription H1 = FixDescription H2"
  shows "build H1 ErrorLine Lines = build H2 ErrorLine Lines"
proof -
  let ?f = "\<lambda>F. the (edit_of ErrorLine Lines F)"
  have set: "set (FixIts H1) = set (FixIts H2)" using assms(1) by (rule mset_eq_setD)
  show ?thesis
  proof (cases "\<forall>F \<in> set (FixIts H2). edit_of ErrorLine Lines F \<noteq> None")
    case False
    then have "edits_of ErrorLine Lines (FixIts H1) = None" "edits_of ErrorLine Lines (FixIts H2) = None"
      by (auto simp: edits_of_map set)
    then show ?thesis by (simp add: build_def)
  next
    case True
    let ?x = "sort_key edit_key (map ?f (FixIts H1))" and ?y = "sort_key edit_key (map ?f (FixIts H2))"
    have m: "mset (map ?f (FixIts H1)) = mset (map ?f (FixIts H2))" using assms(1) by simp
    have empty: "?x = [] \<longleftrightarrow> ?y = []" using assms(1) by (metis mset_sort mset_zero_iff m)
    show ?thesis
    proof (cases "conflicting ?x \<and> conflicting ?y")
      case True
      then show ?thesis using \<open>\<forall>F \<in> set (FixIts H2). _\<close> by (simp add: build_def edits_of_map set Let_def)
    next
      case False
      then have "?x = ?y" using sort_edits_unique [OF m] sort_edits_unique [OF m [symmetric]] by metis
      then show ?thesis
        using True unfolding build_def edits_of_map set assms(2) by simp
    qed
  qed
qed

lemma build_applies_edits_witness:
  "\<exists>F. build (no_hints\<lparr>FixIts := [\<lparr>FixLine = 1, StartCol = 1, FixEndCol = 2, Replacement = ''q''\<rparr>,
      \<lparr>FixLine = 0, StartCol = 3, FixEndCol = 3, Replacement = '';''\<rparr>]\<rparr>) 1 [''ab''] = Some F \<and>
    NewLines F = [''qb;''] \<and> \<not> conflicting (Edits F)"
proof -
  let ?H = "no_hints\<lparr>FixIts := [\<lparr>FixLine = 1, StartCol = 1, FixEndCol = 2, Replacement = ''q''\<rparr>,
      \<lparr>FixLine = 0, StartCol = 3, FixEndCol = 3, Replacement = '';''\<rparr>]\<rparr>"
  have "map_option NewLines (build ?H 1 [''ab'']) = Some [''qb;'']" by code_simp
  then obtain F where F: "build ?H 1 [''ab''] = Some F" "NewLines F = [''qb;'']" by auto
  with build_applies_edits [OF F(1)] show ?thesis by blast
qed

section \<open>Rendering\<close>

definition ansi :: "string \<Rightarrow> string" where
  "ansi code = CHR 0x1B # ''['' @ code @ ''m''"

definition RESET :: string where "RESET = ansi ''0''"
definition BRIGHT_BLACK :: string where "BRIGHT_BLACK = ansi ''90''"
definition BRIGHT_RED :: string where "BRIGHT_RED = ansi ''91''"
definition BRIGHT_GREEN :: string where "BRIGHT_GREEN = ansi ''92''"
definition BRIGHT_YELLOW :: string where "BRIGHT_YELLOW = ansi ''93''"
definition BRIGHT_BLUE :: string where "BRIGHT_BLUE = ansi ''94''"
definition BRIGHT_CYAN :: string where "BRIGHT_CYAN = ansi ''96''"
definition YELLOW :: string where "YELLOW = ansi ''33''"
definition CYAN :: string where "CYAN = ansi ''36''"
definition BOLD :: string where "BOLD = ansi ''1''"

text \<open>The marks under one line; \<open>Shift\<close> is how far the edits before have moved the columns.\<close>

fun mark_edits :: "Edit list \<Rightarrow> int \<Rightarrow> string \<Rightarrow> string" where
  "mark_edits [] Shift Marks = Marks"
| "mark_edits (E # Es) Shift Marks =
    (let Start = EdStart E - 1 + Shift;
         Len = int (length (EdText E));
         Padded = (if int (length Marks) < Start
                   then Marks @ replicate (nat (Start - int (length Marks))) (CHR '' '') else Marks);
         Marked = Padded @ (if 0 < Len then replicate (nat Len) (CHR ''~'') else ''^'')
     in mark_edits Es (Shift + (Len - (EdEnd E - EdStart E))) Marked)"

text \<open>The bar of the gutter, a box-drawing character in UTF-8 between blanks.\<close>

definition gutter :: string where
  "gutter = [CHR '' '', CHR 0xE2, CHR 0x94, CHR 0x82, CHR '' '']"

definition render_line :: "CompilerFix \<Rightarrow> nat \<Rightarrow> int \<Rightarrow> string" where
  "render_line Fix Width line =
    (let es = filter (\<lambda>E. EdLine E = line) (Edits Fix)
     in if es = [] then []
        else
          let Num = to_string line;
              Padded = replicate (Width - length Num) (CHR '' '') @ Num
          in BRIGHT_BLACK @ ''  '' @ Padded @ gutter @ RESET @
             (NewLines Fix ! nat (line - FirstLine Fix)) @ [CHR 0x0A] @ BRIGHT_BLACK @ ''  '' @
             replicate Width (CHR '' '') @ gutter @ RESET @ BRIGHT_GREEN @ mark_edits es 0 [] @
             RESET @ [CHR 0x0A])"

definition render :: "CompilerFix \<Rightarrow> string" where
  "render Fix =
    (if fix_empty Fix then []
     else [CHR 0x0A] @ ''  '' @ BOLD @ BRIGHT_GREEN @ ''Fix: '' @ RESET @ BRIGHT_GREEN @ FixDesc Fix @
       RESET @ [CHR 0x0A] @
       concat (map (render_line Fix (length (to_string (LastLine Fix))))
         [FirstLine Fix..LastLine Fix]))"

end
