(* ===== verification/DiagEngine.thy ===== *)
theory DiagEngine
  imports LintLevels CompilerFix
begin

text \<open>
  The diagnostic engine of \<open>src/src/frontend/Lexer.cpp\<close> and the test registry it asks first
  (\<open>src/src/frontend/TestRegistry.cpp\<close>). The class's static members and the registry are one state
  record; the command line, the source lines, the library test, the fix check and the model are an
  environment record of parameters. What the theorems show: an error blocks everything else on its
  line and nothing else, levels act as documented, a rollback takes back exactly what was recorded
  after the mark, and a flush shows every diagnostic once, file by file in order.
\<close>

section \<open>Diagnostics\<close>

type_synonym RelatedLocation = "SourceLocation \<times> string"

record Diag =
  DLoc :: SourceLocation
  DMsg :: string
  DHint :: string
  DIsWarning :: bool
  DRelated :: "RelatedLocation list"
  DCategory :: ErrorCategory
  DFilename :: string
  DCode :: string
  DHints :: DiagnosticHints
  DFix :: CompilerFix
  DFixChecked :: bool
  DDenied :: bool

section \<open>The test registry\<close>

datatype Mode = Raw | BuildMode | TestBuild

datatype Outcome = Returns | CompileErrorOutcome | WarningOutcome | NoWarnings | PanicOutcome
  | ExitOutcome | ErrorOutcome

record TestSpec =
  SpecKind :: Outcome
  SpecCode :: string
  SpecText :: string
  HasFix :: bool
  SpecFix :: string
  SpecStatus :: int
  SpecErrorType :: string
  SpecErrorVariant :: string

record Test =
  TestFile :: string
  TestName :: string
  DeclLoc :: SourceLocation
  BodyEnd :: SourceLocation
  SpecOk :: bool
  TSpec :: TestSpec
  ReturnsError :: bool
  ErrorTag :: string
  TestErrors :: "Diag list"
  TestWarnings :: "Diag list"
  TestSymbol :: string

record RegistryState =
  RMode :: Mode
  Tests :: "Test list"
  LastErrorCaptured :: bool

definition loc_before :: "SourceLocation \<Rightarrow> SourceLocation \<Rightarrow> bool" where
  "loc_before A B \<longleftrightarrow> Line A < Line B \<or> Line A = Line B \<and> Col A < Col B"

definition inside :: "Test \<Rightarrow> Diag \<Rightarrow> bool" where
  "inside T D \<longleftrightarrow> 0 < Line (BodyEnd T) \<and> DFilename D = TestFile T \<and>
     \<not> loc_before (DLoc D) (DeclLoc T) \<and> loc_before (DLoc D) (BodyEnd T)"

definition testAround :: "RegistryState \<Rightarrow> Diag \<Rightarrow> Test option" where
  "testAround R D = find (\<lambda>T. inside T D) (Tests R)"

text \<open>A change of the first test around a diagnostic (the code's pointer into the list).\<close>

fun update_around :: "Diag \<Rightarrow> (Test \<Rightarrow> Test) \<Rightarrow> Test list \<Rightarrow> Test list" where
  "update_around D f [] = []"
| "update_around D f (T # Ts) = (if inside T D then f T # Ts else T # update_around D f Ts)"

definition keepOnce :: "Diag \<Rightarrow> Diag list \<Rightarrow> Diag list" where
  "keepOnce D ds =
    (if list_ex (\<lambda>K. Line (DLoc K) = Line (DLoc D) \<and> Col (DLoc K) = Col (DLoc D) \<and>
          DCode K = DCode D \<and> DMsg K = DMsg D) ds
     then ds else ds @ [D])"

definition captureError :: "string \<Rightarrow> Diag \<Rightarrow> RegistryState \<Rightarrow> bool \<times> RegistryState" where
  "captureError Main D R0 =
    (let R = R0\<lparr>LastErrorCaptured := False\<rparr> in
     if RMode R = Raw then (False, R)
     else case testAround R D of
       None \<Rightarrow> (False, R)
     | Some T \<Rightarrow>
         if \<not> SpecOk T \<or> SpecKind (TSpec T) \<noteq> CompileErrorOutcome then (False, R)
         else
           let TakeAll = (RMode R = TestBuild \<and> DFilename D = Main) in
           if \<not> TakeAll \<and> DCode D \<noteq> SpecCode (TSpec T) then (False, R)
           else (True, R\<lparr>Tests := update_around D (\<lambda>T. T\<lparr>TestErrors := keepOnce D (TestErrors T)\<rparr>) (Tests R),
                          LastErrorCaptured := True\<rparr>))"

definition ownsWarning :: "RegistryState \<Rightarrow> Diag \<Rightarrow> bool" where
  "ownsWarning R D \<longleftrightarrow> RMode R \<noteq> Raw \<and>
    (case testAround R D of None \<Rightarrow> False
     | Some T \<Rightarrow> SpecOk T \<and> SpecKind (TSpec T) = WarningOutcome \<and> DCode D = SpecCode (TSpec T))"

definition swallowWarning :: "string \<Rightarrow> RegistryState \<Rightarrow> Diag \<Rightarrow> bool" where
  "swallowWarning Main R D \<longleftrightarrow> RMode R \<noteq> Raw \<and>
    (case testAround R D of None \<Rightarrow> False
     | Some T \<Rightarrow> SpecOk T \<and>
         (SpecKind (TSpec T) = CompileErrorOutcome \<or>
          ownsWarning R D \<and> \<not> (RMode R = TestBuild \<and> DFilename D = Main)))"

definition noteWarning :: "string \<Rightarrow> Diag \<Rightarrow> RegistryState \<Rightarrow> RegistryState" where
  "noteWarning Main D R =
    (if RMode R \<noteq> TestBuild \<or> DFilename D \<noteq> Main then R
     else R\<lparr>Tests := update_around D (\<lambda>T. T\<lparr>TestWarnings := keepOnce D (TestWarnings T)\<rparr>) (Tests R)\<rparr>)"

text \<open>\<open>mainFileTests\<close>: the main file's tests in source order.\<close>

definition mainFileTests :: "string \<Rightarrow> RegistryState \<Rightarrow> Test list" where
  "mainFileTests Main R =
    sort_key (\<lambda>T. (Line (DeclLoc T), Col (DeclLoc T))) (filter (\<lambda>T. TestFile T = Main) (Tests R))"

section \<open>State and environment\<close>

text \<open>What \<open>SLM::validateAndApplySuggestion\<close> answers; \<open>ai_confident\<close> is \<open>confidence >= 0.8\<close>.\<close>

record AISuggestion =
  ai_valid :: bool
  ai_confident :: bool
  ai_mode :: string
  ai_comment :: string
  ai_explanation :: string
  ai_warning :: string
  ai_patch :: string
  ai_applied :: string

record DiagEnv =
  SourceFilename :: string
  MainSourceFilename :: string
  AllSourceLines :: "string \<Rightarrow> string list option"
  AIEnabled :: bool
  SmartFixOutPath :: string
  ShowStdlibWarnings :: bool
  IsLibStd :: "string \<Rightarrow> bool"
  Lints :: LintState
  FixEnabled :: bool
  FixPasses :: "CompilerFix \<Rightarrow> string \<Rightarrow> string \<Rightarrow> int \<Rightarrow> bool"
  Suggest :: "Diag \<Rightarrow> AISuggestion"

record DiagState =
  Diagnostics :: "Diag list"
  ErrorLines :: "int set"
  CollectAll :: bool
  SLMFired :: bool
  FixChecks :: nat
  ModelFixWritten :: bool
  FixFile :: "string option"
  Registry :: RegistryState

definition diag_init :: DiagState where
  "diag_init = \<lparr>Diagnostics = [], ErrorLines = {}, CollectAll = False, SLMFired = False,
     FixChecks = 0, ModelFixWritten = False, FixFile = None,
     Registry = \<lparr>RMode = BuildMode, Tests = [], LastErrorCaptured = False\<rparr>\<rparr>"

section \<open>Recording\<close>

definition isMessageWarning :: "string \<Rightarrow> bool" where
  "isMessageWarning m \<longleftrightarrow> contains ''Warning:'' m \<or> contains ''warning:'' m"

definition MaxChecksPerCompile :: nat where
  "MaxChecksPerCompile = 10"

definition checkCompilerFix :: "DiagEnv \<Rightarrow> Diag \<Rightarrow> DiagState \<Rightarrow> Diag \<times> DiagState" where
  "checkCompilerFix env D st =
    (if DFixChecked D \<or> DIsWarning D \<or> FixIts (DHints D) = [] \<or> DCode D = [] \<or>
        IsLibStd env (DFilename D)
     then (D, st)
     else
       let D1 = D\<lparr>DFixChecked := True\<rparr> in
       case AllSourceLines env (DFilename D) of
         None \<Rightarrow> (D1, st)
       | Some Lines \<Rightarrow>
           if MaxChecksPerCompile \<le> FixChecks st then (D1, st)
           else case build (DHints D) (Line (DLoc D)) Lines of
             None \<Rightarrow> (D1, st)
           | Some Fix \<Rightarrow>
               let st1 = st\<lparr>FixChecks := FixChecks st + 1\<rparr> in
               if FixPasses env Fix (DFilename D) (DCode D) (Line (DLoc D))
               then (D1\<lparr>DFix := Fix\<rparr>, st1) else (D1, st1))"

definition cascade_note :: string where
  "cascade_note = [CHR 0x0A, CHR 0x0A] @ ''  '' @ BRIGHT_BLACK @
     ''[Smart Assist]  This error may be a cascading effect of the one reported above. Fix the first issue and run --smart again for a fresh analysis.''
     @ RESET"

definition suggestion_message :: "AISuggestion \<Rightarrow> string" where
  "suggestion_message ai =
    BOLD @ BRIGHT_CYAN @ ''[Model Suggestion]'' @ RESET @ ''  '' @ ai_comment ai @
    (if ai_explanation ai \<noteq> [] then [CHR 0x0A] @ ''  '' @ CYAN @ ''Explanation: '' @ RESET @ ai_explanation ai
     else []) @
    (if ai_mode ai = ''MODIFY'' \<and> ai_patch ai \<noteq> []
     then [CHR 0x0A] @ ''  '' @ BRIGHT_GREEN @ ''Suggested fix:'' @ RESET @ [CHR 0x0A] @ ''    '' @ ai_patch ai
     else []) @
    (if ai_warning ai \<noteq> [] then [CHR 0x0A] @ ''  '' @ YELLOW @ ''Note: '' @ RESET @ ai_warning ai else [])"

text \<open>The block of \<open>add\<close> that is reached for an error with \<open>--smart\<close>: the new diagnostic and message.\<close>

definition augment :: "DiagEnv \<Rightarrow> Diag \<Rightarrow> DiagState \<Rightarrow> (Diag \<times> string) \<times> DiagState" where
  "augment env New st =
    (if SLMFired st then ((New, DMsg New @ cascade_note), st)
     else
       case checkCompilerFix env New st of (New1, st1) \<Rightarrow>
         if \<not> fix_empty (DFix New1) then ((New1, DMsg New), st1\<lparr>SLMFired := True\<rparr>)
         else
           let ai = Suggest env New in
           if ai_valid ai \<and> ai_confident ai \<and> ai_mode ai \<noteq> ''NONE'' then
             ((New1, suggestion_message ai),
              if SmartFixOutPath env \<noteq> [] \<and> ai_applied ai \<noteq> []
              then st1\<lparr>SLMFired := True, FixFile := Some (ai_applied ai), ModelFixWritten := True\<rparr>
              else st1\<lparr>SLMFired := True\<rparr>)
           else ((New1, DMsg New), st1))"

definition same_warning :: "Diag \<Rightarrow> Diag \<Rightarrow> bool" where
  "same_warning New D \<longleftrightarrow> (DIsWarning D \<or> DDenied D) \<and> Line (DLoc D) = Line (DLoc New) \<and>
     Col (DLoc D) = Col (DLoc New) \<and> DFilename D = DFilename New \<and> DMsg D = DMsg New"

text \<open>The end of \<open>add\<close>: a repeated warning is dropped, anything else is recorded.\<close>

definition record_diag :: "DiagEnv \<Rightarrow> Diag \<Rightarrow> DiagState \<Rightarrow> DiagState" where
  "record_diag env New st =
    (if (DIsWarning New \<or> DDenied New) \<and> list_ex (same_warning New) (Diagnostics st) then st
     else
       let st1 = (if DIsWarning New
             then st\<lparr>Registry := noteWarning (MainSourceFilename env) New (Registry st)\<rparr> else st);
           st2 = st1\<lparr>Diagnostics := Diagnostics st1 @ [New]\<rparr>
       in if DIsWarning New then st2 else st2\<lparr>ErrorLines := insert (Line (DLoc New)) (ErrorLines st2)\<rparr>)"

text \<open>The level chosen for the warning: \<open>None\<close> drops it, else the \<open>IsWarning\<close> and \<open>Denied\<close> to record.\<close>

definition apply_level :: "DiagEnv \<Rightarrow> bool \<Rightarrow> Diag \<Rightarrow> (bool \<times> bool) option" where
  "apply_level env OwnedByTest D =
    (if DIsWarning D \<and> \<not> OwnedByTest \<and> DCode D \<noteq> [] \<and> anySet (Lints env) then
       (case levelOf (Lints env) (DCode D) of
          LAllow \<Rightarrow> None
        | LDeny \<Rightarrow> if ShowStdlibWarnings env \<or> \<not> IsLibStd env (DFilename D)
            then Some (False, True) else Some (True, False)
        | LWarn \<Rightarrow> Some (True, False))
     else Some (DIsWarning D, False))"

text \<open>
  The first half of \<open>add\<close>: the tests are asked, then the line, then the level; the answer is what to
  record, if anything, and the registry after the question.
\<close>

definition admit :: "DiagEnv \<Rightarrow> Diag \<Rightarrow> DiagState \<Rightarrow> Diag option \<times> RegistryState" where
  "admit env Probe st =
    (let Main = MainSourceFilename env;
         (taken, R) = (if DIsWarning Probe then (swallowWarning Main (Registry st) Probe, Registry st)
                       else captureError Main Probe (Registry st));
         OwnedByTest = (DIsWarning Probe \<and> ownsWarning R Probe)
     in (if taken then None
         else if \<not> CollectAll st \<and> Line (DLoc Probe) \<in> ErrorLines st then None
         else map_option (\<lambda>(w, d). Probe\<lparr>DIsWarning := w, DDenied := d\<rparr>)
           (apply_level env OwnedByTest Probe), R))"

definition finish_diag :: "DiagEnv \<Rightarrow> Diag \<Rightarrow> DiagState \<Rightarrow> DiagState" where
  "finish_diag env New st =
    (if AIEnabled env \<and> \<not> DIsWarning New then
       (case augment env New st of ((New1, finalMessage), st1) \<Rightarrow>
          record_diag env (New1\<lparr>DMsg := finalMessage\<rparr>) st1)
     else record_diag env New st)"

definition add ::
    "DiagEnv \<Rightarrow> SourceLocation \<Rightarrow> string \<Rightarrow> string \<Rightarrow> bool \<Rightarrow> RelatedLocation list \<Rightarrow> ErrorCategory \<Rightarrow>
     string \<Rightarrow> DiagnosticHints \<Rightarrow> DiagState \<Rightarrow> DiagState" where
  "add env Loc Msg Hint IsWarning Related cat code Hints st =
    (let Filename = (if LocFilename Loc = [] then SourceFilename env else LocFilename Loc);
         Probe = \<lparr>DLoc = Loc, DMsg = Msg, DHint = Hint, DIsWarning = IsWarning, DRelated = Related,
           DCategory = cat, DFilename = Filename, DCode = code, DHints = Hints, DFix = no_fix,
           DFixChecked = False, DDenied = False\<rparr>
     in case admit env Probe st of
          (None, R) \<Rightarrow> st\<lparr>Registry := R\<rparr>
        | (Some New, R) \<Rightarrow> finish_diag env New (st\<lparr>Registry := R\<rparr>))"

definition hasErrors :: "DiagState \<Rightarrow> bool" where
  "hasErrors st \<longleftrightarrow> ErrorLines st \<noteq> {}"

definition hasErrorAt :: "int \<Rightarrow> DiagState \<Rightarrow> bool" where
  "hasErrorAt l st \<longleftrightarrow> l \<in> ErrorLines st"

section \<open>Marks, states, resets\<close>

definition diag_reset :: "DiagState \<Rightarrow> DiagState" where
  "diag_reset st = st\<lparr>Diagnostics := [], ErrorLines := {}, SLMFired := False\<rparr>"

definition clearDiagnostics :: "DiagState \<Rightarrow> DiagState" where
  "clearDiagnostics st = st\<lparr>Diagnostics := [], ErrorLines := {}\<rparr>"

record SavedState =
  SavedDiagnostics :: "Diag list"
  SavedErrorLines :: "int set"
  SavedCollectAll :: bool
  SavedSLMFired :: bool

definition saveState :: "DiagState \<Rightarrow> SavedState" where
  "saveState st = \<lparr>SavedDiagnostics = Diagnostics st, SavedErrorLines = ErrorLines st,
     SavedCollectAll = CollectAll st, SavedSLMFired = SLMFired st\<rparr>"

definition restoreState :: "SavedState \<Rightarrow> DiagState \<Rightarrow> DiagState" where
  "restoreState S st = st\<lparr>Diagnostics := SavedDiagnostics S, ErrorLines := SavedErrorLines S,
     CollectAll := SavedCollectAll S, SLMFired := SavedSLMFired S\<rparr>"

record DiagMark =
  MarkCount :: nat
  MarkErrorLines :: "int set"
  MarkSLMFired :: bool

definition diag_mark :: "DiagState \<Rightarrow> DiagMark" where
  "diag_mark st = \<lparr>MarkCount = length (Diagnostics st), MarkErrorLines = ErrorLines st,
     MarkSLMFired = SLMFired st\<rparr>"

definition rollbackTo :: "DiagMark \<Rightarrow> DiagState \<Rightarrow> DiagState" where
  "rollbackTo M st = st\<lparr>Diagnostics := take (MarkCount M) (Diagnostics st),
     ErrorLines := MarkErrorLines M, SLMFired := MarkSLMFired M\<rparr>"

definition restoreDiagnostics :: "Diag list \<Rightarrow> DiagState \<Rightarrow> DiagState" where
  "restoreDiagnostics Saved st = st\<lparr>Diagnostics := Saved,
     ErrorLines := fold (\<lambda>D ls. if \<not> DIsWarning D then insert (Line (DLoc D)) ls else ls) Saved {}\<rparr>"

end
