(* ===== verification/DiagJson.thy ===== *)
theory DiagJson
  imports DiagEngine
begin

text \<open>
  \<open>src/src/diagnostics/DiagnosticsJson.cpp\<close>: the JSON form of a diagnostic, as a value. Writing a value
  as text and removing \<open>.\<close> and \<open>..\<close> steps from a path are LLVM's; the second is a parameter here, the
  first one of the flush. What the theorem shows: the JSON form carries the words and no colour.
\<close>

section \<open>Values\<close>

datatype JSON = JNull | JBool bool | JInt int | JStr string | JArr "JSON list" | JObj "(string \<times> JSON) list"

definition orNull :: "string \<Rightarrow> JSON" where
  "orNull S = (if S = [] then JNull else JStr S)"

section \<open>Text\<close>

definition ESC :: char where
  "ESC = CHR 0x1B"

function stripAnsi :: "string \<Rightarrow> string" where
  "stripAnsi [] = []"
| "stripAnsi (c # cs) =
    (if c = ESC \<and> cs \<noteq> [] \<and> hd cs = CHR ''[''
     then stripAnsi (drop 1 (dropWhile (\<lambda>d. \<not> isalpha (ch d)) (tl cs)))
     else c # stripAnsi cs)"
  by pat_completeness auto
termination
proof (relation "measure length")
  fix c :: char and cs :: string
  have "length (dropWhile (\<lambda>d. \<not> isalpha (ch d)) (tl cs)) \<le> length (tl cs)"
    by (rule length_dropWhile_le)
  then show "(drop 1 (dropWhile (\<lambda>d. \<not> isalpha (ch d)) (tl cs)), c # cs) \<in> measure length" by simp
qed auto

definition json_trim :: "string \<Rightarrow> string" where
  "json_trim S = (let sp = (\<lambda>c. isspace (ch c)) in
     rev (dropWhile sp (rev (dropWhile sp S))))"

definition span_of :: "int \<Rightarrow> int \<Rightarrow> int \<Rightarrow> int \<Rightarrow> JSON" where
  "span_of l c l' c' = JObj
    [(''start'', JObj [(''line'', JInt l), (''column'', JInt c)]),
     (''end'', JObj [(''line'', JInt l'), (''column'', JInt c')])]"

definition json_span :: "SourceLocation \<Rightarrow> JSON" where
  "json_span Loc =
    (if 0 < EndLine Loc \<and> 0 < EndCol Loc \<and> (EndLine Loc > Line Loc \<or> EndCol Loc > Col Loc)
     then span_of (Line Loc) (Col Loc) (EndLine Loc) (EndCol Loc)
     else span_of (Line Loc) (Col Loc) (Line Loc) (Col Loc + 1))"

text \<open>The code's class of a category name: \<open>_\<close> becomes a blank, a capital its lower-case letter.\<close>

definition category_char :: "char \<Rightarrow> char" where
  "category_char c = (if c = CHR ''_'' then CHR '' ''
     else if 65 \<le> ch c \<and> ch c \<le> 90 then to_char (ch c + 32) else c)"

definition category_text :: "string \<Rightarrow> string" where
  "category_text code = (case lookupByCode code of None \<Rightarrow> []
     | Some Row \<Rightarrow> map category_char (getCategoryName (Category Row)))"

definition split_hint :: "string \<Rightarrow> string \<Rightarrow> string \<times> string" where
  "split_hint Msg Hint = (if Hint = [] then
      (case str_find ''Hint:'' Msg of
         None \<Rightarrow> (Msg, Hint)
       | Some H \<Rightarrow> (take H Msg, json_trim (drop (H + 5) Msg)))
     else (Msg, Hint))"

definition split_title :: "string \<Rightarrow> string \<times> string" where
  "split_title Msg = (case str_find [CHR 0x0A] Msg of
      None \<Rightarrow> ([], Msg)
    | Some NL \<Rightarrow>
        let First = json_trim (take NL Msg) in
        if First \<noteq> [] \<and> (last First = CHR ''!'' \<or> last First = CHR '':'')
        then (First, json_trim (drop (NL + 1) Msg)) else ([], Msg))"

definition drop_warning_prefix :: "string \<Rightarrow> string" where
  "drop_warning_prefix Msg = (if starts_with ''Warning: '' Msg then drop 9 Msg else Msg)"

definition message_parts :: "string \<Rightarrow> string \<Rightarrow> string \<times> string \<times> string" where
  "message_parts Msg0 Hint0 =
    (let (Msg, Hint) = split_hint (stripAnsi Msg0) (json_trim (stripAnsi Hint0));
         (Title, Body) = split_title (drop_warning_prefix (json_trim Msg))
     in (Title, Body, Hint))"

section \<open>A diagnostic\<close>

definition json_edit :: "(string \<Rightarrow> string) \<Rightarrow> Diag \<Rightarrow> Edit \<Rightarrow> JSON" where
  "json_edit cleanPath D E = JObj
    [(''file'', JStr (cleanPath (DFilename D))),
     (''span'', span_of (EdLine E) (EdStart E) (EdLine E) (EdEnd E)),
     (''replacement'', JStr (EdText E))]"

definition json_related :: "(string \<Rightarrow> string) \<Rightarrow> Diag \<Rightarrow> RelatedLocation \<Rightarrow> JSON" where
  "json_related cleanPath D R = JObj
    [(''file'', JStr (cleanPath (if LocFilename (fst R) = [] then DFilename D else LocFilename (fst R)))),
     (''span'', json_span (fst R)),
     (''message'', JStr (stripAnsi (snd R)))]"

definition json_fix :: "(string \<Rightarrow> string) \<Rightarrow> Diag \<Rightarrow> JSON" where
  "json_fix cleanPath D = (if fix_empty (DFix D) then JNull
     else JObj [(''description'', JStr (FixDesc (DFix D))),
                (''edits'', JArr (map (json_edit cleanPath D) (Edits (DFix D))))])"

definition json_render :: "(string \<Rightarrow> string) \<Rightarrow> Diag \<Rightarrow> bool \<Rightarrow> JSON" where
  "json_render cleanPath D IsWarning =
    (let (Title, Msg, Hint) = message_parts (DMsg D) (DHint D) in JObj
      [(''version'', JStr ''1.0''),
       (''severity'', JStr (if IsWarning then ''warning'' else ''error'')),
       (''code'', orNull (DCode D)),
       (''category'', orNull (category_text (DCode D))),
       (''title'', orNull Title),
       (''message'', JStr Msg),
       (''hint'', orNull Hint),
       (''file'', JStr (cleanPath (DFilename D))),
       (''span'', if 0 < Line (DLoc D) then json_span (DLoc D) else JNull),
       (''related'', JArr (map (json_related cleanPath D) (DRelated D))),
       (''fix'', json_fix cleanPath D),
       (''denied'', JBool (DDenied D))])"

section \<open>Colours\<close>

text \<open>A coloured text: words, and colour switches around them.\<close>

datatype Piece = Words string | Switch string

definition piece_text :: "Piece \<Rightarrow> string" where
  "piece_text p = (case p of Words w \<Rightarrow> w | Switch c \<Rightarrow> ansi c)"

definition piece_words :: "Piece \<Rightarrow> string" where
  "piece_words p = (case p of Words w \<Rightarrow> w | Switch c \<Rightarrow> [])"

definition piece_ok :: "Piece \<Rightarrow> bool" where
  "piece_ok p = (case p of Words w \<Rightarrow> ESC \<notin> set w | Switch c \<Rightarrow> (\<forall>d \<in> set c. \<not> isalpha (ch d)))"

lemma stripAnsi_plain: "ESC \<notin> set w \<Longrightarrow> stripAnsi (w @ t) = w @ stripAnsi t"
  by (induction w) auto

lemma stripAnsi_ansi: "\<forall>d \<in> set c. \<not> isalpha (ch d) \<Longrightarrow> stripAnsi (ansi c @ t) = stripAnsi t"
proof -
  assume c: "\<forall>d \<in> set c. \<not> isalpha (ch d)"
  have "isalpha (ch CHR ''m'')" by code_simp
  with c have "dropWhile (\<lambda>d. \<not> isalpha (ch d)) (c @ CHR ''m'' # t) = CHR ''m'' # t"
    by (simp add: dropWhile_append3)
  then show ?thesis by (simp add: ansi_def ESC_def)
qed

lemma stripAnsi_pieces:
  "list_all piece_ok ps \<Longrightarrow> stripAnsi (concat (map piece_text ps)) = concat (map piece_words ps)"
  by (induction ps)
    (auto simp: piece_ok_def piece_text_def piece_words_def stripAnsi_plain stripAnsi_ansi split: Piece.splits)

lemma stripAnsi_words: "list_all piece_ok ps \<Longrightarrow>
    stripAnsi (concat (map piece_words ps)) = concat (map piece_words ps)"
proof (induction ps)
  case Nil
  then show ?case by simp
next
  case (Cons p ps)
  then show ?case
    by (cases p) (simp_all add: piece_ok_def piece_words_def stripAnsi_plain)
qed

lemma json_parts_DMsg [simp]:
  "json_related cp (D\<lparr>DMsg := m\<rparr>) = json_related cp D"
  "json_fix cp (D\<lparr>DMsg := m\<rparr>) = json_fix cp D"
  by (simp_all add: fun_eq_iff json_related_def json_fix_def json_edit_def cong: if_cong)

text \<open>
  The JSON form of a diagnostic does not depend on the colours of its message: it is the JSON form of
  the same diagnostic with only the words of the message.
\<close>

lemma json_ignores_colour:
  assumes "list_all piece_ok ps"
  shows "json_render cleanPath (D\<lparr>DMsg := concat (map piece_text ps)\<rparr>) IsWarning =
    json_render cleanPath (D\<lparr>DMsg := concat (map piece_words ps)\<rparr>) IsWarning"
  by (simp add: json_render_def message_parts_def stripAnsi_pieces [OF assms] stripAnsi_words [OF assms]
      split del: if_split cong: if_cong)

end
