(* ===== verification/DiagFlush.thy ===== *)
theory DiagFlush
  imports DiagJson
begin

text \<open>
  \<open>DiagnosticEngine::flushAll\<close> of \<open>src/src/frontend/Lexer.cpp\<close>: the order of the batches, the fix checks,
  the file of fixes, and the text or JSON written. The result of a flush is the text and the state
  after it. What the theorems show: every diagnostic that is not a hidden library warning is printed
  exactly once, under one header of its own file, the main file first and in source order within a
  file; and the file of fixes takes each line from at most one fix.
\<close>

section \<open>Order\<close>

definition flush_key :: "string \<Rightarrow> Diag \<Rightarrow> bool \<times> string \<times> int \<times> int" where
  "flush_key Main D = (DFilename D \<noteq> Main, DFilename D, Line (DLoc D), Col (DLoc D))"

definition flush_order :: "string \<Rightarrow> Diag list \<Rightarrow> Diag list" where
  "flush_order Main ds = sort_key (flush_key Main) ds"

section \<open>Fix checks\<close>

fun check_fixes :: "DiagEnv \<Rightarrow> Diag list \<Rightarrow> DiagState \<Rightarrow> Diag list \<times> DiagState" where
  "check_fixes env [] st = ([], st)"
| "check_fixes env (D # Ds) st =
    (if DFixChecked D \<or> FixIts (DHints D) = [] then
       (case check_fixes env Ds st of (Ds', st') \<Rightarrow> (D # Ds', st'))
     else
       (case checkCompilerFix env D st of (D1, st1) \<Rightarrow>
          (case check_fixes env Ds st1 of (Ds', st') \<Rightarrow>
             (D\<lparr>DFixChecked := True, DFix := DFix D1\<rparr> # Ds', st'))))"

section \<open>The file of fixes\<close>

text \<open>One fix: the text so far, the lines a fix has taken, whether any fix was applied.\<close>

type_synonym FixWriting = "string list \<times> int set \<times> bool"

definition apply_lines :: "CompilerFix \<Rightarrow> string list \<Rightarrow> string list" where
  "apply_lines Fix Lines =
    fold (\<lambda>l Ls. Ls[nat (l - 1) := NewLines Fix ! nat (l - FirstLine Fix)])
      [FirstLine Fix..LastLine Fix] Lines"

definition write_fix :: "string \<Rightarrow> Diag \<Rightarrow> FixWriting \<Rightarrow> FixWriting" where
  "write_fix Main D w = (case w of (Lines, Taken, Any) \<Rightarrow>
     let Fix = DFix D in
     if fix_empty Fix \<or> DFilename D \<noteq> Main then w
     else if \<not> list_all (\<lambda>l. l \<notin> Taken) [FirstLine Fix..LastLine Fix] then w
     else (apply_lines Fix Lines, Taken \<union> set [FirstLine Fix..LastLine Fix], True))"

definition writeCompilerFixes :: "DiagEnv \<Rightarrow> Diag list \<Rightarrow> DiagState \<Rightarrow> DiagState" where
  "writeCompilerFixes env Diags st =
    (if SmartFixOutPath env = [] \<or> ModelFixWritten st then st
     else case AllSourceLines env (MainSourceFilename env) of
       None \<Rightarrow> st
     | Some Lines0 \<Rightarrow>
         (case fold (write_fix (MainSourceFilename env)) Diags (Lines0, {}, False) of
            (Lines, Taken, Any) \<Rightarrow>
              if \<not> Any then st
              else st\<lparr>FixFile := Some (concat (map (\<lambda>L. L @ [CHR 0x0A]) Lines))\<rparr>))"

section \<open>Printing\<close>

text \<open>
  What printing takes from outside: the relative path the file system answers (\<open>None\<close> on an error or
  an empty path), LLVM's path cleaning and JSON writer, and whether \<open>--diagnostics=json\<close> is on.
\<close>

record PrintEnv =
  RelativePath :: "string \<Rightarrow> string option"
  CleanPath :: "string \<Rightarrow> string"
  JsonText :: "JSON \<Rightarrow> string"
  JsonEnabled :: bool

definition displayPath :: "PrintEnv \<Rightarrow> string \<Rightarrow> string" where
  "displayPath P Path =
    (case rfind_suffix ''lib/std/'' Path of
       Some s \<Rightarrow> s
     | None \<Rightarrow>
         (case RelativePath P Path of
            None \<Rightarrow> Path
          | Some Rel \<Rightarrow> if Rel = [] \<or> Rel = ''.'' \<or> starts_with ''..'' Rel then Path else Rel))"

definition shown_as_warning :: "Diag \<Rightarrow> bool" where
  "shown_as_warning D \<longleftrightarrow> \<not> DDenied D \<and> (DIsWarning D \<or> isMessageWarning (DMsg D))"

abbreviation nl :: string where "nl \<equiv> [CHR 0x0A]"

text \<open>Two heavy horizontal bars, and a middle dot between blanks, in UTF-8.\<close>

definition bars :: string where
  "bars = [CHR 0xE2, CHR 0x94, CHR 0x80, CHR 0xE2, CHR 0x94, CHR 0x80]"

definition middle_dot :: string where
  "middle_dot = [CHR '' '', CHR 0xC2, CHR 0xB7, CHR '' '']"

definition print_head :: "Diag \<Rightarrow> string" where
  "print_head D =
    (let Accent = (if shown_as_warning D then BRIGHT_YELLOW else BRIGHT_RED);
         CategoryText = category_text (DCode D)
     in BOLD @ Accent @ bars @ '' '' @ (if shown_as_warning D then ''warning'' else ''error'') @ '' '' @
        RESET @ BRIGHT_BLACK @
        (if 0 < Line (DLoc D)
         then ''at line '' @ to_string (Line (DLoc D)) @ '', col '' @ to_string (Col (DLoc D)) else []) @
        (if DCode D \<noteq> [] then
           (if 0 < Line (DLoc D) then '' '' else []) @ ''['' @ DCode D @
           (if CategoryText = [] then [] else middle_dot @ CategoryText) @ '']''
         else []) @
        RESET @ nl @ nl)"

definition print_related :: "PrintEnv \<Rightarrow> Diag \<Rightarrow> RelatedLocation \<Rightarrow> string" where
  "print_related P D Rel = (case Rel of (Loc, Desc) \<Rightarrow>
     let OtherFile = (LocFilename Loc \<noteq> [] \<and> LocFilename Loc \<noteq> DFilename D)
     in ''  '' @ BRIGHT_BLUE @ ''Note: '' @ Desc @ '' ('' @
        (if OtherFile then displayPath P (LocFilename Loc) @ '', '' else []) @
        ''line '' @ to_string (Line Loc) @ '', col '' @ to_string (Col Loc) @ '')'' @ RESET @ nl)"

definition underline_of :: "SourceLocation \<Rightarrow> string" where
  "underline_of Loc =
    (let SpanWidth = (if EndCol Loc \<noteq> -1 \<and> EndLine Loc = Line Loc \<and> EndCol Loc > Col Loc
           then EndCol Loc - Col Loc else 1)
     in CHR ''^'' # replicate (nat (SpanWidth - 1)) (CHR ''~''))"

definition print_snippet :: "DiagEnv \<Rightarrow> Diag \<Rightarrow> string" where
  "print_snippet env D =
    (case AllSourceLines env (DFilename D) of
       None \<Rightarrow> []
     | Some Lines \<Rightarrow>
         if 0 < Line (DLoc D) \<and> Line (DLoc D) \<le> int (length Lines) then
           (let LineNumStr = to_string (Line (DLoc D));
                CaretOffset = (if 0 < Col (DLoc D) then nat (Col (DLoc D) - 1) else 0);
                Accent = (if shown_as_warning D then BRIGHT_YELLOW else BRIGHT_RED)
            in nl @ BRIGHT_BLACK @ ''  '' @ LineNumStr @ gutter @ RESET @
               Lines ! nat (Line (DLoc D) - 1) @ nl @
               BRIGHT_BLACK @ ''  '' @ replicate (length LineNumStr) (CHR '' '') @ gutter @ RESET @
               replicate CaretOffset (CHR '' '') @ BOLD @ Accent @ underline_of (DLoc D) @ '' Here!'' @
               RESET @ nl)
         else [])"

definition print_explain :: "Diag \<Rightarrow> string" where
  "print_explain D =
    (if DCode D = [] then []
     else if (case lookupByCode (DCode D) of Some e \<Rightarrow> Important e | None \<Rightarrow> False) then
       nl @ ''  '' @ BOLD @ BRIGHT_CYAN @ ''Worth reading in full -- run `turf --explain '' @ DCode D @
       ''` before you patch this one.'' @ RESET @ nl
     else nl @ ''  '' @ BRIGHT_BLACK @ ''Run `turf --explain '' @ DCode D @ ''` for more details.'' @
       RESET @ nl)"

definition printDiag :: "DiagEnv \<Rightarrow> PrintEnv \<Rightarrow> Diag \<Rightarrow> string" where
  "printDiag env P D =
    print_head D @ ''  '' @ DMsg D @ nl @
    concat (map (print_related P D) (DRelated D)) @
    (if DHint D \<noteq> [] then nl @ ''  '' @ BRIGHT_GREEN @ ''Hint: '' @ DHint D @ RESET @ nl else []) @
    (if DDenied D then nl @ ''  '' @ BRIGHT_BLACK @ DCode D @
       '' is a warning by default; its lint level here is deny.'' @ RESET @ nl else []) @
    print_snippet env D @ render (DFix D) @ print_explain D @ nl"

section \<open>Batches\<close>

definition shown :: "DiagEnv \<Rightarrow> Diag list \<Rightarrow> Diag list" where
  "shown env ds =
    filter (\<lambda>D. \<not> (DIsWarning D \<and> \<not> ShowStdlibWarnings env \<and> IsLibStd env (DFilename D))) ds"

function batches :: "Diag list \<Rightarrow> Diag list list" where
  "batches [] = []"
| "batches (D # Ds) =
    (D # takeWhile (\<lambda>E. DFilename E = DFilename D) Ds) #
      batches (dropWhile (\<lambda>E. DFilename E = DFilename D) Ds)"
  by pat_completeness auto
termination
  by (relation "measure length") (auto simp: le_imp_less_Suc length_dropWhile_le)

definition plural :: "nat \<Rightarrow> string \<Rightarrow> string" where
  "plural n word = to_string (int n) @ '' '' @ word @ (if n = 1 then [] else ''s'')"

definition count_errors :: "Diag list \<Rightarrow> nat" where
  "count_errors B = length (filter (\<lambda>D. \<not> shown_as_warning D) B)"

definition count_warnings :: "Diag list \<Rightarrow> nat" where
  "count_warnings B = length (filter shown_as_warning B)"

definition counts_text :: "Diag list \<Rightarrow> string" where
  "counts_text B =
    (let E = (if count_errors B \<noteq> 0 then plural (count_errors B) ''error'' else [])
     in E @ (if count_warnings B \<noteq> 0
             then (if E = [] then [] else '', '') @ plural (count_warnings B) ''warning'' else []))"

definition print_batch :: "DiagEnv \<Rightarrow> PrintEnv \<Rightarrow> Diag list \<Rightarrow> string" where
  "print_batch env P B =
    (if DFilename (hd B) \<noteq> [] then
       BOLD @ BRIGHT_CYAN @ displayPath P (DFilename (hd B)) @ RESET @ '' '' @ BRIGHT_BLACK @ ''('' @
       counts_text B @ '')'' @ RESET @ nl @ nl
     else []) @
    concat (map (printDiag env P) B)"

text \<open>The list a flush prints: sorted, with the fix checks done (\<open>CompilerFixes::Enabled\<close>).\<close>

definition flush_list :: "DiagEnv \<Rightarrow> DiagState \<Rightarrow> Diag list \<times> DiagState" where
  "flush_list env st =
    (let ds = flush_order (MainSourceFilename env) (Diagnostics st)
     in if FixEnabled env then check_fixes env ds st else (ds, st))"

definition flushAll :: "DiagEnv \<Rightarrow> PrintEnv \<Rightarrow> DiagState \<Rightarrow> string \<times> DiagState" where
  "flushAll env P st =
    (case flush_list env st of (ds, st1) \<Rightarrow>
       let st2 = writeCompilerFixes env ds st1;
           Shown = shown env ds;
           out = (if JsonEnabled P
             then concat (map (\<lambda>D. JsonText P (json_render (CleanPath P) D (shown_as_warning D)) @ nl) Shown)
             else concat (map (print_batch env P) (batches Shown)))
       in (out, st2\<lparr>Diagnostics := []\<rparr>))"

section \<open>One batch per file\<close>

definition unfixed :: "Diag \<Rightarrow> Diag" where
  "unfixed D = D\<lparr>DFix := no_fix, DFixChecked := False\<rparr>"

definition file_key :: "string \<Rightarrow> Diag \<Rightarrow> bool \<times> string" where
  "file_key Main D = (DFilename D \<noteq> Main, DFilename D)"

lemma check_fixes_unfixed: "map unfixed (fst (check_fixes env ds st)) = map unfixed ds"
proof (induction env ds st rule: check_fixes.induct)
  case (1 env st)
  then show ?case by simp
next
  case (2 env D Ds st)
  show ?case
  proof (cases "DFixChecked D \<or> FixIts (DHints D) = []")
    case True
    with 2(1) show ?thesis by (simp add: prod.case_eq_if)
  next
    case False
    obtain D1 st1 where c: "checkCompilerFix env D st = (D1, st1)" by fastforce
    from 2(2) [OF False c [symmetric]] False c show ?thesis
      by (simp add: prod.case_eq_if unfixed_def)
  qed
qed

lemma flush_list_unfixed:
  "map unfixed (fst (flush_list env st)) = map unfixed (flush_order (MainSourceFilename env) (Diagnostics st))"
  by (simp add: flush_list_def Let_def check_fixes_unfixed)

lemma flush_key_unfixed: "flush_key Main (unfixed D) = flush_key Main D"
  by (simp add: flush_key_def unfixed_def)

lemma flush_list_keys:
  "map (flush_key Main) (fst (flush_list env st)) =
   map (flush_key Main) (flush_order (MainSourceFilename env) (Diagnostics st))"
proof -
  have "map (flush_key Main) xs = map (flush_key Main) (map unfixed xs)" for xs
    by (simp add: flush_key_unfixed)
  then show ?thesis using flush_list_unfixed by metis
qed

lemma flush_list_sorted:
  "sorted (map (flush_key (MainSourceFilename env)) (fst (flush_list env st)))"
  unfolding flush_list_keys by (simp add: flush_order_def)

lemma shown_sorted:
  "sorted (map (flush_key (MainSourceFilename env)) (shown env (fst (flush_list env st))))"
  unfolding shown_def by (rule sorted_filter [OF flush_list_sorted])

lemma sorted_by_file:
  assumes "sorted (map (flush_key Main) ds)"
  shows "sorted (map (file_key Main) ds)"
  using assms unfolding sorted_map
  by (rule sorted_wrt_mono_rel [rotated]) (auto simp: flush_key_def file_key_def)

lemma sorted_map_dropWhile: "sorted (map k xs) \<Longrightarrow> sorted (map k (dropWhile P xs))"
  unfolding sorted_map by (subst dropWhile_eq_drop) (rule sorted_wrt_drop)

lemma sorted_map_takeWhile: "sorted (map k xs) \<Longrightarrow> sorted (map k (takeWhile P xs))"
  unfolding sorted_map by (subst takeWhile_eq_take) (rule sorted_wrt_take)

lemma batches_concat: "concat (batches ds) = ds"
  by (induction ds rule: batches.induct) simp_all

definition one_file :: "Diag list \<Rightarrow> bool" where
  "one_file B \<longleftrightarrow> B \<noteq> [] \<and> list_all (\<lambda>D. DFilename D = DFilename (hd B)) B"

lemma batches_shape: "list_all one_file (batches ds)"
proof (induction ds rule: batches.induct)
  case 1
  then show ?case by simp
next
  case (2 D Ds)
  have "list_all (\<lambda>E. DFilename E = DFilename D) (takeWhile (\<lambda>E. DFilename E = DFilename D) Ds)"
    unfolding list_all_iff by (blast dest: set_takeWhileD)
  then have "one_file (D # takeWhile (\<lambda>E. DFilename E = DFilename D) Ds)"
    unfolding one_file_def list.pred_inject list.sel by blast
  with 2 show ?case by simp
qed

lemma dropWhile_key_greater:
  fixes k :: "'a \<Rightarrow> 'b::linorder"
  assumes "sorted (map k (x # xs))" and "y \<in> set (dropWhile (\<lambda>z. k z = k x) xs)"
  shows "k x < k y"
proof -
  obtain z zs where d: "dropWhile (\<lambda>z. k z = k x) xs = z # zs" using assms(2) by (cases "dropWhile (\<lambda>z. k z = k x) xs") auto
  have z: "k z \<noteq> k x" using d hd_dropWhile [of "\<lambda>z. k z = k x" xs] by auto
  have s: "sorted (map k (z # zs))"
    using assms(1) sorted_map_dropWhile [of k xs "\<lambda>z. k z = k x"] d by simp
  have "z \<in> set xs" using d by (metis list.set_intros(1) set_dropWhileD)
  with assms(1) z have "k x < k z" by (simp add: order_less_le)
  moreover have "k z \<le> k y" using s assms(2) d by auto
  ultimately show ?thesis by simp
qed

lemma batches_files:
  assumes "sorted (map (file_key Main) ds)"
  shows "sorted (map (\<lambda>B. file_key Main (hd B)) (batches ds)) \<and>
    distinct (map (\<lambda>B. DFilename (hd B)) (batches ds))"
  using assms
proof (induction ds rule: batches.induct)
  case 1
  then show ?case by simp
next
  case (2 D Ds)
  let ?R = "dropWhile (\<lambda>E. DFilename E = DFilename D) Ds"
  have eq: "(\<lambda>E. DFilename E = DFilename D) = (\<lambda>E. file_key Main E = file_key Main D)"
    by (auto simp: file_key_def fun_eq_iff)
  have later: "file_key Main D < file_key Main E" if "E \<in> set ?R" for E
    using dropWhile_key_greater [of "file_key Main" D Ds E] 2(2) that eq by simp
  have "sorted (map (file_key Main) ?R)"
    using 2(2) by (simp add: sorted_map_dropWhile)
  then have ih: "sorted (map (\<lambda>B. file_key Main (hd B)) (batches ?R))"
      "distinct (map (\<lambda>B. DFilename (hd B)) (batches ?R))" using 2(1) by simp_all
  have hd_in: "hd B \<in> set ?R" if "B \<in> set (batches ?R)" for B
  proof -
    have "one_file B" using that batches_shape [of ?R] unfolding list_all_iff by blast
    then have "B \<noteq> []" by (simp add: one_file_def)
    then have "hd B \<in> set (concat (batches ?R))"
      unfolding set_concat using that hd_in_set by blast
    then show ?thesis by (simp add: batches_concat)
  qed
  show ?case
  proof
    show "sorted (map (\<lambda>B. file_key Main (hd B)) (batches (D # Ds)))"
      using ih(1) later hd_in by (auto intro: less_imp_le)
    show "distinct (map (\<lambda>B. DFilename (hd B)) (batches (D # Ds)))"
    proof -
      have ne: "DFilename (hd B) \<noteq> DFilename D" if b: "B \<in> set (batches ?R)" for B
      proof
        assume eq: "DFilename (hd B) = DFilename D"
        have "file_key Main D = file_key Main (hd B)" unfolding file_key_def eq by (rule refl)
        with less_imp_neq [OF later [OF hd_in [OF b]]] show False by (rule notE)
      qed
      have "DFilename D \<notin> (\<lambda>B. DFilename (hd B)) ` set (batches ?R)"
      proof
        assume "DFilename D \<in> (\<lambda>B. DFilename (hd B)) ` set (batches ?R)"
        then obtain B where "DFilename D = DFilename (hd B)" and "B \<in> set (batches ?R)" by (rule imageE)
        with ne show False by metis
      qed
      with ih(2) show ?thesis
        unfolding batches.simps list.map distinct.simps list.sel list.set_map by (intro conjI)
    qed
  qed
qed

lemma batches_sub: "list_all (\<lambda>B. sorted (map k B)) (batches ds)" if "sorted (map k ds)"
  using that
proof (induction ds rule: batches.induct)
  case 1
  then show ?case by simp
next
  case (2 D Ds)
  have "sorted (map k (takeWhile (\<lambda>E. DFilename E = DFilename D) Ds))"
    using 2(2) by (simp add: sorted_map_takeWhile)
  moreover have "sorted (map k (dropWhile (\<lambda>E. DFilename E = DFilename D) Ds))"
    using 2(2) by (simp add: sorted_map_dropWhile)
  moreover have "\<forall>E \<in> set (takeWhile (\<lambda>E. DFilename E = DFilename D) Ds). k D \<le> k E"
    using 2(2) by (auto dest: set_takeWhileD)
  ultimately show ?case using 2(1) by simp
qed

lemma flush_list_stable:
  "filter (\<lambda>D. flush_key Main D = k) (map unfixed (fst (flush_list env st))) =
   filter (\<lambda>D. flush_key Main D = k) (map unfixed (Diagnostics st))"
  if "Main = MainSourceFilename env"
  unfolding flush_list_unfixed that
  by (simp add: filter_map comp_def flush_key_unfixed flush_order_def sort_key_stable)

lemma flush_list_mset:
  "mset (map unfixed (fst (flush_list env st))) = mset (map unfixed (Diagnostics st))"
  unfolding flush_list_unfixed by (simp add: flush_order_def)


text \<open>The two counts of a header are those of the labels printed under it.\<close>

lemma counts_cover: "count_errors B + count_warnings B = length B"
  unfolding count_errors_def count_warnings_def
  using sum_length_filter_compl [of shown_as_warning B] by simp

section \<open>What a flush leaves\<close>

definition fix_budget :: "DiagState \<Rightarrow> bool" where
  "fix_budget st \<longleftrightarrow> FixChecks st \<le> MaxChecksPerCompile"

lemma checkCompilerFix_state:
  assumes "checkCompilerFix env D st = (D', st')"
  shows "Diagnostics st' = Diagnostics st" "ErrorLines st' = ErrorLines st"
    "CollectAll st' = CollectAll st" "SLMFired st' = SLMFired st" "Registry st' = Registry st"
    "ModelFixWritten st' = ModelFixWritten st" "FixFile st' = FixFile st"
    "fix_budget st \<Longrightarrow> fix_budget st'"
  using assms unfolding checkCompilerFix_def Let_def fix_budget_def
  by (auto split: if_splits option.splits)

lemma check_fixes_state:
  assumes "check_fixes env ds st = (ds', st')"
  shows "Diagnostics st' = Diagnostics st \<and> ErrorLines st' = ErrorLines st \<and>
    CollectAll st' = CollectAll st \<and> SLMFired st' = SLMFired st \<and> Registry st' = Registry st \<and>
    ModelFixWritten st' = ModelFixWritten st \<and> FixFile st' = FixFile st \<and>
    (fix_budget st \<longrightarrow> fix_budget st')"
  using assms
proof (induction env ds st arbitrary: ds' rule: check_fixes.induct)
  case (1 env st)
  then show ?case by simp
next
  case (2 env D Ds st)
  show ?case
  proof (cases "DFixChecked D \<or> FixIts (DHints D) = []")
    case True
    then obtain Ds' where "check_fixes env Ds st = (Ds', st')"
      using 2(3) by (auto split: prod.splits)
    from 2(1) [OF True this] show ?thesis .
  next
    case False
    obtain D1 st1 where c: "checkCompilerFix env D st = (D1, st1)" by fastforce
    with False obtain Ds' where r: "check_fixes env Ds st1 = (Ds', st')"
      using 2(3) by (auto split: prod.splits)
    from 2(2) [OF False c [symmetric] r] checkCompilerFix_state [OF c] show ?thesis by simp
  qed
qed

lemma flushAll_state:
  "Diagnostics (snd (flushAll env P st)) = []"
  "ErrorLines (snd (flushAll env P st)) = ErrorLines st"
  "CollectAll (snd (flushAll env P st)) = CollectAll st"
  "SLMFired (snd (flushAll env P st)) = SLMFired st"
  "Registry (snd (flushAll env P st)) = Registry st"
proof -
  obtain ds st1 where f: "flush_list env st = (ds, st1)" by fastforce
  then have s: "ErrorLines st1 = ErrorLines st \<and> CollectAll st1 = CollectAll st \<and>
      SLMFired st1 = SLMFired st \<and> Registry st1 = Registry st"
    unfolding flush_list_def Let_def using check_fixes_state by (auto split: if_splits)
  have w: "ErrorLines (writeCompilerFixes env ds s) = ErrorLines s \<and>
      CollectAll (writeCompilerFixes env ds s) = CollectAll s \<and>
      SLMFired (writeCompilerFixes env ds s) = SLMFired s \<and>
      Registry (writeCompilerFixes env ds s) = Registry s" for s
    by (simp add: writeCompilerFixes_def split: option.split prod.split)
  show "Diagnostics (snd (flushAll env P st)) = []"
    "ErrorLines (snd (flushAll env P st)) = ErrorLines st"
    "CollectAll (snd (flushAll env P st)) = CollectAll st"
    "SLMFired (snd (flushAll env P st)) = SLMFired st"
    "Registry (snd (flushAll env P st)) = Registry st"
    by (simp_all add: flushAll_def f s w Let_def)
qed

end
