(* ===== verification/DiagCascade.thy ===== *)
theory DiagCascade
  imports DiagFlush
begin

text \<open>
  The rules of \<open>DiagnosticEngine\<close> over whole runs: what one \<open>add\<close> may do to the list, the runs a
  compile makes of the engine's operations as a step relation, and the invariant of every run: an
  error keeps everything else off its line.
\<close>

section \<open>What one call records\<close>

record Report =
  RLoc :: SourceLocation
  RMsg :: string
  RHint :: string
  RWarn :: bool
  RRelated :: "RelatedLocation list"
  RCat :: ErrorCategory
  RCode :: string
  RHints :: DiagnosticHints

definition report :: "DiagEnv \<Rightarrow> Report \<Rightarrow> DiagState \<Rightarrow> DiagState" where
  "report env r st =
    add env (RLoc r) (RMsg r) (RHint r) (RWarn r) (RRelated r) (RCat r) (RCode r) (RHints r) st"

text \<open>The parts of a state the cascade rule looks at.\<close>

definition recorded :: "DiagState \<Rightarrow> Diag list \<times> int set \<times> bool" where
  "recorded st = (Diagnostics st, ErrorLines st, CollectAll st)"

definition records_at :: "int \<Rightarrow> string \<Rightarrow> DiagState \<Rightarrow> DiagState \<Rightarrow> bool" where
  "records_at l f st st' \<longleftrightarrow> CollectAll st' = CollectAll st \<and>
     (Diagnostics st' = Diagnostics st \<and> ErrorLines st' = ErrorLines st \<or>
      (\<exists>New. (CollectAll st \<or> l \<notin> ErrorLines st) \<and> Line (DLoc New) = l \<and> DFilename New = f \<and>
         Diagnostics st' = Diagnostics st @ [New] \<and>
         ErrorLines st' = (if DIsWarning New then ErrorLines st else insert l (ErrorLines st))))"

lemma records_at_recorded:
  assumes "recorded st = recorded st0" and "records_at l f st st'"
  shows "records_at l f st0 st'"
proof -
  from assms(1) have "Diagnostics st = Diagnostics st0" "ErrorLines st = ErrorLines st0"
      "CollectAll st = CollectAll st0" by (simp_all add: recorded_def)
  with assms(2) show ?thesis by (simp add: records_at_def cong: if_cong)
qed

lemma checkCompilerFix_keeps:
  assumes "checkCompilerFix env D st = (D', st')"
  shows "DLoc D' = DLoc D" "DIsWarning D' = DIsWarning D" "DFilename D' = DFilename D"
    "DCode D' = DCode D" "DMsg D' = DMsg D" "DDenied D' = DDenied D"
    "recorded st' = recorded st" "SLMFired st' = SLMFired st" "Registry st' = Registry st"
    "ModelFixWritten st' = ModelFixWritten st" "FixFile st' = FixFile st"
  using assms unfolding checkCompilerFix_def Let_def recorded_def
  by (auto split: if_splits option.splits)

lemma recorded_upd [simp]:
  "recorded (st\<lparr>SLMFired := b\<rparr>) = recorded st"
  "recorded (st\<lparr>FixFile := f\<rparr>) = recorded st"
  "recorded (st\<lparr>ModelFixWritten := b\<rparr>) = recorded st"
  "recorded (st\<lparr>Registry := R\<rparr>) = recorded st"
  by (simp_all add: recorded_def)

lemma augment_keeps:
  assumes "augment env New st = ((New', m), st')"
  shows "DLoc New' = DLoc New \<and> DIsWarning New' = DIsWarning New \<and>
    DFilename New' = DFilename New \<and> recorded st' = recorded st"
proof (cases "SLMFired st")
  case True
  with assms show ?thesis by (simp add: augment_def)
next
  case False
  obtain N1 s1 where c: "checkCompilerFix env New st = (N1, s1)" by fastforce
  note k = checkCompilerFix_keeps [OF c]
  have "New' = N1" using assms False c by (simp add: augment_def Let_def split: if_split_asm)
  moreover have "recorded st' = recorded s1"
    using assms False c by (auto simp: augment_def Let_def split: if_split_asm)
  ultimately show ?thesis using k by simp
qed

lemma record_diag_records:
  assumes "CollectAll st \<or> Line (DLoc New) \<notin> ErrorLines st"
  shows "records_at (Line (DLoc New)) (DFilename New) st (record_diag env New st)"
  using assms unfolding record_diag_def records_at_def Let_def by simp

definition probe_of :: "DiagEnv \<Rightarrow> Report \<Rightarrow> Diag" where
  "probe_of env r = \<lparr>DLoc = RLoc r, DMsg = RMsg r, DHint = RHint r, DIsWarning = RWarn r,
     DRelated = RRelated r, DCategory = RCat r,
     DFilename = (if LocFilename (RLoc r) = [] then SourceFilename env else LocFilename (RLoc r)),
     DCode = RCode r, DHints = RHints r, DFix = no_fix, DFixChecked = False, DDenied = False\<rparr>"

lemma report_admit:
  "report env r st =
    (case admit env (probe_of env r) st of
       (None, R) \<Rightarrow> st\<lparr>Registry := R\<rparr>
     | (Some New, R) \<Rightarrow> finish_diag env New (st\<lparr>Registry := R\<rparr>))"
  by (simp add: report_def add_def probe_of_def Let_def)

lemma admit_keeps:
  assumes "admit env Probe st = (Some New, R)"
  shows "DLoc New = DLoc Probe" "DFilename New = DFilename Probe" "DCode New = DCode Probe"
    "DMsg New = DMsg Probe"
    "CollectAll st \<or> Line (DLoc Probe) \<notin> ErrorLines st"
    "DIsWarning Probe \<Longrightarrow> \<not> DIsWarning New \<Longrightarrow> levelOf (Lints env) (DCode Probe) = LDeny"
  using assms unfolding admit_def Let_def apply_level_def
  by (auto split: prod.splits if_split_asm LintLevel.splits)

lemma report_cases:
  obtains (nothing) R where "report env r st = st\<lparr>Registry := R\<rparr>"
  | (recorded) New R where "admit env (probe_of env r) st = (Some New, R)"
      "report env r st = finish_diag env New (st\<lparr>Registry := R\<rparr>)"
proof (cases "admit env (probe_of env r) st")
  case (Pair o' R)
  show ?thesis
  proof (cases o')
    case None
    with Pair report_admit [of env r st] have "report env r st = st\<lparr>Registry := R\<rparr>" by simp
    then show ?thesis by (rule that(1))
  next
    case (Some New)
    with Pair report_admit [of env r st]
    have "report env r st = finish_diag env New (st\<lparr>Registry := R\<rparr>)" by simp
    with Pair Some show ?thesis by (intro that(2)) simp_all
  qed
qed

lemma finish_records:
  assumes "CollectAll st \<or> Line (DLoc New) \<notin> ErrorLines st"
  shows "records_at (Line (DLoc New)) (DFilename New) st (finish_diag env New st)"
proof (cases "AIEnabled env \<and> \<not> DIsWarning New")
  case True
  obtain New1 m s1 where a: "augment env New st = ((New1, m), s1)" by (metis prod.collapse)
  have k: "recorded s1 = recorded st" "DLoc New1 = DLoc New" "DFilename New1 = DFilename New"
    using augment_keeps [OF a] by blast+
  with assms have "CollectAll s1 \<or> Line (DLoc (New1\<lparr>DMsg := m\<rparr>)) \<notin> ErrorLines s1"
    by (auto simp: recorded_def)
  from records_at_recorded [OF k(1) record_diag_records [OF this]] True a k(2,3)
  show ?thesis by (simp add: finish_diag_def)
next
  case False
  with record_diag_records [OF assms] show ?thesis by (simp add: finish_diag_def if_not_P [OF False])
qed

lemma report_records:
  "records_at (Line (RLoc r)) (if LocFilename (RLoc r) = [] then SourceFilename env else LocFilename (RLoc r))
     st (report env r st)"
proof (cases rule: report_cases [of env r st])
  case (nothing R)
  then show ?thesis by (simp add: records_at_def)
next
  case (recorded New R)
  note k = admit_keeps [OF recorded(1)]
  let ?s = "st\<lparr>Registry := R\<rparr>"
  have "CollectAll ?s \<or> Line (DLoc New) \<notin> ErrorLines ?s" using k by simp
  from finish_records [OF this, of env] have "records_at (Line (DLoc New)) (DFilename New) st (finish_diag env New ?s)"
    by (rule records_at_recorded [rotated]) simp
  with k recorded(2) show ?thesis by (simp add: probe_of_def)
qed

section \<open>Runs\<close>

text \<open>
  What a caller holds to go back to: a mark (the monomorphizer), or a saved state (an isolated compile
  of the query facade). They are used last in, first out; between a mark and its rollback nothing is
  cleared, and only an isolated compile or an empty engine changes the collect-all switch.
\<close>

datatype Frame = FMark DiagMark | FState SavedState

definition leave :: "Frame \<Rightarrow> DiagState \<Rightarrow> DiagState" where
  "leave F st = (case F of FMark M \<Rightarrow> rollbackTo M st | FState S \<Rightarrow> restoreState S st)"

definition unmarked :: "Frame list \<Rightarrow> bool" where
  "unmarked Fs \<longleftrightarrow> (case Fs of FMark M # _ \<Rightarrow> False | _ \<Rightarrow> True)"

inductive engine_run :: "DiagState \<Rightarrow> Frame list \<Rightarrow> bool" where
  start: "engine_run diag_init []"
| report: "engine_run st Fs \<Longrightarrow> engine_run (report env r st) Fs"
| mark: "engine_run st Fs \<Longrightarrow> engine_run st (FMark (diag_mark st) # Fs)"
| keep: "engine_run st (FMark M # Fs) \<Longrightarrow> engine_run st Fs"
| rollback: "engine_run st (FMark M # Fs) \<Longrightarrow> engine_run (rollbackTo M st) Fs"
| save: "engine_run st Fs \<Longrightarrow> engine_run st (FState (saveState st) # Fs)"
| restore: "engine_run st (FState S # Fs) \<Longrightarrow> engine_run (restoreState S st) Fs"
| flush: "engine_run st Fs \<Longrightarrow> unmarked Fs \<Longrightarrow> engine_run (snd (flushAll env P st)) Fs"
| reset: "engine_run st Fs \<Longrightarrow> unmarked Fs \<Longrightarrow> engine_run (diag_reset st) Fs"
| clear: "engine_run st Fs \<Longrightarrow> unmarked Fs \<Longrightarrow> engine_run (clearDiagnostics st) Fs"
| collect: "engine_run st Fs \<Longrightarrow> unmarked Fs \<Longrightarrow> Diagnostics st = [] \<Longrightarrow>
    engine_run (st\<lparr>CollectAll := v\<rparr>) Fs"

inductive_cases engine_run_markE: "engine_run st (FMark M # Fs)"

section \<open>The invariant\<close>

definition error_lines :: "Diag list \<Rightarrow> int set" where
  "error_lines ds = {Line (DLoc D) | D. D \<in> set ds \<and> \<not> DIsWarning D}"

text \<open>Nothing follows an error on the line of the error.\<close>

definition cascade_free :: "Diag list \<Rightarrow> bool" where
  "cascade_free ds \<longleftrightarrow>
    sorted_wrt (\<lambda>A B. \<not> DIsWarning A \<longrightarrow> Line (DLoc B) \<noteq> Line (DLoc A)) ds"

definition diag_ok :: "DiagState \<Rightarrow> bool" where
  "diag_ok st \<longleftrightarrow> error_lines (Diagnostics st) \<subseteq> ErrorLines st \<and>
     (\<not> CollectAll st \<longrightarrow> cascade_free (Diagnostics st))"

fun frames_ok :: "Frame list \<Rightarrow> DiagState \<Rightarrow> bool" where
  "frames_ok [] st \<longleftrightarrow> diag_ok st"
| "frames_ok (F # Fs) st \<longleftrightarrow> diag_ok st \<and> frames_ok Fs (leave F st) \<and>
     (case F of FMark M \<Rightarrow> MarkCount M \<le> length (Diagnostics st) | FState S \<Rightarrow> True)"

lemma error_lines_append: "error_lines (a @ b) = error_lines a \<union> error_lines b"
  by (auto simp: error_lines_def)

lemma error_lines_one: "error_lines [D] = (if DIsWarning D then {} else {Line (DLoc D)})"
  by (auto simp: error_lines_def)

lemma error_lines_Nil [simp]: "error_lines [] = {}"
  by (simp add: error_lines_def)

lemma frames_ok_diag_ok: "frames_ok Fs st \<Longrightarrow> diag_ok st"
  by (cases Fs) simp_all

lemma diag_ok_cong: "recorded st = recorded st' \<Longrightarrow> diag_ok st = diag_ok st'"
  by (simp add: diag_ok_def recorded_def)

lemma leave_cong: "recorded st = recorded st' \<Longrightarrow> recorded (leave F st) = recorded (leave F st')"
  by (cases F) (simp_all add: leave_def rollbackTo_def restoreState_def recorded_def)

lemma frames_ok_cong: "recorded st = recorded st' \<Longrightarrow> frames_ok Fs st = frames_ok Fs st'"
proof (induction Fs arbitrary: st st')
  case Nil
  show ?case unfolding frames_ok.simps by (rule diag_ok_cong [OF Nil])
next
  case (Cons F Fs)
  have "Diagnostics st = Diagnostics st'" using Cons.prems by (simp add: recorded_def)
  with Cons.IH [OF leave_cong [OF Cons.prems]] diag_ok_cong [OF Cons.prems] show ?case
    by (simp split: Frame.split)
qed

lemma diag_ok_add:
  assumes "diag_ok st" and "records_at l f st st'"
  shows "diag_ok st'"
proof (cases "Diagnostics st' = Diagnostics st \<and> ErrorLines st' = ErrorLines st")
  case True
  with assms have "recorded st' = recorded st" by (simp add: records_at_def recorded_def)
  from diag_ok_cong [OF this] assms(1) show ?thesis by (rule iffD2)
next
  case False
  with assms(2) obtain New where n: "CollectAll st \<or> l \<notin> ErrorLines st" "Line (DLoc New) = l"
      "Diagnostics st' = Diagnostics st @ [New]"
      "ErrorLines st' = (if DIsWarning New then ErrorLines st else insert l (ErrorLines st))"
      "CollectAll st' = CollectAll st"
    unfolding records_at_def by blast
  have "error_lines (Diagnostics st') \<subseteq> ErrorLines st'"
    using assms(1) n by (auto simp: diag_ok_def error_lines_append error_lines_one)
  moreover have "cascade_free (Diagnostics st')" if c: "\<not> CollectAll st'"
  proof -
    from c n assms(1) have "l \<notin> error_lines (Diagnostics st)" "cascade_free (Diagnostics st)"
      by (auto simp: diag_ok_def)
    with n show ?thesis by (auto simp: cascade_free_def sorted_wrt_append error_lines_def)
  qed
  ultimately show ?thesis by (simp add: diag_ok_def)
qed

lemma leave_add:
  assumes "records_at l f st st'"
    and "case F of FMark M \<Rightarrow> MarkCount M \<le> length (Diagnostics st) | FState S \<Rightarrow> True"
  shows "recorded (leave F st') = recorded (leave F st)"
  using assms
  by (cases F) (auto simp: records_at_def leave_def rollbackTo_def restoreState_def recorded_def)

lemma frames_ok_add:
  assumes "frames_ok Fs st" and "records_at l f st st'"
  shows "frames_ok Fs st'"
proof (cases Fs)
  case Nil
  with assms show ?thesis by (simp add: diag_ok_add)
next
  case (Cons F Gs)
  with assms(1) have F: "case F of FMark M \<Rightarrow> MarkCount M \<le> length (Diagnostics st) | FState S \<Rightarrow> True"
    by simp
  from assms(2) have "length (Diagnostics st) \<le> length (Diagnostics st')"
    by (auto simp: records_at_def)
  with F have "case F of FMark M \<Rightarrow> MarkCount M \<le> length (Diagnostics st') | FState S \<Rightarrow> True"
    by (auto split: Frame.splits)
  with assms Cons diag_ok_add [OF _ assms(2)] frames_ok_cong [OF leave_add [OF assms(2) F]]
  show ?thesis by (simp del: split_paired_All)
qed

text \<open>Dropping a mark: what is below it was recorded before it.\<close>

lemma frames_ok_keep:
  assumes "frames_ok (FMark M # Fs) st"
  shows "frames_ok Fs st"
proof (cases Fs)
  case Nil
  with assms show ?thesis by simp
next
  case (Cons F Gs)
  from assms have d: "diag_ok st" and m: "MarkCount M \<le> length (Diagnostics st)"
      and r: "frames_ok Fs (rollbackTo M st)" by (simp_all add: leave_def)
  show ?thesis
  proof (cases F)
    case (FMark M')
    with r Cons m have le: "MarkCount M' \<le> MarkCount M" by (simp add: rollbackTo_def)
    then have "recorded (leave F (rollbackTo M st)) = recorded (leave F st)"
      by (simp add: FMark leave_def rollbackTo_def recorded_def min_absorb1)
    from frames_ok_cong [OF this, of Gs] r Cons have "frames_ok Gs (leave F st)" by simp
    with d le m show ?thesis by (simp add: Cons FMark)
  next
    case (FState S)
    then have "recorded (leave F (rollbackTo M st)) = recorded (leave F st)"
      by (simp add: leave_def rollbackTo_def restoreState_def recorded_def)
    from frames_ok_cong [OF this, of Gs] r Cons have "frames_ok Gs (leave F st)" by simp
    with d show ?thesis by (simp add: Cons FState)
  qed
qed

lemma frames_ok_unmarked:
  assumes "frames_ok Fs st" and "unmarked Fs" and "diag_ok st'"
  shows "frames_ok Fs st'"
proof (cases Fs)
  case Nil
  with assms show ?thesis by simp
next
  case (Cons F Gs)
  with assms(2) obtain S where F: "F = FState S" by (cases F) (auto simp: unmarked_def)
  have "recorded (leave F st') = recorded (leave F st)"
    by (simp add: F leave_def restoreState_def recorded_def)
  from frames_ok_cong [OF this, of Gs] assms(1) Cons have "frames_ok Gs (leave F st')" by simp
  with assms(3) F Cons show ?thesis by simp
qed

lemma engine_run_ok: "engine_run st Fs \<Longrightarrow> frames_ok Fs st"
proof (induction rule: engine_run.induct)
  case start
  then show ?case by (simp add: diag_ok_def diag_init_def cascade_free_def)
next
  case (report st Fs env r)
  then show ?case using report_records frames_ok_add by blast
next
  case (mark st Fs)
  have "recorded (leave (FMark (diag_mark st)) st) = recorded st"
    by (simp add: leave_def rollbackTo_def diag_mark_def recorded_def)
  from frames_ok_cong [OF this, of Fs] mark(2) have "frames_ok Fs (leave (FMark (diag_mark st)) st)" by simp
  with frames_ok_diag_ok [OF mark(2)] show ?case by (simp add: diag_mark_def)
next
  case (keep st M Fs)
  then show ?case by (blast intro: frames_ok_keep)
next
  case (rollback st M Fs)
  then show ?case by (simp add: leave_def)
next
  case (save st Fs)
  have "recorded (leave (FState (saveState st)) st) = recorded st"
    by (simp add: leave_def restoreState_def saveState_def recorded_def)
  from frames_ok_cong [OF this, of Fs] save(2) have "frames_ok Fs (leave (FState (saveState st)) st)" by simp
  with frames_ok_diag_ok [OF save(2)] show ?case by simp
next
  case (restore st S Fs)
  then show ?case by (simp add: leave_def)
next
  case (flush st Fs env P)
  have "diag_ok (snd (flushAll env P st))"
    by (simp add: diag_ok_def flushAll_state cascade_free_def)
  with flush show ?case by (blast intro: frames_ok_unmarked)
next
  case (reset st Fs)
  have "diag_ok (diag_reset st)" by (simp add: diag_ok_def diag_reset_def cascade_free_def)
  with reset show ?case by (blast intro: frames_ok_unmarked)
next
  case (clear st Fs)
  have "diag_ok (clearDiagnostics st)" by (simp add: diag_ok_def clearDiagnostics_def cascade_free_def)
  with clear show ?case by (blast intro: frames_ok_unmarked)
next
  case (collect st Fs v)
  then have "diag_ok (st\<lparr>CollectAll := v\<rparr>)" by (simp add: diag_ok_def cascade_free_def)
  with collect show ?case by (blast intro: frames_ok_unmarked)
qed

end
