(* ===== verification/DiagRules.thy ===== *)
theory DiagRules
  imports DiagCascade
begin

text \<open>
  What the diagnostic engine promises its callers, over every run of \<open>DiagCascade\<close>: the cascade rule,
  the bound on fix checks, what a rollback takes back, when the model is asked, how the lint levels
  act, and the text of raw parser errors (\<open>LogErrorAt\<close>).
\<close>

section \<open>Concrete inputs\<close>

text \<open>An environment with nothing switched on, and an error report without extras, for examples.\<close>

definition plain_env :: DiagEnv where
  "plain_env = \<lparr>SourceFilename = ''a.tr'', MainSourceFilename = ''a.tr'', AllSourceLines = (\<lambda>f. None),
     AIEnabled = False, SmartFixOutPath = [], ShowStdlibWarnings = False, IsLibStd = (\<lambda>f. False),
     Lints = lint_reset, FixEnabled = False, FixPasses = (\<lambda>F f c l. False),
     Suggest = (\<lambda>D. \<lparr>ai_valid = False, ai_confident = False, ai_mode = [], ai_comment = [],
       ai_explanation = [], ai_warning = [], ai_patch = [], ai_applied = []\<rparr>)\<rparr>"

definition plain_report :: "string \<Rightarrow> int \<Rightarrow> string \<Rightarrow> Report" where
  "plain_report file line msg = \<lparr>RLoc = (loc3 line 1 file), RMsg = msg, RHint = [], RWarn = False,
     RRelated = [], RCat = GENERAL, RCode = ''E001'', RHints = no_hints\<rparr>"

section \<open>The cascade rule\<close>



text \<open>
  The rule looks at line numbers only: an error at some line of one file hides an error at the
  same line number of another file, which is never reported.
\<close>

theorem error_hides_other_file:
  "map (\<lambda>D. (DFilename D, DMsg D)) (Diagnostics
     (report plain_env (plain_report ''main.tr'' 5 ''second'')
       (report plain_env (plain_report ''lib.tr'' 5 ''first'') diag_init))) = [(''lib.tr'', ''first'')]"
  by code_simp

section \<open>Marks\<close>

lemma reports_prefix:
  "\<exists>new. Diagnostics (fold (\<lambda>(env, r). report env r) rs st) = Diagnostics st @ new \<and>
     CollectAll (fold (\<lambda>(env, r). report env r) rs st) = CollectAll st"
proof (induction rs arbitrary: st)
  case Nil
  then show ?case by simp
next
  case (Cons x rs)
  obtain env r where x: "x = (env, r)" by fastforce
  obtain l f where "records_at l f st (report env r st)" using report_records by blast
  then obtain n1 where "Diagnostics (report env r st) = Diagnostics st @ n1"
      "CollectAll (report env r st) = CollectAll st"
    by (auto simp: records_at_def)
  with Cons.IH [of "report env r st"] show ?case by (auto simp: x)
qed

text \<open>
  C36. Rolling back to a mark takes back exactly what was reported after it: the list, the error lines
  and the model's turn are those of the mark, whatever reports came in between and in which
  environments.
\<close>

theorem rollback_takes_back_reports:
  "let st' = rollbackTo (diag_mark st) (fold (\<lambda>(env, r). report env r) rs st)
   in Diagnostics st' = Diagnostics st \<and> ErrorLines st' = ErrorLines st \<and>
      SLMFired st' = SLMFired st \<and> CollectAll st' = CollectAll st"
  using reports_prefix [of rs st] by (auto simp: Let_def rollbackTo_def diag_mark_def)

section \<open>Fix checks\<close>

lemma augment_budget: "fix_budget st \<Longrightarrow> augment env New st = (r, st') \<Longrightarrow> fix_budget st'"
proof -
  assume b: "fix_budget st" and a: "augment env New st = (r, st')"
  obtain N1 s1 where c: "checkCompilerFix env New st = (N1, s1)" by fastforce
  from checkCompilerFix_state(8) [OF c b] b a c show ?thesis
    by (auto simp: augment_def Let_def fix_budget_def split: if_split_asm)
qed

lemma record_diag_budget: "fix_budget (record_diag env New st) = fix_budget st"
  by (simp add: record_diag_def fix_budget_def Let_def)

lemma report_budget: "fix_budget st \<Longrightarrow> fix_budget (report env r st)"
proof -
  assume b: "fix_budget st"
  have r: "fix_budget (st\<lparr>Registry := R\<rparr>)" for R using b by (simp add: fix_budget_def)
  show ?thesis
  proof (cases rule: report_cases [of env r st])
    case (nothing R)
    with r show ?thesis by simp
  next
    case (recorded New R)
    let ?s = "st\<lparr>Registry := R\<rparr>"
    obtain N m s1 where x: "augment env New ?s = ((N, m), s1)" by (metis prod.collapse)
    show ?thesis
      using augment_budget [OF r x] r recorded(2) by (simp add: finish_diag_def x record_diag_budget)
  qed
qed

lemma flushAll_budget: "fix_budget st \<Longrightarrow> fix_budget (snd (flushAll env P st))"
proof -
  assume b: "fix_budget st"
  obtain ds st1 where f: "flush_list env st = (ds, st1)" by fastforce
  have "fix_budget st1"
    using f b check_fixes_state by (auto simp: flush_list_def Let_def split: if_split_asm)
  then show ?thesis
    by (simp add: flushAll_def f fix_budget_def Let_def writeCompilerFixes_def split: option.split prod.split)
qed

text \<open>
  However a compile uses the engine, at most \<open>MaxChecksPerCompile\<close> (ten) fixes are checked: no
  reset, rollback or restored state gives the budget back.
\<close>

theorem at_most_ten_fix_checks:
  assumes "engine_run st Fs"
  shows "FixChecks st \<le> 10"
proof -
  have "fix_budget st"
    using assms
  proof (induction rule: engine_run.induct)
    case start
    then show ?case by (simp add: fix_budget_def diag_init_def)
  next
    case (report st Fs env r)
    then show ?case by (simp add: report_budget)
  next
    case (flush st Fs env P)
    then show ?case by (simp add: flushAll_budget)
  qed (simp_all add: fix_budget_def rollbackTo_def restoreState_def diag_reset_def clearDiagnostics_def)
  then show ?thesis by (simp add: fix_budget_def MaxChecksPerCompile_def)
qed

lemma at_most_ten_fix_checks_witness:
  "FixChecks (diag_reset (report plain_env (plain_report ''a.tr'' 5 ''m'') diag_init)) \<le> 10"
proof -
  have "engine_run (diag_reset (report plain_env (plain_report ''a.tr'' 5 ''m'') diag_init)) []"
    by (rule engine_run.reset [OF engine_run.report [OF engine_run.start]]) (simp add: unmarked_def)
  then show ?thesis by (rule at_most_ten_fix_checks)
qed

section \<open>When the model is asked\<close>

definition asks_model :: "DiagEnv \<Rightarrow> Report \<Rightarrow> DiagState \<Rightarrow> bool" where
  "asks_model env r st \<longleftrightarrow> AIEnabled env \<and> \<not> SLMFired st \<and>
     (RWarn r \<longrightarrow> levelOf (Lints env) (RCode r) = LDeny)"

lemma augment_fired: "SLMFired st \<Longrightarrow> augment (env\<lparr>Suggest := g\<rparr>) New st = augment env New st"
  by (simp add: augment_def)

lemma record_diag_Suggest: "record_diag (env\<lparr>Suggest := g\<rparr>) New st = record_diag env New st"
  by (simp add: record_diag_def cong: if_cong)

lemma admit_Suggest: "admit (env\<lparr>Suggest := g\<rparr>) D st = admit env D st"
  by (simp add: admit_def apply_level_def cong: if_cong LintLevel.case_cong)

lemma finish_Suggest:
  assumes "\<not> AIEnabled env \<or> DIsWarning New \<or> SLMFired st"
  shows "finish_diag (env\<lparr>Suggest := g\<rparr>) New st = finish_diag env New st"
proof (cases "AIEnabled env \<and> \<not> DIsWarning New")
  case True
  with assms have "SLMFired st" by simp
  then show ?thesis by (simp add: finish_diag_def augment_fired record_diag_Suggest cong: if_cong prod.case_cong)
next
  case False
  then have "\<not> (AIEnabled (env\<lparr>Suggest := g\<rparr>) \<and> \<not> DIsWarning New)" by simp
  from if_not_P [OF this] if_not_P [OF False] show ?thesis
    unfolding finish_diag_def record_diag_Suggest by (rule trans [OF _ sym])
qed

text \<open>
  The model is asked for errors only (a denied warning is one), only with \<open>--smart\<close>, and never
  again once it or the compiler's own fix has taken its turn: in every other case its answer has no
  influence on what is recorded.
\<close>

theorem model_has_no_say:
  assumes "\<not> asks_model env r st"
  shows "report (env\<lparr>Suggest := g\<rparr>) r st = report env r st"
proof -
  have probe: "probe_of (env\<lparr>Suggest := g\<rparr>) r = probe_of env r" by (simp add: probe_of_def)
  have *: "report (env\<lparr>Suggest := g\<rparr>) r st =
      (case admit env (probe_of env r) st of
         (None, R) \<Rightarrow> st\<lparr>Registry := R\<rparr>
       | (Some New, R) \<Rightarrow> finish_diag (env\<lparr>Suggest := g\<rparr>) New (st\<lparr>Registry := R\<rparr>))"
    unfolding report_admit probe admit_Suggest by (rule refl)
  show ?thesis
  proof (cases "admit env (probe_of env r) st")
    case (Pair o' R)
    show ?thesis
    proof (cases o')
      case None
      with Pair * show ?thesis by (simp add: report_admit)
    next
      case (Some New)
      with Pair have a: "admit env (probe_of env r) st = (Some New, R)" by simp
      have "\<not> AIEnabled env \<or> DIsWarning New \<or> SLMFired (st\<lparr>Registry := R\<rparr>)"
        using assms admit_keeps(6) [OF a] by (auto simp: asks_model_def probe_of_def)
      from finish_Suggest [OF this, of g] * a show ?thesis by (simp add: report_admit)
    qed
  qed
qed

lemma model_has_no_say_witness:
  "\<forall>g. report (plain_env\<lparr>AIEnabled := True, Suggest := g\<rparr>) ((plain_report ''a.tr'' 5 ''m'')\<lparr>RWarn := True\<rparr>) diag_init =
   report (plain_env\<lparr>AIEnabled := True\<rparr>) ((plain_report ''a.tr'' 5 ''m'')\<lparr>RWarn := True\<rparr>) diag_init"
proof
  fix g
  let ?env = "plain_env\<lparr>AIEnabled := True\<rparr>" and ?r = "(plain_report ''a.tr'' 5 ''m'')\<lparr>RWarn := True\<rparr>"
  have "levelOf lint_reset c \<noteq> LDeny" for c
    by (simp add: levelOf_def levelOfSince_def lint_reset_def)
  then have "\<not> asks_model ?env ?r diag_init" by (simp add: asks_model_def plain_env_def)
  from model_has_no_say [OF this, of g]
  show "report (plain_env\<lparr>AIEnabled := True, Suggest := g\<rparr>) ?r diag_init = report ?env ?r diag_init" by simp
qed

definition moody_model :: "Diag \<Rightarrow> AISuggestion" where
  "moody_model D = \<lparr>ai_valid = (DMsg D = ''second''), ai_confident = True, ai_mode = ''EXPLAIN'',
     ai_comment = ''c'', ai_explanation = [], ai_warning = [], ai_patch = [], ai_applied = []\<rparr>"

text \<open>
  A rejected answer does not use up the turn: after an error whose suggestion was not accepted, the
  next error of the same pass is sent to the model again, and its message is replaced by the answer.
\<close>

theorem rejected_answer_asks_again:
  "let env = plain_env\<lparr>AIEnabled := True, Suggest := moody_model\<rparr>;
       st = report env (plain_report ''a.tr'' 5 ''first'') diag_init
   in \<not> SLMFired st \<and>
      map DMsg (Diagnostics (report env (plain_report ''a.tr'' 7 ''second'') st)) =
        [''first'', BOLD @ BRIGHT_CYAN @ ''[Model Suggestion]'' @ RESET @ ''  c'']"
  by code_simp

section \<open>Levels\<close>

text \<open>The environment of a build with these lint options, without a test and without the model.\<close>

definition lint_build :: "LintOption list \<Rightarrow> DiagEnv \<Rightarrow> DiagEnv" where
  "lint_build opts env = env\<lparr>Lints := apply_options opts lint_reset, AIEnabled := False\<rparr>"

lemma last_choice_Some_nonempty:
  "last_choice (chosen_level c) opts = Some l \<Longrightarrow> Explicit (apply_options opts lint_reset) \<noteq> []"
  using apply_options_state(1) [of opts c] by auto

text \<open>
  A warning fails a build exactly when the last accepted level option for its code is \<open>deny\<close> and
  it is not anchored in the standard library (unless library warnings are shown): for a warning
  outside every test, new at its place, in a build without errors so far.
\<close>

theorem deny_fails_the_build:
  assumes "RWarn r" and "RCode r \<noteq> []" and "RMode (Registry st) = Raw" and "\<not> hasErrors st"
    and "\<not> list_ex (same_warning (probe_of env r)) (Diagnostics st)"
  shows "hasErrors (report (lint_build opts env) r st) \<longleftrightarrow>
    last_choice (chosen_level (RCode r)) opts = Some LDeny \<and>
    (ShowStdlibWarnings env \<or> \<not> IsLibStd env (DFilename (probe_of env r)))"
proof -
  let ?env = "lint_build opts env" and ?D = "probe_of env r"
  have D: "probe_of ?env r = ?D" "DIsWarning ?D" "DCode ?D = RCode r" using assms(1)
    by (simp_all add: lint_build_def probe_of_def)
  have ai: "AIEnabled ?env = False" by (simp add: lint_build_def)
  have own: "swallowWarning M (Registry st) ?D = False" "ownsWarning (Registry st) ?D = False" for M
    using assms(3) by (simp_all add: swallowWarning_def ownsWarning_def)
  have line: "Line (DLoc ?D) \<notin> ErrorLines st" using assms(4) by (simp add: hasErrors_def)
  have level: "levelOf (Lints ?env) (RCode r) = LDeny \<longleftrightarrow>
      last_choice (chosen_level (RCode r)) opts = Some LDeny"
    by (simp add: lint_build_def level_rule split: option.split)
  have none: "anySet (Lints ?env)" if "last_choice (chosen_level (RCode r)) opts = Some LDeny"
    using last_choice_Some_nonempty [OF that] by (simp add: anySet_def lint_build_def)
  have adm: "admit ?env ?D st =
      (map_option (\<lambda>(w, d). ?D\<lparr>DIsWarning := w, DDenied := d\<rparr>) (apply_level ?env False ?D), Registry st)"
    using D own line by (simp add: admit_def Let_def)
  have warn: "hasErrors (record_diag ?env (?D\<lparr>DIsWarning := True, DDenied := False\<rparr>) st) = hasErrors st"
    by (simp add: record_diag_def hasErrors_def Let_def)
  have same: "list_ex (same_warning (?D\<lparr>DIsWarning := w, DDenied := d\<rparr>)) (Diagnostics st) = False" for w d
    using assms(5) by (simp add: same_warning_def [abs_def] list_ex_iff)
  show ?thesis
  proof (cases "last_choice (chosen_level (RCode r)) opts = Some LDeny")
    case True
    then have "apply_level ?env False ?D = Some (if ShowStdlibWarnings env \<or> \<not> IsLibStd env (DFilename ?D)
        then (False, True) else (True, False))"
      using level none D assms(2) by (simp add: apply_level_def lint_build_def)
    then show ?thesis
      using True assms(4) same
      by (simp add: report_admit D adm finish_diag_def record_diag_def hasErrors_def Let_def ai)
  next
    case False
    with level have "levelOf (Lints ?env) (RCode r) \<noteq> LDeny" by blast
    then have "apply_level ?env False ?D = None \<or> apply_level ?env False ?D = Some (True, False)"
      using D assms(2) by (cases "levelOf (Lints ?env) (RCode r)") (simp_all add: apply_level_def)
    then show ?thesis
      using False assms(4)
      by (auto simp: report_admit D adm finish_diag_def warn)
  qed
qed

lemma deny_fails_the_build_witness:
  "hasErrors (report (lint_build [Level ''e163'' LDeny] plain_env)
     ((plain_report ''a.tr'' 5 ''m'')\<lparr>RWarn := True, RCode := ''E163''\<rparr>)
     (diag_init\<lparr>Registry := \<lparr>RMode = Raw, Tests = [], LastErrorCaptured = False\<rparr>\<rparr>))"
proof -
  let ?r = "(plain_report ''a.tr'' 5 ''m'')\<lparr>RWarn := True, RCode := ''E163''\<rparr>"
    and ?st = "diag_init\<lparr>Registry := \<lparr>RMode = Raw, Tests = [], LastErrorCaptured = False\<rparr>\<rparr>"
  have r: "RWarn ?r" "RCode ?r \<noteq> []" "RMode (Registry ?st) = Raw" "\<not> hasErrors ?st"
      "\<not> list_ex (same_warning (probe_of plain_env ?r)) (Diagnostics ?st)"
    by (simp_all add: hasErrors_def diag_init_def)
  have "lookupByCode ''E163'' =
      Some (row4 ''E163'' ''UnusedVariableWarning'' ''Unused variable'' CONTROL_FLOW)"
    by (simp add: lookupByCode_Some_iff AllErrorCodes_def AllErrorCodes_3_def)
  then have "warning_code ''E163''"
    by (simp add: warning_code_def isWarningCode_def row4_def row6_def Let_def)
  moreover have "map toupper ''e163'' = ''E163''" "code_shaped ''E163''" by code_simp+
  ultimately have "last_choice (chosen_level (RCode ?r)) [Level ''e163'' LDeny] = Some LDeny"
    by (simp add: chosen_level_def)
  with deny_fails_the_build [OF r, of "[Level ''e163'' LDeny]"] show ?thesis by (simp add: plain_env_def)
qed

end
