(* ===== verification/DiagLog.thy ===== *)
theory DiagLog
  imports DiagRules
begin

text \<open>
  \<open>LogErrorAt\<close> (\<open>src/src/frontend/Lexer.cpp\<close>): the raw path of the parser into the engine, which adds
  the hint of a code to a message that has none. What the theorem shows: an error of one of these
  codes never reaches the reader without a hint.
\<close>

section \<open>The hint of a code\<close>

definition log_hint :: "string \<Rightarrow> string \<Rightarrow> string option" where
  "log_hint C Msg =
    (if C = ErrCode_MissingSemicolon then
       Some (''End the statement with '' @ [CHR 0x27] @ '';'' @ [CHR 0x27] @
         '' right after its last token, e.g. `x = x + 1;` or `return 0;`.'')
     else if C = ErrCode_UnexpectedToken \<and> starts_with (''Unexpected '' @ [CHR 0x27] @ '';'' @ [CHR 0x27]) Msg then
       Some (''Remove the extra '' @ [CHR 0x27] @ '';'' @ [CHR 0x27] @
         '' -- a statement ends with exactly one.'')
     else if C = ErrCode_UnexpectedToken then
       Some (''Remove the token the arrow points at, or write what belongs there: a '' @
         ''value, a name, or a complete statement.'')
     else if C = ErrCode_MissingComma then
       Some (''Put a '' @ [CHR 0x27] @ '','' @ [CHR 0x27] @
         '' between the items of the list, e.g. `a, b, c`, and close it with the '' @
         ''matching bracket.'')
     else if C = ErrCode_MissingColon then
       Some (''Put a '' @ [CHR 0x27] @ '':'' @ [CHR 0x27] @
         '' there: a name is followed by its type (`x: int`) and a function'' @ [CHR 0x27] @
         ''s parameter list by its return type (`): int`).'')
     else if C = ErrCode_MissingOpeningDelimiter then
       Some (''Open the block with '' @ [CHR 0x27] @ ''{'' @ [CHR 0x27] @ '' (or the list with '' @
         [CHR 0x27] @ ''('' @ [CHR 0x27] @ '') at the spot the arrow points to.'')
     else if C = ErrCode_ExpectedName then
       Some (''Write a name there: a letter or '' @ [CHR 0x27] @ ''_'' @ [CHR 0x27] @
         '' followed by letters, digits or '' @ [CHR 0x27] @ ''_'' @ [CHR 0x27] @
         '', e.g. `total`.'')
     else if C = ErrCode_ExpectedKeyword then
       Some (''Write the keyword the message names at the spot the arrow points to.'')
     else if C = ErrCode_InvalidOperatorDeclaration then
       Some (''Declare it with the parameter count its operator allows, e.g. '' @
         ''`operator +(a: T, b: T): T { ... }`.'')
     else if C = ErrCode_ExternFunctionBody then
       Some (''End an `extern fn` declaration with '' @ [CHR 0x27] @ '';'' @ [CHR 0x27] @
         '' and no body, or drop `extern` to write the body in Turf.'')
     else if C = ErrCode_StatementOutsideFunction then
       Some (''Move the statement into a function body, e.g. `fn main(): int { ... '' @
         ''return 0; }`.'')
     else if C = ErrCode_InvalidArraySize then
       Some (''Give the array a whole-number size of at least 1, e.g. `int[3]`.'')
     else if C = ErrCode_MissingInitializer then
       Some (''Give the variable its value on the spot: `mut x: int = 5;`.'')
     else if C = ErrCode_SizeParameter then
       Some (''Declare `N: size` only on a free function, e.g. `fn<T, N: size> '' @
         ''first(a: T[N]): T`; not on an operator, a method or a struct.'')
     else None)"

definition log_text :: "string \<Rightarrow> string \<Rightarrow> string" where
  "log_text C Msg =
    (if \<not> isMessageWarning Msg \<and> \<not> contains ''Hint:'' Msg then
       (case log_hint C Msg of
          Some H \<Rightarrow> Msg @ [CHR 0x0A] @ ''  Hint: '' @ H
        | None \<Rightarrow> Msg)
     else Msg)"

definition LogErrorAt ::
    "DiagEnv \<Rightarrow> SourceLocation \<Rightarrow> string \<Rightarrow> string \<Rightarrow> ErrorCategory \<Rightarrow> DiagnosticHints \<Rightarrow> DiagState \<Rightarrow> DiagState" where
  "LogErrorAt env Loc C Msg cat Hints st =
    add env Loc (log_text C Msg) [] (isMessageWarning Msg) [] cat C Hints st"

section \<open>Every one has a hint\<close>

definition hinted_codes :: "string list" where
  "hinted_codes = [ErrCode_MissingSemicolon, ErrCode_UnexpectedToken, ErrCode_MissingComma,
    ErrCode_MissingColon, ErrCode_MissingOpeningDelimiter, ErrCode_ExpectedName,
    ErrCode_ExpectedKeyword, ErrCode_InvalidOperatorDeclaration, ErrCode_ExternFunctionBody,
    ErrCode_StatementOutsideFunction, ErrCode_InvalidArraySize, ErrCode_MissingInitializer,
    ErrCode_SizeParameter]"

lemma log_hint_Some: "C \<in> set hinted_codes \<Longrightarrow> log_hint C Msg \<noteq> None"
  by (auto simp: hinted_codes_def log_hint_def)

lemma log_text_hint:
  assumes "C \<in> set hinted_codes" and "\<not> isMessageWarning Msg"
  shows "contains ''Hint:'' (log_text C Msg)"
proof (cases "contains ''Hint:'' Msg")
  case True
  then show ?thesis by (simp add: log_text_def)
next
  case False
  obtain H where "log_hint C Msg = Some H" using log_hint_Some [OF assms(1)] by blast
  with False assms(2) have "log_text C Msg = (Msg @ [CHR 0x0A] @ ''  '') @ ''Hint:'' @ ('' '' @ H)"
    by (simp add: log_text_def)
  then show ?thesis unfolding contains_iff by blast
qed

lemma recorded_msg:
  assumes "\<not> AIEnabled env" and "D \<in> set (Diagnostics (report env r st))" and "D \<notin> set (Diagnostics st)"
  shows "DMsg D = RMsg r"
proof (cases rule: report_cases [of env r st])
  case (nothing R)
  with assms show ?thesis by simp
next
  case (recorded New R)
  from admit_keeps(4) [OF recorded(1)] have "DMsg New = RMsg r" by (simp add: probe_of_def)
  with assms recorded(2) show ?thesis
    by (auto simp: finish_diag_def record_diag_def Let_def split: if_split_asm)
qed

text \<open>
  An error the parser logs with one of the hinted codes is recorded with a hint in its message,
  its own or that of the code (when the model does not replace the message).
\<close>

theorem logged_errors_carry_a_hint:
  assumes "C \<in> set hinted_codes" and "\<not> isMessageWarning Msg" and "\<not> AIEnabled env"
    and "D \<in> set (Diagnostics (LogErrorAt env Loc C Msg cat Hints st))" and "D \<notin> set (Diagnostics st)"
  shows "contains ''Hint:'' (DMsg D)"
proof -
  let ?r = "\<lparr>RLoc = Loc, RMsg = log_text C Msg, RHint = [], RWarn = isMessageWarning Msg, RRelated = [],
    RCat = cat, RCode = C, RHints = Hints\<rparr>"
  have "LogErrorAt env Loc C Msg cat Hints st = report env ?r st"
    by (simp add: LogErrorAt_def report_def)
  with recorded_msg [OF assms(3), of D ?r st] assms(4,5) have "DMsg D = log_text C Msg" by simp
  with log_text_hint [OF assms(1,2)] show ?thesis by simp
qed

lemma logged_errors_carry_a_hint_witness:
  "contains ''Hint:'' (DMsg (hd (Diagnostics
     (LogErrorAt plain_env (loc3 4 2 ''a.tr'') ''E108'' ''A name is missing'' SYNTAX_ERROR no_hints diag_init))))"
proof -
  let ?st = "LogErrorAt plain_env (loc3 4 2 ''a.tr'') ''E108'' ''A name is missing'' SYNTAX_ERROR no_hints diag_init"
  have c: "''E108'' \<in> set hinted_codes" by (simp add: hinted_codes_def ErrCode_ExpectedName_def)
  have m: "\<not> isMessageWarning ''A name is missing''" by code_simp
  have a: "\<not> AIEnabled plain_env" by (simp add: plain_env_def)
  have "Diagnostics ?st \<noteq> []"
    using m by (simp add: LogErrorAt_def add_def admit_def captureError_def testAround_def diag_init_def
        plain_env_def Let_def apply_level_def finish_diag_def record_diag_def)
  then have "hd (Diagnostics ?st) \<in> set (Diagnostics ?st)" by (rule hd_in_set)
  from logged_errors_carry_a_hint [OF c m a this] show ?thesis by (simp add: diag_init_def)
qed

end
