(* ===== verification/FixWriting.thy ===== *)
theory FixWriting
  imports DiagRules
begin

text \<open>
  What \<open>writeCompilerFixes\<close> (\<open>src/src/frontend/Lexer.cpp\<close>) writes: the accepted fixes are those whose
  lines no earlier accepted fix has taken, and each line of the file is the line of the one accepted
  fix that covers it, or the line of the source.
\<close>

definition in_fix :: "int \<Rightarrow> CompilerFix \<Rightarrow> bool" where
  "in_fix l F \<longleftrightarrow> FirstLine F \<le> l \<and> l \<le> LastLine F"

definition overlap :: "CompilerFix \<Rightarrow> CompilerFix \<Rightarrow> bool" where
  "overlap F G \<longleftrightarrow> list_ex (\<lambda>l. in_fix l G) [FirstLine F..LastLine F]"

definition usable :: "string \<Rightarrow> Diag \<Rightarrow> bool" where
  "usable Main D \<longleftrightarrow> \<not> fix_empty (DFix D) \<and> DFilename D = Main"

text \<open>The specification: go through the usable fixes, keep each that overlaps none kept so far.\<close>

fun accept :: "CompilerFix list \<Rightarrow> CompilerFix list \<Rightarrow> CompilerFix list" where
  "accept As [] = As"
| "accept As (F # Fs) = accept (if list_ex (\<lambda>A. overlap F A) As then As else As @ [F]) Fs"

definition fixed_line :: "CompilerFix list \<Rightarrow> string list \<Rightarrow> nat \<Rightarrow> string" where
  "fixed_line As Lines k =
    (case find (in_fix (int k + 1)) As of
       Some F \<Rightarrow> NewLines F ! nat (int k + 1 - FirstLine F)
     | None \<Rightarrow> Lines ! k)"

lemma apply_lines_aux:
  assumes "1 \<le> a"
  shows "length (fold (\<lambda>l Ls. Ls[nat (l - 1) := f l]) [a..b] Lines) = length Lines \<and>
    (\<forall>k < length Lines. fold (\<lambda>l Ls. Ls[nat (l - 1) := f l]) [a..b] Lines ! k =
      (if a \<le> int k + 1 \<and> int k + 1 \<le> b then f (int k + 1) else Lines ! k))"
  using assms
proof (induction "nat (b + 1 - a)" arbitrary: a Lines)
  case 0
  then show ?case by auto
next
  case (Suc n)
  then have ab: "a \<le> b" "n = nat (b + 1 - (a + 1))" "1 \<le> a + 1" by auto
  have "[a..b] = a # [a + 1..b]" using ab(1) by (simp add: upto_rec1)
  then have unroll: "fold (\<lambda>l Ls. Ls[nat (l - 1) := f l]) [a..b] Lines =
      fold (\<lambda>l Ls. Ls[nat (l - 1) := f l]) [a + 1..b] (Lines[nat (a - 1) := f a])" by simp
  note ih = Suc.hyps(1) [OF ab(2,3), of "Lines[nat (a - 1) := f a]"]
  show ?case
    unfolding unroll
  proof (intro conjI allI impI)
    show "length (fold (\<lambda>l Ls. Ls[nat (l - 1) := f l]) [a + 1..b] (Lines[nat (a - 1) := f a])) = length Lines"
      using ih by simp
    fix k assume k: "k < length Lines"
    have "nat (a - 1) = k \<longleftrightarrow> int k + 1 = a" using Suc.prems by auto
    with ih k ab(1) show "fold (\<lambda>l Ls. Ls[nat (l - 1) := f l]) [a + 1..b] (Lines[nat (a - 1) := f a]) ! k =
        (if a \<le> int k + 1 \<and> int k + 1 \<le> b then f (int k + 1) else Lines ! k)"
      by (cases "int k + 1 = a") (simp_all add: nth_list_update)
  qed
qed

lemma apply_lines_nth:
  assumes "1 \<le> FirstLine F"
  shows "length (apply_lines F Lines) = length Lines"
    and "k < length Lines \<Longrightarrow> apply_lines F Lines ! k =
      (if in_fix (int k + 1) F then NewLines F ! nat (int k + 1 - FirstLine F) else Lines ! k)"
  using apply_lines_aux [OF assms, of "\<lambda>l. NewLines F ! nat (l - FirstLine F)" "LastLine F" Lines]
  by (simp_all add: apply_lines_def in_fix_def)

definition taken_by :: "CompilerFix list \<Rightarrow> int set" where
  "taken_by As = {l. \<exists>A \<in> set As. in_fix l A}"

lemma overlap_iff: "overlap F G \<longleftrightarrow> (\<exists>l. in_fix l F \<and> in_fix l G)"
  unfolding overlap_def in_fix_def list_ex_iff set_upto Bex_def atLeastAtMost_iff by blast

lemma free_iff:
  "list_all (\<lambda>l. l \<notin> taken_by As) [FirstLine F..LastLine F] \<longleftrightarrow> \<not> list_ex (\<lambda>A. overlap F A) As"
  unfolding list_all_iff list_ex_iff taken_by_def overlap_iff in_fix_def set_upto Ball_def Bex_def
    atLeastAtMost_iff mem_Collect_eq by blast

lemma find_snoc: "find P (xs @ [y]) = (case find P xs of Some x \<Rightarrow> Some x | None \<Rightarrow> if P y then Some y else None)"
  by (induction xs) auto

text \<open>The loop's state after some diagnostics, for the fixes accepted so far.\<close>

definition written :: "CompilerFix list \<Rightarrow> string list \<Rightarrow> FixWriting \<Rightarrow> bool" where
  "written As Lines0 w \<longleftrightarrow>
    (case w of (Lines, Taken, Any) \<Rightarrow>
       Lines = map (fixed_line As Lines0) [0..<length Lines0] \<and> Taken = taken_by As \<and> (Any \<longleftrightarrow> As \<noteq> []))"

lemma written_start: "written [] Lines (Lines, {}, False)"
proof -
  have "fixed_line [] Lines = (!) Lines" by (simp add: fixed_line_def fun_eq_iff)
  then show ?thesis by (simp add: written_def taken_by_def map_nth)
qed

lemma written_step:
  assumes w: "written As Lines0 w" and first: "usable Main D \<Longrightarrow> 1 \<le> FirstLine (DFix D)"
  shows "written (if usable Main D \<and> \<not> list_ex (\<lambda>A. overlap (DFix D) A) As then As @ [DFix D] else As)
    Lines0 (write_fix Main D w)"
proof -
  obtain Lines Any where W: "w = (Lines, taken_by As, Any)"
      and L: "Lines = map (fixed_line As Lines0) [0..<length Lines0]" and Any: "Any \<longleftrightarrow> As \<noteq> []"
    using w by (cases w) (auto simp: written_def)
  show ?thesis
  proof (cases "usable Main D \<and> \<not> list_ex (\<lambda>A. overlap (DFix D) A) As")
    case False
    have "write_fix Main D w = w"
    proof (cases "usable Main D")
      case True
      with False have "list_ex (\<lambda>A. overlap (DFix D) A) As" by simp
      then have "\<not> list_all (\<lambda>l. l \<notin> taken_by As) [FirstLine (DFix D)..LastLine (DFix D)]"
        unfolding free_iff by simp
      then show ?thesis unfolding W write_fix_def Let_def prod.case by simp
    next
      case False
      then show ?thesis using W by (auto simp: write_fix_def usable_def)
    qed
    with w False show ?thesis by (simp only: if_False)
  next
    case True
    then have u: "usable Main D" and free: "\<not> list_ex (\<lambda>A. overlap (DFix D) A) As" by auto
    let ?F = "DFix D" and ?As = "As @ [DFix D]"
    have step: "write_fix Main D w =
        (apply_lines ?F Lines, taken_by As \<union> set [FirstLine ?F..LastLine ?F], True)"
      using u free free_iff [of As ?F] unfolding W write_fix_def Let_def prod.case by (simp add: usable_def)
    have "apply_lines ?F Lines = map (fixed_line ?As Lines0) [0..<length Lines0]"
    proof (rule nth_equalityI)
      show len: "length (apply_lines ?F Lines) = length (map (fixed_line ?As Lines0) [0..<length Lines0])"
        using apply_lines_nth(1) [OF first [OF u]] L by simp
      fix k assume "k < length (apply_lines ?F Lines)"
      then have k: "k < length Lines0" using len by simp
      have "in_fix (int k + 1) ?F \<Longrightarrow> find (in_fix (int k + 1)) As = None"
        using free by (auto simp: find_None_iff list_ex_iff overlap_iff)
      then show "apply_lines ?F Lines ! k = map (fixed_line ?As Lines0) [0..<length Lines0] ! k"
        using apply_lines_nth(2) [OF first [OF u], of k Lines] k L
        by (auto simp: fixed_line_def find_snoc split: option.split)
    qed
    moreover have "taken_by As \<union> set [FirstLine ?F..LastLine ?F] = taken_by ?As"
      by (auto simp: taken_by_def in_fix_def)
    ultimately show ?thesis using True by (simp add: written_def step)
  qed
qed

lemma written_fold:
  assumes "\<And>D. D \<in> set Ds \<Longrightarrow> usable Main D \<Longrightarrow> 1 \<le> FirstLine (DFix D)" and "written As Lines0 w"
  shows "written (accept As (map DFix (filter (usable Main) Ds))) Lines0 (fold (write_fix Main) Ds w)"
  using assms
proof (induction Ds arbitrary: As w)
  case Nil
  then show ?case by simp
next
  case (Cons D Ds)
  have f: "usable Main D \<Longrightarrow> 1 \<le> FirstLine (DFix D)" using Cons.prems(1) by simp
  note step = written_step [where Main = Main, OF Cons.prems(2) f]
  show ?case
    using Cons.IH [OF _ step] Cons.prems(1) by (auto split: if_splits)
qed

lemma accept_keeps: "set As \<subseteq> set (accept As Fs)"
proof (induction Fs arbitrary: As)
  case (Cons F Fs)
  then show ?case using Cons [of "As @ [F]"] by auto
qed simp

lemma accept_disjoint:
  "sorted_wrt (\<lambda>F G. \<not> overlap G F) As \<Longrightarrow> sorted_wrt (\<lambda>F G. \<not> overlap G F) (accept As Fs)"
  by (induction Fs arbitrary: As) (auto simp: sorted_wrt_append list_ex_iff)

lemma accept_maximal: "F \<in> set Fs \<Longrightarrow> F \<in> set (accept As Fs) \<or> list_ex (overlap F) (accept As Fs)"
proof (induction Fs arbitrary: As)
  case (Cons G Fs)
  show ?case
  proof (cases "F = G")
    case True
    then show ?thesis
      using accept_keeps [of As Fs] accept_keeps [of "As @ [G]" Fs] by (auto simp: list_ex_iff)
  next
    case False
    with Cons show ?thesis by simp
  qed
qed simp

text \<open>
  C38. The file of fixes: with the fixes of the main file's diagnostics taken in the order printed, no
  two accepted fixes share a line, a fix that is not accepted shares a line with an accepted one, and
  each line of the file is the accepted fix's line that covers it, or else the source's line.
\<close>

theorem file_of_fixes:
  assumes "SmartFixOutPath env \<noteq> []" and "\<not> ModelFixWritten st"
    and "AllSourceLines env (MainSourceFilename env) = Some Lines"
    and "\<And>D. D \<in> set Ds \<Longrightarrow> usable (MainSourceFilename env) D \<Longrightarrow> 1 \<le> FirstLine (DFix D)"
    and "Fs = map DFix (filter (usable (MainSourceFilename env)) Ds)"
  shows "sorted_wrt (\<lambda>F G. \<not> overlap G F) (accept [] Fs) \<and>
    (\<forall>F \<in> set Fs. F \<in> set (accept [] Fs) \<or> list_ex (overlap F) (accept [] Fs)) \<and>
    FixFile (writeCompilerFixes env Ds st) =
      (if accept [] Fs = [] then FixFile st
       else Some (concat (map (\<lambda>k. fixed_line (accept [] Fs) Lines k @ [CHR 0x0A]) [0..<length Lines])))"
proof (intro conjI ballI)
  show "sorted_wrt (\<lambda>F G. \<not> overlap G F) (accept [] Fs)" by (rule accept_disjoint) simp
  show "F \<in> set (accept [] Fs) \<or> list_ex (overlap F) (accept [] Fs)" if "F \<in> set Fs" for F
    using that by (rule accept_maximal)
  obtain L T A where w: "fold (write_fix (MainSourceFilename env)) Ds (Lines, {}, False) = (L, T, A)"
    by (metis prod_cases3)
  have "written (accept [] Fs) Lines (L, T, A)"
    using written_fold [where Main = "MainSourceFilename env" and Ds = Ds, OF assms(4) written_start [of Lines]] w assms(5) by simp
  then show "FixFile (writeCompilerFixes env Ds st) =
      (if accept [] Fs = [] then FixFile st
       else Some (concat (map (\<lambda>k. fixed_line (accept [] Fs) Lines k @ [CHR 0x0A]) [0..<length Lines])))"
    using assms(1-3) w by (simp add: writeCompilerFixes_def written_def comp_def)
qed

lemma file_of_fixes_witness:
  "let env = plain_env\<lparr>SmartFixOutPath := ''o'', AllSourceLines := (\<lambda>f. Some [''a'', ''b''])\<rparr>;
       F = no_fix\<lparr>FirstLine := 2, LastLine := 2, NewLines := [''c''],
             Edits := [\<lparr>EdLine = 2, EdStart = 1, EdEnd = 2, EdText = ''c''\<rparr>]\<rparr>;
       Ds = [(probe_of plain_env (plain_report ''a.tr'' 2 ''m''))\<lparr>DFix := F\<rparr>];
       Fs = map DFix (filter (usable (MainSourceFilename env)) Ds)
   in FixFile (writeCompilerFixes env Ds diag_init) =
      (if accept [] Fs = [] then FixFile diag_init
       else Some (concat (map (\<lambda>k. fixed_line (accept [] Fs) [''a'', ''b''] k @ [CHR 0x0A]) [0..<length [''a'', ''b'']])))"
  unfolding Let_def
  by (rule file_of_fixes [THEN conjunct2, THEN conjunct2]) (simp_all add: diag_init_def)

end
