(* ===== verification/FlowGraph.thy ===== *)
theory FlowGraph
  imports LexToken
begin

text \<open>
  The control-flow graph of \<open>src/src/analysis/CFG.h\<close> and \<open>CFG.cpp\<close> and what is asked of it. A block is
  named by its identifier, which is its position in the list of blocks (\<open>createBlock\<close> appends), so a
  pointer to a block is a number; \<open>'s\<close> is the type of statements. What the theorems show: the
  breadth-first marking is reachability, "all paths return" and "all paths recurse" speak about all
  walks from the entry to the exit.
\<close>

section \<open>Blocks and graphs\<close>

text \<open>
  The constructor of a block leaves its \<open>TerminatorLoc\<close> uninitialised: \<open>None\<close>, until \<open>setTerminator\<close>.
\<close>

datatype TerminatorKind = TkNone | TkReturn | TkBreak | TkContinue | TkBranch | TkUnconditional

record 's Block =
  BlockID :: nat
  BlockName :: string
  Statements :: "'s list"
  StatementsWithDeferredRuns :: "'s list"
  Predecessors :: "nat list"
  Successors :: "nat list"
  Terminator :: TerminatorKind
  TerminatorLoc :: "SourceLocation option"
  IsReachable :: bool

record 's CFG =
  FunctionName :: string
  MangledFunctionName :: string
  ReturnsVoid :: bool
  FuncLoc :: SourceLocation
  Blocks :: "'s Block list"
  EntryBlock :: "nat option"
  ExitBlock :: "nat option"
  NextID :: nat

definition new_block :: "nat \<Rightarrow> string \<Rightarrow> 's Block" where
  "new_block i name = \<lparr>BlockID = i, BlockName = name, Statements = [], StatementsWithDeferredRuns = [],
     Predecessors = [], Successors = [], Terminator = TkNone, TerminatorLoc = None,
     IsReachable = False\<rparr>"

definition new_cfg :: "string \<Rightarrow> bool \<Rightarrow> SourceLocation \<Rightarrow> string \<Rightarrow> 's CFG" where
  "new_cfg name void loc mangled = \<lparr>FunctionName = name, MangledFunctionName = mangled,
     ReturnsVoid = void, FuncLoc = loc, Blocks = [], EntryBlock = None, ExitBlock = None, NextID = 0\<rparr>"

definition hasExplicitTerminator :: "'s Block \<Rightarrow> bool" where
  "hasExplicitTerminator B \<longleftrightarrow> Terminator B = TkReturn \<or> Terminator B = TkBreak \<or> Terminator B = TkContinue"

text \<open>A change of the block a pointer points to.\<close>

definition on_block :: "nat \<Rightarrow> ('s Block \<Rightarrow> 's Block) \<Rightarrow> 's CFG \<Rightarrow> 's CFG" where
  "on_block b f G = G\<lparr>Blocks := (Blocks G)[b := f (Blocks G ! b)]\<rparr>"

definition createBlock :: "string \<Rightarrow> 's CFG \<Rightarrow> nat \<times> 's CFG" where
  "createBlock name G =
    (NextID G, G\<lparr>Blocks := Blocks G @ [new_block (NextID G) name], NextID := NextID G + 1\<rparr>)"

definition addEdge :: "nat option \<Rightarrow> nat option \<Rightarrow> 's CFG \<Rightarrow> 's CFG" where
  "addEdge From To G =
    (case (From, To) of
       (Some f, Some t) \<Rightarrow>
         on_block t (\<lambda>B. B\<lparr>Predecessors := Predecessors B @ [f]\<rparr>)
           (on_block f (\<lambda>B. B\<lparr>Successors := Successors B @ [t]\<rparr>) G)
     | _ \<Rightarrow> G)"

definition addStatement :: "'s \<Rightarrow> 's Block \<Rightarrow> 's Block" where
  "addStatement s B = B\<lparr>Statements := Statements B @ [s],
     StatementsWithDeferredRuns := StatementsWithDeferredRuns B @ [s]\<rparr>"

definition addDeferredRun :: "'s \<Rightarrow> 's Block \<Rightarrow> 's Block" where
  "addDeferredRun s B = B\<lparr>StatementsWithDeferredRuns := StatementsWithDeferredRuns B @ [s]\<rparr>"

definition setTerminator :: "TerminatorKind \<Rightarrow> SourceLocation \<Rightarrow> 's Block \<Rightarrow> 's Block" where
  "setTerminator k loc B = B\<lparr>Terminator := k, TerminatorLoc := Some loc\<rparr>"

section \<open>Walks\<close>

abbreviation succs :: "'s CFG \<Rightarrow> nat \<Rightarrow> nat list" where
  "succs G b \<equiv> Successors (Blocks G ! b)"

definition edges :: "'s CFG \<Rightarrow> (nat \<times> nat) set" where
  "edges G = {(a, b). a < length (Blocks G) \<and> b \<in> set (succs G a)}"

text \<open>A graph whose edges stay inside it, recorded at both ends, with its two blocks.\<close>

definition wf_cfg :: "'s CFG \<Rightarrow> bool" where
  "wf_cfg G \<longleftrightarrow>
    (\<forall>a < length (Blocks G). \<forall>b \<in> set (succs G a). b < length (Blocks G)) \<and>
    (\<forall>a < length (Blocks G). \<forall>b < length (Blocks G).
       count_list (succs G a) b = count_list (Predecessors (Blocks G ! b)) a) \<and>
    (\<forall>b < length (Blocks G). set (Predecessors (Blocks G ! b)) \<subseteq> {..<length (Blocks G)}) \<and>
    (\<forall>b < length (Blocks G). BlockID (Blocks G ! b) = b) \<and> NextID G = length (Blocks G) \<and>
    (\<exists>e x. EntryBlock G = Some e \<and> ExitBlock G = Some x \<and> e < length (Blocks G) \<and> x < length (Blocks G))"

fun walk :: "'s CFG \<Rightarrow> nat list \<Rightarrow> bool" where
  "walk G [] = False"
| "walk G [b] = (b < length (Blocks G))"
| "walk G (a # b # bs) = (a < length (Blocks G) \<and> b \<in> set (succs G a) \<and> walk G (b # bs))"

section \<open>Reachability\<close>

text \<open>
  The marks of \<open>computeReachability\<close> as a list of flags. A pointer past the list does not exist in the
  code; it counts as marked, so that the search is total.
\<close>

definition marked :: "bool list \<Rightarrow> nat \<Rightarrow> bool" where
  "marked R b \<longleftrightarrow> length R \<le> b \<or> R ! b"

definition visit_succ :: "nat \<Rightarrow> bool list \<times> nat list \<Rightarrow> bool list \<times> nat list" where
  "visit_succ s w = (case w of (R, Q) \<Rightarrow> if \<not> marked R s then (R[s := True], Q @ [s]) else (R, Q))"

definition unmarked_count :: "bool list \<Rightarrow> nat" where
  "unmarked_count R = length (filter Not R)"

lemma unmarked_update: "\<not> marked R s \<Longrightarrow> Suc (unmarked_count (R[s := True])) = unmarked_count R"
proof -
  assume "\<not> marked R s"
  then have s: "s < length R" "\<not> R ! s" by (auto simp: marked_def)
  then have "R = take s R @ False # drop (Suc s) R" by (metis id_take_nth_drop)
  then obtain a b where R: "R = a @ False # b" "length a = s" using s by (metis length_take min.absorb4)
  then have "R[s := True] = a @ True # b" by (metis list_update_length)
  with R show ?thesis by (simp add: unmarked_count_def)
qed

lemma visit_succ_measure:
  "unmarked_count (fst (visit_succ s (R, Q))) + length (snd (visit_succ s (R, Q))) = unmarked_count R + length Q"
  using unmarked_update [of R s] by (auto simp: visit_succ_def)

lemma visit_succs_measure:
  "unmarked_count (fst (fold visit_succ ss (R, Q))) + length (snd (fold visit_succ ss (R, Q))) =
   unmarked_count R + length Q"
proof (induction ss arbitrary: R Q)
  case Nil
  then show ?case by simp
next
  case (Cons s ss)
  obtain R' Q' where v: "visit_succ s (R, Q) = (R', Q')" by fastforce
  with Cons [of R' Q'] visit_succ_measure [of s R Q] show ?case by simp
qed

text \<open>The work list of the breadth-first search; every turn takes one block from its front.\<close>

function bfs :: "'s CFG \<Rightarrow> bool list \<Rightarrow> nat list \<Rightarrow> bool list" where
  "bfs G R [] = R"
| "bfs G R (c # Q) = (case fold visit_succ (succs G c) (R, Q) of (R', Q') \<Rightarrow> bfs G R' Q')"
  by pat_completeness auto
termination
proof (relation "measure (\<lambda>(G, R, Q). unmarked_count R + length Q)", goal_cases)
  case 1
  show ?case by simp
next
  case (2 G R c Q R' Q')
  with visit_succs_measure [of "succs G c" R Q] show ?case by (metis case_prod_conv fst_conv in_measure
      length_Cons add_Suc_right snd_conv lessI)
qed

definition set_marks :: "bool list \<Rightarrow> 's CFG \<Rightarrow> 's CFG" where
  "set_marks R G = G\<lparr>Blocks := map2 (\<lambda>B r. B\<lparr>IsReachable := r\<rparr>) (Blocks G) R\<rparr>"

definition computeReachability :: "'s CFG \<Rightarrow> 's CFG" where
  "computeReachability G =
    (let R0 = replicate (length (Blocks G)) False in
     case EntryBlock G of
       None \<Rightarrow> set_marks R0 G
     | Some e \<Rightarrow> set_marks (bfs G (R0[e := True]) [e]) G)"

text \<open>The set the flags stand for.\<close>

definition mark_set :: "bool list \<Rightarrow> nat set" where
  "mark_set R = {b. b < length R \<and> R ! b}"

lemma visit_succ_effect:
  assumes "visit_succ s (R, Q) = (R', Q')"
  shows "length R' = length R" "mark_set R' = mark_set R \<union> ({s} \<inter> {..<length R})"
    "set Q' = set Q \<union> (({s} \<inter> {..<length R}) - mark_set R)"
  using assms by (auto simp: visit_succ_def marked_def mark_set_def nth_list_update split: if_split_asm)

lemma visit_succs_effect:
  assumes "fold visit_succ ss (R, Q) = (R', Q')"
  shows "length R' = length R \<and> mark_set R' = mark_set R \<union> (set ss \<inter> {..<length R}) \<and>
    set Q' = set Q \<union> ((set ss \<inter> {..<length R}) - mark_set R)"
  using assms
proof (induction ss arbitrary: R Q)
  case Nil
  then show ?case by simp
next
  case (Cons s ss)
  obtain R1 Q1 where v: "visit_succ s (R, Q) = (R1, Q1)" by fastforce
  note e = visit_succ_effect [OF v]
  from Cons.prems v have "fold visit_succ ss (R1, Q1) = (R', Q')" by simp
  from Cons.IH [OF this] e show ?case by auto
qed

lemma bfs_marks:
  assumes "length R = length (Blocks G)" and "set Q \<subseteq> mark_set R"
    and "\<And>a b. (a, b) \<in> edges G \<Longrightarrow> a \<in> mark_set R \<Longrightarrow> a \<notin> set Q \<Longrightarrow> b < length R \<Longrightarrow> b \<in> mark_set R"
  shows "length (bfs G R Q) = length R \<and> mark_set R \<subseteq> mark_set (bfs G R Q) \<and>
    (\<forall>a b. (a, b) \<in> edges G \<longrightarrow> a \<in> mark_set (bfs G R Q) \<longrightarrow> b < length R \<longrightarrow> b \<in> mark_set (bfs G R Q)) \<and>
    mark_set (bfs G R Q) \<subseteq> (edges G)\<^sup>* `` mark_set R"
  using assms
proof (induction G R Q rule: bfs.induct)
  case (1 G R)
  then show ?case by auto
next
  case (2 G R c Q)
  obtain R' Q' where f: "fold visit_succ (succs G c) (R, Q) = (R', Q')" by fastforce
  note e = visit_succs_effect [OF f]
  have c: "c \<in> mark_set R" "c < length (Blocks G)" using 2(2,3) by (auto simp: mark_set_def)
  have prem2: "set Q' \<subseteq> mark_set R'" using 2(3) e by auto
  have prem3: "b \<in> mark_set R'"
    if ab: "(a, b) \<in> edges G" "a \<in> mark_set R'" "a \<notin> set Q'" "b < length R'" for a b
  proof (cases "a = c")
    case True
    with ab e show ?thesis by (auto simp: edges_def)
  next
    case False
    with ab e have "a \<in> mark_set R" "a \<notin> set (c # Q)" by auto
    with 2(4) [OF ab(1)] ab(4) e show ?thesis by auto
  qed
  have ih: "length (bfs G R' Q') = length R' \<and> mark_set R' \<subseteq> mark_set (bfs G R' Q') \<and>
      (\<forall>a b. (a, b) \<in> edges G \<longrightarrow> a \<in> mark_set (bfs G R' Q') \<longrightarrow> b < length R' \<longrightarrow> b \<in> mark_set (bfs G R' Q')) \<and>
      mark_set (bfs G R' Q') \<subseteq> (edges G)\<^sup>* `` mark_set R'"
    using 2(1) [OF f [symmetric] _ prem2 prem3] e 2(2) by simp
  have "mark_set R' \<subseteq> (edges G)\<^sup>* `` mark_set R"
  proof
    fix b assume "b \<in> mark_set R'"
    with e consider "b \<in> mark_set R" | "b \<in> set (succs G c)" by blast
    then show "b \<in> (edges G)\<^sup>* `` mark_set R"
    proof cases
      case 1
      then show ?thesis by blast
    next
      case 2
      then have "(c, b) \<in> edges G" using c by (simp add: edges_def)
      with c(1) show ?thesis by blast
    qed
  qed
  then have "(edges G)\<^sup>* `` mark_set R' \<subseteq> (edges G)\<^sup>* `` mark_set R"
    by (metis Image_closed_trancl Image_mono rtrancl_idemp_self_comp relcomp_Image subset_refl)
  with ih e f show ?case by auto
qed

lemma set_marks_simps [simp]:
  "length R = length (Blocks G) \<Longrightarrow> length (Blocks (set_marks R G)) = length (Blocks G)"
  "EntryBlock (set_marks R G) = EntryBlock G" "ExitBlock (set_marks R G) = ExitBlock G"
  by (simp_all add: set_marks_def)

lemma set_marks_block:
  "length R = length (Blocks G) \<Longrightarrow> b < length (Blocks G) \<Longrightarrow>
     Blocks (set_marks R G) ! b = (Blocks G ! b)\<lparr>IsReachable := R ! b\<rparr>"
  by (simp add: set_marks_def)

lemma wf_edges_bound: "wf_cfg G \<Longrightarrow> (a, b) \<in> edges G \<Longrightarrow> a < length (Blocks G) \<and> b < length (Blocks G)"
  by (auto simp: wf_cfg_def edges_def)

lemma computeReachability_marks:
  assumes "wf_cfg G" and "EntryBlock G = Some e"
  obtains R where "computeReachability G = set_marks R G" and "length R = length (Blocks G)"
    and "\<And>b. b < length (Blocks G) \<Longrightarrow> R ! b \<longleftrightarrow> (e, b) \<in> (edges G)\<^sup>*"
proof -
  let ?S = "(replicate (length (Blocks G)) False)[e := True]" and ?R = "bfs G ((replicate (length (Blocks G)) False)[e := True]) [e]"
  have e: "e < length (Blocks G)" using assms by (auto simp: wf_cfg_def)
  then have m0: "mark_set ?S = {e}" by (auto simp: mark_set_def nth_list_update)
  have b: "length ?R = length (Blocks G)" "{e} \<subseteq> mark_set ?R"
      "\<forall>a b. (a, b) \<in> edges G \<longrightarrow> a \<in> mark_set ?R \<longrightarrow> b < length (Blocks G) \<longrightarrow> b \<in> mark_set ?R"
      "mark_set ?R \<subseteq> (edges G)\<^sup>* `` {e}"
    using bfs_marks [of ?S G "[e]"] m0 by auto
  have "b \<in> mark_set ?R" if "(e, b) \<in> (edges G)\<^sup>*" for b
    using that
  proof (induction rule: rtrancl_induct)
    case base
    then show ?case using b(2) by simp
  next
    case (step y z)
    with b(3) wf_edges_bound [OF assms(1)] show ?case by blast
  qed
  with b(1,4) have "?R ! x \<longleftrightarrow> (e, x) \<in> (edges G)\<^sup>*" if "x < length (Blocks G)" for x
    using that by (auto simp: mark_set_def)
  moreover have "computeReachability G = set_marks ?R G"
    using assms(2) by (simp add: computeReachability_def Let_def)
  ultimately show ?thesis using b(1) that by blast
qed

lemma reachable_block:
  assumes "wf_cfg G" and "EntryBlock G = Some e" and "b < length (Blocks G)"
  shows "Blocks (computeReachability G) ! b = (Blocks G ! b)\<lparr>IsReachable := (e, b) \<in> (edges G)\<^sup>*\<rparr>"
proof -
  obtain R where "computeReachability G = set_marks R G" "length R = length (Blocks G)"
      "R ! b \<longleftrightarrow> (e, b) \<in> (edges G)\<^sup>*"
    using computeReachability_marks [OF assms(1,2)] assms(3) by metis
  with set_marks_block [OF _ assms(3)] show ?thesis by simp
qed

text \<open>
  After \<open>computeReachability\<close> a block is marked exactly when a walk along edges leads to it from the
  entry block; nothing else of the graph changes.
\<close>

theorem reachable_blocks_marked:
  assumes "wf_cfg G" and "EntryBlock G = Some e" and "b < length (Blocks G)"
  shows "Blocks (computeReachability G) ! b = (Blocks G ! b)\<lparr>IsReachable := (e, b) \<in> (edges G)\<^sup>*\<rparr>"
  by (rule reachable_block [OF assms])

section \<open>Walks and reachability\<close>

lemma walk_snoc: "walk G (bs @ [a]) \<Longrightarrow> b \<in> set (succs G a) \<Longrightarrow> b < length (Blocks G) \<Longrightarrow> walk G (bs @ [a, b])"
proof (induction bs)
  case Nil
  then show ?case by simp
next
  case (Cons c bs)
  then show ?case by (cases bs) simp_all
qed

lemma walk_drop: "walk G (bs @ c # cs) \<Longrightarrow> walk G (c # cs)"
proof (induction bs)
  case Nil
  then show ?case by simp
next
  case (Cons b bs)
  then show ?case by (cases bs) auto
qed

lemma walk_take: "walk G (bs @ c # cs) \<Longrightarrow> walk G (bs @ [c])"
proof (induction bs)
  case Nil
  then show ?case by (cases cs) simp_all
next
  case (Cons b bs)
  then show ?case by (cases bs) auto
qed

lemma walk_join: "walk G (bs @ [c]) \<Longrightarrow> walk G (c # cs) \<Longrightarrow> walk G (bs @ c # cs)"
proof (induction bs)
  case Nil
  then show ?case by simp
next
  case (Cons b bs)
  then show ?case by (cases bs) auto
qed

lemma walk_bound: "walk G bs \<Longrightarrow> set bs \<subseteq> {..<length (Blocks G)}"
  by (induction G bs rule: walk.induct) auto

lemma walk_reaches: "walk G (a # bs) \<Longrightarrow> (a, last (a # bs)) \<in> (edges G)\<^sup>*"
proof (induction bs arbitrary: a)
  case Nil
  then show ?case by simp
next
  case (Cons b bs)
  then have "(a, b) \<in> edges G" by (simp add: edges_def)
  with Cons show ?case by (auto intro: converse_rtrancl_into_rtrancl)
qed

lemma reaches_walk:
  assumes "wf_cfg G" and "(a, b) \<in> (edges G)\<^sup>*" and "a < length (Blocks G)"
  shows "\<exists>bs. walk G (bs @ [b]) \<and> hd (bs @ [b]) = a"
  using assms(2)
proof (induction rule: rtrancl_induct)
  case base
  then show ?case using assms(3) by (intro exI [of _ "[]"]) simp
next
  case (step b c)
  then obtain bs where "walk G (bs @ [b])" "hd (bs @ [b]) = a" by blast
  moreover have "c \<in> set (succs G b)" "c < length (Blocks G)"
    using step(2) wf_edges_bound [OF assms(1) step(2)] by (auto simp: edges_def)
  ultimately have "walk G ((bs @ [b]) @ [c])" "hd ((bs @ [b]) @ [c]) = a"
    using walk_snoc by (auto simp: hd_append)
  then show ?case by blast
qed

text \<open>A walk can be made simple without leaving its blocks.\<close>

lemma simple_walk:
  "walk G bs \<Longrightarrow> \<exists>cs. walk G cs \<and> distinct cs \<and> set cs \<subseteq> set bs \<and> hd cs = hd bs \<and> last cs = last bs"
proof (induction "length bs" arbitrary: bs rule: less_induct)
  case less
  show ?case
  proof (cases "distinct bs")
    case True
    with less.prems show ?thesis by blast
  next
    case False
    then obtain xs ys zs c where b: "bs = xs @ [c] @ ys @ [c] @ zs"
      using not_distinct_decomp by blast
    have "walk G (xs @ [c])" using walk_take [of G xs c "ys @ c # zs"] less.prems b by simp
    moreover have "walk G (c # zs)" using walk_drop [of G "xs @ c # ys" c zs] less.prems b by simp
    ultimately have w: "walk G (xs @ c # zs)" by (rule walk_join)
    have "length (xs @ c # zs) < length bs" using b by simp
    from less.hyps [OF this w] b show ?thesis
      by (auto simp: hd_append last_append split: if_splits)
  qed
qed

section \<open>Returns\<close>

definition allPathsReturn :: "'s CFG \<Rightarrow> bool" where
  "allPathsReturn G =
    (case (EntryBlock G, ExitBlock G) of
       (Some e, Some x) \<Rightarrow>
         list_all (\<lambda>p. \<not> (IsReachable (Blocks G ! p) \<and> Terminator (Blocks G ! p) \<noteq> TkReturn))
           (Predecessors (Blocks G ! x))
     | _ \<Rightarrow> False)"

definition getUnreachableBlocks :: "'s CFG \<Rightarrow> nat list" where
  "getUnreachableBlocks G =
    filter (\<lambda>b. Some b \<noteq> ExitBlock G \<and> \<not> IsReachable (Blocks G ! b) \<and> Statements (Blocks G ! b) \<noteq> [])
      [0..<length (Blocks G)]"

definition getDeadBranches :: "'s CFG \<Rightarrow> nat list" where
  "getDeadBranches G =
    filter (\<lambda>b. \<not> IsReachable (Blocks G ! b) \<and> Some b \<noteq> ExitBlock G) [0..<length (Blocks G)]"

definition calculateCyclomaticComplexity :: "'s CFG \<Rightarrow> int" where
  "calculateCyclomaticComplexity G =
    int (sum_list (map (\<lambda>B. length (Successors B)) (Blocks G))) - int (length (Blocks G)) + 2"

lemma wf_pred_iff:
  assumes "wf_cfg G" and "a < length (Blocks G)" and "b < length (Blocks G)"
  shows "a \<in> set (Predecessors (Blocks G ! b)) \<longleftrightarrow> b \<in> set (succs G a)"
proof -
  have "count_list (succs G a) b = count_list (Predecessors (Blocks G ! b)) a"
    using assms by (auto simp: wf_cfg_def)
  then show ?thesis by (metis count_list_0_iff)
qed

text \<open>What "all paths return" says of the walks to the exit block.\<close>

lemma return_walks:
  assumes "wf_cfg G" and "EntryBlock G = Some e" and "ExitBlock G = Some x"
  shows "allPathsReturn (computeReachability G) \<longleftrightarrow>
    (\<forall>bs p. walk G (bs @ [p, x]) \<and> hd (bs @ [p]) = e \<longrightarrow> Terminator (Blocks G ! p) = TkReturn)"
proof -
  have bounds: "e < length (Blocks G)" "x < length (Blocks G)" using assms by (auto simp: wf_cfg_def)
  have preds: "set (Predecessors (Blocks G ! x)) \<subseteq> {..<length (Blocks G)}"
    using assms(1) bounds by (auto simp: wf_cfg_def)
  have block: "Blocks (computeReachability G) ! b = (Blocks G ! b)\<lparr>IsReachable := (e, b) \<in> (edges G)\<^sup>*\<rparr>"
    if "b < length (Blocks G)" for b by (rule reachable_block [OF assms(1,2) that])
  have ends: "EntryBlock (computeReachability G) = Some e" "ExitBlock (computeReachability G) = Some x"
    using assms(2,3) by (simp_all add: computeReachability_def Let_def)
  have "allPathsReturn (computeReachability G) \<longleftrightarrow>
      (\<forall>p \<in> set (Predecessors (Blocks G ! x)). (e, p) \<in> (edges G)\<^sup>* \<longrightarrow> Terminator (Blocks G ! p) = TkReturn)"
    using preds bounds(2) by (auto simp: allPathsReturn_def ends block list_all_iff subset_iff)
  also have "\<dots> \<longleftrightarrow>
      (\<forall>bs p. walk G (bs @ [p, x]) \<and> hd (bs @ [p]) = e \<longrightarrow> Terminator (Blocks G ! p) = TkReturn)"
    (is "?L \<longleftrightarrow> ?R")
  proof
    assume L: ?L
    show ?R
    proof (intro allI impI)
      fix bs p assume w: "walk G (bs @ [p, x]) \<and> hd (bs @ [p]) = e"
      then have wp: "walk G (bs @ [p])" using walk_take [of G bs p "[x]"] by simp
      have pb: "p < length (Blocks G)" "x \<in> set (succs G p)"
        using w walk_drop [of G bs p "[x]"] by auto
      obtain cs where cs: "bs @ [p] = e # cs" using w by (cases "bs @ [p]") auto
      have "(e, p) \<in> (edges G)\<^sup>*"
        using walk_reaches [of G e cs] wp cs by (metis last_snoc)
      with L pb wf_pred_iff [OF assms(1) pb(1) bounds(2)]
      show "Terminator (Blocks G ! p) = TkReturn" by blast
    qed
  next
    assume R: ?R
    show ?L
    proof (intro ballI impI)
      fix p assume p: "p \<in> set (Predecessors (Blocks G ! x))" "(e, p) \<in> (edges G)\<^sup>*"
      then have pb: "p < length (Blocks G)" using preds by auto
      with p wf_pred_iff [OF assms(1) pb bounds(2)] have s: "x \<in> set (succs G p)" by blast
      obtain bs where "walk G (bs @ [p])" "hd (bs @ [p]) = e"
        using reaches_walk [OF assms(1) p(2) bounds(1)] by blast
      with R walk_snoc [OF _ s bounds(2)] show "Terminator (Blocks G ! p) = TkReturn" by blast
    qed
  qed
  finally show ?thesis .
qed

section \<open>Recursion\<close>

text \<open>
  The depth-first search of \<open>allPathsRecurse\<close>: true when every path it follows to the exit has met a
  block of \<open>Self\<close>, the blocks with a call of the function itself. The set \<open>OnPath\<close> is per path.
\<close>

function apr_dfs :: "'s CFG \<Rightarrow> nat list \<Rightarrow> nat \<Rightarrow> nat \<Rightarrow> bool \<Rightarrow> nat list \<Rightarrow> bool" where
  "apr_dfs G Self x Cur SeenSelfCall OnPath =
    (let NowSeen = (SeenSelfCall \<or> Cur \<in> set Self) in
     if Cur = x then NowSeen
     else if Cur \<in> set OnPath \<or> length (Blocks G) \<le> Cur then True
     else if succs G Cur = [] then True
     else list_all (\<lambda>s. apr_dfs G Self x s NowSeen (Cur # OnPath)) (succs G Cur))"
  by pat_completeness auto
termination
proof (relation "measure (\<lambda>(G, Self, x, Cur, Seen, OnPath). card ({..<length (Blocks G)} - set OnPath))", goal_cases)
  case 1
  show ?case by simp
next
  case (2 G Self x Cur Seen OnPath NowSeen s)
  from 2(3) have c: "Cur \<notin> set OnPath" "Cur < length (Blocks G)" by auto
  have "{..<length (Blocks G)} - set (Cur # OnPath) \<subset> {..<length (Blocks G)} - set OnPath"
    using c by auto
  then show ?case by (simp add: psubset_card_mono)
qed

declare apr_dfs.simps [simp del]

definition self_call_blocks :: "('s \<Rightarrow> bool) \<Rightarrow> 's CFG \<Rightarrow> nat list" where
  "self_call_blocks selfCall G =
    filter (\<lambda>b. list_ex selfCall (Statements (Blocks G ! b))) [0..<length (Blocks G)]"

definition allPathsRecurse :: "('s \<Rightarrow> bool) \<Rightarrow> 's CFG \<Rightarrow> bool" where
  "allPathsRecurse selfCall G =
    (case (EntryBlock G, ExitBlock G) of
       (Some e, Some x) \<Rightarrow>
         let Self = self_call_blocks selfCall G
         in if Self = [] then False else apr_dfs G Self x e False []
     | _ \<Rightarrow> False)"

lemma apr_dfs_base_case:
  assumes "wf_cfg G" and "x < length (Blocks G)" and "\<not> apr_dfs G Self x Cur Seen OnPath"
  shows "\<not> Seen \<and> (\<exists>bs. walk G (Cur # bs) \<and> last (Cur # bs) = x \<and> set (Cur # bs) \<inter> set Self = {})"
  using assms(3)
proof (induction "card ({..<length (Blocks G)} - set OnPath)" arbitrary: Cur Seen OnPath rule: less_induct)
  case less
  show ?case
  proof (cases "Cur = x")
    case True
    with less.prems have "\<not> Seen" "Cur \<notin> set Self"
      unfolding apr_dfs.simps [of G Self x Cur] Let_def by simp_all
    with True assms(2) show ?thesis by (intro conjI exI [of _ "[]"]) simp_all
  next
    case False
    with less.prems have c: "Cur \<notin> set OnPath" "Cur < length (Blocks G)"
        "\<not> list_all (\<lambda>s. apr_dfs G Self x s (Seen \<or> Cur \<in> set Self) (Cur # OnPath)) (succs G Cur)"
      by (simp_all add: apr_dfs.simps [of G Self x Cur] Let_def split: if_split_asm)
    then obtain s where s: "s \<in> set (succs G Cur)"
        "\<not> apr_dfs G Self x s (Seen \<or> Cur \<in> set Self) (Cur # OnPath)"
      by (auto simp: list_all_iff)
    have "{..<length (Blocks G)} - set (Cur # OnPath) \<subset> {..<length (Blocks G)} - set OnPath"
      using c by auto
    then have "card ({..<length (Blocks G)} - set (Cur # OnPath)) < card ({..<length (Blocks G)} - set OnPath)"
      by (simp add: psubset_card_mono)
    from less.hyps [OF this s(2)] obtain bs where
      "\<not> Seen" "Cur \<notin> set Self" "walk G (s # bs)" "last (s # bs) = x" "set (s # bs) \<inter> set Self = {}"
      by blast
    with s(1) c(2) show ?thesis by (intro conjI exI [of _ "s # bs"]) simp_all
  qed
qed

lemma apr_dfs_finds:
  assumes "walk G (Cur # bs)" and "distinct (Cur # bs)" and "last (Cur # bs) = x"
    and "set (Cur # bs) \<inter> set Self = {}" and "set (Cur # bs) \<inter> set OnPath = {}"
  shows "\<not> apr_dfs G Self x Cur False OnPath"
  using assms
proof (induction bs arbitrary: Cur OnPath)
  case Nil
  then show ?case unfolding apr_dfs.simps [of G Self x Cur] Let_def by simp
next
  case (Cons b bs)
  have "\<not> apr_dfs G Self x b False (Cur # OnPath)"
    using Cons.prems by (intro Cons.IH) auto
  moreover have "Cur \<noteq> x" using Cons.prems(2,3) by (metis distinct.simps(2) last_ConsR last_in_set list.simps(3))
  moreover have "Cur \<notin> set OnPath" "Cur < length (Blocks G)" "b \<in> set (succs G Cur)" "Cur \<notin> set Self"
    using Cons.prems by auto
  ultimately show ?case
    by (auto simp: apr_dfs.simps [of G Self x Cur] Let_def list_all_iff)
qed

lemma self_call_blocks_iff:
  "b \<in> set (self_call_blocks selfCall G) \<longleftrightarrow>
     b < length (Blocks G) \<and> list_ex selfCall (Statements (Blocks G ! b))"
  by (auto simp: self_call_blocks_def)

text \<open>
  "All paths recurse" holds exactly when some block calls the function itself and every walk from
  the entry to the exit block, however long, passes through such a block: the search over simple
  paths misses no base case.
\<close>

theorem all_paths_recurse_iff:
  assumes "wf_cfg G" and "EntryBlock G = Some e" and "ExitBlock G = Some x"
  shows "allPathsRecurse selfCall G \<longleftrightarrow>
    (\<exists>b < length (Blocks G). list_ex selfCall (Statements (Blocks G ! b))) \<and>
    (\<forall>bs. walk G bs \<and> hd bs = e \<and> last bs = x \<longrightarrow>
       (\<exists>b \<in> set bs. list_ex selfCall (Statements (Blocks G ! b))))"
proof -
  let ?Self = "self_call_blocks selfCall G"
  have x: "x < length (Blocks G)" using assms by (auto simp: wf_cfg_def)
  have some: "?Self \<noteq> [] \<longleftrightarrow> (\<exists>b < length (Blocks G). list_ex selfCall (Statements (Blocks G ! b)))"
    by (auto simp: self_call_blocks_def filter_empty_conv)
  have meets: "set bs \<inter> set ?Self \<noteq> {} \<longleftrightarrow> (\<exists>b \<in> set bs. list_ex selfCall (Statements (Blocks G ! b)))"
    if "walk G bs" for bs
    using walk_bound [OF that] unfolding self_call_blocks_iff disjoint_iff by blast
  have dfs: "apr_dfs G ?Self x e False [] \<longleftrightarrow>
      (\<forall>bs. walk G bs \<and> hd bs = e \<and> last bs = x \<longrightarrow> set bs \<inter> set ?Self \<noteq> {})" (is "?L \<longleftrightarrow> ?R")
  proof
    assume L: ?L
    show ?R
    proof (intro allI impI)
      fix bs assume w: "walk G bs \<and> hd bs = e \<and> last bs = x"
      then obtain cs where cs: "walk G cs" "distinct cs" "set cs \<subseteq> set bs" "hd cs = e" "last cs = x"
        using simple_walk by metis
      then obtain c cs' where "cs = c # cs'" by (cases cs) auto
      with cs L apr_dfs_finds [of G e cs' x ?Self "[]"] show "set bs \<inter> set ?Self \<noteq> {}" by auto
    qed
  next
    assume R: ?R
    show ?L
    proof (rule ccontr)
      assume "\<not> ?L"
      from apr_dfs_base_case [OF assms(1) x this] R show False by (metis list.sel(1))
    qed
  qed
  have "allPathsRecurse selfCall G \<longleftrightarrow> ?Self \<noteq> [] \<and> apr_dfs G ?Self x e False []"
    using assms(2,3) by (simp add: allPathsRecurse_def Let_def)
  then show ?thesis unfolding some dfs using meets by blast
qed

end
