(* ===== verification/Types.thy ===== *)
theory Types
  imports CppString LexToken "HOL-Library.AList"
begin

text \<open>
  The types of the language, \<open>src/src/sema/Types.h\<close>: one constructor per subclass of \<open>TurfType\<close>, with the names
  that errors and comparisons use and the equivalence of types. A pointer to a type may be null only inside a
  function type.
\<close>

section \<open>Types\<close>

datatype TurfType =
    IntType
  | Int32Type
  | DoubleType
  | BoolType
  | CharType
  | StringType
  | AnyErrorType
  | VoidType
  | GuessType
  | TurfNullType
  | OpaquePointerType
  | NamedType string string bool
  | ArrayType TurfType int string
  | TurfPointerType TurfType
  | TurfReferenceType TurfType
  | TurfNullableReferenceType TurfType
  | TurfGenericParamType string
  | TurfSizeValueType int
  | GenericType string "TurfType list" string bool
  | TurfStructType string "(string \<times> TurfType) list" "string list"
  | TurfEnumType string "string list" TurfType
  | TurfMachineType string "string list" "(string \<times> string list) list"
  | TurfUserErrorType string "(string \<times> (string \<times> TurfType) list) list" bool
  | TurfErrorUnionType TurfType
  | FuncType "TurfType option" "TurfType option list"

lemma size_type_in_list: "t \<in> set ts \<Longrightarrow> size t < Suc (size_list size ts)"
  by (induction ts) auto

lemma size_type_in_options: "Some t \<in> set ps \<Longrightarrow> size t < Suc (size_list (size_option size) ps)"
  by (induction ps) auto

lemma size_type_in_zip: "(a, b) \<in> set (zip ts us) \<Longrightarrow> size a < Suc (size_list size ts)"
  using size_type_in_list by (blast dest: set_zip_leftD)

lemma size_option_in_list: "p \<in> set ps \<Longrightarrow> size_option size (p :: TurfType option) < Suc (size_list (size_option size) ps)"
  by (induction ps) auto

lemma size_option_in_zip:
  "(p, b) \<in> set (zip ps qs) \<Longrightarrow> size_option size (p :: TurfType option) < Suc (size_list (size_option size) ps)"
  using size_option_in_list by (blast dest: set_zip_leftD)

text \<open>An array whose length is a parameter of its function has no size yet.\<close>

definition kSymbolicSize :: int where
  "kSymbolicSize = -2"

definition hasSymbolicSize :: "string \<Rightarrow> bool" where
  "hasSymbolicSize SizeParam \<longleftrightarrow> SizeParam \<noteq> []"

definition makeArrayType :: "TurfType \<Rightarrow> int \<Rightarrow> TurfType" where
  "makeArrayType ElemType Size = ArrayType ElemType Size []"

definition makeSymbolicArray :: "TurfType \<Rightarrow> string \<Rightarrow> TurfType" where
  "makeSymbolicArray ElemType SizeParam = ArrayType ElemType kSymbolicSize SizeParam"

section \<open>Kinds\<close>

definition isReference :: "TurfType \<Rightarrow> bool" where
  "isReference t = (case t of TurfReferenceType p \<Rightarrow> True | _ \<Rightarrow> False)"

definition isNullableReference :: "TurfType \<Rightarrow> bool" where
  "isNullableReference t = (case t of TurfNullableReferenceType p \<Rightarrow> True | _ \<Rightarrow> False)"

definition isArray :: "TurfType \<Rightarrow> bool" where
  "isArray t = (case t of ArrayType e n p \<Rightarrow> True | _ \<Rightarrow> False)"

definition isFunc :: "TurfType \<Rightarrow> bool" where
  "isFunc t = (case t of FuncType r ps \<Rightarrow> True | _ \<Rightarrow> False)"

definition isNull :: "TurfType \<Rightarrow> bool" where
  "isNull t = (case t of TurfNullType \<Rightarrow> True | _ \<Rightarrow> False)"

text \<open>The three classes derived from \<open>TurfPointerType\<close>, with what they point to.\<close>

definition pointee_of :: "TurfType \<Rightarrow> TurfType option" where
  "pointee_of t = (case t of
      TurfPointerType p \<Rightarrow> Some p
    | TurfReferenceType p \<Rightarrow> Some p
    | TurfNullableReferenceType p \<Rightarrow> Some p
    | _ \<Rightarrow> None)"

definition isPointer :: "TurfType \<Rightarrow> bool" where
  "isPointer t \<longleftrightarrow> pointee_of t \<noteq> None \<or> t = OpaquePointerType"

definition isVoid :: "TurfType \<Rightarrow> bool" where
  "isVoid t = (case t of VoidType \<Rightarrow> True | NamedType N M R \<Rightarrow> N = ''void'' | _ \<Rightarrow> False)"

definition isString :: "TurfType \<Rightarrow> bool" where
  "isString t = (case t of StringType \<Rightarrow> True | _ \<Rightarrow> False)"

definition isBool :: "TurfType \<Rightarrow> bool" where
  "isBool t = (case t of BoolType \<Rightarrow> True | _ \<Rightarrow> False)"

definition isEnum :: "TurfType \<Rightarrow> bool" where
  "isEnum t = (case t of TurfEnumType N Vs U \<Rightarrow> True | TurfMachineType N Vs Es \<Rightarrow> True | _ \<Rightarrow> False)"

definition isNumeric :: "TurfType \<Rightarrow> bool" where
  "isNumeric t = (case t of IntType \<Rightarrow> True | Int32Type \<Rightarrow> True | DoubleType \<Rightarrow> True | _ \<Rightarrow> False)"

section \<open>Names\<close>

fun join :: "string \<Rightarrow> string list \<Rightarrow> string" where
  "join sep [] = []"
| "join sep [s] = s"
| "join sep (s # ss) = s @ sep @ join sep ss"

definition dimension :: "int \<Rightarrow> string \<Rightarrow> string" where
  "dimension Size SizeParam =
    (if hasSymbolicSize SizeParam then ''['' @ SizeParam @ '']''
     else if Size < 0 then ''[]''
     else ''['' @ to_string Size @ '']'')"

text \<open>The dimensions of an array, outermost first, and what the innermost one holds.\<close>

fun array_dims :: "TurfType \<Rightarrow> string" where
  "array_dims (ArrayType e n p) = dimension n p @ array_dims e"
| "array_dims t = []"

fun array_base :: "TurfType \<Rightarrow> TurfType" where
  "array_base (ArrayType e n p) = array_base e"
| "array_base t = t"

lemma size_array_base: "size (array_base t) \<le> size t"
  by (induction t rule: array_base.induct) auto

definition in_parens :: "string \<Rightarrow> string" where
  "in_parens s = ''('' @ s @ '')''"

text \<open>The type parts a name is made of, in a name's order.\<close>

function getName :: "TurfType \<Rightarrow> string" where
  "getName IntType = ''int''"
| "getName Int32Type = ''int32''"
| "getName DoubleType = ''double''"
| "getName BoolType = ''bool''"
| "getName CharType = ''char''"
| "getName StringType = ''string''"
| "getName AnyErrorType = ''<error>''"
| "getName VoidType = ''void''"
| "getName GuessType = ''guess''"
| "getName TurfNullType = ''null''"
| "getName OpaquePointerType = ''ptr''"
| "getName (NamedType N M R) = N"
| "getName (ArrayType e n p) =
    (let Base = array_base e; Dims = dimension n p @ array_dims e
     in if isReference Base \<or> isNullableReference Base \<or> isFunc Base then in_parens (getName Base) @ Dims
        else getName Base @ Dims)"
| "getName (TurfPointerType p) = getName p @ ''*''"
| "getName (TurfReferenceType p) = (if isArray p then [CHR 0x26] @ in_parens (getName p) else [CHR 0x26] @ getName p)"
| "getName (TurfNullableReferenceType p) =
    (if isArray p then [CHR 0x26] @ ''?'' @ in_parens (getName p) else [CHR 0x26] @ ''?'' @ getName p)"
| "getName (TurfGenericParamType N) = N"
| "getName (TurfSizeValueType V) = to_string V"
| "getName (GenericType B args M R) = B @ ''<'' @ join '', '' (map getName args) @ ''>''"
| "getName (TurfStructType N fs ps) = N"
| "getName (TurfEnumType N Vs U) = N"
| "getName (TurfMachineType N Vs Es) = N"
| "getName (TurfUserErrorType N Vs B) = N"
| "getName (TurfErrorUnionType s) = ''!'' @ getName s"
| "getName (FuncType r ps) =
    ''fn('' @ join '', '' (map (\<lambda>p. case p of Some t \<Rightarrow> getName t | None \<Rightarrow> ''?'') ps) @ ''): '' @
    (case r of Some t \<Rightarrow> getName t | None \<Rightarrow> ''void'')"
  by pat_completeness auto
termination
proof (relation "measure size", goal_cases)
  case (2 e n p Base)
  then show ?case using size_array_base [of e] by (simp add: le_imp_less_Suc)
next
  case (3 e n p Base)
  then show ?case using size_array_base [of e] by (simp add: le_imp_less_Suc)
qed (auto dest: size_type_in_list size_type_in_options)

text \<open>The names used for symbols of the object file.\<close>

function getMangledName :: "TurfType \<Rightarrow> string" where
  "getMangledName (ArrayType e n p) =
    getMangledName e @ ''_arr_'' @ (if hasSymbolicSize p then p else to_string n)"
| "getMangledName (TurfPointerType p) = getMangledName p @ ''_ptr''"
| "getMangledName (TurfReferenceType p) = getMangledName p @ ''_ref''"
| "getMangledName (TurfNullableReferenceType p) = getMangledName p @ ''_nref''"
| "getMangledName (TurfSizeValueType V) = ''n'' @ to_string V"
| "getMangledName (GenericType B args M R) = B @ concat (map (\<lambda>a. ''_'' @ getMangledName a) args)"
| "getMangledName (TurfEnumType N Vs U) = N @ ''_enum_'' @ getMangledName U"
| "getMangledName (TurfMachineType N Vs Es) = N @ ''_machine''"
| "getMangledName (TurfUserErrorType N Vs B) = N @ ''_error''"
| "getMangledName (TurfErrorUnionType s) = ''errunion_'' @ getMangledName s"
| "getMangledName (FuncType r ps) =
    ''fnty'' @ concat (map (\<lambda>p. ''_'' @ (case p of Some t \<Rightarrow> getMangledName t | None \<Rightarrow> ''unk'')) ps) @
    ''_ret_'' @ (case r of Some t \<Rightarrow> getMangledName t | None \<Rightarrow> ''void'')"
| "getMangledName IntType = getName IntType"
| "getMangledName Int32Type = getName Int32Type"
| "getMangledName DoubleType = getName DoubleType"
| "getMangledName BoolType = getName BoolType"
| "getMangledName CharType = getName CharType"
| "getMangledName StringType = getName StringType"
| "getMangledName AnyErrorType = getName AnyErrorType"
| "getMangledName VoidType = getName VoidType"
| "getMangledName GuessType = getName GuessType"
| "getMangledName TurfNullType = getName TurfNullType"
| "getMangledName OpaquePointerType = getName OpaquePointerType"
| "getMangledName (NamedType N M R) = getName (NamedType N M R)"
| "getMangledName (TurfGenericParamType N) = getName (TurfGenericParamType N)"
| "getMangledName (TurfStructType N fs ps) = getName (TurfStructType N fs ps)"
  by pat_completeness auto
termination
  by (relation "measure size") (auto dest: size_type_in_list size_type_in_options)

section \<open>Equivalence\<close>

text \<open>Equality of names, but part by part for arrays, sizes and function types.\<close>

function isEquivalent :: "TurfType \<Rightarrow> TurfType option \<Rightarrow> bool" where
  "isEquivalent t Other = (case t of
      ArrayType e n p \<Rightarrow>
        (case Other of
           Some (ArrayType e' n' p') \<Rightarrow> n = n' \<and> p = p' \<and> isEquivalent e (Some e')
         | _ \<Rightarrow> False)
    | TurfSizeValueType V \<Rightarrow>
        (case Other of Some (TurfSizeValueType V') \<Rightarrow> V' = V | _ \<Rightarrow> False)
    | FuncType r ps \<Rightarrow>
        (case Other of
           Some (FuncType r' ps') \<Rightarrow>
             length ps = length ps' \<and>
             list_all (\<lambda>(p, p'). case p of Some t \<Rightarrow> isEquivalent t p' | None \<Rightarrow> False) (zip ps ps') \<and>
             (case r of Some t \<Rightarrow> isEquivalent t r' | None \<Rightarrow> False)
         | _ \<Rightarrow> False)
    | _ \<Rightarrow> (case Other of Some o' \<Rightarrow> getName t = getName o' | None \<Rightarrow> False))"
  by pat_completeness auto
termination
  by (relation "measure (\<lambda>(t, Other). size t)") (auto dest!: size_option_in_zip)

declare isEquivalent.simps [simp del]

section \<open>Structs, enums and machines\<close>

fun field_index_from :: "int \<Rightarrow> string \<Rightarrow> (string \<times> TurfType) list \<Rightarrow> int" where
  "field_index_from i FieldName [] = -1"
| "field_index_from i FieldName ((n, t) # fs) = (if n = FieldName then i else field_index_from (i + 1) FieldName fs)"

definition getFieldIndex :: "string \<Rightarrow> (string \<times> TurfType) list \<Rightarrow> int" where
  "getFieldIndex FieldName Fields = field_index_from 0 FieldName Fields"

definition getFieldType :: "string \<Rightarrow> (string \<times> TurfType) list \<Rightarrow> TurfType option" where
  "getFieldType FieldName Fields =
    (let idx = getFieldIndex FieldName Fields in if 0 \<le> idx then Some (snd (Fields ! nat idx)) else None)"

text \<open>The constructor of an enum numbers its variants; a later variant of the same name replaces the number.\<close>

definition VariantValues :: "string list \<Rightarrow> (string \<times> int) list" where
  "VariantValues Variants = fold (\<lambda>i M. AList.update (Variants ! i) (int i) M) [0..<length Variants] []"

definition getVariantValue :: "string list \<Rightarrow> string \<Rightarrow> int" where
  "getVariantValue Variants V = (case map_of (VariantValues Variants) V of Some i \<Rightarrow> i | None \<Rightarrow> -1)"

definition hasVariant :: "string list \<Rightarrow> string \<Rightarrow> bool" where
  "hasVariant Variants V \<longleftrightarrow> map_of (VariantValues Variants) V \<noteq> None"

definition hasEdge :: "(string \<times> string list) list \<Rightarrow> string \<Rightarrow> string \<Rightarrow> bool" where
  "hasEdge Edges From To = (case map_of Edges From of Some tos \<Rightarrow> To \<in> set tos | None \<Rightarrow> False)"

definition getVariantInfo ::
    "(string \<times> (string \<times> TurfType) list) list \<Rightarrow> string \<Rightarrow> (string \<times> (string \<times> TurfType) list) option" where
  "getVariantInfo VariantInfos V = List.find (\<lambda>Info. fst Info = V) VariantInfos"

definition hasErrorVariant :: "(string \<times> (string \<times> TurfType) list) list \<Rightarrow> string \<Rightarrow> bool" where
  "hasErrorVariant VariantInfos V \<longleftrightarrow> V \<in> set (map fst VariantInfos)"

section \<open>Symbols of instantiations\<close>

definition SymbolNames :: "(string \<times> string) list" where
  "SymbolNames =
    [(''operator+'', ''operator_plus''),
     (''operator-'', ''operator_minus''),
     (''operator*'', ''operator_star''),
     (''operator/'', ''operator_slash''),
     (''operator%'', ''operator_mod''),
     (''operator**'', ''operator_pow''),
     (''operator'' @ [CHR 0x26], ''operator_band''),
     (''operator|'', ''operator_bor''),
     (''operator^'', ''operator_bxor''),
     (''operator<<'', ''operator_shl''),
     (''operator>>'', ''operator_shr''),
     (''operator=='', ''operator_eq''),
     (''operator!='', ''operator_ne''),
     (''operator<'', ''operator_lt''),
     (''operator>'', ''operator_gt''),
     (''operator<='', ''operator_le''),
     (''operator>='', ''operator_ge''),
     (''operator!'', ''operator_not''),
     (''operator~'', ''operator_bnot''),
     (''operator[]'', ''operator_index''),
     (''operator[]='', ''operator_index_set'')]"

definition sanitizeSymbolName :: "string \<Rightarrow> string" where
  "sanitizeSymbolName Name = (case map_of SymbolNames Name of Some s \<Rightarrow> s | None \<Rightarrow> Name)"

definition instantiatedDeclName :: "string \<Rightarrow> TurfType list \<Rightarrow> string \<Rightarrow> string" where
  "instantiatedDeclName BaseName TypeArgs Module =
    (if Module = [] then [] else Module @ ''_'') @ sanitizeSymbolName BaseName @ ''_gen'' @ to_string (int (length TypeArgs)) @
    concat (map (\<lambda>A. ''_'' @ getMangledName A) TypeArgs)"

section \<open>Identities of named types\<close>

text \<open>\<open>module::name\<close> for a type of a module, the bare name for a type of the main file.\<close>

definition identity_of :: "string \<Rightarrow> string \<Rightarrow> string" where
  "identity_of Module Name = (if Module = [] then Name else Module @ ''::'' @ Name)"

definition owningModule :: "string \<Rightarrow> string" where
  "owningModule Ident = (case str_find ''::'' Ident of None \<Rightarrow> [] | Some P \<Rightarrow> take P Ident)"

definition bareName :: "string \<Rightarrow> string" where
  "bareName Ident = (case str_find ''::'' Ident of None \<Rightarrow> Ident | Some P \<Rightarrow> drop (P + 2) Ident)"

definition isModuleQualified :: "string \<Rightarrow> bool" where
  "isModuleQualified Ident \<longleftrightarrow> str_find ''::'' Ident \<noteq> None"

text \<open>The Resolver turns what a declaration wrote into an identity, in place.\<close>

definition isResolvedIdentity :: "string \<Rightarrow> bool \<Rightarrow> bool" where
  "isResolvedIdentity Name Resolved \<longleftrightarrow> Resolved \<or> isModuleQualified Name"

definition resolveTo :: "string \<Rightarrow> TurfType \<Rightarrow> TurfType" where
  "resolveTo Identity t = (case t of NamedType N M R \<Rightarrow> NamedType Identity M True | _ \<Rightarrow> t)"

definition resolveBaseTo :: "string \<Rightarrow> TurfType \<Rightarrow> TurfType" where
  "resolveBaseTo Identity t = (case t of GenericType B args M R \<Rightarrow> GenericType Identity args M True | _ \<Rightarrow> t)"

definition makeResolvedNamedType :: "string \<Rightarrow> TurfType" where
  "makeResolvedNamedType Identity = resolveTo Identity (NamedType Identity [] False)"

fun llvmName :: "string \<Rightarrow> string" where
  "llvmName (a # b # Ident) =
    (if a = CHR '':'' \<and> b = CHR '':'' then CHR ''.'' # llvmName Ident else a # llvmName (b # Ident))"
| "llvmName Ident = Ident"

end
