(* ===== verification/Ast.thy ===== *)
theory Ast
  imports LexToken Types
begin

text \<open>
  The syntax tree of \<open>src/src/frontend/ASTExpr.h\<close>, \<open>ASTStmt.h\<close>, \<open>ASTAccess.h\<close> and \<open>ASTDecl.h\<close>, one
  constructor per node class of a function body, with the fields the modelled passes read; \<open>NoExpr\<close>
  is the null pointer. \<open>children\<close> is \<open>ASTChildWalker\<close>, and \<open>AstDepthExceeds\<close> its depth fence.
\<close>

section \<open>Nodes\<close>

text \<open>A variable symbol is its address.\<close>

record VariableSymbol =
  VarId :: nat
  VarName :: string
  VarType :: "TurfType option"
  VarDeclLoc :: SourceLocation

text \<open>The declared size of a variable whose type is an array.\<close>

definition VarArraySize :: "VariableSymbol \<Rightarrow> int option" where
  "VarArraySize S = (case VarType S of Some (ArrayType t n sp) \<Rightarrow> Some n | _ \<Rightarrow> None)"

datatype RecoverKind = Produce | Run | AsRun

text \<open>
  What the type checker found for a method call: nothing, a method, or a free function that takes the
  receiver as its first argument, reading the value behind it or not.
\<close>

datatype CallTarget = Unresolved | BoundMethod | ViaUFCS bool

datatype ExprAST =
    NoExpr
  | NumberExpr bool int
  | BoolExpr bool
  | CharExpr char
  | StringExpr string
  | NullExpr SourceLocation
  | VariableExpr SourceLocation string "VariableSymbol option"
  | BinaryExpr SourceLocation int ExprAST ExprAST bool
  | UnaryExpr SourceLocation int ExprAST bool
  | AddressOfExpr SourceLocation ExprAST
  | SizeOfExpr SourceLocation
  | CallerLocationExpr SourceLocation
  | AssignmentExpr SourceLocation ExprAST ExprAST
  | CompoundAssignmentExpr SourceLocation int ExprAST ExprAST bool
  | PostfixExpr SourceLocation int ExprAST bool bool
  | CastExpr SourceLocation "TurfType option" ExprAST
  | VarDeclExpr SourceLocation string ExprAST "VariableSymbol option"
  | ArrayDeclExpr SourceLocation string int "ExprAST list" ExprAST "VariableSymbol option"
  | FuncCallExpr SourceLocation "(string \<times> string) option" ExprAST "ExprAST list"
  | MethodCallExpr SourceLocation ExprAST string "ExprAST list" CallTarget
  | FieldAccessExpr SourceLocation ExprAST string
  | ScopeAccessExpr SourceLocation string string
  | ArrayLiteralExpr SourceLocation "ExprAST list"
  | ArrayAccessExpr SourceLocation ExprAST ExprAST bool
  | SliceExpr SourceLocation ExprAST ExprAST ExprAST
  | BlockExpr "ExprAST list"
  | UnsafeBlockExpr SourceLocation ExprAST
  | IfExpr "CondBranch list" ExprAST
  | WhileExpr SourceLocation ExprAST ExprAST
  | DoWhileExpr SourceLocation ExprAST ExprAST
  | ForExpr SourceLocation string ExprAST ExprAST ExprAST ExprAST
  | ForEachExpr SourceLocation string string ExprAST ExprAST
  | BreakExpr SourceLocation
  | ContinueExpr SourceLocation
  | ReturnExpr SourceLocation ExprAST
  | CompareExpr SourceLocation ExprAST "MatchesArm list" ExprAST bool
  | WildcardPattern SourceLocation
  | BindingPattern SourceLocation string "VariableSymbol option"
  | StructPattern SourceLocation "ExprAST list"
  | ErrorVariantPattern SourceLocation ExprAST "ExprAST list"
  | RecoverExpr SourceLocation ExprAST RecoverKind ExprAST ExprAST
  | TryExpr SourceLocation ExprAST
  | DeferExpr SourceLocation ExprAST
  | FuncDefExpr SourceLocation string ExprAST
  | DeclExpr string
and CondBranch = CondBranch (br_loc: SourceLocation) (br_cond: ExprAST) (br_body: ExprAST)
and MatchesArm = MatchesArm (arm_loc: SourceLocation) (arm_values: "ExprAST list")
    (arm_guards: "ExprAST list") (arm_body: ExprAST)

section \<open>Children\<close>

text \<open>
  The children the walker visits, in its order; a null child is dropped (\<open>visitChild\<close> returns at
  once). Of a \<open>recover\<close> only the failure path of its kind is visited, and the head of an error
  variant pattern is not.
\<close>

definition all_children :: "ExprAST \<Rightarrow> ExprAST list" where
  "all_children e = (case e of
      VarDeclExpr loc name init vs \<Rightarrow> [init]
    | BinaryExpr loc op l r p \<Rightarrow> [l, r]
    | UnaryExpr loc op x p \<Rightarrow> [x]
    | AddressOfExpr loc x \<Rightarrow> [x]
    | AssignmentExpr loc l r \<Rightarrow> [l, r]
    | CompoundAssignmentExpr loc op l r p \<Rightarrow> [l, r]
    | PostfixExpr loc op x pre p \<Rightarrow> [x]
    | CastExpr loc D x \<Rightarrow> [x]
    | BlockExpr es \<Rightarrow> es
    | UnsafeBlockExpr loc b \<Rightarrow> [b]
    | IfExpr brs els \<Rightarrow> concat (map (\<lambda>b. [br_cond b, br_body b]) brs) @ [els]
    | WhileExpr loc c b \<Rightarrow> [c, b]
    | DoWhileExpr loc b c \<Rightarrow> [c, b]
    | ForExpr loc v s t st b \<Rightarrow> [s, t, st, b]
    | ForEachExpr loc v i it b \<Rightarrow> [it, b]
    | ReturnExpr loc v \<Rightarrow> [v]
    | CompareExpr loc s arms other ex \<Rightarrow>
        s # concat (map (\<lambda>a. arm_values a @ arm_guards a @ [arm_body a]) arms) @ [other]
    | DeferExpr loc s \<Rightarrow> [s]
    | StructPattern loc subs \<Rightarrow> subs
    | ErrorVariantPattern loc h subs \<Rightarrow> subs
    | FuncCallExpr loc t c args \<Rightarrow> c # args
    | MethodCallExpr loc b m args ct \<Rightarrow> b # args
    | FieldAccessExpr loc b f \<Rightarrow> [b]
    | RecoverExpr loc w k p b \<Rightarrow> [w, if k = Produce then p else b]
    | TryExpr loc x \<Rightarrow> [x]
    | ArrayDeclExpr loc n sz inits init vs \<Rightarrow> inits @ [init]
    | ArrayLiteralExpr loc es \<Rightarrow> es
    | ArrayAccessExpr loc b i p \<Rightarrow> [b, i]
    | SliceExpr loc b s t \<Rightarrow> [b, s, t]
    | FuncDefExpr loc n b \<Rightarrow> [b]
    | _ \<Rightarrow> [])"

definition children :: "ExprAST \<Rightarrow> ExprAST list" where
  "children e = filter (\<lambda>c. c \<noteq> NoExpr) (all_children e)"

lemma size_branch: "b \<in> set brs \<Longrightarrow> size (br_cond b) < size_list size brs \<and> size (br_body b) < size_list size brs"
proof (induction brs)
  case Nil
  then show ?case by simp
next
  case (Cons a brs)
  then show ?case by (cases a) auto
qed

lemma size_arm:
  assumes "a \<in> set arms"
  shows "x \<in> set (arm_values a) \<Longrightarrow> size x < size_list size arms"
    "x \<in> set (arm_guards a) \<Longrightarrow> size x < size_list size arms" "size (arm_body a) < size_list size arms"
proof -
  have a: "size a < size_list size arms" using assms by (induction arms) auto
  obtain l vs gs b where s: "a = MatchesArm l vs gs b" by (cases a)
  show "x \<in> set (arm_values a) \<Longrightarrow> size x < size_list size arms"
    "x \<in> set (arm_guards a) \<Longrightarrow> size x < size_list size arms" "size (arm_body a) < size_list size arms"
    using a s size_list_estimation' [of x vs "size x" size] size_list_estimation' [of x gs "size x" size] by auto
qed

lemma size_in_list: "x \<in> set xs \<Longrightarrow> size x < Suc (size_list size xs)"
  by (induction xs) auto

lemma size_all_children: "c \<in> set (all_children e) \<Longrightarrow> size c < size e"
proof (cases e)
  case (IfExpr brs els)
  assume "c \<in> set (all_children e)"
  with IfExpr size_branch [of _ brs] show ?thesis by (fastforce simp: all_children_def)
next
  case (CompareExpr loc s arms other ex)
  assume "c \<in> set (all_children e)"
  with CompareExpr consider "c = s" | "c = other"
    | a where "a \<in> set arms" "c \<in> set (arm_values a) \<or> c \<in> set (arm_guards a) \<or> c = arm_body a"
    by (auto simp: all_children_def)
  then show ?thesis using CompareExpr size_arm by cases fastforce+
qed (auto simp: all_children_def dest: size_in_list split: if_split_asm)

lemma size_children: "c \<in> set (children e) \<Longrightarrow> size c < size e"
  by (auto simp: children_def dest: size_all_children)

section \<open>The depth fence\<close>

text \<open>Depth of a tree in levels of nodes.\<close>

function expr_depth :: "ExprAST \<Rightarrow> nat" where
  "expr_depth e = Suc (fold max (map expr_depth (children e)) 0)"
  by pat_completeness auto
termination
  by (relation "measure size") (auto intro: size_children)

text \<open>
  \<open>visitChild\<close> with its fence: at depth \<open>d\<close> of a walk limited to \<open>limit\<close> levels (no limit for 0), does
  the walk record that the tree is too deep?
\<close>

function too_deep :: "nat \<Rightarrow> nat \<Rightarrow> ExprAST \<Rightarrow> bool" where
  "too_deep limit d e =
    (if limit \<noteq> 0 \<and> limit \<le> d then True else list_ex (too_deep limit (Suc d)) (children e))"
  by pat_completeness auto
termination
  by (relation "measure (\<lambda>(limit, d, e). size e)") (auto intro: size_children)

declare expr_depth.simps [simp del] too_deep.simps [simp del]

definition AstDepthExceeds :: "ExprAST \<Rightarrow> nat \<Rightarrow> bool" where
  "AstDepthExceeds Root Limit = (Root \<noteq> NoExpr \<and> too_deep Limit 0 Root)"

lemma fold_max_less: "fold max xs a < (n :: nat) \<longleftrightarrow> a < n \<and> (\<forall>x \<in> set xs. x < n)"
  by (induction xs arbitrary: a) auto

lemma too_deep_iff: "limit \<noteq> 0 \<Longrightarrow> d \<le> limit \<Longrightarrow> too_deep limit d e \<longleftrightarrow> limit < d + expr_depth e"
proof (induction limit d e rule: too_deep.induct)
  case (1 limit d e)
  show ?case
  proof (cases "limit \<le> d")
    case True
    then show ?thesis by (simp add: too_deep.simps [of limit d] expr_depth.simps [of e] 1)
  next
    case False
    then have "too_deep limit (Suc d) c \<longleftrightarrow> limit < Suc d + expr_depth c" if "c \<in> set (children e)" for c
      using 1(1) [OF _ that] 1(2) by simp
    then have "too_deep limit d e \<longleftrightarrow> (\<exists>c \<in> set (children e). limit < Suc d + expr_depth c)"
      using False by (simp add: too_deep.simps [of limit d] list_ex_iff)
    also have "\<dots> \<longleftrightarrow> \<not> fold max (map expr_depth (children e)) 0 < limit - d"
      using False by (auto simp: fold_max_less not_less less_Suc_eq_le le_diff_conv add.commute)
    also have "\<dots> \<longleftrightarrow> limit < d + expr_depth e"
      using False by (auto simp: expr_depth.simps [of e])
    finally show ?thesis .
  qed
qed

end
