(* ===== verification/CfgBuilder.thy ===== *)
theory CfgBuilder
  imports FlowGraph Ast
begin

text \<open>
  \<open>CFGBuilder\<close> of \<open>src/src/analysis/CFG.cpp\<close>: from the body of a function to its control-flow graph. The
  builder's fields are a record; a raised error leaves the builder (\<open>Inl\<close>). The handlers of the single
  statement kinds take \<open>visitExpr\<close> as their argument, which ties the knot; its termination is that
  every handler visits smaller trees only.
\<close>

section \<open>The builder\<close>

datatype CfgError =
    StatementAfterTerminatorError SourceLocation string
  | ControlFlowError SourceLocation string

record BuildState =
  CurrentCFG :: "ExprAST CFG"
  CurrentBlock :: "nat option"
  LoopContinueTarget :: "nat option"
  LoopBreakTarget :: "nat option"
  LastTerminatorLoc :: SourceLocation
  DeferScopes :: "ExprAST list list"
  LoopDeferDepth :: nat
  BlocksInCFG :: "ExprAST list"

type_synonym built = "CfgError + BuildState"
type_synonym visitor = "ExprAST \<Rightarrow> BuildState \<Rightarrow> built"

definition new_builder :: BuildState where
  "new_builder = \<lparr>CurrentCFG = new_cfg [] True (loc3 0 0 []) [], CurrentBlock = None,
     LoopContinueTarget = None, LoopBreakTarget = None, LastTerminatorLoc = loc3 0 0 [],
     DeferScopes = [], LoopDeferDepth = 0, BlocksInCFG = []\<rparr>"

definition then_do :: "'e + 'a \<Rightarrow> ('a \<Rightarrow> 'e + 'b) \<Rightarrow> 'e + 'b" where
  "then_do r f = (case r of Inl e \<Rightarrow> Inl e | Inr a \<Rightarrow> f a)"

lemma then_do_simps [simp]: "then_do (Inl e) f = Inl e" "then_do (Inr a) f = f a"
  by (simp_all add: then_do_def)

lemma then_do_cong [fundef_cong]:
  "r = r' \<Longrightarrow> (\<And>a. r' = Inr a \<Longrightarrow> f a = f' a) \<Longrightarrow> then_do r f = then_do r' f'"
  by (cases r) auto

fun seq_r :: "('x \<Rightarrow> 's \<Rightarrow> 'e + 's) \<Rightarrow> 'x list \<Rightarrow> 's \<Rightarrow> 'e + 's" where
  "seq_r f [] s = Inr s"
| "seq_r f (x # xs) s = then_do (f x s) (seq_r f xs)"

lemma seq_r_cong [fundef_cong]:
  assumes "xs = ys" and "s = t" and "\<And>x s. x \<in> set ys \<Longrightarrow> f x s = g x s"
  shows "seq_r f xs s = seq_r g ys t"
  using assms(3) unfolding assms(1,2)
proof (induction ys arbitrary: t)
  case Nil
  then show ?case by simp
next
  case (Cons y ys)
  from Cons.prems have "f y t = g y t" by simp
  moreover have "seq_r f ys a = seq_r g ys a" for a using Cons by simp
  ultimately show ?case by (metis (no_types) seq_r.simps(2) then_do_cong)
qed

definition on_graph :: "(ExprAST CFG \<Rightarrow> ExprAST CFG) \<Rightarrow> BuildState \<Rightarrow> BuildState" where
  "on_graph f s = s\<lparr>CurrentCFG := f (CurrentCFG s)\<rparr>"

definition new_bb :: "string \<Rightarrow> BuildState \<Rightarrow> nat \<times> BuildState" where
  "new_bb name s = (case createBlock name (CurrentCFG s) of (b, G) \<Rightarrow> (b, s\<lparr>CurrentCFG := G\<rparr>))"

definition link :: "nat \<Rightarrow> nat \<Rightarrow> BuildState \<Rightarrow> BuildState" where
  "link f t = on_graph (addEdge (Some f) (Some t))"

definition add_stmt :: "nat \<Rightarrow> ExprAST \<Rightarrow> BuildState \<Rightarrow> BuildState" where
  "add_stmt b e = on_graph (on_block b (addStatement e))"

definition set_term :: "nat \<Rightarrow> TerminatorKind \<Rightarrow> SourceLocation \<Rightarrow> BuildState \<Rightarrow> BuildState" where
  "set_term b k loc = on_graph (on_block b (setTerminator k loc))"

definition setInsertPoint :: "nat option \<Rightarrow> BuildState \<Rightarrow> BuildState" where
  "setInsertPoint b s = s\<lparr>CurrentBlock := b\<rparr>"

text \<open>Is the insert point a block that control can run off?\<close>

definition live :: "BuildState \<Rightarrow> bool" where
  "live s = (case CurrentBlock s of None \<Rightarrow> False | Some b \<Rightarrow> \<not> hasExplicitTerminator (Blocks (CurrentCFG s) ! b))"

definition fall_to :: "nat \<Rightarrow> BuildState \<Rightarrow> BuildState" where
  "fall_to b s = (if live s then on_graph (addEdge (CurrentBlock s) (Some b)) s else s)"

definition emitDeferredRuns :: "nat \<Rightarrow> BuildState \<Rightarrow> BuildState" where
  "emitDeferredRuns depth s = (case CurrentBlock s of
      None \<Rightarrow> s
    | Some b \<Rightarrow> fold (\<lambda>st. on_graph (on_block b (addDeferredRun st)))
        (concat (map rev (rev (drop depth (DeferScopes s))))) s)"

text \<open>A null child adds no statement.\<close>

definition add_cond :: "nat \<Rightarrow> ExprAST \<Rightarrow> BuildState \<Rightarrow> BuildState" where
  "add_cond b e s = (if e = NoExpr then s else add_stmt b e s)"

definition literal_true :: "ExprAST \<Rightarrow> bool" where
  "literal_true e = (case e of BoolExpr v \<Rightarrow> v | _ \<Rightarrow> False)"

section \<open>Recover blocks\<close>

function find_recovers :: "ExprAST \<Rightarrow> ExprAST list" where
  "find_recovers e = (case e of
      RecoverExpr loc w k p b \<Rightarrow> find_recovers w @ find_recovers p @ (if b = NoExpr then [] else [e])
    | DeferExpr loc st \<Rightarrow> []
    | _ \<Rightarrow> concat (map find_recovers (children e)))"
  by pat_completeness auto
termination
  by (relation "measure size") (auto dest!: size_children)

declare find_recovers.simps [simp del]

definition recover_block :: "ExprAST \<Rightarrow> ExprAST" where
  "recover_block e = (case e of RecoverExpr loc w k p b \<Rightarrow> b | _ \<Rightarrow> NoExpr)"

definition recover_loc :: "ExprAST \<Rightarrow> SourceLocation" where
  "recover_loc e = (case e of RecoverExpr loc w k p b \<Rightarrow> loc | _ \<Rightarrow> loc3 0 0 [])"

lemma size_find_recovers: "r \<in> set (find_recovers e) \<Longrightarrow> size r \<le> size e \<and> size (recover_block r) < size r"
proof (induction "size e" arbitrary: e rule: less_induct)
  case less
  have sub: "size r \<le> size e \<and> size (recover_block r) < size r"
    if "c \<in> set (children e)" "r \<in> set (find_recovers c)" for c
    using less.hyps [OF size_children [OF that(1)] that(2)] size_children [OF that(1)] by linarith
  show ?case
  proof (cases "\<exists>loc w k p b. e = RecoverExpr loc w k p b")
    case True
    then obtain loc w k p b where e: "e = RecoverExpr loc w k p b" by blast
    have "size w < size e" "size p < size e" using e by simp_all
    note sub = less.hyps [OF this(1)] less.hyps [OF this(2)]
    have "r \<in> set (find_recovers w) \<or> r \<in> set (find_recovers p) \<or> r = e"
      using less.prems by (subst (asm) find_recovers.simps) (auto simp: e split: if_split_asm)
    with sub e show ?thesis by (auto simp: recover_block_def)
  next
    case False
    with less.prems have "\<exists>c \<in> set (children e). r \<in> set (find_recovers c)"
      by (subst (asm) find_recovers.simps) (cases e; auto)
    with sub show ?thesis by blast
  qed
qed

section \<open>Handlers\<close>

text \<open>The blocks of the \<open>recover run\<close> clauses a statement evaluates, before the statement itself.\<close>

definition visit_run :: "visitor \<Rightarrow> nat \<Rightarrow> nat \<Rightarrow> ExprAST \<Rightarrow> BuildState \<Rightarrow> built" where
  "visit_run visit pre ok r s =
    (let (run, s) = new_bb ''recover.run'' (s\<lparr>BlocksInCFG := BlocksInCFG s @ [r]\<rparr>)
     in then_do (visit (recover_block r) (setInsertPoint (Some run) (link pre run s)))
          (\<lambda>s. Inr (fall_to ok s)))"

definition branchToRecoverBlocks :: "visitor \<Rightarrow> ExprAST \<Rightarrow> nat \<Rightarrow> BuildState \<Rightarrow> built" where
  "branchToRecoverBlocks visit e pre s =
    (let found = find_recovers e in
     if found = [] then Inr s
     else let (ok, s) = new_bb ''recover.ok'' s
          in then_do (seq_r (visit_run visit pre ok) found (link pre ok s))
               (\<lambda>s. Inr (setInsertPoint (Some ok) (set_term pre TkUnconditional (recover_loc (hd found)) s))))"

definition visitBlock :: "visitor \<Rightarrow> ExprAST \<Rightarrow> BuildState \<Rightarrow> built" where
  "visitBlock visit e s = (case e of
      BlockExpr es \<Rightarrow>
        then_do (seq_r visit es (s\<lparr>DeferScopes := DeferScopes s @ [[]]\<rparr>))
          (\<lambda>s. let s = (if live s then emitDeferredRuns (length (DeferScopes s) - 1) s else s)
                in Inr (s\<lparr>DeferScopes := butlast (DeferScopes s)\<rparr>))
    | _ \<Rightarrow> Inr s)"

fun if_branches :: "visitor \<Rightarrow> nat \<Rightarrow> bool \<Rightarrow> bool \<Rightarrow> CondBranch list \<Rightarrow> nat \<times> bool \<times> BuildState \<Rightarrow>
    CfgError + (nat \<times> bool \<times> BuildState)" where
  "if_branches visit merge hasElse first [] w = Inr w"
| "if_branches visit merge hasElse first (br # brs) (cond, AllTerminate, s) =
    (let (thn, s) = new_bb (if first then ''if.then'' else ''elseif.then'') s;
         (next, s) = (if brs \<noteq> [] then new_bb ''elseif.cond'' s
                      else if hasElse then new_bb ''if.else'' s else (merge, s));
         s = set_term cond TkBranch (br_loc br)
               (link cond next (link cond thn (add_cond cond (br_cond br) s)))
     in then_do (visit (br_body br) (setInsertPoint (Some thn) s))
          (\<lambda>s. if_branches visit merge hasElse False brs
                 (next, AllTerminate \<and> \<not> live s, fall_to merge s)))"

definition visitIf :: "visitor \<Rightarrow> CondBranch list \<Rightarrow> ExprAST \<Rightarrow> nat \<Rightarrow> BuildState \<Rightarrow> built" where
  "visitIf visit brs els entry s =
    (let (merge, s) = new_bb ''if.end'' s
     in then_do (if_branches visit merge (els \<noteq> NoExpr) True brs (entry, True, s))
          (\<lambda>(cond, AllTerminate, s).
             if els \<noteq> NoExpr
             then then_do (visit els (setInsertPoint (Some cond) s))
                    (\<lambda>s. Inr (setInsertPoint (if AllTerminate \<and> \<not> live s then None else Some merge)
                                (fall_to merge s)))
             else Inr (setInsertPoint (Some merge) s)))"

text \<open>
  The tests of one arm and then its body: \<open>prev\<close> is the block whose fail edge leads on, \<open>real\<close> says
  that it is a test.
\<close>

definition link_fail :: "SourceLocation \<Rightarrow> nat \<Rightarrow> bool \<Rightarrow> nat \<Rightarrow> BuildState \<Rightarrow> BuildState" where
  "link_fail loc prev real target s =
    (let s = link prev target s in if real then set_term prev TkBranch loc s else s)"

fun arm_tests :: "SourceLocation \<Rightarrow> nat \<Rightarrow> (ExprAST \<times> ExprAST) list \<Rightarrow> nat \<times> bool \<times> BuildState \<Rightarrow>
    nat \<times> bool \<times> BuildState" where
  "arm_tests loc body [] w = w"
| "arm_tests loc body ((v, g) # hs) (prev, real, s) =
    (let (test, s) = new_bb ''compare.test'' s;
         s = add_cond test g (add_stmt test v (link_fail loc prev real test s));
         s = set_term test TkUnconditional loc (link test body s)
     in arm_tests loc body hs (test, True, s))"

definition arm_headers :: "MatchesArm \<Rightarrow> (ExprAST \<times> ExprAST) list" where
  "arm_headers a = map (\<lambda>K. (arm_values a ! K, if K < length (arm_guards a) then arm_guards a ! K else NoExpr))
     [0..<length (arm_values a)]"

definition visit_arm :: "visitor \<Rightarrow> SourceLocation \<Rightarrow> nat \<Rightarrow> MatchesArm \<Rightarrow> nat \<times> bool \<times> BuildState \<Rightarrow>
    CfgError + (nat \<times> bool \<times> BuildState)" where
  "visit_arm visit loc merge a w = (case w of (prev, real, s) \<Rightarrow>
    (let (body, s) = new_bb ''compare.arm'' s;
         (prev, real, s) = arm_tests loc body (arm_headers a) (prev, real, s)
     in then_do (visit (arm_body a) (setInsertPoint (Some body) s))
          (\<lambda>s. Inr (prev, real, fall_to merge s))))"

definition visitCompare :: "visitor \<Rightarrow> SourceLocation \<Rightarrow> ExprAST \<Rightarrow> MatchesArm list \<Rightarrow> ExprAST \<Rightarrow> bool \<Rightarrow>
    nat \<Rightarrow> BuildState \<Rightarrow> built" where
  "visitCompare visit loc subject arms other Exhaustive entry s =
    (let (merge, s) = new_bb ''compare.end'' s;
         s = set_term entry TkUnconditional loc (add_cond entry subject s)
     in then_do (seq_r (visit_arm visit loc merge) arms (entry, False, s))
          (\<lambda>(prev, real, s).
             if other \<noteq> NoExpr
             then let (otherwise, s) = new_bb ''compare.otherwise'' s
                  in then_do (visit other (setInsertPoint (Some otherwise) (link_fail loc prev real otherwise s)))
                       (\<lambda>s. Inr (setInsertPoint (Some merge) (fall_to merge s)))
             else Inr (setInsertPoint (Some merge)
                    (if Exhaustive then s else link_fail loc prev real merge s))))"

text \<open>The body of a loop, between its saved and restored targets.\<close>

definition loop_body :: "visitor \<Rightarrow> nat \<Rightarrow> nat \<Rightarrow> nat \<Rightarrow> ExprAST \<Rightarrow> BuildState \<Rightarrow> built" where
  "loop_body visit brk cont entry body s =
    (let t = s\<lparr>LoopBreakTarget := Some brk, LoopContinueTarget := Some cont, CurrentBlock := Some entry\<rparr>
     in then_do
          (if body = NoExpr then Inr t
           else then_do (visit body (t\<lparr>LoopDeferDepth := length (DeferScopes t)\<rparr>))
                  (\<lambda>u. Inr (u\<lparr>LoopDeferDepth := LoopDeferDepth s\<rparr>)))
          (\<lambda>u. Inr ((fall_to cont u)\<lparr>LoopBreakTarget := LoopBreakTarget s,
                      LoopContinueTarget := LoopContinueTarget s\<rparr>)))"

definition cond_branch :: "SourceLocation \<Rightarrow> ExprAST \<Rightarrow> nat \<Rightarrow> nat \<Rightarrow> nat \<Rightarrow> BuildState \<Rightarrow> BuildState" where
  "cond_branch loc c cond body exit s =
    (let s = link cond body (add_cond cond c s)
     in if literal_true c then set_term cond TkUnconditional loc s
        else set_term cond TkBranch loc (link cond exit s))"

definition visitWhile :: "visitor \<Rightarrow> SourceLocation \<Rightarrow> ExprAST \<Rightarrow> ExprAST \<Rightarrow> nat \<Rightarrow> BuildState \<Rightarrow> built" where
  "visitWhile visit loc c body entry s =
    (let (cond, s) = new_bb ''while.cond'' s;
         (start, s) = new_bb ''while.body'' s;
         (exit, s) = new_bb ''while.end'' s;
         s = set_term entry TkUnconditional loc (link entry cond s);
         s = cond_branch loc c cond start exit s
     in then_do (loop_body visit exit cond start body s) (\<lambda>s. Inr (setInsertPoint (Some exit) s)))"

definition visitDoWhile :: "visitor \<Rightarrow> SourceLocation \<Rightarrow> ExprAST \<Rightarrow> ExprAST \<Rightarrow> nat \<Rightarrow> BuildState \<Rightarrow> built" where
  "visitDoWhile visit loc body c entry s =
    (let (start, s) = new_bb ''dowhile.body'' s;
         (cond, s) = new_bb ''dowhile.cond'' s;
         (exit, s) = new_bb ''dowhile.end'' s;
         s = set_term entry TkUnconditional loc (link entry start s)
     in then_do (loop_body visit exit cond start body s)
          (\<lambda>s. Inr (setInsertPoint (Some exit) (cond_branch loc c cond start exit s))))"

text \<open>\<open>for\<close> and \<open>for each\<close> differ in the names of their blocks and in what the condition block holds.\<close>

definition counted_loop :: "visitor \<Rightarrow> string \<Rightarrow> ExprAST list \<Rightarrow> ExprAST \<Rightarrow> nat \<Rightarrow> BuildState \<Rightarrow> built" where
  "counted_loop visit kind heads body entry s =
    (let nowhere = loc3 0 0 [];
         (cond, s) = new_bb (kind @ ''.cond'') s;
         (start, s) = new_bb (kind @ ''.body'') s;
         (step, s) = new_bb (kind @ ''.step'') s;
         (exit, s) = new_bb (kind @ ''.end'') s;
         s = set_term entry TkUnconditional nowhere (link entry cond s);
         s = set_term cond TkBranch nowhere
               (link cond exit (link cond start (fold (add_cond cond) heads s)))
     in then_do (loop_body visit exit step start body s)
          (\<lambda>s. Inr (setInsertPoint (Some exit) (set_term step TkUnconditional nowhere (link step cond s)))))"

definition visitFor :: "visitor \<Rightarrow> ExprAST \<Rightarrow> ExprAST \<Rightarrow> ExprAST \<Rightarrow> nat \<Rightarrow> BuildState \<Rightarrow> built" where
  "visitFor visit start end body = counted_loop visit ''for'' [start, end] body"

definition visitForEach :: "visitor \<Rightarrow> ExprAST \<Rightarrow> ExprAST \<Rightarrow> nat \<Rightarrow> BuildState \<Rightarrow> built" where
  "visitForEach visit iterable body = counted_loop visit ''foreach'' [iterable] body"

text \<open>A jump ends the current block; what follows has no block.\<close>

definition jump :: "TerminatorKind \<Rightarrow> SourceLocation \<Rightarrow> nat option \<Rightarrow> BuildState \<Rightarrow> BuildState" where
  "jump k loc target s = (case CurrentBlock s of
      None \<Rightarrow> s
    | Some b \<Rightarrow> (on_graph (addEdge (Some b) target)
        (set_term b k loc (s\<lparr>LastTerminatorLoc := loc\<rparr>)))\<lparr>CurrentBlock := None\<rparr>)"

definition add_here :: "ExprAST \<Rightarrow> BuildState \<Rightarrow> BuildState" where
  "add_here e s = (case CurrentBlock s of None \<Rightarrow> s | Some b \<Rightarrow> add_stmt b e s)"

definition visitReturn :: "visitor \<Rightarrow> SourceLocation \<Rightarrow> ExprAST \<Rightarrow> nat \<Rightarrow> BuildState \<Rightarrow> built" where
  "visitReturn visit loc e entry s =
    then_do (branchToRecoverBlocks visit e entry s)
      (\<lambda>s. Inr (jump TkReturn loc (ExitBlock (CurrentCFG s)) (emitDeferredRuns 0 (add_here e s))))"

definition visitBreak :: "SourceLocation \<Rightarrow> ExprAST \<Rightarrow> BuildState \<Rightarrow> built" where
  "visitBreak loc e s =
    (if LoopBreakTarget s = None
     then Inl (ControlFlowError loc ([CHR 0x27] @ ''break'' @ [CHR 0x27] @ '' used outside of a loop.''))
     else Inr (jump TkBreak loc (LoopBreakTarget s) (add_here e (emitDeferredRuns (LoopDeferDepth s) s))))"

definition visitContinue :: "SourceLocation \<Rightarrow> ExprAST \<Rightarrow> BuildState \<Rightarrow> built" where
  "visitContinue loc e s =
    (if LoopContinueTarget s = None
     then Inl (ControlFlowError loc ([CHR 0x27] @ ''continue'' @ [CHR 0x27] @ '' used outside of a loop.''))
     else Inr (jump TkContinue loc (LoopContinueTarget s) (add_here e (emitDeferredRuns (LoopDeferDepth s) s))))"

text \<open>A \<open>defer\<close> is noted in the innermost scope; its statement is not part of the flow here.\<close>

definition note_defer :: "ExprAST \<Rightarrow> BuildState \<Rightarrow> BuildState" where
  "note_defer e s = (case e of
      DeferExpr loc st \<Rightarrow>
        if DeferScopes s \<noteq> [] \<and> st \<noteq> NoExpr
        then s\<lparr>DeferScopes := butlast (DeferScopes s) @ [last (DeferScopes s) @ [st]]\<rparr> else s
    | _ \<Rightarrow> s)"

definition visitStatement :: "visitor \<Rightarrow> ExprAST \<Rightarrow> nat \<Rightarrow> BuildState \<Rightarrow> built" where
  "visitStatement visit e entry s =
    then_do (branchToRecoverBlocks visit e entry (note_defer e s)) (\<lambda>s. Inr (add_here e s))"

section \<open>Handlers depend on the visits of smaller trees only\<close>

lemma visit_run_cong [fundef_cong]:
  assumes "r = r'" and "pre = pre'" and "ok = ok'" and "s = s'"
    and "\<And>t. visit (recover_block r') t = visit' (recover_block r') t"
  shows "visit_run visit pre ok r s = visit_run visit' pre' ok' r' s'"
  using assms by (simp add: visit_run_def)

lemma branchToRecoverBlocks_cong [fundef_cong]:
  assumes "e = e'" and "pre = pre'" and "s = s'"
    and "\<And>r t. r \<in> set (find_recovers e') \<Longrightarrow> visit (recover_block r) t = visit' (recover_block r) t"
  shows "branchToRecoverBlocks visit e pre s = branchToRecoverBlocks visit' e' pre' s'"
proof -
  have "seq_r (visit_run visit pre' ok) (find_recovers e') t = seq_r (visit_run visit' pre' ok) (find_recovers e') t"
    for ok t using assms(4) by (intro seq_r_cong visit_run_cong) auto
  then show ?thesis unfolding branchToRecoverBlocks_def Let_def assms(1-3) by (simp add: split_def)
qed

lemma visitBlock_cong [fundef_cong]:
  assumes "e = e'" and "s = s'"
    and "\<And>es x t. e' = BlockExpr es \<Longrightarrow> x \<in> set es \<Longrightarrow> visit x t = visit' x t"
  shows "visitBlock visit e s = visitBlock visit' e' s'"
proof (cases "\<exists>es. e' = BlockExpr es")
  case True
  then obtain es where e: "e' = BlockExpr es" by blast
  then have "seq_r visit es t = seq_r visit' es t" for t using assms(3) by (intro seq_r_cong) auto
  with e assms(1,2) show ?thesis by (simp add: visitBlock_def)
next
  case False
  with assms(1,2) show ?thesis by (cases e') (simp_all add: visitBlock_def)
qed

lemma if_branches_cong:
  assumes "\<And>br t. br \<in> set brs \<Longrightarrow> visit (br_body br) t = visit' (br_body br) t"
  shows "if_branches visit merge hasElse first brs w = if_branches visit' merge hasElse first brs w"
  using assms
proof (induction brs arbitrary: first w)
  case Nil
  then show ?case by simp
next
  case (Cons br brs)
  have "if_branches visit merge hasElse f brs v = if_branches visit' merge hasElse f brs v" for f v
    using Cons by simp
  with Cons.prems [of br] show ?case by (cases w) (simp add: Let_def split: prod.split)
qed

lemma visitIf_cong [fundef_cong]:
  assumes "brs = brs'" and "els = els'" and "entry = entry'" and "s = s'"
    and "\<And>br t. br \<in> set brs' \<Longrightarrow> visit (br_body br) t = visit' (br_body br) t"
    and "\<And>t. els' \<noteq> NoExpr \<Longrightarrow> visit els' t = visit' els' t"
  shows "visitIf visit brs els entry s = visitIf visit' brs' els' entry' s'"
proof -
  have "if_branches visit m h f brs' w = if_branches visit' m h f brs' w" for m h f w
    using assms(5) by (rule if_branches_cong)
  with assms(1-4,6) show ?thesis by (simp add: visitIf_def cong: if_cong)
qed

lemma visitCompare_cong [fundef_cong]:
  assumes "loc = loc'" and "subject = subject'" and "arms = arms'" and "other = other'" and "ex = ex'"
    and "entry = entry'" and "s = s'"
    and "\<And>a t. a \<in> set arms' \<Longrightarrow> visit (arm_body a) t = visit' (arm_body a) t"
    and "\<And>t. other' \<noteq> NoExpr \<Longrightarrow> visit other' t = visit' other' t"
  shows "visitCompare visit loc subject arms other ex entry s =
    visitCompare visit' loc' subject' arms' other' ex' entry' s'"
proof -
  have "visit_arm visit loc' m a w = visit_arm visit' loc' m a w" if "a \<in> set arms'" for m a w
    using assms(8) [OF that] by (simp add: visit_arm_def)
  then have "seq_r (visit_arm visit loc' m) arms' w = seq_r (visit_arm visit' loc' m) arms' w" for m w
    by (intro seq_r_cong) auto
  with assms(1-7,9) show ?thesis by (simp add: visitCompare_def cong: if_cong)
qed

lemma loop_body_cong:
  assumes "\<And>t. body \<noteq> NoExpr \<Longrightarrow> visit body t = visit' body t"
  shows "loop_body visit brk cont entry body s = loop_body visit' brk cont entry body s"
  using assms by (simp add: loop_body_def cong: if_cong)

lemma visitWhile_cong [fundef_cong]:
  assumes "loc = loc'" and "c = c'" and "body = body'" and "entry = entry'" and "s = s'"
    and "\<And>t. body' \<noteq> NoExpr \<Longrightarrow> visit body' t = visit' body' t"
  shows "visitWhile visit loc c body entry s = visitWhile visit' loc' c' body' entry' s'"
proof -
  have "loop_body visit brk cont en body' t = loop_body visit' brk cont en body' t" for brk cont en t
    using assms(6) by (rule loop_body_cong)
  with assms(1-5) show ?thesis by (simp add: visitWhile_def)
qed

lemma visitDoWhile_cong [fundef_cong]:
  assumes "loc = loc'" and "c = c'" and "body = body'" and "entry = entry'" and "s = s'"
    and "\<And>t. body' \<noteq> NoExpr \<Longrightarrow> visit body' t = visit' body' t"
  shows "visitDoWhile visit loc body c entry s = visitDoWhile visit' loc' body' c' entry' s'"
proof -
  have "loop_body visit brk cont en body' t = loop_body visit' brk cont en body' t" for brk cont en t
    using assms(6) by (rule loop_body_cong)
  with assms(1-5) show ?thesis by (simp add: visitDoWhile_def)
qed

lemma visitFor_cong [fundef_cong]:
  assumes "start = start'" and "end1 = end'" and "body = body'" and "entry = entry'" and "s = s'"
    and "\<And>t. body' \<noteq> NoExpr \<Longrightarrow> visit body' t = visit' body' t"
  shows "visitFor visit start end1 body entry s = visitFor visit' start' end' body' entry' s'"
proof -
  have "loop_body visit brk cont en body' t = loop_body visit' brk cont en body' t" for brk cont en t
    using assms(6) by (rule loop_body_cong)
  with assms(1-5) show ?thesis by (simp add: visitFor_def counted_loop_def)
qed

lemma visitForEach_cong [fundef_cong]:
  assumes "it = it'" and "body = body'" and "entry = entry'" and "s = s'"
    and "\<And>t. body' \<noteq> NoExpr \<Longrightarrow> visit body' t = visit' body' t"
  shows "visitForEach visit it body entry s = visitForEach visit' it' body' entry' s'"
proof -
  have "loop_body visit brk cont en body' t = loop_body visit' brk cont en body' t" for brk cont en t
    using assms(5) by (rule loop_body_cong)
  with assms(1-4) show ?thesis by (simp add: visitForEach_def counted_loop_def)
qed

lemma visitReturn_cong [fundef_cong]:
  assumes "loc = loc'" and "e = e'" and "entry = entry'" and "s = s'"
    and "\<And>r t. r \<in> set (find_recovers e') \<Longrightarrow> visit (recover_block r) t = visit' (recover_block r) t"
  shows "visitReturn visit loc e entry s = visitReturn visit' loc' e' entry' s'"
proof -
  have "branchToRecoverBlocks visit e' entry' t = branchToRecoverBlocks visit' e' entry' t" for t
    using assms(5) by (intro branchToRecoverBlocks_cong) auto
  with assms(1-4) show ?thesis by (simp add: visitReturn_def)
qed

lemma visitStatement_cong [fundef_cong]:
  assumes "e = e'" and "entry = entry'" and "s = s'"
    and "\<And>r t. r \<in> set (find_recovers e') \<Longrightarrow> visit (recover_block r) t = visit' (recover_block r) t"
  shows "visitStatement visit e entry s = visitStatement visit' e' entry' s'"
proof -
  have "branchToRecoverBlocks visit e' entry' t = branchToRecoverBlocks visit' e' entry' t" for t
    using assms(4) by (intro branchToRecoverBlocks_cong) auto
  with assms(1-3) show ?thesis by (simp add: visitStatement_def)
qed

section \<open>The visit\<close>

function visitExpr :: "ExprAST \<Rightarrow> BuildState \<Rightarrow> built" where
  "visitExpr e s =
    (if e = NoExpr then Inr s
     else if \<not> live s
     then Inl (StatementAfterTerminatorError (LastTerminatorLoc s) ''return/break/continue'')
     else let entry = the (CurrentBlock s) in
       (case e of
          BlockExpr es \<Rightarrow> visitBlock visitExpr (BlockExpr es) s
        | UnsafeBlockExpr loc b \<Rightarrow> visitBlock visitExpr b s
        | IfExpr brs els \<Rightarrow> visitIf visitExpr brs els entry s
        | WhileExpr loc c b \<Rightarrow> visitWhile visitExpr loc c b entry s
        | DoWhileExpr loc b c \<Rightarrow> visitDoWhile visitExpr loc b c entry s
        | ForExpr loc v start end1 step b \<Rightarrow> visitFor visitExpr start end1 b entry s
        | ForEachExpr loc v i it b \<Rightarrow> visitForEach visitExpr it b entry s
        | CompareExpr loc subject arms other ex \<Rightarrow> visitCompare visitExpr loc subject arms other ex entry s
        | ReturnExpr loc v \<Rightarrow> visitReturn visitExpr loc e entry s
        | BreakExpr loc \<Rightarrow> visitBreak loc e s
        | ContinueExpr loc \<Rightarrow> visitContinue loc e s
        | _ \<Rightarrow> visitStatement visitExpr e entry s))"
  by pat_completeness auto
termination
proof (relation "measure (\<lambda>(e, s). size e)", goal_cases)
  case 1
  show ?case by simp
qed (use size_find_recovers size_branch size_arm size_in_list in \<open>fastforce\<close>)+

declare visitExpr.simps [simp del]

section \<open>Whole graphs\<close>

definition with_entry_and_exit :: "ExprAST CFG \<Rightarrow> BuildState" where
  "with_entry_and_exit G =
    (let s = new_builder\<lparr>CurrentCFG := G\<rparr>;
         (entry, s) = new_bb ''entry'' s;
         (exit, s) = new_bb ''exit'' s
     in setInsertPoint (Some entry)
          (on_graph (\<lambda>G. G\<lparr>EntryBlock := Some entry, ExitBlock := Some exit\<rparr>) s))"

definition link_to_exit :: "BuildState \<Rightarrow> BuildState" where
  "link_to_exit s = (if live s then on_graph (addEdge (CurrentBlock s) (ExitBlock (CurrentCFG s))) s else s)"

definition buildCFG :: "string \<Rightarrow> bool \<Rightarrow> ExprAST \<Rightarrow> SourceLocation \<Rightarrow> string \<Rightarrow> CfgError + ExprAST CFG" where
  "buildCFG name void body loc mangled =
    then_do (visitExpr body (with_entry_and_exit (new_cfg name void loc mangled)))
      (\<lambda>s. Inr (computeReachability (CurrentCFG (link_to_exit s))))"

definition buildRegionCFG :: "string \<Rightarrow> ExprAST \<Rightarrow> SourceLocation \<Rightarrow> CfgError + ExprAST CFG" where
  "buildRegionCFG name body loc =
    (let s = with_entry_and_exit (new_cfg name True loc []);
         exit = ExitBlock (CurrentCFG s)
     in then_do (visitExpr body (s\<lparr>LoopBreakTarget := exit, LoopContinueTarget := exit\<rparr>))
          (\<lambda>s. Inr (computeReachability (CurrentCFG (link_to_exit s)))))"

end
