(* ===== verification/CfgFacts.thy ===== *)
theory CfgFacts
  imports CfgBuilder
begin

text \<open>
  What every operation of the builder keeps: the graph stays well formed, no block but the current one
  and the new ones gets another terminator or another successor, and no edge is lost.
\<close>

abbreviation nb :: "BuildState \<Rightarrow> nat" where
  "nb s \<equiv> length (Blocks (CurrentCFG s))"

abbreviation term_of :: "BuildState \<Rightarrow> nat \<Rightarrow> TerminatorKind" where
  "term_of s b \<equiv> Terminator (Blocks (CurrentCFG s) ! b)"

abbreviation E :: "BuildState \<Rightarrow> (nat \<times> nat) set" where
  "E s \<equiv> edges (CurrentCFG s)"

definition explicit :: "TerminatorKind \<Rightarrow> bool" where
  "explicit k \<longleftrightarrow> k = TkReturn \<or> k = TkBreak \<or> k = TkContinue"

lemma hasExplicit_iff: "hasExplicitTerminator B \<longleftrightarrow> explicit (Terminator B)"
  by (simp add: hasExplicitTerminator_def explicit_def)

lemma explicit_simps [simp]:
  "\<not> explicit TkNone" "\<not> explicit TkBranch" "\<not> explicit TkUnconditional"
  "explicit TkReturn" "explicit TkBreak" "explicit TkContinue"
  by (simp_all add: explicit_def)

section \<open>Graphs\<close>

lemma on_block_simps [simp]:
  "length (Blocks (on_block b f G)) = length (Blocks G)"
  "EntryBlock (on_block b f G) = EntryBlock G" "ExitBlock (on_block b f G) = ExitBlock G"
  "NextID (on_block b f G) = NextID G"
  by (simp_all add: on_block_def)

lemma on_block_nth:
  "c < length (Blocks G) \<Longrightarrow> Blocks (on_block b f G) ! c = (if c = b then f (Blocks G ! c) else Blocks G ! c)"
  by (simp add: on_block_def nth_list_update)

lemma addEdge_simps [simp]:
  "length (Blocks (addEdge f t G)) = length (Blocks G)"
  "EntryBlock (addEdge f t G) = EntryBlock G" "ExitBlock (addEdge f t G) = ExitBlock G"
  "NextID (addEdge f t G) = NextID G"
  by (simp_all add: addEdge_def split: option.split)

lemma addEdge_nth:
  assumes "c < length (Blocks G)"
  shows "Blocks (addEdge (Some f) (Some t) G) ! c =
    (Blocks G ! c)\<lparr>Successors := succs G c @ (if c = f then [t] else []),
      Predecessors := Predecessors (Blocks G ! c) @ (if c = t then [f] else [])\<rparr>"
  using assms by (simp add: addEdge_def on_block_nth)

lemma count_list_snoc: "count_list (xs @ [x]) y = count_list xs y + (if x = y then 1 else 0)"
  by (induction xs) auto

lemma wf_addEdge:
  assumes "wf_cfg G" and "f < length (Blocks G)" and "t < length (Blocks G)"
  shows "wf_cfg (addEdge (Some f) (Some t) G)"
proof -
  let ?G = "addEdge (Some f) (Some t) G"
  have "count_list (succs ?G a) b = count_list (Predecessors (Blocks ?G ! b)) a"
    if "a < length (Blocks G)" "b < length (Blocks G)" for a b
    using assms(1) that by (auto simp: addEdge_nth wf_cfg_def count_list_snoc)
  with assms show ?thesis
    unfolding wf_cfg_def by (auto simp: addEdge_nth)
qed

lemma wf_on_block:
  assumes "wf_cfg G"
    and "\<And>B. Successors (f B) = Successors B \<and> Predecessors (f B) = Predecessors B \<and> BlockID (f B) = BlockID B"
  shows "wf_cfg (on_block b f G)"
  using assms(1) unfolding wf_cfg_def by (simp add: on_block_nth assms(2))

lemma createBlock_simps:
  assumes "createBlock name G = (b, G')"
  shows "b = NextID G" "length (Blocks G') = Suc (length (Blocks G))"
    "EntryBlock G' = EntryBlock G" "ExitBlock G' = ExitBlock G"
    "c < length (Blocks G) \<Longrightarrow> Blocks G' ! c = Blocks G ! c"
    "Blocks G' ! length (Blocks G) = new_block (NextID G) name" "NextID G' = Suc (NextID G)"
  using assms by (auto simp: createBlock_def nth_append)

lemma count_list_bound: "set xs \<subseteq> {..<n} \<Longrightarrow> count_list xs (n :: nat) = 0"
  by (auto simp: count_list_0_iff)

lemma wf_createBlock:
  assumes "wf_cfg G" and c: "createBlock name G = (b, G')"
  shows "wf_cfg G'"
proof -
  let ?n = "length (Blocks G)"
  note k = createBlock_simps [OF c]
  have id: "NextID G = ?n" using assms by (simp add: wf_cfg_def)
  have blk: "Blocks G' ! a = (if a = ?n then new_block ?n name else Blocks G ! a)" if "a < Suc ?n" for a
    using k(5) [of a] k(6) id that by (auto simp: less_Suc_eq)
  have sb: "set (succs G a) \<subseteq> {..<?n}" "set (Predecessors (Blocks G ! a)) \<subseteq> {..<?n}" if "a < ?n" for a
    using assms(1) that by (auto simp: wf_cfg_def)
  have cnt: "count_list (succs G' a) d = count_list (Predecessors (Blocks G' ! d)) a"
    if "a < Suc ?n" "d < Suc ?n" for a d
  proof -
    have "count_list (succs G a) d = count_list (Predecessors (Blocks G ! d)) a" if "a < ?n" "d < ?n"
      using assms(1) that by (auto simp: wf_cfg_def)
    moreover have "count_list (succs G a) ?n = 0" if "a < ?n" using sb(1) [OF that] by (rule count_list_bound)
    moreover have "count_list (Predecessors (Blocks G ! d)) ?n = 0" if "d < ?n"
      using sb(2) [OF that] by (rule count_list_bound)
    ultimately show ?thesis using that by (auto simp: blk new_block_def less_Suc_eq)
  qed
  have "d < Suc ?n" if "a < Suc ?n" "d \<in> set (succs G' a)" for a d
    using that sb(1) [of a] by (auto simp: blk new_block_def less_Suc_eq split: if_split_asm)
  moreover have "set (Predecessors (Blocks G' ! a)) \<subseteq> {..<Suc ?n}" if "a < Suc ?n" for a
    using that sb(2) [of a] by (auto simp: blk new_block_def less_Suc_eq)
  moreover have "BlockID (Blocks G' ! a) = a" if "a < Suc ?n" for a
    using that assms(1) by (auto simp: blk new_block_def wf_cfg_def)
  moreover have "\<exists>e x. EntryBlock G' = Some e \<and> ExitBlock G' = Some x \<and> e < Suc ?n \<and> x < Suc ?n"
    using assms(1) k(3,4) by (auto simp: wf_cfg_def intro: less_SucI)
  ultimately show ?thesis unfolding wf_cfg_def k(2,7) using cnt id by auto
qed

section \<open>Frames\<close>

text \<open>Only blocks of \<open>A\<close> and new blocks get another terminator or more successors.\<close>

definition kept :: "nat set \<Rightarrow> ExprAST CFG \<Rightarrow> ExprAST CFG \<Rightarrow> bool" where
  "kept A G G' \<longleftrightarrow> length (Blocks G) \<le> length (Blocks G') \<and>
     EntryBlock G' = EntryBlock G \<and> ExitBlock G' = ExitBlock G \<and>
     (\<forall>c < length (Blocks G). c \<notin> A \<longrightarrow>
        Terminator (Blocks G' ! c) = Terminator (Blocks G ! c) \<and> succs G' c = succs G c) \<and>
     (\<forall>c < length (Blocks G). set (succs G c) \<subseteq> set (succs G' c))"

lemma kept_refl [simp]: "kept A G G"
  by (simp add: kept_def)

lemma kept_trans:
  assumes "kept A G G'" and "kept B G' G''" and "B \<inter> {..<length (Blocks G)} \<subseteq> A"
  shows "kept A G G''"
proof -
  have "Terminator (Blocks G'' ! c) = Terminator (Blocks G ! c) \<and> succs G'' c = succs G c"
    if "c < length (Blocks G)" "c \<notin> A" for c
  proof -
    have "c < length (Blocks G')" "c \<notin> B" using that assms by (auto simp: kept_def)
    with assms(1,2) that show ?thesis by (simp add: kept_def)
  qed
  moreover have "set (succs G c) \<subseteq> set (succs G'' c)" if "c < length (Blocks G)" for c
    using that assms(1,2) unfolding kept_def by (meson order_trans less_le_trans)
  ultimately show ?thesis using assms(1,2) by (simp add: kept_def)
qed

lemma kept_edges: "kept A G G' \<Longrightarrow> edges G \<subseteq> edges G'"
  by (auto simp: kept_def edges_def)

lemma kept_mono: "kept A G G' \<Longrightarrow> A \<subseteq> B \<Longrightarrow> kept B G G'"
  unfolding kept_def by blast

text \<open>A well-formed builder state and a step from one to another.\<close>

definition good :: "BuildState \<Rightarrow> bool" where
  "good s \<longleftrightarrow> wf_cfg (CurrentCFG s) \<and>
     (\<forall>t. LoopBreakTarget s = Some t \<longrightarrow> t < nb s) \<and> (\<forall>t. LoopContinueTarget s = Some t \<longrightarrow> t < nb s)"

definition steps :: "nat set \<Rightarrow> BuildState \<Rightarrow> BuildState \<Rightarrow> bool" where
  "steps A s s' \<longleftrightarrow> good s' \<and> kept A (CurrentCFG s) (CurrentCFG s') \<and>
     LoopBreakTarget s' = LoopBreakTarget s \<and> LoopContinueTarget s' = LoopContinueTarget s"

lemma steps_trans:
  assumes "steps A s t" and "steps B t u" and "B \<inter> {..<nb s} \<subseteq> A"
  shows "steps A s u"
  using assms(1,2) kept_trans [OF _ _ assms(3)] unfolding steps_def by metis

lemma stepsD:
  assumes "steps A s s'"
  shows "good s'" "nb s \<le> nb s'" "c < nb s \<Longrightarrow> c \<notin> A \<Longrightarrow> term_of s' c = term_of s c" "E s \<subseteq> E s'"
    "LoopBreakTarget s' = LoopBreakTarget s" "LoopContinueTarget s' = LoopContinueTarget s"
    "ExitBlock (CurrentCFG s') = ExitBlock (CurrentCFG s)" "EntryBlock (CurrentCFG s') = EntryBlock (CurrentCFG s)"
    "c < nb s \<Longrightarrow> c \<notin> A \<Longrightarrow> succs (CurrentCFG s') c = succs (CurrentCFG s) c"
proof -
  from assms have k: "kept A (CurrentCFG s) (CurrentCFG s')" and "good s'"
      "LoopBreakTarget s' = LoopBreakTarget s" "LoopContinueTarget s' = LoopContinueTarget s"
    by (simp_all add: steps_def)
  then show "good s'" "LoopBreakTarget s' = LoopBreakTarget s" "LoopContinueTarget s' = LoopContinueTarget s"
    by simp_all
  from k show "nb s \<le> nb s'" "c < nb s \<Longrightarrow> c \<notin> A \<Longrightarrow> term_of s' c = term_of s c"
    "ExitBlock (CurrentCFG s') = ExitBlock (CurrentCFG s)" "EntryBlock (CurrentCFG s') = EntryBlock (CurrentCFG s)"
    "c < nb s \<Longrightarrow> c \<notin> A \<Longrightarrow> succs (CurrentCFG s') c = succs (CurrentCFG s) c"
    unfolding kept_def by blast+
  from k show "E s \<subseteq> E s'" by (rule kept_edges)
qed

lemma steps_refl: "good s \<Longrightarrow> steps A s s"
  by (simp add: steps_def)

lemma steps_mono:
  assumes "steps A s t" and "A \<inter> {..<nb s} \<subseteq> B"
  shows "steps B s t"
proof -
  have "kept B (CurrentCFG s) (CurrentCFG t)"
    using kept_trans [OF kept_refl _ assms(2)] assms(1) unfolding steps_def by blast
  with assms(1) show ?thesis unfolding steps_def by blast
qed

lemma reach_mono: "steps A s t \<Longrightarrow> (a, b) \<in> (E s)\<^sup>* \<Longrightarrow> (a, b) \<in> (E t)\<^sup>*"
  using rtrancl_mono [OF stepsD(4)] by blast

text \<open>Steps that change nothing of the graph or of the targets.\<close>

definition same_core :: "BuildState \<Rightarrow> BuildState \<Rightarrow> bool" where
  "same_core s t \<longleftrightarrow> CurrentCFG t = CurrentCFG s \<and> LoopBreakTarget t = LoopBreakTarget s \<and>
     LoopContinueTarget t = LoopContinueTarget s"

lemma same_core_upd [simp]:
  "same_core s (setInsertPoint b s)" "same_core s (s\<lparr>DeferScopes := d\<rparr>)" "same_core s (s\<lparr>BlocksInCFG := r\<rparr>)"
  "same_core s (s\<lparr>LastTerminatorLoc := l\<rparr>)" "same_core s (s\<lparr>LoopDeferDepth := n\<rparr>)"
  "same_core s (s\<lparr>CurrentBlock := b\<rparr>)"
  by (simp_all add: same_core_def setInsertPoint_def)

lemma steps_core: "good s \<Longrightarrow> same_core s t \<Longrightarrow> steps A s t"
  by (simp add: steps_def same_core_def good_def)

lemma steps_then_core: "steps A s t \<Longrightarrow> same_core t u \<Longrightarrow> steps A s u"
  by (simp add: steps_def same_core_def good_def)

lemma core_then_steps: "same_core s t \<Longrightarrow> steps A t u \<Longrightarrow> steps A s u"
  by (simp add: steps_def same_core_def good_def)

section \<open>The primitive operations\<close>

definition open_at :: "BuildState \<Rightarrow> nat \<Rightarrow> bool" where
  "open_at s b \<longleftrightarrow> b < nb s \<and> \<not> explicit (term_of s b)"

lemma open_at_steps: "open_at s b \<Longrightarrow> steps A s t \<Longrightarrow> b \<notin> A \<Longrightarrow> open_at t b"
  using stepsD(2) [of A s t] stepsD(3) [of A s t b] by (auto simp: open_at_def)

lemma good_next: "good s \<Longrightarrow> NextID (CurrentCFG s) = nb s"
  by (simp add: good_def wf_cfg_def)

lemma good_exit: "good s \<Longrightarrow> \<exists>x. ExitBlock (CurrentCFG s) = Some x \<and> x < nb s"
  by (auto simp: good_def wf_cfg_def)

lemma new_bb_step:
  assumes "good s" and n: "new_bb name s = (c, t)"
  shows "c = nb s" "nb t = Suc (nb s)" "steps {} s t" "open_at t c" "term_of t c = TkNone"
    "CurrentBlock t = CurrentBlock s"
proof -
  obtain G where c: "createBlock name (CurrentCFG s) = (c, G)" and t: "t = s\<lparr>CurrentCFG := G\<rparr>"
    using n by (auto simp: new_bb_def split: prod.splits)
  note k = createBlock_simps [OF c]
  show "c = nb s" "nb t = Suc (nb s)" "CurrentBlock t = CurrentBlock s"
    using k(1,2) good_next [OF assms(1)] t by simp_all
  with k(6) t show "term_of t c = TkNone" "open_at t c" by (simp_all add: new_block_def open_at_def)
  have "wf_cfg G" using assms(1) wf_createBlock [OF _ c] by (simp add: good_def)
  moreover have "kept {} (CurrentCFG s) G" using k(2-5) by (simp add: kept_def)
  ultimately show "steps {} s t" using assms(1) t k(2) by (auto simp: steps_def good_def)
qed

lemma link_step:
  assumes "good s" and "f < nb s" and "t < nb s"
  shows "steps {f} s (link f t s)" "nb (link f t s) = nb s" "(f, t) \<in> E (link f t s)"
    "c < nb s \<Longrightarrow> term_of (link f t s) c = term_of s c" "CurrentBlock (link f t s) = CurrentBlock s"
proof -
  show "steps {f} s (link f t s)"
    using assms wf_addEdge [of "CurrentCFG s" f t]
    by (auto simp: steps_def good_def link_def on_graph_def kept_def addEdge_nth)
qed (use assms in \<open>simp_all add: link_def on_graph_def edges_def addEdge_nth\<close>)

lemma set_term_step:
  assumes "good s"
  shows "steps {b} s (set_term b k loc s)" "nb (set_term b k loc s) = nb s"
    "c < nb s \<Longrightarrow> term_of (set_term b k loc s) c = (if c = b then k else term_of s c)"
    "CurrentBlock (set_term b k loc s) = CurrentBlock s"
proof -
  have "wf_cfg (on_block b (setTerminator k loc) (CurrentCFG s))"
    using assms by (intro wf_on_block) (simp_all add: good_def setTerminator_def)
  with assms show "steps {b} s (set_term b k loc s)"
    by (simp add: steps_def good_def set_term_def on_graph_def kept_def on_block_nth setTerminator_def)
qed (simp_all add: set_term_def on_graph_def on_block_nth setTerminator_def)

lemma on_stmts_step:
  assumes "good s" and "f = addStatement e \<or> f = addDeferredRun e"
  shows "steps {} s (on_graph (on_block b f) s)" "nb (on_graph (on_block b f) s) = nb s"
    "c < nb s \<Longrightarrow> term_of (on_graph (on_block b f) s) c = term_of s c"
    "CurrentBlock (on_graph (on_block b f) s) = CurrentBlock s"
proof -
  have f: "Successors (f B) = Successors B \<and> Predecessors (f B) = Predecessors B \<and> BlockID (f B) = BlockID B \<and>
      Terminator (f B) = Terminator B" for B
    using assms(2) by (auto simp: addStatement_def addDeferredRun_def)
  have "wf_cfg (on_block b f (CurrentCFG s))"
    using assms(1) f by (intro wf_on_block) (auto simp: good_def)
  with assms(1) show "steps {} s (on_graph (on_block b f) s)"
    by (simp add: steps_def good_def on_graph_def kept_def on_block_nth f)
  show "c < nb s \<Longrightarrow> term_of (on_graph (on_block b f) s) c = term_of s c"
    by (simp add: on_graph_def on_block_nth f)
qed (simp_all add: on_graph_def)

lemma add_stmt_step:
  assumes "good s"
  shows "steps {} s (add_stmt b e s)" "nb (add_stmt b e s) = nb s"
    "c < nb s \<Longrightarrow> term_of (add_stmt b e s) c = term_of s c" "CurrentBlock (add_stmt b e s) = CurrentBlock s"
  unfolding add_stmt_def using on_stmts_step [OF assms disjI1 [OF refl]] by blast+

lemma add_cond_step:
  assumes "good s"
  shows "steps {} s (add_cond b e s)" "nb (add_cond b e s) = nb s"
    "c < nb s \<Longrightarrow> term_of (add_cond b e s) c = term_of s c" "CurrentBlock (add_cond b e s) = CurrentBlock s"
  using add_stmt_step [OF assms] steps_refl [OF assms] by (simp_all add: add_cond_def)

lemma emit_fold_step:
  "good s \<Longrightarrow> (let t = fold (\<lambda>st. on_graph (on_block b (addDeferredRun st))) sts s in
     steps {} s t \<and> nb t = nb s \<and> (\<forall>c < nb s. term_of t c = term_of s c) \<and> CurrentBlock t = CurrentBlock s)"
proof (induction sts arbitrary: s)
  case Nil
  then show ?case by (simp add: steps_refl Let_def)
next
  case (Cons st sts)
  let ?s = "on_graph (on_block b (addDeferredRun st)) s"
  note k = on_stmts_step [OF Cons.prems disjI2 [OF refl]]
  have g: "good ?s" by (rule stepsD(1) [OF k(1)])
  show ?case
    using Cons.IH [OF g] k steps_trans [of "{}" s ?s "{}"] by (simp add: Let_def)
qed

lemma emit_step:
  assumes "good s"
  shows "steps {} s (emitDeferredRuns d s)" "nb (emitDeferredRuns d s) = nb s"
    "c < nb s \<Longrightarrow> term_of (emitDeferredRuns d s) c = term_of s c"
    "CurrentBlock (emitDeferredRuns d s) = CurrentBlock s"
  using emit_fold_step [OF assms] steps_refl [OF assms]
  by (simp_all add: emitDeferredRuns_def Let_def split: option.split)

text \<open>A state whose insert point, if any, is open.\<close>

definition tidy :: "BuildState \<Rightarrow> bool" where
  "tidy s \<longleftrightarrow> good s \<and> (\<forall>b. CurrentBlock s = Some b \<longrightarrow> open_at s b)"

lemma tidy_live: "tidy s \<Longrightarrow> live s \<longleftrightarrow> (\<exists>b. CurrentBlock s = Some b)"
  by (auto simp: tidy_def live_def open_at_def hasExplicit_iff split: option.split)

lemma tidy_good [simp]: "tidy s \<Longrightarrow> good s"
  by (simp add: tidy_def)

lemma fall_to_step:
  assumes "tidy s" and "t < nb s"
  shows "steps (set_option (CurrentBlock s)) s (fall_to t s)" "nb (fall_to t s) = nb s"
    "CurrentBlock s = Some b \<Longrightarrow> (b, t) \<in> E (fall_to t s)"
    "c < nb s \<Longrightarrow> term_of (fall_to t s) c = term_of s c" "CurrentBlock (fall_to t s) = CurrentBlock s"
proof -
  have l: "fall_to t s = link b t s \<and> b < nb s" if "CurrentBlock s = Some b" for b
    using that assms by (simp add: fall_to_def tidy_live link_def tidy_def open_at_def)
  have n: "fall_to t s = s" if "CurrentBlock s = None"
    using that by (simp add: fall_to_def live_def)
  show "steps (set_option (CurrentBlock s)) s (fall_to t s)" "nb (fall_to t s) = nb s"
    "CurrentBlock s = Some b \<Longrightarrow> (b, t) \<in> E (fall_to t s)"
    "c < nb s \<Longrightarrow> term_of (fall_to t s) c = term_of s c" "CurrentBlock (fall_to t s) = CurrentBlock s"
    using l n assms link_step [of s _ t] steps_refl [of s] by (cases "CurrentBlock s"; simp)+
qed

end
