(* ===== verification/CfgSound.thy ===== *)
theory CfgSound
  imports CfgFacts
begin

text \<open>
  What the builder's graph says about the runs of the body. \<open>run\<close> gives every way the control can
  leave a statement when nothing is known of the conditions; the theorems show that a graph contains a
  path for each of them, so the "not all paths return" check of a function misses none.
\<close>

section \<open>Runs\<close>

datatype Ending = Normal | Broke | Continued | Left

text \<open>A loop: is its condition tested first, can the condition end it, and its body.\<close>

definition loop_of :: "ExprAST \<Rightarrow> (bool \<times> bool \<times> ExprAST) option" where
  "loop_of e = (case e of
      WhileExpr loc c b \<Rightarrow> Some (True, \<not> literal_true c, b)
    | DoWhileExpr loc b c \<Rightarrow> Some (False, \<not> literal_true c, b)
    | ForExpr loc v s t st b \<Rightarrow> Some (True, True, b)
    | ForEachExpr loc v i it b \<Rightarrow> Some (True, True, b)
    | _ \<Rightarrow> None)"

text \<open>Statements without a control structure of their own.\<close>

definition plain_stmt :: "ExprAST \<Rightarrow> bool" where
  "plain_stmt e \<longleftrightarrow> loop_of e = None \<and> (case e of
      NoExpr \<Rightarrow> False | BlockExpr es \<Rightarrow> False | UnsafeBlockExpr loc b \<Rightarrow> False | IfExpr brs els \<Rightarrow> False
    | CompareExpr loc s arms other ex \<Rightarrow> False | ReturnExpr loc v \<Rightarrow> False | BreakExpr loc \<Rightarrow> False
    | ContinueExpr loc \<Rightarrow> False | _ \<Rightarrow> True)"

text \<open>
  The expressions an \<open>if\<close> or a \<open>compare\<close> evaluates itself, and those of every control structure. A jump
  out of a run block in the condition of a loop is given no outcome; the theorems exclude it.
\<close>

definition heads :: "ExprAST \<Rightarrow> ExprAST list" where
  "heads e = (case e of
      IfExpr brs els \<Rightarrow> map br_cond brs
    | CompareExpr loc s arms other ex \<Rightarrow> s # concat (map (\<lambda>a. arm_values a @ arm_guards a) arms)
    | _ \<Rightarrow> [])"

definition conditions :: "ExprAST \<Rightarrow> ExprAST list" where
  "conditions e = heads e @ (case e of
      WhileExpr loc c b \<Rightarrow> [c]
    | DoWhileExpr loc b c \<Rightarrow> [c]
    | ForExpr loc v s t st b \<Rightarrow> [s, t, st]
    | ForEachExpr loc v i it b \<Rightarrow> [it]
    | _ \<Rightarrow> [])"

text \<open>
  Any condition may be true or false, any call may fail. A statement may always leave the function
  (\<open>return\<close>, a failed \<open>try\<close>, an abort). A run block that ends is followed by the statement.
\<close>

inductive run :: "ExprAST \<Rightarrow> Ending \<Rightarrow> bool" and run_list :: "ExprAST list \<Rightarrow> Ending \<Rightarrow> bool" where
  run_none: "run NoExpr Normal"
| run_leave: "e \<noteq> NoExpr \<Longrightarrow> run e Left"
| run_block: "run_list es r \<Longrightarrow> run (BlockExpr es) r"
| run_unsafe: "run (BlockExpr es) r \<Longrightarrow> run (UnsafeBlockExpr loc (BlockExpr es)) r"
| run_branch: "br \<in> set brs \<Longrightarrow> run (br_body br) r \<Longrightarrow> run (IfExpr brs els) r"
| run_else: "brs \<noteq> [] \<Longrightarrow> run els r \<Longrightarrow> run (IfExpr brs els) r"
| run_arm: "a \<in> set arms \<Longrightarrow> arm_values a \<noteq> [] \<Longrightarrow> run (arm_body a) r \<Longrightarrow>
    run (CompareExpr loc s arms other ex) r"
| run_otherwise: "other \<noteq> NoExpr \<Longrightarrow> run other r \<Longrightarrow> run (CompareExpr loc s arms other ex) r"
| run_no_arm: "\<not> ex \<Longrightarrow> run (CompareExpr loc s arms NoExpr ex) Normal"
| run_head: "h \<in> set (heads e) \<Longrightarrow> q \<in> set (find_recovers h) \<Longrightarrow> run (recover_block q) r \<Longrightarrow> r \<noteq> Normal \<Longrightarrow> run e r"
| run_skip: "loop_of e = Some (True, True, b) \<Longrightarrow> run e Normal"
| run_turn: "loop_of e = Some (first, ends, b) \<Longrightarrow> run b r \<Longrightarrow> r = Normal \<or> r = Continued \<Longrightarrow> run e r' \<Longrightarrow> run e r'"
| run_last: "loop_of e = Some (first, True, b) \<Longrightarrow> run b r \<Longrightarrow> r = Normal \<or> r = Continued \<Longrightarrow> run e Normal"
| run_broke: "loop_of e = Some (first, ends, b) \<Longrightarrow> run b Broke \<Longrightarrow> run e Normal"
| run_break: "run (BreakExpr loc) Broke"
| run_continue: "run (ContinueExpr loc) Continued"
| run_return: "q \<in> set (find_recovers (ReturnExpr loc v)) \<Longrightarrow> run (recover_block q) r \<Longrightarrow> r \<noteq> Normal \<Longrightarrow>
    run (ReturnExpr loc v) r"
| run_plain: "plain_stmt e \<Longrightarrow> run e Normal"
| run_recover: "plain_stmt e \<Longrightarrow> q \<in> set (find_recovers e) \<Longrightarrow> run (recover_block q) r \<Longrightarrow> run e r"
| run_nil: "run_list [] Normal"
| run_stop: "run e r \<Longrightarrow> r \<noteq> Normal \<Longrightarrow> run_list (e # es) r"
| run_next: "run e Normal \<Longrightarrow> run_list es r \<Longrightarrow> run_list (e # es) r"

inductive_cases run_noneE: "run NoExpr r"
inductive_cases run_blockE: "run (BlockExpr es) r"
inductive_cases run_unsafeE: "run (UnsafeBlockExpr loc b) r"
inductive_cases run_ifE: "run (IfExpr brs els) r"
inductive_cases run_compareE: "run (CompareExpr loc s arms other ex) r"
inductive_cases run_returnE: "run (ReturnExpr loc v) r"
inductive_cases run_breakE: "run (BreakExpr loc) r"
inductive_cases run_continueE: "run (ContinueExpr loc) r"
inductive_cases run_nilE: "run_list [] r"
inductive_cases run_consE [consumes 1, case_names stop follow]: "run_list (e # es) r"

lemma run_block_iff: "run (BlockExpr es) r \<longleftrightarrow> run_list es r \<or> r = Left"
  by (auto elim: run_blockE intro: run_block run_leave simp: heads_def loop_of_def plain_stmt_def)

lemma run_none_iff: "run NoExpr r \<longleftrightarrow> r = Normal"
  by (auto elim: run_noneE intro: run_none simp: heads_def loop_of_def plain_stmt_def)

section \<open>The parts the builder visits\<close>

definition substatements :: "ExprAST \<Rightarrow> ExprAST list" where
  "substatements e = (case e of
      BlockExpr es \<Rightarrow> es
    | UnsafeBlockExpr loc b \<Rightarrow> [b]
    | IfExpr brs els \<Rightarrow> map br_body brs @ [els]
    | WhileExpr loc c b \<Rightarrow> [b]
    | DoWhileExpr loc b c \<Rightarrow> [b]
    | ForExpr loc v s t st b \<Rightarrow> [b]
    | ForEachExpr loc v i it b \<Rightarrow> [b]
    | CompareExpr loc s arms other ex \<Rightarrow> map arm_body arms @ [other]
    | NoExpr \<Rightarrow> []
    | BreakExpr loc \<Rightarrow> []
    | ContinueExpr loc \<Rightarrow> []
    | _ \<Rightarrow> map recover_block (find_recovers e))"

lemma size_substatements: "c \<in> set (substatements e) \<Longrightarrow> size c < size e"
proof (cases e)
  case (IfExpr brs els)
  then show "c \<in> set (substatements e) \<Longrightarrow> size c < size e"
    using size_branch [of _ brs] by (fastforce simp: substatements_def)
next
  case (CompareExpr loc s arms other ex)
  then show "c \<in> set (substatements e) \<Longrightarrow> size c < size e"
    using size_arm(3) [of _ arms] by (fastforce simp: substatements_def)
next
  case (BlockExpr es)
  then show "c \<in> set (substatements e) \<Longrightarrow> size c < size e"
    using size_in_list [of c es] by (simp add: substatements_def)
qed (use size_find_recovers in \<open>fastforce simp: substatements_def\<close>)+

text \<open>No condition inside the statement holds a \<open>recover run\<close> block.\<close>

function straight_conditions :: "ExprAST \<Rightarrow> bool" where
  "straight_conditions e \<longleftrightarrow>
     list_all (\<lambda>c. find_recovers c = []) (conditions e) \<and> list_all straight_conditions (substatements e)"
  by pat_completeness auto
termination
  by (relation "measure size") (auto intro: size_substatements)

declare straight_conditions.simps [simp del]

lemma straight_heads: "straight_conditions e \<Longrightarrow> h \<in> set (heads e) \<Longrightarrow> find_recovers h = []"
  by (subst (asm) straight_conditions.simps) (simp add: conditions_def list_all_iff)

lemma straight_sub: "straight_conditions e \<Longrightarrow> c \<in> set (substatements e) \<Longrightarrow> straight_conditions c"
  by (subst (asm) straight_conditions.simps) (simp add: list_all_iff)

section \<open>Where a run lands\<close>

definition lands :: "nat \<Rightarrow> nat option \<Rightarrow> nat option \<Rightarrow> nat option \<Rightarrow> BuildState \<Rightarrow> Ending \<Rightarrow> bool" where
  "lands a n brk cont s r \<longleftrightarrow> (case r of
      Normal \<Rightarrow> \<exists>t. n = Some t \<and> (a, t) \<in> (E s)\<^sup>*
    | Broke \<Rightarrow> \<exists>t. brk = Some t \<and> (a, t) \<in> (E s)\<^sup>*
    | Continued \<Rightarrow> \<exists>t. cont = Some t \<and> (a, t) \<in> (E s)\<^sup>*
    | Left \<Rightarrow> True)"

lemma lands_left [simp]: "lands a n brk cont s Left"
  by (simp add: lands_def)

lemma lands_mono: "lands a n brk cont s r \<Longrightarrow> E s \<subseteq> E t \<Longrightarrow> lands a n brk cont t r"
  using rtrancl_mono [of "E s" "E t"] by (auto simp: lands_def split: Ending.splits)

lemma lands_from: "(a', a) \<in> (E s)\<^sup>* \<Longrightarrow> lands a n brk cont s r \<Longrightarrow> lands a' n brk cont s r"
  by (auto simp: lands_def split: Ending.splits intro: rtrancl_trans)

lemma lands_then:
  "lands a n brk cont s r \<Longrightarrow> (\<And>t. n = Some t \<Longrightarrow> (t, m) \<in> (E s)\<^sup>*) \<Longrightarrow> lands a (Some m) brk cont s r"
  by (auto simp: lands_def split: Ending.splits intro: rtrancl_trans)

text \<open>A visit keeps every block but the current one, and ends at it, at a new one or nowhere.\<close>

definition moves :: "BuildState \<Rightarrow> BuildState \<Rightarrow> bool" where
  "moves s s' \<longleftrightarrow> steps (set_option (CurrentBlock s)) s s' \<and>
     (\<forall>c. CurrentBlock s' = Some c \<longrightarrow> open_at s' c \<and> (CurrentBlock s = Some c \<or> nb s \<le> c))"

lemma moves_tidy: "moves s s' \<Longrightarrow> tidy s'"
  using stepsD(1) by (auto simp: moves_def tidy_def)

lemma moves_refl: "tidy s \<Longrightarrow> moves s s"
  by (simp add: moves_def tidy_def steps_refl)

lemma moves_trans:
  assumes "moves s t" and "moves t u"
  shows "moves s u"
proof -
  have s: "steps (set_option (CurrentBlock s)) s t" and t: "steps (set_option (CurrentBlock t)) t u"
    using assms by (simp_all add: moves_def)
  have "set_option (CurrentBlock t) \<inter> {..<nb s} \<subseteq> set_option (CurrentBlock s)"
    using assms(1) by (auto simp: moves_def)
  with s t have "steps (set_option (CurrentBlock s)) s u" by (rule steps_trans)
  moreover have "nb s \<le> nb t" using s by (rule stepsD(2))
  ultimately show ?thesis using assms unfolding moves_def by (metis le_trans)
qed

lemma core_moves: "moves s t \<Longrightarrow> same_core t u \<Longrightarrow> CurrentBlock u = CurrentBlock t \<Longrightarrow> moves s u"
  using steps_then_core [of "set_option (CurrentBlock s)" s t u]
  by (simp add: moves_def same_core_def open_at_def)

lemma core_moves_from: "same_core s s' \<Longrightarrow> CurrentBlock s' = CurrentBlock s \<Longrightarrow> moves s' t \<Longrightarrow> moves s t"
  using core_then_steps [of s s' "set_option (CurrentBlock s)" t]
  by (simp add: moves_def same_core_def open_at_def)

lemma emit_moves: "tidy s \<Longrightarrow> moves s (emitDeferredRuns d s)"
  using emit_step [of s] steps_mono [of "{}" s "emitDeferredRuns d s"]
  by (auto simp: moves_def tidy_def open_at_def)

section \<open>The contract of a visitor\<close>

text \<open>
  What a handler may assume of the visits of its parts: a visit from an open block is a move, and every
  run of the visited statement lands where the builder goes on, or at the target of its jump.
\<close>

locale visiting =
  fixes visit :: visitor and parts :: "ExprAST set"
  assumes visit_moves: "x \<in> parts \<Longrightarrow> tidy s \<Longrightarrow> visit x s = Inr s' \<Longrightarrow> moves s s'"
    and visit_lands: "x \<in> parts \<Longrightarrow> tidy s \<Longrightarrow> CurrentBlock s = Some b \<Longrightarrow> visit x s = Inr s' \<Longrightarrow>
      straight_conditions x \<Longrightarrow> run x r \<Longrightarrow>
      lands b (CurrentBlock s') (LoopBreakTarget s) (LoopContinueTarget s) s' r"

context visiting
begin

text \<open>A part visited from a block, then joined to another one.\<close>

lemma visit_at:
  assumes x: "x \<in> parts" and g: "good t" and c: "open_at t c" and v: "visit x (setInsertPoint (Some c) t) = Inr u"
  shows "steps {c} t u" "tidy u" "CurrentBlock u = Some d \<Longrightarrow> d = c \<or> nb t \<le> d"
    "straight_conditions x \<Longrightarrow> run x r \<Longrightarrow>
       lands c (CurrentBlock u) (LoopBreakTarget t) (LoopContinueTarget t) u r"
proof -
  let ?t = "setInsertPoint (Some c) t"
  have core: "same_core t ?t" by simp
  then have t: "tidy ?t" using g c by (simp add: tidy_def same_core_def good_def open_at_def setInsertPoint_def)
  have m: "moves ?t u" by (rule visit_moves [OF x t v])
  then show "tidy u" by (rule moves_tidy)
  from m have "steps {c} ?t u" by (simp add: moves_def setInsertPoint_def)
  then show "steps {c} t u" by (rule core_then_steps [OF core])
  show "CurrentBlock u = Some d \<Longrightarrow> d = c \<or> nb t \<le> d"
    using m by (auto simp: moves_def setInsertPoint_def)
  show "straight_conditions x \<Longrightarrow> run x r \<Longrightarrow>
      lands c (CurrentBlock u) (LoopBreakTarget t) (LoopContinueTarget t) u r"
    using visit_lands [OF x t _ v, of c] by (simp add: setInsertPoint_def)
qed

lemma visit_fall:
  assumes x: "x \<in> parts" and g: "good t" and c: "open_at t c" and m: "m < nb t"
    and v: "visit x (setInsertPoint (Some c) t) = Inr u"
  shows "steps {c} t (fall_to m u)" "tidy (fall_to m u)" "nb u \<le> nb (fall_to m u)"
    "straight_conditions x \<Longrightarrow> run x r \<Longrightarrow>
       lands c (Some m) (LoopBreakTarget t) (LoopContinueTarget t) (fall_to m u) r"
    "straight_conditions x \<Longrightarrow> run x Normal \<Longrightarrow> live u"
proof -
  note k = visit_at [OF x g c v]
  have m': "m < nb u" using m stepsD(2) [OF k(1)] by simp
  note f = fall_to_step [OF k(2) m']
  have "set_option (CurrentBlock u) \<inter> {..<nb t} \<subseteq> {c}" using k(3) by auto
  with k(1) f(1) show s: "steps {c} t (fall_to m u)" by (rule steps_trans)
  show "nb u \<le> nb (fall_to m u)" using f(2) by simp
  show "tidy (fall_to m u)"
    using k(2) f(4) stepsD(1) [OF s] f(2,5) by (auto simp: tidy_def open_at_def)
  have "E u \<subseteq> E (fall_to m u)" by (rule stepsD(4) [OF f(1)])
  then show "straight_conditions x \<Longrightarrow> run x r \<Longrightarrow>
      lands c (Some m) (LoopBreakTarget t) (LoopContinueTarget t) (fall_to m u) r"
    using lands_mono [OF k(4)] f(3) by (blast intro: lands_then)
  show "straight_conditions x \<Longrightarrow> run x Normal \<Longrightarrow> live u"
    using k(2) k(4) [of Normal] by (auto simp: tidy_live lands_def)
qed

section \<open>Blocks\<close>

lemma visit_list:
  assumes "set es \<subseteq> parts" and "tidy s" and "seq_r visit es s = Inr s'"
  shows "moves s s' \<and> (\<forall>b r. CurrentBlock s = Some b \<longrightarrow> list_all straight_conditions es \<longrightarrow> run_list es r \<longrightarrow>
    lands b (CurrentBlock s') (LoopBreakTarget s) (LoopContinueTarget s) s' r)"
  using assms
proof (induction es arbitrary: s)
  case Nil
  then show ?case by (auto simp: moves_refl lands_def elim!: run_nilE)
next
  case (Cons e es)
  then obtain t where t: "visit e s = Inr t" "seq_r visit es t = Inr s'"
    by (cases "visit e s") auto
  have e: "e \<in> parts" using Cons.prems(1) by simp
  have m: "moves s t" by (rule visit_moves [OF e Cons.prems(2) t(1)])
  with Cons.IH [of t] Cons.prems(1) t(2) moves_tidy
  have ih: "moves t s'" "\<And>b r. CurrentBlock t = Some b \<Longrightarrow> list_all straight_conditions es \<Longrightarrow> run_list es r \<Longrightarrow>
      lands b (CurrentBlock s') (LoopBreakTarget t) (LoopContinueTarget t) s' r" by simp_all
  have st: "steps (set_option (CurrentBlock s)) s t" and ts: "steps (set_option (CurrentBlock t)) t s'"
    using m ih(1) by (simp_all add: moves_def)
  have "lands b (CurrentBlock s') (LoopBreakTarget s) (LoopContinueTarget s) s' r"
    if b: "CurrentBlock s = Some b" and straight: "list_all straight_conditions (e # es)"
      and r: "run_list (e # es) r" for b r
  proof -
    note l = visit_lands [OF e Cons.prems(2) b t(1)]
    from r show ?thesis
    proof (cases rule: run_consE)
      case stop
      have "lands b (CurrentBlock t) (LoopBreakTarget s) (LoopContinueTarget s) t r"
        using straight by (intro l [OF _ stop(1)]) simp
      then show ?thesis using stop stepsD(4) [OF ts] lands_mono [of b None _ _ t r s']
        by (cases r) (auto simp: lands_def dest: subsetD [OF rtrancl_mono])
    next
      case follow
      with straight l [of Normal] obtain c where c: "CurrentBlock t = Some c" "(b, c) \<in> (E t)\<^sup>*"
        by (auto simp: lands_def)
      have "lands c (CurrentBlock s') (LoopBreakTarget t) (LoopContinueTarget t) s' r"
        using ih(2) [OF c(1)] straight follow by simp
      with reach_mono [OF ts c(2)] show ?thesis
        unfolding stepsD(5,6) [OF st] by (rule lands_from)
    qed
  qed
  with moves_trans [OF m ih(1)] show ?case by blast
qed

lemma visitBlock_ok:
  assumes "\<And>es. e = BlockExpr es \<Longrightarrow> set es \<subseteq> parts" and t: "tidy s" and v: "visitBlock visit e s = Inr s'"
  shows "moves s s'"
    "e = BlockExpr es \<Longrightarrow> CurrentBlock s = Some b \<Longrightarrow> straight_conditions e \<Longrightarrow> run e r \<Longrightarrow>
       lands b (CurrentBlock s') (LoopBreakTarget s) (LoopContinueTarget s) s' r"
proof -
  have "moves s s' \<and> (\<forall>es b r. e = BlockExpr es \<longrightarrow> CurrentBlock s = Some b \<longrightarrow> straight_conditions e \<longrightarrow> run e r \<longrightarrow>
      lands b (CurrentBlock s') (LoopBreakTarget s) (LoopContinueTarget s) s' r)"
  proof (cases "\<exists>es. e = BlockExpr es")
    case False
    then have "s' = s" using v by (cases e) (simp_all add: visitBlock_def)
    with False t show ?thesis by (simp add: moves_refl)
  next
    case True
    then obtain es where e: "e = BlockExpr es" by blast
    let ?s = "s\<lparr>DeferScopes := DeferScopes s @ [[]]\<rparr>"
    obtain u where u: "seq_r visit es ?s = Inr u"
      using v e by (cases "seq_r visit es ?s") (simp_all add: visitBlock_def)
    define w where "w = (if live u then emitDeferredRuns (length (DeferScopes u) - 1) u else u)"
    have s': "s' = w\<lparr>DeferScopes := butlast (DeferScopes w)\<rparr>"
      using v e u by (simp add: visitBlock_def Let_def w_def)
    have core: "same_core s ?s" by simp
    have "tidy ?s" using t by (simp add: tidy_def good_def open_at_def)
    from visit_list [OF assms(1) [OF e] this u] have
      m: "moves ?s u" and l: "\<And>b r. CurrentBlock s = Some b \<Longrightarrow> list_all straight_conditions es \<Longrightarrow> run_list es r \<Longrightarrow>
        lands b (CurrentBlock u) (LoopBreakTarget s) (LoopContinueTarget s) u r" by simp_all
    have uw: "moves u w" "CurrentBlock w = CurrentBlock u"
      using emit_moves [OF moves_tidy [OF m]] moves_refl [OF moves_tidy [OF m]]
        emit_step(4) [of u] moves_tidy [OF m] by (simp_all add: w_def)
    have "moves s w" by (rule core_moves_from [OF core _ moves_trans [OF m uw(1)]]) simp
    then have ms: "moves s s'" by (rule core_moves) (simp_all add: s')
    have "E u \<subseteq> E s'" using uw(1) stepsD(4) by (auto simp: moves_def s')
    moreover have "CurrentBlock s' = CurrentBlock u" using uw(2) s' by simp
    moreover have "straight_conditions e \<Longrightarrow> list_all straight_conditions es"
      using straight_sub [of e] by (simp add: e substatements_def list_all_iff)
    ultimately have "lands b (CurrentBlock s') (LoopBreakTarget s) (LoopContinueTarget s) s' r"
      if "CurrentBlock s = Some b" "straight_conditions e" "run e r" for b r
      using that lands_mono [OF l] by (cases "r = Left") (simp_all add: e run_block_iff)
    with ms show ?thesis by blast
  qed
  then show "moves s s'"
    "e = BlockExpr es \<Longrightarrow> CurrentBlock s = Some b \<Longrightarrow> straight_conditions e \<Longrightarrow> run e r \<Longrightarrow>
       lands b (CurrentBlock s') (LoopBreakTarget s) (LoopContinueTarget s) s' r" by blast+
qed

section \<open>Recover blocks\<close>

lemma visit_runs:
  assumes "recover_block ` set qs \<subseteq> parts" and "good s" and "pre < nb s" and "open_at s ok" and "pre \<noteq> ok"
    and "seq_r (visit_run visit pre ok) qs s = Inr s'"
  shows "steps {pre} s s' \<and> (\<forall>q \<in> set qs. \<forall>r. straight_conditions (recover_block q) \<longrightarrow> run (recover_block q) r \<longrightarrow>
    lands pre (Some ok) (LoopBreakTarget s) (LoopContinueTarget s) s' r)"
  using assms
proof (induction qs arbitrary: s)
  case Nil
  then show ?case by (simp add: steps_refl)
next
  case (Cons q qs)
  let ?s = "s\<lparr>BlocksInCFG := BlocksInCFG s @ [q]\<rparr>"
  obtain v where v: "visit_run visit pre ok q s = Inr v" "seq_r (visit_run visit pre ok) qs v = Inr s'"
    using Cons.prems(6) by (cases "visit_run visit pre ok q s") auto
  obtain c t where c: "new_bb ''recover.run'' ?s = (c, t)" by fastforce
  obtain u where u: "visit (recover_block q) (setInsertPoint (Some c) (link pre c t)) = Inr u" and v': "v = fall_to ok u"
    using v(1) c by (cases "visit (recover_block q) (setInsertPoint (Some c) (link pre c t))")
      (simp_all add: visit_run_def)
  have core: "same_core s ?s" by simp
  have g: "good ?s" using Cons.prems(2) by (simp add: good_def)
  note n = new_bb_step [OF g c]
  have gt: "good t" by (rule stepsD(1) [OF n(3)])
  have cs: "c = nb s" "nb t = Suc (nb s)" using n(1,2) by simp_all
  have st: "steps {} s t" by (rule core_then_steps [OF core n(3)])
  have l: "steps {pre} t (link pre c t)" "(pre, c) \<in> E (link pre c t)" "nb (link pre c t) = nb t"
    using link_step [OF gt, of pre c] Cons.prems(3) cs by simp_all
  have open_c: "open_at (link pre c t) c"
    using open_at_steps [OF n(4) l(1)] cs Cons.prems(3) by simp
  have sl: "steps {pre} s (link pre c t)" by (rule steps_trans [OF steps_mono [OF st] l(1)]) auto
  have q: "recover_block q \<in> parts" using Cons.prems(1) by simp
  have ok: "ok < nb (link pre c t)" using Cons.prems(4) cs l(3) by (simp add: open_at_def)
  note f = visit_fall [OF q stepsD(1) [OF l(1)] open_c ok u, folded v']
  have sv: "steps {pre} s v" using steps_trans [OF sl f(1)] cs by simp
  have "open_at v ok" using open_at_steps [OF Cons.prems(4) sv] Cons.prems(5) by simp
  moreover have "pre < nb v" using Cons.prems(3) stepsD(2) [OF sv] by simp
  ultimately have ih: "steps {pre} v s'"
      "\<And>p r. p \<in> set qs \<Longrightarrow> straight_conditions (recover_block p) \<Longrightarrow> run (recover_block p) r \<Longrightarrow>
        lands pre (Some ok) (LoopBreakTarget s) (LoopContinueTarget s) s' r"
    using Cons.IH [of v] Cons.prems(1,5) v(2) stepsD(1) [OF sv] stepsD(5,6) [OF sv] by auto
  have "steps {pre} s s'" using steps_trans [OF sv ih(1)] by simp
  moreover have "lands pre (Some ok) (LoopBreakTarget s) (LoopContinueTarget s) s' r"
    if "straight_conditions (recover_block q)" "run (recover_block q) r" for r
  proof -
    have "lands c (Some ok) (LoopBreakTarget s) (LoopContinueTarget s) v r"
      using f(4) [OF that] stepsD(5,6) [OF sl] by simp
    moreover have "(pre, c) \<in> E v" using l(2) stepsD(4) [OF f(1)] by blast
    ultimately have "lands pre (Some ok) (LoopBreakTarget s) (LoopContinueTarget s) v r"
      by (blast intro: lands_from)
    then show ?thesis using stepsD(4) [OF ih(1)] by (rule lands_mono)
  qed
  ultimately show ?case using ih(2) by auto
qed

lemma recovers_ok:
  assumes p: "recover_block ` set (find_recovers e) \<subseteq> parts" and t: "tidy s" and b: "CurrentBlock s = Some b"
    and v: "branchToRecoverBlocks visit e b s = Inr s'"
  shows "moves s s'" "\<exists>d. CurrentBlock s' = Some d \<and> (b, d) \<in> (E s')\<^sup>*"
    "q \<in> set (find_recovers e) \<Longrightarrow> straight_conditions (recover_block q) \<Longrightarrow> run (recover_block q) r \<Longrightarrow>
       lands b (CurrentBlock s') (LoopBreakTarget s) (LoopContinueTarget s) s' r"
proof -
  have "moves s s' \<and> (\<exists>d. CurrentBlock s' = Some d \<and> (b, d) \<in> (E s')\<^sup>*) \<and>
    (\<forall>q \<in> set (find_recovers e). \<forall>r. straight_conditions (recover_block q) \<longrightarrow> run (recover_block q) r \<longrightarrow>
       lands b (CurrentBlock s') (LoopBreakTarget s) (LoopContinueTarget s) s' r)"
  proof (cases "find_recovers e = []")
    case True
    with v b t show ?thesis by (simp add: branchToRecoverBlocks_def moves_refl)
  next
    case False
    obtain ok t1 where n: "new_bb ''recover.ok'' s = (ok, t1)" by fastforce
    obtain u where u: "seq_r (visit_run visit b ok) (find_recovers e) (link b ok t1) = Inr u"
      using v n False by (cases "seq_r (visit_run visit b ok) (find_recovers e) (link b ok t1)")
        (simp_all add: branchToRecoverBlocks_def Let_def)
    let ?w = "set_term b TkUnconditional (recover_loc (hd (find_recovers e))) u"
    have s': "s' = setInsertPoint (Some ok) ?w"
      using v n False u by (simp add: branchToRecoverBlocks_def Let_def)
    note k = new_bb_step [OF tidy_good [OF t] n]
    have bs: "b < nb s" using t b by (auto simp: tidy_def open_at_def)
    have l: "steps {b} t1 (link b ok t1)" "(b, ok) \<in> E (link b ok t1)" "nb (link b ok t1) = nb t1"
      using link_step [OF stepsD(1) [OF k(3)], of b ok] bs k(1,2) by simp_all
    have sl: "steps {b} s (link b ok t1)" by (rule steps_trans [OF steps_mono [OF k(3)] l(1)]) auto
    have o: "open_at (link b ok t1) ok" using open_at_steps [OF k(4) l(1)] bs k(1) by simp
    from visit_runs [OF p stepsD(1) [OF l(1)] _ o _ u] bs k(1,2) l(3)
    have r: "steps {b} (link b ok t1) u" "\<And>q r. q \<in> set (find_recovers e) \<Longrightarrow> straight_conditions (recover_block q) \<Longrightarrow>
        run (recover_block q) r \<Longrightarrow> lands b (Some ok) (LoopBreakTarget s) (LoopContinueTarget s) u r"
      using stepsD(5,6) [OF sl] by auto
    note w = set_term_step(1,2,4) [OF stepsD(1) [OF r(1)], of b TkUnconditional "recover_loc (hd (find_recovers e))"]
    have lw: "steps {b} (link b ok t1) ?w" using steps_trans [OF r(1) w(1)] by simp
    have sw: "steps {b} s ?w" using steps_trans [OF sl lw] by simp
    have "open_at ?w ok" using open_at_steps [OF o lw] bs k(1) by simp
    then have "moves s s'" unfolding s' moves_def
      using steps_then_core [OF sw same_core_upd(1)] b k(1)
      by (simp add: setInsertPoint_def open_at_def)
    moreover have "E s' = E ?w" by (simp add: s' setInsertPoint_def)
    moreover have "E u \<subseteq> E ?w" by (rule stepsD(4) [OF w(1)])
    moreover have "(b, ok) \<in> E ?w" using l(2) stepsD(4) [OF lw] by blast
    moreover have "CurrentBlock s' = Some ok" by (simp add: s' setInsertPoint_def)
    ultimately show ?thesis using r(2) lands_mono [of b _ _ _ u _ s'] by auto
  qed
  then show "moves s s'" "\<exists>d. CurrentBlock s' = Some d \<and> (b, d) \<in> (E s')\<^sup>*"
    "q \<in> set (find_recovers e) \<Longrightarrow> straight_conditions (recover_block q) \<Longrightarrow> run (recover_block q) r \<Longrightarrow>
       lands b (CurrentBlock s') (LoopBreakTarget s) (LoopContinueTarget s) s' r" by blast+
qed

end

end
