(* ===== verification/CfgHandlers.thy ===== *)
theory CfgHandlers
  imports CfgSound
begin

text \<open>
  Every handler of \<open>CFGBuilder\<close> keeps the contract of a visitor when the visits it makes do: jumps and
  plain statements, loops, \<open>if\<close> and \<open>compare\<close>. The interpretation at the end is \<open>visitExpr\<close> itself.
\<close>

section \<open>Jumps and plain statements\<close>

lemma jump_ok:
  assumes t: "tidy s" and b: "CurrentBlock s = Some b" and x: "target = Some x" "x < nb s"
  shows "moves s (jump k loc target s)" "(b, x) \<in> E (jump k loc target s)" "CurrentBlock (jump k loc target s) = None"
proof -
  let ?s = "s\<lparr>LastTerminatorLoc := loc\<rparr>"
  let ?t = "set_term b k loc ?s"
  have g: "good ?s" "b < nb ?s" using t b by (auto simp: tidy_def good_def open_at_def)
  note k = set_term_step(1,2) [OF g(1), of b k loc]
  have j: "jump k loc target s = (link b x ?t)\<lparr>CurrentBlock := None\<rparr>"
    by (simp add: jump_def b x(1) link_def)
  have l: "steps {b} ?t (link b x ?t)" "(b, x) \<in> E (link b x ?t)"
    using link_step [OF stepsD(1) [OF k(1)], of b x] g(2) x(2) k(2) by simp_all
  have "steps {b} ?s (link b x ?t)" using steps_trans [OF k(1) l(1)] by simp
  then have "steps {b} s (link b x ?t)" by (rule core_then_steps [rotated]) simp
  then show "moves s (jump k loc target s)"
    unfolding moves_def j by (simp add: b steps_then_core)
  show "(b, x) \<in> E (jump k loc target s)" "CurrentBlock (jump k loc target s) = None"
    using l(2) by (simp_all add: j)
qed

lemma add_here_ok:
  assumes "tidy s"
  shows "moves s (add_here e s)" "CurrentBlock (add_here e s) = CurrentBlock s"
    "nb (add_here e s) = nb s"
proof -
  have "moves s (add_stmt b e s)" if "CurrentBlock s = Some b" for b
    using add_stmt_step [OF tidy_good [OF assms], where b = b and e = e] steps_mono [of "{}" s "add_stmt b e s"] that assms
    by (simp add: moves_def tidy_def open_at_def)
  then show "moves s (add_here e s)"
    using moves_refl [OF assms] by (simp add: add_here_def split: option.split)
  show "CurrentBlock (add_here e s) = CurrentBlock s" "nb (add_here e s) = nb s"
    using add_stmt_step(2,4) [OF tidy_good [OF assms]] by (simp_all add: add_here_def split: option.split)
qed

lemma moves_steps: "moves s t \<Longrightarrow> CurrentBlock s = Some b \<Longrightarrow> steps {b} s t"
  by (simp add: moves_def)

lemma lands_moves: "lands a n k c s r \<Longrightarrow> moves s t \<Longrightarrow> lands a n k c t r"
  using stepsD(4) lands_mono by (auto simp: moves_def)

lemma moves_targets:
  "moves s t \<Longrightarrow> LoopBreakTarget t = LoopBreakTarget s \<and> LoopContinueTarget t = LoopContinueTarget s \<and>
    ExitBlock (CurrentCFG t) = ExitBlock (CurrentCFG s) \<and> nb s \<le> nb t"
  using stepsD(2,5,6,7) unfolding moves_def by blast

text \<open>What \<open>break\<close> and \<open>continue\<close> do: the deferred statements, the statement itself, the jump.\<close>

lemma leave_ok:
  assumes t: "tidy s" and b: "CurrentBlock s = Some b" and x: "x < nb s"
    and s': "s' = jump k loc (Some x) (add_here e (emitDeferredRuns d s))"
  shows "moves s s'" "(b, x) \<in> E s'"
proof -
  have m: "moves s (emitDeferredRuns d s)" by (rule emit_moves [OF t])
  note a = add_here_ok [OF moves_tidy [OF m], of e]
  have m': "moves s (add_here e (emitDeferredRuns d s))" by (rule moves_trans [OF m a(1)])
  have b': "CurrentBlock (add_here e (emitDeferredRuns d s)) = Some b"
    using a(2) emit_step(4) [OF tidy_good [OF t]] b by simp
  have x': "x < nb (add_here e (emitDeferredRuns d s))" using x moves_targets [OF m'] by simp
  note j = jump_ok [OF moves_tidy [OF m'] b' refl x']
  show "moves s s'" unfolding s' by (rule moves_trans [OF m' j(1)])
  show "(b, x) \<in> E s'" unfolding s' by (rule j(2))
qed

lemma target_bound:
  "good s \<Longrightarrow> LoopBreakTarget s = Some x \<Longrightarrow> x < nb s" "good s \<Longrightarrow> LoopContinueTarget s = Some y \<Longrightarrow> y < nb s"
  by (simp_all add: good_def)

lemma run_break_iff: "run (BreakExpr loc) r \<longleftrightarrow> r = Broke \<or> r = Left"
  by (auto elim: run_breakE intro: run_break run_leave simp: heads_def loop_of_def plain_stmt_def)

lemma run_continue_iff: "run (ContinueExpr loc) r \<longleftrightarrow> r = Continued \<or> r = Left"
  by (auto elim: run_continueE intro: run_continue run_leave simp: heads_def loop_of_def plain_stmt_def)

lemma break_ok:
  assumes t: "tidy s" and b: "CurrentBlock s = Some b" and v: "visitBreak loc e s = Inr s'"
  shows "moves s s'"
    "run (BreakExpr loc) r \<Longrightarrow> lands b (CurrentBlock s') (LoopBreakTarget s) (LoopContinueTarget s) s' r"
proof -
  from v obtain x where x: "LoopBreakTarget s = Some x" by (auto simp: visitBreak_def split: if_split_asm)
  note k = leave_ok [OF t b target_bound(1) [OF tidy_good [OF t] x]]
  have s': "s' = jump TkBreak loc (Some x) (add_here e (emitDeferredRuns (LoopDeferDepth s) s))"
    using v x by (simp add: visitBreak_def)
  show "moves s s'" by (rule k(1) [OF s'])
  show "run (BreakExpr loc) r \<Longrightarrow> lands b (CurrentBlock s') (LoopBreakTarget s) (LoopContinueTarget s) s' r"
    using k(2) [OF s'] x by (auto simp: run_break_iff lands_def)
qed

lemma continue_ok:
  assumes t: "tidy s" and b: "CurrentBlock s = Some b" and v: "visitContinue loc e s = Inr s'"
  shows "moves s s'"
    "run (ContinueExpr loc) r \<Longrightarrow> lands b (CurrentBlock s') (LoopBreakTarget s) (LoopContinueTarget s) s' r"
proof -
  from v obtain x where x: "LoopContinueTarget s = Some x" by (auto simp: visitContinue_def split: if_split_asm)
  note k = leave_ok [OF t b target_bound(2) [OF tidy_good [OF t] x]]
  have s': "s' = jump TkContinue loc (Some x) (add_here e (emitDeferredRuns (LoopDeferDepth s) s))"
    using v x by (simp add: visitContinue_def)
  show "moves s s'" by (rule k(1) [OF s'])
  show "run (ContinueExpr loc) r \<Longrightarrow> lands b (CurrentBlock s') (LoopBreakTarget s) (LoopContinueTarget s) s' r"
    using k(2) [OF s'] x by (auto simp: run_continue_iff lands_def)
qed

lemma run_return_cases:
  assumes "run (ReturnExpr loc v) r"
  obtains (left) "r = Left"
  | (recover) q where "q \<in> set (find_recovers (ReturnExpr loc v))" "run (recover_block q) r" "r \<noteq> Normal"
  using assms
proof (cases rule: run.cases)
  case (run_return q)
  then show ?thesis by (intro recover) auto
qed (use left in \<open>simp_all add: heads_def loop_of_def plain_stmt_def\<close>)

lemma plain_stmt_simps [simp]:
  "\<not> plain_stmt NoExpr" "\<not> plain_stmt (BlockExpr es)" "\<not> plain_stmt (UnsafeBlockExpr loc b)"
  "\<not> plain_stmt (IfExpr brs els)" "\<not> plain_stmt (CompareExpr loc s arms other ex)"
  "\<not> plain_stmt (ReturnExpr loc v)" "\<not> plain_stmt (BreakExpr loc)" "\<not> plain_stmt (ContinueExpr loc)"
  by (simp_all add: plain_stmt_def)

lemma plain_not_loop: "plain_stmt e \<Longrightarrow> loop_of e \<noteq> Some l"
  by (simp add: plain_stmt_def)

lemma run_plain_cases:
  assumes "run e r" and "plain_stmt e"
  obtains (left) "r = Left" | (normal) "r = Normal"
  | (recover) q where "q \<in> set (find_recovers e)" "run (recover_block q) r"
  using assms(1)
proof (cases rule: run.cases)
  case (run_head h q)
  with assms(2) show ?thesis by (cases e) (simp_all add: heads_def plain_stmt_def)
next
  case (run_recover q)
  then show ?thesis by (intro recover)
qed (use assms(2) left normal plain_not_loop in auto)

context visiting
begin

lemma return_ok:
  assumes p: "recover_block ` set (find_recovers (ReturnExpr loc x)) \<subseteq> parts" and t: "tidy s"
    and b: "CurrentBlock s = Some b" and v: "visitReturn visit loc (ReturnExpr loc x) b s = Inr s'"
  shows "moves s s'"
    "straight_conditions (ReturnExpr loc x) \<Longrightarrow> run (ReturnExpr loc x) r \<Longrightarrow>
       lands b (CurrentBlock s') (LoopBreakTarget s) (LoopContinueTarget s) s' r"
proof -
  obtain u where u: "branchToRecoverBlocks visit (ReturnExpr loc x) b s = Inr u"
    using v by (cases "branchToRecoverBlocks visit (ReturnExpr loc x) b s") (simp_all add: visitReturn_def)
  note k = recovers_ok [OF p t b u]
  obtain d where d: "CurrentBlock u = Some d" using k(2) by blast
  have tu: "tidy u" by (rule moves_tidy [OF k(1)])
  let ?a = "emitDeferredRuns 0 (add_here (ReturnExpr loc x) u)"
  note a = add_here_ok [OF tu, of "ReturnExpr loc x"]
  have ua: "moves u ?a" by (rule moves_trans [OF a(1) emit_moves [OF moves_tidy [OF a(1)]]])
  have da: "CurrentBlock ?a = Some d"
    using emit_step(4) [OF tidy_good [OF moves_tidy [OF a(1)]]] a(2) d by simp
  obtain e where e: "ExitBlock (CurrentCFG ?a) = Some e" "e < nb ?a"
    using good_exit [OF tidy_good [OF moves_tidy [OF ua]]] by blast
  have "ExitBlock (CurrentCFG u) = Some e" using e(1) moves_targets [OF ua] by simp
  then have s': "s' = jump TkReturn loc (Some e) ?a" using v u by (simp add: visitReturn_def)
  note j = jump_ok [OF moves_tidy [OF ua] da refl e(2), where k = TkReturn and loc = loc, folded s']
  have us: "moves u s'" by (rule moves_trans [OF ua j(1)])
  show "moves s s'" by (rule moves_trans [OF k(1) us])
  assume straight: "straight_conditions (ReturnExpr loc x)" and r: "run (ReturnExpr loc x) r"
  from r show "lands b (CurrentBlock s') (LoopBreakTarget s) (LoopContinueTarget s) s' r"
  proof (cases rule: run_return_cases)
    case left
    then show ?thesis by simp
  next
    case (recover q)
    have "straight_conditions (recover_block q)"
      using recover(1) by (intro straight_sub [OF straight]) (simp add: substatements_def)
    from lands_moves [OF k(3) [OF recover(1) this recover(2)] us] recover(3) show ?thesis
      by (cases r) (simp_all add: lands_def)
  qed
qed

lemma statement_ok:
  assumes p: "recover_block ` set (find_recovers e) \<subseteq> parts" and e: "plain_stmt e" and t: "tidy s"
    and b: "CurrentBlock s = Some b" and v: "visitStatement visit e b s = Inr s'"
  shows "moves s s'"
    "straight_conditions e \<Longrightarrow> run e r \<Longrightarrow>
       lands b (CurrentBlock s') (LoopBreakTarget s) (LoopContinueTarget s) s' r"
proof -
  have core: "same_core s (note_defer e s)" "CurrentBlock (note_defer e s) = CurrentBlock s"
    by (simp_all add: note_defer_def same_core_def split: ExprAST.split)
  have tn: "tidy (note_defer e s)" and bn: "CurrentBlock (note_defer e s) = Some b"
    using t b core by (simp_all add: tidy_def good_def open_at_def same_core_def)
  obtain u where u: "branchToRecoverBlocks visit e b (note_defer e s) = Inr u"
    using v by (cases "branchToRecoverBlocks visit e b (note_defer e s)") (simp_all add: visitStatement_def)
  note k = recovers_ok [OF p tn bn u]
  have tu: "tidy u" by (rule moves_tidy [OF k(1)])
  have s': "s' = add_here e u" using v u by (simp add: visitStatement_def)
  note a = add_here_ok [OF tu, of e, folded s']
  have su: "moves s u" by (rule core_moves_from [OF core k(1)])
  then show "moves s s'" using a(1) by (rule moves_trans)
  assume straight: "straight_conditions e" and r: "run e r"
  from r e show "lands b (CurrentBlock s') (LoopBreakTarget s) (LoopContinueTarget s) s' r"
  proof (cases rule: run_plain_cases)
    case left
    then show ?thesis by simp
  next
    case normal
    have "lands b (CurrentBlock u) (LoopBreakTarget s) (LoopContinueTarget s) u r"
      using k(2) normal by (simp add: lands_def)
    from lands_moves [OF this a(1)] a(2) show ?thesis by simp
  next
    case (recover q)
    have "map recover_block (find_recovers e) = substatements e"
      using e by (cases e) (simp_all add: substatements_def plain_stmt_def loop_of_def)
    then have "straight_conditions (recover_block q)"
      using recover(1) straight_sub [OF straight] by (metis image_eqI set_map)
    from k(3) [OF recover(1) this recover(2)]
    have "lands b (CurrentBlock u) (LoopBreakTarget s) (LoopContinueTarget s) u r"
      using core by (simp add: same_core_def)
    from lands_moves [OF this a(1)] a(2) show ?thesis by simp
  qed
qed

end

end
