(* ===== verification/CfgLoops.thy ===== *)
theory CfgLoops
  imports CfgHandlers
begin

text \<open>
  The loops of \<open>CFGBuilder\<close>: however often a loop turns and wherever its body jumps, the run that leaves
  the loop has a path to the block after it.
\<close>

section \<open>Runs of a loop\<close>

lemma loop_heads: "loop_of e = Some l \<Longrightarrow> heads e = []"
  by (cases e) (simp_all add: loop_of_def heads_def)

lemma loop_not_plain: "loop_of e = Some l \<Longrightarrow> \<not> plain_stmt e"
  by (simp add: plain_stmt_def)

text \<open>
  With the edges of a loop's blocks in place, a run of the loop leaves the function or reaches the exit
  block from the block it starts in: the test block or, for \<open>do\<close>, the body's.
\<close>

lemma loop_run_lands:
  assumes l: "loop_of e = Some (first, ends, body)"
    and turn: "(test, start) \<in> F\<^sup>*" and out: "ends \<Longrightarrow> (test, exit) \<in> F\<^sup>*" and again: "(step, test) \<in> F\<^sup>*"
    and body: "run body Normal \<or> run body Continued \<Longrightarrow> (start, step) \<in> F\<^sup>*"
    and brk: "run body Broke \<Longrightarrow> (start, exit) \<in> F\<^sup>*"
    and r: "run e r"
  shows "r = Left \<or> r = Normal \<and> (if first then test else start, exit) \<in> F\<^sup>*"
proof -
  have "run e' r \<Longrightarrow> e' = e \<Longrightarrow> r = Left \<or> r = Normal \<and> (if first then test else start, exit) \<in> F\<^sup>*" for e' r
  proof (induction rule: run_run_list.inducts(1) [where ?P2.0 = "\<lambda>_ _. True"])
    case (run_head h e' q r)
    then show ?case using loop_heads [OF l] by simp
  next
    case (run_turn e' first' ends' b r r')
    then have "(start, step) \<in> F\<^sup>*" using l body by auto
    then have s: "(start, test) \<in> F\<^sup>*" using again by (rule rtrancl_trans)
    have b: "(start, start) \<in> F\<^sup>*" using s turn by (rule rtrancl_trans)
    have t: "(test, test) \<in> F\<^sup>*" by simp
    from run_turn show ?case by simp
  next
    case (run_last e' first' b r)
    then have "(start, step) \<in> F\<^sup>*" using l body by auto
    then have s: "(start, test) \<in> F\<^sup>*" using again by (rule rtrancl_trans)
    have x: "(test, exit) \<in> F\<^sup>*" using run_last l out by simp
    have "(start, exit) \<in> F\<^sup>*" using s x by (rule rtrancl_trans)
    with x show ?case by simp
  next
    case (run_broke e' first' ends' b)
    then have "(start, exit) \<in> F\<^sup>*" using l brk by simp
    moreover from this have "(test, exit) \<in> F\<^sup>*" using turn by (rule rtrancl_trans [rotated])
    ultimately show ?case by simp
  next
    case (run_skip e' b)
    then show ?case using l out by simp
  next
    case (run_plain e')
    then show ?case using loop_not_plain [OF l] by simp
  next
    case (run_recover e' q r)
    then show ?case using loop_not_plain [OF l] by simp
  qed (use l in \<open>auto simp: loop_of_def\<close>)
  with r show ?thesis by blast
qed

section \<open>The body of a loop\<close>

lemma restore_targets:
  assumes "good s" and "wf_cfg (CurrentCFG v)" and "kept A (CurrentCFG s) (CurrentCFG v)"
  shows "steps A s (v\<lparr>LoopBreakTarget := LoopBreakTarget s, LoopContinueTarget := LoopContinueTarget s\<rparr>)"
  using assms by (auto simp: steps_def good_def kept_def intro: less_le_trans)

lemma fall_to_depth: "fall_to c (u\<lparr>LoopDeferDepth := n\<rparr>) = (fall_to c u)\<lparr>LoopDeferDepth := n\<rparr>"
  by (cases u) (simp add: fall_to_def live_def on_graph_def split: option.split)

context visiting
begin

lemma loop_body_ok:
  assumes body: "body \<in> parts" and g: "good s" and entry: "open_at s entry" and brk: "brk < nb s" and cont: "cont < nb s"
    and v: "loop_body visit brk cont entry body s = Inr s'"
  shows "steps {entry} s s'"
    "straight_conditions body \<Longrightarrow> run body r \<Longrightarrow> lands entry (Some cont) (Some brk) (Some cont) s' r"
proof -
  let ?t = "s\<lparr>LoopBreakTarget := Some brk, LoopContinueTarget := Some cont\<rparr>"
  let ?d = "?t\<lparr>LoopDeferDepth := length (DeferScopes s)\<rparr>"
  have gt: "good ?t" "open_at ?t entry" using g entry brk cont by (simp_all add: good_def open_at_def)
  have gd: "good ?d" "open_at ?d entry" using g entry brk cont by (simp_all add: good_def open_at_def)
  have swap: "s\<lparr>LoopBreakTarget := Some brk, LoopContinueTarget := Some cont, CurrentBlock := Some entry,
      LoopDeferDepth := length (DeferScopes s)\<rparr> = setInsertPoint (Some entry) ?d"
    by (cases s) (simp add: setInsertPoint_def)
  have "\<exists>u. steps {entry} ?t u \<and> s' = u\<lparr>LoopBreakTarget := LoopBreakTarget s, LoopContinueTarget := LoopContinueTarget s\<rparr> \<and>
    (straight_conditions body \<longrightarrow> run body r \<longrightarrow> lands entry (Some cont) (Some brk) (Some cont) u r)"
  proof (cases "body = NoExpr")
    case True
    let ?u = "setInsertPoint (Some entry) ?t"
    have tu: "tidy ?u" "cont < nb ?u"
      using gt cont by (simp_all add: tidy_def good_def open_at_def setInsertPoint_def)
    note f = fall_to_step [OF tu]
    have "steps {entry} ?t (fall_to cont ?u)"
      using core_then_steps [of ?t ?u "{entry}"] f(1) by (simp add: setInsertPoint_def)
    moreover have "(entry, cont) \<in> E (fall_to cont ?u)" using f(3) by (simp add: setInsertPoint_def)
    moreover have "s' = (fall_to cont ?u)\<lparr>LoopBreakTarget := LoopBreakTarget s, LoopContinueTarget := LoopContinueTarget s\<rparr>"
      using v True by (simp add: loop_body_def Let_def setInsertPoint_def)
    ultimately show ?thesis using True by (auto simp: run_none_iff lands_def)
  next
    case False
    obtain u where u: "visit body (setInsertPoint (Some entry) ?d) = Inr u"
      using v False by (cases "visit body (setInsertPoint (Some entry) ?d)")
        (simp_all add: loop_body_def Let_def swap)
    have "cont < nb ?d" using cont by simp
    note f = visit_fall [OF body gd this u]
    let ?u = "(fall_to cont u)\<lparr>LoopDeferDepth := LoopDeferDepth s\<rparr>"
    have "steps {entry} ?t ?u"
      using core_then_steps [of ?t ?d] steps_then_core [OF f(1), of ?u] by simp
    moreover have "s' = ?u\<lparr>LoopBreakTarget := LoopBreakTarget s, LoopContinueTarget := LoopContinueTarget s\<rparr>"
      using v False u by (simp add: loop_body_def Let_def swap fall_to_depth)
    moreover have "straight_conditions body \<longrightarrow> run body r \<longrightarrow> lands entry (Some cont) (Some brk) (Some cont) ?u r"
      using f(4) [of r] lands_mono [of entry "Some cont" "Some brk" "Some cont" "fall_to cont u" r ?u] by simp
    ultimately show ?thesis by blast
  qed
  then obtain u where u: "steps {entry} ?t u"
      "s' = u\<lparr>LoopBreakTarget := LoopBreakTarget s, LoopContinueTarget := LoopContinueTarget s\<rparr>"
      "straight_conditions body \<longrightarrow> run body r \<longrightarrow> lands entry (Some cont) (Some brk) (Some cont) u r" by blast
  have "wf_cfg (CurrentCFG u)" "kept {entry} (CurrentCFG s) (CurrentCFG u)"
    using u(1) by (simp_all add: steps_def good_def)
  then show "steps {entry} s s'" unfolding u(2) by (rule restore_targets [OF g])
  show "straight_conditions body \<Longrightarrow> run body r \<Longrightarrow> lands entry (Some cont) (Some brk) (Some cont) s' r"
    using u(3) lands_mono [of entry "Some cont" "Some brk" "Some cont" u r s'] by (simp add: u(2))
qed

end

section \<open>The three kinds of loop\<close>

lemma enter_ok:
  assumes "good s" and "b < nb s" and "t < nb s"
  shows "steps {b} s (set_term b k loc (link b t s))" "nb (set_term b k loc (link b t s)) = nb s"
    "(b, t) \<in> E (set_term b k loc (link b t s))"
proof -
  note l = link_step [OF assms]
  note w = set_term_step(1,2) [OF stepsD(1) [OF l(1)], of b k loc]
  show "steps {b} s (set_term b k loc (link b t s))" using steps_trans [OF l(1) w(1)] by simp
  show "nb (set_term b k loc (link b t s)) = nb s" using w(2) l(2) by simp
  show "(b, t) \<in> E (set_term b k loc (link b t s))" using l(3) stepsD(4) [OF w(1)] by blast
qed

lemma cond_branch_ok:
  assumes g: "good s" and "cond < nb s" and "body < nb s" and "exit < nb s"
  shows "steps {cond} s (cond_branch loc c cond body exit s)" "nb (cond_branch loc c cond body exit s) = nb s"
    "(cond, body) \<in> E (cond_branch loc c cond body exit s)"
    "\<not> literal_true c \<Longrightarrow> (cond, exit) \<in> E (cond_branch loc c cond body exit s)"
proof -
  let ?a = "add_cond cond c s"
  let ?l = "link cond body ?a"
  note a = add_cond_step(1,2) [OF g, of cond c]
  have l: "steps {cond} ?a ?l" "nb ?l = nb s" "(cond, body) \<in> E ?l"
    using link_step [OF stepsD(1) [OF a(1)], of cond body] assms(2,3) a(2) by simp_all
  have sl: "steps {cond} s ?l" using steps_trans [OF steps_mono [OF a(1)] l(1)] by simp
  have "\<exists>k f. cond_branch loc c cond body exit s = set_term cond k loc (f ?l) \<and>
      steps {cond} ?l (f ?l) \<and> nb (f ?l) = nb s \<and> (\<not> literal_true c \<longrightarrow> (cond, exit) \<in> E (f ?l))"
  proof (cases "literal_true c")
    case True
    then show ?thesis using steps_refl [OF stepsD(1) [OF sl]] l(2)
      by (intro exI [of _ TkUnconditional] exI [of _ "\<lambda>s. s"]) (simp add: cond_branch_def Let_def)
  next
    case False
    then show ?thesis using link_step [OF stepsD(1) [OF sl], of cond exit] assms(2,4) l(2)
      by (intro exI [of _ TkBranch] exI [of _ "link cond exit"]) (simp add: cond_branch_def Let_def)
  qed
  then obtain k f where c: "cond_branch loc c cond body exit s = set_term cond k loc (f ?l)"
    and f: "steps {cond} ?l (f ?l)" "nb (f ?l) = nb s" "\<not> literal_true c \<Longrightarrow> (cond, exit) \<in> E (f ?l)" by blast
  note w = set_term_step(1,2) [OF stepsD(1) [OF f(1)], of cond k loc]
  have lw: "steps {cond} ?l (cond_branch loc c cond body exit s)"
    unfolding c using steps_trans [OF f(1) w(1)] by simp
  show "steps {cond} s (cond_branch loc c cond body exit s)" using steps_trans [OF sl lw] by simp
  show "nb (cond_branch loc c cond body exit s) = nb s" unfolding c using w(2) f(2) by simp
  show "(cond, body) \<in> E (cond_branch loc c cond body exit s)" using l(3) stepsD(4) [OF lw] by blast
  show "\<not> literal_true c \<Longrightarrow> (cond, exit) \<in> E (cond_branch loc c cond body exit s)"
    unfolding c using f(3) stepsD(4) [OF w(1)] by blast
qed

lemma loop_steps:
  "steps {b} s u \<Longrightarrow> steps A u w \<Longrightarrow> (\<And>a. a \<in> A \<Longrightarrow> nb s \<le> a) \<Longrightarrow> steps {b} s w"
  by (erule steps_trans) (auto simp: not_less [symmetric])

lemma three_blocks:
  assumes g: "good s" and 1: "new_bb x s = (a, s1)" and 2: "new_bb y s1 = (b, s2)" and 3: "new_bb z s2 = (c, s3)"
  shows "a = nb s" "b = nb s + 1" "c = nb s + 2" "nb s3 = nb s + 3" "steps {} s s3"
    "open_at s3 a" "open_at s3 b" "open_at s3 c" "CurrentBlock s3 = CurrentBlock s"
proof -
  note k1 = new_bb_step [OF g 1]
  note k2 = new_bb_step [OF stepsD(1) [OF k1(3)] 2]
  note k3 = new_bb_step [OF stepsD(1) [OF k2(3)] 3]
  show "a = nb s" "b = nb s + 1" "c = nb s + 2" "nb s3 = nb s + 3" "CurrentBlock s3 = CurrentBlock s"
    using k1(1,2,6) k2(1,2,6) k3(1,2,6) by simp_all
  have s2: "steps {} s s2" using steps_trans [OF k1(3) k2(3)] by simp
  then show "steps {} s s3" using steps_trans [OF _ k3(3)] by simp
  show "open_at s3 c" by (rule k3(4))
  show "open_at s3 b" using open_at_steps [OF k2(4) k3(3)] by simp
  have "open_at s2 a" using open_at_steps [OF k1(4) k2(3)] by simp
  then show "open_at s3 a" using open_at_steps [OF _ k3(3)] by simp
qed

context visiting
begin

text \<open>
  A loop of new blocks: \<open>u\<close> has the way in and the exits of the test, the body is visited from \<open>u\<close>, and
  \<open>w'\<close> has the way from the end of the body back to the test.
\<close>

lemma loop_ok:
  assumes t: "tidy s" and b: "CurrentBlock s = Some b"
    and e: "loop_of e = Some (first, ends, body)" and body: "body \<in> parts"
    and su: "steps {b} s u" "(b, if first then test else start) \<in> E u"
    and new: "nb s \<le> test" "nb s \<le> start" "nb s \<le> step" "nb s \<le> exit" "step < nb u"
    and op: "open_at u start" "open_at u exit" and ne: "exit \<notin> {start, test, step}"
    and v: "loop_body visit exit step start body u = Inr w"
    and post: "steps {test, step} w w'"
    and edges: "(test, start) \<in> E w'" "ends \<Longrightarrow> (test, exit) \<in> E w'" "(step, test) \<in> (E w')\<^sup>*"
    and s': "s' = setInsertPoint (Some exit) w'"
  shows "moves s s'"
    "straight_conditions e \<Longrightarrow> run e r \<Longrightarrow> lands b (CurrentBlock s') (LoopBreakTarget s) (LoopContinueTarget s) s' r"
proof -
  have x: "exit < nb u" using op(2) by (simp add: open_at_def)
  note l = loop_body_ok [OF body stepsD(1) [OF su(1)] op(1) x new(5) v]
  have uw: "steps {start, test, step} u w'"
    using steps_trans [OF steps_mono [OF l(1), of "{start, test, step}"] post] by auto
  have sw: "steps {b} s w'" using uw new(1-3) by (intro loop_steps [OF su(1) uw]) auto
  have ox: "open_at w' exit" using open_at_steps [OF op(2) uw] ne by simp
  have "steps {b} s s'" unfolding s' by (rule steps_then_core [OF sw]) simp
  with ox new(4) b show "moves s s'" unfolding moves_def s' by (simp add: setInsertPoint_def open_at_def)
  assume straight: "straight_conditions e" and r: "run e r"
  have sb: "straight_conditions body"
    using e by (intro straight_sub [OF straight]) (cases e; simp add: loop_of_def substatements_def)
  have ww: "E w \<subseteq> E w'" by (rule stepsD(4) [OF post])
  have lb: "lands start (Some step) (Some exit) (Some step) w' r'" if "run body r'" for r'
    by (rule lands_mono [OF l(2) [OF sb that] ww])
  have n1: "(start, step) \<in> (E w')\<^sup>*" if "run body Normal \<or> run body Continued"
    using that lb [of Normal] lb [of Continued] by (auto simp: lands_def)
  have n2: "(start, exit) \<in> (E w')\<^sup>*" if "run body Broke"
    using lb [OF that] by (auto simp: lands_def)
  have out: "(test, exit) \<in> (E w')\<^sup>*" if ends using edges(2) [OF that] by (rule r_into_rtrancl)
  have entry: "(b, if first then test else start) \<in> E w'" using su(2) stepsD(4) [OF uw] by blast
  from loop_run_lands [OF e r_into_rtrancl [OF edges(1)] out edges(3) n1 n2 r] entry
  show "lands b (CurrentBlock s') (LoopBreakTarget s) (LoopContinueTarget s) s' r"
    by (auto simp: lands_def s' setInsertPoint_def intro: converse_rtrancl_into_rtrancl)
qed

lemma while_ok:
  assumes t: "tidy s" and b: "CurrentBlock s = Some b" and body: "body \<in> parts"
    and v: "visitWhile visit loc c body b s = Inr s'"
  shows "moves s s'"
    "straight_conditions (WhileExpr loc c body) \<Longrightarrow> run (WhileExpr loc c body) r \<Longrightarrow>
       lands b (CurrentBlock s') (LoopBreakTarget s) (LoopContinueTarget s) s' r"
proof -
  obtain cond s1 start s2 exit s3 where n: "new_bb ''while.cond'' s = (cond, s1)"
    "new_bb ''while.body'' s1 = (start, s2)" "new_bb ''while.end'' s2 = (exit, s3)"
    by (metis prod.collapse)
  let ?i = "set_term b TkUnconditional loc (link b cond s3)"
  let ?u = "cond_branch loc c cond start exit ?i"
  obtain w where w: "loop_body visit exit cond start body ?u = Inr w" and s': "s' = setInsertPoint (Some exit) w"
    using v n by (cases "loop_body visit exit cond start body ?u") (auto simp: visitWhile_def)
  note k = three_blocks [OF tidy_good [OF t] n]
  have bs: "b < nb s" using t b by (auto simp: tidy_def open_at_def)
  have i: "steps {b} s3 ?i" "nb ?i = nb s + 3" "(b, cond) \<in> E ?i"
    using enter_ok [OF stepsD(1) [OF k(5)], of b cond] bs k(1,4) by simp_all
  have cb: "steps {cond} ?i ?u" "nb ?u = nb s + 3" "(cond, start) \<in> E ?u"
    "\<not> literal_true c \<Longrightarrow> (cond, exit) \<in> E ?u"
    using cond_branch_ok [OF stepsD(1) [OF i(1)], where cond = cond and body = start and exit = exit and c = c and loc = loc] k(1-4) i(2) by simp_all
  have su: "steps {b} s ?u"
    using steps_trans [OF steps_trans [OF steps_mono [OF k(5), of "{b}"] i(1)] cb(1)] k(1) by simp
  have iu: "steps {b, cond} s3 ?u" using steps_trans [OF steps_mono [OF i(1), of "{b, cond}"] cb(1)] by blast
  have op: "open_at ?u start" "open_at ?u exit"
    using open_at_steps [OF k(7) iu] open_at_steps [OF k(8) iu] k(1-3) bs by simp_all
  have uw: "steps {start} ?u w"
    by (rule loop_body_ok(1) [OF body stepsD(1) [OF su] op(1) _ _ w]) (use k cb(2) in simp_all)
  have bc: "(b, cond) \<in> E ?u" using i(3) stepsD(4) [OF cb(1)] by blast
  note ok = loop_ok [OF t b _ body su _ _ _ _ _ _ op _ w steps_refl [OF stepsD(1) [OF uw]] _ _ _ s',
      where e = "WhileExpr loc c body" and first = True and ends = "\<not> literal_true c" and test = cond]
  have 1: "loop_of (WhileExpr loc c body) = Some (True, \<not> literal_true c, body)" by (simp add: loop_of_def)
  show "moves s s'"
    by (rule ok(1)) (use 1 bc k cb stepsD(4) [OF uw] in \<open>auto simp: loop_of_def\<close>)
  show "straight_conditions (WhileExpr loc c body) \<Longrightarrow> run (WhileExpr loc c body) r \<Longrightarrow>
       lands b (CurrentBlock s') (LoopBreakTarget s) (LoopContinueTarget s) s' r"
    by (rule ok(2)) (use 1 bc k cb stepsD(4) [OF uw] in \<open>auto simp: loop_of_def\<close>)
qed

lemma do_while_ok:
  assumes t: "tidy s" and b: "CurrentBlock s = Some b" and body: "body \<in> parts"
    and v: "visitDoWhile visit loc body c b s = Inr s'"
  shows "moves s s'"
    "straight_conditions (DoWhileExpr loc body c) \<Longrightarrow> run (DoWhileExpr loc body c) r \<Longrightarrow>
       lands b (CurrentBlock s') (LoopBreakTarget s) (LoopContinueTarget s) s' r"
proof -
  obtain start s1 cond s2 exit s3 where n: "new_bb ''dowhile.body'' s = (start, s1)"
    "new_bb ''dowhile.cond'' s1 = (cond, s2)" "new_bb ''dowhile.end'' s2 = (exit, s3)"
    by (metis prod.collapse)
  let ?u = "set_term b TkUnconditional loc (link b start s3)"
  obtain w where w: "loop_body visit exit cond start body ?u = Inr w"
    and s': "s' = setInsertPoint (Some exit) (cond_branch loc c cond start exit w)"
    using v n by (cases "loop_body visit exit cond start body ?u") (auto simp: visitDoWhile_def)
  let ?w = "cond_branch loc c cond start exit w"
  note k = three_blocks [OF tidy_good [OF t] n]
  have bs: "b < nb s" using t b by (auto simp: tidy_def open_at_def)
  have i: "steps {b} s3 ?u" "nb ?u = nb s + 3" "(b, start) \<in> E ?u"
    using enter_ok [OF stepsD(1) [OF k(5)], of b start] bs k(1,4) by simp_all
  have su: "steps {b} s ?u" using steps_trans [OF steps_mono [OF k(5), of "{b}"] i(1)] by simp
  have op: "open_at ?u start" "open_at ?u exit"
    using open_at_steps [OF k(6) i(1)] open_at_steps [OF k(8) i(1)] k(1-3) bs by simp_all
  have uw: "steps {start} ?u w"
    by (rule loop_body_ok(1) [OF body stepsD(1) [OF su] op(1) _ _ w]) (use k i(2) in simp_all)
  have nw: "cond < nb w" "start < nb w" "exit < nb w" using stepsD(2) [OF uw] i(2) k(1-3) by simp_all
  note cb = cond_branch_ok [OF stepsD(1) [OF uw] nw, where c = c and loc = loc]
  have post: "steps {cond, cond} w ?w" using cb(1) by simp
  note ok = loop_ok [OF t b _ body su _ _ _ _ _ _ op _ w post _ _ _ s',
      where e = "DoWhileExpr loc body c" and first = False and ends = "\<not> literal_true c"]
  show "moves s s'"
    by (rule ok(1)) (use i k cb in \<open>auto simp: loop_of_def\<close>)
  show "straight_conditions (DoWhileExpr loc body c) \<Longrightarrow> run (DoWhileExpr loc body c) r \<Longrightarrow>
       lands b (CurrentBlock s') (LoopBreakTarget s) (LoopContinueTarget s) s' r"
    by (rule ok(2)) (use i k cb in \<open>auto simp: loop_of_def\<close>)
qed

end

lemma add_conds_ok:
  "good s \<Longrightarrow> steps {} s (fold (add_cond b) es s) \<and> nb (fold (add_cond b) es s) = nb s"
proof (induction es arbitrary: s)
  case Nil
  then show ?case by (simp add: steps_refl)
next
  case (Cons e es)
  note a = add_cond_step(1,2) [OF Cons.prems, of b e]
  from Cons.IH [OF stepsD(1) [OF a(1)]] a(2) steps_trans [OF a(1), of "{}"] show ?case by simp
qed

context visiting
begin

lemma counted_ok:
  assumes t: "tidy s" and b: "CurrentBlock s = Some b" and body: "body \<in> parts"
    and e: "loop_of e = Some (True, True, body)"
    and v: "counted_loop visit kind hds body b s = Inr s'"
  shows "moves s s'"
    "straight_conditions e \<Longrightarrow> run e r \<Longrightarrow>
       lands b (CurrentBlock s') (LoopBreakTarget s) (LoopContinueTarget s) s' r"
proof -
  let ?loc = "loc3 0 0 []"
  obtain cond s1 start s2 step s3 exit s4 where n: "new_bb (kind @ ''.cond'') s = (cond, s1)"
    "new_bb (kind @ ''.body'') s1 = (start, s2)" "new_bb (kind @ ''.step'') s2 = (step, s3)"
    and n4: "new_bb (kind @ ''.end'') s3 = (exit, s4)"
    by (metis prod.collapse)
  let ?i = "set_term b TkUnconditional ?loc (link b cond s4)"
  let ?h = "fold (add_cond cond) hds ?i"
  let ?l = "link cond exit (link cond start ?h)"
  let ?u = "set_term cond TkBranch ?loc ?l"
  obtain w where w: "loop_body visit exit step start body ?u = Inr w"
    and s': "s' = setInsertPoint (Some exit) (set_term step TkUnconditional ?loc (link step cond w))"
    using v n n4 by (cases "loop_body visit exit step start body ?u") (auto simp: counted_loop_def)
  let ?w = "set_term step TkUnconditional ?loc (link step cond w)"
  note k = three_blocks [OF tidy_good [OF t] n]
  note k4 = new_bb_step [OF stepsD(1) [OF k(5)] n4]
  have num: "cond = nb s" "start = nb s + 1" "step = nb s + 2" "exit = nb s + 3" "nb s4 = nb s + 4"
    using k(1-4) k4(1,2) by simp_all
  have bs: "b < nb s" using t b by (auto simp: tidy_def open_at_def)
  have s4: "steps {b} s s4" using steps_trans [OF steps_mono [OF k(5), of "{b}"] k4(3)] by simp
  have i: "steps {b} s4 ?i" "nb ?i = nb s + 4" "(b, cond) \<in> E ?i"
    using enter_ok [OF stepsD(1) [OF s4], of b cond] bs num by simp_all
  have h: "steps {} ?i ?h" "nb ?h = nb s + 4" using add_conds_ok [OF stepsD(1) [OF i(1)]] i(2) by simp_all
  have l1: "steps {cond} ?h (link cond start ?h)" "nb (link cond start ?h) = nb s + 4" "(cond, start) \<in> E (link cond start ?h)"
    using link_step [OF stepsD(1) [OF h(1)], of cond start] num h(2) by simp_all
  have l2: "steps {cond} (link cond start ?h) ?l" "nb ?l = nb s + 4" "(cond, exit) \<in> E ?l"
    using link_step [OF stepsD(1) [OF l1(1)], of cond exit] num l1(2) by simp_all
  note l3 = set_term_step(1,2) [OF stepsD(1) [OF l2(1)], of cond TkBranch ?loc]
  have c2: "steps {cond} (link cond start ?h) ?u" using steps_trans [OF l2(1) l3(1)] by simp
  have c1: "steps {cond} ?i ?u"
    using steps_trans [OF steps_mono [OF h(1), of "{cond}"] steps_trans [OF l1(1) c2]] by simp
  have iu: "steps {b, cond} s4 ?u" using steps_trans [OF steps_mono [OF i(1), of "{b, cond}"] c1] by blast
  have su: "steps {b} s ?u"
  proof (rule steps_trans [OF s4 iu])
    show "{b, cond} \<inter> {..<nb s} \<subseteq> {b}" using num(1) by auto
  qed
  have edges: "(b, cond) \<in> E ?u" "(cond, start) \<in> E ?u" "(cond, exit) \<in> E ?u"
    using i(3) stepsD(4) [OF c1] l1(3) stepsD(4) [OF c2] l2(3) stepsD(4) [OF l3(1)] by blast+
  have "open_at s4 start" using open_at_steps [OF k(7) k4(3)] by simp
  then have op: "open_at ?u start" "open_at ?u exit"
    using open_at_steps [OF _ iu] open_at_steps [OF k4(4) iu] num bs by simp_all
  have nu: "nb ?u = nb s + 4" using l3(2) l2(2) by simp
  have uw: "steps {start} ?u w"
    by (rule loop_body_ok(1) [OF body stepsD(1) [OF su] op(1) _ _ w]) (use num nu in simp_all)
  have "step < nb w" "cond < nb w" using stepsD(2) [OF uw] nu num by simp_all
  note en = enter_ok [OF stepsD(1) [OF uw] this, where k = TkUnconditional and loc = ?loc]
  have post: "steps {cond, step} w ?w" using steps_mono [OF en(1)] by auto
  have ew: "(cond, start) \<in> E ?w" "(cond, exit) \<in> E ?w"
    using edges stepsD(4) [OF uw] stepsD(4) [OF en(1)] by blast+
  note ok = loop_ok [OF t b e body su _ _ _ _ _ _ op _ w post _ _ _ s']
  show "moves s s'"
    by (rule ok(1)) (use edges num nu en(3) ew in auto)
  show "straight_conditions e \<Longrightarrow> run e r \<Longrightarrow>
       lands b (CurrentBlock s') (LoopBreakTarget s) (LoopContinueTarget s) s' r"
    by (rule ok(2)) (use edges num nu en(3) ew in auto)
qed

end

end
