(* ===== verification/CfgBranches.thy ===== *)
theory CfgBranches
  imports CfgLoops
begin

text \<open>
  \<open>if\<close> and \<open>compare\<close>: the branches as a chain of condition blocks that all lead on to one block. At the end
  the contract of a visitor is shown of \<open>visitExpr\<close> itself, by induction on the size of the tree, and
  with it that the return check of a function is sound.
\<close>

section \<open>If\<close>

lemma lands_other: "r \<noteq> Normal \<Longrightarrow> lands a n k c s r \<Longrightarrow> lands a m k c s r"
  by (cases r) (simp_all add: lands_def)

lemma run_if_cases:
  assumes "run (IfExpr brs els) r"
  obtains (left) "r = Left"
  | (branch) br where "br \<in> set brs" "run (br_body br) r"
  | (otherwise) "brs \<noteq> []" "run els r"
  | (head) br q where "br \<in> set brs" "q \<in> set (find_recovers (br_cond br))"
  using assms
proof (cases rule: run.cases)
  case (run_branch br)
  then show ?thesis by (intro branch)
next
  case (run_head h q)
  then show ?thesis using head by (auto simp: heads_def)
qed (use left otherwise in \<open>simp_all add: loop_of_def\<close>)

context visiting
begin

lemma if_branches_ok:
  assumes "br_body ` set brs \<subseteq> parts" and "good s" and "cond < nb s" and "open_at s merge"
    and "brs \<noteq> [] \<Longrightarrow> merge \<noteq> cond"
    and "if_branches visit merge h first brs (cond, all, s) = Inr (cond', all', s')"
  shows "steps {cond} s s' \<and> (brs = [] \<longrightarrow> cond' = cond \<and> s' = s) \<and>
    (brs \<noteq> [] \<longrightarrow> (cond, cond') \<in> (E s')\<^sup>* \<and> (if h then nb s \<le> cond' \<and> open_at s' cond' else cond' = merge)) \<and>
    (all' \<longrightarrow> all) \<and>
    (\<forall>br \<in> set brs. \<forall>r. straight_conditions (br_body br) \<longrightarrow> run (br_body br) r \<longrightarrow>
       lands cond (Some merge) (LoopBreakTarget s) (LoopContinueTarget s) s' r \<and> (r = Normal \<longrightarrow> \<not> all'))"
  using assms
proof (induction brs arbitrary: first cond all s)
  case Nil
  then show ?case by (simp add: steps_refl)
next
  case (Cons br brs)
  have g: "good s" and cs: "cond < nb s" and om: "open_at s merge" and mc: "merge \<noteq> cond"
    using Cons.prems by simp_all
  obtain thn s1 where n1: "new_bb (if first then ''if.then'' else ''elseif.then'') s = (thn, s1)" by fastforce
  obtain nxt s2 where n2: "(if brs \<noteq> [] then new_bb ''elseif.cond'' s1 else if h then new_bb ''if.else'' s1
      else (merge, s1)) = (nxt, s2)" by fastforce
  let ?a = "add_cond cond (br_cond br) s2"
  let ?l = "link cond nxt (link cond thn ?a)"
  let ?u = "set_term cond TkBranch (br_loc br) ?l"
  obtain w where w: "visit (br_body br) (setInsertPoint (Some thn) ?u) = Inr w"
      and rest: "if_branches visit merge h False brs (nxt, all \<and> \<not> live w, fall_to merge w) = Inr (cond', all', s')"
    using Cons.prems(6) n1 n2
    by (cases "visit (br_body br) (setInsertPoint (Some thn) ?u)") (auto simp: Let_def)
  note k1 = new_bb_step [OF g n1]
  have k2: "steps {} s1 s2" "nb s1 \<le> nb s2" "nxt < nb s2"
      "brs \<noteq> [] \<or> h \<Longrightarrow> nxt = nb s1 \<and> open_at s2 nxt" "\<not> (brs \<noteq> [] \<or> h) \<Longrightarrow> nxt = merge"
  proof -
    have "steps {} s1 s2 \<and> nb s1 \<le> nb s2 \<and> nxt < nb s2 \<and> (brs \<noteq> [] \<or> h \<longrightarrow> nxt = nb s1 \<and> open_at s2 nxt) \<and>
        (\<not> (brs \<noteq> [] \<or> h) \<longrightarrow> nxt = merge)"
    proof (cases "brs \<noteq> [] \<or> h")
      case True
      then obtain name where "new_bb name s1 = (nxt, s2)" using n2 by (auto split: if_split_asm)
      from new_bb_step [OF stepsD(1) [OF k1(3)] this] True show ?thesis by simp
    next
      case False
      with n2 om k1(2) steps_refl [OF stepsD(1) [OF k1(3)]] show ?thesis by (auto simp: open_at_def)
    qed
    then show "steps {} s1 s2" "nb s1 \<le> nb s2" "nxt < nb s2"
      "brs \<noteq> [] \<or> h \<Longrightarrow> nxt = nb s1 \<and> open_at s2 nxt" "\<not> (brs \<noteq> [] \<or> h) \<Longrightarrow> nxt = merge" by blast+
  qed
  have s2: "steps {} s s2" using steps_trans [OF k1(3) k2(1)] by simp
  note a = add_cond_step(1,2) [OF stepsD(1) [OF s2], of cond "br_cond br"]
  have tn: "thn = nb s" "nb s1 = Suc (nb s)" using k1(1,2) by simp_all
  have l1: "steps {cond} ?a (link cond thn ?a)" "nb (link cond thn ?a) = nb s2" "(cond, thn) \<in> E (link cond thn ?a)"
    using link_step [OF stepsD(1) [OF a(1)], of cond thn] cs tn k2(2) a(2) by simp_all
  have l2: "steps {cond} (link cond thn ?a) ?l" "nb ?l = nb s2" "(cond, nxt) \<in> E ?l"
    using link_step [OF stepsD(1) [OF l1(1)], of cond nxt] cs tn k2(2,3) l1(2) by simp_all
  note l3 = set_term_step(1,2) [OF stepsD(1) [OF l2(1)], of cond TkBranch "br_loc br"]
  have c2: "steps {cond} (link cond thn ?a) ?u" using steps_trans [OF l2(1) l3(1)] by simp
  have c1: "steps {cond} s2 ?u"
    using steps_trans [OF steps_mono [OF a(1), of "{cond}"] steps_trans [OF l1(1) c2]] by simp
  have su: "steps {cond} s ?u" using steps_trans [OF steps_mono [OF s2, of "{cond}"] c1] by simp
  have e: "(cond, thn) \<in> E ?u" "(cond, nxt) \<in> E ?u"
    using l1(3) stepsD(4) [OF c2] l2(3) stepsD(4) [OF l3(1)] by blast+
  have nu: "nb ?u = nb s2" using l3(2) l2(2) by simp
  have "open_at s2 thn" using open_at_steps [OF k1(4) k2(1)] by simp
  then have ot: "open_at ?u thn" using open_at_steps [OF _ c1] tn cs by simp
  have "merge < nb ?u" using om nu k2(2) tn by (simp add: open_at_def)
  have br: "br_body br \<in> parts" using Cons.prems(1) by simp
  note f = visit_fall [OF br stepsD(1) [OF su] ot \<open>merge < nb ?u\<close> w]
  let ?v = "fall_to merge w"
  have sv: "steps {cond} s ?v" using steps_trans [OF su f(1)] tn by simp
  have gv: "good ?v" by (rule stepsD(1) [OF sv])
  have ov: "open_at ?v merge" using open_at_steps [OF om sv] mc by simp
  have nv: "nxt < nb ?v" using k2(3) nu stepsD(2) [OF f(1)] by simp
  have on: "open_at ?v nxt" if "brs \<noteq> [] \<or> h"
  proof -
    have "nxt \<noteq> cond" using k2(4) [OF that] tn cs by simp
    then have "open_at ?u nxt" using open_at_steps [OF conjunct2 [OF k2(4) [OF that]] c1] by simp
    then show ?thesis using open_at_steps [OF _ f(1)] k2(4) [OF that] tn by simp
  qed
  have mn: "brs \<noteq> [] \<Longrightarrow> merge \<noteq> nxt" using k2(4) om tn by (auto simp: open_at_def)
  have ih: "steps {nxt} ?v s' \<and> (brs = [] \<longrightarrow> cond' = nxt \<and> s' = ?v) \<and>
    (brs \<noteq> [] \<longrightarrow> (nxt, cond') \<in> (E s')\<^sup>* \<and> (if h then nb ?v \<le> cond' \<and> open_at s' cond' else cond' = merge)) \<and>
    (all' \<longrightarrow> all \<and> \<not> live w) \<and>
    (\<forall>br \<in> set brs. \<forall>r. straight_conditions (br_body br) \<longrightarrow> run (br_body br) r \<longrightarrow>
       lands nxt (Some merge) (LoopBreakTarget ?v) (LoopContinueTarget ?v) s' r \<and> (r = Normal \<longrightarrow> \<not> all'))"
    using Cons.IH [OF _ gv nv ov mn rest] Cons.prems(1) by simp
  have vs: "steps (if brs = [] then {} else {nxt}) ?v s'" using ih gv by (auto simp: steps_refl)
  have ss: "steps {cond} s s'"
    using k2(4) tn by (intro steps_trans [OF sv vs]) auto
  have cn: "(cond, nxt) \<in> (E s')\<^sup>*" using e(2) stepsD(4) [OF f(1)] stepsD(4) [OF vs] by blast
  have "(cond, cond') \<in> (E s')\<^sup>*" using cn ih by (cases "brs = []") (auto intro: rtrancl_trans)
  moreover have "if h then nb s \<le> cond' \<and> open_at s' cond' else cond' = merge"
    using ih k2(4,5) on tn stepsD(2) [OF sv] by (cases "brs = []") auto
  moreover have "lands cond (Some merge) (LoopBreakTarget s) (LoopContinueTarget s) s' r \<and> (r = Normal \<longrightarrow> \<not> all')"
    if "b \<in> set (br # brs)" "straight_conditions (br_body b)" "run (br_body b) r" for b r
  proof (cases "b = br")
    case True
    have "lands thn (Some merge) (LoopBreakTarget s) (LoopContinueTarget s) ?v r"
      using f(4) [of r] that True stepsD(5,6) [OF su] by simp
    moreover have "(cond, thn) \<in> (E ?v)\<^sup>*" using e(1) stepsD(4) [OF f(1)] by blast
    ultimately have "lands cond (Some merge) (LoopBreakTarget s) (LoopContinueTarget s) ?v r"
      by (blast intro: lands_from)
    then have "lands cond (Some merge) (LoopBreakTarget s) (LoopContinueTarget s) s' r"
      using stepsD(4) [OF vs] by (rule lands_mono)
    then show ?thesis using f(5) ih that True by blast
  next
    case False
    then have "lands nxt (Some merge) (LoopBreakTarget s) (LoopContinueTarget s) s' r \<and> (r = Normal \<longrightarrow> \<not> all')"
      using ih that stepsD(5,6) [OF sv] by simp
    with lands_from [OF cn] show ?thesis by blast
  qed
  ultimately show ?case using ss ih by simp
qed

lemma if_ok:
  assumes t: "tidy s" and b: "CurrentBlock s = Some b" and p: "br_body ` set brs \<subseteq> parts" "els \<in> parts"
    and v: "visitIf visit brs els b s = Inr s'"
  shows "moves s s'"
    "straight_conditions (IfExpr brs els) \<Longrightarrow> run (IfExpr brs els) r \<Longrightarrow>
       lands b (CurrentBlock s') (LoopBreakTarget s) (LoopContinueTarget s) s' r"
proof -
  obtain merge s1 where n: "new_bb ''if.end'' s = (merge, s1)" by fastforce
  obtain cond all u where u: "if_branches visit merge (els \<noteq> NoExpr) True brs (b, True, s1) = Inr (cond, all, u)"
    using v n by (cases "if_branches visit merge (els \<noteq> NoExpr) True brs (b, True, s1)") (auto simp: visitIf_def)
  note k = new_bb_step [OF tidy_good [OF t] n]
  have bs: "b < nb s" "open_at s b" using t b by (auto simp: tidy_def open_at_def)
  have b1: "b < nb s1" "merge \<noteq> b" using bs k(1,2) by simp_all
  note br = if_branches_ok [OF p(1) stepsD(1) [OF k(3)] b1(1) k(4) b1(2) u]
  have s1u: "steps {b} s1 u" using br by blast
  have su: "steps {b} s u" using steps_trans [OF steps_mono [OF k(3), of "{b}"] s1u] by simp
  have om: "open_at u merge" using open_at_steps [OF k(4) s1u] b1(2) by simp
  have straight: "straight_conditions (br_body q)" if "straight_conditions (IfExpr brs els)" "q \<in> set brs" for q
    using that(2) by (intro straight_sub [OF that(1)]) (simp add: substatements_def)
  have lb: "lands b (Some merge) (LoopBreakTarget s) (LoopContinueTarget s) u r \<and> (r = Normal \<longrightarrow> \<not> all)"
    if "straight_conditions (IfExpr brs els)" "q \<in> set brs" "run (br_body q) r" for q r
    using br straight [OF that(1,2)] that stepsD(5,6) [OF k(3)] by simp
  have bc: "brs \<noteq> [] \<Longrightarrow> (b, cond) \<in> (E u)\<^sup>*" using br by blast
  have "moves s s' \<and> (straight_conditions (IfExpr brs els) \<longrightarrow> run (IfExpr brs els) r \<longrightarrow>
       lands b (CurrentBlock s') (LoopBreakTarget s) (LoopContinueTarget s) s' r)"
  proof (cases "els = NoExpr")
    case True
    then have s': "s' = setInsertPoint (Some merge) u" using v n u by (simp add: visitIf_def)
    have "steps {b} s s'" unfolding s' by (rule steps_then_core [OF su]) simp
    then have m: "moves s s'" using om k(1) b by (simp add: moves_def s' setInsertPoint_def open_at_def)
    have "lands b (Some merge) (LoopBreakTarget s) (LoopContinueTarget s) u r"
      if "straight_conditions (IfExpr brs els)" "run (IfExpr brs els) r"
      using that(2)
    proof (cases rule: run_if_cases)
      case (branch q)
      then show ?thesis using lb [OF that(1)] by blast
    next
      case otherwise
      then show ?thesis using bc br True by (auto simp: run_none_iff lands_def)
    next
      case (head q p)
      then show ?thesis using straight_heads [OF that(1), of "br_cond q"] by (simp add: heads_def)
    qed simp
    with m show ?thesis using lands_mono [of b "Some merge" _ _ u r s'] by (simp add: s' setInsertPoint_def)
  next
    case False
    obtain w where w: "visit els (setInsertPoint (Some cond) u) = Inr w"
      and s': "s' = setInsertPoint (if all \<and> \<not> live w then None else Some merge) (fall_to merge w)"
      using v n u False by (cases "visit els (setInsertPoint (Some cond) u)") (auto simp: visitIf_def)
    have oc: "open_at u cond"
    proof (cases "brs = []")
      case True
      then have "cond = b" "u = s1" using br by blast+
      then show ?thesis using open_at_steps [OF bs(2) k(3)] by simp
    next
      case False
      then show ?thesis using br \<open>els \<noteq> NoExpr\<close> by simp
    qed
    have cm: "merge \<noteq> cond" "cond = b \<or> nb s \<le> cond" if "True"
      using br b1(2) k(1,2) False by (cases "brs = []"; simp)+
    have mu: "merge < nb u" using om by (simp add: open_at_def)
    note f = visit_fall [OF p(2) stepsD(1) [OF su] oc mu w]
    have sv: "steps {b} s (fall_to merge w)" using cm(2) by (intro steps_trans [OF su f(1)]) auto
    have ov: "open_at (fall_to merge w) merge" using open_at_steps [OF om f(1)] cm(1) by simp
    have "steps {b} s s'" unfolding s' by (rule steps_then_core [OF sv]) simp
    then have m: "moves s s'" using ov k(1) b by (auto simp: moves_def s' setInsertPoint_def open_at_def)
    have ev: "E s' = E (fall_to merge w)" by (simp add: s' setInsertPoint_def)
    have uv: "E u \<subseteq> E s'" using stepsD(4) [OF f(1)] ev by simp
    have cb: "CurrentBlock s' = (if all \<and> \<not> live w then None else Some merge)"
      by (simp add: s' setInsertPoint_def)
    have "lands b (CurrentBlock s') (LoopBreakTarget s) (LoopContinueTarget s) s' r"
      if "straight_conditions (IfExpr brs els)" "run (IfExpr brs els) r"
      using that(2)
    proof (cases rule: run_if_cases)
      case (branch q)
      note l = lb [OF that(1) branch]
      then have "lands b (Some merge) (LoopBreakTarget s) (LoopContinueTarget s) s' r"
        using lands_mono uv by blast
      then show ?thesis using l cb by (cases "r = Normal") (auto intro: lands_other)
    next
      case otherwise
      have se: "straight_conditions els" by (intro straight_sub [OF that(1)]) (simp add: substatements_def)
      have "lands cond (Some merge) (LoopBreakTarget s) (LoopContinueTarget s) s' r"
        using lands_mono [OF f(4) [OF se otherwise(2)], of s'] ev stepsD(5,6) [OF su] by simp
      moreover have "(b, cond) \<in> (E s')\<^sup>*" using bc [OF otherwise(1)] rtrancl_mono [OF uv] by blast
      ultimately have "lands b (Some merge) (LoopBreakTarget s) (LoopContinueTarget s) s' r"
        by (blast intro: lands_from)
      then show ?thesis using f(5) [OF se] otherwise(2) cb by (cases "r = Normal") (auto intro: lands_other)
    next
      case (head q p)
      then show ?thesis using straight_heads [OF that(1), of "br_cond q"] by (simp add: heads_def)
    qed simp
    with m show ?thesis by blast
  qed
  then show "moves s s'"
    "straight_conditions (IfExpr brs els) \<Longrightarrow> run (IfExpr brs els) r \<Longrightarrow>
       lands b (CurrentBlock s') (LoopBreakTarget s) (LoopContinueTarget s) s' r" by blast+
qed

end

section \<open>Compare\<close>

lemma link_fail_ok:
  assumes "good s" and "prev < nb s" and "target < nb s"
  shows "steps {prev} s (link_fail loc prev real target s)" "nb (link_fail loc prev real target s) = nb s"
    "(prev, target) \<in> E (link_fail loc prev real target s)"
proof -
  note l = link_step [OF assms]
  note e = enter_ok [OF assms, of TkBranch loc]
  show "steps {prev} s (link_fail loc prev real target s)" "nb (link_fail loc prev real target s) = nb s"
    "(prev, target) \<in> E (link_fail loc prev real target s)"
    using l(1-3) e by (simp_all add: link_fail_def Let_def)
qed

lemma arm_tests_ok:
  assumes "good s" and "prev < nb s" and "body < nb s" and "arm_tests loc body hs (prev, real, s) = (prev', real', s')"
  shows "steps {prev} s s' \<and> prev' < nb s' \<and> (prev' = prev \<or> nb s \<le> prev') \<and> (prev, prev') \<in> (E s')\<^sup>* \<and>
    (hs \<noteq> [] \<longrightarrow> (prev, body) \<in> (E s')\<^sup>*)"
  using assms
proof (induction hs arbitrary: prev real s)
  case Nil
  then show ?case by (simp add: steps_refl)
next
  case (Cons h hs)
  obtain v gd where h: "h = (v, gd)" by (cases h)
  obtain test s1 where n: "new_bb ''compare.test'' s = (test, s1)" by fastforce
  let ?f = "link_fail loc prev real test s1"
  let ?a = "add_stmt test v ?f"
  let ?b = "add_cond test gd ?a"
  let ?u = "set_term test TkUnconditional loc (link test body ?b)"
  have rest: "arm_tests loc body hs (test, True, ?u) = (prev', real', s')"
    using Cons.prems(4) h n by (simp add: Let_def)
  note k = new_bb_step [OF Cons.prems(1) n]
  have f: "steps {prev} s1 ?f" "nb ?f = Suc (nb s)" "(prev, test) \<in> E ?f"
    using link_fail_ok [OF stepsD(1) [OF k(3)], of prev test] Cons.prems(2) k(1,2) by simp_all
  note a = add_stmt_step(1,2) [OF stepsD(1) [OF f(1)], of test v]
  note b = add_cond_step(1,2) [OF stepsD(1) [OF a(1)], of test gd]
  have e: "steps {test} ?b ?u" "nb ?u = Suc (nb s)" "(test, body) \<in> E ?u"
    using enter_ok [OF stepsD(1) [OF b(1)], of test body] k(1) a(2) b(2) f(2) Cons.prems(3) by simp_all
  have fu: "steps {test} ?f ?u"
    using steps_trans [OF steps_trans [OF a(1) b(1), THEN steps_mono, of "{test}"] e(1)] by simp
  have su: "steps {prev} s ?u"
  proof (rule steps_trans [OF steps_trans [OF steps_mono [OF k(3), of "{prev}"] f(1)] fu])
    show "{test} \<inter> {..<nb s} \<subseteq> {prev}" using k(1) by simp
  qed simp_all
  have edges: "(prev, test) \<in> E ?u" "(test, body) \<in> E ?u" using f(3) stepsD(4) [OF fu] e(3) by blast+
  have ih: "steps {test} ?u s' \<and> prev' < nb s' \<and> (prev' = test \<or> nb ?u \<le> prev') \<and> (test, prev') \<in> (E s')\<^sup>*"
    using Cons.IH [OF stepsD(1) [OF su] _ _ rest] k(1) e(2) Cons.prems(3) by simp
  then have us: "E ?u \<subseteq> E s'" using stepsD(4) by blast
  have "steps {prev} s s'" using ih k(1) by (intro steps_trans [OF su]) auto
  moreover have "(prev, prev') \<in> (E s')\<^sup>*" using edges(1) us ih by (blast intro: converse_rtrancl_into_rtrancl)
  moreover have "(prev, body) \<in> (E s')\<^sup>*" using edges us by (blast intro: converse_rtrancl_into_rtrancl)
  moreover have "prev' = prev \<or> nb s \<le> prev'" using ih k(1) e(2) by auto
  ultimately show ?case using ih by blast
qed

lemma arm_headers_empty: "arm_headers a = [] \<longleftrightarrow> arm_values a = []"
  by (simp add: arm_headers_def)

lemma run_compare_cases:
  assumes "run (CompareExpr loc s arms other ex) r"
  obtains (left) "r = Left"
  | (arm) a where "a \<in> set arms" "arm_values a \<noteq> []" "run (arm_body a) r"
  | (otherwise) "other \<noteq> NoExpr" "run other r"
  | (none) "\<not> ex" "other = NoExpr" "r = Normal"
  | (head) h q where "h \<in> set (heads (CompareExpr loc s arms other ex))" "q \<in> set (find_recovers h)"
  using assms
proof (cases rule: run.cases)
  case (run_arm a)
  then show ?thesis by (intro arm)
next
  case (run_head h q)
  then show ?thesis by (intro head)
qed (use left otherwise none in \<open>simp_all add: loop_of_def\<close>)

text \<open>What the chain of tests has become after some arms.\<close>

definition arm_result :: "nat \<Rightarrow> BuildState \<Rightarrow> nat \<Rightarrow> nat \<Rightarrow> BuildState \<Rightarrow> bool" where
  "arm_result prev s merge prev' s' \<longleftrightarrow> steps {prev} s s' \<and> prev' < nb s' \<and> open_at s' merge \<and> merge \<noteq> prev' \<and>
     (prev' = prev \<or> nb s \<le> prev') \<and> (prev, prev') \<in> (E s')\<^sup>*"

context visiting
begin

lemma visit_arm_ok:
  assumes p: "arm_body a \<in> parts" and g: "good s" and ps: "prev < nb s" and om: "open_at s merge"
    and ne: "merge \<noteq> prev" and v: "visit_arm visit loc merge a (prev, real, s) = Inr (prev', real', s')"
  shows "arm_result prev s merge prev' s'"
    "arm_values a \<noteq> [] \<Longrightarrow> straight_conditions (arm_body a) \<Longrightarrow> run (arm_body a) r \<Longrightarrow>
       lands prev (Some merge) (LoopBreakTarget s) (LoopContinueTarget s) s' r"
proof -
  obtain body s1 where n: "new_bb ''compare.arm'' s = (body, s1)" by fastforce
  obtain prev2 real2 u where u: "arm_tests loc body (arm_headers a) (prev, real, s1) = (prev2, real2, u)"
    by (metis prod.collapse)
  obtain w where w: "visit (arm_body a) (setInsertPoint (Some body) u) = Inr w"
    and s': "prev' = prev2" "s' = fall_to merge w"
    using v n u by (cases "visit (arm_body a) (setInsertPoint (Some body) u)") (auto simp: visit_arm_def)
  note k = new_bb_step [OF g n]
  have tests: "steps {prev} s1 u \<and> prev2 < nb u \<and> (prev2 = prev \<or> nb s1 \<le> prev2) \<and> (prev, prev2) \<in> (E u)\<^sup>* \<and>
      (arm_headers a \<noteq> [] \<longrightarrow> (prev, body) \<in> (E u)\<^sup>*)"
    using arm_tests_ok [OF stepsD(1) [OF k(3)] _ _ u] ps k(1,2) by simp
  then have s1u: "steps {prev} s1 u" by blast
  have su: "steps {prev} s u" using steps_trans [OF steps_mono [OF k(3), of "{prev}"] s1u] by simp
  have ob: "open_at u body" using open_at_steps [OF k(4) s1u] k(1) ps by simp
  have ou: "open_at u merge" using open_at_steps [OF om su] ne by simp
  then have mu: "merge < nb u" by (simp add: open_at_def)
  note f = visit_fall [OF p stepsD(1) [OF su] ob mu w, folded s'(2)]
  have ms: "merge < nb s" using om by (simp add: open_at_def)
  have ss: "steps {prev} s s'" using steps_trans [OF su f(1)] k(1) by simp
  moreover have "open_at s' merge" using open_at_steps [OF om ss] ne by simp
  moreover have "prev' < nb s'" using tests s'(1) stepsD(2) [OF f(1)] by simp
  moreover have "(prev, prev') \<in> (E s')\<^sup>*" using tests s'(1) reach_mono [OF f(1)] by blast
  ultimately show "arm_result prev s merge prev' s'"
    using tests s'(1) k(2) ne ms by (auto simp: arm_result_def)
  assume a: "arm_values a \<noteq> []" "straight_conditions (arm_body a)" "run (arm_body a) r"
  have "(prev, body) \<in> (E s')\<^sup>*" using tests a(1) reach_mono [OF f(1)] by (simp add: arm_headers_empty)
  from lands_from [OF this f(4) [OF a(2,3)]] stepsD(5,6) [OF su]
  show "lands prev (Some merge) (LoopBreakTarget s) (LoopContinueTarget s) s' r" by simp
qed

lemma visit_arms_ok:
  assumes "arm_body ` set arms \<subseteq> parts" and "good s" and "prev < nb s" and "open_at s merge"
    and "merge \<noteq> prev" and "seq_r (visit_arm visit loc merge) arms (prev, real, s) = Inr (prev', real', s')"
  shows "arm_result prev s merge prev' s' \<and>
    (\<forall>a \<in> set arms. \<forall>r. arm_values a \<noteq> [] \<longrightarrow> straight_conditions (arm_body a) \<longrightarrow> run (arm_body a) r \<longrightarrow>
       lands prev (Some merge) (LoopBreakTarget s) (LoopContinueTarget s) s' r)"
  using assms
proof (induction arms arbitrary: prev real s)
  case Nil
  then show ?case by (simp add: steps_refl arm_result_def)
next
  case (Cons a arms)
  obtain prev2 real2 t where t: "visit_arm visit loc merge a (prev, real, s) = Inr (prev2, real2, t)"
      "seq_r (visit_arm visit loc merge) arms (prev2, real2, t) = Inr (prev', real', s')"
    using Cons.prems(6) by (cases "visit_arm visit loc merge a (prev, real, s)") auto
  have a: "arm_body a \<in> parts" using Cons.prems(1) by simp
  note k = visit_arm_ok [OF a Cons.prems(2-5) t(1)]
  have st: "steps {prev} s t" using k(1) by (simp add: arm_result_def)
  have ih: "arm_result prev2 t merge prev' s' \<and>
    (\<forall>a \<in> set arms. \<forall>r. arm_values a \<noteq> [] \<longrightarrow> straight_conditions (arm_body a) \<longrightarrow> run (arm_body a) r \<longrightarrow>
       lands prev2 (Some merge) (LoopBreakTarget t) (LoopContinueTarget t) s' r)"
    using Cons.prems(1) k(1) by (intro Cons.IH [OF _ stepsD(1) [OF st] _ _ _ t(2)]) (auto simp: arm_result_def)
  then have ts: "steps {prev2} t s'" by (simp add: arm_result_def)
  have pp: "(prev, prev2) \<in> (E s')\<^sup>*" using k(1) reach_mono [OF ts] by (simp add: arm_result_def)
  have "steps {prev} s s'" using k(1) by (intro steps_trans [OF st ts]) (auto simp: arm_result_def)
  then have "arm_result prev s merge prev' s'"
    using ih k(1) pp stepsD(2) [OF st] by (auto simp: arm_result_def intro: rtrancl_trans)
  moreover have "lands prev (Some merge) (LoopBreakTarget s) (LoopContinueTarget s) s' r"
    if "b \<in> set (a # arms)" "arm_values b \<noteq> []" "straight_conditions (arm_body b)" "run (arm_body b) r" for b r
  proof (cases "b = a")
    case True
    with that show ?thesis using lands_mono [OF k(2) stepsD(4) [OF ts]] by simp
  next
    case False
    with ih that stepsD(5,6) [OF st] show ?thesis by (auto intro: lands_from [OF pp])
  qed
  ultimately show ?case by blast
qed

lemma compare_ok:
  assumes t: "tidy s" and b: "CurrentBlock s = Some b" and p: "arm_body ` set arms \<subseteq> parts" "other \<in> parts"
    and v: "visitCompare visit loc subject arms other ex b s = Inr s'"
  shows "moves s s'"
    "straight_conditions (CompareExpr loc subject arms other ex) \<Longrightarrow> run (CompareExpr loc subject arms other ex) r \<Longrightarrow>
       lands b (CurrentBlock s') (LoopBreakTarget s) (LoopContinueTarget s) s' r"
proof -
  obtain merge s1 where n: "new_bb ''compare.end'' s = (merge, s1)" by fastforce
  let ?s = "set_term b TkUnconditional loc (add_cond b subject s1)"
  obtain prev real u where u: "seq_r (visit_arm visit loc merge) arms (b, False, ?s) = Inr (prev, real, u)"
    using v n by (cases "seq_r (visit_arm visit loc merge) arms (b, False, ?s)") (auto simp: visitCompare_def)
  note k = new_bb_step [OF tidy_good [OF t] n]
  have bs: "b < nb s" using t b by (auto simp: tidy_def open_at_def)
  note a = add_cond_step(1,2) [OF stepsD(1) [OF k(3)], of b subject]
  note w = set_term_step(1,2) [OF stepsD(1) [OF a(1)], of b TkUnconditional loc]
  have s1s: "steps {b} s1 ?s" using steps_trans [OF steps_mono [OF a(1), of "{b}"] w(1)] by simp
  have ss: "steps {b} s ?s" using steps_trans [OF steps_mono [OF k(3), of "{b}"] s1s] by simp
  have om: "open_at ?s merge" using open_at_steps [OF k(4) s1s] k(1) bs by simp
  have bn: "b < nb ?s" "merge \<noteq> b" "nb ?s = Suc (nb s)" using bs k(1,2) a(2) w(2) by simp_all
  note arms = visit_arms_ok [OF p(1) stepsD(1) [OF ss] bn(1) om bn(2) u]
  have su: "steps {b} ?s u" and pu: "prev < nb u" and omu: "open_at u merge" and mp: "merge \<noteq> prev"
    and pb: "prev = b \<or> nb s \<le> prev" and bp: "(b, prev) \<in> (E u)\<^sup>*"
    using arms bn(3) by (auto simp: arm_result_def)
  have ssu: "steps {b} s u" using steps_trans [OF ss su] by simp
  have mu: "merge < nb u" using omu by (simp add: open_at_def)
  have straight: "straight_conditions q" if "straight_conditions (CompareExpr loc subject arms other ex)"
      "q \<in> arm_body ` set arms \<or> q = other" for q
    using that(2) by (intro straight_sub [OF that(1)]) (auto simp: substatements_def)
  have "\<exists>w. s' = setInsertPoint (Some merge) w \<and> steps {prev} u w \<and>
      (other \<noteq> NoExpr \<longrightarrow> straight_conditions other \<longrightarrow> run other r \<longrightarrow>
         lands prev (Some merge) (LoopBreakTarget s) (LoopContinueTarget s) w r) \<and>
      (other = NoExpr \<longrightarrow> \<not> ex \<longrightarrow> (prev, merge) \<in> E w)"
  proof (cases "other = NoExpr")
    case True
    then have s': "s' = setInsertPoint (Some merge) (if ex then u else link_fail loc prev real merge u)"
      using v n u by (simp add: visitCompare_def)
    show ?thesis
    proof (cases ex)
      case True
      with s' \<open>other = NoExpr\<close> steps_refl [OF stepsD(1) [OF su]] show ?thesis by auto
    next
      case False
      with s' \<open>other = NoExpr\<close> link_fail_ok [OF stepsD(1) [OF su] pu mu] show ?thesis by auto
    qed
  next
    case False
    obtain oth u1 where n2: "new_bb ''compare.otherwise'' u = (oth, u1)" by fastforce
    let ?l = "link_fail loc prev real oth u1"
    obtain w where w: "visit other (setInsertPoint (Some oth) ?l) = Inr w"
      and s': "s' = setInsertPoint (Some merge) (fall_to merge w)"
      using v n u n2 False by (cases "visit other (setInsertPoint (Some oth) ?l)") (auto simp: visitCompare_def)
    note k2 = new_bb_step [OF stepsD(1) [OF su] n2]
    have l: "steps {prev} u1 ?l" "nb ?l = Suc (nb u)" "(prev, oth) \<in> E ?l"
      using link_fail_ok [OF stepsD(1) [OF k2(3)], of prev oth] pu k2(1,2) by simp_all
    have ul: "steps {prev} u ?l" using steps_trans [OF steps_mono [OF k2(3), of "{prev}"] l(1)] by simp
    have oo: "open_at ?l oth" using open_at_steps [OF k2(4) l(1)] k2(1) pu by simp
    have "merge < nb ?l" using mu l(2) by simp
    note f = visit_fall [OF p(2) stepsD(1) [OF ul] oo this w]
    have uw: "steps {prev} u (fall_to merge w)" using steps_trans [OF ul f(1)] k2(1) by simp
    have "(prev, oth) \<in> (E (fall_to merge w))\<^sup>*" using l(3) stepsD(4) [OF f(1)] by blast
    then have "lands prev (Some merge) (LoopBreakTarget s) (LoopContinueTarget s) (fall_to merge w) r"
      if "straight_conditions other" "run other r"
      using lands_from [OF _ f(4) [OF that]] stepsD(5,6) [OF ul] stepsD(5,6) [OF ssu] by simp
    with s' uw False show ?thesis by blast
  qed
  then obtain x where x: "s' = setInsertPoint (Some merge) x" "steps {prev} u x"
      "other \<noteq> NoExpr \<longrightarrow> straight_conditions other \<longrightarrow> run other r \<longrightarrow>
         lands prev (Some merge) (LoopBreakTarget s) (LoopContinueTarget s) x r"
      "other = NoExpr \<longrightarrow> \<not> ex \<longrightarrow> (prev, merge) \<in> E x" by blast
  have sx: "steps {b} s x" using pb by (intro steps_trans [OF ssu x(2)]) auto
  have "open_at x merge" using open_at_steps [OF omu x(2)] mp by simp
  moreover have "steps {b} s s'" unfolding x(1) by (rule steps_then_core [OF sx]) simp
  ultimately show "moves s s'" using k(1) b by (auto simp: moves_def x(1) setInsertPoint_def open_at_def)
  assume st: "straight_conditions (CompareExpr loc subject arms other ex)"
    and r: "run (CompareExpr loc subject arms other ex) r"
  have bx: "(b, prev) \<in> (E x)\<^sup>*" by (rule reach_mono [OF x(2) bp])
  from r have "lands b (Some merge) (LoopBreakTarget s) (LoopContinueTarget s) x r"
  proof (cases rule: run_compare_cases)
    case (arm a)
    then have "lands b (Some merge) (LoopBreakTarget s) (LoopContinueTarget s) u r"
      using arms straight [OF st] stepsD(5,6) [OF ss] by auto
    then show ?thesis using stepsD(4) [OF x(2)] by (rule lands_mono)
  next
    case otherwise
    with x(3) straight [OF st, of other] show ?thesis by (auto intro: lands_from [OF bx])
  next
    case none
    with x(4) bx show ?thesis by (auto simp: lands_def intro: rtrancl_into_rtrancl)
  next
    case (head h q)
    then show ?thesis using straight_heads [OF st head(1)] by simp
  qed simp
  then show "lands b (CurrentBlock s') (LoopBreakTarget s) (LoopContinueTarget s) s' r"
    using lands_mono [of b "Some merge" _ _ x r s'] by (simp add: x(1) setInsertPoint_def)
qed

end

end
