(* ===== verification/CfgReturns.thy ===== *)
theory CfgReturns
  imports CfgBranches
begin

text \<open>
  \<open>visitExpr\<close> keeps the contract of a visitor, by induction on the size of the tree; so \<open>buildCFG\<close> builds a
  well-formed graph, and the return check made on it is sound for bodies whose conditions hold no
  \<open>recover run\<close> block. One with such a block is a body the check gets wrong.
\<close>

section \<open>The visit keeps the contract\<close>

lemma visitExpr_unfold:
  assumes "tidy s" and "e \<noteq> NoExpr" and "visitExpr e s = Inr s'"
  obtains b where "CurrentBlock s = Some b" and "(case e of
          BlockExpr es \<Rightarrow> visitBlock visitExpr (BlockExpr es) s
        | UnsafeBlockExpr loc b \<Rightarrow> visitBlock visitExpr b s
        | IfExpr brs els \<Rightarrow> visitIf visitExpr brs els b s
        | WhileExpr loc c bd \<Rightarrow> visitWhile visitExpr loc c bd b s
        | DoWhileExpr loc bd c \<Rightarrow> visitDoWhile visitExpr loc bd c b s
        | ForExpr loc v start end1 step bd \<Rightarrow> visitFor visitExpr start end1 bd b s
        | ForEachExpr loc v i it bd \<Rightarrow> visitForEach visitExpr it bd b s
        | CompareExpr loc subject arms other ex \<Rightarrow> visitCompare visitExpr loc subject arms other ex b s
        | ReturnExpr loc v \<Rightarrow> visitReturn visitExpr loc e b s
        | BreakExpr loc \<Rightarrow> visitBreak loc e s
        | ContinueExpr loc \<Rightarrow> visitContinue loc e s
        | _ \<Rightarrow> visitStatement visitExpr e b s) = Inr s'"
proof -
  have "live s" using assms(2,3) by (subst (asm) visitExpr.simps) (simp split: if_split_asm)
  with assms(1) obtain b where b: "CurrentBlock s = Some b" by (auto simp: tidy_live)
  with assms(2,3) \<open>live s\<close> show thesis
    by (intro that [OF b]) (subst (asm) visitExpr.simps, simp)
qed

lemma run_unsafe_iff:
  "run (UnsafeBlockExpr loc b) r \<longleftrightarrow> r = Left \<or> (\<exists>es. b = BlockExpr es \<and> run b r)"
  by (auto elim: run_unsafeE intro: run_unsafe run_leave simp: heads_def loop_of_def)

lemma visit_step:
  assumes "visiting visitExpr {y. size y < size x}" and t: "tidy s" and v: "visitExpr x s = Inr s'"
  shows "moves s s' \<and> (\<forall>b r. CurrentBlock s = Some b \<longrightarrow> straight_conditions x \<longrightarrow> run x r \<longrightarrow>
    lands b (CurrentBlock s') (LoopBreakTarget s) (LoopContinueTarget s) s' r)"
proof (cases "x = NoExpr")
  case True
  then have "s' = s" using v by (simp add: visitExpr.simps [of NoExpr])
  with True t show ?thesis by (simp add: moves_refl run_none_iff lands_def)
next
  case False
  note P = assms(1)
  obtain b where b: "CurrentBlock s = Some b" and h: "(case x of
          BlockExpr es \<Rightarrow> visitBlock visitExpr (BlockExpr es) s
        | UnsafeBlockExpr loc b \<Rightarrow> visitBlock visitExpr b s
        | IfExpr brs els \<Rightarrow> visitIf visitExpr brs els b s
        | WhileExpr loc c bd \<Rightarrow> visitWhile visitExpr loc c bd b s
        | DoWhileExpr loc bd c \<Rightarrow> visitDoWhile visitExpr loc bd c b s
        | ForExpr loc v start end1 step bd \<Rightarrow> visitFor visitExpr start end1 bd b s
        | ForEachExpr loc v i it bd \<Rightarrow> visitForEach visitExpr it bd b s
        | CompareExpr loc subject arms other ex \<Rightarrow> visitCompare visitExpr loc subject arms other ex b s
        | ReturnExpr loc v \<Rightarrow> visitReturn visitExpr loc x b s
        | BreakExpr loc \<Rightarrow> visitBreak loc x s
        | ContinueExpr loc \<Rightarrow> visitContinue loc x s
        | _ \<Rightarrow> visitStatement visitExpr x b s) = Inr s'"
    using visitExpr_unfold [OF t False v] by blast
  have rec: "recover_block ` set (find_recovers x) \<subseteq> {y. size y < size x}"
    using size_find_recovers [of _ x] by force
  have plain: "moves s s' \<and> (straight_conditions x \<longrightarrow> run x r \<longrightarrow>
      lands b (CurrentBlock s') (LoopBreakTarget s) (LoopContinueTarget s) s' r)"
    if "plain_stmt x" for r
  proof -
    have "visitStatement visitExpr x b s = Inr s'"
      using h that by (cases x) (simp_all add: plain_stmt_def loop_of_def)
    from visiting.statement_ok [OF P rec that t b this] show ?thesis by blast
  qed
  have sub: "c \<in> set (substatements x) \<Longrightarrow> c \<in> {y. size y < size x}" for c
    by (simp add: size_substatements)
  have "moves s s' \<and> (straight_conditions x \<longrightarrow> run x r \<longrightarrow>
      lands b (CurrentBlock s') (LoopBreakTarget s) (LoopContinueTarget s) s' r)" for r
  proof (cases x)
    case (BlockExpr es)
    have "set es \<subseteq> {y. size y < size x}" using sub by (auto simp: BlockExpr substatements_def)
    with visiting.visitBlock_ok [OF P _ t, of "BlockExpr es" s'] h b show ?thesis by (auto simp: BlockExpr)
  next
    case (UnsafeBlockExpr loc c)
    have es: "set es \<subseteq> {y. size y < size x}" if "c = BlockExpr es" for es
      using that by (auto simp: UnsafeBlockExpr dest!: size_in_list)
    have v: "visitBlock visitExpr c s = Inr s'" using h by (simp add: UnsafeBlockExpr)
    have "c \<in> set (substatements x)" by (simp add: UnsafeBlockExpr substatements_def)
    then have "straight_conditions x \<Longrightarrow> straight_conditions c" by (rule straight_sub [rotated])
    with visiting.visitBlock_ok [OF P es t v] b show ?thesis
      by (cases "r = Left") (auto simp: UnsafeBlockExpr run_unsafe_iff)
  next
    case (IfExpr brs els)
    have "br_body ` set brs \<subseteq> {y. size y < size x}" "els \<in> {y. size y < size x}"
      using sub by (auto simp: IfExpr substatements_def)
    from visiting.if_ok [OF P t b this] h show ?thesis by (auto simp: IfExpr)
  next
    case (WhileExpr loc c bd)
    have "bd \<in> {y. size y < size x}" using sub by (simp add: WhileExpr)
    from visiting.while_ok [OF P t b this] h show ?thesis by (auto simp: WhileExpr)
  next
    case (DoWhileExpr loc bd c)
    have "bd \<in> {y. size y < size x}" by (simp add: DoWhileExpr)
    from visiting.do_while_ok [OF P t b this] h show ?thesis by (auto simp: DoWhileExpr)
  next
    case (ForExpr loc v i e st bd)
    have "bd \<in> {y. size y < size x}" "loop_of x = Some (True, True, bd)" by (simp_all add: ForExpr loop_of_def)
    from visiting.counted_ok [OF P t b this] h show ?thesis by (auto simp: ForExpr visitFor_def)
  next
    case (ForEachExpr loc v i it bd)
    have "bd \<in> {y. size y < size x}" "loop_of x = Some (True, True, bd)" by (simp_all add: ForEachExpr loop_of_def)
    from visiting.counted_ok [OF P t b this] h show ?thesis by (auto simp: ForEachExpr visitForEach_def)
  next
    case (CompareExpr loc subject arms other ex)
    have "arm_body ` set arms \<subseteq> {y. size y < size x}" "other \<in> {y. size y < size x}"
      using sub by (auto simp: CompareExpr substatements_def)
    from visiting.compare_ok [OF P t b this] h show ?thesis by (auto simp: CompareExpr)
  next
    case (ReturnExpr loc w)
    have "recover_block ` set (find_recovers (ReturnExpr loc w)) \<subseteq> {y. size y < size x}"
      using rec unfolding ReturnExpr .
    from visiting.return_ok [OF P this t b] h show ?thesis by (auto simp: ReturnExpr)
  next
    case (BreakExpr loc)
    with break_ok [OF t b] h show ?thesis by auto
  next
    case (ContinueExpr loc)
    with continue_ok [OF t b] h show ?thesis by auto
  qed (use False plain in \<open>simp_all add: plain_stmt_def loop_of_def\<close>)
  with b show ?thesis by simp
qed

lemma visiting_mono: "visiting visit A \<Longrightarrow> B \<subseteq> A \<Longrightarrow> visiting visit B"
  unfolding visiting_def by blast

lemma visiting_below: "visiting visitExpr {y. size y < n}"
proof (induction n)
  case 0
  show ?case by unfold_locales simp_all
next
  case (Suc n)
  have sub: "visiting visitExpr {y. size y < size x}" if "size x < Suc n" for x
    using Suc.IH by (rule visiting_mono) (use that in auto)
  show ?case
  proof (unfold_locales)
    fix x s s' assume x: "x \<in> {y. size y < Suc n}" and t: "tidy s" and v: "visitExpr x s = Inr s'"
    from x sub have "visiting visitExpr {y. size y < size x}" by simp
    from visit_step [OF this t v] show "moves s s'" by blast
    fix b r assume "CurrentBlock s = Some b" "straight_conditions x" "run x r"
    with visit_step [OF \<open>visiting visitExpr {y. size y < size x}\<close> t v]
    show "lands b (CurrentBlock s') (LoopBreakTarget s) (LoopContinueTarget s) s' r" by blast
  qed
qed

interpretation cfg: visiting visitExpr UNIV
proof (unfold_locales)
  fix x s s' assume t: "tidy s" and v: "visitExpr x s = Inr s'"
  from visit_step [OF visiting_below t v] show "moves s s'" by blast
  fix b r assume "CurrentBlock s = Some b" "straight_conditions x" "run x r"
  with visit_step [OF visiting_below t v]
  show "lands b (CurrentBlock s') (LoopBreakTarget s) (LoopContinueTarget s) s' r" by blast
qed

section \<open>Whole graphs\<close>

lemma start_state:
  assumes "s = with_entry_and_exit (new_cfg name void loc mangled)"
  shows "tidy s" "CurrentBlock s = Some 0" "EntryBlock (CurrentCFG s) = Some 0" "ExitBlock (CurrentCFG s) = Some 1"
    "LoopBreakTarget s = None" "LoopContinueTarget s = None" "nb s = 2" "succs (CurrentCFG s) 1 = []"
    "term_of s 1 = TkNone"
proof -
  have s: "s = \<lparr>CurrentCFG = (new_cfg name void loc mangled)\<lparr>Blocks := [new_block 0 ''entry'', new_block 1 ''exit''],
      EntryBlock := Some 0, ExitBlock := Some 1, NextID := 2\<rparr>, CurrentBlock = Some 0, LoopContinueTarget = None,
      LoopBreakTarget = None, LastTerminatorLoc = loc3 0 0 [], DeferScopes = [], LoopDeferDepth = 0, BlocksInCFG = []\<rparr>"
    unfolding assms by (simp add: with_entry_and_exit_def new_bb_def createBlock_def new_cfg_def new_builder_def
        on_graph_def setInsertPoint_def numeral_2_eq_2)
  show "CurrentBlock s = Some 0" "EntryBlock (CurrentCFG s) = Some 0" "ExitBlock (CurrentCFG s) = Some 1"
    "LoopBreakTarget s = None" "LoopContinueTarget s = None" "nb s = 2" "succs (CurrentCFG s) 1 = []"
    "term_of s 1 = TkNone"
    unfolding s by (simp_all add: new_block_def)
  have "wf_cfg (CurrentCFG s)"
    unfolding s wf_cfg_def by (auto simp: new_block_def less_Suc_eq numeral_2_eq_2)
  then show "tidy s" unfolding s by (auto simp: tidy_def good_def open_at_def new_block_def)
qed

lemma built_graph:
  assumes "buildCFG name void body loc mangled = Inr G"
  obtains s t where "s = with_entry_and_exit (new_cfg name void loc mangled)"
    and "visitExpr body s = Inr t" and "moves s t" and "G = computeReachability (CurrentCFG (link_to_exit t))"
    and "steps {0} s (link_to_exit t)" and "\<And>b. CurrentBlock t = Some b \<Longrightarrow> (b, 1) \<in> E (link_to_exit t) \<and> open_at (link_to_exit t) b"
    and "E t \<subseteq> E (link_to_exit t)"
proof -
  define s where "s = with_entry_and_exit (new_cfg name void loc mangled)"
  note k = start_state [OF s_def]
  obtain t where t: "visitExpr body s = Inr t" "G = computeReachability (CurrentCFG (link_to_exit t))"
    using assms by (cases "visitExpr body s") (simp_all add: buildCFG_def s_def)
  have m: "moves s t" by (rule cfg.visit_moves [OF UNIV_I k(1) t(1)])
  note tt = moves_tidy [OF m]
  have x: "ExitBlock (CurrentCFG t) = Some 1" "1 < nb t" using moves_targets [OF m] k by simp_all
  then have l: "link_to_exit t = fall_to 1 t" by (simp add: link_to_exit_def fall_to_def)
  note f = fall_to_step [OF tt x(2)]
  have "steps {0} s (link_to_exit t)"
    using m f(1) k(2,7) unfolding l moves_def by (auto intro!: steps_trans [of "{0}" s t])
  moreover have "(b, 1) \<in> E (link_to_exit t) \<and> open_at (link_to_exit t) b" if "CurrentBlock t = Some b" for b
    using f(3) [OF that] f(2,4) tt that unfolding l by (auto simp: tidy_def open_at_def)
  moreover have "E t \<subseteq> E (link_to_exit t)" using stepsD(4) [OF f(1)] unfolding l .
  ultimately show thesis using that [OF s_def t(1) m t(2)] by blast
qed

lemma reachability_keeps:
  assumes wf: "wf_cfg G"
  shows "wf_cfg (computeReachability G)" "edges (computeReachability G) = edges G"
    "EntryBlock (computeReachability G) = EntryBlock G" "ExitBlock (computeReachability G) = ExitBlock G"
    "length (Blocks (computeReachability G)) = length (Blocks G)"
    "b < length (Blocks G) \<Longrightarrow> Terminator (Blocks (computeReachability G) ! b) = Terminator (Blocks G ! b)"
    "b < length (Blocks G) \<Longrightarrow> succs (computeReachability G) b = succs G b"
proof -
  obtain e where e: "EntryBlock G = Some e" using wf by (auto simp: wf_cfg_def)
  note blk = reachable_block [OF wf e]
  show len: "length (Blocks (computeReachability G)) = length (Blocks G)"
    and ends: "EntryBlock (computeReachability G) = EntryBlock G" "ExitBlock (computeReachability G) = ExitBlock G"
    using computeReachability_marks [OF wf e] by (metis set_marks_simps)+
  show "b < length (Blocks G) \<Longrightarrow> Terminator (Blocks (computeReachability G) ! b) = Terminator (Blocks G ! b)"
    "b < length (Blocks G) \<Longrightarrow> succs (computeReachability G) b = succs G b"
    by (simp_all add: blk)
  show "edges (computeReachability G) = edges G" by (auto simp: edges_def len blk)
  have "NextID (computeReachability G) = NextID G"
    by (simp add: computeReachability_def Let_def set_marks_def split: option.split)
  with wf show "wf_cfg (computeReachability G)" by (simp add: wf_cfg_def len ends blk)
qed

lemma built_wf:
  assumes "buildCFG name void body loc mangled = Inr G"
  shows "wf_cfg G" "EntryBlock G = Some 0" "ExitBlock G = Some 1" "1 < length (Blocks G)"
proof -
  obtain s t where s: "s = with_entry_and_exit (new_cfg name void loc mangled)"
    and G: "G = computeReachability (CurrentCFG (link_to_exit t))" and st: "steps {0} s (link_to_exit t)"
    using built_graph [OF assms] by metis
  have wf: "wf_cfg (CurrentCFG (link_to_exit t))" using stepsD(1) [OF st] by (simp add: good_def)
  show "wf_cfg G" "EntryBlock G = Some 0" "ExitBlock G = Some 1"
    using reachability_keeps(1,3,4) [OF wf] stepsD(7,8) [OF st] start_state(3,4) [OF s] unfolding G by simp_all
  show "1 < length (Blocks G)"
    using stepsD(2) [OF st] start_state(7) [OF s] reachability_keeps(5) [OF wf] unfolding G by simp
qed

text \<open>
  C39. Every graph that is built is well formed: its edges are recorded at both ends and stay inside it,
  block 0 is the entry and block 1 the exit, which has no successor.
\<close>

theorem built_graph_wf:
  assumes "buildCFG name void body loc mangled = Inr G"
  shows "wf_cfg G \<and> EntryBlock G = Some 0 \<and> ExitBlock G = Some 1 \<and> succs G 1 = []"
proof -
  obtain s t where s: "s = with_entry_and_exit (new_cfg name void loc mangled)"
    and G: "G = computeReachability (CurrentCFG (link_to_exit t))" and st: "steps {0} s (link_to_exit t)"
    using built_graph [OF assms] by metis
  note k = start_state [OF s]
  have wf: "wf_cfg (CurrentCFG (link_to_exit t))" using stepsD(1) [OF st] by (simp add: good_def)
  have n: "1 < nb s" using k(7) by simp
  have "succs (CurrentCFG (link_to_exit t)) 1 = []" using stepsD(9) [OF st n] k(8) by simp
  moreover have "1 < nb (link_to_exit t)" using n stepsD(2) [OF st] by simp
  ultimately show ?thesis
    using reachability_keeps [OF wf] stepsD(7,8) [OF st] k(3,4) unfolding G by simp
qed

text \<open>
  C3. The return check is sound: when "all paths return" holds of the graph of a body without \<open>recover
  run\<close> blocks in its conditions, no run of the body falls off its end, whatever the conditions are.
\<close>

theorem all_paths_return_sound:
  assumes "buildCFG name void body loc mangled = Inr G" and "allPathsReturn G" and "straight_conditions body"
  shows "\<not> run body Normal"
proof
  assume r: "run body Normal"
  obtain s t where s: "s = with_entry_and_exit (new_cfg name void loc mangled)"
    and v: "visitExpr body s = Inr t" and m: "moves s t"
    and G: "G = computeReachability (CurrentCFG (link_to_exit t))" and st: "steps {0} s (link_to_exit t)"
    and last: "\<And>b. CurrentBlock t = Some b \<Longrightarrow> (b, 1) \<in> E (link_to_exit t) \<and> open_at (link_to_exit t) b"
    and tl: "E t \<subseteq> E (link_to_exit t)"
    using built_graph [OF assms(1)] by metis
  note k = start_state [OF s]
  let ?G = "CurrentCFG (link_to_exit t)"
  have wf: "wf_cfg ?G" using stepsD(1) [OF st] by (simp add: good_def)
  have en: "EntryBlock ?G = Some 0" "ExitBlock ?G = Some 1" using stepsD(7,8) [OF st] k(3,4) by simp_all
  have bound: "0 < length (Blocks ?G)" "1 < length (Blocks ?G)" using en wf by (auto simp: wf_cfg_def)
  obtain b where b: "CurrentBlock t = Some b" "(0, b) \<in> (E t)\<^sup>*"
    using cfg.visit_lands [OF UNIV_I k(1,2) v assms(3) r] by (auto simp: lands_def)
  have "(0, b) \<in> (edges ?G)\<^sup>*" using b(2) rtrancl_mono [OF tl] by blast
  then obtain bs where bs: "walk ?G (bs @ [b])" "hd (bs @ [b]) = 0"
    using reaches_walk [OF wf _ bound(1)] by blast
  have "1 \<in> set (succs ?G b)" using last [OF b(1)] by (auto simp: edges_def)
  then have "walk ?G (bs @ [b, 1]) \<and> hd (bs @ [b]) = 0" using walk_snoc [OF bs(1) _ bound(2)] bs(2) by blast
  then have "Terminator (Blocks ?G ! b) = TkReturn"
    using return_walks [OF wf en] assms(2) unfolding G by blast
  with last [OF b(1)] show False by (simp add: open_at_def)
qed

section \<open>Concrete bodies\<close>

text \<open>
  \<open>while c { if d { return 1; } else { break; } } return 2;\<close> and, for the limit of the check,
  \<open>while true { if f() recover run { break; } { } }\<close>.
\<close>

definition search_body :: ExprAST where
  "search_body = BlockExpr
    [WhileExpr (loc3 1 1 []) (VariableExpr (loc3 1 7 []) ''c'' None)
       (BlockExpr [IfExpr [CondBranch (loc3 2 3 []) (VariableExpr (loc3 2 6 []) ''d'' None)
           (BlockExpr [ReturnExpr (loc3 3 5 []) (NumberExpr False 1)])]
          (BlockExpr [BreakExpr (loc3 4 5 [])])]),
     ReturnExpr (loc3 6 1 []) (NumberExpr False 2)]"

definition endless_body :: ExprAST where
  "endless_body = BlockExpr
    [WhileExpr (loc3 1 1 []) (BoolExpr True)
       (BlockExpr [IfExpr [CondBranch (loc3 2 3 [])
           (RecoverExpr (loc3 2 12 []) (FuncCallExpr (loc3 2 6 []) None (VariableExpr (loc3 2 6 []) ''f'' None) [])
              Run NoExpr (BlockExpr [BreakExpr (loc3 2 26 [])]))
           (BlockExpr [])] NoExpr])]"

definition returns_everywhere :: "ExprAST \<Rightarrow> bool" where
  "returns_everywhere body = (case buildCFG ''f'' False body (loc3 1 1 []) [] of
      Inl e \<Rightarrow> False | Inr G \<Rightarrow> allPathsReturn G)"

text \<open>Equations to run the builder on a concrete body: a continuation is evaluated when its state is there.\<close>

definition fresh :: "string \<Rightarrow> BuildState \<Rightarrow> BuildState" where
  "fresh name s = s\<lparr>CurrentCFG := (CurrentCFG s)\<lparr>Blocks := Blocks (CurrentCFG s) @
     [new_block (NextID (CurrentCFG s)) name], NextID := NextID (CurrentCFG s) + 1\<rparr>\<rparr>"

lemma new_bb_fresh: "new_bb name s = (NextID (CurrentCFG s), fresh name s)"
  by (simp add: new_bb_def createBlock_def fresh_def)

lemma next_fresh: "NextID (CurrentCFG (fresh name s)) = Suc (NextID (CurrentCFG s))"
  by (simp add: fresh_def)

lemma then_do_weak_cong: "r = r' \<Longrightarrow> then_do r f = then_do r' f"
  by simp

abbreviation dead_code :: "BuildState \<Rightarrow> built" where
  "dead_code s \<equiv> Inl (StatementAfterTerminatorError (LastTerminatorLoc s) ''return/break/continue'')"

lemma visit_block_eq: "visitExpr (BlockExpr es) s = (if live s then
    then_do (seq_r visitExpr es (s\<lparr>DeferScopes := DeferScopes s @ [[]]\<rparr>))
      (\<lambda>s. Inr ((if live s then emitDeferredRuns (length (DeferScopes s) - 1) s else s)
         \<lparr>DeferScopes := butlast (DeferScopes (if live s then emitDeferredRuns (length (DeferScopes s) - 1) s else s))\<rparr>))
    else dead_code s)"
  by (simp add: visitExpr.simps [of "BlockExpr es"] visitBlock_def Let_def)

lemma visit_return_eq: "visitExpr (ReturnExpr loc v) s = (if live s then
    (if find_recovers (ReturnExpr loc v) = []
     then Inr (jump TkReturn loc (ExitBlock (CurrentCFG s)) (emitDeferredRuns 0 (add_here (ReturnExpr loc v) s)))
     else visitReturn visitExpr loc (ReturnExpr loc v) (the (CurrentBlock s)) s)
    else dead_code s)"
  by (simp add: visitExpr.simps [of "ReturnExpr loc v"] visitReturn_def branchToRecoverBlocks_def Let_def)

lemma visit_break_eq: "visitExpr (BreakExpr loc) s = (if live s then visitBreak loc (BreakExpr loc) s else dead_code s)"
  by (simp add: visitExpr.simps [of "BreakExpr loc"])

lemma visit_while_eq: "visitExpr (WhileExpr loc c b) s = (if live s then
    then_do (loop_body visitExpr (NextID (CurrentCFG s) + 2) (NextID (CurrentCFG s)) (NextID (CurrentCFG s) + 1) b
       (cond_branch loc c (NextID (CurrentCFG s)) (NextID (CurrentCFG s) + 1) (NextID (CurrentCFG s) + 2)
         (set_term (the (CurrentBlock s)) TkUnconditional loc (link (the (CurrentBlock s)) (NextID (CurrentCFG s))
           (fresh ''while.end'' (fresh ''while.body'' (fresh ''while.cond'' s)))))))
      (\<lambda>u. Inr (setInsertPoint (Some (NextID (CurrentCFG s) + 2)) u))
    else dead_code s)"
  by (simp add: visitExpr.simps [of "WhileExpr loc c b"] visitWhile_def new_bb_fresh next_fresh Let_def)

lemma visit_if_eq: "visitExpr (IfExpr [CondBranch bl c th] els) s = (if live s then
    (let n = NextID (CurrentCFG s); entry = the (CurrentBlock s) in
     if els = NoExpr then
       then_do (visitExpr th (setInsertPoint (Some (n + 1))
          (set_term entry TkBranch bl (link entry n (link entry (n + 1) (add_cond entry c
            (fresh ''if.then'' (fresh ''if.end'' s))))))))
         (\<lambda>u. Inr (setInsertPoint (Some n) (fall_to n u)))
     else
       then_do (visitExpr th (setInsertPoint (Some (n + 1))
          (set_term entry TkBranch bl (link entry (n + 2) (link entry (n + 1) (add_cond entry c
            (fresh ''if.else'' (fresh ''if.then'' (fresh ''if.end'' s)))))))))
         (\<lambda>u. then_do (visitExpr els (setInsertPoint (Some (n + 2)) (fall_to n u)))
           (\<lambda>w. Inr (setInsertPoint (if \<not> live u \<and> \<not> live w then None else Some n) (fall_to n w)))))
    else dead_code s)"
proof (cases "els = NoExpr")
  case True
  then show ?thesis
    by (simp add: visitExpr.simps [of "IfExpr [CondBranch bl c th] NoExpr"] visitIf_def new_bb_fresh next_fresh Let_def
        then_do_def split: sum.split)
next
  case False
  then show ?thesis
    by (simp add: visitExpr.simps [of "IfExpr [CondBranch bl c th] els"] visitIf_def new_bb_fresh next_fresh Let_def
        then_do_def split: sum.split)
qed

lemma find_recovers_eqs:
  "find_recovers (NumberExpr fl n) = []" "find_recovers (ReturnExpr loc (NumberExpr fl n)) = []"
  by (simp_all add: find_recovers.simps [of "NumberExpr fl n"] find_recovers.simps [of "ReturnExpr loc (NumberExpr fl n)"]
      children_def all_children_def)

lemmas build_eval = visit_block_eq visit_return_eq visit_break_eq visit_while_eq find_recovers_eqs fresh_def
  with_entry_and_exit_def new_bb_fresh new_builder_def new_cfg_def new_block_def on_graph_def on_block_def
  setInsertPoint_def visitBreak_def loop_body_def cond_branch_def add_cond_def
  add_stmt_def addStatement_def addDeferredRun_def set_term_def setTerminator_def link_def addEdge_def fall_to_def live_def
  hasExplicitTerminator_def emitDeferredRuns_def add_here_def jump_def literal_true_def link_to_exit_def

lemmas return_eval = computeReachability_def allPathsReturn_def set_marks_def visit_succ_def marked_def

lemma search_body_checks: "returns_everywhere search_body"
  unfolding returns_everywhere_def buildCFG_def search_body_def
  by (simp add: build_eval visit_if_eq Let_def cong: then_do_weak_cong let_weak_cong)
    (simp add: return_eval Let_def cong: let_weak_cong)

lemma endless_body_checks: "returns_everywhere endless_body"
  unfolding returns_everywhere_def buildCFG_def endless_body_def
  by (simp add: build_eval visit_if_eq Let_def cong: then_do_weak_cong let_weak_cong)
    (simp add: return_eval Let_def cong: let_weak_cong)

lemma straight_none: "straight_conditions NoExpr"
  by (simp add: straight_conditions.simps [of NoExpr] conditions_def heads_def substatements_def)

lemma straight_block: "straight_conditions (BlockExpr es) \<longleftrightarrow> list_all straight_conditions es"
  by (simp add: straight_conditions.simps [of "BlockExpr es"] conditions_def heads_def substatements_def)

lemma straight_while: "straight_conditions (WhileExpr loc c b) \<longleftrightarrow> find_recovers c = [] \<and> straight_conditions b"
  by (simp add: straight_conditions.simps [of "WhileExpr loc c b"] conditions_def heads_def substatements_def)

lemma straight_if: "straight_conditions (IfExpr brs els) \<longleftrightarrow>
    list_all (\<lambda>br. find_recovers (br_cond br) = [] \<and> straight_conditions (br_body br)) brs \<and> straight_conditions els"
  by (auto simp: straight_conditions.simps [of "IfExpr brs els"] conditions_def heads_def substatements_def list_all_iff)

lemma straight_leaf:
  "straight_conditions (BreakExpr loc)"
  "find_recovers (ReturnExpr loc v) = [] \<Longrightarrow> straight_conditions (ReturnExpr loc v)"
  by (simp_all add: straight_conditions.simps [of "BreakExpr loc"] straight_conditions.simps [of "ReturnExpr loc v"]
      conditions_def heads_def substatements_def)

lemma find_recovers_variable: "find_recovers (VariableExpr loc x vs) = []"
  by (simp add: find_recovers.simps [of "VariableExpr loc x vs"] children_def all_children_def)

lemma search_body_straight: "straight_conditions search_body"
  by (simp add: search_body_def straight_block straight_while straight_if straight_leaf find_recovers_eqs
      find_recovers_variable)

lemma returns_everywhereE:
  assumes "returns_everywhere body"
  obtains G where "buildCFG ''f'' False body (loc3 1 1 []) [] = Inr G" and "allPathsReturn G"
  using assms by (cases "buildCFG ''f'' False body (loc3 1 1 []) []") (auto simp: returns_everywhere_def)

lemma built_graph_wf_witness:
  "\<exists>G. buildCFG ''f'' False search_body (loc3 1 1 []) [] = Inr G \<and>
     wf_cfg G \<and> EntryBlock G = Some 0 \<and> ExitBlock G = Some 1 \<and> succs G 1 = []"
proof -
  obtain G where G: "buildCFG ''f'' False search_body (loc3 1 1 []) [] = Inr G"
    using search_body_checks by (rule returns_everywhereE)
  from built_graph_wf [OF G] G show ?thesis by blast
qed

lemma all_paths_return_sound_witness:
  "\<exists>G. buildCFG ''f'' False search_body (loc3 1 1 []) [] = Inr G \<and> allPathsReturn G \<and>
     straight_conditions search_body \<and> \<not> run search_body Normal"
proof -
  obtain G where G: "buildCFG ''f'' False search_body (loc3 1 1 []) [] = Inr G" "allPathsReturn G"
    using search_body_checks by (rule returns_everywhereE)
  from all_paths_return_sound [OF G search_body_straight] G search_body_straight show ?thesis by blast
qed

lemma endless_body_ends: "run endless_body Normal"
proof -
  let ?h = "RecoverExpr (loc3 2 12 []) (FuncCallExpr (loc3 2 6 []) None (VariableExpr (loc3 2 6 []) ''f'' None) [])
    Run NoExpr (BlockExpr [BreakExpr (loc3 2 26 [])])"
  let ?if = "IfExpr [CondBranch (loc3 2 3 []) ?h (BlockExpr [])] NoExpr"
  have "run_list [BreakExpr (loc3 2 26 [])] Broke" by (rule run_stop [OF run_break]) simp
  then have "run (BlockExpr [BreakExpr (loc3 2 26 [])]) Broke" by (rule run_block)
  then have j: "run (recover_block ?h) Broke" unfolding recover_block_def by simp
  have h: "?h \<in> set (heads ?if)" unfolding heads_def by simp
  have q: "?h \<in> set (find_recovers ?h)" by (subst find_recovers.simps) simp
  have "run ?if Broke" by (rule run_head [OF h q j]) simp
  then have "run_list [?if] Broke" by (rule run_stop) simp
  then have "run (BlockExpr [?if]) Broke" by (rule run_block)
  moreover have "loop_of (WhileExpr (loc3 1 1 []) (BoolExpr True) (BlockExpr [?if])) = Some (True, False, BlockExpr [?if])"
    unfolding loop_of_def literal_true_def by simp
  ultimately have "run (WhileExpr (loc3 1 1 []) (BoolExpr True) (BlockExpr [?if])) Normal" by (rule run_broke [rotated])
  then have "run_list [WhileExpr (loc3 1 1 []) (BoolExpr True) (BlockExpr [?if])] Normal"
    using run_nil by (rule run_next)
  then show ?thesis unfolding endless_body_def by (rule run_block)
qed

text \<open>
  The return check does not see a jump out of a \<open>recover run\<close> block inside a condition: for
  \<open>while true { if f() recover run { break; } { } }\<close> it says that all paths return, and a run of the body
  falls off its end.
\<close>

theorem condition_jump_not_seen:
  "\<exists>G. buildCFG ''f'' False endless_body (loc3 1 1 []) [] = Inr G \<and> allPathsReturn G \<and> run endless_body Normal"
proof -
  obtain G where "buildCFG ''f'' False endless_body (loc3 1 1 []) [] = Inr G" "allPathsReturn G"
    using endless_body_checks by (rule returns_everywhereE)
  with endless_body_ends show ?thesis by blast
qed

end
