(* ===== verification/CfgReport.thy ===== *)
theory CfgReport
  imports CfgReturns
begin

text \<open>
  What the graph of a function is used for: finding calls of the function itself, the diagnostics of
  \<open>reportFlowDiagnostics\<close> in their order, and the listing of \<open>print\<close>.
\<close>

section \<open>Calls of the function itself\<close>

text \<open>
  \<open>scan\<close> of \<open>blockContainsSelfCall\<close>. A resolved call carries its target's mangled and base name and is
  judged by them alone; only an unresolved one by the name of its callee.
\<close>

definition is_self_call :: "string \<Rightarrow> string \<Rightarrow> (string \<times> string) option \<Rightarrow> ExprAST \<Rightarrow> bool" where
  "is_self_call FuncName MangledFuncName target callee = (case target of
      Some (mangled, base) \<Rightarrow>
        if MangledFuncName \<noteq> [] then mangled = MangledFuncName else base = FuncName
    | None \<Rightarrow> (case callee of VariableExpr loc name vs \<Rightarrow> name = FuncName | _ \<Rightarrow> False))"

text \<open>The nodes the scan goes on to; every other node hides the calls below it.\<close>

definition scan_children :: "ExprAST \<Rightarrow> ExprAST list" where
  "scan_children e = (case e of
      FuncCallExpr loc target callee args \<Rightarrow> args
    | BinaryExpr loc op l r p \<Rightarrow> [l, r]
    | UnaryExpr loc op x p \<Rightarrow> [x]
    | TryExpr loc x \<Rightarrow> [x]
    | ReturnExpr loc v \<Rightarrow> [v]
    | VarDeclExpr loc name init vs \<Rightarrow> [init]
    | AssignmentExpr loc l r \<Rightarrow> [l, r]
    | _ \<Rightarrow> [])"

lemma size_scan_children: "c \<in> set (scan_children e) \<Longrightarrow> size c < size e"
  by (cases e) (auto simp: scan_children_def dest: size_in_list)

function scan_self_call :: "string \<Rightarrow> string \<Rightarrow> ExprAST \<Rightarrow> bool" where
  "scan_self_call f m e \<longleftrightarrow>
     (case e of FuncCallExpr loc target callee args \<Rightarrow> is_self_call f m target callee | _ \<Rightarrow> False) \<or>
     list_ex (scan_self_call f m) (scan_children e)"
  by pat_completeness auto
termination
  by (relation "measure (\<lambda>(f, m, e). size e)") (auto intro: size_scan_children)

declare scan_self_call.simps [simp del]

definition all_paths_recurse :: "ExprAST CFG \<Rightarrow> bool" where
  "all_paths_recurse G = allPathsRecurse (scan_self_call (FunctionName G) (MangledFunctionName G)) G"

section \<open>The reports\<close>

datatype FlowReport =
    UnreachableBlockWarning "SourceLocation option" string string
  | MissingReturnError SourceLocation string
  | DeadBranchWarning "SourceLocation option" string

text \<open>The reports in order; the raised error, a \<open>MissingReturnError\<close>, is the last one.\<close>

definition reportFlowDiagnostics :: "'s CFG \<Rightarrow> FlowReport list" where
  "reportFlowDiagnostics G =
    (let fn = FunctionName G;
         unreachable = concat (map (\<lambda>b. if Statements (Blocks G ! b) \<noteq> []
           then [UnreachableBlockWarning (TerminatorLoc (Blocks G ! b)) fn (BlockName (Blocks G ! b))] else [])
           (getUnreachableBlocks G))
     in if \<not> ReturnsVoid G \<and> \<not> allPathsReturn G
        then unreachable @ [MissingReturnError (FuncLoc G) fn]
        else unreachable @ concat (map (\<lambda>b. if Terminator (Blocks G ! b) = TkBranch
           then [DeadBranchWarning (TerminatorLoc (Blocks G ! b)) fn] else []) (getDeadBranches G)))"

section \<open>The listing\<close>

definition term_name :: "TerminatorKind \<Rightarrow> string" where
  "term_name k = (case k of
      TkReturn \<Rightarrow> ''return'' | TkBreak \<Rightarrow> ''break'' | TkContinue \<Rightarrow> ''continue''
    | TkBranch \<Rightarrow> ''branch'' | TkUnconditional \<Rightarrow> ''jump'' | TkNone \<Rightarrow> ''fallthrough'')"

definition print_refs :: "string \<Rightarrow> nat list \<Rightarrow> 's CFG \<Rightarrow> string" where
  "print_refs title bs G = (if bs = [] then [] else
     ''      '' @ title @ concat (map (\<lambda>b. ''BB'' @ to_string (int (BlockID (Blocks G ! b))) @ '' '') bs) @ [CHR 0x0A])"

definition print_block :: "'s CFG \<Rightarrow> 's Block \<Rightarrow> string" where
  "print_block G B =
     ''    BB'' @ to_string (int (BlockID B)) @ '' ('' @ BlockName B @ '')'' @
     '' ['' @ (if IsReachable B then ''reachable'' else ''unreachable'') @ '']'' @
     '' - '' @ to_string (int (length (Statements B))) @ '' statements'' @ [CHR 0x0A] @
     print_refs ''Predecessors: '' (Predecessors B) G @ print_refs ''Successors: '' (Successors B) G @
     ''      Terminator: '' @ term_name (Terminator B) @ [CHR 0x0A]"

definition name_or_none :: "'s CFG \<Rightarrow> nat option \<Rightarrow> string" where
  "name_or_none G b = (case b of None \<Rightarrow> ''none'' | Some i \<Rightarrow> BlockName (Blocks G ! i))"

definition print_cfg :: "'s CFG \<Rightarrow> string" where
  "print_cfg G =
     ''CFG for function '' @ [CHR 0x27] @ FunctionName G @ [CHR 0x27] @ '':'' @ [CHR 0x0A] @
     ''  Entry: '' @ name_or_none G (EntryBlock G) @ [CHR 0x0A] @
     ''  Exit: '' @ name_or_none G (ExitBlock G) @ [CHR 0x0A] @
     ''  Blocks:'' @ [CHR 0x0A] @ concat (map (print_block G) (Blocks G)) @ [CHR 0x0A]"

section \<open>Properties\<close>

lemma report_kinds:
  assumes "r \<in> set (reportFlowDiagnostics G)"
  shows "(\<exists>b < length (Blocks G). r = UnreachableBlockWarning (TerminatorLoc (Blocks G ! b)) (FunctionName G) (BlockName (Blocks G ! b))
       \<and> \<not> IsReachable (Blocks G ! b)) \<or>
     (r = MissingReturnError (FuncLoc G) (FunctionName G) \<and> \<not> ReturnsVoid G \<and> \<not> allPathsReturn G) \<or>
     (\<exists>b < length (Blocks G). r = DeadBranchWarning (TerminatorLoc (Blocks G ! b)) (FunctionName G)
       \<and> \<not> IsReachable (Blocks G ! b) \<and> Terminator (Blocks G ! b) = TkBranch)"
  using assms
  by (auto simp: reportFlowDiagnostics_def Let_def getUnreachableBlocks_def getDeadBranches_def split: if_split_asm)

lemma missing_return_reported:
  "MissingReturnError l f \<in> set (reportFlowDiagnostics G) \<longleftrightarrow>
     \<not> ReturnsVoid G \<and> \<not> allPathsReturn G \<and> l = FuncLoc G \<and> f = FunctionName G"
  by (auto simp: reportFlowDiagnostics_def Let_def)

text \<open>
  A graph is only built of a body whose \<open>break\<close>s and \<open>continue\<close>s have a loop: no run of the body ends
  in a jump out of it.
\<close>

theorem no_stray_jump:
  assumes "buildCFG name void body loc mangled = Inr G" and "straight_conditions body"
  shows "\<not> run body Broke \<and> \<not> run body Continued"
proof -
  obtain s t where s: "s = with_entry_and_exit (new_cfg name void loc mangled)" and v: "visitExpr body s = Inr t"
    using built_graph [OF assms(1)] by metis
  note k = start_state [OF s]
  show ?thesis
    using cfg.visit_lands [OF UNIV_I k(1,2) v assms(2), of Broke]
      cfg.visit_lands [OF UNIV_I k(1,2) v assms(2), of Continued] k(5,6) by (auto simp: lands_def)
qed

lemma no_stray_jump_witness:
  "\<exists>G. buildCFG ''f'' False search_body (loc3 1 1 []) [] = Inr G \<and> straight_conditions search_body \<and>
     \<not> run search_body Broke \<and> \<not> run search_body Continued"
proof -
  obtain G where G: "buildCFG ''f'' False search_body (loc3 1 1 []) [] = Inr G"
    using search_body_checks by (rule returns_everywhereE)
  from no_stray_jump [OF G search_body_straight] G search_body_straight show ?thesis by blast
qed

text \<open>\<open>while true { } x;\<close>\<close>

definition spin_body :: ExprAST where
  "spin_body = BlockExpr [WhileExpr (loc3 1 1 []) (BoolExpr True) (BlockExpr []), VariableExpr (loc3 2 1 []) ''x'' None]"

lemma visit_variable_eq: "visitExpr (VariableExpr loc x vs) s = (if live s then Inr (add_here (VariableExpr loc x vs) s)
    else dead_code s)"
  by (simp add: visitExpr.simps [of "VariableExpr loc x vs"] visitStatement_def branchToRecoverBlocks_def
      find_recovers_variable note_defer_def)

text \<open>
  The warning for unreachable code can point at a location that was never set: a block that control
  falls off has no terminator location, as the block after \<open>while true { }\<close>.
\<close>

theorem unreachable_warning_without_location:
  "\<exists>G. buildCFG ''f'' True spin_body (loc3 1 1 []) [] = Inr G \<and>
     reportFlowDiagnostics G = [UnreachableBlockWarning None ''f'' ''while.end'']"
  unfolding buildCFG_def spin_body_def
  by (simp add: build_eval visit_variable_eq Let_def cong: then_do_weak_cong let_weak_cong)
    (simp add: return_eval reportFlowDiagnostics_def getUnreachableBlocks_def getDeadBranches_def upt_rec numeral_2_eq_2
      Let_def cong: let_weak_cong)

section \<open>A concrete graph\<close>

text \<open>The graph of \<open>f();\<close> inside a function \<open>f\<close>.\<close>

definition call_state :: BuildState where
  "call_state = link 0 1 (add_stmt 0 (FuncCallExpr (loc3 1 1 []) None (VariableExpr (loc3 1 1 []) ''f'' None) [])
     (with_entry_and_exit (new_cfg ''f'' True (loc3 1 1 []) [])))"

definition call_graph :: "ExprAST CFG" where
  "call_graph = CurrentCFG call_state"

lemma call_graph_facts:
  "wf_cfg call_graph" "EntryBlock call_graph = Some 0" "ExitBlock call_graph = Some 1" "1 < length (Blocks call_graph)"
proof -
  define s where "s = with_entry_and_exit (new_cfg ''f'' True (loc3 1 1 []) [])"
  note k = start_state [OF s_def]
  define t where "t = add_stmt 0 (FuncCallExpr (loc3 1 1 []) None (VariableExpr (loc3 1 1 []) ''f'' None) []) s"
  have t: "steps {} s t" "nb t = nb s" unfolding t_def by (rule add_stmt_step(1,2) [OF tidy_good [OF k(1)]])+
  have l: "steps {0} t call_state" "nb call_state = nb t"
    unfolding call_state_def s_def [symmetric] t_def [symmetric]
    using link_step [OF stepsD(1) [OF t(1)], of 0 1] t(2) k(7) by simp_all
  show "wf_cfg call_graph" using stepsD(1) [OF l(1)] by (simp add: good_def call_graph_def)
  show "EntryBlock call_graph = Some 0" "ExitBlock call_graph = Some 1" "1 < length (Blocks call_graph)"
    unfolding call_graph_def using stepsD(7,8) [OF l(1)] stepsD(7,8) [OF t(1)] k(3,4,7) l(2) t(2) by simp_all
qed

lemma reachable_blocks_marked_witness:
  "wf_cfg call_graph \<and> EntryBlock call_graph = Some 0 \<and> 1 < length (Blocks call_graph) \<and>
     Blocks (computeReachability call_graph) ! 1 =
       (Blocks call_graph ! 1)\<lparr>IsReachable := (0, 1) \<in> (edges call_graph)\<^sup>*\<rparr>"
  using reachable_blocks_marked [OF call_graph_facts(1,2,4)] call_graph_facts by simp

lemma all_paths_recurse_iff_witness:
  "wf_cfg call_graph \<and> EntryBlock call_graph = Some 0 \<and> ExitBlock call_graph = Some 1 \<and>
     (allPathsRecurse (scan_self_call ''f'' []) call_graph \<longleftrightarrow>
       (\<exists>b < length (Blocks call_graph). list_ex (scan_self_call ''f'' []) (Statements (Blocks call_graph ! b))) \<and>
       (\<forall>bs. walk call_graph bs \<and> hd bs = 0 \<and> last bs = 1 \<longrightarrow>
         (\<exists>b \<in> set bs. list_ex (scan_self_call ''f'' []) (Statements (Blocks call_graph ! b)))))"
  using all_paths_recurse_iff [OF call_graph_facts(1-3), of "scan_self_call ''f'' []"] call_graph_facts by blast

end
