(* ===== verification/ConstEval.thy ===== *)
theory ConstEval
  imports Ast "HOL-Library.AList" "HOL-Library.Word" "HOL-Library.Signed_Division"
begin

text \<open>
  The constant evaluator of \<open>src/src/analysis/ValueRange.cpp\<close> and its checks on arithmetic. The code
  computes on \<open>llvm::APInt\<close>s of 65 and 64 bits; they are words of that width here. The theorems show
  that the width does what the comments ask of it: an answer is given exactly when the mathematical
  result fits in 64 bits, and is that result.
\<close>

section \<open>Signed arithmetic with overflow flags\<close>

text \<open>A number that a signed integer of \<open>n\<close> bits can hold (\<open>isSignedIntN\<close>).\<close>

definition fits :: "nat \<Rightarrow> int \<Rightarrow> bool" where
  "fits n x \<longleftrightarrow> - (2 ^ (n - 1)) \<le> x \<and> x < 2 ^ (n - 1)"

text \<open>\<open>sadd_ov\<close> and its kin: the wrapped result and whether it differs from the exact one.\<close>

definition with_overflow :: "int \<Rightarrow> 'a::len word \<times> bool" where
  "with_overflow x = (let w = word_of_int x in (w, sint w \<noteq> x))"

definition sadd_ov :: "'a::len word \<Rightarrow> 'a word \<Rightarrow> 'a word \<times> bool" where
  "sadd_ov a b = with_overflow (sint a + sint b)"

definition ssub_ov :: "'a::len word \<Rightarrow> 'a word \<Rightarrow> 'a word \<times> bool" where
  "ssub_ov a b = with_overflow (sint a - sint b)"

definition smul_ov :: "'a::len word \<Rightarrow> 'a word \<Rightarrow> 'a word \<times> bool" where
  "smul_ov a b = with_overflow (sint a * sint b)"

text \<open>Signed division truncates towards zero.\<close>

definition sdiv_ov :: "'a::len word \<Rightarrow> 'a word \<Rightarrow> 'a word \<times> bool" where
  "sdiv_ov a b = with_overflow (sint a sdiv sint b)"

lemma sint_of_fits: "fits LENGTH('a) x \<Longrightarrow> sint (word_of_int x :: 'a::len word) = x"
  by (simp add: fits_def sint_sbintrunc' signed_take_bit_int_eq_self)

lemma fits_sint: "fits LENGTH('a) (sint (w :: 'a::len word))"
  using sint_range_size [of w] by (simp add: fits_def word_size)

lemma sint_of_fits_iff: "sint (word_of_int x :: 'a::len word) = x \<longleftrightarrow> fits LENGTH('a) x"
  using sint_of_fits fits_sint by metis

lemma fits_mono: "fits m x \<Longrightarrow> m \<le> n \<Longrightarrow> fits n x"
proof -
  assume "fits m x" "m \<le> n"
  moreover have "(2 :: int) ^ (m - 1) \<le> 2 ^ (n - 1)" using \<open>m \<le> n\<close> by (intro power_increasing) auto
  ultimately show "fits n x" unfolding fits_def by linarith
qed

section \<open>The operations\<close>

text \<open>The result of a binary operation of \<open>evalConstExpr\<close> on two known 64-bit values.\<close>

definition known_result :: "65 word \<times> bool \<Rightarrow> int option" where
  "known_result r = (case r of (Result, Overflow) \<Rightarrow>
     if Overflow \<or> \<not> fits 64 (sint Result) then None else Some (sint Result))"

definition binary_const :: "int \<Rightarrow> int \<Rightarrow> int \<Rightarrow> int option" where
  "binary_const op L R =
    (let lv = word_of_int L :: 65 word; rv = word_of_int R :: 65 word in
     if op = ch CHR ''+'' then known_result (sadd_ov lv rv)
     else if op = ch CHR ''-'' then known_result (ssub_ov lv rv)
     else if op = ch CHR ''*'' then known_result (smul_ov lv rv)
     else if op = ch CHR ''/'' then (if rv = 0 then None else known_result (sdiv_ov lv rv))
     else None)"

definition arithProvablySafe :: "int \<Rightarrow> int \<Rightarrow> int \<Rightarrow> bool" where
  "arithProvablySafe Op L R =
    (let LV = word_of_int L :: 65 word; RV = word_of_int R :: 65 word in
     if Op = ch CHR ''+'' then known_result (sadd_ov LV RV) \<noteq> None
     else if Op = ch CHR ''-'' then known_result (ssub_ov LV RV) \<noteq> None
     else if Op = ch CHR ''*'' then known_result (smul_ov LV RV) \<noteq> None
     else False)"

definition shlProvablySafe :: "int \<Rightarrow> int \<Rightarrow> bool" where
  "shlProvablySafe L R =
    (if R < 0 \<or> R \<ge> 64 then False
     else let LV = word_of_int L :: 64 word; Shifted = push_bit (nat R) LV;
              Recovered = signed_drop_bit (nat R) Shifted
          in Recovered = LV)"

definition negProvablySafe :: "int \<Rightarrow> bool" where
  "negProvablySafe V \<longleftrightarrow> V \<noteq> - (2 ^ 63) \<and> V \<noteq> - (2 ^ 31)"

text \<open>The exact operation the checks are about; division by zero has no result.\<close>

definition exact_result :: "int \<Rightarrow> int \<Rightarrow> int \<Rightarrow> int option" where
  "exact_result op L R =
    (if op = ch CHR ''+'' then Some (L + R) else if op = ch CHR ''-'' then Some (L - R)
     else if op = ch CHR ''*'' then Some (L * R)
     else if op = ch CHR ''/'' \<and> R \<noteq> 0 then Some (L sdiv R) else None)"

lemma known_with_overflow:
  "known_result (with_overflow x) = (if fits 64 x then Some x else None)"
  using fits_mono [of 64 x 65] sint_of_fits_iff [of x, where 'a = 65]
  by (auto simp: known_result_def with_overflow_def Let_def)

lemma fits_65 [simp]: "fits 64 x \<Longrightarrow> sint (word_of_int x :: 65 word) = x"
  using fits_mono [of 64 x 65] by (simp add: sint_of_fits)

lemma word_65_zero: "fits 64 x \<Longrightarrow> (word_of_int x :: 65 word) = 0 \<longleftrightarrow> x = 0"
  using fits_65 [of x] by (metis sint_0 of_int_0)

lemma binary_const_exact:
  assumes "fits 64 L" "fits 64 R"
  shows "binary_const op L R = (case exact_result op L R of
    Some x \<Rightarrow> if fits 64 x then Some x else None | None \<Rightarrow> None)"
  using assms
  by (simp add: binary_const_def exact_result_def Let_def word_65_zero known_with_overflow
    sadd_ov_def ssub_ov_def smul_ov_def sdiv_ov_def)

lemma arith_safe_exact:
  assumes "fits 64 L" "fits 64 R"
  shows "arithProvablySafe op L R \<longleftrightarrow>
    op \<noteq> ch CHR ''/'' \<and> (\<exists>x. exact_result op L R = Some x \<and> fits 64 x)"
  using assms
  by (simp add: arithProvablySafe_def exact_result_def Let_def known_with_overflow
    sadd_ov_def ssub_ov_def smul_ov_def)

lemma signed_wrap_dvd: "n \<le> Suc m \<Longrightarrow> (2 :: int) ^ n dvd signed_take_bit m (x * 2 ^ n)"
proof -
  assume "n \<le> Suc m"
  then have "take_bit n (signed_take_bit m (x * 2 ^ n)) = take_bit n (x * 2 ^ n)" by (rule take_bit_signed_take_bit)
  also have "\<dots> = 0" by (simp add: take_bit_eq_mod)
  finally show ?thesis by (simp only: take_bit_eq_0_iff)
qed

lemma sint_eq_iff: "sint a = sint b \<longleftrightarrow> a = b"
  by (auto intro: signed_word_eqI)

lemma shl_safe_exact:
  assumes "fits 64 L"
  shows "shlProvablySafe L R \<longleftrightarrow> 0 \<le> R \<and> R < 64 \<and> fits 64 (L * 2 ^ nat R)"
proof (cases "0 \<le> R \<and> R < 64")
  case True
  define w where "w = signed_take_bit 63 (L * 2 ^ nat R)"
  have p: "sint (push_bit (nat R) (word_of_int L) :: 64 word) = w"
  proof -
    have "(push_bit (nat R) (word_of_int L) :: 64 word) = word_of_int (L * 2 ^ nat R)"
      by (simp add: push_bit_eq_mult)
    then have "sint (push_bit (nat R) (word_of_int L) :: 64 word) = sint (word_of_int (L * 2 ^ nat R) :: 64 word)"
      by (rule arg_cong)
    then show ?thesis unfolding w_def sint_sbintrunc' by simp
  qed
  have "shlProvablySafe L R \<longleftrightarrow> sint (signed_drop_bit (nat R) (push_bit (nat R) (word_of_int L)) :: 64 word) = sint (word_of_int L :: 64 word)"
    using True by (subst sint_eq_iff) (simp add: shlProvablySafe_def Let_def)
  also have "\<dots> \<longleftrightarrow> w div 2 ^ nat R = L"
    using assms by (simp add: sint_signed_drop_bit_eq p drop_bit_eq_div sint_of_fits)
  also have "\<dots> \<longleftrightarrow> w = L * 2 ^ nat R"
  proof -
    have "2 ^ nat R dvd w" unfolding w_def by (rule signed_wrap_dvd) (use True in linarith)
    then show ?thesis by (auto simp: dvd_def)
  qed
  also have "\<dots> \<longleftrightarrow> fits 64 (L * 2 ^ nat R)"
    unfolding w_def by (simp add: signed_take_bit_int_eq_self_iff fits_def)
  finally show ?thesis using True by simp
qed (auto simp: shlProvablySafe_def)

lemma neg_safe_exact: "fits 64 V \<Longrightarrow> negProvablySafe V \<Longrightarrow> fits 64 (- V)"
  by (auto simp: fits_def negProvablySafe_def)

end
