(* ===== verification/AstAccess.thy ===== *)
theory AstAccess
  imports Ast
begin

text \<open>
  What the flow passes of \<open>src/src/analysis/Analysis.cpp\<close> and \<open>ValueRange.cpp\<close> ask of an expression: is
  it a bare variable, and is it a path into the storage of a fixed-size array (\<open>inPlaceArrayRoot\<close>). The
  table of declared types is the argument \<open>LookupType\<close>.
\<close>

fun is_variable :: "ExprAST \<Rightarrow> bool" where
  "is_variable (VariableExpr loc x S) = True"
| "is_variable _ = False"

definition target_symbol :: "ExprAST \<Rightarrow> VariableSymbol option" where
  "target_symbol e = (case e of VariableExpr loc x S \<Rightarrow> S | _ \<Rightarrow> None)"

type_synonym TypeTable = "string \<Rightarrow> TurfType option"

fun struct_fields :: "TurfType option \<Rightarrow> (string \<times> TurfType) list option" where
  "struct_fields (Some (TurfStructType name fs ps)) = Some fs"
| "struct_fields _ = None"

definition escapeStructOf :: "TypeTable \<Rightarrow> TurfType \<Rightarrow> (string \<times> TurfType) list option" where
  "escapeStructOf LookupType T = (case T of
      TurfStructType name fs ps \<Rightarrow> Some fs
    | NamedType name md res \<Rightarrow> struct_fields (LookupType name)
    | GenericType base args md res \<Rightarrow> struct_fields (LookupType (instantiatedDeclName base args []))
    | _ \<Rightarrow> None)"

text \<open>The steps of an access path, the last one first, and the expression they start from.\<close>

fun access_steps :: "ExprAST \<Rightarrow> ExprAST list \<times> ExprAST" where
  "access_steps (ArrayAccessExpr loc b i p) = (case access_steps b of (ss, r) \<Rightarrow> (ArrayAccessExpr loc b i p # ss, r))"
| "access_steps (FieldAccessExpr loc b f) = (case access_steps b of (ss, r) \<Rightarrow> (FieldAccessExpr loc b f # ss, r))"
| "access_steps e = ([], e)"

text \<open>The index expressions of steps that stay inside the storage of a value of type \<open>T\<close>.\<close>

fun step_indices :: "TypeTable \<Rightarrow> TurfType \<Rightarrow> ExprAST list \<Rightarrow> ExprAST list option" where
  "step_indices LookupType T [] = Some []"
| "step_indices LookupType T (ArrayAccessExpr loc b i p # ss) = (case T of
      ArrayType t n sp \<Rightarrow> if n \<le> 0 then None else map_option (\<lambda>is. i # is) (step_indices LookupType t ss)
    | _ \<Rightarrow> None)"
| "step_indices LookupType T (FieldAccessExpr loc b f # ss) =
    (if isPointer T then None
     else case escapeStructOf LookupType T of
        None \<Rightarrow> None
      | Some fs \<Rightarrow> (case getFieldType f fs of None \<Rightarrow> None | Some t \<Rightarrow> step_indices LookupType t ss))"
| "step_indices LookupType T (e # ss) = None"

definition inPlaceArrayRoot :: "TypeTable \<Rightarrow> ExprAST \<Rightarrow> (VariableSymbol \<times> ExprAST list) option" where
  "inPlaceArrayRoot LookupType E = (case access_steps E of
      (Steps, VariableExpr loc x (Some S)) \<Rightarrow>
        if Steps = [] then None
        else (case VarType S of
            Some (ArrayType t n sp) \<Rightarrow>
              if n \<le> 0 then None
              else map_option (\<lambda>Indices. (S, Indices)) (step_indices LookupType (ArrayType t n sp) (rev Steps))
          | _ \<Rightarrow> None)
    | _ \<Rightarrow> None)"

definition inside_step :: "ExprAST \<Rightarrow> ExprAST \<Rightarrow> bool" where
  "inside_step E s \<longleftrightarrow> size s \<le> size E \<and> (\<forall>loc b i p. s = ArrayAccessExpr loc b i p \<longrightarrow> size i < size E)"

lemma inside_step_up: "inside_step b s \<Longrightarrow> size b \<le> size E \<Longrightarrow> inside_step E s"
  by (auto simp: inside_step_def)

lemma size_access_steps: "s \<in> set (fst (access_steps E)) \<Longrightarrow> inside_step E s"
proof (induction E rule: access_steps.induct)
  case (1 loc b i p)
  show ?case
  proof (cases "s = ArrayAccessExpr loc b i p")
    case True
    then show ?thesis by (simp add: inside_step_def)
  next
    case False
    with 1 have "inside_step b s" by (simp split: prod.splits)
    then show ?thesis by (rule inside_step_up) simp
  qed
next
  case (2 loc b f)
  show ?case
  proof (cases "s = FieldAccessExpr loc b f")
    case True
    then show ?thesis by (simp add: inside_step_def)
  next
    case False
    with 2 have "inside_step b s" by (simp split: prod.splits)
    then show ?thesis by (rule inside_step_up) simp
  qed
qed simp_all

lemma step_indices_from: "step_indices L T ss = Some is \<Longrightarrow> i \<in> set is \<Longrightarrow> \<exists>loc b p. ArrayAccessExpr loc b i p \<in> set ss"
proof (induction L T ss arbitrary: "is" rule: step_indices.induct)
  case (2 L T loc b j p ss)
  then obtain n t sp where T: "T = ArrayType t n sp" by (cases T) simp_all
  from 2(2) obtain js where js: "step_indices L t ss = Some js" "is = j # js" "\<not> n \<le> 0"
    by (auto simp: T split: if_splits)
  show ?case
  proof (cases "i = j")
    case False
    with 2(3) js have "i \<in> set js" by simp
    from 2(1) [OF T js(3,1) this] show ?thesis by auto
  qed auto
next
  case (3 L T loc b f ss)
  then show ?case by (auto split: if_splits option.splits)
qed simp_all

lemma size_in_place: "inPlaceArrayRoot L E = Some (S, is) \<Longrightarrow> i \<in> set is \<Longrightarrow> size i < size E"
proof -
  assume r: "inPlaceArrayRoot L E = Some (S, is)" and i: "i \<in> set is"
  obtain Steps root where s: "access_steps E = (Steps, root)" by (cases "access_steps E")
  have "\<exists>T. step_indices L T (rev Steps) = Some is"
  proof (cases root)
    case (VariableExpr loc x V)
    then show ?thesis using r unfolding inPlaceArrayRoot_def s
      by (cases V) (auto split: option.splits if_splits TurfType.splits)
  qed (use r in \<open>simp_all add: inPlaceArrayRoot_def s\<close>)
  then obtain loc b p where "ArrayAccessExpr loc b i p \<in> set Steps" using step_indices_from i by fastforce
  with size_access_steps [of _ E] s show ?thesis by (auto simp: inside_step_def)
qed

end
