(* ===== verification/ConstSolver.thy ===== *)
theory ConstSolver
  imports ConstFlow
begin

text \<open>
  The solver of \<open>solveConstants\<close> ends, and its answer is a fixed point of the data-flow equations. Maps
  are ordered by what they know: absent, then present without a value, then a value. The transfer
  functions and the join are monotone in that order, so the maps of a run only grow, and each of the
  finitely many tracked variables can grow twice per block.
\<close>

section \<open>The order of knowledge\<close>

fun le_const :: "int option option \<Rightarrow> int option option \<Rightarrow> bool" where
  "le_const None v = True"
| "le_const (Some None) v = (v \<noteq> None)"
| "le_const (Some (Some c)) v = (v = Some (Some c))"

definition le_map :: "ConstMap \<Rightarrow> ConstMap \<Rightarrow> bool" where
  "le_map A B \<longleftrightarrow> (\<forall>k. le_const (map_of A k) (map_of B k))"

lemma le_const_refl [simp]: "le_const v v"
proof (cases v)
  case (Some u)
  then show ?thesis by (cases u) simp_all
qed simp

lemma le_const_trans: "le_const u v \<Longrightarrow> le_const v w \<Longrightarrow> le_const u w"
  by (induction u v rule: le_const.induct) (auto elim: le_const.elims)

lemma le_const_some [simp]: "le_const u (Some (Some c)) \<longleftrightarrow> u = None \<or> u = Some None \<or> u = Some (Some c)"
  by (induction u "Some (Some c)" rule: le_const.induct) auto

lemma le_const_none [simp]: "le_const u (Some None) \<longleftrightarrow> u = None \<or> u = Some None"
  by (induction u "Some None :: int option option" rule: le_const.induct) auto

lemma le_map_refl [simp]: "le_map A A"
  by (simp add: le_map_def)

lemma le_map_trans: "le_map A B \<Longrightarrow> le_map B C \<Longrightarrow> le_map A C"
  unfolding le_map_def using le_const_trans by blast

lemma le_const_antisym: "le_const u v \<Longrightarrow> le_const v u \<Longrightarrow> u = v"
  by (induction u v rule: le_const.induct) (auto elim: le_const.elims)

lemma le_map_antisym: "le_map A B \<Longrightarrow> le_map B A \<Longrightarrow> map_of A = map_of B"
  by (auto simp: le_map_def intro: le_const_antisym)

lemma le_map_empty [simp]: "le_map [] A"
  by (simp add: le_map_def)

lemma same_map_iff: "same_map A B \<longleftrightarrow> map_of A = map_of B"
proof
  assume s: "same_map A B"
  show "map_of A = map_of B"
  proof
    fix k
    show "map_of A k = map_of B k"
    proof (cases "k \<in> fst ` set A \<union> fst ` set B")
      case True
      with s show ?thesis by (auto simp: same_map_def list_all_iff)
    next
      case False
      then have "map_of A k = None" "map_of B k = None" by (auto simp: map_of_eq_None_iff)
      then show ?thesis by simp
    qed
  qed
qed (simp add: same_map_def list_all_iff)

section \<open>Monotone operations\<close>

lemma map_of_join: "map_of (join_const A B) k =
    map_option (\<lambda>v. if v \<noteq> None \<and> map_of B k = Some v then v else None) (map_of A k)"
proof (induction A)
  case (Cons a A)
  then show ?case by (cases a) (simp add: join_const_def)
qed (simp add: join_const_def)

lemma join_mono: "le_map A A' \<Longrightarrow> le_map B B' \<Longrightarrow> le_map (join_const A B) (join_const A' B')"
proof -
  assume A: "le_map A A'" and B: "le_map B B'"
  have "le_const (map_of (join_const A B) k) (map_of (join_const A' B') k)" for k
  proof (cases "map_of A k")
    case None
    then show ?thesis by (simp add: map_of_join)
  next
    case (Some v)
    with A have a: "le_const (Some v) (map_of A' k)" by (metis le_map_def)
    from B have b: "le_const (map_of B k) (map_of B' k)" by (simp add: le_map_def)
    from Some a b show ?thesis by (cases v) (auto simp: map_of_join)
  qed
  then show ?thesis by (simp add: le_map_def)
qed

lemma lookup_mono: "le_map A B \<Longrightarrow> lookup_const A S = Some c \<Longrightarrow> lookup_const B S = Some c"
proof -
  assume "le_map A B" "lookup_const A S = Some c"
  then obtain s where s: "S = Some s" "map_of A (VarId s) = Some (Some c)"
    by (auto simp: lookup_const_def split: option.splits)
  then have "map_of B (VarId s) = Some (Some c)" using \<open>le_map A B\<close> unfolding le_map_def by (metis le_const.simps(3))
  with s show ?thesis by (simp add: lookup_const_def)
qed

lemma eval_mono: "le_map A B \<Longrightarrow> evalConstExpr e A = Some c \<Longrightarrow> evalConstExpr e B = Some c"
proof (induction e A arbitrary: c rule: evalConstExpr.induct)
  case (3 loc op l r p M)
  then obtain L R where lr: "evalConstExpr l M = Some L" "evalConstExpr r M = Some R" "binary_const op L R = Some c"
    by (auto split: option.splits)
  with 3 have "evalConstExpr l B = Some L" "evalConstExpr r B = Some R" by blast+
  with lr show ?case by simp
qed (auto intro: lookup_mono)

lemma eval_same: "map_of A = map_of B \<Longrightarrow> evalConstExpr e A = evalConstExpr e B"
proof -
  assume "map_of A = map_of B"
  then have "le_map A B" "le_map B A" by (simp_all add: le_map_def)
  then show ?thesis using eval_mono by (metis option.exhaust)
qed

lemma le_const_value: "(\<And>c. u = Some c \<Longrightarrow> v = Some c) \<Longrightarrow> le_const (Some u) (Some v)"
  by (cases u) auto

lemma set_const_mono: "le_map A B \<Longrightarrow> (\<And>c. u = Some c \<Longrightarrow> v = Some c) \<Longrightarrow>
    le_map (set_const TV S u A) (set_const TV S v B)"
  using le_const_value [of u v] by (auto simp: set_const_def le_map_def update_conv' split: option.splits)

lemma transfer_mono: "le_map A B \<Longrightarrow> le_map (applyTransfer TV s A) (applyTransfer TV s B)"
  unfolding applyTransfer_def by (cases s) (simp_all add: set_const_mono eval_mono)

lemma block_transfer_mono: "le_map A B \<Longrightarrow> le_map (block_transfer TV ss A) (block_transfer TV ss B)"
  unfolding block_transfer_def by (induction ss arbitrary: A B) (simp_all add: transfer_mono)

lemma block_transfer_same: "map_of A = map_of B \<Longrightarrow> map_of (block_transfer TV ss A) = map_of (block_transfer TV ss B)"
  using block_transfer_mono [of A B TV ss] block_transfer_mono [of B A TV ss]
  by (intro le_map_antisym) (simp_all add: le_map_def)

lemma fold_join_mono:
  assumes "\<And>q. q \<in> set ps \<Longrightarrow> le_map (OUT ! q) (OUT' ! q)" and "le_map A B"
  shows "le_map (fold (\<lambda>q M. join_const M (OUT ! q)) ps A) (fold (\<lambda>q M. join_const M (OUT' ! q)) ps B)"
  using assms by (induction ps arbitrary: A B) (simp_all add: join_mono)

lemma block_in_mono:
  assumes "\<And>q. q \<in> set ps \<Longrightarrow> le_map (OUT ! q) (OUT' ! q)" and "le_map A B"
  shows "le_map (block_in OUT A ps) (block_in OUT' B ps)"
  using assms fold_join_mono [of "tl ps" OUT OUT'] by (cases ps) (simp_all add: block_in_def)

section \<open>How much a map can still learn\<close>

text \<open>Only tracked variables become keys.\<close>

definition keys_in :: "nat set \<Rightarrow> ConstMap \<Rightarrow> bool" where
  "keys_in K A \<longleftrightarrow> dom (map_of A) \<subseteq> K"

lemma keys_empty [simp]: "keys_in K []"
  by (simp add: keys_in_def)

lemma keys_transfer: "keys_in (set (Trackable TV)) A \<Longrightarrow> keys_in (set (Trackable TV)) (block_transfer TV ss A)"
proof -
  have one: "keys_in (set (Trackable TV)) (applyTransfer TV s A)" if "keys_in (set (Trackable TV)) A" for s A
    using that by (cases s) (auto simp: applyTransfer_def set_const_def keys_in_def update_conv' split: option.split)
  show "keys_in (set (Trackable TV)) A \<Longrightarrow> ?thesis"
    unfolding block_transfer_def by (induction ss arbitrary: A) (simp_all add: one)
qed

lemma keys_block_in:
  assumes "\<And>q. q \<in> set ps \<Longrightarrow> keys_in K (OUT ! q)" and "keys_in K A"
  shows "keys_in K (block_in OUT A ps)"
proof (cases ps)
  case (Cons p qs)
  have "keys_in K (fold (\<lambda>q M. join_const M (OUT ! q)) qs M)" if "keys_in K M" for M
    using that by (induction qs arbitrary: M) (auto simp: keys_in_def dom_def map_of_join)
  with assms Cons show ?thesis by (simp add: block_in_def)
qed (use assms in \<open>simp add: block_in_def\<close>)

fun unknown_rank :: "int option option \<Rightarrow> nat" where
  "unknown_rank None = 2"
| "unknown_rank (Some None) = 1"
| "unknown_rank (Some (Some c)) = 0"

definition unknowns :: "nat set \<Rightarrow> ConstMap \<Rightarrow> nat" where
  "unknowns K A = (\<Sum>k \<in> K. unknown_rank (map_of A k))"

lemma rank_mono: "le_const u v \<Longrightarrow> unknown_rank v \<le> unknown_rank u"
proof (induction u v rule: le_const.induct)
  case (1 v)
  then show ?case by (cases v rule: unknown_rank.cases) auto
next
  case (2 v)
  then show ?case by (cases v rule: unknown_rank.cases) auto
qed auto

lemma rank_strict: "le_const u v \<Longrightarrow> u \<noteq> v \<Longrightarrow> unknown_rank v < unknown_rank u"
proof (induction u v rule: le_const.induct)
  case (1 v)
  then show ?case by (cases v rule: unknown_rank.cases) auto
next
  case (2 v)
  then show ?case by (cases v rule: unknown_rank.cases) auto
qed auto

lemma unknowns_less:
  assumes "le_map A B" and "map_of A \<noteq> map_of B" and "keys_in K B" and "finite K"
  shows "unknowns K B < unknowns K A"
proof -
  obtain k where k: "map_of A k \<noteq> map_of B k" using assms(2) by blast
  with assms(1) have "map_of B k \<noteq> None" unfolding le_map_def
    by (metis le_const.simps(2,3) option.exhaust)
  with assms(3) have "k \<in> K" by (auto simp: keys_in_def)
  then show ?thesis
    unfolding unknowns_def using assms(1,4) k
    by (intro sum_strict_mono_ex1) (auto simp: le_map_def intro!: rank_mono bexI [of _ k] rank_strict)
qed

section \<open>The invariant of the work list\<close>

definition block_value :: "ExprAST CFG \<Rightarrow> TrackedVars \<Rightarrow> ConstMap list \<Rightarrow> ConstMap list \<Rightarrow> nat \<Rightarrow> ConstMap" where
  "block_value G TV IN OUT b = block_transfer TV (Statements (Blocks G ! b))
     (block_in OUT (IN ! b) (Predecessors (Blocks G ! b)))"

text \<open>A block whose maps satisfy its two equations.\<close>

definition stable :: "ExprAST CFG \<Rightarrow> TrackedVars \<Rightarrow> ConstMap list \<Rightarrow> ConstMap list \<Rightarrow> nat \<Rightarrow> bool" where
  "stable G TV IN OUT b \<longleftrightarrow>
     same_map (IN ! b) (block_in OUT (IN ! b) (Predecessors (Blocks G ! b))) \<and>
     same_map (OUT ! b) (block_transfer TV (Statements (Blocks G ! b)) (IN ! b))"

definition solver_inv :: "ExprAST CFG \<Rightarrow> TrackedVars \<Rightarrow> SolverState \<Rightarrow> bool" where
  "solver_inv G TV w \<longleftrightarrow> (case w of (IN, OUT, work) \<Rightarrow>
     length IN = length (Blocks G) \<and> length OUT = length (Blocks G) \<and>
     set work \<subseteq> {..<length (Blocks G)} \<and>
     (\<forall>b < length (Blocks G). keys_in (set (Trackable TV)) (IN ! b) \<and> keys_in (set (Trackable TV)) (OUT ! b) \<and>
        (Predecessors (Blocks G ! b) = [] \<longrightarrow> IN ! b = []) \<and>
        le_map (IN ! b) (block_in OUT (IN ! b) (Predecessors (Blocks G ! b))) \<and>
        le_map (OUT ! b) (block_transfer TV (Statements (Blocks G ! b)) (IN ! b)) \<and>
        (b \<notin> set work \<longrightarrow> stable G TV IN OUT b)))"

lemma solver_invD:
  assumes "solver_inv G TV (IN, OUT, work)"
  shows "length IN = length (Blocks G)" "length OUT = length (Blocks G)" "set work \<subseteq> {..<length (Blocks G)}"
    "b < length (Blocks G) \<Longrightarrow> keys_in (set (Trackable TV)) (IN ! b)"
    "b < length (Blocks G) \<Longrightarrow> keys_in (set (Trackable TV)) (OUT ! b)"
    "b < length (Blocks G) \<Longrightarrow> Predecessors (Blocks G ! b) = [] \<Longrightarrow> IN ! b = []"
    "b < length (Blocks G) \<Longrightarrow> le_map (IN ! b) (block_in OUT (IN ! b) (Predecessors (Blocks G ! b)))"
    "b < length (Blocks G) \<Longrightarrow> le_map (OUT ! b) (block_transfer TV (Statements (Blocks G ! b)) (IN ! b))"
    "b < length (Blocks G) \<Longrightarrow> b \<notin> set work \<Longrightarrow> stable G TV IN OUT b"
  using assms by (simp_all add: solver_inv_def)

lemma start_inv: "solver_inv G TV (solver_start G)"
  by (auto simp: solver_inv_def solver_start_def Let_def block_in_def split: list.split)

lemma preds_inside: "wf_cfg G \<Longrightarrow> b < length (Blocks G) \<Longrightarrow> q \<in> set (Predecessors (Blocks G ! b)) \<Longrightarrow> q < length (Blocks G)"
  by (auto simp: wf_cfg_def)

lemma succs_inside: "wf_cfg G \<Longrightarrow> b < length (Blocks G) \<Longrightarrow> set (succs G b) \<subseteq> {..<length (Blocks G)}"
  by (auto simp: wf_cfg_def)

lemma block_in_cong:
  assumes "\<And>q. q \<in> set ps \<Longrightarrow> OUT ! q = OUT' ! q" and "ps = [] \<Longrightarrow> A = B"
  shows "block_in OUT A ps = block_in OUT' B ps"
proof -
  have "fold (\<lambda>q M. join_const M (OUT ! q)) qs M = fold (\<lambda>q M. join_const M (OUT' ! q)) qs M"
    if "set qs \<subseteq> set ps" for qs M
    using that assms(1) by (induction qs arbitrary: M) auto
  then show ?thesis using assms by (cases ps) (auto simp: block_in_def)
qed

lemma le_map_same: "map_of A = map_of B \<Longrightarrow> le_map A B"
  by (simp add: le_map_def)

text \<open>One turn of the loop at block \<open>b\<close>.\<close>

lemma process_block_eq:
  assumes "IN' = (if same_map NI (IN ! b) then IN else IN[b := NI])"
    and "NI = block_in OUT (IN ! b) (Predecessors (Blocks G ! b))"
    and "Cur = block_transfer TV (Statements (Blocks G ! b)) (IN' ! b)"
  shows "process_block G TV (IN, OUT, b # work) =
    (if same_map Cur (OUT ! b) then (IN', OUT, work) else (IN', OUT[b := Cur], work @ succs G b))"
  using assms by (simp add: process_block_def Let_def)

lemma turn_inv:
  assumes wf: "wf_cfg G" and inv: "solver_inv G TV (IN, OUT, b # work)"
    and IN': "IN' = (if same_map NI (IN ! b) then IN else IN[b := NI])"
    and NI: "NI = block_in OUT (IN ! b) (Predecessors (Blocks G ! b))"
    and Cur: "Cur = block_transfer TV (Statements (Blocks G ! b)) (IN' ! b)"
    and OUT': "OUT' = (if same_map Cur (OUT ! b) then OUT else OUT[b := Cur])"
    and work': "same_map Cur (OUT ! b) \<longrightarrow> work' = work" "\<not> same_map Cur (OUT ! b) \<longrightarrow> work' = work @ succs G b"
  shows "le_map (OUT ! b) Cur" and "keys_in (set (Trackable TV)) Cur" and "solver_inv G TV (IN', OUT', work')"
proof -
  let ?n = "length (Blocks G)" and ?P = "\<lambda>c. Predecessors (Blocks G ! c)"
  note I = solver_invD [OF inv]
  have b: "b < ?n" using I(3) by simp
  have NIb: "map_of (IN' ! b) = map_of NI" using IN' b I(1) by (auto simp: same_map_iff)
  have other: "IN' ! c = IN ! c" if "c \<noteq> b" for c using IN' that by simp
  have in_le: "le_map (IN ! c) (IN' ! c)" if "c < ?n" for c
    using I(7) [OF b] NI NIb other [of c] by (cases "c = b") (simp_all add: le_map_def)
  have no_preds: "IN' ! c = IN ! c" if "?P c = []" for c
    using that NI IN' other [of c] by (cases "c = b") (simp_all add: block_in_def same_map_iff)
  show out_le: "le_map (OUT ! b) Cur"
    using I(8) [OF b] block_transfer_mono [OF in_le [OF b]] le_map_trans unfolding Cur by blast
  have keys_NI: "keys_in (set (Trackable TV)) NI" unfolding NI
    by (rule keys_block_in) (use I(4,5) preds_inside [OF wf b] b in auto)
  then have keys_in_b: "keys_in (set (Trackable TV)) (IN' ! b)" using NIb by (simp add: keys_in_def)
  then show keys_Cur: "keys_in (set (Trackable TV)) Cur" unfolding Cur by (rule keys_transfer)
  have OUTb: "map_of (OUT' ! b) = map_of Cur" using OUT' b I(2) by (auto simp: same_map_iff)
  have out_other: "OUT' ! c = OUT ! c" if "c \<noteq> b" for c using OUT' that by simp
  have outs_le: "le_map (OUT ! c) (OUT' ! c)" for c
    using out_le OUTb out_other [of c] by (cases "c = b") (simp_all add: le_map_def)
  have keys: "keys_in (set (Trackable TV)) (IN' ! c)" "keys_in (set (Trackable TV)) (OUT' ! c)" if "c < ?n" for c
    using that keys_in_b keys_Cur OUTb I(4,5) [of c] other [of c] out_other [of c]
    by (cases "c = b"; simp add: keys_in_def)+
  have in_ok: "le_map (IN' ! c) (block_in OUT' (IN' ! c) (?P c))" if "c < ?n" for c
  proof -
    have "le_map (IN' ! c) (block_in OUT (IN ! c) (?P c))"
      using I(7) [OF that] other [of c] NIb NI by (cases "c = b") (simp_all add: le_map_def)
    moreover have "le_map (block_in OUT (IN ! c) (?P c)) (block_in OUT' (IN' ! c) (?P c))"
      by (rule block_in_mono) (use outs_le in_le that in auto)
    ultimately show ?thesis by (rule le_map_trans)
  qed
  have out_ok: "le_map (OUT' ! c) (block_transfer TV (Statements (Blocks G ! c)) (IN' ! c))" if "c < ?n" for c
    using I(8) [OF that] other [of c] out_other [of c] OUTb unfolding Cur by (cases "c = b") (simp_all add: le_map_def)
  have eq: "stable G TV IN' OUT' c" if c: "c < ?n" "c \<notin> set work'" for c
  proof -
    have quiet: "OUT' ! q = OUT ! q" if "q \<in> set (?P c)" for q
    proof (cases "same_map Cur (OUT ! b)")
      case True
      then show ?thesis using OUT' by simp
    next
      case False
      with work' c have "c \<notin> set (succs G b)" by auto
      with wf_pred_iff [OF wf b c(1)] that have "q \<noteq> b" by auto
      then show ?thesis by (rule out_other)
    qed
    have same: "block_in OUT' (IN' ! c) (?P c) = block_in OUT (IN ! c) (?P c)"
      by (rule block_in_cong) (simp_all add: quiet no_preds)
    show ?thesis
    proof (cases "c = b")
      case True
      then show ?thesis using NIb NI OUTb same unfolding stable_def same_map_iff Cur by simp
    next
      case False
      with c work' have "c \<notin> set (b # work)" by (cases "same_map Cur (OUT ! b)") auto
      with I(9) [OF c(1)] same other [OF False] out_other [OF False] show ?thesis by (simp add: stable_def)
    qed
  qed
  have "set work' \<subseteq> {..<?n}" using work' I(3) succs_inside [OF wf b] by (cases "same_map Cur (OUT ! b)") auto
  moreover have "length IN' = ?n" "length OUT' = ?n" using IN' OUT' I(1,2) by simp_all
  moreover have "IN' ! c = []" if "c < ?n" "?P c = []" for c using I(6) [OF that] no_preds that by simp
  ultimately show "solver_inv G TV (IN', OUT', work')"
    unfolding solver_inv_def using keys in_ok out_ok eq by simp
qed

definition solver_weight :: "ExprAST CFG \<Rightarrow> TrackedVars \<Rightarrow> SolverState \<Rightarrow> nat" where
  "solver_weight G TV w = (case w of (IN, OUT, work) \<Rightarrow>
     (\<Sum>b < length (Blocks G). unknowns (set (Trackable TV)) (OUT ! b)) *
       Suc (\<Sum>b < length (Blocks G). length (succs G b)) + length work)"

lemma turn:
  assumes wf: "wf_cfg G" and inv: "solver_inv G TV (IN, OUT, work)" and "work \<noteq> []"
  shows "solver_inv G TV (process_block G TV (IN, OUT, work))"
    "solver_weight G TV (process_block G TV (IN, OUT, work)) < solver_weight G TV (IN, OUT, work)"
proof -
  let ?n = "length (Blocks G)" and ?K = "set (Trackable TV)"
  obtain b ws where w: "work = b # ws" using assms(3) by (cases work) auto
  define NI where "NI = block_in OUT (IN ! b) (Predecessors (Blocks G ! b))"
  define IN' where "IN' = (if same_map NI (IN ! b) then IN else IN[b := NI])"
  define Cur where "Cur = block_transfer TV (Statements (Blocks G ! b)) (IN' ! b)"
  note p = process_block_eq [OF IN'_def NI_def Cur_def, of ws]
  note t = turn_inv [OF wf inv [unfolded w] IN'_def NI_def Cur_def refl]
  note I = solver_invD [OF inv [unfolded w]]
  have b: "b < ?n" using I(3) by simp
  show "solver_inv G TV (process_block G TV (IN, OUT, work))"
    using t(3) [of ws] t(3) [of "ws @ succs G b"] unfolding w p by (cases "same_map Cur (OUT ! b)") simp_all
  show "solver_weight G TV (process_block G TV (IN, OUT, work)) < solver_weight G TV (IN, OUT, work)"
  proof (cases "same_map Cur (OUT ! b)")
    case True
    then show ?thesis unfolding w p by (simp add: solver_weight_def)
  next
    case False
    let ?f = "\<lambda>out c. unknowns ?K (out ! c)" and ?D = "\<Sum>c < ?n. length (succs G c)"
    from False have "unknowns ?K Cur < unknowns ?K (OUT ! b)"
      using t(1,2) [of "ws @ succs G b"] by (intro unknowns_less) (auto simp: same_map_iff)
    then have "(\<Sum>c < ?n. ?f (OUT[b := Cur]) c) < (\<Sum>c < ?n. ?f OUT c)"
      using b I(2) by (intro sum_strict_mono_ex1) (auto simp: nth_list_update)
    then have "Suc (\<Sum>c < ?n. ?f (OUT[b := Cur]) c) * Suc ?D \<le> (\<Sum>c < ?n. ?f OUT c) * Suc ?D"
      by (intro mult_le_mono1) simp
    moreover have "length (succs G b) \<le> ?D" using b by (intro member_le_sum) auto
    ultimately show ?thesis using False unfolding w p by (simp add: solver_weight_def)
  qed
qed

lemma solver_result:
  assumes "wf_cfg G"
  obtains IN OUT where "solveConstants G TV = Some IN" and "solver_inv G TV (IN, OUT, [])"
proof -
  let ?b = "\<lambda>(IN, OUT, work). work \<noteq> []"
  have "\<exists>t. while_option ?b (process_block G TV) (solver_start G) = Some t"
    by (rule measure_while_option_Some [where P = "solver_inv G TV" and f = "solver_weight G TV"])
      (use turn [OF assms] start_inv in \<open>auto split: prod.splits\<close>)
  then obtain IN OUT work where w: "while_option ?b (process_block G TV) (solver_start G) = Some (IN, OUT, work)"
    by (metis prod_cases3)
  have "solver_inv G TV (IN, OUT, work)"
    by (rule while_option_rule [OF _ w]) (use turn [OF assms] start_inv in \<open>auto split: prod.splits\<close>)
  moreover have "work = []" using while_option_stop [OF w] by simp
  ultimately show thesis using that w by (simp add: solveConstants_def)
qed

end
