(* ===== verification/ValueRange.thy ===== *)
theory ValueRange
  imports ConstSolver
begin

text \<open>
  What \<open>src/src/analysis/ValueRange.cpp\<close> does with the constants: \<open>runOnCFG\<close> reports an index that is
  certainly out of bounds, and \<open>markElidableChecks\<close> marks the operations whose run-time check can be
  left out. \<open>None\<close> would be a solver that does not end; the solver always does.
\<close>

section \<open>Certain out-of-bounds indices\<close>

datatype BoundsReport = ArrayBoundsError SourceLocation string int int

definition access_report :: "ExprAST \<Rightarrow> ConstMap \<Rightarrow> BoundsReport list" where
  "access_report N cur = (case N of
      ArrayAccessExpr loc base idx p \<Rightarrow>
        (case (evalConstExpr idx cur, base) of
           (Some iv, VariableExpr vloc name (Some S)) \<Rightarrow>
             (case VarArraySize S of
                Some sz \<Rightarrow> if sz > 0 \<and> (iv < - sz \<or> iv \<ge> sz) then [ArrayBoundsError loc name iv sz] else []
              | None \<Rightarrow> [])
         | _ \<Rightarrow> [])
    | _ \<Rightarrow> [])"

text \<open>The children the check goes on to, in its order.\<close>

definition access_children :: "ExprAST \<Rightarrow> ExprAST list" where
  "access_children N = (case N of
      BinaryExpr loc op l r p \<Rightarrow> [l, r]
    | UnaryExpr loc op x p \<Rightarrow> [x]
    | TryExpr loc x \<Rightarrow> [x]
    | AssignmentExpr loc l r \<Rightarrow> [r, l]
    | VarDeclExpr loc name init S \<Rightarrow> [init]
    | IfExpr brs els \<Rightarrow> concat (map (\<lambda>b. [br_cond b, br_body b]) brs) @ [els]
    | BlockExpr es \<Rightarrow> es
    | FuncCallExpr loc target callee args \<Rightarrow> args @ [callee]
    | ArrayAccessExpr loc b i p \<Rightarrow> [b, i]
    | ReturnExpr loc v \<Rightarrow> [v]
    | CompoundAssignmentExpr loc op l r p \<Rightarrow> [l, r]
    | PostfixExpr loc op x pre p \<Rightarrow> [x]
    | MethodCallExpr loc b m args ct \<Rightarrow> b # args
    | FieldAccessExpr loc b f \<Rightarrow> [b]
    | ArrayLiteralExpr loc es \<Rightarrow> es
    | ArrayDeclExpr loc n sz inits init S \<Rightarrow> inits @ [init]
    | CastExpr loc D x \<Rightarrow> [x]
    | _ \<Rightarrow> [])"

lemma access_children_sub: "set (access_children N) \<subseteq> set (all_children N)"
  by (cases N) (auto simp: access_children_def all_children_def)

function reportConstantOutOfBounds :: "ConstMap \<Rightarrow> ExprAST \<Rightarrow> BoundsReport list" where
  "reportConstantOutOfBounds cur N =
    access_report N cur @ concat (map (reportConstantOutOfBounds cur) (access_children N))"
  by pat_completeness auto
termination
  by (relation "measure (\<lambda>(cur, N). size N)") (auto intro: size_all_children subsetD [OF access_children_sub])

declare reportConstantOutOfBounds.simps [simp del]

section \<open>Provably safe operations\<close>

definition both_known :: "(int \<Rightarrow> int \<Rightarrow> bool) \<Rightarrow> ExprAST \<Rightarrow> ExprAST \<Rightarrow> ConstMap \<Rightarrow> bool" where
  "both_known safe l r Cur = (case (evalConstExpr l Cur, evalConstExpr r Cur) of
     (Some L, Some R) \<Rightarrow> safe L R | _ \<Rightarrow> False)"

definition op_safe :: "int \<Rightarrow> int \<Rightarrow> int \<Rightarrow> bool" where
  "op_safe op L R =
    (if op = ch CHR ''+'' \<or> op = ch CHR ''-'' \<or> op = ch CHR ''*'' then arithProvablySafe op L R
     else if op = TOK_LSHIFT then shlProvablySafe L R else False)"

definition index_safe :: "TrackedVars \<Rightarrow> ConstMap \<Rightarrow> ExprAST \<Rightarrow> ExprAST \<Rightarrow> bool" where
  "index_safe TV Cur base idx = (case (evalConstExpr idx Cur, base) of
     (Some Iv, VariableExpr loc name (Some S)) \<Rightarrow>
       (case VarArraySize S of
          Some Sz \<Rightarrow> VarId S \<notin> set (Tainted TV) \<and> Sz > 0 \<and> Iv \<ge> 0 \<and> Iv < Sz
        | None \<Rightarrow> False)
   | _ \<Rightarrow> False)"

definition neg_known :: "int \<Rightarrow> ExprAST \<Rightarrow> ConstMap \<Rightarrow> bool" where
  "neg_known op x Cur = (op = ch CHR ''-'' \<and>
     (case evalConstExpr x Cur of Some V \<Rightarrow> negProvablySafe V | None \<Rightarrow> False))"

definition step_known :: "int \<Rightarrow> ExprAST \<Rightarrow> ConstMap \<Rightarrow> bool" where
  "step_known op x Cur = (case evalConstExpr x Cur of
     Some V \<Rightarrow> if op = ch CHR ''+'' then arithProvablySafe (ch CHR ''+'') V 1
               else arithProvablySafe (ch CHR ''-'') V 1
   | None \<Rightarrow> False)"

text \<open>The tree after the walk: a flag that is set stays set.\<close>

function (sequential) markNode :: "TrackedVars \<Rightarrow> ConstMap \<Rightarrow> ExprAST \<Rightarrow> ExprAST" where
  "markNode TV Cur (ArrayAccessExpr loc b i p) =
     ArrayAccessExpr loc (markNode TV Cur b) (markNode TV Cur i) (p \<or> index_safe TV Cur b i)"
| "markNode TV Cur (BinaryExpr loc op l r p) =
     BinaryExpr loc op (markNode TV Cur l) (markNode TV Cur r) (p \<or> both_known (op_safe op) l r Cur)"
| "markNode TV Cur (UnaryExpr loc op x p) =
     UnaryExpr loc op (markNode TV Cur x) (p \<or> neg_known op x Cur)"
| "markNode TV Cur (TryExpr loc x) = TryExpr loc (markNode TV Cur x)"
| "markNode TV Cur (CompoundAssignmentExpr loc op l r p) =
     CompoundAssignmentExpr loc op (markNode TV Cur l) (markNode TV Cur r) (p \<or> both_known (op_safe op) l r Cur)"
| "markNode TV Cur (PostfixExpr loc op x pre p) =
     PostfixExpr loc op (markNode TV Cur x) pre (p \<or> step_known op x Cur)"
| "markNode TV Cur (AssignmentExpr loc l r) = AssignmentExpr loc (markNode TV Cur l) (markNode TV Cur r)"
| "markNode TV Cur (VarDeclExpr loc name init S) = VarDeclExpr loc name (markNode TV Cur init) S"
| "markNode TV Cur (IfExpr brs els) =
     IfExpr (map (\<lambda>b. CondBranch (br_loc b) (markNode TV Cur (br_cond b)) (markNode TV Cur (br_body b))) brs)
       (markNode TV Cur els)"
| "markNode TV Cur (BlockExpr es) = BlockExpr (map (markNode TV Cur) es)"
| "markNode TV Cur (FuncCallExpr loc t callee args) =
     FuncCallExpr loc t (markNode TV Cur callee) (map (markNode TV Cur) args)"
| "markNode TV Cur (ReturnExpr loc v) = ReturnExpr loc (markNode TV Cur v)"
| "markNode TV Cur (MethodCallExpr loc b m args ct) =
     MethodCallExpr loc (markNode TV Cur b) m (map (markNode TV Cur) args) ct"
| "markNode TV Cur (FieldAccessExpr loc b f) = FieldAccessExpr loc (markNode TV Cur b) f"
| "markNode TV Cur (ArrayLiteralExpr loc es) = ArrayLiteralExpr loc (map (markNode TV Cur) es)"
| "markNode TV Cur (ArrayDeclExpr loc n sz inits init S) =
     ArrayDeclExpr loc n sz (map (markNode TV Cur) inits) (markNode TV Cur init) S"
| "markNode TV Cur (CastExpr loc D x) = CastExpr loc D (markNode TV Cur x)"
| "markNode TV Cur N = N"
  by pat_completeness auto
termination
  by (relation "measure (\<lambda>(TV, Cur, N). size N)") (auto dest: size_branch size_in_list)

section \<open>The passes\<close>

text \<open>A block's statements in turn, each with the constants known before it.\<close>

fun with_constants :: "TrackedVars \<Rightarrow> (ExprAST \<Rightarrow> ConstMap \<Rightarrow> 'a) \<Rightarrow> ExprAST list \<Rightarrow> ConstMap \<Rightarrow> 'a list" where
  "with_constants TV f [] Cur = []"
| "with_constants TV f (Stmt # ss) Cur = f Stmt Cur # with_constants TV f ss (applyTransfer TV Stmt Cur)"

definition over_blocks :: "(ExprAST \<Rightarrow> ConstMap \<Rightarrow> TrackedVars \<Rightarrow> 'a) \<Rightarrow> ExprAST CFG \<Rightarrow> 'a list list option" where
  "over_blocks f G =
    (let TV = computeTrackedVars G in
     map_option (\<lambda>IN. map (\<lambda>i. with_constants TV (\<lambda>s Cur. f s Cur TV) (Statements (Blocks G ! i)) (IN ! i))
         [0..<length (Blocks G)])
       (solveConstants G TV))"

text \<open>\<open>runOnCFG\<close> stops at the first report, which is raised.\<close>

definition runOnCFG :: "ExprAST CFG \<Rightarrow> (BoundsReport + unit) option" where
  "runOnCFG G = (if Blocks G = [] then Some (Inr ()) else
     map_option (\<lambda>rs. case concat (concat rs) of [] \<Rightarrow> Inr () | r # _ \<Rightarrow> Inl r)
       (over_blocks (\<lambda>s Cur TV. reportConstantOutOfBounds Cur s) G))"

text \<open>\<open>markElidableChecks\<close> as the statements of every block after the walk.\<close>

definition markElidableChecks :: "ExprAST CFG \<Rightarrow> ExprAST list list option" where
  "markElidableChecks G = (if Blocks G = [] then Some [] else over_blocks (\<lambda>s Cur TV. markNode TV Cur s) G)"

end
