(* ===== verification/ConstSound.thy ===== *)
theory ConstSound
  imports ValueRange
begin

text \<open>
  What the constants mean for the runs of a function. \<open>evals\<close> gives every value an expression can have
  and every store it can leave, when nothing is known of the operations the analysis does not look at;
  \<open>arrives\<close> gives the stores in which control can reach a block. The theorems show that a known constant
  is the value in every run, so that a marked operation cannot fail and a reported index is out of
  bounds whenever it is evaluated. Values are 64-bit signed numbers; the conversions of narrower types
  are not modelled.
\<close>

section \<open>What a statement may change\<close>

text \<open>
  The children that are part of a statement's own evaluation: the run block of a \<open>recover\<close> is executed
  in the blocks the graph gives it.
\<close>

definition effect_children :: "ExprAST \<Rightarrow> ExprAST list" where
  "effect_children e = (case e of
      RecoverExpr loc w k p b \<Rightarrow> filter (\<lambda>c. c \<noteq> NoExpr) (w # (if k = Produce then [p] else []))
    | _ \<Rightarrow> children e)"

lemma effect_children_sub: "set (effect_children e) \<subseteq> set (children e)"
  by (cases e) (auto simp: effect_children_def children_def all_children_def)

text \<open>The variable a node itself assigns, declares or hands out by reference.\<close>

definition own_changes :: "ExprAST \<Rightarrow> nat list" where
  "own_changes e = (case e of
      AssignmentExpr loc l r \<Rightarrow> symbol_ids (target_symbol l)
    | CompoundAssignmentExpr loc op l r p \<Rightarrow> symbol_ids (target_symbol l)
    | PostfixExpr loc op x pre p \<Rightarrow> symbol_ids (target_symbol x)
    | AddressOfExpr loc x \<Rightarrow> symbol_ids (target_symbol x)
    | MethodCallExpr loc b m args ct \<Rightarrow> symbol_ids (target_symbol b)
    | _ \<Rightarrow> [])"

definition own_declares :: "ExprAST \<Rightarrow> nat list" where
  "own_declares e = (case e of
      VarDeclExpr loc name init S \<Rightarrow> symbol_ids S
    | ArrayDeclExpr loc n sz inits init S \<Rightarrow> symbol_ids S
    | _ \<Rightarrow> [])"

function parts :: "ExprAST \<Rightarrow> ExprAST list" where
  "parts e = e # concat (map parts (effect_children e))"
  by pat_completeness auto
termination
  by (relation "measure size") (auto intro: size_children subsetD [OF effect_children_sub])

declare parts.simps [simp del]

definition inner_parts :: "ExprAST \<Rightarrow> ExprAST list" where
  "inner_parts e = concat (map parts (effect_children e))"

lemma parts_inner: "parts e = e # inner_parts e"
  by (simp add: inner_parts_def parts.simps [of e])

definition changed_in :: "ExprAST list \<Rightarrow> nat list" where
  "changed_in ps = concat (map own_changes ps)"

definition declared_in :: "ExprAST list \<Rightarrow> nat list" where
  "declared_in ps = concat (map own_declares ps)"

definition changes :: "ExprAST \<Rightarrow> nat set" where
  "changes e = set (changed_in (parts e)) \<union> set (declared_in (parts e))"

text \<open>
  Variables that may change at any time once the function runs: those handed out by reference and those
  a deferred statement changes.
\<close>

definition shared_by :: "ExprAST \<Rightarrow> nat list" where
  "shared_by e = (case e of
      AddressOfExpr loc x \<Rightarrow> own_changes e
    | MethodCallExpr loc b m args ct \<Rightarrow> own_changes e
    | DeferExpr loc st \<Rightarrow> changed_in (parts e)
    | _ \<Rightarrow> [])"

definition shared :: "ExprAST CFG \<Rightarrow> nat list" where
  "shared G = concat (map (\<lambda>s. concat (map shared_by (parts s))) (cfg_statements G))"

definition declared :: "ExprAST CFG \<Rightarrow> nat list" where
  "declared G = concat (map declared_by (cfg_statements G))"

text \<open>
  Every declaration has a symbol of its own: what a statement declares, other than by being a declaration
  of a variable itself, no such declaration declares.
\<close>

definition other_declares :: "ExprAST \<Rightarrow> nat list" where
  "other_declares s = declared_in (if declared_by s = [] then parts s else inner_parts s)"

definition own_symbols :: "ExprAST CFG \<Rightarrow> bool" where
  "own_symbols G = list_all (\<lambda>s. list_all (\<lambda>x. x \<notin> set (declared G)) (other_declares s)) (cfg_statements G)"

section \<open>The scan accounts for every change\<close>

lemma own_changes_visited:
  assumes "x \<in> set (own_changes e)" and "\<not> root \<or> (\<exists>loc y. e = AddressOfExpr loc y) \<or> (\<exists>loc b m args ct. e = MethodCallExpr loc b m args ct)"
  shows "x \<in> set (tainted_by root e)"
proof -
  have "\<exists>v \<in> set (scan_visits root e). is_variable v \<and> x \<in> set (symbol_ids (target_symbol v))"
    using assms
    by (cases e)
      (auto simp: own_changes_def scan_visits_def write_target_def children_def all_children_def target_symbol_def
        symbol_ids_def split: ExprAST.splits)
  then obtain v where v: "v \<in> set (scan_visits root e)" "is_variable v" "x \<in> set (symbol_ids (target_symbol v))" by blast
  then have "x \<in> set (tainted_by False v)" by (simp add: tainted_by.simps [of False v])
  moreover have "\<not> is_variable e" using v(1) by (cases e) (auto simp: scan_visits_def children_def all_children_def)
  ultimately show ?thesis using v(1) by (auto simp: tainted_by.simps [of root e])
qed

lemma effect_children_visited: "c \<in> set (effect_children e) \<Longrightarrow> is_variable c \<or> c \<in> set (scan_visits root e)"
  by (cases e) (auto simp: effect_children_def scan_visits_def write_target_def read_only_def children_def
    all_children_def split: if_split_asm)

lemma variable_parts: "is_variable e \<Longrightarrow> parts e = [e] \<and> own_changes e = [] \<and> own_declares e = [] \<and> shared_by e = []"
  by (cases e) (simp_all add: parts.simps effect_children_def children_def all_children_def own_changes_def
    own_declares_def shared_by_def)

lemma parts_changes_tainted: "x \<in> set (changed_in (parts e)) \<Longrightarrow> x \<in> set (tainted_by False e)"
proof (induction "size e" arbitrary: e rule: less_induct)
  case less
  show ?case
  proof (cases "x \<in> set (own_changes e)")
    case True
    then show ?thesis by (rule own_changes_visited) simp
  next
    case False
    with less.prems obtain c where c: "c \<in> set (effect_children e)" "x \<in> set (changed_in (parts c))"
      by (subst (asm) parts.simps) (auto simp: changed_in_def)
    then have "x \<in> set (tainted_by False c)"
      using less.hyps size_children effect_children_sub by blast
    moreover have "\<not> is_variable c" using c(2) variable_parts [of c] by (auto simp: changed_in_def)
    moreover have "\<not> is_variable e" using c(1) by (cases e) (auto simp: effect_children_def children_def all_children_def)
    ultimately show ?thesis using c(1) effect_children_visited [of c e False] by (auto simp: tainted_by.simps [of False e])
  qed
qed

lemma inner_changes_tainted: "x \<in> set (changed_in (inner_parts e)) \<Longrightarrow> x \<in> set (tainted_by root e)"
proof -
  assume "x \<in> set (changed_in (inner_parts e))"
  then obtain c where c: "c \<in> set (effect_children e)" "x \<in> set (changed_in (parts c))"
    by (auto simp: inner_parts_def changed_in_def)
  then have "x \<in> set (tainted_by False c)" "\<not> is_variable c"
    using parts_changes_tainted variable_parts [of c] by (auto simp: changed_in_def)
  moreover have "\<not> is_variable e" using c(1) by (cases e) (auto simp: effect_children_def children_def all_children_def)
  ultimately show ?thesis using c(1) effect_children_visited [of c e root] by (auto simp: tainted_by.simps [of root e])
qed

lemma part_of_part: "p \<in> set (parts e) \<Longrightarrow> set (parts p) \<subseteq> set (parts e)"
proof (induction "size e" arbitrary: e rule: less_induct)
  case less
  show ?case
  proof (cases "p = e")
    case False
    with less.prems obtain c where c: "c \<in> set (effect_children e)" "p \<in> set (parts c)"
      by (subst (asm) parts.simps) auto
    then have "set (parts p) \<subseteq> set (parts c)" using less.hyps size_children effect_children_sub by blast
    with c(1) show ?thesis by (subst parts.simps [of e]) auto
  qed simp
qed

lemma inner_part_of_part: "p \<in> set (inner_parts e) \<Longrightarrow> set (parts p) \<subseteq> set (inner_parts e)"
  using part_of_part by (fastforce simp: inner_parts_def)

lemma shared_tainted:
  assumes "p \<in> set (parts s)" and "x \<in> set (shared_by p)"
  shows "x \<in> set (tainted_by True s)"
proof (cases "p = s")
  case True
  consider (own) "x \<in> set (own_changes s)"
      "(\<exists>loc y. s = AddressOfExpr loc y) \<or> (\<exists>loc b m args ct. s = MethodCallExpr loc b m args ct)"
    | (deferred) "x \<in> set (changed_in (parts s))" "own_changes s = []"
    using assms(2) unfolding True by (cases s) (auto simp: shared_by_def own_changes_def)
  then show ?thesis
  proof cases
    case own
    then show ?thesis using own_changes_visited by blast
  next
    case deferred
    then have "x \<in> set (changed_in (inner_parts s))" by (simp add: changed_in_def parts_inner)
    then show ?thesis by (rule inner_changes_tainted)
  qed
next
  case False
  with assms(1) have p: "p \<in> set (inner_parts s)" by (simp add: parts_inner)
  have "x \<in> set (own_changes p) \<or> x \<in> set (changed_in (parts p))"
    using assms(2) by (cases p) (auto simp: shared_by_def)
  then have "x \<in> set (changed_in (parts p))" by (auto simp: changed_in_def parts_inner)
  then have "x \<in> set (changed_in (inner_parts s))" using inner_part_of_part [OF p] by (auto simp: changed_in_def)
  then show ?thesis by (rule inner_changes_tainted)
qed

text \<open>The variables the analysis tracks, and what the scan promises of them.\<close>

abbreviation tracked :: "ExprAST CFG \<Rightarrow> nat set" where
  "tracked G \<equiv> set (Trackable (computeTrackedVars G))"

lemma tracked_iff: "x \<in> tracked G \<longleftrightarrow>
    x \<in> set (declared G) \<and> (\<forall>s \<in> set (cfg_statements G). x \<notin> set (tainted_by True s))"
  by (auto simp: computeTrackedVars_def declared_def Let_def)

lemma tracked_not_shared: "x \<in> tracked G \<Longrightarrow> x \<notin> set (shared G)"
  using shared_tainted by (fastforce simp: tracked_iff shared_def)

lemma tracked_inner:
  assumes "x \<in> tracked G" and "own_symbols G" and "s \<in> set (cfg_statements G)" and "p \<in> set (inner_parts s)"
  shows "x \<notin> changes p"
proof
  assume "x \<in> changes p"
  then have "x \<in> set (changed_in (inner_parts s)) \<or> x \<in> set (other_declares s)"
    using inner_part_of_part [OF assms(4)]
    by (auto simp: changes_def changed_in_def declared_in_def other_declares_def parts_inner [of s])
  then show False
    using assms(1,2,3) inner_changes_tainted [of x s True] by (auto simp: tracked_iff own_symbols_def list_all_iff)
qed

section \<open>Runs\<close>

type_synonym store = "nat \<Rightarrow> int"

definition same_outside :: "nat set \<Rightarrow> store \<Rightarrow> store \<Rightarrow> bool" where
  "same_outside X \<sigma> \<sigma>' \<longleftrightarrow> (\<forall>x. x \<notin> X \<longrightarrow> \<sigma>' x = \<sigma> x)"

definition arith_op :: "int \<Rightarrow> bool" where
  "arith_op op \<longleftrightarrow> op \<in> {ch CHR ''+'', ch CHR ''-'', ch CHR ''*'', ch CHR ''/''}"

text \<open>Everything else may have any value and change what it assigns or what is shared.\<close>

fun opaque :: "ExprAST \<Rightarrow> bool" where
  "opaque (NumberExpr isInteger n) = (\<not> isInteger)"
| "opaque (VariableExpr loc x S) = (S = None)"
| "opaque (BinaryExpr loc op l r p) = (\<not> arith_op op)"
| "opaque (AssignmentExpr loc l r) = False"
| "opaque _ = True"

text \<open>
  \<open>evals shared \<sigma> e v \<sigma>'\<close>: from store \<open>\<sigma>\<close>, \<open>e\<close> can have the value \<open>v\<close> and leave \<open>\<sigma>'\<close>. Arithmetic is
  checked: an operation whose result does not fit has no value, the program stops there. The target of an
  assignment may be evaluated before or after its value.
\<close>

inductive evals :: "nat set \<Rightarrow> store \<Rightarrow> ExprAST \<Rightarrow> int \<Rightarrow> store \<Rightarrow> bool" for sh where
  evals_number: "evals sh \<sigma> (NumberExpr True n) (getIntVal n) \<sigma>"
| evals_variable: "fits 64 (\<sigma> (VarId S)) \<Longrightarrow> evals sh \<sigma> (VariableExpr loc x (Some S)) (\<sigma> (VarId S)) \<sigma>"
| evals_arith: "arith_op op \<Longrightarrow> evals sh \<sigma> l a \<sigma>1 \<Longrightarrow> evals sh \<sigma>1 r b \<sigma>2 \<Longrightarrow> exact_result op a b = Some c \<Longrightarrow>
    fits 64 c \<Longrightarrow> evals sh \<sigma> (BinaryExpr loc op l r p) c \<sigma>2"
| evals_assign: "evals sh \<sigma> r v \<sigma>1 \<Longrightarrow>
    evals sh \<sigma> (AssignmentExpr loc (VariableExpr vl x (Some S)) r) v (\<sigma>1(VarId S := v))"
| evals_store: "target_symbol l = None \<Longrightarrow> same_outside (changes l \<union> sh) \<sigma> \<sigma>0 \<Longrightarrow> evals sh \<sigma>0 r v \<sigma>1 \<Longrightarrow>
    same_outside (changes l \<union> sh) \<sigma>1 \<sigma>' \<Longrightarrow> evals sh \<sigma> (AssignmentExpr loc l r) v \<sigma>'"
| evals_other: "opaque e \<Longrightarrow> fits 64 v \<Longrightarrow> same_outside (changes e \<union> sh) \<sigma> \<sigma>' \<Longrightarrow> evals sh \<sigma> e v \<sigma>'"

inductive_cases evals_numberE: "evals sh \<sigma> (NumberExpr i n) v \<sigma>'"
inductive_cases evals_variableE: "evals sh \<sigma> (VariableExpr loc x S) v \<sigma>'"
inductive_cases evals_binaryE: "evals sh \<sigma> (BinaryExpr loc op l r p) v \<sigma>'"
inductive_cases evals_assignE [consumes 1, case_names variable store other]: "evals sh \<sigma> (AssignmentExpr loc l r) v \<sigma>'"

text \<open>A whole statement: a declaration gives its variable the value of its initialiser.\<close>

inductive exec_stmt :: "nat set \<Rightarrow> store \<Rightarrow> ExprAST \<Rightarrow> store \<Rightarrow> bool" for sh where
  exec_declare: "evals sh \<sigma> init v \<sigma>1 \<Longrightarrow> exec_stmt sh \<sigma> (VarDeclExpr loc name init (Some S)) (\<sigma>1(VarId S := v))"
| exec_other: "(\<And>loc name init S. e \<noteq> VarDeclExpr loc name init (Some S)) \<Longrightarrow> evals sh \<sigma> e v \<sigma>1 \<Longrightarrow>
    same_outside sh \<sigma>1 \<sigma>' \<Longrightarrow> exec_stmt sh \<sigma> e \<sigma>'"

fun exec_stmts :: "nat set \<Rightarrow> store \<Rightarrow> ExprAST list \<Rightarrow> store \<Rightarrow> bool" where
  "exec_stmts sh \<sigma> [] \<sigma>' = (\<sigma>' = \<sigma>)"
| "exec_stmts sh \<sigma> (s # ss) \<sigma>' = (\<exists>\<sigma>1. exec_stmt sh \<sigma> s \<sigma>1 \<and> exec_stmts sh \<sigma>1 ss \<sigma>')"

text \<open>The stores in which control can reach a block: any store at the entry.\<close>

inductive arrives :: "nat set \<Rightarrow> ExprAST CFG \<Rightarrow> nat \<Rightarrow> store \<Rightarrow> bool" for sh G where
  arrives_entry: "EntryBlock G = Some e \<Longrightarrow> arrives sh G e \<sigma>"
| arrives_edge: "arrives sh G a \<sigma> \<Longrightarrow> exec_stmts sh \<sigma> (Statements (Blocks G ! a)) \<sigma>' \<Longrightarrow> (a, b) \<in> edges G \<Longrightarrow>
    arrives sh G b \<sigma>'"

section \<open>Known constants are the values\<close>

definition agrees :: "store \<Rightarrow> ConstMap \<Rightarrow> bool" where
  "agrees \<sigma> M \<longleftrightarrow> (\<forall>x c. map_of M x = Some (Some c) \<longrightarrow> \<sigma> x = c)"

lemma same_outside_trans: "same_outside X \<sigma> \<sigma>1 \<Longrightarrow> same_outside Y \<sigma>1 \<sigma>2 \<Longrightarrow> X \<union> Y \<subseteq> Z \<Longrightarrow> same_outside Z \<sigma> \<sigma>2"
  unfolding same_outside_def by (metis UnCI subsetD)

lemma same_outside_refl [simp]: "same_outside X \<sigma> \<sigma>"
  by (simp add: same_outside_def)

lemma changes_sub: "c \<in> set (effect_children e) \<Longrightarrow> changes c \<subseteq> changes e"
  by (auto simp: changes_def changed_in_def declared_in_def parts.simps [of e])

lemma changes_own: "x \<in> set (own_changes e) \<Longrightarrow> x \<in> changes e"
  by (auto simp: changes_def changed_in_def parts.simps [of e])

lemma changes_binary: "changes l \<subseteq> changes (BinaryExpr loc op l r p)" "changes r \<subseteq> changes (BinaryExpr loc op l r p)"
  using changes_sub [of l "BinaryExpr loc op l r p"] changes_sub [of r "BinaryExpr loc op l r p"]
  by (cases "l = NoExpr"; cases "r = NoExpr"; auto simp: effect_children_def children_def all_children_def changes_def
    parts.simps [of NoExpr] changed_in_def declared_in_def own_changes_def own_declares_def)+

lemma changes_assign: "changes l \<subseteq> changes (AssignmentExpr loc l r)" "changes r \<subseteq> changes (AssignmentExpr loc l r)"
  using changes_sub [of l "AssignmentExpr loc l r"] changes_sub [of r "AssignmentExpr loc l r"]
  by (cases "l = NoExpr"; cases "r = NoExpr"; auto simp: effect_children_def children_def all_children_def changes_def
    parts.simps [of NoExpr] changed_in_def declared_in_def own_changes_def own_declares_def)+

lemma evals_frame: "evals sh \<sigma> e v \<sigma>' \<Longrightarrow> same_outside (changes e \<union> sh) \<sigma> \<sigma>' \<and> fits 64 v"
proof (induction rule: evals.induct)
  case (evals_number \<sigma> n)
  show ?case using fits_sint [of "word_of_int n :: 64 word"] by (simp add: getIntVal_def)
next
  case (evals_arith op \<sigma> l a \<sigma>1 r b \<sigma>2 c loc p)
  then show ?case using changes_binary [of l loc op r p] changes_binary [of r loc op l p]
    by (auto intro!: same_outside_trans [of "changes l \<union> sh" \<sigma> \<sigma>1 "changes r \<union> sh" \<sigma>2] dest: subsetD [OF changes_binary(2)])
next
  case (evals_assign \<sigma> r v \<sigma>1 loc vl x S)
  have "VarId S \<in> changes (AssignmentExpr loc (VariableExpr vl x (Some S)) r)"
    by (rule changes_own) (simp add: own_changes_def target_symbol_def symbol_ids_def)
  with evals_assign show ?case using changes_assign(2) [of r loc "VariableExpr vl x (Some S)"]
    by (auto simp: same_outside_def)
next
  case (evals_store l \<sigma> \<sigma>0 r v \<sigma>1 \<sigma>' loc)
  let ?e = "AssignmentExpr loc l r"
  have "same_outside (changes ?e \<union> sh) \<sigma> \<sigma>1"
    using evals_store changes_assign [where loc = loc and l = l and r = r] by (auto intro: same_outside_trans)
  then show ?case using evals_store changes_assign(1) [of l loc r] by (auto intro: same_outside_trans)
qed simp_all

lemma agrees_frame: "agrees \<sigma> M \<Longrightarrow> same_outside X \<sigma> \<sigma>' \<Longrightarrow> dom (map_of M) \<inter> X = {} \<Longrightarrow> agrees \<sigma>' M"
  by (fastforce simp: agrees_def same_outside_def)

lemma opaque_unknown: "opaque e \<Longrightarrow> evalConstExpr e M = None"
proof (induction e rule: opaque.induct)
  case (3 loc op l r p)
  then show ?case by (auto simp: arith_op_def binary_const_def Let_def split: option.split)
qed (simp_all add: lookup_const_def)

lemma known_value:
  assumes "evals sh \<sigma> e v \<sigma>'" and "agrees \<sigma> M" and "dom (map_of M) \<inter> (changes e \<union> sh) = {}"
    and "evalConstExpr e M = Some c"
  shows "v = c"
  using assms
proof (induction arbitrary: c rule: evals.induct)
  case (evals_arith op \<sigma> l a \<sigma>1 r b \<sigma>2 x loc p)
  then obtain L R where lr: "evalConstExpr l M = Some L" "evalConstExpr r M = Some R" "binary_const op L R = Some c"
    by (auto split: option.splits)
  let ?e = "BinaryExpr loc op l r p"
  note sub = changes_binary [where loc = loc and op = op and l = l and r = r and p = p]
  have disj: "dom (map_of M) \<inter> (changes l \<union> sh) = {}" "dom (map_of M) \<inter> (changes r \<union> sh) = {}"
    using evals_arith.prems(2) sub by blast+
  have a: "a = L" using evals_arith.IH(1) [OF evals_arith.prems(1) disj(1) lr(1)] .
  note fl = evals_frame [OF evals_arith.hyps(2)] and fr = evals_frame [OF evals_arith.hyps(3)]
  have "agrees \<sigma>1 M" using agrees_frame [OF evals_arith.prems(1) conjunct1 [OF fl] disj(1)] .
  from evals_arith.IH(2) [OF this disj(2) lr(2)] have "b = R" .
  with a lr(3) fl fr evals_arith.hyps(4) show ?case
    using binary_const_exact [of L R op] by (simp split: if_split_asm)
next
  case (evals_assign \<sigma> r v \<sigma>1 loc vl x S)
  then show ?case using changes_assign(2) [of r loc "VariableExpr vl x (Some S)"] by fastforce
next
  case (evals_store l \<sigma> \<sigma>0 r v \<sigma>1 \<sigma>' loc)
  note sub = changes_assign [where loc = loc and l = l and r = r]
  have disj: "dom (map_of M) \<inter> (changes l \<union> sh) = {}" "dom (map_of M) \<inter> (changes r \<union> sh) = {}"
    using evals_store.prems(2) sub by blast+
  have "agrees \<sigma>0 M" using agrees_frame [OF evals_store.prems(1) evals_store.hyps(2) disj(1)] .
  then show ?case using evals_store.IH disj(2) evals_store.prems(3) by simp
next
  case (evals_other e v \<sigma> \<sigma>')
  then show ?case by (simp add: opaque_unknown)
qed (auto simp: agrees_def lookup_const_def split: option.splits)

lemma evals_inner_frame:
  assumes "evals sh \<sigma> e v \<sigma>'" and "keys_in (tracked G) M" and "tracked G \<inter> sh = {}"
    and "own_symbols G" and "s \<in> set (cfg_statements G)" and "e \<in> set (inner_parts s)"
  shows "dom (map_of M) \<inter> (changes e \<union> sh) = {}"
  using tracked_inner [OF _ assms(4,5,6)] assms(2,3) by (auto simp: keys_in_def)

section \<open>Statements and blocks\<close>

text \<open>A tracked variable that a statement changes is the target the transfer function sees.\<close>

lemma tracked_change:
  assumes "x \<in> tracked G" and "own_symbols G" and "s \<in> set (cfg_statements G)" and "x \<in> changes s"
    and "declared_by s = []"
  shows "x \<in> set (own_changes s)" "\<And>loc y. s \<noteq> AddressOfExpr loc y" "\<And>loc b m args ct. s \<noteq> MethodCallExpr loc b m args ct"
proof -
  have "x \<notin> set (other_declares s)" using assms(1,2,3) by (auto simp: own_symbols_def list_all_iff tracked_iff)
  then have d: "x \<notin> set (declared_in (parts s))" using assms(5) by (simp add: other_declares_def)
  have t: "x \<notin> set (tainted_by True s)" using assms(1,3) by (simp add: tracked_iff)
  with d assms(4) show own: "x \<in> set (own_changes s)"
    using inner_changes_tainted [of x s True] by (auto simp: changes_def parts_inner changed_in_def)
  note visited = own_changes_visited [OF own, of True]
  show "s \<noteq> AddressOfExpr loc y" for loc y using t visited by auto
  show "s \<noteq> MethodCallExpr loc b m args ct" for loc b m args ct using t visited by auto
qed

lemma child_frame:
  assumes "keys_in (tracked G) M" and "tracked G \<inter> sh = {}" and "own_symbols G" and "s \<in> set (cfg_statements G)"
    and "c = NoExpr \<or> c \<in> set (effect_children s)"
  shows "dom (map_of M) \<inter> (changes c \<union> sh) = {}"
proof (cases "c = NoExpr")
  case True
  have "changes NoExpr = {}" by (simp add: changes_def parts.simps [of NoExpr] effect_children_def children_def
      all_children_def changed_in_def declared_in_def own_changes_def own_declares_def)
  with True show ?thesis using assms(1,2) by (auto simp: keys_in_def)
next
  case False
  with assms(5) have "c \<in> set (inner_parts s)"
    unfolding inner_parts_def by (auto intro!: bexI [of _ c] simp: parts_inner [of c])
  from tracked_inner [OF _ assms(3,4) this] assms(1,2) show ?thesis by (auto simp: keys_in_def)
qed

lemma kept_value:
  assumes "\<And>loc name init S. s \<noteq> VarDeclExpr loc name init (Some S)" and "\<And>loc l r. s \<noteq> AssignmentExpr loc l r"
    and "\<And>loc y. s \<noteq> AddressOfExpr loc y" and "\<And>loc b m args ct. s \<noteq> MethodCallExpr loc b m args ct"
    and m: "map_of (applyTransfer TV s M) x = Some (Some c)" and x: "x \<in> set (Trackable TV)"
  shows "x \<notin> set (own_changes s) \<and> map_of M x = Some (Some c)"
proof -
  have "own_changes s = [] \<and> applyTransfer TV s M = M \<or>
      (\<exists>S. own_changes s = symbol_ids S \<and> applyTransfer TV s M = set_const TV S None M)"
  proof (cases s)
    case (VarDeclExpr loc name init S)
    then show ?thesis using assms(1) by (cases S) (simp_all add: own_changes_def applyTransfer_def set_const_def)
  qed (use assms(2,3,4) in \<open>simp_all add: own_changes_def applyTransfer_def\<close>, blast+)
  then show ?thesis
  proof (elim disjE exE conjE)
    fix S assume S: "own_changes s = symbol_ids S" "applyTransfer TV s M = set_const TV S None M"
    show ?thesis
    proof (cases S)
      case (Some t)
      then show ?thesis using m x S by (cases "x = VarId t") (auto simp: set_const_def symbol_ids_def update_conv' split: if_splits)
    qed (use m S in \<open>simp add: set_const_def symbol_ids_def\<close>)
  qed (use m in simp)
qed

lemma agrees_set:
  assumes "agrees \<sigma> M" and "\<And>c. u = Some c \<Longrightarrow> v = c" and "keys_in (set (Trackable TV)) M"
  shows "agrees (\<sigma>(VarId S := v)) (set_const TV (Some S) u M)"
  using assms by (auto simp: agrees_def set_const_def update_conv' keys_in_def)

lemma transfer_agrees:
  assumes ex: "exec_stmt sh \<sigma> s \<sigma>'" and ag: "agrees \<sigma> M" and k: "keys_in (tracked G) M"
    and sh: "tracked G \<inter> sh = {}" and own: "own_symbols G" and s: "s \<in> set (cfg_statements G)"
  shows "agrees \<sigma>' (applyTransfer (computeTrackedVars G) s M)"
proof -
  let ?TV = "computeTrackedVars G"
  note frame = child_frame [OF k sh own s]
  have k': "keys_in (tracked G) (applyTransfer ?TV s M)"
    using keys_transfer [OF k, of "[s]"] by (simp add: block_transfer_def)
  show ?thesis using ex
  proof cases
    case (exec_declare init v \<sigma>1 loc name S)
    have f: "dom (map_of M) \<inter> (changes init \<union> sh) = {}"
      by (rule frame) (auto simp: exec_declare effect_children_def children_def all_children_def)
    have "agrees \<sigma>1 M" by (rule agrees_frame [OF ag conjunct1 [OF evals_frame [OF exec_declare(3)]] f])
    moreover have "v = c" if "evalConstExpr init M = Some c" for c by (rule known_value [OF exec_declare(3) ag f that])
    ultimately show ?thesis using k unfolding exec_declare(1,2) applyTransfer_def by (auto intro: agrees_set)
  next
    case (exec_other v \<sigma>1)
    have "agrees \<sigma>1 (applyTransfer ?TV s M)"
    proof (cases "\<exists>loc l r. s = AssignmentExpr loc l r")
      case True
      then obtain loc l r where e: "s = AssignmentExpr loc l r" by blast
      have f: "dom (map_of M) \<inter> (changes c \<union> sh) = {}" if "c = l \<or> c = r" for c
        by (rule frame) (use that in \<open>auto simp: e effect_children_def children_def all_children_def\<close>)
      have fr: "dom (map_of M) \<inter> (changes r \<union> sh) = {}" and fl: "dom (map_of M) \<inter> (changes l \<union> sh) = {}"
        using f by blast+
      from exec_other(2) [unfolded e]
      consider (variable) \<sigma>2 vl x S where "l = VariableExpr vl x (Some S)" "\<sigma>1 = \<sigma>2(VarId S := v)" "evals sh \<sigma> r v \<sigma>2"
        | (store) \<sigma>0 \<sigma>2 where "target_symbol l = None" "same_outside (changes l \<union> sh) \<sigma> \<sigma>0" "evals sh \<sigma>0 r v \<sigma>2"
            "same_outside (changes l \<union> sh) \<sigma>2 \<sigma>1"
        by (rule evals_assignE) simp_all
      then show ?thesis
      proof cases
        case variable
        have "agrees \<sigma>2 M" by (rule agrees_frame [OF ag conjunct1 [OF evals_frame [OF variable(3)]] fr])
        moreover have "v = c" if "evalConstExpr r M = Some c" for c by (rule known_value [OF variable(3) ag fr that])
        ultimately show ?thesis using k variable by (auto simp: e applyTransfer_def target_symbol_def intro: agrees_set)
      next
        case store
        have "agrees \<sigma>0 M" by (rule agrees_frame [OF ag store(2) fl])
        then have "agrees \<sigma>2 M" by (rule agrees_frame [OF _ conjunct1 [OF evals_frame [OF store(3)]] fr])
        then have "agrees \<sigma>1 M" by (rule agrees_frame [OF _ store(4) fl])
        then show ?thesis using store(1) by (simp add: e applyTransfer_def set_const_def)
      qed
    next
      case False
      have "declared_by s = []"
        using exec_other(1) by (cases s) (auto simp: declared_by_def symbol_ids_def split: option.split)
      note change = tracked_change [OF _ own s _ this]
      have out: "same_outside (changes s \<union> sh) \<sigma> \<sigma>1" using evals_frame [OF exec_other(2)] by simp
      have "\<sigma>1 x = c" if "map_of (applyTransfer ?TV s M) x = Some (Some c)" for x c
      proof -
        have x: "x \<in> tracked G" using k' that by (auto simp: keys_in_def)
        have "x \<notin> changes s \<and> map_of M x = Some (Some c)"
        proof (cases "(\<exists>loc y. s = AddressOfExpr loc y) \<or> (\<exists>loc b m args ct. s = MethodCallExpr loc b m args ct)")
          case True
          then have "applyTransfer ?TV s M = M" by (auto simp: applyTransfer_def)
          moreover have "x \<notin> changes s" using True change(2,3) [OF x] by blast
          ultimately show ?thesis using that by simp
        next
          case nr: False
          have "x \<notin> set (own_changes s) \<and> map_of M x = Some (Some c)"
            by (rule kept_value [OF _ _ _ _ that]) (use exec_other(1) False nr x in auto)
          then show ?thesis using change(1) [OF x] by blast
        qed
        moreover have "x \<notin> sh" using x sh by blast
        ultimately show ?thesis using out ag by (auto simp: same_outside_def agrees_def)
      qed
      then show ?thesis by (simp add: agrees_def)
    qed
    then show ?thesis by (rule agrees_frame [OF _ exec_other(3)]) (use k' sh in \<open>auto simp: keys_in_def\<close>)
  qed
qed

end
