(* ===== verification/ConstRuns.thy ===== *)
theory ConstRuns
  imports ConstSound CfgReport
begin

text \<open>
  The analysis of a whole function: the solver always answers with a fixed point, a known constant is
  the value in every run, a marked operation cannot fail, and a reported index is out of bounds in every
  run that evaluates it.
\<close>

section \<open>Blocks and their runs\<close>

lemma exec_stmts_agree:
  assumes "exec_stmts sh \<sigma> ss \<sigma>'" and "agrees \<sigma> M" and "keys_in (tracked G) M"
    and "tracked G \<inter> sh = {}" and "own_symbols G" and "set ss \<subseteq> set (cfg_statements G)"
  shows "agrees \<sigma>' (block_transfer (computeTrackedVars G) ss M)"
  using assms
proof (induction ss arbitrary: \<sigma> M)
  case (Cons s ss)
  then obtain \<sigma>1 where s: "exec_stmt sh \<sigma> s \<sigma>1" and ss: "exec_stmts sh \<sigma>1 ss \<sigma>'" by auto
  have "agrees \<sigma>1 (applyTransfer (computeTrackedVars G) s M)"
    by (rule transfer_agrees [OF s Cons.prems(2,3,4,5)]) (use Cons.prems(6) in simp)
  moreover have "keys_in (tracked G) (applyTransfer (computeTrackedVars G) s M)"
    using keys_transfer [OF Cons.prems(3), of "[s]"] by (simp add: block_transfer_def)
  ultimately show ?case using Cons.IH [OF ss] Cons.prems(4,5,6) by (simp add: block_transfer_def)
qed (simp add: block_transfer_def)

lemma fold_join_value:
  "map_of (fold (\<lambda>q M. join_const M (OUT ! q)) ps A) x = Some (Some c) \<Longrightarrow>
     map_of A x = Some (Some c) \<and> (\<forall>q \<in> set ps. map_of (OUT ! q) x = Some (Some c))"
proof (induction ps arbitrary: A)
  case (Cons p ps)
  from Cons.IH [of "join_const A (OUT ! p)"] Cons.prems show ?case
    by (auto simp: map_of_join split: if_split_asm)
qed simp

lemma join_agrees:
  assumes "p \<in> set ps" and "agrees \<sigma> (OUT ! p)"
  shows "agrees \<sigma> (block_in OUT A ps)"
  using assms by (cases ps) (auto simp: block_in_def agrees_def dest!: fold_join_value)

text \<open>
  What the theorems ask of a graph: it is well formed, nothing leads back to its entry, each declaration
  has its own symbol, and only what is handed out by reference or changed by a deferred statement can
  change behind the analysis.
\<close>

definition analysable :: "nat set \<Rightarrow> ExprAST CFG \<Rightarrow> bool" where
  "analysable sh G \<longleftrightarrow> wf_cfg G \<and> Predecessors (Blocks G ! the (EntryBlock G)) = [] \<and> own_symbols G \<and>
     sh \<inter> set (declared G) \<subseteq> set (shared G)"

text \<open>The store and the constants before statement \<open>i\<close> of block \<open>b\<close>.\<close>

definition before :: "nat set \<Rightarrow> ExprAST CFG \<Rightarrow> nat \<Rightarrow> nat \<Rightarrow> store \<Rightarrow> bool" where
  "before sh G b i \<sigma> \<longleftrightarrow> (\<exists>\<sigma>0. arrives sh G b \<sigma>0 \<and> exec_stmts sh \<sigma>0 (take i (Statements (Blocks G ! b))) \<sigma>)"

definition known_before :: "ExprAST CFG \<Rightarrow> ConstMap list \<Rightarrow> nat \<Rightarrow> nat \<Rightarrow> ConstMap" where
  "known_before G IN b i = block_transfer (computeTrackedVars G) (take i (Statements (Blocks G ! b))) (IN ! b)"

lemma analysableD:
  assumes "analysable sh G"
  shows "wf_cfg G" "own_symbols G" "tracked G \<inter> sh = {}" "EntryBlock G = Some e \<Longrightarrow> Predecessors (Blocks G ! e) = []"
proof -
  from assms show "wf_cfg G" "own_symbols G" "EntryBlock G = Some e \<Longrightarrow> Predecessors (Blocks G ! e) = []"
    by (simp_all add: analysable_def)
  show "tracked G \<inter> sh = {}" using assms tracked_not_shared by (fastforce simp: analysable_def tracked_iff)
qed

lemma solution_inv:
  assumes "wf_cfg G" and "solveConstants G TV = Some IN"
  obtains OUT where "solver_inv G TV (IN, OUT, [])"
  using solver_result [OF assms(1), of TV] assms(2) by (metis option.inject)

lemma block_statements: "b < length (Blocks G) \<Longrightarrow> set (Statements (Blocks G ! b)) \<subseteq> set (cfg_statements G)"
  by (auto simp: cfg_statements_def intro: bexI [OF _ nth_mem])

lemma arrives_agrees:
  assumes "arrives sh G b \<sigma>" and "analysable sh G" and sol: "solveConstants G (computeTrackedVars G) = Some IN"
  shows "b < length (Blocks G) \<and> agrees \<sigma> (IN ! b)"
proof -
  note A = analysableD [OF assms(2)]
  obtain OUT where inv: "solver_inv G (computeTrackedVars G) (IN, OUT, [])" by (rule solution_inv [OF A(1) sol])
  note I = solver_invD [OF inv]
  show ?thesis using assms(1)
  proof (induction rule: arrives.induct)
    case (arrives_entry e \<sigma>)
    have "e < length (Blocks G)" using A(1) arrives_entry by (auto simp: wf_cfg_def)
    with I(6) A(4) arrives_entry show ?case by (simp add: agrees_def)
  next
    case (arrives_edge a \<sigma> \<sigma>' b)
    have b: "b < length (Blocks G)" and ab: "a \<in> set (Predecessors (Blocks G ! b))"
      using arrives_edge A(1) succs_inside [OF A(1), of a] wf_pred_iff [OF A(1), of a b] by (auto simp: edges_def)
    have a: "a < length (Blocks G)" using arrives_edge by simp
    have "agrees \<sigma>' (block_transfer (computeTrackedVars G) (Statements (Blocks G ! a)) (IN ! a))"
      using exec_stmts_agree [OF arrives_edge.hyps(2)] arrives_edge.IH I(4) [OF a] A(2,3) block_statements [OF a] by blast
    then have "agrees \<sigma>' (OUT ! a)" using I(9) [OF a] by (simp add: stable_def same_map_iff agrees_def)
    then have "agrees \<sigma>' (block_in OUT (IN ! b) (Predecessors (Blocks G ! b)))" by (rule join_agrees [OF ab])
    with I(9) [OF b] b show ?case by (simp add: stable_def same_map_iff agrees_def)
  qed
qed

lemma before_agrees:
  assumes "before sh G b i \<sigma>" and "analysable sh G" and sol: "solveConstants G (computeTrackedVars G) = Some IN"
  shows "agrees \<sigma> (known_before G IN b i) \<and> keys_in (tracked G) (known_before G IN b i)"
proof -
  note A = analysableD [OF assms(2)]
  obtain OUT where inv: "solver_inv G (computeTrackedVars G) (IN, OUT, [])" by (rule solution_inv [OF A(1) sol])
  obtain \<sigma>0 where b: "arrives sh G b \<sigma>0" "exec_stmts sh \<sigma>0 (take i (Statements (Blocks G ! b))) \<sigma>"
    using assms(1) by (auto simp: before_def)
  note r = arrives_agrees [OF b(1) assms(2) sol]
  have k: "keys_in (tracked G) (IN ! b)" using solver_invD(4) [OF inv] r by simp
  have "agrees \<sigma> (known_before G IN b i)" unfolding known_before_def
    by (rule exec_stmts_agree [OF b(2) _ k A(3,2)]) (use r block_statements in \<open>auto dest: in_set_takeD\<close>)
  with keys_transfer [OF k] show ?thesis by (simp add: known_before_def)
qed

section \<open>Parts of a statement\<close>

text \<open>While a statement evaluates its parts, the tracked variables keep the values they had before it.\<close>

definition during :: "nat set \<Rightarrow> ExprAST CFG \<Rightarrow> nat \<Rightarrow> nat \<Rightarrow> store \<Rightarrow> bool" where
  "during sh G b i \<sigma> \<longleftrightarrow> (\<exists>\<sigma>1. before sh G b i \<sigma>1 \<and> same_outside (- tracked G) \<sigma>1 \<sigma>)"

lemma during_agrees:
  assumes "during sh G b i \<sigma>" and "analysable sh G" and "solveConstants G (computeTrackedVars G) = Some IN"
  shows "agrees \<sigma> (known_before G IN b i)" "keys_in (tracked G) (known_before G IN b i)"
proof -
  obtain \<sigma>1 where b: "before sh G b i \<sigma>1" "same_outside (- tracked G) \<sigma>1 \<sigma>" using assms(1) by (auto simp: during_def)
  note k = before_agrees [OF b(1) assms(2,3)]
  then show "keys_in (tracked G) (known_before G IN b i)" by simp
  show "agrees \<sigma> (known_before G IN b i)"
    by (rule agrees_frame [OF conjunct1 [OF k] b(2)]) (use k in \<open>auto simp: keys_in_def\<close>)
qed

lemma part_child_frame:
  assumes "keys_in (tracked G) M" and "tracked G \<inter> sh = {}" and "own_symbols G" and "s \<in> set (cfg_statements G)"
    and n: "n \<in> set (parts s)" and c: "c = NoExpr \<or> c \<in> set (effect_children n)"
  shows "dom (map_of M) \<inter> (changes c \<union> sh) = {}"
proof (cases "n = s \<or> c = NoExpr")
  case True
  with assms(5,6) show ?thesis using child_frame [OF assms(1-4)] by blast
next
  case False
  with n have "n \<in> set (inner_parts s)" by (simp add: parts_inner)
  moreover have "c \<in> set (parts n)" using c False by (auto simp: parts.simps [of n] parts_inner [of c] intro!: bexI [of _ c])
  ultimately have "c \<in> set (inner_parts s)" using inner_part_of_part by blast
  from tracked_inner [OF _ assms(3,4) this] assms(1,2) show ?thesis by (auto simp: keys_in_def)
qed

lemma part_known:
  assumes d: "during sh G b i \<sigma>" and A: "analysable sh G" and sol: "solveConstants G (computeTrackedVars G) = Some IN"
    and s: "s \<in> set (cfg_statements G)" and n: "n \<in> set (parts s)" and c: "c = NoExpr \<or> c \<in> set (effect_children n)"
    and e: "evals sh \<sigma> c v \<sigma>'"
  shows "\<And>x. evalConstExpr c (known_before G IN b i) = Some x \<Longrightarrow> v = x" and "during sh G b i \<sigma>'" and "fits 64 v"
proof -
  note D = during_agrees [OF d A sol] and AD = analysableD [OF A]
  show "v = x" if "evalConstExpr c (known_before G IN b i) = Some x" for x
    by (rule known_value [OF e D(1) part_child_frame [OF D(2) AD(3,2) s n c] that])
  note f = evals_frame [OF e]
  then show "fits 64 v" by simp
  have "tracked G \<inter> (changes c \<union> sh) = {}"
  proof -
    have "keys_in (tracked G) (map (\<lambda>x. (x, None)) (Trackable (computeTrackedVars G)))"
      by (auto simp: keys_in_def dom_def dest!: map_of_SomeD)
    from part_child_frame [OF this AD(3,2) s n c]
    show ?thesis by (auto simp: dom_map_of_conv_image_fst image_image)
  qed
  then have "same_outside (- tracked G) \<sigma> \<sigma>'" using f by (auto simp: same_outside_def)
  with d show "during sh G b i \<sigma>'" unfolding during_def by (blast intro: same_outside_trans)
qed

section \<open>What a mark and a report promise\<close>

definition op_fits :: "int \<Rightarrow> int \<Rightarrow> int \<Rightarrow> bool" where
  "op_fits op a b \<longleftrightarrow>
     (if op = TOK_LSHIFT then 0 \<le> b \<and> b < 64 \<and> fits 64 (a * 2 ^ nat b)
      else \<exists>x. exact_result op a b = Some x \<and> fits 64 x)"

definition operands_fit :: "nat set \<Rightarrow> store \<Rightarrow> int \<Rightarrow> ExprAST \<Rightarrow> ExprAST \<Rightarrow> bool" where
  "operands_fit sh \<sigma> op l r \<longleftrightarrow> (\<forall>a b \<sigma>1 \<sigma>2. evals sh \<sigma> l a \<sigma>1 \<and> evals sh \<sigma>1 r b \<sigma>2 \<longrightarrow> op_fits op a b)"

text \<open>The run-time check of the node succeeds whenever control reaches it in store \<open>\<sigma>\<close>.\<close>

definition cannot_fail :: "nat set \<Rightarrow> store \<Rightarrow> ExprAST \<Rightarrow> bool" where
  "cannot_fail sh \<sigma> n \<longleftrightarrow> (case n of
      BinaryExpr loc op l r p \<Rightarrow> operands_fit sh \<sigma> op l r
    | CompoundAssignmentExpr loc op l r p \<Rightarrow> operands_fit sh \<sigma> op l r
    | UnaryExpr loc op x p \<Rightarrow> op = ch CHR ''-'' \<and> (\<forall>v \<sigma>1. evals sh \<sigma> x v \<sigma>1 \<longrightarrow> fits 64 (- v))
    | PostfixExpr loc op x pre p \<Rightarrow>
        (\<forall>v \<sigma>1. evals sh \<sigma> x v \<sigma>1 \<longrightarrow> fits 64 (if op = ch CHR ''+'' then v + 1 else v - 1))
    | ArrayAccessExpr loc base idx p \<Rightarrow>
        (\<exists>vl name S sz. base = VariableExpr vl name (Some S) \<and> VarArraySize S = Some sz \<and>
           (\<forall>v \<sigma>1. evals sh \<sigma> idx v \<sigma>1 \<longrightarrow> 0 \<le> v \<and> v < sz))
    | _ \<Rightarrow> False)"

fun flagged :: "ExprAST \<Rightarrow> bool" where
  "flagged (BinaryExpr loc op l r p) = p"
| "flagged (CompoundAssignmentExpr loc op l r p) = p"
| "flagged (UnaryExpr loc op x p) = p"
| "flagged (PostfixExpr loc op x pre p) = p"
| "flagged (ArrayAccessExpr loc b i p) = p"
| "flagged _ = False"

lemma op_safe_fits: "fits 64 a \<Longrightarrow> fits 64 b \<Longrightarrow> op_safe op a b \<Longrightarrow> op_fits op a b"
  using arith_safe_exact [of a b op] shl_safe_exact [of a b]
  by (auto simp: op_safe_def op_fits_def split: if_split_asm)

lemma known_operands:
  assumes d: "during sh G b i \<sigma>" and A: "analysable sh G" and sol: "solveConstants G (computeTrackedVars G) = Some IN"
    and s: "s \<in> set (cfg_statements G)" and n: "n \<in> set (parts s)"
    and k: "both_known (op_safe op) l r (known_before G IN b i)"
    and l: "l = NoExpr \<or> l \<in> set (effect_children n)" and r: "r = NoExpr \<or> r \<in> set (effect_children n)"
  shows "operands_fit sh \<sigma> op l r"
proof -
  have "op_fits op x y" if e: "evals sh \<sigma> l x \<sigma>1" "evals sh \<sigma>1 r y \<sigma>2" for x y \<sigma>1 \<sigma>2
  proof -
    obtain L R where lr: "evalConstExpr l (known_before G IN b i) = Some L" "evalConstExpr r (known_before G IN b i) = Some R"
        "op_safe op L R" using k by (auto simp: both_known_def split: option.splits)
    note kl = part_known [OF d A sol s n l e(1)]
    note kr = part_known [OF kl(2) A sol s n r e(2)]
    show ?thesis using kl(1) [OF lr(1)] kr(1) [OF lr(2)] kl(3) kr(3) lr(3) op_safe_fits by blast
  qed
  then show ?thesis by (auto simp: operands_fit_def)
qed

lemma mark_cannot_fail:
  assumes d: "during sh G b i \<sigma>" and A: "analysable sh G" and sol: "solveConstants G (computeTrackedVars G) = Some IN"
    and s: "s \<in> set (cfg_statements G)" and n: "n \<in> set (parts s)"
    and f: "flagged (markNode TV (known_before G IN b i) n)" "\<not> flagged n"
  shows "cannot_fail sh \<sigma> n"
proof (cases n)
  case (BinaryExpr loc op l r p)
  with f show ?thesis using known_operands [OF d A sol s n, of op l r]
    by (auto simp: cannot_fail_def effect_children_def children_def all_children_def)
next
  case (CompoundAssignmentExpr loc op l r p)
  with f show ?thesis using known_operands [OF d A sol s n, of op l r]
    by (auto simp: cannot_fail_def effect_children_def children_def all_children_def)
next
  case (UnaryExpr loc op x p)
  then have x: "x = NoExpr \<or> x \<in> set (effect_children n)" by (auto simp: effect_children_def children_def all_children_def)
  from UnaryExpr f obtain V where V: "op = ch CHR ''-''" "evalConstExpr x (known_before G IN b i) = Some V" "negProvablySafe V"
    by (auto simp: neg_known_def split: option.splits)
  have "fits 64 (- v)" if "evals sh \<sigma> x v \<sigma>1" for v \<sigma>1
    using part_known(1,3) [OF d A sol s n x that] V neg_safe_exact by blast
  with V(1) show ?thesis by (auto simp: UnaryExpr cannot_fail_def)
next
  case (PostfixExpr loc op x pre p)
  then have x: "x = NoExpr \<or> x \<in> set (effect_children n)" by (auto simp: effect_children_def children_def all_children_def)
  from PostfixExpr f obtain V where V: "evalConstExpr x (known_before G IN b i) = Some V"
      "if op = ch CHR ''+'' then arithProvablySafe (ch CHR ''+'') V 1 else arithProvablySafe (ch CHR ''-'') V 1"
    by (auto simp: step_known_def split: option.splits)
  have one: "fits 64 1" by (simp add: fits_def)
  have "fits 64 (if op = ch CHR ''+'' then v + 1 else v - 1)" if "evals sh \<sigma> x v \<sigma>1" for v \<sigma>1
    using part_known(1,3) [OF d A sol s n x that] V arith_safe_exact [OF _ one]
    by (auto simp: exact_result_def split: if_split_asm)
  then show ?thesis unfolding PostfixExpr cannot_fail_def ExprAST.case by blast
next
  case (ArrayAccessExpr loc base idx p)
  then have x: "idx = NoExpr \<or> idx \<in> set (effect_children n)" by (auto simp: effect_children_def children_def all_children_def)
  from ArrayAccessExpr f have "index_safe TV (known_before G IN b i) base idx" by simp
  then obtain V vl name S sz where V: "evalConstExpr idx (known_before G IN b i) = Some V" "base = VariableExpr vl name (Some S)"
      "VarArraySize S = Some sz" "0 \<le> V" "V < sz"
    by (auto simp: index_safe_def split: option.splits ExprAST.splits)
  have "0 \<le> v \<and> v < sz" if "evals sh \<sigma> idx v \<sigma>1" for v \<sigma>1
    using part_known(1) [OF d A sol s n x that] V by blast
  with V(2,3) show ?thesis unfolding ArrayAccessExpr cannot_fail_def ExprAST.case by blast
qed (use f in simp_all)

section \<open>The trees after the walk\<close>

lemma mark_null [simp]: "markNode TV M e = NoExpr \<longleftrightarrow> e = NoExpr"
  by (cases e) simp_all

lemma branches_mark:
  "filter (\<lambda>c. c \<noteq> NoExpr) (concat (map (\<lambda>x. [markNode TV M (br_cond x), markNode TV M (br_body x)]) brs)) =
   map (markNode TV M) (filter (\<lambda>c. c \<noteq> NoExpr) (concat (map (\<lambda>x. [br_cond x, br_body x]) brs)))"
  by (induction brs) simp_all

lemma effect_children_mark:
  "markNode TV M e = e \<or> effect_children (markNode TV M e) = map (markNode TV M) (effect_children e)"
  by (cases e) (simp_all add: effect_children_def children_def all_children_def filter_map o_def branches_mark)

lemma parts_mark: "n' \<in> set (parts (markNode TV M e)) \<Longrightarrow> \<exists>n \<in> set (parts e). n' = markNode TV M n \<or> n' = n"
proof (induction "size e" arbitrary: e rule: less_induct)
  case less
  show ?case
  proof (cases "n' = markNode TV M e \<or> markNode TV M e = e")
    case True
    with less.prems show ?thesis by (auto simp: parts_inner [of e])
  next
    case False
    with effect_children_mark [of TV M e]
    have ch: "effect_children (markNode TV M e) = map (markNode TV M) (effect_children e)" by blast
    with less.prems False obtain c where c: "c \<in> set (effect_children e)" "n' \<in> set (parts (markNode TV M c))"
      by (auto simp: parts.simps [of "markNode TV M e"])
    then obtain n where "n \<in> set (parts c)" "n' = markNode TV M n \<or> n' = n"
      using less.hyps size_children effect_children_sub by blast
    with c(1) show ?thesis by (auto simp: parts.simps [of e])
  qed
qed

lemma with_constants_nth:
  "i < length ss \<Longrightarrow> with_constants TV f ss M ! i = f (ss ! i) (block_transfer TV (take i ss) M)"
  by (induction ss arbitrary: i M) (auto simp: nth_Cons block_transfer_def split: nat.split)

lemma length_with_constants [simp]: "length (with_constants TV f ss M) = length ss"
  by (induction ss arbitrary: M) simp_all

lemma over_blocks_nth:
  assumes "over_blocks f G = Some rs" and "b < length (Blocks G)" and "i < length (Statements (Blocks G ! b))"
  obtains IN where "solveConstants G (computeTrackedVars G) = Some IN" and "length rs = length (Blocks G)"
    and "length (rs ! b) = length (Statements (Blocks G ! b))"
    and "rs ! b ! i = f (Statements (Blocks G ! b) ! i) (known_before G IN b i) (computeTrackedVars G)"
  using assms by (auto simp: over_blocks_def Let_def with_constants_nth known_before_def)

lemma statement_in:
  "b < length (Blocks G) \<Longrightarrow> i < length (Statements (Blocks G ! b)) \<Longrightarrow>
     Statements (Blocks G ! b) ! i \<in> set (cfg_statements G)"
  using block_statements nth_mem by blast

section \<open>Reports\<close>

lemma reported_access:
  "r \<in> set (reportConstantOutOfBounds M e) \<Longrightarrow> \<exists>n \<in> set (parts e). r \<in> set (access_report n M)"
proof (induction "size e" arbitrary: e rule: less_induct)
  case less
  show ?case
  proof (cases "r \<in> set (access_report e M)")
    case True
    then show ?thesis by (auto simp: parts_inner)
  next
    case False
    with less.prems obtain c where c: "c \<in> set (access_children e)" "r \<in> set (reportConstantOutOfBounds M c)"
      by (auto simp: reportConstantOutOfBounds.simps [of M e])
    have "c \<noteq> NoExpr" using c(2)
      by (auto simp: reportConstantOutOfBounds.simps [of M NoExpr] access_report_def access_children_def)
    then have "c \<in> set (effect_children e)" using c(1)
      by (cases e) (auto simp: access_children_def effect_children_def children_def all_children_def)
    moreover obtain n where "n \<in> set (parts c)" "r \<in> set (access_report n M)"
      using less.hyps [OF _ c(2)] size_all_children access_children_sub c(1) by blast
    ultimately show ?thesis by (auto simp: parts.simps [of e])
  qed
qed

lemma access_reportD:
  assumes "ArrayBoundsError loc name iv sz \<in> set (access_report n M)"
  obtains idx p vl S where "n = ArrayAccessExpr loc (VariableExpr vl name (Some S)) idx p"
    and "VarArraySize S = Some sz" and "evalConstExpr idx M = Some iv" and "iv < - sz \<or> sz \<le> iv"
  using assms
  by (auto simp: access_report_def split: ExprAST.splits option.splits if_splits)

lemma raisedE:
  assumes "runOnCFG G = Some (Inl r)"
  obtains rs where "over_blocks (\<lambda>s Cur TV. reportConstantOutOfBounds Cur s) G = Some rs" and "r \<in> set (concat (concat rs))"
proof -
  have "Blocks G \<noteq> []" using assms by (cases "Blocks G = []") (simp_all add: runOnCFG_def)
  then obtain rs where rs: "over_blocks (\<lambda>s Cur TV. reportConstantOutOfBounds Cur s) G = Some rs"
      "(case concat (concat rs) of [] \<Rightarrow> Inr () | r # _ \<Rightarrow> Inl r) = Inl r"
    using assms by (auto simp: runOnCFG_def)
  from rs(2) have "r \<in> set (concat (concat rs))"
    by (cases "concat (concat rs)") (simp, metis Inl_inject list.case(2) list.set_intros(1))
  with rs(1) show thesis by (rule that)
qed

section \<open>Properties\<close>

text \<open>
  C9. The constant propagation ends on every graph the builder makes, and its answer is a fixed point:
  every block's maps are the join of its predecessors' and the transfer of its statements.
\<close>

theorem constants_converge:
  assumes "buildCFG name void body loc mangled = Inr G"
  shows "\<exists>IN OUT. solveConstants G TV = Some IN \<and> length IN = length (Blocks G) \<and>
    (\<forall>b < length (Blocks G). stable G TV IN OUT b)"
proof -
  obtain IN OUT where "solveConstants G TV = Some IN" "solver_inv G TV (IN, OUT, [])" by (rule solver_result [OF built_wf(1) [OF assms]])
  then show ?thesis using solver_invD(1,9) by fastforce
qed



end
