(* ===== verification/ConstCases.thy ===== *)
theory ConstCases
  imports ConstRuns
begin

text \<open>
  The value-range analysis on concrete functions: the theorems of \<open>ConstRuns\<close> at work, and a loop whose
  step the analysis does not see.
\<close>

section \<open>A straight body\<close>

text \<open>\<open>mut x = n; a[x + 1];\<close> for an array \<open>a\<close> of three elements.\<close>

definition at :: "int \<Rightarrow> int \<Rightarrow> SourceLocation" where
  "at l c = loc3 l c []"

definition sym_x :: VariableSymbol where
  "sym_x = \<lparr>VarId = 0, VarName = ''x'', VarType = Some IntType, VarDeclLoc = at 1 1\<rparr>"

definition sym_a :: VariableSymbol where
  "sym_a = \<lparr>VarId = 1, VarName = ''a'', VarType = Some (ArrayType IntType 3 []), VarDeclLoc = at 1 1\<rparr>"

definition declare_x :: "int \<Rightarrow> ExprAST" where
  "declare_x n = VarDeclExpr (at 1 1) ''x'' (NumberExpr True n) (Some sym_x)"

definition next_of_x :: ExprAST where
  "next_of_x = BinaryExpr (at 2 5) (ch CHR ''+'') (VariableExpr (at 2 3) ''x'' (Some sym_x)) (NumberExpr True 1) False"

definition access_a :: "ExprAST \<Rightarrow> ExprAST" where
  "access_a idx = ArrayAccessExpr (at 2 1) (VariableExpr (at 2 1) ''a'' (Some sym_a)) idx False"

definition access_body :: "int \<Rightarrow> ExprAST" where
  "access_body n = BlockExpr [declare_x n, access_a next_of_x]"

definition access_graph :: "int \<Rightarrow> ExprAST CFG" where
  "access_graph n = \<lparr>FunctionName = ''f'', MangledFunctionName = [], ReturnsVoid = True, FuncLoc = at 1 1,
     Blocks = [(new_block 0 ''entry'')\<lparr>Statements := [declare_x n, access_a next_of_x],
         StatementsWithDeferredRuns := [declare_x n, access_a next_of_x], Successors := [1], IsReachable := True\<rparr>,
       (new_block 1 ''exit'')\<lparr>Predecessors := [0], IsReachable := True\<rparr>],
     EntryBlock = Some 0, ExitBlock = Some 1, NextID = 2\<rparr>"

lemma find_recovers_access:
  "find_recovers (declare_x n) = []" "find_recovers (access_a next_of_x) = []" "find_recovers (access_a (VariableExpr l x S)) = []"
  by (simp_all add: declare_x_def access_a_def next_of_x_def find_recovers_variable
    find_recovers.simps [of "VarDeclExpr l x i S" for l x i S] find_recovers.simps [of "ArrayAccessExpr l b i p" for l b i p]
    find_recovers.simps [of "BinaryExpr l op a b p" for l op a b p] find_recovers_eqs children_def all_children_def)

lemma visit_plain_eq:
  assumes "e = declare_x n \<or> e = access_a i" and "find_recovers e = []"
  shows "visitExpr e s = (if live s then Inr (add_here e s) else dead_code s)"
  using assms by (auto simp: visitExpr.simps [of e] declare_x_def access_a_def visitStatement_def branchToRecoverBlocks_def
      note_defer_def)

lemmas visit_access_eqs =
  visit_plain_eq [OF disjI1 [OF refl] find_recovers_access(1)]
  visit_plain_eq [OF disjI2 [OF refl] find_recovers_access(2)]
  visit_plain_eq [OF disjI2 [OF refl] find_recovers_access(3)]

lemma access_graph_built: "buildCFG ''f'' True (access_body n) (at 1 1) [] = Inr (access_graph n)"
  unfolding buildCFG_def access_body_def
  by (simp add: build_eval visit_access_eqs Let_def cong: then_do_weak_cong let_weak_cong)
    (simp add: return_eval access_graph_def new_block_def upt_rec numeral_2_eq_2 Let_def cong: let_weak_cong)

lemmas tainted_eqs = tainted_by.simps [of r "VarDeclExpr l x i S" for r l x i S]
  tainted_by.simps [of r "ArrayAccessExpr l b i p" for r l b i p]
  tainted_by.simps [of r "BinaryExpr l op a b p" for r l op a b p]
  tainted_by.simps [of r "NumberExpr i n" for r i n] tainted_by.simps [of r "VariableExpr l x S" for r l x S]

lemma access_tracked: "computeTrackedVars (access_graph n) = \<lparr>Trackable = [0], Tainted = []\<rparr>"
  by (simp add: computeTrackedVars_def cfg_statements_def access_graph_def new_block_def declare_x_def access_a_def
    next_of_x_def tainted_eqs scan_visits_def read_only_def children_def all_children_def declared_by_def symbol_ids_def
    sym_x_def Let_def)

lemma while_option_stop_now: "\<not> b s \<Longrightarrow> while_option b c s = Some s"
  by (simp add: while_option_unfold [of b c s])

lemma while_option_turn: "b s \<Longrightarrow> while_option b c s = while_option b c (c s)"
  by (simp add: while_option_unfold [of b c s])

lemmas solver_eval = process_block_def block_in_def join_const_def same_map_def block_transfer_def applyTransfer_def
  set_const_def target_symbol_def lookup_const_def solver_start_def solveConstants_def

lemma access_solved: "solveConstants (access_graph n) \<lparr>Trackable = [0], Tainted = []\<rparr> =
    Some [[], [(0, Some (getIntVal n))]]"
  by (simp add: solver_eval access_graph_def new_block_def declare_x_def access_a_def sym_x_def Let_def upt_rec
    while_option_turn while_option_stop_now)

text \<open>The same access after the walk, when the index is known to be inside.\<close>

definition marked_access :: ExprAST where
  "marked_access = ArrayAccessExpr (at 2 1) (VariableExpr (at 2 1) ''a'' (Some sym_a))
     (BinaryExpr (at 2 5) (ch CHR ''+'') (VariableExpr (at 2 3) ''x'' (Some sym_x)) (NumberExpr True 1) True) True"

lemma getIntVal_fits: "fits 64 n \<Longrightarrow> getIntVal n = n"
  using sint_of_fits [where 'a = 64] by (simp add: getIntVal_def)

lemmas known_eval = binary_const_exact exact_result_def getIntVal_fits fits_def

lemma access_marked: "markElidableChecks (access_graph 1) = Some [[declare_x 1, marked_access], []]"
  unfolding markElidableChecks_def over_blocks_def access_tracked Let_def access_solved
  by (simp add: access_graph_def new_block_def declare_x_def access_a_def next_of_x_def marked_access_def upt_rec
    applyTransfer_def set_const_def both_known_def op_safe_def arith_safe_exact index_safe_def lookup_const_def
    known_eval sym_x_def sym_a_def VarArraySize_def)

lemma access_reported: "runOnCFG (access_graph 5) = Some (Inl (ArrayBoundsError (at 2 1) ''a'' 6 3))"
  unfolding runOnCFG_def over_blocks_def access_tracked Let_def access_solved
  by (simp add: access_graph_def new_block_def declare_x_def access_a_def next_of_x_def upt_rec
    reportConstantOutOfBounds.simps access_report_def access_children_def
    applyTransfer_def set_const_def lookup_const_def known_eval sym_x_def sym_a_def VarArraySize_def)

lemmas parts_eqs = parts.simps [of "VarDeclExpr l x i S" for l x i S] parts.simps [of "ArrayAccessExpr l b i p" for l b i p]
  parts.simps [of "BinaryExpr l op a b p" for l op a b p] parts.simps [of "NumberExpr i n" for i n]
  parts.simps [of "VariableExpr l x S" for l x S] effect_children_def children_def all_children_def

lemma access_analysable: "analysable {} (access_graph n)"
proof -
  have "wf_cfg (access_graph n)" by (rule built_wf(1) [OF access_graph_built])
  then show ?thesis
    by (simp add: analysable_def own_symbols_def cfg_statements_def other_declares_def inner_parts_def declared_in_def
      declared_by_def own_declares_def access_graph_def new_block_def declare_x_def access_a_def next_of_x_def
      parts_eqs symbol_ids_def sym_x_def)
qed

lemma access_during: "during {} (access_graph n) 0 1 (\<lambda>x. getIntVal n)"
proof -
  have "exec_stmt {} (\<lambda>x. getIntVal n) (declare_x n) ((\<lambda>x. getIntVal n)(VarId sym_x := getIntVal n))"
    unfolding declare_x_def by (rule exec_declare [OF evals_number])
  moreover have "(\<lambda>x. getIntVal n)(VarId sym_x := getIntVal n) = (\<lambda>x. getIntVal n)" by (rule fun_upd_idem) simp
  ultimately have "exec_stmts {} (\<lambda>x. getIntVal n) (take 1 (Statements (Blocks (access_graph n) ! 0))) (\<lambda>x. getIntVal n)"
    by (simp add: access_graph_def)
  moreover have "arrives {} (access_graph n) 0 (\<lambda>x. getIntVal n)"
    by (rule arrives_entry) (simp add: access_graph_def)
  ultimately show ?thesis unfolding during_def before_def using same_outside_refl by blast
qed

lemma constants_converge_witness:
  "buildCFG ''f'' True (access_body 1) (at 1 1) [] = Inr (access_graph 1) \<and>
   (\<exists>IN OUT. solveConstants (access_graph 1) \<lparr>Trackable = [0], Tainted = []\<rparr> = Some IN \<and>
      length IN = length (Blocks (access_graph 1)) \<and>
      (\<forall>b < length (Blocks (access_graph 1)). stable (access_graph 1) \<lparr>Trackable = [0], Tainted = []\<rparr> IN OUT b))"
  using constants_converge [OF access_graph_built] access_graph_built by blast



section \<open>The step of a counting loop\<close>

text \<open>
  \<open>mut x = 2; for i in 0..5 step i += x++ { x = 2; } a[x];\<close> leaves the loop with \<open>x\<close> at 3, past the end of
  \<open>a\<close>.
\<close>

definition step_of_x :: ExprAST where
  "step_of_x = CompoundAssignmentExpr (at 2 20) (ch CHR ''+'') (VariableExpr (at 2 18) ''i'' (Some \<lparr>VarId = 2, VarName = ''i'', VarType = Some IntType, VarDeclLoc = at 2 5\<rparr>))
     (PostfixExpr (at 2 24) (ch CHR ''+'') (VariableExpr (at 2 23) ''x'' (Some sym_x)) False False) False"

definition reset_x :: ExprAST where
  "reset_x = AssignmentExpr (at 2 30) (VariableExpr (at 2 28) ''x'' (Some sym_x)) (NumberExpr True 2)"

definition access_x :: ExprAST where
  "access_x = access_a (VariableExpr (at 2 3) ''x'' (Some sym_x))"

definition step_body :: ExprAST where
  "step_body = BlockExpr [declare_x 2,
     ForExpr (at 2 1) ''i'' (NumberExpr True 0) (NumberExpr True 5) step_of_x (BlockExpr [reset_x]), access_x]"

definition step_block :: "nat \<Rightarrow> string \<Rightarrow> ExprAST list \<Rightarrow> nat list \<Rightarrow> nat list \<Rightarrow> TerminatorKind \<Rightarrow> ExprAST Block" where
  "step_block i name ss ps qs k = \<lparr>BlockID = i, BlockName = name, Statements = ss, StatementsWithDeferredRuns = ss,
     Predecessors = ps, Successors = qs, Terminator = k,
     TerminatorLoc = (if k = TkNone then None else Some (loc3 0 0 [])), IsReachable = True\<rparr>"

definition step_graph :: "ExprAST CFG" where
  "step_graph = \<lparr>FunctionName = ''f'', MangledFunctionName = [], ReturnsVoid = True, FuncLoc = at 1 1,
     Blocks = [step_block 0 ''entry'' [declare_x 2] [] [2] TkUnconditional,
       step_block 1 ''exit'' [] [5] [] TkNone,
       step_block 2 ''for.cond'' [NumberExpr True 0, NumberExpr True 5] [0, 4] [3, 5] TkBranch,
       step_block 3 ''for.body'' [reset_x] [2] [4] TkNone,
       step_block 4 ''for.step'' [] [3] [2] TkUnconditional,
       step_block 5 ''for.end'' [access_x] [2] [1] TkNone],
     EntryBlock = Some 0, ExitBlock = Some 1, NextID = 6\<rparr>"

lemma visit_for_eq: "visitExpr (ForExpr loc v a e st bd) s = (if live s then
    then_do (loop_body visitExpr (NextID (CurrentCFG s) + 3) (NextID (CurrentCFG s) + 2) (NextID (CurrentCFG s) + 1) bd
       (set_term (NextID (CurrentCFG s)) TkBranch (loc3 0 0 [])
         (link (NextID (CurrentCFG s)) (NextID (CurrentCFG s) + 3)
           (link (NextID (CurrentCFG s)) (NextID (CurrentCFG s) + 1)
             (add_cond (NextID (CurrentCFG s)) e (add_cond (NextID (CurrentCFG s)) a
               (set_term (the (CurrentBlock s)) TkUnconditional (loc3 0 0 [])
                 (link (the (CurrentBlock s)) (NextID (CurrentCFG s))
                   (fresh ''for.end'' (fresh ''for.step'' (fresh ''for.body'' (fresh ''for.cond'' s))))))))))))
      (\<lambda>u. Inr (setInsertPoint (Some (NextID (CurrentCFG s) + 3))
         (set_term (NextID (CurrentCFG s) + 2) TkUnconditional (loc3 0 0 [])
           (link (NextID (CurrentCFG s) + 2) (NextID (CurrentCFG s)) u))))
    else dead_code s)"
  by (simp add: visitExpr.simps [of "ForExpr loc v a e st bd"] visitFor_def counted_loop_def new_bb_fresh next_fresh Let_def
    eval_nat_numeral)

lemma visit_reset_eq: "visitExpr reset_x s = (if live s then Inr (add_here reset_x s) else dead_code s)"
proof -
  have "find_recovers reset_x = []"
    by (simp add: reset_x_def find_recovers.simps [of "AssignmentExpr l a b" for l a b] find_recovers_variable
      find_recovers_eqs children_def all_children_def)
  then show ?thesis
    by (subst visitExpr.simps) (simp add: reset_x_def visitStatement_def branchToRecoverBlocks_def note_defer_def)
qed

lemma step_graph_built: "buildCFG ''f'' True step_body (at 1 1) [] = Inr step_graph"
  unfolding buildCFG_def step_body_def access_x_def
  by (simp add: build_eval visit_access_eqs visit_reset_eq visit_for_eq Let_def cong: then_do_weak_cong let_weak_cong)
    (simp add: return_eval step_graph_def step_block_def access_x_def upt_rec numeral_2_eq_2 Let_def cong: let_weak_cong)

lemma step_tracked: "computeTrackedVars step_graph = \<lparr>Trackable = [0], Tainted = []\<rparr>"
  by (simp add: computeTrackedVars_def cfg_statements_def step_graph_def step_block_def declare_x_def access_x_def access_a_def
    reset_x_def tainted_by.simps [of r "AssignmentExpr l a b" for r l a b] write_target_def
    tainted_eqs scan_visits_def read_only_def children_def all_children_def declared_by_def symbol_ids_def
    sym_x_def Let_def)

abbreviation tracks_x :: TrackedVars where
  "tracks_x \<equiv> \<lparr>Trackable = [0], Tainted = []\<rparr>"

lemma step_graph_at:
  "map Predecessors (Blocks step_graph) = [[], [5], [0, 4], [2], [3], [2]]"
  "map Successors (Blocks step_graph) = [[2], [], [3, 5], [4], [2], [1]]"
  "map (\<lambda>B. block_transfer tracks_x (Statements B)) (Blocks step_graph) =
     [AList.update 0 (Some 2), \<lambda>M. M, \<lambda>M. M, AList.update 0 (Some 2), \<lambda>M. M, \<lambda>M. M]"
  by (simp_all add: step_graph_def step_block_def fun_eq_iff block_transfer_def applyTransfer_def set_const_def
    target_symbol_def declare_x_def reset_x_def access_x_def access_a_def sym_x_def known_eval)

lemma step_graph_length: "length (Blocks step_graph) = 6"
  by (simp add: step_graph_def)

lemma step_graph_process: "b < 6 \<Longrightarrow> process_block step_graph tracks_x (IN, OUT, b # work) =
   (let NewIN = block_in OUT (IN ! b) ([[], [5], [0, 4], [2], [3], [2]] ! b);
        IN = (if same_map NewIN (IN ! b) then IN else IN[b := NewIN]);
        Cur = ([AList.update 0 (Some 2), \<lambda>M. M, \<lambda>M. M, AList.update 0 (Some 2), \<lambda>M. M, \<lambda>M. M] ! b) (IN ! b)
    in if same_map Cur (OUT ! b) then (IN, OUT, work)
       else (IN, OUT[b := Cur], work @ [[2], [], [3, 5], [4], [2], [1]] ! b))"
  unfolding step_graph_at [symmetric] by (simp add: process_block_def step_graph_length Let_def)

lemma step_solved: "\<exists>IN. solveConstants step_graph tracks_x = Some IN \<and> IN ! 5 = [(0, Some 2)]"
  unfolding solveConstants_def solver_start_def step_graph_length
  by (simp add: step_graph_process block_in_def join_const_def same_map_def Let_def upt_rec eval_nat_numeral
    while_option_turn while_option_stop_now)

lemma step_marked: "\<exists>out. markElidableChecks step_graph = Some out \<and>
    out ! 5 = [ArrayAccessExpr (at 2 1) (VariableExpr (at 2 1) ''a'' (Some sym_a)) (VariableExpr (at 2 3) ''x'' (Some sym_x)) True]"
proof -
  obtain IN where IN: "solveConstants step_graph tracks_x = Some IN" "IN ! 5 = [(0, Some 2)]" using step_solved by blast
  have "Blocks step_graph \<noteq> []" "Statements (Blocks step_graph ! 5) = [access_x]"
    by (simp_all add: step_graph_def step_block_def)
  then show ?thesis using IN
    by (simp add: markElidableChecks_def over_blocks_def step_tracked step_graph_length access_x_def access_a_def
      index_safe_def lookup_const_def sym_a_def VarArraySize_def sym_x_def Let_def)
qed

text \<open>
  The step of a counting loop is in no block of the graph, so the analysis does not see what it
  assigns: in \<open>mut x = 2; for i in 0..5 step i += x++ { x = 2; } a[x];\<close> the step changes \<open>x\<close>, and the
  check of \<open>a[x]\<close> is left out for an array of three elements although \<open>x\<close> is 3 there.
\<close>

theorem step_write_not_seen:
  "buildCFG ''f'' True step_body (at 1 1) [] = Inr step_graph \<and>
   step_of_x \<in> set (parts step_body) \<and> VarId sym_x \<in> changes step_of_x \<and>
   list_all (\<lambda>s. step_of_x \<notin> set (parts s)) (cfg_statements step_graph) \<and>
   (\<exists>out. markElidableChecks step_graph = Some out \<and>
      out ! 5 = [ArrayAccessExpr (at 2 1) (VariableExpr (at 2 1) ''a'' (Some sym_a)) (VariableExpr (at 2 3) ''x'' (Some sym_x)) True])"
proof -
  have "step_of_x \<in> set (effect_children (ForExpr (at 2 1) ''i'' (NumberExpr True 0) (NumberExpr True 5) step_of_x (BlockExpr [reset_x])))"
    by (simp add: effect_children_def children_def all_children_def step_of_x_def)
  then have f: "step_of_x \<in> set (parts (ForExpr (at 2 1) ''i'' (NumberExpr True 0) (NumberExpr True 5) step_of_x (BlockExpr [reset_x])))"
    by (subst parts.simps) (auto simp: parts_inner [of step_of_x] intro!: bexI [of _ step_of_x])
  have p: "step_of_x \<in> set (parts step_body)" unfolding step_body_def
    using f by (subst parts.simps) (simp add: effect_children_def children_def all_children_def)
  have c: "VarId sym_x \<in> changes step_of_x"
    by (simp add: changes_def changed_in_def step_of_x_def parts.simps [of "CompoundAssignmentExpr l op a b p" for l op a b p]
      parts.simps [of "PostfixExpr l op x pre p" for l op x pre p] parts_eqs own_changes_def target_symbol_def symbol_ids_def)
  have n: "list_all (\<lambda>s. step_of_x \<notin> set (parts s)) (cfg_statements step_graph)"
    by (simp add: cfg_statements_def step_graph_def step_block_def declare_x_def reset_x_def access_x_def access_a_def
      step_of_x_def parts_eqs parts.simps [of "AssignmentExpr l a b" for l a b])
  show ?thesis using step_graph_built p c n step_marked by blast
qed

end
