(* ===== verification/Rounds.thy ===== *)
theory Rounds
  imports Main "HOL-Library.While_Combinator"
begin

text \<open>
  The loop that the data-flow passes share: rounds over all blocks, each visit of a block either leaving the
  state or changing it and noting that it did, until a round changes nothing.
\<close>

lemma round_keeps:
  assumes visit: "\<And>chg w b. good w \<Longrightarrow> b \<in> set bs \<Longrightarrow> visit b (chg, w) = (chg, w) \<and> settled b w \<or>
      (\<exists>w'. visit b (chg, w) = (True, w') \<and> good w' \<and> room w' < (room w :: nat))"
    and "good w" and "fold visit bs (chg, w) = (chg', w')"
  shows "good w' \<and> room w' \<le> room w \<and> (chg \<longrightarrow> chg') \<and> (chg' \<and> \<not> chg \<longrightarrow> room w' < room w) \<and>
    (\<not> chg' \<longrightarrow> w' = w \<and> (\<forall>b \<in> set bs. settled b w))"
  using assms
proof (induction bs arbitrary: chg w)
  case (Cons b bs)
  note IH = Cons.IH [OF Cons.prems(1)]
  from Cons.prems(1) [OF Cons.prems(2), of b chg]
  consider (quiet) "visit b (chg, w) = (chg, w)" "settled b w"
    | (moved) w1 where "visit b (chg, w) = (True, w1)" "good w1" "room w1 < room w" by auto
  then show ?case
  proof cases
    case quiet
    with IH [of w chg] Cons.prems show ?thesis by auto
  next
    case moved
    with IH [of w1 True] Cons.prems show ?thesis by force
  qed
qed simp

lemma rounds_end:
  assumes visit: "\<And>chg w b. good w \<Longrightarrow> b \<in> set bs \<Longrightarrow> visit b (chg, w) = (chg, w) \<and> settled b w \<or>
      (\<exists>w'. visit b (chg, w) = (True, w') \<and> good w' \<and> room w' < (room w :: nat))"
    and "good w0"
  obtains w where "while_option fst (\<lambda>(chg, w). fold visit bs (False, w)) (True, w0) = Some (False, w)"
    and "good w" and "\<And>b. b \<in> set bs \<Longrightarrow> settled b w"
proof -
  let ?c = "\<lambda>(chg :: bool, w). fold visit bs (False, w)" and ?P = "\<lambda>(chg, w). good w \<and> (\<not> chg \<longrightarrow> (\<forall>b \<in> set bs. settled b w))"
  let ?f = "\<lambda>(chg, w). room w + (if chg then 1 else 0)"
  have step: "?P (?c s) \<and> ?f (?c s) < ?f s" if "?P s" and "fst s" for s
  proof -
    obtain chg w where s: "s = (chg, w)" by (cases s)
    obtain chg' w' where r: "fold visit bs (False, w) = (chg', w')" by (cases "fold visit bs (False, w)")
    have "good w" using that(1) s by simp
    from round_keeps [of good bs visit settled room, OF visit this r] that(2) s r show ?thesis by (cases chg') auto
  qed
  have P0: "?P (True, w0)" using assms(2) by simp
  have "\<exists>t. while_option fst ?c (True, w0) = Some t" by (rule measure_while_option_Some [of ?P fst ?c ?f, OF step P0])
  then obtain chg w where t: "while_option fst ?c (True, w0) = Some (chg, w)" by auto
  have "?P (chg, w)" by (rule while_option_rule [of ?P fst ?c, OF _ t P0]) (rule conjunct1 [OF step])
  moreover have "\<not> chg" using while_option_stop [OF t] by simp
  ultimately show thesis using t by (intro that [of w]) auto
qed

end
