(* ===== verification/MustFlow.thy ===== *)
theory MustFlow
  imports FlowGraph Rounds
begin

text \<open>
  The forward data-flow loop that \<open>DefiniteAssignmentPass::runOnCFG\<close> and
  \<open>ConstructorFieldAssignmentPass::runOnCFG\<close> of \<open>src/src/analysis/Analysis.cpp\<close> share, statement for
  statement: which facts hold on every path to a block. It is stated once, for any transfer that adds
  facts; the locale \<open>must_flow\<close> is what the loop asks of a pass, and shows that the loop ends with exactly
  the facts of all walks.
\<close>

section \<open>The loop\<close>

definition has_pred :: "'s CFG \<Rightarrow> nat \<Rightarrow> bool" where
  "has_pred G b = list_ex (\<lambda>p. b \<in> set (succs G p)) [0..<length (Blocks G)]"

text \<open>The facts of all predecessors.\<close>

definition must_meet :: "'a set \<Rightarrow> 's CFG \<Rightarrow> 'a set list \<Rightarrow> nat \<Rightarrow> 'a set" where
  "must_meet Facts G OUT b =
    fold (\<lambda>p newIN. if b \<in> set (succs G p) then newIN \<inter> OUT ! p else newIN) [0..<length (Blocks G)] Facts"

definition must_block :: "(nat \<Rightarrow> 'a set \<Rightarrow> 'a set) \<Rightarrow> 'a set \<Rightarrow> 's CFG \<Rightarrow> nat \<Rightarrow> nat \<Rightarrow>
    bool \<times> 'a set list \<times> 'a set list \<Rightarrow> bool \<times> 'a set list \<times> 'a set list" where
  "must_block computeOUT Facts G entryIdx b w = (case w of (changed, IN, OUT) \<Rightarrow>
     if b = entryIdx \<or> \<not> has_pred G b then (changed, IN, OUT)
     else let newIN = must_meet Facts G OUT b
          in if newIN \<noteq> IN ! b then (True, IN[b := newIN], OUT[b := computeOUT b newIN]) else (changed, IN, OUT))"

definition must_round :: "(nat \<Rightarrow> 'a set \<Rightarrow> 'a set) \<Rightarrow> 'a set \<Rightarrow> 's CFG \<Rightarrow> nat \<Rightarrow>
    'a set list \<times> 'a set list \<Rightarrow> bool \<times> 'a set list \<times> 'a set list" where
  "must_round computeOUT Facts G entryIdx w =
    fold (must_block computeOUT Facts G entryIdx) [0..<length (Blocks G)] (False, w)"

definition must_start :: "(nat \<Rightarrow> 'a set \<Rightarrow> 'a set) \<Rightarrow> 'a set \<Rightarrow> 's CFG \<Rightarrow> nat \<Rightarrow> bool \<times> 'a set list \<times> 'a set list" where
  "must_start computeOUT Facts G entryIdx =
    (let IN = map (\<lambda>i. if i \<noteq> entryIdx then Facts else {}) [0..<length (Blocks G)]
     in (True, IN, map (\<lambda>i. computeOUT i (IN ! i)) [0..<length (Blocks G)]))"

definition must_solve :: "(nat \<Rightarrow> 'a set \<Rightarrow> 'a set) \<Rightarrow> 'a set \<Rightarrow> 's CFG \<Rightarrow> nat \<Rightarrow> 'a set list option" where
  "must_solve computeOUT Facts G entryIdx =
    map_option (\<lambda>(changed, IN, OUT). IN)
      (while_option fst (\<lambda>(changed, w). must_round computeOUT Facts G entryIdx w) (must_start computeOUT Facts G entryIdx))"

section \<open>What a pass has to provide\<close>

text \<open>The facts a pass knows of, and those each block adds.\<close>

locale must_flow =
  fixes Facts :: "'s CFG \<Rightarrow> 'a set" and computeOUT :: "'s CFG \<Rightarrow> nat \<Rightarrow> 'a set \<Rightarrow> 'a set"
    and gen :: "'s CFG \<Rightarrow> nat \<Rightarrow> 'a set"
  assumes adds: "computeOUT G b X = X \<union> gen G b"
    and finite_facts: "finite (Facts G)"
begin

text \<open>The facts every walk from the entry to a block has met before it.\<close>

definition on_all_walks :: "'s CFG \<Rightarrow> nat \<Rightarrow> nat \<Rightarrow> 'a set" where
  "on_all_walks G entryIdx b = {x \<in> Facts G. \<forall>bs. walk G bs \<and> hd bs = entryIdx \<and> last bs = b \<longrightarrow> x \<in> \<Union> (gen G ` set (butlast bs))}"

lemma meet_iff: "x \<in> must_meet (Facts G) G OUT b \<longleftrightarrow>
    x \<in> Facts G \<and> (\<forall>p < length (Blocks G). b \<in> set (succs G p) \<longrightarrow> x \<in> OUT ! p)"
proof -
  have "x \<in> fold (\<lambda>p newIN. if b \<in> set (succs G p) then newIN \<inter> OUT ! p else newIN) ps X \<longleftrightarrow>
      x \<in> X \<and> (\<forall>p \<in> set ps. b \<in> set (succs G p) \<longrightarrow> x \<in> OUT ! p)" for ps X
    by (induction ps arbitrary: X) auto
  then show ?thesis by (auto simp: must_meet_def)
qed

lemma walk_last: "walk G bs \<Longrightarrow> last bs < length (Blocks G)"
  by (induction bs rule: induct_list012) auto

lemma walk_extend: "wf_cfg G \<Longrightarrow> walk G bs \<Longrightarrow> b \<in> set (succs G (last bs)) \<Longrightarrow> walk G (bs @ [b])"
proof (induction bs rule: induct_list012)
  case (2 a)
  then show ?case by (auto simp: wf_cfg_def)
qed auto

text \<open>A pair of lists between the answer and the start.\<close>

definition must_inv :: "'s CFG \<Rightarrow> nat \<Rightarrow> 'a set list \<times> 'a set list \<Rightarrow> bool" where
  "must_inv G entryIdx w \<longleftrightarrow> (case w of (IN, OUT) \<Rightarrow>
     length IN = length (Blocks G) \<and> length OUT = length (Blocks G) \<and> IN ! entryIdx = {} \<and>
     (\<forall>b < length (Blocks G). IN ! b \<subseteq> Facts G \<and> on_all_walks G entryIdx b \<subseteq> IN ! b \<and> OUT ! b = IN ! b \<union> gen G b \<and>
        (b \<noteq> entryIdx \<longrightarrow> must_meet (Facts G) G OUT b \<subseteq> IN ! b)))"

lemma must_invD:
  assumes "must_inv G entryIdx (IN, OUT)"
  shows "length IN = length (Blocks G)" "length OUT = length (Blocks G)" "IN ! entryIdx = {}"
    "b < length (Blocks G) \<Longrightarrow> IN ! b \<subseteq> Facts G" "b < length (Blocks G) \<Longrightarrow> on_all_walks G entryIdx b \<subseteq> IN ! b"
    "b < length (Blocks G) \<Longrightarrow> OUT ! b = IN ! b \<union> gen G b"
    "b < length (Blocks G) \<Longrightarrow> b \<noteq> entryIdx \<Longrightarrow> must_meet (Facts G) G OUT b \<subseteq> IN ! b"
  using assms by (simp_all add: must_inv_def)

lemma must_start_inv:
  assumes entry: "entryIdx < length (Blocks G)"
  shows "must_inv G entryIdx (snd (must_start (computeOUT G) (Facts G) G entryIdx))"
proof -
  have "on_all_walks G entryIdx entryIdx = {}"
    using entry by (auto simp: on_all_walks_def intro!: exI [of _ "[entryIdx]"])
  moreover have "must_meet (Facts G) G OUT b \<subseteq> Facts G" for OUT b by (auto simp: meet_iff)
  ultimately show ?thesis
    using entry by (auto simp: must_inv_def must_start_def Let_def adds on_all_walks_def split: if_splits)
qed

lemma walks_meet:
  assumes wf: "wf_cfg G" and inv: "must_inv G entryIdx (IN, OUT)" and b: "b < length (Blocks G)"
  shows "on_all_walks G entryIdx b \<subseteq> must_meet (Facts G) G OUT b"
proof
  fix x assume x: "x \<in> on_all_walks G entryIdx b"
  have "x \<in> OUT ! p" if p: "p < length (Blocks G)" "b \<in> set (succs G p)" for p
  proof (cases "x \<in> on_all_walks G entryIdx p")
    case True
    then show ?thesis using must_invD(5,6) [OF inv p(1)] by blast
  next
    case False
    with x obtain bs where bs: "walk G bs" "hd bs = entryIdx" "last bs = p" "x \<notin> \<Union> (gen G ` set (butlast bs))"
      by (auto simp: on_all_walks_def)
    then have ne: "bs \<noteq> []" by auto
    have "walk G (bs @ [b])" "hd (bs @ [b]) = entryIdx" using walk_extend [OF wf bs(1)] bs(2,3) p(2) ne by simp_all
    with x have "x \<in> \<Union> (gen G ` set bs)" by (auto simp: on_all_walks_def dest!: spec [of _ "bs @ [b]"])
    moreover have "set bs = set (butlast bs) \<union> {p}" using bs(3) ne append_butlast_last_id [OF ne]
      by (metis Un_insert_right list.simps(15) set_append sup_bot.right_neutral empty_set)
    ultimately show ?thesis using bs(4) must_invD(6) [OF inv p(1)] by auto
  qed
  with x show "x \<in> must_meet (Facts G) G OUT b" by (simp add: meet_iff on_all_walks_def)
qed

lemma meet_mono: "(\<And>p. p < length (Blocks G) \<Longrightarrow> OUT' ! p \<subseteq> OUT ! p) \<Longrightarrow> must_meet (Facts G) G OUT' b \<subseteq> must_meet (Facts G) G OUT b"
proof
  fix x assume "\<And>p. p < length (Blocks G) \<Longrightarrow> OUT' ! p \<subseteq> OUT ! p" "x \<in> must_meet (Facts G) G OUT' b"
  then show "x \<in> must_meet (Facts G) G OUT b" unfolding meet_iff by blast
qed

abbreviation size_of :: "'s CFG \<Rightarrow> 'a set list \<Rightarrow> nat" where
  "size_of G IN \<equiv> \<Sum>b < length (Blocks G). card (IN ! b)"

text \<open>One block: nothing happens where the equation holds, else the facts shrink.\<close>

lemma block_step:
  assumes wf: "wf_cfg G" and inv: "must_inv G entryIdx (IN, OUT)" and b: "b < length (Blocks G)"
  shows "must_block (computeOUT G) (Facts G) G entryIdx b (chg, IN, OUT) = (chg, IN, OUT) \<and>
      (b = entryIdx \<or> \<not> has_pred G b \<or> must_meet (Facts G) G OUT b = IN ! b) \<or>
    (\<exists>IN' OUT'. must_block (computeOUT G) (Facts G) G entryIdx b (chg, IN, OUT) = (True, IN', OUT') \<and> must_inv G entryIdx (IN', OUT') \<and>
      size_of G IN' < size_of G IN)"
proof (cases "b = entryIdx \<or> \<not> has_pred G b \<or> must_meet (Facts G) G OUT b = IN ! b")
  case True
  then show ?thesis by (auto simp: must_block_def Let_def)
next
  case False
  note I = must_invD [OF inv]
  let ?new = "must_meet (Facts G) G OUT b"
  let ?IN = "IN[b := ?new]" and ?OUT = "OUT[b := computeOUT G b ?new]"
  have sub: "?new \<subset> IN ! b" using I(7) [OF b] False by blast
  have out: "?OUT ! p \<subseteq> OUT ! p" if "p < length (Blocks G)" for p
    using sub I(2) I(6) [OF b] that by (cases "p = b") (auto simp: adds)
  have "must_inv G entryIdx (?IN, ?OUT)"
  proof -
    have "?IN ! c \<subseteq> Facts G \<and> on_all_walks G entryIdx c \<subseteq> ?IN ! c \<and> ?OUT ! c = ?IN ! c \<union> gen G c \<and>
        (c \<noteq> entryIdx \<longrightarrow> must_meet (Facts G) G ?OUT c \<subseteq> ?IN ! c)" if c: "c < length (Blocks G)" for c
    proof (cases "c = b")
      case True
      then show ?thesis using walks_meet [OF wf inv b] meet_mono [of G ?OUT OUT, OF out] sub I(1,2) I(4) [OF b] b
        by (auto simp: adds)
    next
      case False
      have "must_meet (Facts G) G ?OUT c \<subseteq> IN ! c" if "c \<noteq> entryIdx"
        using meet_mono [of G ?OUT OUT c, OF out] I(7) [OF c that] by (rule subset_trans)
      then show ?thesis using I(4,5,6) [OF c] False by simp
    qed
    then show ?thesis using I(1,2,3) False by (auto simp: must_inv_def)
  qed
  moreover have "size_of G ?IN < size_of G IN"
  proof -
    have fin: "finite (IN ! c)" if "c < length (Blocks G)" for c by (rule finite_subset [OF I(4) [OF that] finite_facts])
    have "card (?IN ! c) \<le> card (IN ! c)" if "c < length (Blocks G)" for c
      using sub I(1) that fin [OF that] by (cases "c = b") (auto intro: card_mono)
    then have "\<forall>c \<in> {..<length (Blocks G)}. card (?IN ! c) \<le> card (IN ! c)" by simp
    moreover have "\<exists>c \<in> {..<length (Blocks G)}. card (?IN ! c) < card (IN ! c)"
      using sub I(1) b fin [OF b] by (auto intro!: bexI [of _ b] psubset_card_mono)
    ultimately show ?thesis by (rule sum_strict_mono_ex1 [OF finite_lessThan])
  qed
  moreover have "must_block (computeOUT G) (Facts G) G entryIdx b (chg, IN, OUT) = (True, ?IN, ?OUT)"
    using False by (simp add: must_block_def Let_def)
  ultimately show ?thesis by blast
qed

text \<open>The loop ends, and knows exactly what all walks have met.\<close>

lemma solved:
  assumes wf: "wf_cfg G" and entry: "entryIdx < length (Blocks G)"
  obtains IN where "must_solve (computeOUT G) (Facts G) G entryIdx = Some IN" and "length IN = length (Blocks G)"
    and "\<And>b. b < length (Blocks G) \<Longrightarrow> IN ! b = on_all_walks G entryIdx b"
proof -
  let ?still = "\<lambda>b (IN, OUT). b = entryIdx \<or> \<not> has_pred G b \<or> must_meet (Facts G) G OUT b = IN ! b"
  obtain w where w: "while_option fst (\<lambda>(chg, w). fold (must_block (computeOUT G) (Facts G) G entryIdx) [0..<length (Blocks G)] (False, w))
        (True, snd (must_start (computeOUT G) (Facts G) G entryIdx)) = Some (False, w)"
      "must_inv G entryIdx w" "\<And>b. b \<in> set [0..<length (Blocks G)] \<Longrightarrow> ?still b w"
  proof (rule rounds_end [of "must_inv G entryIdx" "[0..<length (Blocks G)]" _ ?still "\<lambda>w. size_of G (fst w)", OF _ must_start_inv [OF entry]])
    fix chg w b assume "must_inv G entryIdx w" "b \<in> set [0..<length (Blocks G)]"
    then show "must_block (computeOUT G) (Facts G) G entryIdx b (chg, w) = (chg, w) \<and> ?still b w \<or>
        (\<exists>w'. must_block (computeOUT G) (Facts G) G entryIdx b (chg, w) = (True, w') \<and> must_inv G entryIdx w' \<and>
          size_of G (fst w') < size_of G (fst w))"
      using block_step [OF wf, of entryIdx "fst w" "snd w" b chg] by (cases w) fastforce
  qed (rule that)
  obtain IN OUT where io: "w = (IN, OUT)" by (cases w)
  have inv: "must_inv G entryIdx (IN, OUT)"
    and eq: "\<And>b. b < length (Blocks G) \<Longrightarrow> b \<noteq> entryIdx \<Longrightarrow> has_pred G b \<Longrightarrow> must_meet (Facts G) G OUT b = IN ! b"
    using w(2,3) io by auto
  have t: "while_option fst (\<lambda>(chg, w). must_round (computeOUT G) (Facts G) G entryIdx w)
      (must_start (computeOUT G) (Facts G) G entryIdx) = Some (False, IN, OUT)"
    using w(1) io by (simp add: must_round_def must_start_def Let_def)
  note I = must_invD [OF inv]
  have sound: "x \<in> \<Union> (gen G ` set (butlast bs))" if "walk G bs" "hd bs = entryIdx" "x \<in> IN ! last bs" for bs x
    using that
  proof (induction bs rule: rev_induct)
    case (snoc b bs)
    show ?case
    proof (cases "b = entryIdx")
      case True
      with snoc.prems I(3) show ?thesis by simp
    next
      case False
      with snoc.prems(2) have ne: "bs \<noteq> []" by auto
      have w: "walk G bs" "b \<in> set (succs G (last bs))"
        using snoc.prems(1) ne by (induction bs rule: induct_list012) auto
      have lb: "last bs < length (Blocks G)" by (rule walk_last [OF w(1)])
      have b: "b < length (Blocks G)" using wf lb w(2) by (auto simp: wf_cfg_def)
      have "has_pred G b" using lb w(2) by (auto simp: has_pred_def list_ex_iff)
      with eq [OF b False] snoc.prems(3) have "x \<in> must_meet (Facts G) G OUT b" by simp
      then have "x \<in> IN ! last bs \<union> gen G (last bs)" using lb w(2) I(6) [OF lb] by (auto simp: meet_iff)
      then show ?thesis
      proof
        assume "x \<in> IN ! last bs"
        with snoc.IH w(1) snoc.prems(2) ne have "x \<in> \<Union> (gen G ` set (butlast bs))" by simp
        then show ?thesis using ne by (auto dest: in_set_butlastD)
      qed (use ne in auto)
    qed
  qed simp
  show thesis
  proof (rule that)
    show "must_solve (computeOUT G) (Facts G) G entryIdx = Some IN" using t by (simp add: must_solve_def)
    show "length IN = length (Blocks G)" by (rule I(1))
    show "IN ! b = on_all_walks G entryIdx b" if b: "b < length (Blocks G)" for b
      using I(4,5) [OF b] sound by (auto simp: on_all_walks_def)
  qed
qed

end

end
