(* ===== verification/FlowEvents.thy ===== *)
theory FlowEvents
  imports AstAccess
begin

text \<open>
  The reads and definitions of a statement (\<open>AnalysisVisitor\<close>, \<open>collectReadsAndDefs\<close>) and the locals it
  declares (\<open>BodyDeclCollector\<close>), from \<open>src/src/analysis/Analysis.cpp\<close>. \<open>BlockInCFG\<close> says which run blocks of
  a \<open>recover\<close> the graph holds as blocks of its own.
\<close>

section \<open>Reads and definitions\<close>

datatype Event = Read SourceLocation VariableSymbol | Def SourceLocation VariableSymbol

definition optional_event :: "(VariableSymbol \<Rightarrow> Event list) \<Rightarrow> VariableSymbol option \<Rightarrow> Event list" where
  "optional_event f S = (case S of None \<Rightarrow> [] | Some S \<Rightarrow> f S)"

text \<open>The callbacks a node fires itself, after those of the nodes it visits.\<close>

definition own_events :: "TypeTable \<Rightarrow> ExprAST \<Rightarrow> Event list" where
  "own_events LookupType e = (case e of
      VariableExpr loc x S \<Rightarrow> optional_event (\<lambda>S. [Read loc S]) S
    | VarDeclExpr loc name init S \<Rightarrow> if init \<noteq> NoExpr then optional_event (\<lambda>S. [Def loc S]) S else []
    | AssignmentExpr loc l r \<Rightarrow>
        if is_variable l then optional_event (\<lambda>S. [Def loc S]) (target_symbol l)
        else (case inPlaceArrayRoot LookupType l of Some (Root, Indices) \<Rightarrow> [Read loc Root, Def loc Root] | None \<Rightarrow> [])
    | CompoundAssignmentExpr loc op l r p \<Rightarrow> optional_event (\<lambda>S. [Read loc S, Def loc S]) (target_symbol l)
    | PostfixExpr loc op x pre p \<Rightarrow> optional_event (\<lambda>S. [Read loc S, Def loc S]) (target_symbol x)
    | BindingPattern loc name S \<Rightarrow> optional_event (\<lambda>S. [Def loc S]) S
    | ArrayDeclExpr loc name sz inits init S \<Rightarrow>
        if inits \<noteq> [] \<or> init \<noteq> NoExpr \<or> sz \<ge> 0 then optional_event (\<lambda>S. [Def loc S]) S else []
    | _ \<Rightarrow> [])"

definition unless_variable :: "ExprAST \<Rightarrow> ExprAST list" where
  "unless_variable e = (if is_variable e then [] else [e])"

definition event_children :: "TypeTable \<Rightarrow> (ExprAST \<Rightarrow> bool) \<Rightarrow> ExprAST \<Rightarrow> ExprAST list" where
  "event_children LookupType BlockInCFG e = (case e of
      AssignmentExpr loc l r \<Rightarrow>
        r # (if is_variable l then []
             else case inPlaceArrayRoot LookupType l of Some (Root, Indices) \<Rightarrow> Indices | None \<Rightarrow> [l])
    | CompoundAssignmentExpr loc op l r p \<Rightarrow> r # unless_variable l
    | PostfixExpr loc op x pre p \<Rightarrow> unless_variable x
    | RecoverExpr loc w k p b \<Rightarrow> w # p # (if BlockInCFG e then [] else [b])
    | _ \<Rightarrow> children e)"

lemma size_event_children: "c \<in> set (event_children L B e) \<Longrightarrow> size c < size e"
  using size_in_place [of L _ _ _ c]
  by (cases e) (auto simp: event_children_def unless_variable_def dest: size_children split: if_split_asm option.splits,
    fastforce+)

function events :: "TypeTable \<Rightarrow> (ExprAST \<Rightarrow> bool) \<Rightarrow> ExprAST \<Rightarrow> Event list" where
  "events LookupType BlockInCFG e =
    concat (map (events LookupType BlockInCFG) (event_children LookupType BlockInCFG e)) @ own_events LookupType e"
  by pat_completeness auto
termination
  by (relation "measure (\<lambda>(L, B, e). size e)") (auto intro: size_event_children)

declare events.simps [simp del]

section \<open>Declared locals\<close>

text \<open>What \<open>BodyDeclCollector\<close> gathers: a local, whether it is a pattern binding, and its file.\<close>

definition own_locals :: "ExprAST \<Rightarrow> (VariableSymbol \<times> bool \<times> string) list" where
  "own_locals e = (case e of
      VarDeclExpr loc name init (Some S) \<Rightarrow> [(S, False, LocFilename loc)]
    | ArrayDeclExpr loc name sz inits init (Some S) \<Rightarrow> [(S, False, LocFilename loc)]
    | BindingPattern loc name (Some S) \<Rightarrow> [(S, True, LocFilename loc)]
    | _ \<Rightarrow> [])"

function body_locals :: "ExprAST \<Rightarrow> (VariableSymbol \<times> bool \<times> string) list" where
  "body_locals e = own_locals e @ concat (map body_locals (children e))"
  by pat_completeness auto
termination
  by (relation "measure size") (auto intro: size_children)

declare body_locals.simps [simp del]

definition event_symbol :: "Event \<Rightarrow> VariableSymbol" where
  "event_symbol ev = (case ev of Read loc S \<Rightarrow> S | Def loc S \<Rightarrow> S)"

definition is_def :: "Event \<Rightarrow> bool" where
  "is_def ev = (case ev of Read loc S \<Rightarrow> False | Def loc S \<Rightarrow> True)"

lemma event_simps [simp]:
  "event_symbol (Read loc S) = S" "event_symbol (Def loc S) = S" "\<not> is_def (Read loc S)" "is_def (Def loc S)"
  by (simp_all add: event_symbol_def is_def_def)

end
