(* ===== verification/DefiniteAssignment.thy ===== *)
theory DefiniteAssignment
  imports MustFlow FlowEvents CfgReport
begin

text \<open>
  \<open>DefiniteAssignmentPass\<close> and \<open>ConstructorFieldAssignmentPass\<close> of \<open>src/src/analysis/Analysis.cpp\<close>. The
  theorems say exactly what they report: a local read on some walk through the graph before anything
  assigned it, and a field that some walk from the entry to the exit does not assign. Sets of symbols are
  sets of addresses.
\<close>

section \<open>Definite assignment\<close>

definition block_events :: "TypeTable \<Rightarrow> (ExprAST \<Rightarrow> bool) \<Rightarrow> ExprAST CFG \<Rightarrow> nat \<Rightarrow> Event list" where
  "block_events LookupType BlockInCFG G b = concat (map (events LookupType BlockInCFG) (Statements (Blocks G ! b)))"

definition defs_of :: "Event list \<Rightarrow> nat set" where
  "defs_of evs = set (map (\<lambda>ev. VarId (event_symbol ev)) (filter is_def evs))"

definition graph_locals :: "ExprAST CFG \<Rightarrow> nat set" where
  "graph_locals G = set (map (\<lambda>(S, binding, file). VarId S)
     (concat (map (\<lambda>B. concat (map body_locals (Statements B))) (Blocks G))))"

definition note_def :: "Event \<Rightarrow> nat set \<Rightarrow> nat set" where
  "note_def ev cur = (if is_def ev then insert (VarId (event_symbol ev)) cur else cur)"

definition assigned_after :: "TypeTable \<Rightarrow> (ExprAST \<Rightarrow> bool) \<Rightarrow> ExprAST CFG \<Rightarrow> nat \<Rightarrow> nat set \<Rightarrow> nat set" where
  "assigned_after LookupType BlockInCFG G b IN =
    fold (\<lambda>Stmt. fold note_def (events LookupType BlockInCFG Stmt)) (Statements (Blocks G ! b)) IN"

definition entry_index :: "'s CFG \<Rightarrow> nat" where
  "entry_index G = (case EntryBlock G of Some e \<Rightarrow> e | None \<Rightarrow> 0)"

datatype AssignReport =
    DefiniteAssignmentError SourceLocation VariableSymbol bool SourceLocation
  | IncompleteConstructorError SourceLocation string "string list"

text \<open>The error of a read: is \<open>T::default()\<close> suggested, and where the variable is declared.\<close>

definition unassigned_read :: "SourceLocation \<Rightarrow> VariableSymbol \<Rightarrow> AssignReport" where
  "unassigned_read loc S = DefiniteAssignmentError loc S
     (case VarType S of Some (TurfStructType name fs ps) \<Rightarrow> True | _ \<Rightarrow> False)
     (loc3 (Line (VarDeclLoc S)) (Col (VarDeclLoc S)) (LocFilename loc))"

fun assign_reports :: "nat set \<Rightarrow> Event list \<Rightarrow> nat set \<Rightarrow> AssignReport list" where
  "assign_reports locals [] cur = []"
| "assign_reports locals (Read loc S # evs) cur =
    (if VarId S \<in> locals \<and> VarId S \<notin> cur then [unassigned_read loc S] else []) @ assign_reports locals evs cur"
| "assign_reports locals (Def loc S # evs) cur = assign_reports locals evs (insert (VarId S) cur)"

text \<open>The first report is raised.\<close>

definition raise_first :: "'e list \<Rightarrow> 'e + unit" where
  "raise_first rs = (case rs of [] \<Rightarrow> Inr () | r # _ \<Rightarrow> Inl r)"

definition runDefiniteAssignment :: "TypeTable \<Rightarrow> (ExprAST \<Rightarrow> bool) \<Rightarrow> ExprAST CFG \<Rightarrow> (AssignReport + unit) option" where
  "runDefiniteAssignment LookupType BlockInCFG G =
    (if Blocks G = [] then Some (Inr ())
     else map_option (\<lambda>IN. raise_first (concat (map (\<lambda>b.
            assign_reports (graph_locals G) (block_events LookupType BlockInCFG G b) (IN ! b)) [0..<length (Blocks G)])))
       (must_solve (assigned_after LookupType BlockInCFG G) (graph_locals G) G (entry_index G)))"

section \<open>Constructors\<close>

definition asSelfFieldName :: "ExprAST \<Rightarrow> string option" where
  "asSelfFieldName LHS = (case LHS of
      FieldAccessExpr loc base f \<Rightarrow>
        (case base of VariableExpr vl name S \<Rightarrow> if name = ''self'' then Some f else None | _ \<Rightarrow> None)
    | _ \<Rightarrow> None)"

definition unless_self_field :: "ExprAST \<Rightarrow> ExprAST list" where
  "unless_self_field e = (if asSelfFieldName e = None then [e] else [])"

definition field_children :: "ExprAST \<Rightarrow> ExprAST list" where
  "field_children e = (case e of
      AssignmentExpr loc l r \<Rightarrow> r # unless_self_field l
    | CompoundAssignmentExpr loc op l r p \<Rightarrow> r # unless_self_field l
    | PostfixExpr loc op x pre p \<Rightarrow> unless_self_field x
    | RecoverExpr loc w k p b \<Rightarrow> [w]
    | _ \<Rightarrow> children e)"

definition own_fields :: "ExprAST \<Rightarrow> string list" where
  "own_fields e = (case e of
      AssignmentExpr loc l r \<Rightarrow> case_option [] (\<lambda>f. [f]) (asSelfFieldName l)
    | CompoundAssignmentExpr loc op l r p \<Rightarrow> case_option [] (\<lambda>f. [f]) (asSelfFieldName l)
    | PostfixExpr loc op x pre p \<Rightarrow> case_option [] (\<lambda>f. [f]) (asSelfFieldName x)
    | _ \<Rightarrow> [])"

lemma size_field_children: "c \<in> set (field_children e) \<Longrightarrow> size c < size e"
  by (cases e) (auto simp: field_children_def unless_self_field_def dest: size_children split: if_split_asm)

function self_fields :: "ExprAST \<Rightarrow> string list" where
  "self_fields e = concat (map self_fields (field_children e)) @ own_fields e"
  by pat_completeness auto
termination
  by (relation "measure size") (auto intro: size_field_children)

declare self_fields.simps [simp del]

definition fields_after :: "ExprAST CFG \<Rightarrow> nat \<Rightarrow> string set \<Rightarrow> string set" where
  "fields_after G b IN = fold (\<lambda>Stmt. fold insert (self_fields Stmt)) (Statements (Blocks G ! b)) IN"

definition runConstructor :: "string \<Rightarrow> string list \<Rightarrow> SourceLocation \<Rightarrow> ExprAST CFG \<Rightarrow> (AssignReport + unit) option" where
  "runConstructor StructName RequiredFields ConstructorLoc G =
    (if Blocks G = [] \<or> RequiredFields = [] then Some (Inr ())
     else map_option (\<lambda>IN.
         let AssignedOnEveryPath = (case ExitBlock G of Some x \<Rightarrow> IN ! x | None \<Rightarrow> set RequiredFields);
             Missing = filter (\<lambda>f. f \<notin> AssignedOnEveryPath) RequiredFields
         in if Missing \<noteq> [] then Inl (IncompleteConstructorError ConstructorLoc StructName Missing) else Inr ())
       (must_solve (fields_after G) (set RequiredFields) G (entry_index G)))"

section \<open>Both passes provide what the loop asks\<close>

definition block_fields :: "ExprAST CFG \<Rightarrow> nat \<Rightarrow> string list" where
  "block_fields G b = concat (map self_fields (Statements (Blocks G ! b)))"

lemma fold_note_def: "fold note_def evs X = X \<union> defs_of evs"
  by (induction evs arbitrary: X) (auto simp: note_def_def defs_of_def)

lemma defs_of_append [simp]: "defs_of (xs @ ys) = defs_of xs \<union> defs_of ys"
  by (auto simp: defs_of_def)

lemma assigned_after_eq: "assigned_after L B G b X = X \<union> defs_of (block_events L B G b)"
proof -
  have "fold (\<lambda>Stmt. fold note_def (events L B Stmt)) ss X = X \<union> defs_of (concat (map (events L B) ss))" for ss X
    by (induction ss arbitrary: X) (auto simp: fold_note_def defs_of_def)
  then show ?thesis by (simp add: assigned_after_def block_events_def)
qed

lemma fields_after_eq: "fields_after G b X = X \<union> set (block_fields G b)"
proof -
  have one: "fold insert fs X = X \<union> set fs" for fs and X :: "string set" by (induction fs arbitrary: X) auto
  have "fold (\<lambda>Stmt. fold insert (self_fields Stmt)) ss X = X \<union> set (concat (map self_fields ss))" for ss X
    by (induction ss arbitrary: X) (auto simp: one)
  then show ?thesis by (simp add: fields_after_def block_fields_def)
qed

interpretation assign: must_flow graph_locals "assigned_after L B" "\<lambda>G b. defs_of (block_events L B G b)" for L B
  by unfold_locales (simp_all add: assigned_after_eq graph_locals_def)

interpretation fields: must_flow "\<lambda>G. set Required" fields_after "\<lambda>G b. set (block_fields G b)" for Required
  by unfold_locales (simp_all add: fields_after_eq)

section \<open>What the passes report\<close>

definition walk_events :: "TypeTable \<Rightarrow> (ExprAST \<Rightarrow> bool) \<Rightarrow> ExprAST CFG \<Rightarrow> nat list \<Rightarrow> Event list" where
  "walk_events L B G bs = concat (map (block_events L B G) bs)"

text \<open>A walk from the entry on which a local is read before it is assigned.\<close>

definition reads_unassigned :: "TypeTable \<Rightarrow> (ExprAST \<Rightarrow> bool) \<Rightarrow> ExprAST CFG \<Rightarrow> nat list \<Rightarrow> SourceLocation \<Rightarrow> VariableSymbol \<Rightarrow> bool" where
  "reads_unassigned L B G bs loc S \<longleftrightarrow> walk G bs \<and> hd bs = entry_index G \<and> VarId S \<in> graph_locals G \<and>
     (\<exists>pre post. walk_events L B G bs = pre @ Read loc S # post \<and> VarId S \<notin> defs_of pre)"

lemma ex_list: "(\<exists>xs. P xs) \<longleftrightarrow> P [] \<or> (\<exists>y ys. P (y # ys))"
  by (metis list.exhaust)

lemma defs_of_simps [simp]:
  "defs_of [] = {}" "defs_of (Read loc S # evs) = defs_of evs" "defs_of (Def loc S # evs) = insert (VarId S) (defs_of evs)"
  by (auto simp: defs_of_def)

lemma assign_reports_iff: "r \<in> set (assign_reports X evs cur) \<longleftrightarrow>
    (\<exists>pre loc S post. evs = pre @ Read loc S # post \<and> VarId S \<in> X \<and> VarId S \<notin> cur \<union> defs_of pre \<and> r = unassigned_read loc S)"
proof (induction X evs cur rule: assign_reports.induct)
  case (2 X l T evs cur)
  show ?case by (subst ex_list) (auto simp: 2)
next
  case (3 X l T evs cur)
  show ?case by (subst ex_list) (auto simp: 3)
qed simp

lemma defs_walk: "defs_of (walk_events L B G bs) = \<Union> ((\<lambda>b. defs_of (block_events L B G b)) ` set bs)"
  by (induction bs) (auto simp: walk_events_def defs_of_def)

lemma split_concat: "concat (map f bs) = pre @ x # post \<Longrightarrow>
    \<exists>bs1 b bs2 p q. bs = bs1 @ b # bs2 \<and> f b = p @ x # q \<and> pre = concat (map f bs1) @ p"
proof (induction bs arbitrary: pre)
  case (Cons b bs)
  then have "f b @ concat (map f bs) = pre @ x # post" by simp
  then obtain us where "f b = pre @ us \<and> us @ concat (map f bs) = x # post \<or> f b @ us = pre \<and> concat (map f bs) = us @ x # post"
    by (auto simp: append_eq_append_conv2)
  then consider (here) q where "f b = pre @ x # q" | (later) pre' where "pre = f b @ pre'" "concat (map f bs) = pre' @ x # post"
    by (cases us) auto
  then show ?case
  proof cases
    case here
    then have "b # bs = [] @ b # bs \<and> f b = pre @ x # q \<and> pre = concat (map f []) @ pre" by simp
    then show ?thesis by blast
  next
    case later
    from Cons.IH [OF later(2)] obtain bs1 c bs2 p q where "bs = bs1 @ c # bs2" "f c = p @ x # q" "pre' = concat (map f bs1) @ p" by blast
    then have "b # bs = (b # bs1) @ c # bs2 \<and> f c = p @ x # q \<and> pre = concat (map f (b # bs1)) @ p" using later(1) by simp
    then show ?thesis by blast
  qed
qed simp

lemma walk_prefix: "walk G (bs1 @ b # bs2) \<Longrightarrow> walk G (bs1 @ [b])"
proof (induction bs1 rule: induct_list012)
  case 1
  then show ?case by (cases bs2) simp_all
next
  case (2 a)
  then show ?case by (cases bs2) simp_all
qed simp

text \<open>The reports of the pass are the unassigned reads of all walks.\<close>

lemma unassigned_reads:
  assumes wf: "wf_cfg G"
  obtains IN where "must_solve (assigned_after L B G) (graph_locals G) G (entry_index G) = Some IN"
    and "\<And>r. r \<in> set (concat (map (\<lambda>b. assign_reports (graph_locals G) (block_events L B G b) (IN ! b)) [0..<length (Blocks G)]))
      \<longleftrightarrow> (\<exists>bs loc S. reads_unassigned L B G bs loc S \<and> r = unassigned_read loc S)"
proof -
  have entry: "entry_index G < length (Blocks G)" using wf by (auto simp: wf_cfg_def entry_index_def)
  obtain IN where IN: "must_solve (assigned_after L B G) (graph_locals G) G (entry_index G) = Some IN"
      "\<And>b. b < length (Blocks G) \<Longrightarrow> IN ! b = assign.on_all_walks L B G (entry_index G) b"
    using assign.solved [OF wf entry] by metis
  show thesis
  proof (rule that [OF IN(1)], rule iffI)
    fix r assume "r \<in> set (concat (map (\<lambda>b. assign_reports (graph_locals G) (block_events L B G b) (IN ! b)) [0..<length (Blocks G)]))"
    then obtain b pre loc S post where b: "b < length (Blocks G)" "block_events L B G b = pre @ Read loc S # post"
        "VarId S \<in> graph_locals G" "VarId S \<notin> IN ! b \<union> defs_of pre" "r = unassigned_read loc S"
      by (auto simp: assign_reports_iff)
    then obtain bs where bs: "walk G bs" "hd bs = entry_index G" "last bs = b"
        "VarId S \<notin> \<Union> ((\<lambda>b. defs_of (block_events L B G b)) ` set (butlast bs))"
      using IN(2) [OF b(1)] by (auto simp: assign.on_all_walks_def)
    have "bs \<noteq> []" using bs(1) by auto
    then have "walk_events L B G bs = (walk_events L B G (butlast bs) @ pre) @ Read loc S # post"
      using bs(3) b(2) append_butlast_last_id [of bs] by (metis append.assoc append.right_neutral concat.simps concat_append list.map map_append walk_events_def)
    moreover have "VarId S \<notin> defs_of (walk_events L B G (butlast bs) @ pre)" using bs(4) b(4) by (simp add: defs_walk)
    ultimately have "reads_unassigned L B G bs loc S" using bs(1,2) b(3) unfolding reads_unassigned_def by blast
    with b(5) show "\<exists>bs loc S. reads_unassigned L B G bs loc S \<and> r = unassigned_read loc S" by blast
  next
    fix r assume "\<exists>bs loc S. reads_unassigned L B G bs loc S \<and> r = unassigned_read loc S"
    then obtain bs loc S pre post where w: "walk G bs" "hd bs = entry_index G" "VarId S \<in> graph_locals G"
        "walk_events L B G bs = pre @ Read loc S # post" "VarId S \<notin> defs_of pre" "r = unassigned_read loc S"
      by (auto simp: reads_unassigned_def)
    from split_concat [OF w(4) [unfolded walk_events_def]]
    obtain bs1 b bs2 p q where s: "bs = bs1 @ b # bs2" "block_events L B G b = p @ Read loc S # q"
        "pre = walk_events L B G bs1 @ p" unfolding walk_events_def by blast
    have wb: "walk G (bs1 @ [b])" using w(1) s(1) walk_prefix by blast
    then have b: "b < length (Blocks G)" using assign.walk_last by fastforce
    have "hd (bs1 @ [b]) = entry_index G" using w(2) s(1) by (cases bs1) simp_all
    moreover have "VarId S \<notin> \<Union> ((\<lambda>b. defs_of (block_events L B G b)) ` set bs1)" using w(5) s(3) by (simp add: defs_walk)
    ultimately have "VarId S \<notin> IN ! b" using IN(2) [OF b] wb by (auto simp: assign.on_all_walks_def intro!: exI [of _ "bs1 @ [b]"])
    then have "r \<in> set (assign_reports (graph_locals G) (block_events L B G b) (IN ! b))"
      using s w(3,5,6) by (auto simp: assign_reports_iff)
    with b show "r \<in> set (concat (map (\<lambda>b. assign_reports (graph_locals G) (block_events L B G b) (IN ! b)) [0..<length (Blocks G)]))"
      by auto
  qed
qed

lemma raise_first_iff:
  "raise_first rs = Inr () \<longleftrightarrow> set rs = {}" "raise_first rs = Inl r \<Longrightarrow> r \<in> set rs"
  by (cases rs; simp add: raise_first_def)+

text \<open>
  C7. The definite-assignment pass is exact on the graph it is given: it always answers, it raises an
  error exactly when on some walk from the entry a local of the body is read before anything on the walk
  assigned it, and the error it raises is such a read.
\<close>

theorem definite_assignment_exact:
  assumes G: "buildCFG name void body loc mangled = Inr G"
  shows "(case runDefiniteAssignment L B G of
      None \<Rightarrow> False
    | Some (Inr u) \<Rightarrow> \<not> (\<exists>bs l S. reads_unassigned L B G bs l S)
    | Some (Inl e) \<Rightarrow> \<exists>bs l S. reads_unassigned L B G bs l S \<and> e = unassigned_read l S)"
proof (rule unassigned_reads [of G L B, OF built_wf(1) [OF G]])
  note wf = built_wf [OF G]
  fix IN assume IN: "must_solve (assigned_after L B G) (graph_locals G) G (entry_index G) = Some IN"
    and r: "\<And>r. r \<in> set (concat (map (\<lambda>b. assign_reports (graph_locals G) (block_events L B G b) (IN ! b)) [0..<length (Blocks G)]))
      \<longleftrightarrow> (\<exists>bs loc S. reads_unassigned L B G bs loc S \<and> r = unassigned_read loc S)"
  define rs where "rs = concat (map (\<lambda>b. assign_reports (graph_locals G) (block_events L B G b) (IN ! b)) [0..<length (Blocks G)])"
  have run: "runDefiniteAssignment L B G = Some (raise_first rs)"
    using wf(4) by (cases "Blocks G = []") (simp_all add: runDefiniteAssignment_def IN rs_def)
  show ?thesis
  proof (cases "raise_first rs")
    case (Inl e)
    have "e \<in> set rs" using Inl by (rule raise_first_iff(2))
    with r run Inl show ?thesis by (simp add: rs_def)
  next
    case (Inr u)
    then have "set rs = {}" using raise_first_iff(1) [of rs] by simp
    then have "\<not> reads_unassigned L B G bs l S" for bs l S
      using r [of "unassigned_read l S"] by (auto simp: rs_def)
    with run Inr show ?thesis by simp
  qed
qed

text \<open>
  C8. The constructor check is exact: it always answers, and names exactly those required fields that
  some walk from the entry to the exit of the constructor does not assign.
\<close>

theorem constructor_fields_exact:
  assumes G: "buildCFG name void body loc mangled = Inr G" and "required \<noteq> []"
  shows "runConstructor struct required cloc G =
    Some (let Missing = filter (\<lambda>f. \<exists>bs. walk G bs \<and> hd bs = 0 \<and> last bs = 1 \<and>
                f \<notin> set (concat (map (block_fields G) (butlast bs)))) required
          in if Missing \<noteq> [] then Inl (IncompleteConstructorError cloc struct Missing) else Inr ())"
proof -
  note wf = built_wf [OF G]
  have entry: "entry_index G = 0" "entry_index G < length (Blocks G)" using wf by (auto simp: entry_index_def)
  obtain IN where IN: "must_solve (fields_after G) (set required) G (entry_index G) = Some IN"
      "\<And>b. b < length (Blocks G) \<Longrightarrow> IN ! b = fields.on_all_walks required G (entry_index G) b"
    using fields.solved [OF wf(1) entry(2)] by metis
  have "filter (\<lambda>f. f \<notin> IN ! 1) required = filter (\<lambda>f. \<exists>bs. walk G bs \<and> hd bs = 0 \<and> last bs = 1 \<and>
      f \<notin> set (concat (map (block_fields G) (butlast bs)))) required"
    unfolding IN(2) [OF wf(4)] entry by (intro filter_cong) (auto simp: fields.on_all_walks_def)
  moreover have "Blocks G \<noteq> []" using wf(4) by auto
  ultimately show ?thesis using assms(2) by (simp add: runConstructor_def IN(1) wf(3) Let_def)
qed

lemma definite_assignment_exact_witness:
  "\<exists>G. buildCFG ''f'' False search_body (loc3 1 1 []) [] = Inr G \<and>
    (case runDefiniteAssignment Map.empty (\<lambda>e. True) G of
      None \<Rightarrow> False
    | Some (Inr u) \<Rightarrow> \<not> (\<exists>bs l S. reads_unassigned Map.empty (\<lambda>e. True) G bs l S)
    | Some (Inl e) \<Rightarrow> \<exists>bs l S. reads_unassigned Map.empty (\<lambda>e. True) G bs l S \<and> e = unassigned_read l S)"
proof -
  obtain G where G: "buildCFG ''f'' False search_body (loc3 1 1 []) [] = Inr G"
    using search_body_checks by (rule returns_everywhereE)
  with definite_assignment_exact [OF G, of Map.empty "\<lambda>e. True"] show ?thesis by blast
qed

lemma constructor_fields_exact_witness:
  "\<exists>G. buildCFG ''f'' False search_body (loc3 1 1 []) [] = Inr G \<and>
    runConstructor ''Point'' [''x''] (loc3 1 1 []) G =
      Some (let Missing = filter (\<lambda>f. \<exists>bs. walk G bs \<and> hd bs = 0 \<and> last bs = 1 \<and>
                f \<notin> set (concat (map (block_fields G) (butlast bs)))) [''x'']
          in if Missing \<noteq> [] then Inl (IncompleteConstructorError (loc3 1 1 []) ''Point'' Missing) else Inr ())"
proof -
  obtain G where G: "buildCFG ''f'' False search_body (loc3 1 1 []) [] = Inr G"
    using search_body_checks by (rule returns_everywhereE)
  with constructor_fields_exact [OF G, of "[''x'']"] show ?thesis by blast
qed

end
