(* ===== verification/Liveness.thy ===== *)
theory Liveness
  imports DefiniteAssignment "HOL-Library.AList" "HOL-Library.Product_Lexorder" "HOL-Library.List_Lexorder" "HOL-Library.Char_ord"
begin

text \<open>
  \<open>LivenessAnalysisPass\<close> of \<open>src/src/analysis/Analysis.cpp\<close>: the backward data-flow loop and the warnings
  about unused variables and dead stores. The theorems show that the loop ends with exactly the variables
  some walk reads before it writes them, and that a store is reported dead exactly when no walk from it
  does.
\<close>

section \<open>Gen, Kill and what is ever read\<close>

fun is_defer :: "ExprAST \<Rightarrow> bool" where
  "is_defer (DeferExpr loc st) = True"
| "is_defer _ = False"

text \<open>A deferred statement counts where it runs, so its place is skipped.\<close>

definition live_events :: "TypeTable \<Rightarrow> (ExprAST \<Rightarrow> bool) \<Rightarrow> ExprAST CFG \<Rightarrow> nat \<Rightarrow> Event list" where
  "live_events L B G b =
    concat (map (\<lambda>s. if is_defer s then [] else events L B s) (StatementsWithDeferredRuns (Blocks G ! b)))"

fun gen_kill :: "Event list \<Rightarrow> nat set \<times> nat set \<Rightarrow> nat set \<times> nat set" where
  "gen_kill [] (Gen, Kill) = (Gen, Kill)"
| "gen_kill (Read loc S # evs) (Gen, Kill) =
     gen_kill evs (if VarId S \<notin> Kill then insert (VarId S) Gen else Gen, Kill)"
| "gen_kill (Def loc S # evs) (Gen, Kill) = gen_kill evs (Gen, insert (VarId S) Kill)"

definition ever_read :: "TypeTable \<Rightarrow> (ExprAST \<Rightarrow> bool) \<Rightarrow> ExprAST CFG \<Rightarrow> nat set" where
  "ever_read L B G = set (map (\<lambda>ev. VarId (event_symbol ev)) (filter (\<lambda>ev. \<not> is_def ev)
     (concat (map (\<lambda>BB. concat (map (events L B) (StatementsWithDeferredRuns BB))) (Blocks G)))))"

section \<open>The loop\<close>

type_synonym LiveState = "bool \<times> nat set list \<times> nat set list"

definition live_block :: "(nat set \<times> nat set) list \<Rightarrow> 's CFG \<Rightarrow> nat \<Rightarrow> LiveState \<Rightarrow> LiveState" where
  "live_block gk G b w = (case w of (Changed, LiveIn, LiveOut) \<Rightarrow>
     let NewOut = fold (\<lambda>s X. X \<union> LiveIn ! s) (succs G b) {};
         NewIn = fst (gk ! b) \<union> (NewOut - snd (gk ! b))
     in if NewOut \<noteq> LiveOut ! b \<or> NewIn \<noteq> LiveIn ! b then (True, LiveIn[b := NewIn], LiveOut[b := NewOut])
        else (Changed, LiveIn, LiveOut))"

definition live_round :: "(nat set \<times> nat set) list \<Rightarrow> 's CFG \<Rightarrow> nat set list \<times> nat set list \<Rightarrow> LiveState" where
  "live_round gk G w = fold (live_block gk G) (rev [0..<length (Blocks G)]) (False, w)"

definition live_solve :: "(nat set \<times> nat set) list \<Rightarrow> 's CFG \<Rightarrow> (nat set list \<times> nat set list) option" where
  "live_solve gk G = map_option snd (while_option fst (\<lambda>(Changed, w). live_round gk G w)
     (True, map fst gk, replicate (length (Blocks G)) {}))"

definition gen_kills :: "TypeTable \<Rightarrow> (ExprAST \<Rightarrow> bool) \<Rightarrow> ExprAST CFG \<Rightarrow> (nat set \<times> nat set) list" where
  "gen_kills L B G = map (\<lambda>b. gen_kill (live_events L B G b) ({}, {})) [0..<length (Blocks G)]"

section \<open>The warnings\<close>

datatype LiveReport =
    UnusedVariableWarning SourceLocation string
  | DeadStoreWarning SourceLocation string
  | DeadInitializerWarning SourceLocation VariableSymbol

text \<open>Every local once, with the file it is declared in; and those that a pattern binds.\<close>

definition declared_locals :: "ExprAST CFG \<Rightarrow> (nat \<times> VariableSymbol \<times> string) list" where
  "declared_locals G = fold (\<lambda>(S, binding, file). AList.update (VarId S) (S, file))
     (concat (map (\<lambda>BB. concat (map body_locals (Statements BB))) (Blocks G))) []"

definition pattern_bound :: "ExprAST CFG \<Rightarrow> nat set" where
  "pattern_bound G = set (map (\<lambda>(S, binding, file). VarId S) (filter (\<lambda>(S, binding, file). binding)
     (concat (map (\<lambda>BB. concat (map body_locals (Statements BB))) (Blocks G)))))"

definition underscored :: "VariableSymbol \<Rightarrow> bool" where
  "underscored S \<longleftrightarrow> VarName S \<noteq> [] \<and> hd (VarName S) = CHR ''_''"

definition unused_reports :: "TypeTable \<Rightarrow> (ExprAST \<Rightarrow> bool) \<Rightarrow> nat set \<Rightarrow> ExprAST CFG \<Rightarrow> LiveReport list" where
  "unused_reports L B ParamSymbols G =
    (let Unused = map (\<lambda>(x, S, file). (loc3 (Line (VarDeclLoc S)) (Col (VarDeclLoc S)) file, S))
           (filter (\<lambda>(x, S, file). \<not> underscored S \<and> x \<notin> ever_read L B G \<and> x \<notin> ParamSymbols) (declared_locals G))
     in map (\<lambda>(loc, S). UnusedVariableWarning loc (VarName S))
          (sort_key (\<lambda>(loc, S). (Line loc, Col loc, VarName S)) Unused))"

definition dead_report :: "ExprAST \<Rightarrow> SourceLocation \<Rightarrow> VariableSymbol \<Rightarrow> LiveReport list" where
  "dead_report Stmt loc S =
    (let (Declared, HasInitializer) = (case Stmt of
            VarDeclExpr l name init D \<Rightarrow> (D, True)
          | ArrayDeclExpr l name sz inits init D \<Rightarrow> (D, inits \<noteq> [] \<or> init \<noteq> NoExpr)
          | _ \<Rightarrow> (None, True))
     in if map_option VarId Declared \<noteq> Some (VarId S) then [DeadStoreWarning loc (VarName S)]
        else if HasInitializer then [DeadInitializerWarning loc S] else [])"

text \<open>May a store to the variable be reported at all?\<close>

definition reportable :: "TypeTable \<Rightarrow> (ExprAST \<Rightarrow> bool) \<Rightarrow> ExprAST CFG \<Rightarrow> VariableSymbol \<Rightarrow> bool" where
  "reportable L B G S \<longleftrightarrow> VarId S \<in> graph_locals G \<and> VarId S \<notin> pattern_bound G \<and>
     VarId S \<in> ever_read L B G \<and> \<not> underscored S"

text \<open>The events of a block from its end, with the statement each belongs to.\<close>

fun dead_reports :: "(VariableSymbol \<Rightarrow> bool) \<Rightarrow> (ExprAST \<times> Event) list \<Rightarrow> nat set \<Rightarrow> LiveReport list" where
  "dead_reports ok [] LiveAfter = []"
| "dead_reports ok ((Stmt, Read loc S) # evs) LiveAfter = dead_reports ok evs (insert (VarId S) LiveAfter)"
| "dead_reports ok ((Stmt, Def loc S) # evs) LiveAfter =
     (if ok S \<and> VarId S \<notin> LiveAfter then dead_report Stmt loc S else []) @
     dead_reports ok evs (LiveAfter - {VarId S})"

definition stmt_events :: "TypeTable \<Rightarrow> (ExprAST \<Rightarrow> bool) \<Rightarrow> ExprAST CFG \<Rightarrow> nat \<Rightarrow> (ExprAST \<times> Event) list" where
  "stmt_events L B G b = concat (map (\<lambda>s. if is_defer s then [] else map (Pair s) (events L B s))
     (StatementsWithDeferredRuns (Blocks G ! b)))"

definition runLiveness :: "TypeTable \<Rightarrow> (ExprAST \<Rightarrow> bool) \<Rightarrow> nat set \<Rightarrow> ExprAST CFG \<Rightarrow> LiveReport list option" where
  "runLiveness L B ParamSymbols G =
    (if Blocks G = [] then Some []
     else map_option (\<lambda>(LiveIn, LiveOut). unused_reports L B ParamSymbols G @
         concat (map (\<lambda>b. dead_reports (reportable L B G) (rev (stmt_events L B G b)) (LiveOut ! b)) [0..<length (Blocks G)]))
       (live_solve (gen_kills L B G) G))"

section \<open>Reading before writing\<close>

fun read_first :: "nat \<Rightarrow> Event list \<Rightarrow> bool" where
  "read_first x [] = False"
| "read_first x (Read loc S # evs) = (VarId S = x \<or> read_first x evs)"
| "read_first x (Def loc S # evs) = (VarId S \<noteq> x \<and> read_first x evs)"

lemma read_first_append: "read_first x (xs @ ys) \<longleftrightarrow> read_first x xs \<or> x \<notin> defs_of xs \<and> read_first x ys"
  by (induction x xs rule: read_first.induct) auto

lemma gen_kill_eq: "gen_kill evs (Gen, Kill) = (Gen \<union> {x. x \<notin> Kill \<and> read_first x evs}, Kill \<union> defs_of evs)"
  by (induction evs "(Gen, Kill)" arbitrary: Gen Kill rule: gen_kill.induct) auto

definition live_walk :: "TypeTable \<Rightarrow> (ExprAST \<Rightarrow> bool) \<Rightarrow> ExprAST CFG \<Rightarrow> nat list \<Rightarrow> Event list" where
  "live_walk L B G bs = concat (map (live_events L B G) bs)"

text \<open>The variables some walk from a block reads before it writes them.\<close>

definition live_at :: "TypeTable \<Rightarrow> (ExprAST \<Rightarrow> bool) \<Rightarrow> ExprAST CFG \<Rightarrow> nat \<Rightarrow> nat set" where
  "live_at L B G b = {x. \<exists>bs. walk G bs \<and> hd bs = b \<and> read_first x (live_walk L B G bs)}"

lemma live_at_step:
  assumes wf: "wf_cfg G" and b: "b < length (Blocks G)"
  shows "x \<in> live_at L B G b \<longleftrightarrow> read_first x (live_events L B G b) \<or>
    x \<notin> defs_of (live_events L B G b) \<and> (\<exists>s \<in> set (succs G b). x \<in> live_at L B G s)"
proof
  assume "x \<in> live_at L B G b"
  then obtain bs where bs: "walk G bs" "hd bs = b" "read_first x (live_walk L B G bs)" by (auto simp: live_at_def)
  then obtain cs where c: "bs = b # cs" by (cases bs) auto
  show "read_first x (live_events L B G b) \<or> x \<notin> defs_of (live_events L B G b) \<and> (\<exists>s \<in> set (succs G b). x \<in> live_at L B G s)"
  proof (cases cs)
    case Nil
    with bs(3) c show ?thesis by (simp add: live_walk_def)
  next
    case (Cons d ds)
    with bs(1) c have "walk G cs" "d \<in> set (succs G b)" by simp_all
    moreover have "read_first x (live_events L B G b) \<or> x \<notin> defs_of (live_events L B G b) \<and> read_first x (live_walk L B G cs)"
      using bs(3) c by (simp add: live_walk_def read_first_append)
    ultimately show ?thesis using Cons by (auto simp: live_at_def)
  qed
next
  assume "read_first x (live_events L B G b) \<or> x \<notin> defs_of (live_events L B G b) \<and> (\<exists>s \<in> set (succs G b). x \<in> live_at L B G s)"
  then show "x \<in> live_at L B G b"
  proof (elim disjE conjE bexE)
    assume "read_first x (live_events L B G b)"
    then show ?thesis using b by (auto simp: live_at_def live_walk_def intro!: exI [of _ "[b]"])
  next
    fix s assume s: "x \<notin> defs_of (live_events L B G b)" "s \<in> set (succs G b)" "x \<in> live_at L B G s"
    then obtain bs where bs: "walk G bs" "hd bs = s" "read_first x (live_walk L B G bs)" by (auto simp: live_at_def)
    then have "walk G (b # bs)" using s(2) b by (cases bs) simp_all
    then show ?thesis using bs(3) s(1) by (auto simp: live_at_def live_walk_def read_first_append intro!: exI [of _ "b # bs"])
  qed
qed

section \<open>The loop is exact\<close>

text \<open>The two equations of a block, and the sets that satisfy them.\<close>

definition out_eq :: "'s CFG \<Rightarrow> nat set list \<Rightarrow> nat \<Rightarrow> nat set" where
  "out_eq G LiveIn b = \<Union> ((\<lambda>s. LiveIn ! s) ` set (succs G b))"

definition in_eq :: "(nat set \<times> nat set) list \<Rightarrow> nat set \<Rightarrow> nat \<Rightarrow> nat set" where
  "in_eq gk Out b = fst (gk ! b) \<union> (Out - snd (gk ! b))"

lemma live_block_eq: "live_block gk G b (Changed, LiveIn, LiveOut) =
   (if out_eq G LiveIn b \<noteq> LiveOut ! b \<or> in_eq gk (out_eq G LiveIn b) b \<noteq> LiveIn ! b
    then (True, LiveIn[b := in_eq gk (out_eq G LiveIn b) b], LiveOut[b := out_eq G LiveIn b])
    else (Changed, LiveIn, LiveOut))"
proof -
  have "fold (\<lambda>s X. X \<union> LiveIn ! s) ss X = X \<union> \<Union> ((\<lambda>s. LiveIn ! s) ` set ss)" for ss X
    by (induction ss arbitrary: X) auto
  then have "fold (\<lambda>s X. X \<union> LiveIn ! s) (succs G b) {} = out_eq G LiveIn b" by (simp add: out_eq_def)
  then show ?thesis by (simp add: live_block_def in_eq_def Let_def)
qed

text \<open>A bound that satisfies the equations: nothing of a run is outside it.\<close>

definition live_inv :: "(nat set \<times> nat set) list \<Rightarrow> 's CFG \<Rightarrow> (nat \<Rightarrow> nat set) \<Rightarrow> nat set list \<times> nat set list \<Rightarrow> bool" where
  "live_inv gk G T w \<longleftrightarrow> (case w of (LiveIn, LiveOut) \<Rightarrow>
     length LiveIn = length (Blocks G) \<and> length LiveOut = length (Blocks G) \<and>
     (\<forall>b < length (Blocks G). fst (gk ! b) \<subseteq> LiveIn ! b \<and> LiveIn ! b \<subseteq> T b \<and>
        LiveOut ! b \<subseteq> out_eq G LiveIn b \<and> LiveIn ! b \<subseteq> in_eq gk (out_eq G LiveIn b) b))"

lemma live_invD:
  assumes "live_inv gk G T (LiveIn, LiveOut)"
  shows "length LiveIn = length (Blocks G)" "length LiveOut = length (Blocks G)"
    "b < length (Blocks G) \<Longrightarrow> fst (gk ! b) \<subseteq> LiveIn ! b" "b < length (Blocks G) \<Longrightarrow> LiveIn ! b \<subseteq> T b"
    "b < length (Blocks G) \<Longrightarrow> LiveOut ! b \<subseteq> out_eq G LiveIn b"
    "b < length (Blocks G) \<Longrightarrow> LiveIn ! b \<subseteq> in_eq gk (out_eq G LiveIn b) b"
  using assms by (simp_all add: live_inv_def)

definition bounded_by :: "(nat set \<times> nat set) list \<Rightarrow> 's CFG \<Rightarrow> (nat \<Rightarrow> nat set) \<Rightarrow> nat set \<Rightarrow> bool" where
  "bounded_by gk G T U \<longleftrightarrow> wf_cfg G \<and> finite U \<and> length gk = length (Blocks G) \<and>
     (\<forall>b < length (Blocks G). T b \<subseteq> U \<and> in_eq gk (\<Union> (T ` set (succs G b))) b \<subseteq> T b)"

text \<open>How much can still be added.\<close>

definition live_room :: "nat set \<Rightarrow> 's CFG \<Rightarrow> nat set list \<times> nat set list \<Rightarrow> nat" where
  "live_room U G w = (case w of (LiveIn, LiveOut) \<Rightarrow>
     \<Sum>b < length (Blocks G). card (U - LiveIn ! b) + card (U - LiveOut ! b))"

lemma out_eq_mono: "(\<And>s. s < length (Blocks G) \<Longrightarrow> X ! s \<subseteq> Y ! s) \<Longrightarrow> wf_cfg G \<Longrightarrow> b < length (Blocks G) \<Longrightarrow>
    out_eq G X b \<subseteq> out_eq G Y b"
  unfolding out_eq_def by (rule UN_mono) (auto simp: wf_cfg_def)

lemma in_eq_mono: "X \<subseteq> Y \<Longrightarrow> in_eq gk X b \<subseteq> in_eq gk Y b"
  by (auto simp: in_eq_def)

lemma live_step:
  assumes bd: "bounded_by gk G T U" and inv: "live_inv gk G T (LiveIn, LiveOut)" and b: "b < length (Blocks G)"
    and ch: "out_eq G LiveIn b \<noteq> LiveOut ! b \<or> in_eq gk (out_eq G LiveIn b) b \<noteq> LiveIn ! b"
    and In: "In = LiveIn[b := in_eq gk (out_eq G LiveIn b) b]" and Out: "Out = LiveOut[b := out_eq G LiveIn b]"
  shows "live_inv gk G T (In, Out)" "live_room U G (In, Out) < live_room U G (LiveIn, LiveOut)"
proof -
  let ?n = "length (Blocks G)"
  from bd have wf: "wf_cfg G" and U: "finite U" "\<And>c. c < ?n \<Longrightarrow> T c \<subseteq> U"
    and T: "\<And>c. c < ?n \<Longrightarrow> in_eq gk (\<Union> (T ` set (succs G c))) c \<subseteq> T c" by (auto simp: bounded_by_def)
  note I = live_invD [OF inv]
  have at: "In ! c = (if c = b then in_eq gk (out_eq G LiveIn b) b else LiveIn ! c)"
      "Out ! c = (if c = b then out_eq G LiveIn b else LiveOut ! c)" if "c < ?n" for c
    using that I(1,2) b unfolding In Out by (auto simp: nth_list_update)
  have up: "LiveIn ! c \<subseteq> In ! c" "LiveOut ! c \<subseteq> Out ! c" if "c < ?n" for c
    using at [OF that] I(5,6) [OF that] by auto
  have outs: "out_eq G LiveIn c \<subseteq> out_eq G In c" if "c < ?n" for c
    by (rule out_eq_mono [OF _ wf that]) (rule up(1))
  have outT: "out_eq G LiveIn c \<subseteq> \<Union> (T ` set (succs G c))" if "c < ?n" for c
  proof -
    have "LiveIn ! s \<subseteq> T s" if "s \<in> set (succs G c)" for s
      using that wf \<open>c < ?n\<close> I(4) by (auto simp: wf_cfg_def)
    then show ?thesis by (auto simp: out_eq_def)
  qed
  have inT: "In ! c \<subseteq> T c" if "c < ?n" for c
  proof -
    have "in_eq gk (out_eq G LiveIn c) c \<subseteq> T c" using in_eq_mono [OF outT [OF that]] T [OF that] by (rule subset_trans)
    then show ?thesis using at(1) [OF that] I(4) [OF that] by (cases "c = b") simp_all
  qed
  have "fst (gk ! c) \<subseteq> In ! c" if "c < ?n" for c using I(3) [OF that] up(1) [OF that] by (rule subset_trans)
  moreover have "Out ! c \<subseteq> out_eq G In c" if "c < ?n" for c
    using at(2) [OF that] I(5) [OF that] outs [OF that] by (auto split: if_splits)
  moreover have "In ! c \<subseteq> in_eq gk (out_eq G In c) c" if "c < ?n" for c
    using at(1) [OF that] I(6) [OF that] in_eq_mono [OF outs [OF that], of gk c] by (auto split: if_splits)
  moreover have "length In = ?n" "length Out = ?n" using I(1,2) unfolding In Out by simp_all
  ultimately show "live_inv gk G T (In, Out)" using inT by (simp add: live_inv_def)
  have outU: "Out ! b \<subseteq> U"
  proof -
    have "T s \<subseteq> U" if "s \<in> set (succs G b)" for s using that wf b U(2) by (auto simp: wf_cfg_def)
    then have "\<Union> (T ` set (succs G b)) \<subseteq> U" by blast
    then show ?thesis using at(2) [OF b] outT [OF b] by simp
  qed
  have inU: "In ! b \<subseteq> U" using inT [OF b] U(2) [OF b] by blast
  have "LiveIn ! b \<subset> In ! b \<or> LiveOut ! b \<subset> Out ! b" using ch at [OF b] up [OF b] by auto
  then have strict: "card (U - In ! b) + card (U - Out ! b) < card (U - LiveIn ! b) + card (U - LiveOut ! b)"
  proof
    assume "LiveIn ! b \<subset> In ! b"
    then have "card (U - In ! b) < card (U - LiveIn ! b)" using inU U(1) by (intro psubset_card_mono) auto
    moreover have "card (U - Out ! b) \<le> card (U - LiveOut ! b)" using up(2) [OF b] U(1) by (intro card_mono) auto
    ultimately show ?thesis by linarith
  next
    assume "LiveOut ! b \<subset> Out ! b"
    then have "card (U - Out ! b) < card (U - LiveOut ! b)" using outU U(1) by (intro psubset_card_mono) auto
    moreover have "card (U - In ! b) \<le> card (U - LiveIn ! b)" using up(1) [OF b] U(1) by (intro card_mono) auto
    ultimately show ?thesis by linarith
  qed
  have "\<forall>c \<in> {..<?n}. card (U - In ! c) + card (U - Out ! c) \<le> card (U - LiveIn ! c) + card (U - LiveOut ! c)"
    using up U(1) by (auto intro!: add_mono card_mono)
  moreover have "\<exists>c \<in> {..<?n}. card (U - In ! c) + card (U - Out ! c) < card (U - LiveIn ! c) + card (U - LiveOut ! c)"
    using strict b by auto
  ultimately show "live_room U G (In, Out) < live_room U G (LiveIn, LiveOut)"
    unfolding live_room_def by (simp add: sum_strict_mono_ex1)
qed

lemma live_solved:
  assumes bd: "bounded_by gk G T U" and g: "\<And>b. b < length (Blocks G) \<Longrightarrow> fst (gk ! b) \<subseteq> T b"
  obtains LiveIn LiveOut where "live_solve gk G = Some (LiveIn, LiveOut)" and "live_inv gk G T (LiveIn, LiveOut)"
    and "\<And>b. b < length (Blocks G) \<Longrightarrow> LiveOut ! b = out_eq G LiveIn b \<and> LiveIn ! b = in_eq gk (out_eq G LiveIn b) b"
proof -
  let ?n = "length (Blocks G)" and ?w = "(map fst gk, replicate (length (Blocks G)) {})"
  let ?still = "\<lambda>b (LiveIn, LiveOut). LiveOut ! b = out_eq G LiveIn b \<and> LiveIn ! b = in_eq gk (out_eq G LiveIn b) b"
  have len: "length gk = ?n" using bd by (simp add: bounded_by_def)
  have start: "live_inv gk G T ?w" using g len by (auto simp: live_inv_def in_eq_def)
  obtain w where w: "while_option fst (\<lambda>(Changed, w). fold (live_block gk G) (rev [0..<?n]) (False, w)) (True, ?w) = Some (False, w)"
      "live_inv gk G T w" "\<And>b. b \<in> set (rev [0..<?n]) \<Longrightarrow> ?still b w"
  proof (rule rounds_end [of "live_inv gk G T" "rev [0..<?n]" "live_block gk G" ?still "live_room U G", OF _ start])
    fix chg w b assume inv: "live_inv gk G T w" and b: "b \<in> set (rev [0..<?n])"
    obtain In Out where w: "w = (In, Out)" by (cases w)
    show "live_block gk G b (chg, w) = (chg, w) \<and> ?still b w \<or>
        (\<exists>w'. live_block gk G b (chg, w) = (True, w') \<and> live_inv gk G T w' \<and> live_room U G w' < live_room U G w)"
    proof (cases "out_eq G In b \<noteq> Out ! b \<or> in_eq gk (out_eq G In b) b \<noteq> In ! b")
      case False
      then show ?thesis unfolding w by (simp add: live_block_eq)
    next
      case True
      have "b < ?n" using b by simp
      from live_step [OF bd inv [unfolded w] this True refl refl] True show ?thesis unfolding w by (simp add: live_block_eq)
    qed
  qed (rule that)
  show thesis
  proof (rule that)
    show "live_solve gk G = Some (fst w, snd w)" using w(1) by (simp add: live_solve_def live_round_def)
    show "live_inv gk G T (fst w, snd w)" using w(2) by simp
    show "snd w ! b = out_eq G (fst w) b \<and> fst w ! b = in_eq gk (out_eq G (fst w) b) b" if "b < ?n" for b
      using w(3) [of b] that by (cases w) simp
  qed
qed

section \<open>The loop finds the variables live at each block\<close>

lemma fst_gen_kills: "b < length (Blocks G) \<Longrightarrow> fst (gen_kills L B G ! b) = {x. read_first x (live_events L B G b)}"
  and snd_gen_kills: "b < length (Blocks G) \<Longrightarrow> snd (gen_kills L B G ! b) = defs_of (live_events L B G b)"
  by (simp_all add: gen_kills_def gen_kill_eq)

lemma read_first_read: "read_first x evs \<Longrightarrow> x \<in> set (map (\<lambda>ev. VarId (event_symbol ev)) evs)"
  by (induction x evs rule: read_first.induct) auto

definition touched :: "TypeTable \<Rightarrow> (ExprAST \<Rightarrow> bool) \<Rightarrow> ExprAST CFG \<Rightarrow> nat set" where
  "touched L B G = (\<Union>b < length (Blocks G). set (map (\<lambda>ev. VarId (event_symbol ev)) (live_events L B G b)))"

lemma live_at_touched: "live_at L B G b \<subseteq> touched L B G"
proof
  fix x assume "x \<in> live_at L B G b"
  then obtain bs where bs: "walk G bs" "read_first x (live_walk L B G bs)" by (auto simp: live_at_def)
  have "c < length (Blocks G)" if "walk G cs" "c \<in> set cs" for c cs
    using that by (induction cs rule: induct_list012) auto
  with bs(1) read_first_read [OF bs(2)] show "x \<in> touched L B G" by (auto simp: live_walk_def touched_def)
qed

lemma live_equation:
  assumes "wf_cfg G" and "b < length (Blocks G)"
  shows "live_at L B G b = in_eq (gen_kills L B G) (\<Union> (live_at L B G ` set (succs G b))) b"
  using live_at_step [OF assms] by (auto simp: in_eq_def fst_gen_kills snd_gen_kills assms(2))

lemma live_bound: "wf_cfg G \<Longrightarrow> bounded_by (gen_kills L B G) G (live_at L B G) (touched L B G)"
proof -
  have "finite (touched L B G)" by (simp add: touched_def)
  moreover have "length (gen_kills L B G) = length (Blocks G)" by (simp add: gen_kills_def)
  ultimately show "wf_cfg G \<Longrightarrow> bounded_by (gen_kills L B G) G (live_at L B G) (touched L B G)"
    using live_at_touched live_equation [symmetric] by (simp add: bounded_by_def)
qed

text \<open>A fixpoint holds whatever a walk reads first.\<close>

lemma fixpoint_holds_walks:
  assumes wf: "wf_cfg G" and eq: "\<And>b. b < length (Blocks G) \<Longrightarrow> LiveIn ! b = in_eq (gen_kills L B G) (out_eq G LiveIn b) b"
    and "walk G bs" and "read_first x (live_walk L B G bs)"
  shows "x \<in> LiveIn ! (hd bs)"
  using assms(3,4)
proof (induction bs rule: induct_list012)
  case (2 b)
  then show ?case using eq [of b] by (simp add: in_eq_def fst_gen_kills live_walk_def)
next
  case (3 b c cs)
  then have b: "b < length (Blocks G)" "c \<in> set (succs G b)" "walk G (c # cs)" by simp_all
  have "read_first x (live_events L B G b) \<or> x \<notin> defs_of (live_events L B G b) \<and> read_first x (live_walk L B G (c # cs))"
    using 3(4) by (simp add: live_walk_def read_first_append)
  then show ?case using eq [OF b(1)] b 3(2) by (auto simp: in_eq_def out_eq_def fst_gen_kills snd_gen_kills)
qed (simp add: live_walk_def)

lemma live_out:
  assumes wf: "wf_cfg G"
  obtains LiveIn LiveOut where "live_solve (gen_kills L B G) G = Some (LiveIn, LiveOut)"
    and "\<And>b. b < length (Blocks G) \<Longrightarrow> LiveOut ! b = \<Union> (live_at L B G ` set (succs G b))"
proof (rule live_solved [OF live_bound [OF wf]])
  fix b assume "b < length (Blocks G)"
  then show "fst (gen_kills L B G ! b) \<subseteq> live_at L B G b" using live_equation [OF wf] by (auto simp: in_eq_def)
next
  fix LiveIn LiveOut
  assume run: "live_solve (gen_kills L B G) G = Some (LiveIn, LiveOut)" and inv: "live_inv (gen_kills L B G) G (live_at L B G) (LiveIn, LiveOut)"
    and eq: "\<And>b. b < length (Blocks G) \<Longrightarrow> LiveOut ! b = out_eq G LiveIn b \<and> LiveIn ! b = in_eq (gen_kills L B G) (out_eq G LiveIn b) b"
  have "LiveIn ! b = live_at L B G b" if "b < length (Blocks G)" for b
  proof
    show "LiveIn ! b \<subseteq> live_at L B G b" by (rule live_invD(4) [OF inv that])
    show "live_at L B G b \<subseteq> LiveIn ! b"
      using fixpoint_holds_walks [OF wf, of LiveIn] eq by (auto simp: live_at_def)
  qed
  then have "LiveOut ! b = \<Union> (live_at L B G ` set (succs G b))" if "b < length (Blocks G)" for b
    using eq [OF that] wf that by (auto simp: out_eq_def wf_cfg_def)
  with run show thesis by (rule that)
qed

section \<open>What is reported\<close>

text \<open>Is a variable read after the events \<open>post\<close> that end block \<open>b\<close>, on some walk and before it is written?\<close>

definition read_later :: "TypeTable \<Rightarrow> (ExprAST \<Rightarrow> bool) \<Rightarrow> ExprAST CFG \<Rightarrow> nat \<Rightarrow> Event list \<Rightarrow> nat \<Rightarrow> bool" where
  "read_later L B G b post x \<longleftrightarrow> (\<exists>cs. walk G (b # cs) \<and> read_first x (post @ live_walk L B G cs))"

lemma read_later_iff:
  assumes "b < length (Blocks G)"
  shows "read_later L B G b post x \<longleftrightarrow>
    read_first x post \<or> x \<notin> defs_of post \<and> x \<in> \<Union> (live_at L B G ` set (succs G b))"
proof
  assume "read_later L B G b post x"
  then obtain cs where "walk G (b # cs)" "read_first x post \<or> x \<notin> defs_of post \<and> read_first x (live_walk L B G cs)"
    by (auto simp: read_later_def read_first_append)
  then show "read_first x post \<or> x \<notin> defs_of post \<and> x \<in> \<Union> (live_at L B G ` set (succs G b))"
    by (cases cs) (auto simp: live_at_def live_walk_def intro!: bexI exI [of _ cs])
next
  assume "read_first x post \<or> x \<notin> defs_of post \<and> x \<in> \<Union> (live_at L B G ` set (succs G b))"
  then show "read_later L B G b post x"
  proof (elim disjE conjE)
    assume "read_first x post"
    then show ?thesis using assms by (auto simp: read_later_def read_first_append intro!: exI [of _ "[]"])
  next
    assume "x \<notin> defs_of post" "x \<in> \<Union> (live_at L B G ` set (succs G b))"
    then obtain bs where bs: "walk G bs" "hd bs \<in> set (succs G b)" "read_first x (live_walk L B G bs)" by (auto simp: live_at_def)
    then have "walk G (b # bs)" using assms by (cases bs) simp_all
    with bs(3) \<open>x \<notin> defs_of post\<close> show ?thesis unfolding read_later_def read_first_append by blast
  qed
qed

text \<open>What is live before a list of events, given what is live behind it.\<close>

definition live_over :: "Event list \<Rightarrow> nat set \<Rightarrow> nat \<Rightarrow> bool" where
  "live_over post Live x \<longleftrightarrow> read_first x post \<or> x \<notin> defs_of post \<and> x \<in> Live"

lemma live_over_simps:
  "live_over [] Live x \<longleftrightarrow> x \<in> Live"
  "live_over (post @ [Read loc S]) Live x \<longleftrightarrow> live_over post (insert (VarId S) Live) x"
  "live_over (post @ [Def loc S]) Live x \<longleftrightarrow> live_over post (Live - {VarId S}) x"
  by (auto simp: live_over_def read_first_append)

lemma split_snoc: "(\<exists>pre Stmt loc S post. evs @ [(St, ev)] = pre @ (Stmt, Def loc S) # post \<and> Q Stmt loc S (map snd post)) \<longleftrightarrow>
    (\<exists>loc S. ev = Def loc S \<and> Q St loc S []) \<or>
    (\<exists>pre Stmt loc S post. evs = pre @ (Stmt, Def loc S) # post \<and> Q Stmt loc S (map snd post @ [ev]))" (is "?l = ?r")
proof -
  have *: "evs @ [(St, ev)] = pre @ d # post \<longleftrightarrow>
      post = [] \<and> evs = pre \<and> (St, ev) = d \<or> (\<exists>q. post = q @ [(St, ev)] \<and> evs = pre @ d # q)" for pre d post
    by (cases post rule: rev_cases) auto
  show ?thesis
  proof
    assume ?l
    then obtain pre Stmt loc S post where "evs @ [(St, ev)] = pre @ (Stmt, Def loc S) # post" "Q Stmt loc S (map snd post)" by blast
    then consider "post = []" "evs = pre" "(St, ev) = (Stmt, Def loc S)" "Q Stmt loc S []"
      | q where "evs = pre @ (Stmt, Def loc S) # q" "Q Stmt loc S (map snd q @ [ev])"
      unfolding * by auto
    then show ?r by cases (simp, blast)
  next
    assume ?r
    then show ?l
    proof (elim disjE exE conjE)
      fix loc S assume "ev = Def loc S" "Q St loc S []"
      then show ?l by (intro exI [of _ evs] exI [of _ St] exI [of _ loc] exI [of _ S] exI [of _ "[]"]) simp
    next
      fix pre Stmt loc S post assume "evs = pre @ (Stmt, Def loc S) # post" "Q Stmt loc S (map snd post @ [ev])"
      then show ?l by (intro exI [of _ pre] exI [of _ Stmt] exI [of _ loc] exI [of _ S] exI [of _ "post @ [(St, ev)]"]) simp
    qed
  qed
qed

lemma dead_reports_iff: "r \<in> set (dead_reports ok (rev evs) Live) \<longleftrightarrow>
    (\<exists>pre Stmt loc S post. evs = pre @ (Stmt, Def loc S) # post \<and> ok S \<and> r \<in> set (dead_report Stmt loc S) \<and>
      \<not> live_over (map snd post) Live (VarId S))"
proof (induction evs arbitrary: Live rule: rev_induct)
  case (snoc e evs)
  obtain Stmt ev where e: "e = (Stmt, ev)" by (cases e)
  show ?case unfolding e split_snoc [where Q = "\<lambda>Stmt loc S post. ok S \<and> r \<in> set (dead_report Stmt loc S) \<and> \<not> live_over post Live (VarId S)"]
    by (cases ev) (auto simp: live_over_simps snoc.IH)
qed simp

text \<open>
  C6. The liveness pass is exact on the graph it is given: its loop always ends, and of the stores it reports
  precisely those to a reportable local (declared in the body, not bound by a pattern, read somewhere, not
  \<open>_\<close>-named) whose value no walk onwards reads before another store, with deferred statements where they run.
\<close>

theorem dead_store_exact:
  assumes G: "buildCFG name void body loc mangled = Inr G"
  shows "\<exists>stores. runLiveness L B ParamSymbols G = Some (unused_reports L B ParamSymbols G @ stores) \<and>
    (\<forall>r. r \<in> set stores \<longleftrightarrow> (\<exists>b pre Stmt l S post. b < length (Blocks G) \<and>
        stmt_events L B G b = pre @ (Stmt, Def l S) # post \<and> reportable L B G S \<and> r \<in> set (dead_report Stmt l S) \<and>
        \<not> read_later L B G b (map snd post) (VarId S)))"
proof (rule live_out [OF built_wf(1) [OF G], where L = L and B = B])
  let ?d = "\<lambda>LiveOut b. dead_reports (reportable L B G) (rev (stmt_events L B G b)) (LiveOut ! b)"
  fix LiveIn LiveOut
  assume run: "live_solve (gen_kills L B G) G = Some (LiveIn, LiveOut)"
    and out: "\<And>b. b < length (Blocks G) \<Longrightarrow> LiveOut ! b = \<Union> (live_at L B G ` set (succs G b))"
  have later: "live_over post (LiveOut ! b) x \<longleftrightarrow> read_later L B G b post x" if "b < length (Blocks G)" for b post x
    by (simp add: live_over_def read_later_iff that out)
  have one: "r \<in> set (?d LiveOut b) \<longleftrightarrow> (\<exists>pre Stmt l S post.
        stmt_events L B G b = pre @ (Stmt, Def l S) # post \<and> reportable L B G S \<and> r \<in> set (dead_report Stmt l S) \<and>
        \<not> read_later L B G b (map snd post) (VarId S))" if "b < length (Blocks G)" for r b
    unfolding dead_reports_iff later [OF that] ..
  have "r \<in> set (concat (map (?d LiveOut) [0..<length (Blocks G)])) \<longleftrightarrow>
      (\<exists>b < length (Blocks G). r \<in> set (?d LiveOut b))" for r by auto
  then have "r \<in> set (concat (map (?d LiveOut) [0..<length (Blocks G)])) \<longleftrightarrow> (\<exists>b pre Stmt l S post. b < length (Blocks G) \<and>
        stmt_events L B G b = pre @ (Stmt, Def l S) # post \<and> reportable L B G S \<and> r \<in> set (dead_report Stmt l S) \<and>
        \<not> read_later L B G b (map snd post) (VarId S))" for r
    using one by blast
  moreover have "Blocks G \<noteq> []" using built_wf(4) [OF G] by auto
  then have "runLiveness L B ParamSymbols G =
      Some (unused_reports L B ParamSymbols G @ concat (map (?d LiveOut) [0..<length (Blocks G)]))"
    by (simp add: runLiveness_def run)
  ultimately show ?thesis by blast
qed

lemma dead_store_exact_witness:
  "\<exists>G stores. buildCFG ''f'' False search_body (loc3 1 1 []) [] = Inr G \<and>
    runLiveness Map.empty (\<lambda>e. True) {} G = Some (unused_reports Map.empty (\<lambda>e. True) {} G @ stores)"
proof -
  obtain G where G: "buildCFG ''f'' False search_body (loc3 1 1 []) [] = Inr G"
    using search_body_checks by (rule returns_everywhereE)
  with dead_store_exact [OF G, of Map.empty "\<lambda>e. True" "{}"] show ?thesis by blast
qed

end
