(* ===== verification/NullFlow.thy ===== *)
theory NullFlow
  imports DefiniteAssignment
begin

text \<open>
  \<open>NullabilityPass\<close> of \<open>src/src/analysis/Analysis.cpp\<close>: which nullable references (\<open>&?T\<close>) are proven non-null
  where, by comparisons with \<open>null\<close> and by assignments, and the errors for those that are used unproven. A set
  of symbols is a set of addresses; \<open>BlockInCFG\<close> says which run blocks of a \<open>recover\<close> the graph holds.
\<close>

section \<open>Tracked references\<close>

definition isTrackedNullableRef :: "VariableSymbol \<Rightarrow> bool" where
  "isTrackedNullableRef S = (case VarType S of Some T \<Rightarrow> isNullableReference T | None \<Rightarrow> False)"

definition is_safe_ref :: "VariableSymbol \<Rightarrow> bool" where
  "is_safe_ref S = (case VarType S of Some T \<Rightarrow> isReference T \<and> \<not> isNullableReference T | None \<Rightarrow> False)"

definition tracked_symbol :: "VariableSymbol option \<Rightarrow> nat list" where
  "tracked_symbol S = (case S of Some S \<Rightarrow> if isTrackedNullableRef S then [VarId S] else [] | None \<Rightarrow> [])"

definition own_tracked :: "ExprAST \<Rightarrow> nat list" where
  "own_tracked e = (case e of
      VariableExpr loc x S \<Rightarrow> tracked_symbol S
    | VarDeclExpr loc name init S \<Rightarrow> tracked_symbol S
    | _ \<Rightarrow> [])"

function tracked_in :: "ExprAST \<Rightarrow> nat list" where
  "tracked_in e = own_tracked e @ concat (map tracked_in (children e))"
  by pat_completeness auto
termination
  by (relation "measure size") (auto intro: size_children)

declare tracked_in.simps [simp del]

definition tracked_refs :: "ExprAST CFG \<Rightarrow> nat set" where
  "tracked_refs G = set (concat (map (\<lambda>BB. concat (map tracked_in (Statements BB))) (Blocks G)))"

section \<open>Narrowing\<close>

fun is_null_literal :: "ExprAST \<Rightarrow> bool" where
  "is_null_literal (NullExpr loc) = True"
| "is_null_literal _ = False"

definition nullNarrowCandidate :: "nat set \<Rightarrow> ExprAST \<Rightarrow> ExprAST \<Rightarrow> nat option" where
  "nullNarrowCandidate Tracked LHS RHS =
    (case (if is_null_literal RHS then Some LHS else if is_null_literal LHS then Some RHS else None) of
       Some (VariableExpr loc x (Some S)) \<Rightarrow> if VarId S \<in> Tracked then Some (VarId S) else None
     | _ \<Rightarrow> None)"

definition classifyRHSNonNull :: "nat set \<Rightarrow> ExprAST \<Rightarrow> nat set \<Rightarrow> bool" where
  "classifyRHSNonNull Tracked RHS In = (case RHS of
      AddressOfExpr loc x \<Rightarrow> True
    | VariableExpr loc x (Some S) \<Rightarrow>
        if VarId S \<in> Tracked then VarId S \<in> In else is_safe_ref S
    | _ \<Rightarrow> False)"

definition rebind :: "nat set \<Rightarrow> VariableSymbol option \<Rightarrow> ExprAST \<Rightarrow> nat set \<Rightarrow> nat set" where
  "rebind Tracked S RHS In = (case S of
      Some S \<Rightarrow>
        if VarId S \<in> Tracked then (if classifyRHSNonNull Tracked RHS In then insert (VarId S) In else In - {VarId S})
        else In
    | None \<Rightarrow> In)"

text \<open>The facts that hold when an expression is true and when it is false.\<close>

fun narrow :: "nat set \<Rightarrow> ExprAST \<Rightarrow> nat set \<Rightarrow> nat set \<times> nat set" where
  "narrow Tracked (BinaryExpr loc op l r p) In =
    (if op = TOK_AND then
       (case narrow Tracked l In of (LTrue, LFalse) \<Rightarrow>
        case narrow Tracked r LTrue of (RTrue, RFalse) \<Rightarrow> (RTrue, LFalse \<inter> RFalse))
     else if op = TOK_OR then
       (case narrow Tracked l In of (LTrue, LFalse) \<Rightarrow>
        case narrow Tracked r LFalse of (RTrue, RFalse) \<Rightarrow> (LTrue \<inter> RTrue, RFalse))
     else if op = TOK_EQ \<or> op = TOK_NEQ then
       (case nullNarrowCandidate Tracked l r of
          Some x \<Rightarrow> if op = TOK_NEQ then (insert x In, In - {x}) else (In - {x}, insert x In)
        | None \<Rightarrow> (In, In))
     else (In, In))"
| "narrow Tracked (VarDeclExpr loc name init S) In =
    (if init = NoExpr then (In, In) else (rebind Tracked S init In, rebind Tracked S init In))"
| "narrow Tracked (AssignmentExpr loc l r) In =
    (rebind Tracked (target_symbol l) r In, rebind Tracked (target_symbol l) r In)"
| "narrow Tracked e In = (In, In)"

section \<open>Uses that need a proof\<close>

datatype NullReport =
    PossibleNullDereferenceError SourceLocation string string bool SourceLocation
  | UnnarrowedNullableCastError SourceLocation string bool
  | RegionError CfgError

text \<open>What the walk over a statement comes to: an error, or a run block to analyse on its own.\<close>

datatype NullItem = Report NullReport | Region SourceLocation ExprAST "nat set"

definition deref_items :: "nat set \<Rightarrow> nat set \<Rightarrow> SourceLocation \<Rightarrow> ExprAST \<Rightarrow> string \<Rightarrow> bool \<Rightarrow> NullItem list" where
  "deref_items Tracked In loc base member is_method = (case base of
      VariableExpr vl x (Some S) \<Rightarrow>
        if VarId S \<in> Tracked \<and> VarId S \<notin> In
        then [Report (PossibleNullDereferenceError loc x member is_method
               (loc3 (Line (VarDeclLoc S)) (Col (VarDeclLoc S)) (LocFilename loc)))]
        else []
    | _ \<Rightarrow> [])"

text \<open>Does the cast read the value behind the reference?\<close>

definition cast_to_value :: "TurfType \<Rightarrow> bool" where
  "cast_to_value Dest \<longleftrightarrow> pointee_of Dest = None \<and> getName Dest \<noteq> ''ptr'' \<and> getName Dest \<noteq> ''string''"

text \<open>Does the cast need a reference that is not null?\<close>

definition cast_reads :: "TurfType \<Rightarrow> bool" where
  "cast_reads Dest \<longleftrightarrow> isReference Dest \<and> \<not> isNullableReference Dest \<or> cast_to_value Dest"

definition cast_items :: "nat set \<Rightarrow> nat set \<Rightarrow> SourceLocation \<Rightarrow> TurfType option \<Rightarrow> ExprAST \<Rightarrow> NullItem list" where
  "cast_items Tracked In loc Dest x = (case (Dest, x) of
      (Some D, VariableExpr vl name (Some S)) \<Rightarrow>
        if cast_reads D \<and> VarId S \<in> Tracked \<and> VarId S \<notin> In
        then [Report (UnnarrowedNullableCastError loc name (cast_to_value D))] else []
    | _ \<Rightarrow> [])"

definition receiver_read :: "CallTarget \<Rightarrow> bool" where
  "receiver_read ct = (case ct of Unresolved \<Rightarrow> False | BoundMethod \<Rightarrow> True | ViaUFCS loads \<Rightarrow> loads)"

fun null_items :: "(ExprAST \<Rightarrow> bool) \<Rightarrow> nat set \<Rightarrow> ExprAST \<Rightarrow> nat set \<Rightarrow> NullItem list" where
  "null_items B T (BinaryExpr loc op l r p) In =
    (if op = TOK_AND then null_items B T l In @ null_items B T r (fst (narrow T l In))
     else if op = TOK_OR then null_items B T l In @ null_items B T r (snd (narrow T l In))
     else if (op = TOK_EQ \<or> op = TOK_NEQ) \<and> nullNarrowCandidate T l r \<noteq> None then []
     else null_items B T l In @ null_items B T r In)"
| "null_items B T (FieldAccessExpr loc b f) In = null_items B T b In @ deref_items T In loc b f False"
| "null_items B T (CastExpr loc D x) In = null_items B T x In @ cast_items T In loc D x"
| "null_items B T (VarDeclExpr loc name init S) In = null_items B T init In"
| "null_items B T (AssignmentExpr loc l r) In =
    null_items B T r In @
    (case target_symbol l of Some S \<Rightarrow> if VarId S \<in> T then [] else null_items B T l In | None \<Rightarrow> null_items B T l In)"
| "null_items B T (CompoundAssignmentExpr loc op l r p) In = null_items B T l In @ null_items B T r In"
| "null_items B T (PostfixExpr loc op x pre p) In = null_items B T x In"
| "null_items B T (UnaryExpr loc op x p) In = null_items B T x In"
| "null_items B T (TryExpr loc x) In = null_items B T x In"
| "null_items B T (AddressOfExpr loc x) In = null_items B T x In"
| "null_items B T (ReturnExpr loc x) In = null_items B T x In"
| "null_items B T (FuncCallExpr loc target callee args) In =
    null_items B T callee In @ concat (map (\<lambda>a. null_items B T a In) args)"
| "null_items B T (MethodCallExpr loc b m args ct) In =
    null_items B T b In @ (if receiver_read ct then deref_items T In loc b m True else []) @
    concat (map (\<lambda>a. null_items B T a In) args)"
| "null_items B T (ArrayAccessExpr loc b i p) In = null_items B T b In @ null_items B T i In"
| "null_items B T (ArrayLiteralExpr loc es) In = concat (map (\<lambda>a. null_items B T a In) es)"
| "null_items B T (ArrayDeclExpr loc name sz inits init S) In =
    concat (map (\<lambda>a. null_items B T a In) inits) @ null_items B T init In"
| "null_items B T (CompareExpr loc subject arms other ex) In = null_items B T subject In"
| "null_items B T (RecoverExpr loc w k p b) In =
    null_items B T w In @ null_items B T p In @
    (if b = NoExpr \<or> B (RecoverExpr loc w k p b) then [] else [Region loc b In])"
| "null_items B T e In = []"

section \<open>The data-flow loop\<close>

fun null_stmts :: "nat set \<Rightarrow> ExprAST list \<Rightarrow> nat set \<Rightarrow> nat set \<times> nat set" where
  "null_stmts T [] Cur = (Cur, Cur)"
| "null_stmts T [s] Cur = narrow T s Cur"
| "null_stmts T (s # ss) Cur = null_stmts T ss (fst (narrow T s Cur))"

definition edge_split :: "ExprAST CFG \<Rightarrow> nat \<Rightarrow> bool" where
  "edge_split G b \<longleftrightarrow> Terminator (Blocks G ! b) = TkBranch \<and> length (succs G b) = 2"

text \<open>The facts on the edge to the first successor and on the edges to the others.\<close>

definition null_out :: "nat set \<Rightarrow> ExprAST CFG \<Rightarrow> nat \<Rightarrow> nat set \<Rightarrow> nat set \<times> nat set" where
  "null_out T G b In = (case null_stmts T (Statements (Blocks G ! b)) In of
     (OnTrue, OnFalse) \<Rightarrow> (OnTrue, if edge_split G b then OnFalse else OnTrue))"

definition edge_set :: "nat set \<times> nat set \<Rightarrow> nat \<Rightarrow> nat set" where
  "edge_set out succIdx = (if succIdx = 0 then fst out else snd out)"

definition null_edges :: "ExprAST CFG \<Rightarrow> nat \<Rightarrow> (nat \<times> nat) list" where
  "null_edges G b = concat (map (\<lambda>p. map (Pair p) (filter (\<lambda>si. succs G p ! si = b) [0..<length (succs G p)]))
     [0..<length (Blocks G)])"

definition null_meet :: "(nat set \<times> nat set) list \<Rightarrow> (nat \<times> nat) list \<Rightarrow> nat set" where
  "null_meet OUT es = (case es of
      [] \<Rightarrow> {}
    | (p, si) # es \<Rightarrow> fold (\<lambda>(p, si) newIN. newIN \<inter> edge_set (OUT ! p) si) es (edge_set (OUT ! p) si))"

definition null_block :: "nat set \<Rightarrow> ExprAST CFG \<Rightarrow> nat \<Rightarrow> nat \<Rightarrow>
    bool \<times> nat set list \<times> (nat set \<times> nat set) list \<Rightarrow> bool \<times> nat set list \<times> (nat set \<times> nat set) list" where
  "null_block T G entryIdx b w = (case w of (changed, IN, OUT) \<Rightarrow>
     if b = entryIdx \<or> null_edges G b = [] then (changed, IN, OUT)
     else let newIN = null_meet OUT (null_edges G b)
          in if newIN \<noteq> IN ! b then (True, IN[b := newIN], OUT[b := null_out T G b newIN]) else (changed, IN, OUT))"

definition null_round :: "nat set \<Rightarrow> ExprAST CFG \<Rightarrow> nat \<Rightarrow>
    nat set list \<times> (nat set \<times> nat set) list \<Rightarrow> bool \<times> nat set list \<times> (nat set \<times> nat set) list" where
  "null_round T G entryIdx w = fold (null_block T G entryIdx) [0..<length (Blocks G)] (False, w)"

definition null_start :: "nat set \<Rightarrow> ExprAST CFG \<Rightarrow> nat \<Rightarrow> nat set \<Rightarrow> bool \<times> nat set list \<times> (nat set \<times> nat set) list" where
  "null_start T G entryIdx EntryIn =
    (let IN = map (\<lambda>i. if i = entryIdx then EntryIn else T) [0..<length (Blocks G)]
     in (True, IN, map (\<lambda>i. null_out T G i (IN ! i)) [0..<length (Blocks G)]))"

definition null_solve :: "nat set \<Rightarrow> ExprAST CFG \<Rightarrow> nat \<Rightarrow> nat set \<Rightarrow> nat set list option" where
  "null_solve T G entryIdx EntryIn =
    map_option (\<lambda>(changed, IN, OUT). IN)
      (while_option fst (\<lambda>(changed, w). null_round T G entryIdx w) (null_start T G entryIdx EntryIn))"

section \<open>The pass\<close>

fun stmts_items :: "(ExprAST \<Rightarrow> bool) \<Rightarrow> nat set \<Rightarrow> ExprAST list \<Rightarrow> nat set \<Rightarrow> NullItem list" where
  "stmts_items B T [] Cur = []"
| "stmts_items B T (s # ss) Cur = null_items B T s Cur @ stmts_items B T ss (fst (narrow T s Cur))"

definition graph_items :: "(ExprAST \<Rightarrow> bool) \<Rightarrow> nat set \<Rightarrow> ExprAST CFG \<Rightarrow> nat set list \<Rightarrow> NullItem list" where
  "graph_items B T G IN =
    concat (map (\<lambda>b. stmts_items B T (Statements (Blocks G ! b)) (IN ! b)) [0..<length (Blocks G)])"

fun all_some :: "'a option list \<Rightarrow> 'a list option" where
  "all_some [] = Some []"
| "all_some (x # xs) = (case (x, all_some xs) of (Some y, Some ys) \<Rightarrow> Some (y # ys) | _ \<Rightarrow> None)"

text \<open>
  The errors of a graph in the order they are met; the number bounds how deep run blocks that are not in
  their graph are nested.
\<close>

fun null_reports :: "nat \<Rightarrow> (ExprAST \<Rightarrow> bool) \<Rightarrow> nat set \<Rightarrow> ExprAST CFG \<Rightarrow> nat set \<Rightarrow> NullReport list option" where
  "null_reports 0 B T G EntryIn = None"
| "null_reports (Suc n) B T G EntryIn =
    (if Blocks G = [] then Some []
     else case null_solve T G (entry_index G) EntryIn of
        None \<Rightarrow> None
      | Some IN \<Rightarrow> map_option concat (all_some (map (\<lambda>item. case item of
            Report r \<Rightarrow> Some [r]
          | Region loc b X \<Rightarrow> (case buildRegionCFG ''recover'' b loc of
                Inl err \<Rightarrow> Some [RegionError err]
              | Inr R \<Rightarrow> null_reports n B T R X))
          (graph_items B T G IN))))"

definition runNullability :: "nat \<Rightarrow> (ExprAST \<Rightarrow> bool) \<Rightarrow> ExprAST CFG \<Rightarrow> (NullReport + unit) option" where
  "runNullability n B G =
    (if tracked_refs G = {} then Some (Inr ())
     else map_option raise_first (null_reports n B (tracked_refs G) G {}))"

end
