(* ===== verification/NullSound.thy ===== *)
theory NullSound
  imports NullFlow ConstSound
begin

text \<open>
  What the nullability pass means for the runs of a function. A state says which variables hold null. A
  comparison with null has the value the state gives it, anything else any value; a statement gives the
  variable it declares or assigns a value that is null when it can be. \<open>null_arrives\<close> gives the states in
  which control reaches a block, \<open>derefs\<close> the variables an expression reads through.
\<close>

section \<open>Values\<close>

type_synonym nulls = "nat \<Rightarrow> bool"

definition null_compared :: "ExprAST \<Rightarrow> ExprAST \<Rightarrow> nat option" where
  "null_compared l r =
    (case (if is_null_literal r then Some l else if is_null_literal l then Some r else None) of
       Some (VariableExpr loc x (Some S)) \<Rightarrow> Some (VarId S)
     | _ \<Rightarrow> None)"

text \<open>Can the expression have this truth value?\<close>

fun may_be :: "nulls \<Rightarrow> ExprAST \<Rightarrow> bool \<Rightarrow> bool" where
  "may_be \<sigma> (BinaryExpr loc op l r p) v =
    (if op = TOK_AND then (if v then may_be \<sigma> l True \<and> may_be \<sigma> r True
                           else may_be \<sigma> l False \<or> may_be \<sigma> l True \<and> may_be \<sigma> r False)
     else if op = TOK_OR then (if v then may_be \<sigma> l True \<or> may_be \<sigma> l False \<and> may_be \<sigma> r True
                               else may_be \<sigma> l False \<and> may_be \<sigma> r False)
     else if op = TOK_EQ then (case null_compared l r of Some x \<Rightarrow> v = \<sigma> x | None \<Rightarrow> True)
     else if op = TOK_NEQ then (case null_compared l r of Some x \<Rightarrow> v = (\<not> \<sigma> x) | None \<Rightarrow> True)
     else True)"
| "may_be \<sigma> e v = True"

text \<open>Can the value of the expression be null (\<open>b\<close>) or not?\<close>

definition init_null :: "nulls \<Rightarrow> ExprAST \<Rightarrow> bool \<Rightarrow> bool" where
  "init_null \<sigma> e b = (case e of
      NullExpr loc \<Rightarrow> b
    | AddressOfExpr loc x \<Rightarrow> \<not> b
    | VariableExpr loc x (Some S) \<Rightarrow> if is_safe_ref S then \<not> b else b = \<sigma> (VarId S)
    | _ \<Rightarrow> True)"

section \<open>Statements\<close>

text \<open>Variables a node may give a value to, or hand out so that others can.\<close>

definition rebinds :: "ExprAST \<Rightarrow> nat list" where
  "rebinds e = (case e of
      AssignmentExpr loc l r \<Rightarrow> symbol_ids (target_symbol l)
    | VarDeclExpr loc name init S \<Rightarrow> symbol_ids S
    | AddressOfExpr loc x \<Rightarrow> symbol_ids (target_symbol x)
    | BindingPattern loc name S \<Rightarrow> symbol_ids S
    | _ \<Rightarrow> [])"

definition is_rebinding :: "ExprAST \<Rightarrow> bool" where
  "is_rebinding e = (case e of AssignmentExpr loc l r \<Rightarrow> True | VarDeclExpr loc name init S \<Rightarrow> True | _ \<Rightarrow> False)"

text \<open>What a statement may change other than by declaring or assigning it itself.\<close>

definition unseen :: "ExprAST \<Rightarrow> nat set" where
  "unseen s = set (concat (map rebinds (if is_rebinding s then inner_parts s else parts s)))"

definition root_sets :: "ExprAST \<Rightarrow> nulls \<Rightarrow> nulls \<Rightarrow> bool" where
  "root_sets s \<sigma> \<sigma>1 = (case s of
      VarDeclExpr loc name init (Some S) \<Rightarrow>
        if init = NoExpr then \<sigma>1 = \<sigma> else \<exists>b. init_null \<sigma> init b \<and> \<sigma>1 = \<sigma>(VarId S := b)
    | AssignmentExpr loc l r \<Rightarrow>
        (case target_symbol l of Some S \<Rightarrow> \<exists>b. init_null \<sigma> r b \<and> \<sigma>1 = \<sigma>(VarId S := b) | None \<Rightarrow> \<sigma>1 = \<sigma>)
    | _ \<Rightarrow> \<sigma>1 = \<sigma>)"

definition null_step :: "nulls \<Rightarrow> ExprAST \<Rightarrow> nulls \<Rightarrow> bool" where
  "null_step \<sigma> s \<sigma>' \<longleftrightarrow> (\<exists>\<sigma>1. root_sets s \<sigma> \<sigma>1 \<and> (\<forall>x. x \<notin> unseen s \<longrightarrow> \<sigma>' x = \<sigma>1 x))"

text \<open>From a state through the statements: the state before the last one and the state at the end.\<close>

fun null_exec :: "ExprAST list \<Rightarrow> nulls \<Rightarrow> nulls \<Rightarrow> nulls \<Rightarrow> bool" where
  "null_exec [] \<sigma> \<sigma>l \<sigma>' \<longleftrightarrow> \<sigma>l = \<sigma> \<and> \<sigma>' = \<sigma>"
| "null_exec [s] \<sigma> \<sigma>l \<sigma>' \<longleftrightarrow> \<sigma>l = \<sigma> \<and> null_step \<sigma> s \<sigma>'"
| "null_exec (s # ss) \<sigma> \<sigma>l \<sigma>' \<longleftrightarrow> (\<exists>\<sigma>1. null_step \<sigma> s \<sigma>1 \<and> null_exec ss \<sigma>1 \<sigma>l \<sigma>')"

section \<open>Runs\<close>

text \<open>
  A block with two successors goes to the first when its last statement is true and to the second when it
  is false; the test of a \<open>compare\<close> arm goes to the second also when its value does not match.
\<close>

definition decides :: "ExprAST CFG \<Rightarrow> nat \<Rightarrow> bool" where
  "decides G b \<longleftrightarrow> edge_split G b \<and> Statements (Blocks G ! b) \<noteq> [] \<and> BlockName (Blocks G ! b) \<noteq> ''compare.test''"

definition takes :: "ExprAST CFG \<Rightarrow> nat \<Rightarrow> nulls \<Rightarrow> nat \<Rightarrow> bool" where
  "takes G b \<sigma>l k \<longleftrightarrow> (decides G b \<longrightarrow> may_be \<sigma>l (last (Statements (Blocks G ! b))) (k = 0))"

inductive null_arrives :: "ExprAST CFG \<Rightarrow> nat \<Rightarrow> nulls \<Rightarrow> bool" for G where
  null_entry: "EntryBlock G = Some e \<Longrightarrow> null_arrives G e \<sigma>"
| null_edge: "null_arrives G a \<sigma> \<Longrightarrow> a < length (Blocks G) \<Longrightarrow> null_exec (Statements (Blocks G ! a)) \<sigma> \<sigma>l \<sigma>' \<Longrightarrow>
    k < length (succs G a) \<Longrightarrow> takes G a \<sigma>l k \<Longrightarrow> null_arrives G (succs G a ! k) \<sigma>'"

definition null_at :: "ExprAST CFG \<Rightarrow> nat \<Rightarrow> nat \<Rightarrow> nulls \<Rightarrow> bool" where
  "null_at G b i \<sigma> \<longleftrightarrow> (\<exists>\<sigma>0 \<sigma>l. null_arrives G b \<sigma>0 \<and> null_exec (take i (Statements (Blocks G ! b))) \<sigma>0 \<sigma>l \<sigma>)"

section \<open>Reading through a reference\<close>

definition through :: "ExprAST \<Rightarrow> nat set" where
  "through b = set (symbol_ids (target_symbol b))"

text \<open>
  The variables that are read through when an expression is evaluated in a state. Nothing of a \<open>defer\<close> or of
  a nested function is evaluated where it stands, a pattern only binds and compares, and the run block of a
  \<open>recover\<close> has blocks of its own.
\<close>

definition stays_closed :: "ExprAST \<Rightarrow> bool" where
  "stays_closed e = (case e of
      DeferExpr loc x \<Rightarrow> True
    | FuncDefExpr loc n b \<Rightarrow> True
    | StructPattern loc ps \<Rightarrow> True
    | ErrorVariantPattern loc h ps \<Rightarrow> True
    | _ \<Rightarrow> False)"

definition reads_receiver :: "ExprAST \<Rightarrow> nat set" where
  "reads_receiver e = (case e of
      FieldAccessExpr loc b f \<Rightarrow> through b
    | CastExpr loc (Some D) x \<Rightarrow> if cast_reads D then through x else {}
    | MethodCallExpr loc b m args ct \<Rightarrow> if receiver_read ct then through b else {}
    | _ \<Rightarrow> {})"

text \<open>The right operand of a connective is evaluated when the left one has the value that calls for it.\<close>

definition evaluated :: "nulls \<Rightarrow> ExprAST \<Rightarrow> ExprAST list" where
  "evaluated \<sigma> e = (if stays_closed e then [] else case e of
      BinaryExpr loc op l r p \<Rightarrow>
        l # (if op = TOK_AND \<and> \<not> may_be \<sigma> l True \<or> op = TOK_OR \<and> \<not> may_be \<sigma> l False then [] else [r])
    | _ \<Rightarrow> effect_children e)"

lemma evaluated_children: "c \<in> set (evaluated \<sigma> e) \<Longrightarrow> c \<in> set (all_children e)"
  by (cases e) (auto simp: evaluated_def stays_closed_def effect_children_def children_def all_children_def split: if_split_asm)

function derefs :: "nulls \<Rightarrow> ExprAST \<Rightarrow> nat set" where
  "derefs \<sigma> e = reads_receiver e \<union> \<Union> (set (map (derefs \<sigma>) (evaluated \<sigma> e)))"
  by pat_completeness auto
termination
  by (relation "measure (\<lambda>(\<sigma>, e). size e)") (auto intro: size_all_children evaluated_children)

declare derefs.simps [simp del]

text \<open>The walk over a statement does not look into slices, nor into statements used as expressions.\<close>

definition looked_into :: "ExprAST \<Rightarrow> bool" where
  "looked_into e = (case e of
      SliceExpr loc b lo hi \<Rightarrow> False
    | IfExpr brs els \<Rightarrow> False
    | CompareExpr loc x arms other ex \<Rightarrow> False
    | BlockExpr es \<Rightarrow> False
    | UnsafeBlockExpr loc b \<Rightarrow> False
    | WhileExpr loc c b \<Rightarrow> False
    | DoWhileExpr loc b c \<Rightarrow> False
    | ForExpr loc v a b st bd \<Rightarrow> False
    | ForEachExpr loc v i it b \<Rightarrow> False
    | _ \<Rightarrow> True)"

section \<open>Narrowing holds\<close>

text \<open>Nothing but a whole declaration or assignment gives a tracked variable a value.\<close>

definition no_rebinding :: "nat set \<Rightarrow> ExprAST \<Rightarrow> bool" where
  "no_rebinding T e \<longleftrightarrow> T \<inter> set (concat (map rebinds (parts e))) = {}"

definition facts_hold :: "nat set \<Rightarrow> nulls \<Rightarrow> nat set \<Rightarrow> bool" where
  "facts_hold T \<sigma> In \<longleftrightarrow> In \<subseteq> T \<and> (\<forall>x \<in> In. \<not> \<sigma> x)"

text \<open>Expressions whose truth says something about a tracked variable.\<close>

fun tests_null :: "nat set \<Rightarrow> ExprAST \<Rightarrow> bool" where
  "tests_null T (BinaryExpr loc op l r p) =
    (if op = TOK_AND \<or> op = TOK_OR then tests_null T l \<or> tests_null T r
     else (op = TOK_EQ \<or> op = TOK_NEQ) \<and> nullNarrowCandidate T l r \<noteq> None)"
| "tests_null T e = False"

lemma null_literal: "is_null_literal e \<Longrightarrow> \<exists>loc. e = NullExpr loc"
  by (cases e) simp_all

lemma variable_side:
  "(case e of VariableExpr loc x (Some S) \<Rightarrow> f S | _ \<Rightarrow> None) = Some y \<Longrightarrow> \<exists>loc x S. e = VariableExpr loc x (Some S) \<and> f S = Some y"
  by (cases e) (auto split: option.split_asm)

lemma candidate_compared:
  assumes "nullNarrowCandidate T l r = Some x"
  shows "null_compared l r = Some x" "x \<in> T" "derefs \<sigma> l = {}" "derefs \<sigma> r = {}"
proof -
  obtain e where e: "is_null_literal r \<and> e = l \<or> \<not> is_null_literal r \<and> is_null_literal l \<and> e = r"
      "(case e of VariableExpr loc x (Some S) \<Rightarrow> if VarId S \<in> T then Some (VarId S) else None | _ \<Rightarrow> None) = Some x"
    using assms by (auto simp: nullNarrowCandidate_def split: if_split_asm)
  obtain loc n S where v: "e = VariableExpr loc n (Some S)" "VarId S = x" "x \<in> T"
    using variable_side [OF e(2)] by (auto split: if_split_asm)
  have d: "derefs \<sigma> (NullExpr k) = {}" "derefs \<sigma> e = {}" for k
    by (simp_all add: v(1) derefs.simps [of _ "NullExpr k"] derefs.simps [of _ "VariableExpr loc n (Some S)"]
        reads_receiver_def evaluated_def stays_closed_def effect_children_def children_def all_children_def)
  consider (right) k where "r = NullExpr k" "e = l" | (left) k where "\<not> is_null_literal r" "l = NullExpr k" "e = r"
    using e(1) null_literal by blast
  then show "null_compared l r = Some x" "x \<in> T" "derefs \<sigma> l = {}" "derefs \<sigma> r = {}"
    using v d by (cases; simp add: null_compared_def)+
qed

lemma narrow_within: "In \<subseteq> T \<Longrightarrow> fst (narrow T e In) \<subseteq> T \<and> snd (narrow T e In) \<subseteq> T"
proof (induction e arbitrary: In)
  case (BinaryExpr loc op l r p)
  obtain LT LF where n: "narrow T l In = (LT, LF)" by (cases "narrow T l In")
  with BinaryExpr.IH(1) [OF BinaryExpr.prems] have "LT \<subseteq> T" "LF \<subseteq> T" by simp_all
  from BinaryExpr.IH(2) [OF this(1)] BinaryExpr.IH(2) [OF this(2)] this BinaryExpr.prems show ?case
    by (auto simp: n candidate_compared(2) split: prod.splits option.splits)
qed (auto simp: rebind_def split: option.split)

lemma classify_mono: "classifyRHSNonNull T e X \<Longrightarrow> X \<subseteq> Y \<Longrightarrow> classifyRHSNonNull T e Y"
  by (cases e) (auto simp: classifyRHSNonNull_def split: option.split_asm if_split_asm)

lemma rebind_mono: "X \<subseteq> Y \<Longrightarrow> rebind T S e X \<subseteq> rebind T S e Y"
  using classify_mono [of T e X Y] by (auto simp: rebind_def split: option.split)

lemma narrow_mono: "X \<subseteq> Y \<Longrightarrow> fst (narrow T e X) \<subseteq> fst (narrow T e Y) \<and> snd (narrow T e X) \<subseteq> snd (narrow T e Y)"
proof (induction e arbitrary: X Y)
  case (BinaryExpr loc op l r p)
  obtain XT XF YT YF where n: "narrow T l X = (XT, XF)" "narrow T l Y = (YT, YF)" by (cases "narrow T l X", cases "narrow T l Y")
  with BinaryExpr.IH(1) [OF BinaryExpr.prems] have sub: "XT \<subseteq> YT" "XF \<subseteq> YF" by simp_all
  from BinaryExpr.IH(2) [OF sub(1)] BinaryExpr.IH(2) [OF sub(2)] sub BinaryExpr.prems show ?case
    by (auto simp: n split: prod.splits option.splits)
qed (simp_all add: rebind_mono)

lemma no_rebinding_child: "no_rebinding T e \<Longrightarrow> c \<in> set (effect_children e) \<Longrightarrow> no_rebinding T c"
  by (auto simp: no_rebinding_def parts.simps [of e])

lemma no_rebinding_binary:
  assumes "no_rebinding T (BinaryExpr loc op l r p)"
  shows "no_rebinding T l" "no_rebinding T r"
proof -
  have "no_rebinding T NoExpr" by (simp add: no_rebinding_def parts.simps [of NoExpr] effect_children_def children_def
        all_children_def rebinds_def)
  then show "no_rebinding T l" "no_rebinding T r"
    using no_rebinding_child [OF assms, of l] no_rebinding_child [OF assms, of r]
    by (cases "l = NoExpr"; cases "r = NoExpr"; simp add: effect_children_def children_def all_children_def)+
qed

lemma no_rebinding_rebind:
  "no_rebinding T (VarDeclExpr loc name init S) \<Longrightarrow> rebind T S e In = In"
  "no_rebinding T (AssignmentExpr loc l r) \<Longrightarrow> rebind T (target_symbol l) e In = In"
  by (auto simp: no_rebinding_def parts.simps [of "VarDeclExpr loc name init S"] parts.simps [of "AssignmentExpr loc l r"]
      rebinds_def symbol_ids_def rebind_def split: option.splits)

lemma narrow_no_test: "no_rebinding T e \<Longrightarrow> \<not> tests_null T e \<Longrightarrow> narrow T e In = (In, In)"
proof (induction e)
  case (BinaryExpr loc op l r p)
  then show ?case using no_rebinding_binary [OF BinaryExpr.prems(1)] by (auto split: if_split_asm)
qed (simp_all add: no_rebinding_rebind)

text \<open>An expression that has a truth value makes the facts of that side true.\<close>

lemma narrow_truth:
  "no_rebinding T e \<Longrightarrow> facts_hold T \<sigma> In \<Longrightarrow> may_be \<sigma> e v \<Longrightarrow> facts_hold T \<sigma> (if v then fst (narrow T e In) else snd (narrow T e In))"
proof (induction e arbitrary: In v)
  case (BinaryExpr loc op l r p)
  note nr = no_rebinding_binary [OF BinaryExpr.prems(1)]
  note l = BinaryExpr.IH(1) [OF nr(1)] and r = BinaryExpr.IH(2) [OF nr(2)]
  obtain LT LF where n: "narrow T l In = (LT, LF)" by (cases "narrow T l In")
  obtain ATT ATF where at: "narrow T r LT = (ATT, ATF)" by (cases "narrow T r LT")
  obtain OTT OTF where ot: "narrow T r LF = (OTT, OTF)" by (cases "narrow T r LF")
  have L: "may_be \<sigma> l True \<Longrightarrow> facts_hold T \<sigma> LT" "may_be \<sigma> l False \<Longrightarrow> facts_hold T \<sigma> LF"
    using l [OF BinaryExpr.prems(2), of True] l [OF BinaryExpr.prems(2), of False] n by simp_all
  have AT: "may_be \<sigma> l True \<Longrightarrow> may_be \<sigma> r True \<Longrightarrow> facts_hold T \<sigma> ATT"
      "may_be \<sigma> l True \<Longrightarrow> may_be \<sigma> r False \<Longrightarrow> facts_hold T \<sigma> ATF"
    using r [OF L(1), of True] r [OF L(1), of False] at by simp_all
  have OT: "may_be \<sigma> l False \<Longrightarrow> may_be \<sigma> r True \<Longrightarrow> facts_hold T \<sigma> OTT"
      "may_be \<sigma> l False \<Longrightarrow> may_be \<sigma> r False \<Longrightarrow> facts_hold T \<sigma> OTF"
    using r [OF L(2), of True] r [OF L(2), of False] ot by simp_all
  have sub: "LT \<subseteq> T" "LF \<subseteq> T" "ATF \<subseteq> T" "OTT \<subseteq> T"
    using narrow_within [of In T l] narrow_within [of LT T r] narrow_within [of LF T r] BinaryExpr.prems(2) n at ot
    by (simp_all add: facts_hold_def)
  show ?case
  proof (cases "op = TOK_AND \<or> op = TOK_OR")
    case True
    then show ?thesis using BinaryExpr.prems(3) n at ot L AT OT sub
      by (cases v) (auto simp: facts_hold_def split: if_split_asm)
  next
    case False
    show ?thesis
    proof (cases "nullNarrowCandidate T l r")
      case None
      then show ?thesis using False BinaryExpr.prems(2) by (auto split: if_split_asm)
    next
      case (Some x)
      note c = candidate_compared [OF Some]
      show ?thesis using False BinaryExpr.prems(2,3) Some c(1,2) by (cases v) (auto simp: facts_hold_def split: if_split_asm)
    qed
  qed
qed (simp_all add: no_rebinding_rebind)

section \<open>Statements keep the facts\<close>

lemma unseen_plain: "\<not> is_rebinding s \<Longrightarrow> T \<inter> unseen s = {} \<Longrightarrow> no_rebinding T s"
  by (simp add: no_rebinding_def unseen_def)

lemma plain_step:
  assumes "\<not> is_rebinding s" and "T \<inter> unseen s = {}" and "null_step \<sigma> s \<sigma>'" and "x \<in> T"
  shows "\<sigma>' x = \<sigma> x"
proof -
  have "root_sets s \<sigma> \<sigma>1 \<Longrightarrow> \<sigma>1 = \<sigma>" for \<sigma>1 using assms(1) by (cases s) (simp_all add: root_sets_def is_rebinding_def)
  then show ?thesis using assms(2-4) by (auto simp: null_step_def)
qed

lemma tests_null_plain: "tests_null T s \<Longrightarrow> \<not> is_rebinding s"
  by (cases s) (simp_all add: is_rebinding_def)

lemma test_step:
  assumes "tests_null T s" and "T \<inter> unseen s = {}" and "facts_hold T \<sigma> In" and "may_be \<sigma> s v" and "null_step \<sigma> s \<sigma>'"
  shows "facts_hold T \<sigma>' (if v then fst (narrow T s In) else snd (narrow T s In))"
  using narrow_truth [OF unseen_plain assms(3,4)] tests_null_plain [OF assms(1)] assms(2) plain_step [OF _ assms(2) assms(5)]
  by (auto simp: facts_hold_def)

lemma rebind_step:
  assumes "init_null \<sigma> e b" and "facts_hold T \<sigma> In"
  shows "facts_hold T (\<sigma>(VarId S := b)) (rebind T (Some S) e In)"
proof (cases "VarId S \<in> T")
  case False
  then show ?thesis using assms(2) by (auto simp: rebind_def facts_hold_def)
next
  case True
  have "\<not> b" if "classifyRHSNonNull T e In"
    using that assms by (cases e) (auto simp: classifyRHSNonNull_def init_null_def facts_hold_def split: option.splits if_split_asm)
  with True assms(2) show ?thesis by (auto simp: rebind_def facts_hold_def)
qed

lemma plain_statement:
  assumes "\<not> tests_null T s" and "T \<inter> unseen s = {}" and "facts_hold T \<sigma> In" and "null_step \<sigma> s \<sigma>'"
  shows "facts_hold T \<sigma>' (fst (narrow T s In))" "snd (narrow T s In) = fst (narrow T s In)"
proof -
  have "facts_hold T \<sigma>' (fst (narrow T s In)) \<and> snd (narrow T s In) = fst (narrow T s In)"
  proof (cases "is_rebinding s")
    case False
    then have "narrow T s In = (In, In)" using narrow_no_test [OF unseen_plain assms(1)] assms(2) by simp
    then show ?thesis using plain_step [OF False assms(2,4)] assms(3) by (auto simp: facts_hold_def)
  next
    case True
    obtain \<sigma>1 where s1: "root_sets s \<sigma> \<sigma>1" "\<And>x. x \<notin> unseen s \<Longrightarrow> \<sigma>' x = \<sigma>1 x" using assms(4) by (auto simp: null_step_def)
    have "facts_hold T \<sigma>1 (fst (narrow T s In)) \<and> snd (narrow T s In) = fst (narrow T s In)"
    proof (cases s)
      case (VarDeclExpr loc name init S)
      have "rebind T None init In = In" by (simp add: rebind_def)
      then show ?thesis using VarDeclExpr s1(1) assms(3) rebind_step
        by (cases S) (auto simp: root_sets_def split: if_split_asm)
    next
      case (AssignmentExpr loc l r)
      have "rebind T None r In = In" by (simp add: rebind_def)
      then show ?thesis using AssignmentExpr s1(1) assms(3) rebind_step by (cases "target_symbol l") (auto simp: root_sets_def)
    qed (use True in \<open>simp_all add: is_rebinding_def\<close>)
    then show ?thesis using s1(2) assms(2) by (auto simp: facts_hold_def)
  qed
  then show "facts_hold T \<sigma>' (fst (narrow T s In))" "snd (narrow T s In) = fst (narrow T s In)" by simp_all
qed

end
