(* ===== verification/CfgSizes.thy ===== *)
theory CfgSizes
  imports CfgReport
begin

text \<open>
  The statements of a built graph are parts of the body: none is bigger. So whatever recurs into the
  statements of a graph, to build graphs of their parts, comes to an end.
\<close>

definition held :: "BuildState \<Rightarrow> ExprAST set" where
  "held s = (\<Union>B \<in> set (Blocks (CurrentCFG s)). set (Statements B))"

text \<open>A visit that adds only statements of a set.\<close>

definition only_adds :: "ExprAST set \<Rightarrow> visitor \<Rightarrow> ExprAST \<Rightarrow> bool" where
  "only_adds X visit e \<longleftrightarrow> (\<forall>s t. visit e s = Inr t \<longrightarrow> held t \<subseteq> held s \<union> X)"

section \<open>The primitive steps\<close>

lemma held_fields [simp]:
  "held (s\<lparr>CurrentBlock := b\<rparr>) = held s" "held (s\<lparr>LoopBreakTarget := k\<rparr>) = held s"
  "held (s\<lparr>LoopContinueTarget := k\<rparr>) = held s" "held (s\<lparr>LoopDeferDepth := d\<rparr>) = held s"
  "held (s\<lparr>DeferScopes := ds\<rparr>) = held s" "held (s\<lparr>LastTerminatorLoc := l\<rparr>) = held s"
  "held (s\<lparr>BlocksInCFG := bs\<rparr>) = held s" "held (setInsertPoint b s) = held s"
  "held (note_defer e s) = held s"
  by (simp_all add: held_def setInsertPoint_def note_defer_def split: ExprAST.split)

lemma held_on_block:
  assumes "\<And>B. Statements (f B) = Statements B"
  shows "held (on_graph (on_block b f) s) = held s"
proof -
  have "map Statements ((Blocks G)[b := f (Blocks G ! b)]) = map Statements (Blocks G)" for G :: "ExprAST CFG"
    by (cases "b < length (Blocks G)") (auto simp: assms map_update list_update_same_conv list_update_beyond)
  then have "set (map Statements (Blocks (on_block b f G))) = set (map Statements (Blocks G))" for G :: "ExprAST CFG"
    by (simp add: on_block_def del: set_map)
  then show ?thesis by (simp add: held_def on_graph_def) (metis image_image)
qed

lemma on_graph_comp: "on_graph (\<lambda>G. f (g G)) s = on_graph f (on_graph g s)"
  by (simp add: on_graph_def)

lemma held_steps [simp]:
  "held (on_graph (addEdge f t) s) = held s" "held (link a b s) = held s" "held (set_term b k loc s) = held s"
  "held (fall_to b s) = held s" "held (emitDeferredRuns d s) = held s" "held (jump k loc t s) = held s"
  "held (link_fail loc p r q s) = held s"
proof -
  show edge: "held (on_graph (addEdge f t) s) = held s" for f t s
  proof (cases "\<exists>a b. f = Some a \<and> t = Some b")
    case True
    then obtain a b where "f = Some a" "t = Some b" by blast
    then have "on_graph (addEdge f t) s = on_graph (on_block b (\<lambda>B. B\<lparr>Predecessors := Predecessors B @ [a]\<rparr>))
        (on_graph (on_block a (\<lambda>B. B\<lparr>Successors := Successors B @ [b]\<rparr>)) s)"
      by (simp add: on_graph_def addEdge_def)
    then show ?thesis by (simp add: held_on_block)
  qed (auto simp: on_graph_def addEdge_def split: option.split)
  then show "held (link a b s) = held s" for a b s by (simp add: link_def)
  show ended: "held (set_term b k loc s) = held s" for b k loc s
    unfolding set_term_def by (rule held_on_block) (simp add: setTerminator_def)
  show "held (fall_to b s) = held s" by (simp add: fall_to_def edge)
  have "held (fold (\<lambda>st. on_graph (on_block b (addDeferredRun st))) sts s) = held s" for b sts s
    by (induction sts arbitrary: s) (simp_all add: held_on_block addDeferredRun_def)
  then show "held (emitDeferredRuns d s) = held s" by (simp add: emitDeferredRuns_def split: option.split)
  show "held (jump k loc t s) = held s" by (simp add: jump_def edge ended split: option.split)
  show "held (link_fail loc p r q s) = held s" by (simp add: link_fail_def link_def edge ended Let_def)
qed

lemma held_new_bb [simp]: "held (snd (new_bb name s)) = held s"
  by (simp add: held_def new_bb_def createBlock_def new_block_def)

lemma held_new_bbD: "new_bb name s = (b, t) \<Longrightarrow> held t = held s"
  using held_new_bb [of name s] by simp

lemma held_add_stmt: "held (add_stmt b e s) \<subseteq> insert e (held s)"
proof -
  have "set (Blocks (CurrentCFG (add_stmt b e s))) \<subseteq> insert (addStatement e (Blocks (CurrentCFG s) ! b)) (set (Blocks (CurrentCFG s)))"
    by (simp add: add_stmt_def on_graph_def on_block_def set_update_subset_insert)
  moreover have "set (Statements (Blocks (CurrentCFG s) ! b)) \<subseteq> held s \<or> held (add_stmt b e s) = held s"
  proof (cases "b < length (Blocks (CurrentCFG s))")
    case True
    then show ?thesis by (auto simp: held_def)
  next
    case False
    then show ?thesis by (simp add: add_stmt_def on_graph_def on_block_def held_def list_update_beyond)
  qed
  ultimately show ?thesis by (fastforce simp: held_def addStatement_def)
qed

lemma held_add: "e \<in> X \<Longrightarrow> held s \<subseteq> Y \<union> X \<Longrightarrow> held (add_stmt b e s) \<subseteq> Y \<union> X"
  "e = NoExpr \<or> e \<in> X \<Longrightarrow> held s \<subseteq> Y \<union> X \<Longrightarrow> held (add_cond b e s) \<subseteq> Y \<union> X"
  "e \<in> X \<Longrightarrow> held s \<subseteq> Y \<union> X \<Longrightarrow> held (add_here e s) \<subseteq> Y \<union> X"
  using held_add_stmt [of _ e s] by (auto simp: add_cond_def add_here_def split: option.split)

section \<open>Handlers\<close>

lemma then_doE:
  assumes "then_do r f = Inr t"
  obtains a where "r = Inr a" and "f a = Inr t"
  using assms by (cases r) auto

lemma only_addsD: "visit e s = Inr t \<Longrightarrow> only_adds X visit e \<Longrightarrow> held s \<subseteq> Y \<union> X \<Longrightarrow> held t \<subseteq> Y \<union> X"
  unfolding only_adds_def by blast

lemma seq_adds:
  assumes "\<And>x s t. x \<in> set xs \<Longrightarrow> f x s = Inr t \<Longrightarrow> held (g s) \<subseteq> Y \<union> X \<Longrightarrow> held (g t) \<subseteq> Y \<union> X"
    and "seq_r f xs s = Inr t" and "held (g s) \<subseteq> Y \<union> X"
  shows "held (g t) \<subseteq> Y \<union> X"
  using assms
proof (induction xs arbitrary: s)
  case (Cons x xs)
  from Cons.prems(2) obtain u where u: "f x s = Inr u" "seq_r f xs u = Inr t" by (auto elim: then_doE)
  have "held (g u) \<subseteq> Y \<union> X" using Cons.prems(1) [OF _ u(1) Cons.prems(3)] by simp
  then show ?case using Cons.IH [OF _ u(2)] Cons.prems(1) by (meson list.set_intros(2))
qed simp

lemma run_adds:
  assumes "only_adds X visit (recover_block r)" and "visit_run visit pre ok r s = Inr t" and "held s \<subseteq> Y \<union> X"
  shows "held t \<subseteq> Y \<union> X"
  using assms(2,3) unfolding visit_run_def
  by (auto simp: Let_def split_def elim!: then_doE dest!: only_addsD [OF _ assms(1), of _ _ Y])

lemma recovers_add:
  assumes v: "\<And>r. r \<in> set (find_recovers e) \<Longrightarrow> only_adds X visit (recover_block r)"
    and run: "branchToRecoverBlocks visit e pre s = Inr t" and "held s \<subseteq> Y \<union> X"
  shows "held t \<subseteq> Y \<union> X"
proof (cases "find_recovers e = []")
  case True
  then show ?thesis using assms(2,3) by (simp add: branchToRecoverBlocks_def)
next
  case False
  then obtain u where u: "seq_r (visit_run visit pre (fst (new_bb ''recover.ok'' s))) (find_recovers e)
      (link pre (fst (new_bb ''recover.ok'' s)) (snd (new_bb ''recover.ok'' s))) = Inr u"
      "held t = held u" using run by (auto simp: branchToRecoverBlocks_def Let_def split_def elim!: then_doE)
  have "held u \<subseteq> Y \<union> X"
  proof (rule seq_adds [where g = "\<lambda>s. s", OF _ u(1)])
    show "held t' \<subseteq> Y \<union> X" if "r \<in> set (find_recovers e)" "visit_run visit pre (fst (new_bb ''recover.ok'' s)) r s' = Inr t'"
      "held s' \<subseteq> Y \<union> X" for r s' t' by (rule run_adds [OF v [OF that(1)] that(2,3)])
  qed (use assms(3) in simp)
  then show ?thesis using u(2) by simp
qed

lemma block_adds:
  assumes v: "\<And>x. x \<in> set es \<Longrightarrow> only_adds X visit x"
    and run: "visitBlock visit (BlockExpr es) s = Inr t" and "held s \<subseteq> Y \<union> X"
  shows "held t \<subseteq> Y \<union> X"
proof -
  obtain u where u: "seq_r visit es (s\<lparr>DeferScopes := DeferScopes s @ [[]]\<rparr>) = Inr u" "held t = held u"
    using run by (auto simp: visitBlock_def Let_def elim!: then_doE split: if_split_asm)
  have "held u \<subseteq> Y \<union> X"
    by (rule seq_adds [where g = "\<lambda>s. s", OF _ u(1)]) (use only_addsD [OF _ v] assms(3) in auto)
  then show ?thesis using u(2) by simp
qed

lemma branches_add:
  assumes "\<And>br. br \<in> set brs \<Longrightarrow> only_adds X visit (br_body br) \<and> (br_cond br = NoExpr \<or> br_cond br \<in> X)"
    and "if_branches visit merge hasElse first brs (c, a, s) = Inr (c', a', t)" and "held s \<subseteq> Y \<union> X"
  shows "held t \<subseteq> Y \<union> X"
  using assms
proof (induction brs arbitrary: first c a s)
  case (Cons br brs)
  obtain thn s1 where s1: "new_bb (if first then ''if.then'' else ''elseif.then'') s = (thn, s1)" by (metis surj_pair)
  obtain nxt s2 where s2: "(if brs \<noteq> [] then new_bb ''elseif.cond'' s1
      else if hasElse then new_bb ''if.else'' s1 else (merge, s1)) = (nxt, s2)" by (metis surj_pair)
  have h: "held s2 = held s" using held_new_bbD [OF s1] s2 by (auto dest: held_new_bbD split: if_split_asm)
  let ?s3 = "set_term c TkBranch (br_loc br) (link c nxt (link c thn (add_cond c (br_cond br) s2)))"
  obtain u where u: "visit (br_body br) (setInsertPoint (Some thn) ?s3) = Inr u"
      "if_branches visit merge hasElse False brs (nxt, a \<and> \<not> live u, fall_to merge u) = Inr (c', a', t)"
    using Cons.prems(2) by (auto simp: s1 s2 Let_def elim!: then_doE)
  have "held (setInsertPoint (Some thn) ?s3) \<subseteq> Y \<union> X"
    using held_add(2) [of "br_cond br" X s2 Y] Cons.prems(1) [of br] Cons.prems(3) h by simp
  then have "held u \<subseteq> Y \<union> X" using only_addsD [where visit = visit and e = "br_body br", OF u(1)] Cons.prems(1) [of br] by simp
  then show ?case using Cons.IH [OF _ u(2)] Cons.prems(1) by simp
qed simp

lemma if_adds:
  assumes v: "\<And>br. br \<in> set brs \<Longrightarrow> only_adds X visit (br_body br) \<and> (br_cond br = NoExpr \<or> br_cond br \<in> X)"
    and e: "els \<noteq> NoExpr \<Longrightarrow> only_adds X visit els"
    and run: "visitIf visit brs els entry s = Inr t" and "held s \<subseteq> Y \<union> X"
  shows "held t \<subseteq> Y \<union> X"
proof -
  obtain merge s1 where s1: "new_bb ''if.end'' s = (merge, s1)" by (metis surj_pair)
  obtain c a s2 where s2: "if_branches visit merge (els \<noteq> NoExpr) True brs (entry, True, s1) = Inr (c, a, s2)"
      and t: "(if els \<noteq> NoExpr
             then then_do (visit els (setInsertPoint (Some c) s2))
                    (\<lambda>s. Inr (setInsertPoint (if a \<and> \<not> live s then None else Some merge) (fall_to merge s)))
             else Inr (setInsertPoint (Some merge) s2)) = Inr t"
    using run by (auto simp: visitIf_def s1 Let_def elim!: then_doE)
  have h: "held s2 \<subseteq> Y \<union> X" by (rule branches_add [OF v s2]) (use assms(4) held_new_bbD [OF s1] in auto)
  show ?thesis
  proof (cases "els = NoExpr")
    case True
    then show ?thesis using t h by auto
  next
    case False
    then obtain u where u: "visit els (setInsertPoint (Some c) s2) = Inr u" "held t = held u" using t by (auto elim!: then_doE)
    then show ?thesis using only_addsD [where visit = visit and e = els, OF u(1) e [OF False]] h by simp
  qed
qed

lemma loop_adds:
  assumes v: "body \<noteq> NoExpr \<Longrightarrow> only_adds X visit body"
    and run: "loop_body visit brk cont en body s = Inr t" and "held s \<subseteq> Y \<union> X"
  shows "held t \<subseteq> Y \<union> X"
proof (cases "body = NoExpr")
  case True
  then show ?thesis using run assms(3) by (auto simp: loop_body_def Let_def)
next
  case False
  then obtain w u where u: "visit body w = Inr u" "held w = held s" "held t = held u"
    using run by (auto simp: loop_body_def Let_def elim!: then_doE)
  then show ?thesis using only_addsD [where visit = visit and e = body, OF u(1) v [OF False]] assms(3) by simp
qed

lemma tests_add:
  assumes "\<And>v g. (v, g) \<in> set hs \<Longrightarrow> v \<in> X \<and> (g = NoExpr \<or> g \<in> X)"
    and "arm_tests loc body hs (prev, real, s) = (prev', real', t)" and "held s \<subseteq> Y \<union> X"
  shows "held t \<subseteq> Y \<union> X"
  using assms
proof (induction hs arbitrary: prev real s)
  case (Cons h hs)
  obtain v g where h: "h = (v, g)" by (cases h)
  obtain test s1 where s1: "new_bb ''compare.test'' s = (test, s1)" by (metis surj_pair)
  let ?s2 = "set_term test TkUnconditional loc (link test body (add_cond test g (add_stmt test v (link_fail loc prev real test s1))))"
  have "held (add_stmt test v (link_fail loc prev real test s1)) \<subseteq> Y \<union> X"
    by (rule held_add(1)) (use Cons.prems(1,3) h held_new_bbD [OF s1] in auto)
  then have "held ?s2 \<subseteq> Y \<union> X" using held_add(2) [of g X] Cons.prems(1) [of v g] h by simp
  moreover have "arm_tests loc body hs (test, True, ?s2) = (prev', real', t)" using Cons.prems(2) by (simp add: h s1 Let_def)
  ultimately show ?case using Cons.IH [of test True ?s2] Cons.prems(1) by (meson list.set_intros(2))
qed simp

lemma arm_adds:
  assumes v: "only_adds X visit (arm_body a)" and h: "\<And>v g. (v, g) \<in> set (arm_headers a) \<Longrightarrow> v \<in> X \<and> (g = NoExpr \<or> g \<in> X)"
    and run: "visit_arm visit loc merge a (prev, real, s) = Inr (prev', real', t)" and "held s \<subseteq> Y \<union> X"
  shows "held t \<subseteq> Y \<union> X"
proof -
  obtain body s1 where s1: "new_bb ''compare.arm'' s = (body, s1)" by (metis surj_pair)
  obtain p r s2 where s2: "arm_tests loc body (arm_headers a) (prev, real, s1) = (p, r, s2)" by (metis prod_cases3)
  have "held s2 \<subseteq> Y \<union> X" by (rule tests_add [OF h s2]) (use assms(4) held_new_bbD [OF s1] in auto)
  moreover obtain u where u: "visit (arm_body a) (setInsertPoint (Some body) s2) = Inr u" "held t = held u"
    using run by (auto simp: visit_arm_def s1 s2 elim!: then_doE)
  ultimately show ?thesis using only_addsD [where visit = visit and e = "arm_body a", OF u(1) v] by simp
qed

lemma compare_adds:
  assumes v: "\<And>a. a \<in> set arms \<Longrightarrow> only_adds X visit (arm_body a)"
    and h: "\<And>a v g. a \<in> set arms \<Longrightarrow> (v, g) \<in> set (arm_headers a) \<Longrightarrow> v \<in> X \<and> (g = NoExpr \<or> g \<in> X)"
    and o: "other \<noteq> NoExpr \<Longrightarrow> only_adds X visit other" and sub: "subject = NoExpr \<or> subject \<in> X"
    and run: "visitCompare visit loc subject arms other ex entry s = Inr t" and "held s \<subseteq> Y \<union> X"
  shows "held t \<subseteq> Y \<union> X"
proof -
  obtain merge s1 where s1: "new_bb ''compare.end'' s = (merge, s1)" by (metis surj_pair)
  let ?s2 = "set_term entry TkUnconditional loc (add_cond entry subject s1)"
  obtain p r u where u: "seq_r (visit_arm visit loc merge) arms (entry, False, ?s2) = Inr (p, r, u)"
      "(if other \<noteq> NoExpr
             then let (otherwise, s) = new_bb ''compare.otherwise'' u
                  in then_do (visit other (setInsertPoint (Some otherwise) (link_fail loc p r otherwise s)))
                       (\<lambda>s. Inr (setInsertPoint (Some merge) (fall_to merge s)))
             else Inr (setInsertPoint (Some merge) (if ex then u else link_fail loc p r merge u))) = Inr t"
    using run by (auto simp: visitCompare_def s1 Let_def elim!: then_doE)
  have "held ?s2 \<subseteq> Y \<union> X" using held_add(2) [OF sub, of s1 Y entry] assms(6) held_new_bbD [OF s1] by simp
  then have s2: "held ((\<lambda>(p, r, s). s) (entry, False, ?s2)) \<subseteq> Y \<union> X" by simp
  have "held ((\<lambda>(p, r, s). s) (p, r, u)) \<subseteq> Y \<union> X"
  proof (rule seq_adds [where g = "\<lambda>(p, r, s). s", OF _ u(1) s2])
    fix a w w' assume a: "a \<in> set arms" "visit_arm visit loc merge a w = Inr w'" "held ((\<lambda>(p, r, s). s) w) \<subseteq> Y \<union> X"
    obtain p r s p' r' t where w: "w = (p, r, s)" "w' = (p', r', t)" by (metis prod_cases3)
    show "held ((\<lambda>(p, r, s). s) w') \<subseteq> Y \<union> X" using arm_adds [OF v [OF a(1)] h [OF a(1)] a(2) [unfolded w]] a(3) by (simp add: w)
  qed
  then have hu: "held u \<subseteq> Y \<union> X" by simp
  show ?thesis
  proof (cases "other = NoExpr")
    case True
    then show ?thesis using u(2) hu by (auto split: if_split_asm)
  next
    case False
    obtain b w where w: "new_bb ''compare.otherwise'' u = (b, w)" by (metis surj_pair)
    obtain z where z: "visit other (setInsertPoint (Some b) (link_fail loc p r b w)) = Inr z" "held t = held z"
      using u(2) False by (auto simp: w elim!: then_doE)
    then show ?thesis using only_addsD [where visit = visit and e = other, OF z(1) o [OF False]] hu held_new_bbD [OF w] by simp
  qed
qed

lemma cond_branch_adds: "c = NoExpr \<or> c \<in> X \<Longrightarrow> held s \<subseteq> Y \<union> X \<Longrightarrow> held (cond_branch loc c cond body exit s) \<subseteq> Y \<union> X"
  using held_add(2) [of c X s Y cond] by (simp add: cond_branch_def Let_def)

lemma while_adds:
  assumes v: "body \<noteq> NoExpr \<Longrightarrow> only_adds X visit body" and c: "c = NoExpr \<or> c \<in> X"
    and run: "visitWhile visit loc c body entry s = Inr t" and "held s \<subseteq> Y \<union> X"
  shows "held t \<subseteq> Y \<union> X"
proof -
  obtain cond s1 start s2 ex s3 where n: "new_bb ''while.cond'' s = (cond, s1)" "new_bb ''while.body'' s1 = (start, s2)"
      "new_bb ''while.end'' s2 = (ex, s3)" by (metis surj_pair)
  let ?s = "cond_branch loc c cond start ex (set_term entry TkUnconditional loc (link entry cond s3))"
  obtain u where u: "loop_body visit ex cond start body ?s = Inr u" "held t = held u"
    using run by (auto simp: visitWhile_def n Let_def elim!: then_doE)
  have "held ?s \<subseteq> Y \<union> X"
    by (rule cond_branch_adds [OF c]) (use assms(4) n [THEN held_new_bbD] in simp)
  then show ?thesis using loop_adds [OF v u(1)] u(2) by simp
qed

lemma do_while_adds:
  assumes v: "body \<noteq> NoExpr \<Longrightarrow> only_adds X visit body" and c: "c = NoExpr \<or> c \<in> X"
    and run: "visitDoWhile visit loc body c entry s = Inr t" and "held s \<subseteq> Y \<union> X"
  shows "held t \<subseteq> Y \<union> X"
proof -
  obtain start s1 cond s2 ex s3 where n: "new_bb ''dowhile.body'' s = (start, s1)" "new_bb ''dowhile.cond'' s1 = (cond, s2)"
      "new_bb ''dowhile.end'' s2 = (ex, s3)" by (metis surj_pair)
  let ?s = "set_term entry TkUnconditional loc (link entry start s3)"
  obtain u where u: "loop_body visit ex cond start body ?s = Inr u" "t = setInsertPoint (Some ex) (cond_branch loc c cond start ex u)"
    using run by (auto simp: visitDoWhile_def n Let_def elim!: then_doE)
  have "held ?s \<subseteq> Y \<union> X" using assms(4) n [THEN held_new_bbD] by simp
  then have "held u \<subseteq> Y \<union> X" using loop_adds [OF v u(1)] by simp
  then show ?thesis using cond_branch_adds [OF c] u(2) by simp
qed

lemma counted_adds:
  assumes v: "body \<noteq> NoExpr \<Longrightarrow> only_adds X visit body" and c: "\<And>h. h \<in> set tests \<Longrightarrow> h = NoExpr \<or> h \<in> X"
    and run: "counted_loop visit kind tests body entry s = Inr t" and "held s \<subseteq> Y \<union> X"
  shows "held t \<subseteq> Y \<union> X"
proof -
  obtain cond s1 start s2 step s3 ex s4 where n: "new_bb (kind @ ''.cond'') s = (cond, s1)" "new_bb (kind @ ''.body'') s1 = (start, s2)"
      "new_bb (kind @ ''.step'') s2 = (step, s3)" "new_bb (kind @ ''.end'') s3 = (ex, s4)" by (metis surj_pair)
  let ?n = "loc3 0 0 []"
  let ?h = "fold (add_cond cond) tests (set_term entry TkUnconditional ?n (link entry cond s4))"
  let ?s = "set_term cond TkBranch ?n (link cond ex (link cond start ?h))"
  obtain u where u: "loop_body visit ex step start body ?s = Inr u" "held t = held u"
    using run by (auto simp: counted_loop_def n Let_def elim!: then_doE)
  have "held (fold (add_cond cond) hs w) \<subseteq> Y \<union> X" if "set hs \<subseteq> set tests" "held w \<subseteq> Y \<union> X" for hs w
    using that
  proof (induction hs arbitrary: w)
    case (Cons h hs)
    have "held (add_cond cond h w) \<subseteq> Y \<union> X" by (rule held_add(2)) (use Cons.prems c in auto)
    then show ?case using Cons.IH [of "add_cond cond h w"] Cons.prems(1) by simp
  qed simp
  then have "held ?s \<subseteq> Y \<union> X" using assms(4) n [THEN held_new_bbD] by simp
  then show ?thesis using loop_adds [OF v u(1)] u(2) by simp
qed

section \<open>Visits and graphs\<close>

definition no_bigger :: "nat \<Rightarrow> ExprAST set" where
  "no_bigger n = {e. size e \<le> n}"

lemma size_header:
  assumes "(v, g) \<in> set (arm_headers a)" and "a \<in> set arms"
  shows "size v < size (CompareExpr loc sub arms other ex) \<and> (g = NoExpr \<or> size g < size (CompareExpr loc sub arms other ex))"
proof -
  have "v \<in> set (arm_values a)" "g = NoExpr \<or> g \<in> set (arm_guards a)"
    using assms(1) by (auto simp: arm_headers_def split: if_split_asm)
  then show ?thesis using size_arm(1,2) [OF assms(2)] by fastforce
qed

lemma visit_adds: "size e \<le> n \<Longrightarrow> only_adds (no_bigger n) visitExpr e"
proof (induction "size e" arbitrary: e rule: less_induct)
  case less
  have part: "c = NoExpr \<or> c \<in> no_bigger n" "only_adds (no_bigger n) visitExpr c" if "size c < size e" for c
    using that less by (auto simp: no_bigger_def)
  show ?case unfolding only_adds_def
  proof (intro allI impI)
    fix s t assume run: "visitExpr e s = Inr t"
    have self: "e \<in> no_bigger n" using less.prems by (simp add: no_bigger_def)
    have rec: "only_adds (no_bigger n) visitExpr (recover_block r)" if "r \<in> set (find_recovers e)" for r
      using part(2) size_find_recovers [OF that] by simp
    have start: "held s \<subseteq> held s \<union> no_bigger n" by simp
    have stmt: "held t \<subseteq> held s \<union> no_bigger n" if run: "visitStatement visitExpr e en s = Inr t" for en
    proof -
      obtain u where u: "branchToRecoverBlocks visitExpr e en (note_defer e s) = Inr u" "t = add_here e u"
        using run by (auto simp: visitStatement_def elim!: then_doE)
      have "held u \<subseteq> held s \<union> no_bigger n" by (rule recovers_add [OF rec u(1)]) simp_all
      then show ?thesis using held_add(3) [OF self] u(2) by simp
    qed
    have ret: "held t \<subseteq> held s \<union> no_bigger n" if run: "visitReturn visitExpr loc e en s = Inr t" for loc en
    proof -
      obtain u where u: "branchToRecoverBlocks visitExpr e en s = Inr u" "held t = held (add_here e u)"
        using run by (auto simp: visitReturn_def elim!: then_doE)
      have "held u \<subseteq> held s \<union> no_bigger n" by (rule recovers_add [OF rec u(1)]) simp_all
      then show ?thesis using held_add(3) [OF self] u(2) by simp
    qed
    have here: "held (add_here e w) \<subseteq> held s \<union> no_bigger n" if "held w = held s" for w
      using held_add(3) [OF self, of w "held s"] that by simp
    have blocks: "held t \<subseteq> held s \<union> no_bigger n" if "visitBlock visitExpr b s = Inr t" "b = e \<or> size b < size e" for b
    proof (cases "\<exists>es. b = BlockExpr es")
      case True
      then obtain es where b: "b = BlockExpr es" by blast
      have "size x < size e" if "x \<in> set es" for x using that \<open>b = e \<or> size b < size e\<close> b by (auto dest: size_in_list)
      then show ?thesis using block_adds [OF part(2) that(1) [unfolded b]] by simp
    next
      case False
      then show ?thesis using that(1) by (cases b) (simp_all add: visitBlock_def)
    qed
    show "held t \<subseteq> held s \<union> no_bigger n"
    proof (cases "e = NoExpr \<or> \<not> live s")
      case True
      then show ?thesis using run by (auto simp: visitExpr.simps [of e] split: if_split_asm)
    next
      case False
      then have l: "e \<noteq> NoExpr" "live s" by simp_all
      note run = run [unfolded visitExpr.simps [of e] Let_def, simplified l if_False not_True_eq_False]
      show ?thesis
      proof (cases e)
        case (BlockExpr es)
        then show ?thesis using run blocks [of e] by simp
      next
        case (UnsafeBlockExpr loc b)
        then show ?thesis using run blocks [of b] by simp
      next
        case (IfExpr brs els)
        have "size (br_cond br) < size e \<and> size (br_body br) < size e" if "br \<in> set brs" for br
          using size_branch [OF that] IfExpr by simp
        then show ?thesis using run if_adds [of brs "no_bigger n" visitExpr els _ s t "held s"] part IfExpr by simp
      next
        case (WhileExpr loc c b)
        then show ?thesis using run while_adds [of b "no_bigger n" visitExpr c loc _ s t "held s"] part by simp
      next
        case (DoWhileExpr loc b c)
        then show ?thesis using run do_while_adds [of b "no_bigger n" visitExpr c loc _ s t "held s"] part by simp
      next
        case (ForExpr loc v start end1 step b)
        have "h = NoExpr \<or> h \<in> no_bigger n" if "h \<in> set [start, end1]" for h
          using that part(1) [of start] part(1) [of end1] ForExpr by auto
        then show ?thesis
          using run counted_adds [of b "no_bigger n" visitExpr "[start, end1]" "''for''" _ s t "held s"] part(2) [of b] ForExpr
          by (simp add: visitFor_def)
      next
        case (ForEachExpr loc v i it b)
        have "h = NoExpr \<or> h \<in> no_bigger n" if "h \<in> set [it]" for h using that part(1) [of it] ForEachExpr by auto
        then show ?thesis
          using run counted_adds [of b "no_bigger n" visitExpr "[it]" "''foreach''" _ s t "held s"] part(2) [of b] ForEachExpr
          by (simp add: visitForEach_def)
      next
        case (CompareExpr loc sub arms other ex)
        have v: "only_adds (no_bigger n) visitExpr (arm_body a)" if "a \<in> set arms" for a
          using part(2) size_arm(3) [OF that] CompareExpr by simp
        have h: "v \<in> no_bigger n \<and> (g = NoExpr \<or> g \<in> no_bigger n)" if "a \<in> set arms" "(v, g) \<in> set (arm_headers a)" for a v g
          using size_header [OF that(2,1), of loc sub other ex] less.prems CompareExpr by (auto simp: no_bigger_def)
        have c: "visitCompare visitExpr loc sub arms other ex (the (CurrentBlock s)) s = Inr t" using run CompareExpr by simp
        show ?thesis
        proof (rule compare_adds [OF v h _ _ c])
          show "only_adds (no_bigger n) visitExpr other" using part(2) [of other] CompareExpr by simp
          show "sub = NoExpr \<or> sub \<in> no_bigger n" using part(1) [of sub] CompareExpr by simp
        qed simp_all
      next
        case (ReturnExpr loc v)
        then show ?thesis using run ret by simp
      next
        case (BreakExpr loc)
        then show ?thesis using run here [of "emitDeferredRuns (LoopDeferDepth s) s"]
          by (auto simp: visitBreak_def split: if_split_asm)
      next
        case (ContinueExpr loc)
        then show ?thesis using run here [of "emitDeferredRuns (LoopDeferDepth s) s"]
          by (auto simp: visitContinue_def split: if_split_asm)
      qed (use run stmt in simp_all)
    qed
  qed
qed

lemma start_holds_nothing: "held (with_entry_and_exit (new_cfg name void loc mangled)) = {}"
  by (simp add: with_entry_and_exit_def new_bb_def createBlock_def new_cfg_def new_block_def held_def setInsertPoint_def
      on_graph_def Let_def)

lemma reachable_statements:
  assumes "B \<in> set (Blocks (computeReachability G))"
  obtains B' where "B' \<in> set (Blocks G)" and "Statements B = Statements B'"
proof -
  obtain R where "computeReachability G = set_marks R G"
    by (cases "EntryBlock G") (simp_all add: computeReachability_def Let_def)
  then show thesis using assms that by (auto simp: set_marks_def dest: set_zip_leftD)
qed

lemma built_sizes:
  assumes "visitExpr body s = Inr t" and "held s = {}" and "B \<in> set (Blocks (computeReachability (CurrentCFG (link_to_exit t))))"
    and "e \<in> set (Statements B)"
  shows "size e \<le> size body"
proof -
  obtain B' where "B' \<in> set (Blocks (CurrentCFG (link_to_exit t)))" "e \<in> set (Statements B')"
    using reachable_statements [OF assms(3)] assms(4) by metis
  then have "e \<in> held (link_to_exit t)" by (auto simp: held_def)
  then have "e \<in> held t" by (simp add: link_to_exit_def split: if_split_asm)
  then show ?thesis using only_addsD [where visit = visitExpr and e = body, OF assms(1) visit_adds [OF order_refl], of "{}"] assms(2)
    by (auto simp: no_bigger_def)
qed

lemma built_statements:
  assumes "buildCFG name void body loc mangled = Inr G" and "B \<in> set (Blocks G)" and "e \<in> set (Statements B)"
  shows "size e \<le> size body"
  using assms built_sizes [OF _ start_holds_nothing] by (fastforce simp: buildCFG_def elim!: then_doE)

lemma region_statements:
  assumes "buildRegionCFG name body loc = Inr G" and "B \<in> set (Blocks G)" and "e \<in> set (Statements B)"
  shows "size e \<le> size body"
  using assms built_sizes [of body "_\<lparr>LoopBreakTarget := _, LoopContinueTarget := _\<rparr>"] start_holds_nothing
  by (fastforce simp: buildRegionCFG_def Let_def elim!: then_doE)

end
