(* ===== verification/NullRuns.thy ===== *)
theory NullRuns
  imports NullSound Rounds CfgSizes
begin

text \<open>
  The nullability pass over a whole function: its loop ends in facts that every run has, and a function it
  accepts reads through no null reference at the places it looks at.
\<close>

section \<open>The loop\<close>

lemma mem_null_edges: "(p, si) \<in> set (null_edges G b) \<longleftrightarrow> p < length (Blocks G) \<and> si < length (succs G p) \<and> succs G p ! si = b"
  by (auto simp: null_edges_def)

lemma null_meet_iff: "es \<noteq> [] \<Longrightarrow> x \<in> null_meet OUT es \<longleftrightarrow> (\<forall>(p, si) \<in> set es. x \<in> edge_set (OUT ! p) si)"
proof -
  have "x \<in> fold (\<lambda>(p, si) newIN. newIN \<inter> edge_set (OUT ! p) si) es X \<longleftrightarrow> x \<in> X \<and> (\<forall>(p, si) \<in> set es. x \<in> edge_set (OUT ! p) si)"
    for es X by (induction es arbitrary: X) auto
  then show "es \<noteq> [] \<Longrightarrow> x \<in> null_meet OUT es \<longleftrightarrow> (\<forall>(p, si) \<in> set es. x \<in> edge_set (OUT ! p) si)"
    by (cases es) (auto simp: null_meet_def)
qed

lemma null_stmts_within: "In \<subseteq> T \<Longrightarrow> fst (null_stmts T ss In) \<subseteq> T \<and> snd (null_stmts T ss In) \<subseteq> T"
  by (induction T ss In rule: null_stmts.induct) (simp_all add: narrow_within)

lemma null_stmts_mono: "X \<subseteq> Y \<Longrightarrow> fst (null_stmts T ss X) \<subseteq> fst (null_stmts T ss Y) \<and> snd (null_stmts T ss X) \<subseteq> snd (null_stmts T ss Y)"
  by (induction T ss X arbitrary: Y rule: null_stmts.induct) (simp_all add: narrow_mono)

lemma edge_out_within: "In \<subseteq> T \<Longrightarrow> edge_set (null_out T G b In) si \<subseteq> T"
  using null_stmts_within [of In T "Statements (Blocks G ! b)"] by (auto simp: edge_set_def null_out_def split: prod.splits)

lemma edge_out_mono: "X \<subseteq> Y \<Longrightarrow> edge_set (null_out T G b X) si \<subseteq> edge_set (null_out T G b Y) si"
  using null_stmts_mono [of X Y T "Statements (Blocks G ! b)"] by (auto simp: edge_set_def null_out_def split: prod.splits)

definition null_inv :: "nat set \<Rightarrow> ExprAST CFG \<Rightarrow> nat \<Rightarrow> nat set \<Rightarrow> nat set list \<times> (nat set \<times> nat set) list \<Rightarrow> bool" where
  "null_inv T G e EntryIn w \<longleftrightarrow> (case w of (IN, OUT) \<Rightarrow>
     length IN = length (Blocks G) \<and> length OUT = length (Blocks G) \<and> (e < length (Blocks G) \<longrightarrow> IN ! e = EntryIn) \<and>
     (\<forall>b < length (Blocks G). IN ! b \<subseteq> T \<and> OUT ! b = null_out T G b (IN ! b) \<and>
        (b \<noteq> e \<and> null_edges G b \<noteq> [] \<longrightarrow> null_meet OUT (null_edges G b) \<subseteq> IN ! b)))"

lemma null_invD:
  assumes "null_inv T G e EntryIn (IN, OUT)"
  shows "length IN = length (Blocks G)" "length OUT = length (Blocks G)" "e < length (Blocks G) \<Longrightarrow> IN ! e = EntryIn"
    "b < length (Blocks G) \<Longrightarrow> IN ! b \<subseteq> T" "b < length (Blocks G) \<Longrightarrow> OUT ! b = null_out T G b (IN ! b)"
    "b < length (Blocks G) \<Longrightarrow> b \<noteq> e \<Longrightarrow> null_edges G b \<noteq> [] \<Longrightarrow> null_meet OUT (null_edges G b) \<subseteq> IN ! b"
  using assms by (simp_all add: null_inv_def)

lemma null_meet_mono:
  assumes "es \<noteq> []" and "\<And>p si. (p, si) \<in> set es \<Longrightarrow> edge_set (OUT' ! p) si \<subseteq> edge_set (OUT ! p) si"
  shows "null_meet OUT' es \<subseteq> null_meet OUT es"
proof
  fix x assume "x \<in> null_meet OUT' es"
  then have "\<forall>(p, si) \<in> set es. x \<in> edge_set (OUT' ! p) si" using null_meet_iff [OF assms(1)] by blast
  then have "\<forall>(p, si) \<in> set es. x \<in> edge_set (OUT ! p) si" using assms(2) by blast
  then show "x \<in> null_meet OUT es" using null_meet_iff [OF assms(1)] by blast
qed

lemma null_start_inv:
  assumes "EntryIn \<subseteq> T"
  shows "null_inv T G e EntryIn (snd (null_start T G e EntryIn))"
proof -
  let ?IN = "map (\<lambda>i. if i = e then EntryIn else T) [0..<length (Blocks G)]"
  let ?OUT = "map (\<lambda>i. null_out T G i (?IN ! i)) [0..<length (Blocks G)]"
  have within: "?IN ! b \<subseteq> T" if "b < length (Blocks G)" for b using assms that by simp
  have "null_meet ?OUT (null_edges G b) \<subseteq> T" if ne: "null_edges G b \<noteq> []" for b
  proof
    fix x assume x: "x \<in> null_meet ?OUT (null_edges G b)"
    obtain p si where e: "(p, si) \<in> set (null_edges G b)" using ne by (cases "null_edges G b") auto
    then have p: "p < length (Blocks G)" by (simp add: mem_null_edges)
    have "x \<in> edge_set (?OUT ! p) si" using x e null_meet_iff [OF ne] by blast
    then show "x \<in> T" using edge_out_within [OF within [OF p]] p by auto
  qed
  then have "null_inv T G e EntryIn (?IN, ?OUT)" using assms by (simp add: null_inv_def)
  then show ?thesis by (simp add: null_start_def Let_def)
qed

abbreviation facts_count :: "ExprAST CFG \<Rightarrow> nat set list \<Rightarrow> nat" where
  "facts_count G IN \<equiv> \<Sum>b < length (Blocks G). card (IN ! b)"

lemma null_block_step:
  assumes T: "finite T" and inv: "null_inv T G e EntryIn (IN, OUT)" and b: "b < length (Blocks G)"
    and ch: "b \<noteq> e" "null_edges G b \<noteq> []" "null_meet OUT (null_edges G b) \<noteq> IN ! b"
    and new: "new = null_meet OUT (null_edges G b)" "IN' = IN[b := new]" "OUT' = OUT[b := null_out T G b new]"
  shows "null_inv T G e EntryIn (IN', OUT')" "facts_count G IN' < facts_count G IN"
proof -
  note I = null_invD [OF inv]
  have sub: "new \<subset> IN ! b" using I(6) [OF b ch(1,2)] ch(3) new(1) by auto
  have at: "IN' ! c = (if c = b then new else IN ! c)" "OUT' ! c = (if c = b then null_out T G b new else OUT ! c)"
    if "c < length (Blocks G)" for c using that I(1,2) b unfolding new by (auto simp: nth_list_update)
  have down: "edge_set (OUT' ! p) si \<subseteq> edge_set (OUT ! p) si" if "p < length (Blocks G)" for p si
    using at(2) [OF that] I(5) [OF that] edge_out_mono [of new "IN ! b" T G b si] sub by (cases "p = b") auto
  have meet: "null_meet OUT' (null_edges G c) \<subseteq> null_meet OUT (null_edges G c)" if "null_edges G c \<noteq> []" for c
    by (rule null_meet_mono [OF that]) (simp add: mem_null_edges down)
  have "IN' ! c \<subseteq> T \<and> OUT' ! c = null_out T G c (IN' ! c) \<and>
      (c \<noteq> e \<and> null_edges G c \<noteq> [] \<longrightarrow> null_meet OUT' (null_edges G c) \<subseteq> IN' ! c)" if c: "c < length (Blocks G)" for c
    using at [OF c] I(4,5,6) [OF c] I(4) [OF b] sub meet [of c] new(1) by (cases "c = b") auto
  moreover have "length IN' = length (Blocks G)" "length OUT' = length (Blocks G)" using I(1,2) unfolding new by simp_all
  moreover have "e < length (Blocks G) \<longrightarrow> IN' ! e = EntryIn" using I(3) at(1) ch(1) by auto
  ultimately show "null_inv T G e EntryIn (IN', OUT')" by (simp add: null_inv_def)
  have fin: "finite (IN ! c)" if "c < length (Blocks G)" for c by (rule finite_subset [OF I(4) [OF that] T])
  have "\<forall>c \<in> {..<length (Blocks G)}. card (IN' ! c) \<le> card (IN ! c)"
    using at(1) sub fin by (auto intro!: card_mono)
  moreover have "\<exists>c \<in> {..<length (Blocks G)}. card (IN' ! c) < card (IN ! c)"
    using at(1) [OF b] sub b fin [OF b] by (auto intro!: bexI [of _ b] psubset_card_mono)
  ultimately show "facts_count G IN' < facts_count G IN" by (rule sum_strict_mono_ex1 [OF finite_lessThan])
qed

text \<open>The answer: what holds at the entry, and elsewhere no more than every edge into the block brings.\<close>

lemma null_solved:
  assumes T: "finite T" and E: "EntryIn \<subseteq> T"
  obtains IN where "null_solve T G e EntryIn = Some IN" and "length IN = length (Blocks G)"
    and "e < length (Blocks G) \<Longrightarrow> IN ! e = EntryIn" and "\<And>b. b < length (Blocks G) \<Longrightarrow> IN ! b \<subseteq> T"
    and "\<And>p si. p < length (Blocks G) \<Longrightarrow> si < length (succs G p) \<Longrightarrow> succs G p ! si < length (Blocks G) \<Longrightarrow>
      succs G p ! si \<noteq> e \<Longrightarrow> IN ! (succs G p ! si) \<subseteq> edge_set (null_out T G p (IN ! p)) si"
proof -
  let ?still = "\<lambda>b (IN, OUT). b = e \<or> null_edges G b = [] \<or> null_meet OUT (null_edges G b) = IN ! b"
  let ?bs = "[0..<length (Blocks G)]"
  obtain w where w: "while_option fst (\<lambda>(chg, w). fold (null_block T G e) ?bs (False, w)) (True, snd (null_start T G e EntryIn)) = Some (False, w)"
      "null_inv T G e EntryIn w" "\<And>b. b \<in> set ?bs \<Longrightarrow> ?still b w"
  proof (rule rounds_end [of "null_inv T G e EntryIn" ?bs "null_block T G e" ?still "\<lambda>w. facts_count G (fst w)", OF _ null_start_inv [OF E]])
    fix chg w b assume inv: "null_inv T G e EntryIn w" and b: "b \<in> set ?bs"
    obtain IN OUT where w: "w = (IN, OUT)" by (cases w)
    show "null_block T G e b (chg, w) = (chg, w) \<and> ?still b w \<or>
        (\<exists>w'. null_block T G e b (chg, w) = (True, w') \<and> null_inv T G e EntryIn w' \<and> facts_count G (fst w') < facts_count G (fst w))"
    proof (cases "b = e \<or> null_edges G b = [] \<or> null_meet OUT (null_edges G b) = IN ! b")
      case True
      then show ?thesis unfolding w by (auto simp: null_block_def Let_def)
    next
      case False
      have "b < length (Blocks G)" using b by simp
      from null_block_step [OF T inv [unfolded w] this _ _ _ refl refl refl] False
      show ?thesis unfolding w by (simp add: null_block_def Let_def)
    qed
  qed (rule that)
  obtain IN OUT where io: "w = (IN, OUT)" by (cases w)
  note I = null_invD [OF w(2) [unfolded io]]
  have start: "null_start T G e EntryIn = (True, snd (null_start T G e EntryIn))" by (simp add: null_start_def Let_def)
  show thesis
  proof (rule that [of IN])
    show "null_solve T G e EntryIn = Some IN"
      unfolding null_solve_def by (subst start) (use w(1) io in \<open>simp add: null_round_def [abs_def]\<close>)
    show "IN ! (succs G p ! si) \<subseteq> edge_set (null_out T G p (IN ! p)) si"
      if p: "p < length (Blocks G)" "si < length (succs G p)" "succs G p ! si < length (Blocks G)" "succs G p ! si \<noteq> e" for p si
    proof -
      let ?b = "succs G p ! si"
      have e: "(p, si) \<in> set (null_edges G ?b)" using p by (simp add: mem_null_edges)
      then have ne: "null_edges G ?b \<noteq> []" by auto
      then have eq: "null_meet OUT (null_edges G ?b) = IN ! ?b" using w(3) [of ?b] p(3,4) io by auto
      have "x \<in> edge_set (OUT ! p) si" if "x \<in> null_meet OUT (null_edges G ?b)" for x
        using that null_meet_iff [OF ne, of x OUT] e by blast
      then show ?thesis using eq I(5) [OF p(1)] by auto
    qed
  qed (use I in auto)
qed

section \<open>A block keeps what holds\<close>

definition facts :: "nat set \<Rightarrow> ExprAST list \<Rightarrow> nat set \<Rightarrow> nat set" where
  "facts T ss In = fold (\<lambda>s X. fst (narrow T s X)) ss In"

lemma null_exec_snoc: "null_exec (ss @ [s]) \<sigma> \<sigma>l \<sigma>' \<longleftrightarrow> (\<exists>l. null_exec ss \<sigma> l \<sigma>l \<and> null_step \<sigma>l s \<sigma>')"
proof (induction ss arbitrary: \<sigma>)
  case (Cons a ss)
  show ?case
  proof (cases ss)
    case Nil
    then show ?thesis by auto
  next
    case (Cons b bs)
    then show ?thesis using Cons.IH by auto
  qed
qed auto

lemma null_stmts_snoc: "null_stmts T (ss @ [s]) In = narrow T s (facts T ss In)"
proof (induction ss arbitrary: In)
  case (Cons a ss)
  then show ?case by (cases ss) (simp_all add: facts_def)
qed (simp add: facts_def)

text \<open>
  The functions the theorems speak of: a variable that is tracked gets a value only by a whole declaration or
  assignment, and an expression that compares it with null is either inside a larger one or what its block
  branches on.
\<close>

definition stmts_checkable :: "nat set \<Rightarrow> ExprAST list \<Rightarrow> bool" where
  "stmts_checkable T ss \<longleftrightarrow> list_all (\<lambda>s. T \<inter> unseen s = {} \<and> list_all looked_into (parts s)) ss \<and>
     list_all (\<lambda>s. \<not> tests_null T s) (butlast ss)"

definition null_checkable :: "nat set \<Rightarrow> ExprAST CFG \<Rightarrow> bool" where
  "null_checkable T G \<longleftrightarrow> wf_cfg G \<and> list_all (\<lambda>b. stmts_checkable T (Statements (Blocks G ! b)) \<and>
     (Statements (Blocks G ! b) \<noteq> [] \<longrightarrow> tests_null T (last (Statements (Blocks G ! b))) \<longrightarrow> decides G b))
     [0..<length (Blocks G)]"

lemma plain_statements:
  assumes "null_exec ss \<sigma> \<sigma>l \<sigma>'" and "list_all (\<lambda>s. \<not> tests_null T s \<and> T \<inter> unseen s = {}) ss" and "facts_hold T \<sigma> In"
  shows "facts_hold T \<sigma>' (facts T ss In)"
  using assms
proof (induction ss arbitrary: \<sigma>l \<sigma>' rule: rev_induct)
  case (snoc s ss)
  then obtain l where l: "null_exec ss \<sigma> l \<sigma>l" "null_step \<sigma>l s \<sigma>'" by (auto simp: null_exec_snoc)
  have "facts_hold T \<sigma>l (facts T ss In)" by (rule snoc.IH [OF l(1)]) (use snoc.prems in simp_all)
  with plain_statement(1) [OF _ _ this l(2)] snoc.prems(2) show ?case by (simp add: facts_def)
qed (simp add: facts_def)

lemma block_edges_hold:
  assumes c: "null_checkable T G" and b: "b < length (Blocks G)" and h: "facts_hold T \<sigma> In"
    and run: "null_exec (Statements (Blocks G ! b)) \<sigma> \<sigma>l \<sigma>'" and k: "takes G b \<sigma>l k"
  shows "facts_hold T \<sigma>' (edge_set (null_out T G b In) k)"
proof -
  let ?ss = "Statements (Blocks G ! b)"
  have sc: "stmts_checkable T ?ss" "?ss \<noteq> [] \<Longrightarrow> tests_null T (last ?ss) \<Longrightarrow> decides G b"
    using c b by (auto simp: null_checkable_def list_all_iff)
  show ?thesis
  proof (cases "?ss = []")
    case True
    then show ?thesis using run h by (simp add: null_out_def edge_set_def)
  next
    case False
    then obtain ss s where s: "?ss = ss @ [s]" by (metis rev_exhaust)
    obtain l where l: "null_exec ss \<sigma> l \<sigma>l" "null_step \<sigma>l s \<sigma>'" using run by (auto simp: s null_exec_snoc)
    have u: "T \<inter> unseen s = {}" using sc(1) by (simp add: s stmts_checkable_def)
    have hl: "facts_hold T \<sigma>l (facts T ss In)"
      by (rule plain_statements [OF l(1) _ h]) (use sc(1) in \<open>auto simp: s stmts_checkable_def list_all_iff\<close>)
    have out: "null_out T G b In = (fst (narrow T s (facts T ss In)),
        if edge_split G b then snd (narrow T s (facts T ss In)) else fst (narrow T s (facts T ss In)))"
      by (simp add: null_out_def s null_stmts_snoc split: prod.split)
    show ?thesis
    proof (cases "tests_null T s")
      case True
      then have d: "decides G b" using sc(2) by (simp add: s)
      then have "may_be \<sigma>l s (k = 0)" using k by (simp add: takes_def s)
      from test_step [OF True u hl this l(2)] d show ?thesis by (auto simp: out edge_set_def decides_def split: if_split_asm)
    next
      case False
      from plain_statement [OF False u hl l(2)] show ?thesis by (auto simp: out edge_set_def)
    qed
  qed
qed

text \<open>So the facts the loop ends with hold in every state in which control gets to a block.\<close>

lemma facts_at_blocks:
  assumes c: "null_checkable T G" and e: "EntryBlock G = Some e"
    and entry: "e < length (Blocks G) \<Longrightarrow> IN ! e = {}"
    and edges: "\<And>p si. p < length (Blocks G) \<Longrightarrow> si < length (succs G p) \<Longrightarrow> succs G p ! si < length (Blocks G) \<Longrightarrow>
      succs G p ! si \<noteq> e \<Longrightarrow> IN ! (succs G p ! si) \<subseteq> edge_set (null_out T G p (IN ! p)) si"
    and "null_arrives G b \<sigma>"
  shows "b < length (Blocks G) \<and> facts_hold T \<sigma> (IN ! b)"
  using assms(5)
proof (induction rule: null_arrives.induct)
  case (null_entry a \<sigma>)
  then have "a = e" using e by simp
  moreover have "e < length (Blocks G)" using c e by (auto simp: null_checkable_def wf_cfg_def)
  ultimately show ?case using entry by (simp add: facts_hold_def)
next
  case (null_edge a \<sigma> \<sigma>l \<sigma>' k)
  let ?b = "succs G a ! k"
  have b: "?b < length (Blocks G)" using c null_edge.hyps(2,4) by (auto simp: null_checkable_def wf_cfg_def)
  have h: "facts_hold T \<sigma> (IN ! a)" using null_edge.IH by simp
  show ?case
  proof (cases "?b = e")
    case True
    then show ?thesis using entry b by (simp add: facts_hold_def)
  next
    case False
    from block_edges_hold [OF c null_edge.hyps(2) h null_edge.hyps(3,5)] edges [OF null_edge.hyps(2,4) b False] b
    show ?thesis by (auto simp: facts_hold_def)
  qed
qed

section \<open>Nothing to report\<close>

definition quiet :: "NullItem list \<Rightarrow> bool" where
  "quiet items \<longleftrightarrow> (\<forall>r. Report r \<notin> set items)"

lemma quiet_simps [simp]: "quiet []" "quiet (xs @ ys) \<longleftrightarrow> quiet xs \<and> quiet ys" "quiet (concat xss) \<longleftrightarrow> (\<forall>xs \<in> set xss. quiet xs)"
  by (auto simp: quiet_def)

lemma deref_quiet:
  assumes "quiet (deref_items T In loc b m f)" and "facts_hold T \<sigma> In" and "x \<in> through b" and "x \<in> T"
  shows "\<not> \<sigma> x"
  using assms by (cases b) (auto simp: deref_items_def through_def target_symbol_def symbol_ids_def facts_hold_def quiet_def
      split: option.splits if_split_asm)

lemma cast_quiet:
  assumes "quiet (cast_items T In loc (Some D) b)" and "facts_hold T \<sigma> In" and "x \<in> through b" and "x \<in> T"
    and "cast_reads D"
  shows "\<not> \<sigma> x"
  using assms by (cases b) (auto simp: cast_items_def through_def target_symbol_def symbol_ids_def facts_hold_def quiet_def
      split: option.splits if_split_asm)

lemma receiver_quiet:
  assumes "quiet (null_items B T e In)" and "facts_hold T \<sigma> In" and "x \<in> reads_receiver e" and "x \<in> T"
  shows "\<not> \<sigma> x"
proof (cases e)
  case (FieldAccessExpr loc b f)
  then show ?thesis using assms deref_quiet [OF _ assms(2) _ assms(4), of loc b f False] by (simp add: reads_receiver_def)
next
  case (CastExpr loc D b)
  then show ?thesis using assms cast_quiet [OF _ assms(2) _ assms(4), of loc "the D" b]
    by (cases D) (auto simp: reads_receiver_def split: if_split_asm)
next
  case (MethodCallExpr loc b m args ct)
  then show ?thesis using assms deref_quiet [OF _ assms(2) _ assms(4), of loc b m True]
    by (auto simp: reads_receiver_def split: if_split_asm)
qed (use assms(3) in \<open>simp_all add: reads_receiver_def\<close>)

text \<open>The walk reaches whatever is evaluated, with facts that hold there.\<close>

lemma evaluated_quiet:
  assumes q: "quiet (null_items B T e In)" and h: "facts_hold T \<sigma> In" and nr: "\<And>c. c \<in> set (effect_children e) \<Longrightarrow> no_rebinding T c"
    and l: "looked_into e" and c: "c \<in> set (evaluated \<sigma> e)" and d: "derefs \<sigma> c \<noteq> {}"
  obtains X where "quiet (null_items B T c X)" and "facts_hold T \<sigma> X"
proof (cases "stays_closed e \<or> quiet (null_items B T c In)")
  case True
  then show thesis using that h c by (auto simp: evaluated_def)
next
  case False
  show thesis
  proof (cases e)
    case (BinaryExpr loc op l r p)
    have nothing: "derefs \<sigma> NoExpr = {}"
      by (simp add: derefs.simps [of _ NoExpr] reads_receiver_def evaluated_def stays_closed_def effect_children_def
          children_def all_children_def)
    have "l = NoExpr \<or> no_rebinding T l" using nr [of l] BinaryExpr
      by (cases "l = NoExpr") (simp_all add: effect_children_def children_def all_children_def)
    then have nl: "may_be \<sigma> l v \<Longrightarrow> facts_hold T \<sigma> (if v then fst (narrow T l In) else snd (narrow T l In))" for v
      using narrow_truth [of T l \<sigma> In v] h by auto
    have cr: "c = l \<or> c = r \<and> \<not> (op = TOK_AND \<and> \<not> may_be \<sigma> l True \<or> op = TOK_OR \<and> \<not> may_be \<sigma> l False)"
      using c BinaryExpr by (auto simp: evaluated_def stays_closed_def split: if_split_asm)
    show thesis
    proof (cases "(op = TOK_EQ \<or> op = TOK_NEQ) \<and> nullNarrowCandidate T l r \<noteq> None")
      case True
      then show thesis using candidate_compared(3,4) [of T l r] cr d by auto
    next
      case plain: False
      then show thesis using q cr nl [of True] nl [of False] that h False BinaryExpr by (auto split: if_split_asm)
    qed
  next
    case (AssignmentExpr loc l r)
    have "derefs \<sigma> l = {}" if "target_symbol l = Some S" for S
      using that by (cases l) (simp_all add: target_symbol_def derefs.simps [of _ "VariableExpr a b c" for a b c]
        reads_receiver_def evaluated_def stays_closed_def effect_children_def children_def all_children_def)
    then show thesis using q c d False AssignmentExpr
      by (cases "target_symbol l") (auto simp: evaluated_def stays_closed_def effect_children_def children_def all_children_def split: if_split_asm)
  qed (use q c l False in \<open>auto simp: evaluated_def stays_closed_def effect_children_def children_def all_children_def
      looked_into_def split: if_split_asm\<close>)
qed

lemma items_cover:
  "quiet (null_items B T e In) \<Longrightarrow> facts_hold T \<sigma> In \<Longrightarrow> (\<And>c. c \<in> set (effect_children e) \<Longrightarrow> no_rebinding T c) \<Longrightarrow>
   list_all looked_into (parts e) \<Longrightarrow> x \<in> derefs \<sigma> e \<Longrightarrow> x \<in> T \<Longrightarrow> \<not> \<sigma> x"
proof (induction "size e" arbitrary: e In rule: less_induct)
  case less
  show ?case
  proof (cases "x \<in> reads_receiver e")
    case True
    then show ?thesis using receiver_quiet less.prems by blast
  next
    case False
    then obtain c where c: "c \<in> set (evaluated \<sigma> e)" "x \<in> derefs \<sigma> c" using less.prems(5) derefs.simps [of \<sigma> e] by auto
    have l: "looked_into e" using less.prems(4) by (simp add: parts_inner)
    obtain X where X: "quiet (null_items B T c X)" "facts_hold T \<sigma> X"
      using evaluated_quiet [OF less.prems(1,2,3) l c(1)] c(2) by blast
    have "c \<noteq> NoExpr" using c(2) by (auto simp: derefs.simps [of _ NoExpr] reads_receiver_def evaluated_def stays_closed_def
          effect_children_def children_def all_children_def)
    then have ch: "c \<in> set (effect_children e)" using c(1)
      by (cases e) (auto simp: evaluated_def stays_closed_def effect_children_def children_def all_children_def split: if_split_asm)
    then have "size c < size e" by (auto intro: size_children subsetD [OF effect_children_sub])
    moreover have "no_rebinding T c'" if "c' \<in> set (effect_children c)" for c'
      by (rule no_rebinding_child [OF less.prems(3) [OF ch] that])
    moreover have "list_all looked_into (parts c)" using less.prems(4) ch by (auto simp: parts_inner [of e] inner_parts_def list_all_iff)
    ultimately show ?thesis using less.hyps [OF _ X] c(2) less.prems(6) by blast
  qed
qed

section \<open>Functions that are accepted\<close>

lemma stmts_quiet:
  assumes "quiet (stmts_items B T ss In)" and "i < length ss"
  shows "quiet (null_items B T (ss ! i) (facts T (take i ss) In))"
  using assms
proof (induction ss arbitrary: i In)
  case (Cons s ss)
  then show ?case by (cases i) (simp_all add: facts_def)
qed simp

lemma all_some_SomeD: "all_some xs = Some ys \<Longrightarrow> xs = map Some ys"
  by (induction xs arbitrary: ys) (auto split: option.split_asm)

lemma all_some_defined: "(\<And>x. x \<in> set xs \<Longrightarrow> \<exists>y. x = Some y) \<Longrightarrow> \<exists>ys. all_some xs = Some ys"
  by (induction xs) (auto split: option.split)

lemma accepted_quiet:
  assumes "null_reports n B T G In = Some []" and "Blocks G \<noteq> []"
  obtains IN where "null_solve T G (entry_index G) In = Some IN" and "quiet (graph_items B T G IN)"
proof -
  obtain m where n: "n = Suc m" using assms(1) by (cases n) simp_all
  let ?r = "\<lambda>item. case item of Report r \<Rightarrow> Some [r]
          | Region loc b X \<Rightarrow> (case buildRegionCFG ''recover'' b loc of
                Inl err \<Rightarrow> Some [RegionError err]
              | Inr R \<Rightarrow> null_reports m B T R X)"
  obtain IN ys where IN: "null_solve T G (entry_index G) In = Some IN"
      "all_some (map ?r (graph_items B T G IN)) = Some ys" "concat ys = []"
    using assms by (auto simp: n split: option.split_asm)
  have "Report r \<notin> set (graph_items B T G IN)" for r
  proof
    assume "Report r \<in> set (graph_items B T G IN)"
    then have "Some [r] \<in> set (map ?r (graph_items B T G IN))" by force
    then have "[r] \<in> set ys" using all_some_SomeD [OF IN(2)] by auto
    then show False using IN(3) by auto
  qed
  then show thesis using that IN(1) by (auto simp: quiet_def)
qed

lemma raise_first_none: "raise_first rs = Inr u \<longleftrightarrow> rs = []"
  by (cases rs) (simp_all add: raise_first_def)


section \<open>The pass answers\<close>

lemma region_items: "Region loc b X \<in> set (null_items B T e In) \<Longrightarrow> In \<subseteq> T \<Longrightarrow> size b < size e \<and> X \<subseteq> T"
proof (induction "size e" arbitrary: e In rule: less_induct)
  case less
  have sub: "Region loc b X \<in> set (null_items B T c In') \<Longrightarrow> In' \<subseteq> T \<Longrightarrow> c \<in> set (all_children e) \<or> size c < size e \<Longrightarrow>
      size b < size e \<and> X \<subseteq> T" for c In'
    using less.hyps [of c In'] size_all_children [of c e] by auto
  have none: "Region loc b X \<notin> set (deref_items T In l x m f)" "Region loc b X \<notin> set (cast_items T In l D x)" for l x m f D
    by (cases x; auto simp: deref_items_def cast_items_def split: option.split)+
  have w: "fst (narrow T c In) \<subseteq> T" "snd (narrow T c In) \<subseteq> T" for c using narrow_within [OF less.prems(2), of c] by simp_all
  show ?case
  proof (cases e)
    case (BinaryExpr l' op l r p)
    then show ?thesis using less.prems sub [of l In] sub [of r In] sub [of r, OF _ w(1)] sub [of r, OF _ w(2)]
      by (auto split: if_split_asm)
  next
    case (AssignmentExpr l' l r)
    then show ?thesis using less.prems sub [of l In] sub [of r In] by (auto split: option.split_asm if_split_asm)
  next
    case (RecoverExpr l' wr k p bl)
    then show ?thesis using less.prems sub [of wr In] sub [of p In] by (auto split: if_split_asm)
  next
    case (FuncCallExpr l' t c args)
    then show ?thesis using less.prems sub [of c In] sub [of _ In] by (auto simp: all_children_def del: subsetI)
  next
    case (MethodCallExpr l' c m args ct)
    then show ?thesis using less.prems none sub [of c In] sub [of _ In] by (auto simp: all_children_def del: subsetI split: if_split_asm)
  next
    case (ArrayLiteralExpr l' es)
    then show ?thesis using less.prems sub [of _ In] by (auto simp: all_children_def del: subsetI)
  next
    case (ArrayDeclExpr l' name sz inits init S)
    then show ?thesis using less.prems sub [of init In] sub [of _ In] by (auto simp: all_children_def del: subsetI)
  qed (use less.prems none sub [of _ In] in \<open>auto simp: all_children_def del: subsetI\<close>)
qed

lemma stmts_regions:
  assumes "Region loc b X \<in> set (stmts_items B T ss In)" and "In \<subseteq> T"
  shows "X \<subseteq> T \<and> (\<exists>s \<in> set ss. size b < size s)"
  using assms
proof (induction ss arbitrary: In)
  case (Cons s ss)
  then show ?case using region_items [of loc b X B T s In] narrow_within [of In T s] by auto
qed simp

definition statements_within :: "nat \<Rightarrow> ExprAST CFG \<Rightarrow> bool" where
  "statements_within n G \<longleftrightarrow> (\<forall>B \<in> set (Blocks G). \<forall>s \<in> set (Statements B). size s \<le> n)"

lemma reports_answer: "finite T \<Longrightarrow> X \<subseteq> T \<Longrightarrow> statements_within m G \<Longrightarrow> m < n \<Longrightarrow> null_reports n B T G X \<noteq> None"
proof (induction n arbitrary: G X m)
  case (Suc n)
  show ?case
  proof (cases "Blocks G = []")
    case False
    obtain IN where IN: "null_solve T G (entry_index G) X = Some IN" "\<And>b. b < length (Blocks G) \<Longrightarrow> IN ! b \<subseteq> T"
      using null_solved [OF Suc.prems(1,2)] by metis
    have "null_reports n B T R X' \<noteq> None"
      if item: "Region loc b X' \<in> set (graph_items B T G IN)" and R: "buildRegionCFG ''recover'' b loc = Inr R" for loc b X' R
    proof -
      obtain i where i: "i < length (Blocks G)" "Region loc b X' \<in> set (stmts_items B T (Statements (Blocks G ! i)) (IN ! i))"
        using item by (auto simp: graph_items_def)
      obtain s where s: "X' \<subseteq> T" "s \<in> set (Statements (Blocks G ! i))" "size b < size s"
        using stmts_regions [OF i(2) IN(2) [OF i(1)]] by blast
      then have "size b < m" using Suc.prems(3) i(1) by (fastforce simp: statements_within_def)
      moreover have "statements_within (size b) R" using region_statements [OF R] by (simp add: statements_within_def)
      ultimately show ?thesis using Suc.IH [OF Suc.prems(1) s(1)] Suc.prems(4) by simp
    qed
    then have "\<exists>ys. all_some (map (\<lambda>item. case item of Report r \<Rightarrow> Some [r]
          | Region loc b X \<Rightarrow> (case buildRegionCFG ''recover'' b loc of
                Inl err \<Rightarrow> Some [RegionError err]
              | Inr R \<Rightarrow> null_reports n B T R X)) (graph_items B T G IN)) = Some ys"
      by (intro all_some_defined) (force split: NullItem.split sum.split)
    then show ?thesis using IN(1) False by auto
  qed simp
qed simp

text \<open>
  C10. The nullability pass gives an answer for every function: its loop ends, and run blocks nested as deep as the
  body is big are all there can be.
\<close>

theorem nullability_answers:
  assumes "buildCFG name void body loc mangled = Inr G"
  shows "runNullability (Suc (size body)) BlockInCFG G \<noteq> None"
proof -
  have "statements_within (size body) G" using built_statements [OF assms] by (simp add: statements_within_def)
  then show ?thesis using reports_answer [of "tracked_refs G" "{}" "size body" G "Suc (size body)" BlockInCFG]
    by (simp add: runNullability_def tracked_refs_def del: null_reports.simps)
qed

end
