(* ===== verification/NullCases.thy ===== *)
theory NullCases
  imports NullRuns
begin

text \<open>
  The nullability pass on concrete functions: a guard that is enough, and two ways of using \<open>compare\<close> that it
  takes for a guard although they are not.
\<close>

definition where_at :: "int \<Rightarrow> int \<Rightarrow> SourceLocation" where
  "where_at l c = loc3 l c []"

definition sym_p :: VariableSymbol where
  "sym_p = \<lparr>VarId = 0, VarName = ''p'', VarType = Some (TurfNullableReferenceType (TurfStructType ''Node'' [] [])), VarDeclLoc = where_at 1 1\<rparr>"

definition var_p :: ExprAST where
  "var_p = VariableExpr (where_at 2 3) ''p'' (Some sym_p)"

definition null_test :: "int \<Rightarrow> ExprAST" where
  "null_test op = BinaryExpr (where_at 2 3) op var_p (NullExpr (where_at 2 8)) False"

definition return_val :: ExprAST where
  "return_val = ReturnExpr (where_at 3 1) (FieldAccessExpr (where_at 3 8) var_p ''val'')"

definition return_0 :: ExprAST where
  "return_0 = ReturnExpr (where_at 2 12) (NumberExpr False 0)"

definition null_node :: "nat \<Rightarrow> string \<Rightarrow> ExprAST list \<Rightarrow> nat list \<Rightarrow> nat list \<Rightarrow> TerminatorKind \<Rightarrow> SourceLocation option \<Rightarrow>
    bool \<Rightarrow> ExprAST Block" where
  "null_node i name ss ps qs k l r = \<lparr>BlockID = i, BlockName = name, Statements = ss, StatementsWithDeferredRuns = ss,
     Predecessors = ps, Successors = qs, Terminator = k, TerminatorLoc = l, IsReachable = r\<rparr>"

definition null_graph :: "ExprAST Block list \<Rightarrow> ExprAST CFG" where
  "null_graph bs = \<lparr>FunctionName = ''f'', MangledFunctionName = [], ReturnsVoid = False, FuncLoc = where_at 1 1,
     Blocks = bs, EntryBlock = Some 0, ExitBlock = Some 1, NextID = length bs\<rparr>"

section \<open>Evaluation\<close>

lemmas null_tree = null_test_def var_p_def return_val_def return_0_def sym_p_def

lemmas tracked_eqs = tracked_in.simps [of "VariableExpr l x S" for l x S] tracked_in.simps [of "BinaryExpr l op a b p" for l op a b p]
  tracked_in.simps [of "NullExpr l" for l] tracked_in.simps [of "BoolExpr b" for b] tracked_in.simps [of "NumberExpr f n" for f n]
  tracked_in.simps [of "ReturnExpr l e" for l e] tracked_in.simps [of "FieldAccessExpr l e x" for l e x]
  own_tracked_def tracked_symbol_def isTrackedNullableRef_def isNullableReference_def children_def all_children_def

lemma rounds_stop: "\<not> b s \<Longrightarrow> while_option b c s = Some s"
  by (simp add: while_option_unfold [of b c s])

lemma rounds_turn: "b s \<Longrightarrow> while_option b c s = while_option b c (c s)"
  by (simp add: while_option_unfold [of b c s])

lemmas null_eval = null_start_def null_round_def null_block_def null_edges_def null_meet_def null_out_def edge_set_def
  edge_split_def upt_conv_Cons nullNarrowCandidate_def Let_def rounds_turn rounds_stop

lemma null_accepts:
  assumes "null_solve (tracked_refs G) G (entry_index G) {} = Some IN" and "graph_items B (tracked_refs G) G IN = []"
  shows "runNullability (Suc n) B G = Some (Inr ())"
  using assms by (simp add: runNullability_def raise_first_def)

lemma find_recovers_read:
  "find_recovers return_val = []" "find_recovers return_0 = []"
  by (simp_all add: return_val_def return_0_def var_p_def find_recovers_variable find_recovers_eqs
    find_recovers.simps [of "ReturnExpr l (FieldAccessExpr k e f)" for l k e f]
    find_recovers.simps [of "FieldAccessExpr k e f" for k e f] children_def all_children_def)

lemma test_there: "null_test op \<noteq> NoExpr" "var_p \<noteq> NoExpr"
  by (simp_all add: null_test_def var_p_def)

lemma visit_returns:
  "visitExpr return_val s = (if live s then Inr (jump TkReturn (where_at 3 1) (ExitBlock (CurrentCFG s))
     (emitDeferredRuns 0 (add_here return_val s))) else dead_code s)"
  "visitExpr return_0 s = (if live s then Inr (jump TkReturn (where_at 2 12) (ExitBlock (CurrentCFG s))
     (emitDeferredRuns 0 (add_here return_0 s))) else dead_code s)"
  using find_recovers_read visit_return_eq [of "where_at 3 1" "FieldAccessExpr (where_at 3 8) var_p ''val''" s]
    visit_return_eq [of "where_at 2 12" "NumberExpr False 0" s]
  by (simp_all add: return_val_def return_0_def)

section \<open>A guard\<close>

text \<open>\<open>if p == null { return 0; } return p.val;\<close>\<close>

definition guard_body :: ExprAST where
  "guard_body = BlockExpr [IfExpr [CondBranch (where_at 2 1) (null_test TOK_EQ) (BlockExpr [return_0])] NoExpr, return_val]"

definition guard_graph :: "ExprAST CFG" where
  "guard_graph = null_graph
     [null_node 0 ''entry'' [null_test TOK_EQ] [] [3, 2] TkBranch (Some (where_at 2 1)) True,
      null_node 1 ''exit'' [] [3, 2] [] TkNone None True,
      null_node 2 ''if.end'' [return_val] [0] [1] TkReturn (Some (where_at 3 1)) True,
      null_node 3 ''if.then'' [return_0] [0] [1] TkReturn (Some (where_at 2 12)) True]"

lemma guard_built: "buildCFG ''f'' False guard_body (where_at 1 1) [] = Inr guard_graph"
  unfolding buildCFG_def guard_body_def
  by (simp add: build_eval visit_if_eq visit_returns test_there Let_def cong: then_do_weak_cong let_weak_cong)
    (simp add: return_eval guard_graph_def null_graph_def null_node_def upt_conv_Cons numeral_2_eq_2 numeral_3_eq_3 Let_def cong: let_weak_cong)

lemma guard_tracked: "tracked_refs guard_graph = {0}"
  by (simp add: tracked_refs_def guard_graph_def null_graph_def null_node_def null_tree tracked_eqs)

lemma guard_solved: "null_solve {0} guard_graph 0 {} = Some [{}, {}, {0}, {}]"
  unfolding null_solve_def
  by (simp add: null_eval guard_graph_def null_graph_def null_node_def null_tree)

lemma guard_accepted: "runNullability (Suc n) B guard_graph = Some (Inr ())"
proof (rule null_accepts)
  show "null_solve (tracked_refs guard_graph) guard_graph (entry_index guard_graph) {} = Some [{}, {}, {0}, {}]"
    unfolding guard_tracked using guard_solved by (simp add: entry_index_def guard_graph_def null_graph_def)
  show "graph_items B (tracked_refs guard_graph) guard_graph [{}, {}, {0}, {}] = []"
    unfolding guard_tracked
    by (simp add: graph_items_def guard_graph_def null_graph_def null_node_def null_tree upt_conv_Cons nullNarrowCandidate_def
        deref_items_def)
qed

section \<open>Tests that prove nothing\<close>

text \<open>
  \<open>compare n { matches 1 if p == null: return 0; otherwise: return p.val; }\<close>,
  \<open>compare p != null { matches false: return p.val; otherwise: return 0; }\<close> and \<open>return p.val[0..1];\<close>
\<close>

definition plain_n :: ExprAST where
  "plain_n = VariableExpr (where_at 2 3) ''n'' None"

definition compare_body :: "ExprAST \<Rightarrow> ExprAST \<Rightarrow> ExprAST list \<Rightarrow> ExprAST \<Rightarrow> ExprAST \<Rightarrow> ExprAST" where
  "compare_body subject v gs arm other = BlockExpr [CompareExpr (where_at 2 1) subject
     [MatchesArm (where_at 3 1) [v] gs (BlockExpr [arm])] (BlockExpr [other]) False]"

definition compare_graph :: "ExprAST \<Rightarrow> ExprAST list \<Rightarrow> ExprAST \<Rightarrow> ExprAST \<Rightarrow> SourceLocation \<Rightarrow> SourceLocation \<Rightarrow> ExprAST CFG" where
  "compare_graph subject tests arm other armLoc otherLoc = null_graph
     [null_node 0 ''entry'' [subject] [] [4] TkUnconditional (Some (where_at 2 1)) True,
      null_node 1 ''exit'' [] [3, 5, 2] [] TkNone None True,
      null_node 2 ''compare.end'' [] [] [1] TkNone None False,
      null_node 3 ''compare.arm'' [arm] [4] [1] TkReturn (Some armLoc) True,
      null_node 4 ''compare.test'' tests [0] [3, 5] TkBranch (Some (where_at 2 1)) True,
      null_node 5 ''compare.otherwise'' [other] [4] [1] TkReturn (Some otherLoc) True]"

definition guarded_arm_body :: ExprAST where
  "guarded_arm_body = compare_body plain_n (NumberExpr False 1) [null_test TOK_EQ] return_0 return_val"

definition guarded_arm_graph :: "ExprAST CFG" where
  "guarded_arm_graph =
     compare_graph plain_n [NumberExpr False 1, null_test TOK_EQ] return_0 return_val (where_at 2 12) (where_at 3 1)"

definition subject_body :: ExprAST where
  "subject_body = compare_body (null_test TOK_NEQ) (BoolExpr False) [] return_val return_0"

definition subject_graph :: "ExprAST CFG" where
  "subject_graph = compare_graph (null_test TOK_NEQ) [BoolExpr False] return_val return_0 (where_at 3 1) (where_at 2 12)"

lemma next_kept: "NextID (CurrentCFG (set_term b k l s)) = NextID (CurrentCFG s)"
  "NextID (CurrentCFG (add_cond b e s)) = NextID (CurrentCFG s)"
  by (simp_all add: set_term_def on_graph_def on_block_def add_cond_def add_stmt_def)

lemma visit_compare_eq:
  assumes "subject \<noteq> NoExpr" and "other \<noteq> NoExpr"
  shows "visitExpr (CompareExpr loc subject [MatchesArm al [v] gs arm] other False) s = (if live s then
    (let n = NextID (CurrentCFG s); entry = the (CurrentBlock s) in
     then_do (visitExpr arm (setInsertPoint (Some (n + 1)) (set_term (n + 2) TkUnconditional loc (link (n + 2) (n + 1)
          (add_cond (n + 2) (if gs = [] then NoExpr else gs ! 0) (add_stmt (n + 2) v (link entry (n + 2)
            (fresh ''compare.test'' (fresh ''compare.arm''
              (set_term entry TkUnconditional loc (add_cond entry subject (fresh ''compare.end'' s))))))))))))
       (\<lambda>u. let u = fall_to n u; k = NextID (CurrentCFG u) in
          then_do (visitExpr other (setInsertPoint (Some k) (set_term (n + 2) TkBranch loc
              (link (n + 2) k (fresh ''compare.otherwise'' u)))))
            (\<lambda>w. Inr (setInsertPoint (Some n) (fall_to n w)))))
    else dead_code s)"
  using assms
  by (simp add: visitExpr.simps [of "CompareExpr loc subject [MatchesArm al [v] gs arm] other False"] visitCompare_def
      visit_arm_def arm_headers_def link_fail_def upt_conv_Cons new_bb_fresh next_fresh next_kept Let_def then_do_def
      split: sum.split)

lemma compare_built:
  "buildCFG ''f'' False guarded_arm_body (where_at 1 1) [] = Inr guarded_arm_graph"
  "buildCFG ''f'' False subject_body (where_at 1 1) [] = Inr subject_graph"
  unfolding buildCFG_def guarded_arm_body_def subject_body_def compare_body_def
  by (simp add: visit_compare_eq test_there plain_n_def build_eval visit_returns Let_def cong: then_do_weak_cong let_weak_cong,
    simp add: return_eval guarded_arm_graph_def subject_graph_def compare_graph_def null_graph_def null_node_def plain_n_def
      eval_nat_numeral Let_def cong: let_weak_cong)+

lemma compare_tracked: "tracked_refs guarded_arm_graph = {0}" "tracked_refs subject_graph = {0}"
  by (simp_all add: tracked_refs_def guarded_arm_graph_def subject_graph_def compare_graph_def null_graph_def null_node_def
    null_tree plain_n_def tracked_eqs)

lemma compare_solved:
  "null_solve {0} guarded_arm_graph 0 {} = Some [{}, {}, {0}, {}, {}, {0}]"
  "null_solve {0} subject_graph 0 {} = Some [{}, {0}, {0}, {0}, {0}, {0}]"
  unfolding null_solve_def
  by (simp_all add: null_eval guarded_arm_graph_def subject_graph_def compare_graph_def null_graph_def null_node_def
    null_tree plain_n_def)

lemma compare_accepted:
  "runNullability (Suc n) B guarded_arm_graph = Some (Inr ())" "runNullability (Suc n) B subject_graph = Some (Inr ())"
proof -
  have e: "entry_index guarded_arm_graph = 0" "entry_index subject_graph = 0"
    by (simp_all add: entry_index_def guarded_arm_graph_def subject_graph_def compare_graph_def null_graph_def)
  have "graph_items B {0} guarded_arm_graph [{}, {}, {0}, {}, {}, {0}] = []" "graph_items B {0} subject_graph [{}, {0}, {0}, {0}, {0}, {0}] = []"
    by (simp_all add: graph_items_def guarded_arm_graph_def subject_graph_def compare_graph_def null_graph_def null_node_def
      null_tree plain_n_def upt_conv_Cons nullNarrowCandidate_def deref_items_def)
  then show "runNullability (Suc n) B guarded_arm_graph = Some (Inr ())" "runNullability (Suc n) B subject_graph = Some (Inr ())"
    by (auto intro!: null_accepts simp: compare_tracked compare_solved e)
qed

definition slice_val :: ExprAST where
  "slice_val = ReturnExpr (where_at 3 1) (SliceExpr (where_at 3 8) (FieldAccessExpr (where_at 3 8) var_p ''val'')
     (NumberExpr False 0) (NumberExpr False 1))"

definition slice_graph :: "ExprAST CFG" where
  "slice_graph = null_graph [null_node 0 ''entry'' [slice_val] [] [1] TkReturn (Some (where_at 3 1)) True,
     null_node 1 ''exit'' [] [0] [] TkNone None True]"

lemma slice_built: "buildCFG ''f'' False (BlockExpr [slice_val]) (where_at 1 1) [] = Inr slice_graph"
proof -
  have "find_recovers slice_val = []"
    by (simp add: slice_val_def var_p_def find_recovers_variable find_recovers_eqs
      find_recovers.simps [of "ReturnExpr l (SliceExpr k e a b)" for l k e a b] find_recovers.simps [of "SliceExpr k e a b" for k e a b]
      find_recovers.simps [of "FieldAccessExpr k e f" for k e f] children_def all_children_def)
  then have "visitExpr slice_val s = (if live s then Inr (jump TkReturn (where_at 3 1) (ExitBlock (CurrentCFG s))
      (emitDeferredRuns 0 (add_here slice_val s))) else dead_code s)" for s
    by (simp add: visit_return_eq slice_val_def)
  then show ?thesis unfolding buildCFG_def
    by (simp add: build_eval Let_def cong: then_do_weak_cong let_weak_cong)
      (simp add: return_eval slice_graph_def null_graph_def null_node_def eval_nat_numeral Let_def cong: let_weak_cong)
qed

lemma slice_accepted: "runNullability (Suc n) B slice_graph = Some (Inr ())"
proof (rule null_accepts)
  have t: "tracked_refs slice_graph = {0}"
    by (simp add: tracked_refs_def slice_graph_def null_graph_def null_node_def slice_val_def null_tree tracked_eqs
      tracked_in.simps [of "SliceExpr l a b c" for l a b c])
  have e: "entry_index slice_graph = 0" by (simp add: entry_index_def slice_graph_def null_graph_def)
  show "null_solve (tracked_refs slice_graph) slice_graph (entry_index slice_graph) {} = Some [{}, {}]"
    unfolding t e null_solve_def by (simp add: null_eval slice_graph_def null_graph_def null_node_def slice_val_def null_tree)
  show "graph_items B (tracked_refs slice_graph) slice_graph [{}, {}] = []"
    unfolding t by (simp add: graph_items_def slice_graph_def null_graph_def null_node_def slice_val_def upt_conv_Cons)
qed

lemmas derefs_eqs = derefs.simps [of _ "ReturnExpr l e" for l e] derefs.simps [of _ "FieldAccessExpr l e f" for l e f]
  derefs.simps [of _ "SliceExpr l a b c" for l a b c] reads_receiver_def evaluated_def stays_closed_def through_def
  effect_children_def children_def all_children_def target_symbol_def symbol_ids_def

lemma reads_p: "0 \<in> derefs \<sigma> return_val" "0 \<in> derefs \<sigma> slice_val"
  by (simp_all add: return_val_def slice_val_def var_p_def sym_p_def derefs_eqs)

lemma at_block:
  assumes "null_arrives G b \<sigma>" and "Statements (Blocks G ! b) = s # ss"
  shows "null_at G b 0 \<sigma>"
  using assms by (auto simp: null_at_def)

lemma passes_on:
  assumes "null_arrives G a \<sigma>" and "a < length (Blocks G)" and "k < length (succs G a)" and "succs G a ! k = b"
    and "null_exec (Statements (Blocks G ! a)) \<sigma> \<sigma>l \<sigma>" and "takes G a \<sigma>l k"
  shows "null_arrives G b \<sigma>"
  using null_edge [OF assms(1,2,5,3,6)] assms(4) by simp

lemma unchanged: "root_sets s \<sigma> \<sigma> \<Longrightarrow> null_step \<sigma> s \<sigma>"
  by (auto simp: null_step_def)

lemma null_in_compare: "null_at guarded_arm_graph 5 0 (\<lambda>x. True)" "null_at subject_graph 3 0 (\<lambda>x. True)" "null_at slice_graph 0 0 (\<lambda>x. True)"
proof -
  note G = guarded_arm_graph_def subject_graph_def compare_graph_def null_graph_def null_node_def
  have a: "null_arrives guarded_arm_graph 0 (\<lambda>x. True)" "null_arrives subject_graph 0 (\<lambda>x. True)" "null_arrives slice_graph 0 (\<lambda>x. True)"
    by (rule null_entry, simp add: G slice_graph_def)+
  have step: "null_step (\<lambda>x. True) plain_n (\<lambda>x. True)" "null_step (\<lambda>x. True) (null_test op) (\<lambda>x. True)"
      "null_step (\<lambda>x. True) (NumberExpr f k) (\<lambda>x. True)" "null_step (\<lambda>x. True) (BoolExpr c) (\<lambda>x. True)" for op f k c
    by (rule unchanged, simp add: root_sets_def plain_n_def null_test_def)+
  have b: "null_arrives guarded_arm_graph 4 (\<lambda>x. True)"
    by (rule passes_on [OF a(1), of 0 _ "\<lambda>x. True"]) (simp_all add: G takes_def decides_def edge_split_def step)
  have "null_arrives guarded_arm_graph 5 (\<lambda>x. True)"
    by (rule passes_on [OF b, of 1 _ "\<lambda>x. True"]) (simp_all add: G takes_def decides_def step)
  then show "null_at guarded_arm_graph 5 0 (\<lambda>x. True)" by (rule at_block [where ss = "[]"]) (simp add: G)
  have c: "null_arrives subject_graph 4 (\<lambda>x. True)"
    by (rule passes_on [OF a(2), of 0 _ "\<lambda>x. True"]) (simp_all add: G takes_def decides_def edge_split_def step)
  have "null_arrives subject_graph 3 (\<lambda>x. True)"
    by (rule passes_on [OF c, of 0 _ "\<lambda>x. True"]) (simp_all add: G takes_def decides_def step)
  then show "null_at subject_graph 3 0 (\<lambda>x. True)" by (rule at_block [where ss = "[]"]) (simp add: G)
  show "null_at slice_graph 0 0 (\<lambda>x. True)" by (rule at_block [OF a(3), where ss = "[]"]) (simp add: slice_graph_def null_graph_def null_node_def)
qed

text \<open>
  The guard of a \<open>compare\<close> arm and the subject of a \<open>compare\<close> are taken for tests that decide, and slices
  are not looked into: in \<open>compare n { matches 1 if p == null: return 0; otherwise: return p.val; }\<close>, in
  \<open>compare p != null { matches false: return p.val; otherwise: return 0; }\<close> and in \<open>return p.val[0..1];\<close> the
  pass accepts a read of \<open>p.val\<close> that control reaches with \<open>p\<close> null.
\<close>

theorem unguarded_reads_accepted:
  "buildCFG ''f'' False guarded_arm_body (where_at 1 1) [] = Inr guarded_arm_graph \<and>
   runNullability 1 B guarded_arm_graph = Some (Inr ()) \<and>
   Statements (Blocks guarded_arm_graph ! 5) = [return_val] \<and> null_at guarded_arm_graph 5 0 (\<lambda>x. True) \<and>
   buildCFG ''f'' False subject_body (where_at 1 1) [] = Inr subject_graph \<and>
   runNullability 1 B subject_graph = Some (Inr ()) \<and>
   Statements (Blocks subject_graph ! 3) = [return_val] \<and> null_at subject_graph 3 0 (\<lambda>x. True) \<and>
   buildCFG ''f'' False (BlockExpr [slice_val]) (where_at 1 1) [] = Inr slice_graph \<and>
   runNullability 1 B slice_graph = Some (Inr ()) \<and>
   Statements (Blocks slice_graph ! 0) = [slice_val] \<and> null_at slice_graph 0 0 (\<lambda>x. True) \<and>
   VarId sym_p \<in> derefs (\<lambda>x. True) return_val \<and> VarId sym_p \<in> derefs (\<lambda>x. True) slice_val"
proof -
  have "Statements (Blocks guarded_arm_graph ! 5) = [return_val]" "Statements (Blocks subject_graph ! 3) = [return_val]"
      "Statements (Blocks slice_graph ! 0) = [slice_val]" "VarId sym_p = 0"
    by (simp_all add: guarded_arm_graph_def subject_graph_def compare_graph_def slice_graph_def null_graph_def null_node_def sym_p_def)
  then show ?thesis
    using compare_built compare_accepted [of 0 B] slice_built slice_accepted [of 0 B] null_in_compare reads_p by simp
qed

section \<open>The guard at work\<close>

lemma guard_checkable: "null_checkable {0} guard_graph"
proof -
  have "wf_cfg guard_graph" by (rule built_wf(1) [OF guard_built])
  then show ?thesis
    by (simp add: null_checkable_def guard_graph_def null_graph_def null_node_def null_tree stmts_checkable_def unseen_def
      is_rebinding_def looked_into_def rebinds_def decides_def edge_split_def upt_conv_Cons nullNarrowCandidate_def
      parts.simps [of "ReturnExpr l e" for l e] parts.simps [of "FieldAccessExpr l e f" for l e f]
      parts.simps [of "BinaryExpr l op a b p" for l op a b p] parts.simps [of "VariableExpr l x S" for l x S]
      parts.simps [of "NullExpr l" for l] parts.simps [of "NumberExpr f n" for f n] effect_children_def children_def all_children_def)
qed


text \<open>The answer for the same function.\<close>

lemma nullability_answers_witness:
  "buildCFG ''f'' False guard_body (where_at 1 1) [] = Inr guard_graph \<and>
   runNullability (Suc (size guard_body)) (\<lambda>e. False) guard_graph \<noteq> None"
  using nullability_answers [OF guard_built] guard_built by blast

end
