(* ===== verification/TypeWalk.thy ===== *)
theory TypeWalk
  imports Types
begin

text \<open>
  The walks over a type of \<open>src/src/sema/TypeWalk.cpp\<close>: does it mention a type parameter, replacing parameters,
  matching a declared type against a concrete one, and the order in which a type mentions its parameters. A
  substitution is an association list without repeated keys.
\<close>

type_synonym SubstMap = "(string \<times> TurfType) list"

datatype ParamScope = Bare | ThroughWrappers | ThroughGenericArgs

definition knownPrimitiveNames :: "string list" where
  "knownPrimitiveNames =
    [''int'', ''int32'', ''double'', ''bool'', ''char'', ''string'', ''void'', ''null'', ''ptr'', ''void*'']"

section \<open>Open parameters\<close>

text \<open>\<open>Known\<close> is the look-up a caller may offer for the names of types.\<close>

function (sequential) containsOpenParam :: "TurfType option \<Rightarrow> ParamScope \<Rightarrow> (string \<Rightarrow> bool) option \<Rightarrow> bool" where
  "containsOpenParam None Scope Known = False"
| "containsOpenParam (Some (TurfGenericParamType N)) Scope Known = True"
| "containsOpenParam (Some (NamedType N M R)) Scope Known =
    (if Scope = Bare then False
     else if N \<in> set knownPrimitiveNames then False
     else (case Known of None \<Rightarrow> False | Some f \<Rightarrow> \<not> f N))"
| "containsOpenParam (Some (TurfPointerType p)) Scope Known =
    (if Scope = Bare then False else containsOpenParam (Some p) Scope Known)"
| "containsOpenParam (Some (TurfReferenceType p)) Scope Known =
    (if Scope = Bare then False else containsOpenParam (Some p) Scope Known)"
| "containsOpenParam (Some (TurfNullableReferenceType p)) Scope Known =
    (if Scope = Bare then False else containsOpenParam (Some p) Scope Known)"
| "containsOpenParam (Some (ArrayType e n sp)) Scope Known =
    (if Scope = Bare then False else hasSymbolicSize sp \<or> containsOpenParam (Some e) Scope Known)"
| "containsOpenParam (Some (GenericType B args M R)) Scope Known =
    (if Scope = ThroughGenericArgs then list_ex (\<lambda>a. containsOpenParam (Some a) Scope Known) args else False)"
| "containsOpenParam (Some Ty) Scope Known = False"
  by pat_completeness auto
termination
  by (relation "measure (\<lambda>(Ty, Scope, Known). size_option size Ty)") (auto dest: size_type_in_list)

section \<open>Substitution\<close>

definition emplace :: "'k \<Rightarrow> 'v \<Rightarrow> ('k \<times> 'v) list \<Rightarrow> ('k \<times> 'v) list" where
  "emplace k t Subst = (if map_of Subst k = None then Subst @ [(k, t)] else Subst)"

definition bound_or :: "SubstMap \<Rightarrow> string \<Rightarrow> TurfType \<Rightarrow> TurfType" where
  "bound_or Subst N Ty = (case map_of Subst N of Some t \<Rightarrow> t | None \<Rightarrow> Ty)"

definition sized_array :: "SubstMap \<Rightarrow> TurfType \<Rightarrow> int \<Rightarrow> string \<Rightarrow> TurfType" where
  "sized_array Subst NewElem n sp =
    (if hasSymbolicSize sp then
       (case map_of Subst sp of
          Some (TurfSizeValueType V) \<Rightarrow> makeArrayType NewElem V
        | _ \<Rightarrow> makeSymbolicArray NewElem sp)
     else makeArrayType NewElem n)"

text \<open>
  An array whose size a parameter stands for has the size \<open>-2\<close>, as its constructor makes it, so that building it
  again changes nothing.
\<close>

function (sequential) substitute :: "SubstMap \<Rightarrow> TurfType \<Rightarrow> TurfType" where
  "substitute Subst (TurfGenericParamType N) = bound_or Subst N (TurfGenericParamType N)"
| "substitute Subst (NamedType N M R) =
    (if isResolvedIdentity N R then NamedType N M R else bound_or Subst N (NamedType N M R))"
| "substitute Subst (TurfReferenceType p) = TurfReferenceType (substitute Subst p)"
| "substitute Subst (TurfNullableReferenceType p) = TurfNullableReferenceType (substitute Subst p)"
| "substitute Subst (TurfPointerType p) = TurfPointerType (substitute Subst p)"
| "substitute Subst (ArrayType e n sp) = sized_array Subst (substitute Subst e) n sp"
| "substitute Subst (GenericType B args M R) = GenericType B (map (substitute Subst) args) M R"
| "substitute Subst (TurfErrorUnionType s) = TurfErrorUnionType (substitute Subst s)"
| "substitute Subst (FuncType r ps) =
    FuncType (case r of Some t \<Rightarrow> Some (substitute Subst t) | None \<Rightarrow> None)
      (map (\<lambda>p. case p of Some t \<Rightarrow> Some (substitute Subst t) | None \<Rightarrow> None) ps)"
| "substitute Subst Ty = Ty"
  by pat_completeness auto
termination
  by (relation "measure (\<lambda>(Subst, Ty). size Ty)") (auto dest: size_type_in_list size_type_in_options)

section \<open>Matching\<close>

text \<open>
  Two pointers match by what they point to, whatever of the three kinds they are. Of two bindings of one
  parameter the first stays.
\<close>

function (sequential) unify :: "TurfType option \<Rightarrow> TurfType option \<Rightarrow> SubstMap \<Rightarrow> SubstMap" where
  "unify None Concrete Subst = Subst"
| "unify (Some (TurfGenericParamType N)) Concrete Subst =
    (case Concrete of Some C \<Rightarrow> emplace N C Subst | None \<Rightarrow> Subst)"
| "unify (Some (TurfPointerType p)) Concrete Subst =
    (case Concrete of
       Some C \<Rightarrow> (case pointee_of C of Some c \<Rightarrow> unify (Some p) (Some c) Subst | None \<Rightarrow> Subst)
     | None \<Rightarrow> Subst)"
| "unify (Some (TurfReferenceType p)) Concrete Subst =
    (case Concrete of
       Some C \<Rightarrow> (case pointee_of C of Some c \<Rightarrow> unify (Some p) (Some c) Subst | None \<Rightarrow> Subst)
     | None \<Rightarrow> Subst)"
| "unify (Some (TurfNullableReferenceType p)) Concrete Subst =
    (case Concrete of
       Some C \<Rightarrow> (case pointee_of C of Some c \<Rightarrow> unify (Some p) (Some c) Subst | None \<Rightarrow> Subst)
     | None \<Rightarrow> Subst)"
| "unify (Some (ArrayType e n sp)) Concrete Subst =
    (case Concrete of
       Some (ArrayType e' n' sp') \<Rightarrow> unify (Some e) (Some e')
         (if hasSymbolicSize sp \<and> 0 < n' then emplace sp (TurfSizeValueType n') Subst else Subst)
     | _ \<Rightarrow> Subst)"
| "unify (Some (GenericType B args M R)) Concrete Subst =
    (case Concrete of
       Some (GenericType B' args' M' R') \<Rightarrow> fold (\<lambda>(p, c) Subst. unify (Some p) (Some c) Subst) (zip args args') Subst
     | _ \<Rightarrow> Subst)"
| "unify (Some (FuncType r ps)) Concrete Subst =
    (case Concrete of
       Some (FuncType r' ps') \<Rightarrow> unify r r' (fold (\<lambda>(p, c) Subst. unify p c Subst) (zip ps ps') Subst)
     | _ \<Rightarrow> Subst)"
| "unify (Some P) Concrete Subst = Subst"
  by pat_completeness auto
termination
  by (relation "measure (\<lambda>(Pattern, Concrete, Subst). size_option size Pattern)")
    (auto dest: size_type_in_zip size_option_in_zip)

text \<open>The parameters a type mentions, in the order of first mention.\<close>

definition note_param :: "string \<Rightarrow> string list \<Rightarrow> string list" where
  "note_param N Order = (if N \<in> set Order then Order else Order @ [N])"

function (sequential) collectParamOrder :: "TurfType option \<Rightarrow> string list \<Rightarrow> string list" where
  "collectParamOrder None Order = Order"
| "collectParamOrder (Some (TurfGenericParamType N)) Order = note_param N Order"
| "collectParamOrder (Some (TurfPointerType p)) Order = collectParamOrder (Some p) Order"
| "collectParamOrder (Some (TurfReferenceType p)) Order = collectParamOrder (Some p) Order"
| "collectParamOrder (Some (TurfNullableReferenceType p)) Order = collectParamOrder (Some p) Order"
| "collectParamOrder (Some (ArrayType e n sp)) Order =
    (let Order = collectParamOrder (Some e) Order in if hasSymbolicSize sp then note_param sp Order else Order)"
| "collectParamOrder (Some (GenericType B args M R)) Order = fold (\<lambda>a. collectParamOrder (Some a)) args Order"
| "collectParamOrder (Some (FuncType r ps)) Order = collectParamOrder r (fold (\<lambda>p. collectParamOrder p) ps Order)"
| "collectParamOrder (Some P) Order = Order"
  by pat_completeness auto
termination
  by (relation "measure (\<lambda>(Pattern, Order). size_option size Pattern)") (auto dest: size_type_in_list size_option_in_list)

section \<open>The arguments of a generic struct\<close>

text \<open>
  Without a list of parameters the fields are walked and each new name takes the next argument. A read past the
  arguments does not happen: the walk stops when as many names are bound.
\<close>

definition bind_next :: "TurfType list \<Rightarrow> string \<Rightarrow> SubstMap \<Rightarrow> SubstMap" where
  "bind_next TypeArgs N Subst = (if map_of Subst N = None then emplace N (TypeArgs ! length Subst) Subst else Subst)"

function collectOrderedFieldSubstitution ::
    "TurfType option \<Rightarrow> TurfType list \<Rightarrow> SubstMap \<Rightarrow> (string \<Rightarrow> bool) option \<Rightarrow> SubstMap" where
  "collectOrderedFieldSubstitution Pattern TypeArgs Subst Known =
    (if length TypeArgs \<le> length Subst then Subst else case Pattern of
      None \<Rightarrow> Subst
    | Some P \<Rightarrow>
        (case P of
           TurfGenericParamType N \<Rightarrow> bind_next TypeArgs N Subst
         | NamedType N M R \<Rightarrow>
             if N \<in> set knownPrimitiveNames then Subst
             else if (case Known of None \<Rightarrow> False | Some f \<Rightarrow> f N) then Subst
             else bind_next TypeArgs N Subst
         | TurfPointerType p \<Rightarrow> collectOrderedFieldSubstitution (Some p) TypeArgs Subst Known
         | TurfReferenceType p \<Rightarrow> collectOrderedFieldSubstitution (Some p) TypeArgs Subst Known
         | TurfNullableReferenceType p \<Rightarrow> collectOrderedFieldSubstitution (Some p) TypeArgs Subst Known
         | ArrayType e n sp \<Rightarrow> collectOrderedFieldSubstitution (Some e) TypeArgs Subst Known
         | GenericType B args M R \<Rightarrow>
             fold (\<lambda>a Subst. collectOrderedFieldSubstitution (Some a) TypeArgs Subst Known) args Subst
         | FuncType r ps \<Rightarrow>
             collectOrderedFieldSubstitution r TypeArgs
               (fold (\<lambda>p Subst. collectOrderedFieldSubstitution p TypeArgs Subst Known) ps Subst) Known
         | _ \<Rightarrow> Subst))"
  by pat_completeness auto
termination
  by (relation "measure (\<lambda>(Pattern, TypeArgs, Subst, Known). size_option size Pattern)")
    (auto dest: size_type_in_list size_option_in_list)

declare collectOrderedFieldSubstitution.simps [simp del]

definition structTypeArgSubst ::
    "(string \<times> TurfType) list \<Rightarrow> string list \<Rightarrow> TurfType list \<Rightarrow> (string \<Rightarrow> bool) option \<Rightarrow> SubstMap" where
  "structTypeArgSubst Fields Params TypeArgs Known =
    (if Params \<noteq> [] then fold (\<lambda>(N, t). emplace N t) (zip Params TypeArgs) []
     else fold (\<lambda>(n, t) Subst. collectOrderedFieldSubstitution (Some t) TypeArgs Subst Known) Fields [])"

end
