(* ===== verification/TypeCompat.thy ===== *)
theory TypeCompat
  imports TypeWalk
begin

text \<open>
  \<open>typesCompatible\<close> of \<open>src/src/sema/Types.cpp\<close>: may a value of one type be used where another is expected. The
  rules are tried in order; \<open>isNamed\<close> is equality of names for every class.
\<close>

definition open_bare :: "TurfType \<Rightarrow> bool" where
  "open_bare t = containsOpenParam (Some t) Bare None"

lemma open_bare_iff: "open_bare t \<longleftrightarrow> (\<exists>N. t = TurfGenericParamType N)"
  by (cases t) (simp_all add: open_bare_def)

function referencePointeeGenericMatch :: "TurfType \<Rightarrow> TurfType \<Rightarrow> bool" where
  "referencePointeeGenericMatch A B =
    (if isEquivalent A (Some B) then True
     else if open_bare A \<or> open_bare B then True
     else (case (A, B) of
        (GenericType BA as M R, GenericType BB bs M' R') \<Rightarrow>
          BA = BB \<and> length as = length bs \<and> list_all (\<lambda>(a, b). referencePointeeGenericMatch a b) (zip as bs)
      | _ \<Rightarrow> False))"
  by pat_completeness auto
termination
  by (relation "measure (\<lambda>(A, B). size A)") (auto dest: size_type_in_zip)

declare referencePointeeGenericMatch.simps [simp del]

section \<open>Rules that look at the shape\<close>

definition arrays_compatible :: "TurfType \<Rightarrow> TurfType \<Rightarrow> bool" where
  "arrays_compatible From To = (case (From, To) of
      (ArrayType FromElem n sp, ArrayType ToElem n' sp') \<Rightarrow>
        (n = n' \<or> n' = -1 \<or> hasSymbolicSize sp' \<and> 0 < n) \<and>
        (open_bare FromElem \<or> open_bare ToElem \<or> isEquivalent FromElem (Some ToElem))
    | _ \<Rightarrow> False)"

definition pointers_to_param :: "TurfType \<Rightarrow> TurfType \<Rightarrow> bool" where
  "pointers_to_param From To = (case (pointee_of From, pointee_of To) of
      (Some p, Some q) \<Rightarrow> open_bare p \<or> open_bare q
    | _ \<Rightarrow> False)"

definition arg_matches :: "TurfType \<Rightarrow> TurfType \<Rightarrow> bool" where
  "arg_matches a b \<longleftrightarrow> open_bare a \<or> open_bare b \<or> isEquivalent a (Some b)"

definition generics_compatible :: "TurfType \<Rightarrow> TurfType \<Rightarrow> bool" where
  "generics_compatible From To = (case From of
      GenericType B as M R \<Rightarrow>
        (case To of
           GenericType B' bs M' R' \<Rightarrow> B = B' \<and> length as = length bs \<and> list_all (\<lambda>(a, b). arg_matches a b) (zip as bs)
         | _ \<Rightarrow> B = getName To)
    | _ \<Rightarrow> (case To of GenericType B bs M R \<Rightarrow> B = getName From | _ \<Rightarrow> False))"

section \<open>Rules for single values\<close>

definition isPointerLikeStrict :: "TurfType \<Rightarrow> bool" where
  "isPointerLikeStrict T \<longleftrightarrow> isPointer T \<and> \<not> isReference T \<or> getName T = ''ptr'' \<or> getName T = ''void*''"

definition isOpaquePtr :: "TurfType \<Rightarrow> bool" where
  "isOpaquePtr T \<longleftrightarrow> getName T = ''ptr'' \<or> getName T = ''void*''"

definition reference_widens :: "TurfType \<Rightarrow> TurfType \<Rightarrow> bool" where
  "reference_widens From To = (case (From, pointee_of To) of
      (TurfReferenceType p, Some q) \<Rightarrow> \<not> isReference To \<and> referencePointeeGenericMatch p q
    | (TurfNullableReferenceType p, Some q) \<Rightarrow>
        \<not> isReference To \<and> \<not> isNullableReference To \<and> referencePointeeGenericMatch p q
    | _ \<Rightarrow> False)"

definition numbers_compatible :: "TurfType \<Rightarrow> TurfType \<Rightarrow> bool" where
  "numbers_compatible From To \<longleftrightarrow> From = IntType \<and> To = DoubleType \<or> From = Int32Type \<and> (To = IntType \<or> To = DoubleType)"

definition values_compatible :: "TurfType \<Rightarrow> TurfType \<Rightarrow> bool" where
  "values_compatible From To =
    (if getName From = getName To then True
     else if isNull From then isPointerLikeStrict To
     else if isNull To then isPointerLikeStrict From
     else if isOpaquePtr From \<and> isPointer To \<and> \<not> isReference To then True
     else if isOpaquePtr To \<and> isPointer From then True
     else if reference_widens From To then True
     else if isVoid From \<or> isVoid To then False
     else if isString From \<or> isString To then False
     else if isEnum From \<or> isEnum To then False
     else if isBool From \<or> isBool To then False
     else if isNumeric From \<and> isNumeric To then numbers_compatible From To
     else False)"

section \<open>Compatibility\<close>

function typesCompatible :: "TurfType option \<Rightarrow> TurfType option \<Rightarrow> bool" where
  "typesCompatible From To = (case (From, To) of
      (Some F, Some T) \<Rightarrow>
        (if open_bare F \<or> open_bare T then True
         else if isArray F \<or> isArray T then arrays_compatible F T
         else if pointers_to_param F T then True
         else if generics_compatible F T then True
         else if (case F of
             FuncType r ps \<Rightarrow>
               (case T of
                  FuncType r' ps' \<Rightarrow>
                    length ps = length ps' \<and> list_all (\<lambda>(p, p'). typesCompatible p p') (zip ps ps') \<and> typesCompatible r r'
                | _ \<Rightarrow> False)
           | _ \<Rightarrow> False) then True
         else values_compatible F T)
    | _ \<Rightarrow> False)"
  by pat_completeness auto
termination
  by (relation "measure (\<lambda>(From, To). size_option size From)")
    (auto dest: size_option_in_zip)

declare typesCompatible.simps [simp del]

end
