(* ===== verification/TypeFacts.thy ===== *)
theory TypeFacts
  imports TypeWalk
begin

text \<open>
  What the walks of \<open>TypeWalk\<close> compute: which parameters a type mentions, when replacing them leaves none, and
  that matching a declared type against an instance of it finds the instance's arguments.
\<close>

section \<open>What a type is made of\<close>

text \<open>The types \<open>substitute\<close> goes into, and all of them down to the leaves.\<close>

definition type_parts :: "TurfType \<Rightarrow> TurfType list" where
  "type_parts Ty = (case Ty of
      TurfReferenceType p \<Rightarrow> [p]
    | TurfNullableReferenceType p \<Rightarrow> [p]
    | TurfPointerType p \<Rightarrow> [p]
    | ArrayType e n sp \<Rightarrow> [e]
    | GenericType B args M R \<Rightarrow> args
    | TurfErrorUnionType s \<Rightarrow> [s]
    | FuncType r ps \<Rightarrow> concat (map (\<lambda>p. case p of Some t \<Rightarrow> [t] | None \<Rightarrow> []) (r # ps))
    | _ \<Rightarrow> [])"

lemma type_parts_size: "t \<in> set (type_parts Ty) \<Longrightarrow> size t < size Ty"
proof (cases Ty)
  case (FuncType r ps)
  assume "t \<in> set (type_parts Ty)"
  then have "Some t = r \<or> Some t \<in> set ps" using FuncType by (auto simp: type_parts_def split: option.split_asm)
  then show ?thesis using FuncType size_type_in_options [of t ps] by auto
qed (auto simp: type_parts_def dest: size_type_in_list)

function all_parts :: "TurfType \<Rightarrow> TurfType list" where
  "all_parts Ty = Ty # concat (map all_parts (type_parts Ty))"
  by pat_completeness auto
termination
  by (relation "measure size") (auto intro: type_parts_size)

declare all_parts.simps [simp del]

lemma all_parts_self [simp]: "t \<in> set (all_parts t)"
  by (simp add: all_parts.simps [of t])

lemma all_parts_in: "c \<in> set (type_parts t) \<Longrightarrow> set (all_parts c) \<subseteq> set (all_parts t)"
  by (auto simp: all_parts.simps [of t])

definition own_params :: "TurfType \<Rightarrow> string set" where
  "own_params Ty = (case Ty of
      TurfGenericParamType N \<Rightarrow> {N}
    | ArrayType e n sp \<Rightarrow> if hasSymbolicSize sp then {sp} else {}
    | _ \<Rightarrow> {})"

definition own_names :: "TurfType \<Rightarrow> string set" where
  "own_names Ty = (case Ty of NamedType N M R \<Rightarrow> if isResolvedIdentity N R then {} else {N} | _ \<Rightarrow> {})"

text \<open>The parameters of types and sizes that a type mentions anywhere.\<close>

definition type_params :: "TurfType \<Rightarrow> string set" where
  "type_params Ty = \<Union> (set (map own_params (all_parts Ty)))"

lemma type_params_rec: "type_params Ty = own_params Ty \<union> \<Union> (set (map type_params (type_parts Ty)))"
  by (auto simp: type_params_def all_parts.simps [of Ty])

lemma type_params_leaf: "type_parts Ty = [] \<Longrightarrow> type_params Ty = own_params Ty"
  by (simp add: type_params_rec [of Ty])

lemma type_params_one: "type_parts Ty = [p] \<Longrightarrow> type_params Ty = own_params Ty \<union> type_params p"
  by (simp add: type_params_rec [of Ty])

lemma type_params_sub: "c \<in> set (type_parts t) \<Longrightarrow> type_params c \<subseteq> type_params t"
  by (auto simp: type_params_rec [of t])

section \<open>Substitution\<close>

text \<open>Only what is looked up matters.\<close>

lemma substitute_agree:
  assumes "\<And>q N. q \<in> set (all_parts P) \<Longrightarrow> N \<in> own_params q \<union> own_names q \<Longrightarrow> map_of S N = map_of S' N"
  shows "substitute S P = substitute S' P"
  using assms
proof (induction "size P" arbitrary: P rule: less_induct)
  case less
  have sub: "substitute S c = substitute S' c" if "c \<in> set (type_parts P)" for c
    by (rule less.hyps [OF type_parts_size [OF that]]) (use less.prems all_parts_in [OF that] in blast)
  have own: "map_of S N = map_of S' N" if "N \<in> own_params P \<union> own_names P" for N using less.prems [of P N] that by simp
  show ?case
  proof (cases P)
    case (FuncType r ps)
    have "substitute S t = substitute S' t" if "Some t = r \<or> Some t \<in> set ps" for t
      by (rule sub) (use that in \<open>force simp: FuncType type_parts_def\<close>)
    then show ?thesis by (auto simp: FuncType split: option.split)
  qed (use sub own in \<open>auto simp: type_parts_def own_params_def own_names_def bound_or_def
      sized_array_def split: if_split_asm\<close>)
qed

text \<open>What a substitution may put for the parameters of a type: sizes for the sizes, whole types for the rest.\<close>

definition sizes_bound :: "SubstMap \<Rightarrow> TurfType \<Rightarrow> bool" where
  "sizes_bound Subst Ty = (case Ty of
      ArrayType e n sp \<Rightarrow> hasSymbolicSize sp \<longrightarrow>
        (case map_of Subst sp of Some (TurfSizeValueType V) \<Rightarrow> 0 < V | _ \<Rightarrow> False)
    | _ \<Rightarrow> True)"

lemma sized_array_bound: "sizes_bound Subst (ArrayType e n sp) \<Longrightarrow> hasSymbolicSize sp \<Longrightarrow>
    \<exists>V. map_of Subst sp = Some (TurfSizeValueType V) \<and> 0 < V \<and> sized_array Subst t n sp = makeArrayType t V"
  by (auto simp: sizes_bound_def sized_array_def split: option.split_asm TurfType.split_asm)

lemma sizes_bound_parts: "list_all (sizes_bound S) (all_parts P) \<Longrightarrow> c \<in> set (type_parts P) \<Longrightarrow> list_all (sizes_bound S) (all_parts c)"
  using all_parts_in [of c P] by (auto simp: list_all_iff)

lemma bound_closed:
  assumes "N \<in> fst ` set Subst" and "\<forall>v \<in> snd ` set Subst. type_params v = {}"
  shows "type_params (bound_or Subst N Ty) = {}"
proof -
  obtain v where "map_of Subst N = Some v" using assms(1) by (metis domD dom_map_of_conv_image_fst)
  moreover from this have "v \<in> snd ` set Subst" by (force dest: map_of_SomeD)
  ultimately show ?thesis using bspec [OF assms(2)] by (simp add: bound_or_def)
qed

lemma substitute_closed:
  assumes "type_params P \<subseteq> fst ` set Subst" and "list_all (sizes_bound Subst) (all_parts P)"
    and "\<forall>v \<in> snd ` set Subst. type_params v = {}"
  shows "type_params (substitute Subst P) = {}"
  using assms(1,2)
proof (induction "size P" arbitrary: P rule: less_induct)
  case less
  have sub: "type_params (substitute Subst c) = {}" if "c \<in> set (type_parts P)" for c
    by (rule less.hyps [OF type_parts_size [OF that]])
      (use less.prems type_params_sub [OF that] sizes_bound_parts [OF _ that] in auto)
  have own: "sizes_bound Subst P" using less.prems(2) by (simp add: all_parts.simps [of P])
  show ?case
  proof (cases P)
    case (TurfGenericParamType N)
    then have "N \<in> fst ` set Subst" using less.prems(1)
      by (simp add: type_params_rec [of "TurfGenericParamType N"] own_params_def)
    then show ?thesis using bound_closed [OF _ assms(3)] by (simp add: TurfGenericParamType)
  next
    case (NamedType N M R)
    have "type_params (bound_or Subst N P) = {}"
    proof (cases "N \<in> fst ` set Subst")
      case True
      then show ?thesis by (rule bound_closed [OF _ assms(3)])
    next
      case False
      then have "map_of Subst N = None" by (simp add: map_of_eq_None_iff)
      then show ?thesis by (simp add: bound_or_def type_params_leaf NamedType type_parts_def own_params_def)
    qed
    then show ?thesis by (simp add: NamedType type_params_leaf type_parts_def own_params_def)
  next
    case (ArrayType e n sp)
    have e: "type_params (substitute Subst e) = {}" by (rule sub) (simp add: ArrayType type_parts_def)
    have "type_params (makeArrayType (substitute Subst e) V) = {}" for V
      using e by (simp add: makeArrayType_def type_params_rec [of "ArrayType (substitute Subst e) V []"] type_parts_def own_params_def
          hasSymbolicSize_def)
    with sized_array_bound [OF own [unfolded ArrayType], of "substitute Subst e"] show ?thesis
      by (cases "hasSymbolicSize sp") (auto simp: ArrayType sized_array_def)
  next
    case (FuncType r ps)
    have "type_params (substitute Subst t) = {}" if "Some t = r \<or> Some t \<in> set ps" for t
      by (rule sub) (use that in \<open>force simp: FuncType type_parts_def\<close>)
    then show ?thesis
      by (auto simp: FuncType type_params_rec [of "FuncType a b" for a b] type_parts_def
          own_params_def split: option.splits)
  qed (use sub in \<open>auto simp: type_params_rec [of "TurfPointerType t" for t]
      type_params_rec [of "TurfReferenceType t" for t] type_params_rec [of "TurfNullableReferenceType t" for t]
      type_params_rec [of "GenericType a b c d" for a b c d] type_params_rec [of "TurfErrorUnionType t" for t]
      type_params_leaf type_parts_def own_params_def\<close>)
qed

lemma open_has_param: "containsOpenParam (Some t) Scope None \<Longrightarrow> type_params t \<noteq> {}"
proof (induction "size t" arbitrary: t rule: less_induct)
  case less
  have sub: "type_params t \<noteq> {}" if "c \<in> set (type_parts t)" "containsOpenParam (Some c) Scope None" for c
    using less.hyps [OF type_parts_size [OF that(1)] that(2)] type_params_sub [OF that(1)] by auto
  have own: "own_params t \<subseteq> type_params t" by (auto simp: type_params_rec [of t])
  show ?case
  proof (cases t)
    case (GenericType B args M R)
    then show ?thesis using less.prems sub
      by (auto simp: type_parts_def list_ex_iff split: if_split_asm)
  qed (use less.prems sub own in \<open>auto simp: type_parts_def own_params_def split: if_split_asm\<close>)
qed


definition sample_type :: TurfType where
  "sample_type = GenericType ''Map'' [TurfGenericParamType ''K'',
     ArrayType (TurfReferenceType (TurfGenericParamType ''V'')) kSymbolicSize ''N''] [] False"

definition sample_args :: SubstMap where
  "sample_args = [(''K'', StringType), (''V'', NamedType ''Node'' [] False), (''N'', TurfSizeValueType 4)]"



section \<open>Matching\<close>

text \<open>
  Declared types that matching reads completely: every parameter is bound, a name that is not resolved is not
  one of them, and error unions, which matching does not go into, mention none.
\<close>

definition matchable :: "SubstMap \<Rightarrow> TurfType \<Rightarrow> bool" where
  "matchable Subst Ty \<longleftrightarrow> sizes_bound Subst Ty \<and> (case Ty of
      TurfGenericParamType N \<Rightarrow> map_of Subst N \<noteq> None
    | NamedType N M R \<Rightarrow> isResolvedIdentity N R \<or> map_of Subst N = None
    | TurfErrorUnionType s \<Rightarrow> type_params s = {}
    | _ \<Rightarrow> True)"

lemma map_of_emplace: "map_of (emplace k t S) = (if map_of S k = None then (map_of S)(k \<mapsto> t) else map_of S)"
  by (auto simp: emplace_def fun_eq_iff map_add_def split: option.split)

text \<open>Matching against an instance: what is bound stays bound as in the instance, and the parameters are added.\<close>

definition binds :: "SubstMap \<Rightarrow> string set \<Rightarrow> SubstMap \<Rightarrow> SubstMap \<Rightarrow> bool" where
  "binds Subst Ns S S' \<longleftrightarrow> map_of S' \<subseteq>\<^sub>m map_of Subst \<and> dom (map_of S') = dom (map_of S) \<union> Ns"

lemma binds_refl: "map_of S \<subseteq>\<^sub>m map_of Subst \<Longrightarrow> binds Subst {} S S"
  by (simp add: binds_def)

lemma binds_trans: "binds Subst A S S1 \<Longrightarrow> binds Subst B S1 S2 \<Longrightarrow> binds Subst (A \<union> B) S S2"
  by (auto simp: binds_def)

lemma binds_emplace:
  assumes "map_of S \<subseteq>\<^sub>m map_of Subst" and "map_of Subst N = Some t"
  shows "binds Subst {N} S (emplace N t S)"
  using assms by (auto simp: binds_def map_of_emplace map_le_def)

lemma fold_binds:
  assumes "\<And>x S. x \<in> set xs \<Longrightarrow> map_of S \<subseteq>\<^sub>m map_of Subst \<Longrightarrow> binds Subst (A x) S (f x S)" and "map_of S \<subseteq>\<^sub>m map_of Subst"
  shows "binds Subst (\<Union> (set (map A xs))) S (fold f xs S)"
  using assms
proof (induction xs arbitrary: S)
  case Nil
  then show ?case by (simp add: binds_refl)
next
  case (Cons x xs)
  have x: "binds Subst (A x) S (f x S)" using Cons.prems by simp
  then have "binds Subst (\<Union> (set (map A xs))) (f x S) (fold f xs (f x S))"
    by (intro Cons.IH) (use Cons.prems in \<open>auto simp: binds_def\<close>)
  from binds_trans [OF x this] show ?case by simp
qed

lemma unify_instance:
  "list_all (matchable Subst) (all_parts P) \<Longrightarrow> map_of S \<subseteq>\<^sub>m map_of Subst \<Longrightarrow>
   binds Subst (type_params P) S (unify (Some P) (Some (substitute Subst P)) S)"
proof (induction "size P" arbitrary: P S rule: less_induct)
  case less
  have own: "matchable Subst P" using less.prems(1) by (simp add: all_parts.simps [of P])
  have sub: "binds Subst (type_params c) S' (unify (Some c) (Some (substitute Subst c)) S')"
    if "c \<in> set (type_parts P)" "map_of S' \<subseteq>\<^sub>m map_of Subst" for c S'
    by (rule less.hyps [OF type_parts_size [OF that(1)] _ that(2)])
      (use less.prems(1) all_parts_in [OF that(1)] in \<open>auto simp: list_all_iff\<close>)
  show ?case
  proof (cases P)
    case (TurfGenericParamType N)
    then obtain t where "map_of Subst N = Some t" using own by (auto simp: matchable_def)
    with binds_emplace [OF less.prems(2) this] show ?thesis by (simp add: TurfGenericParamType bound_or_def type_params_rec [of "TurfGenericParamType N"] type_parts_def own_params_def)
  next
    case (ArrayType e n sp)
    note eqs = type_params_rec [of "ArrayType e n sp"]
      type_parts_def own_params_def
    show ?thesis
    proof (cases "hasSymbolicSize sp")
      case True
      from sized_array_bound [of Subst e n sp "substitute Subst e"] own True obtain V where V: "map_of Subst sp = Some (TurfSizeValueType V)"
          "0 < V" "sized_array Subst (substitute Subst e) n sp = makeArrayType (substitute Subst e) V"
        by (auto simp: ArrayType matchable_def)
      have s: "binds Subst {sp} S (emplace sp (TurfSizeValueType V) S)" by (rule binds_emplace [OF less.prems(2) V(1)])
      from binds_trans [OF s sub [of e]] s show ?thesis using True V
        by (simp add: ArrayType eqs makeArrayType_def binds_def)
    next
      case False
      then show ?thesis using sub [of e S] less.prems(2) by (simp add: ArrayType eqs sized_array_def makeArrayType_def)
    qed
  next
    case (GenericType B args M R)
    have "binds Subst (\<Union> (set (map type_params args))) S
        (fold (\<lambda>a S. unify (Some a) (Some (substitute Subst a)) S) args S)"
      by (rule fold_binds [OF sub less.prems(2)]) (auto simp: GenericType type_parts_def)
    moreover have "fold (\<lambda>(p, c) S. unify (Some p) (Some c) S) (zip args (map (substitute Subst) args)) S =
        fold (\<lambda>a S. unify (Some a) (Some (substitute Subst a)) S) args S"
      by (simp add: zip_map2 zip_same_conv_map fold_map comp_def)
    ultimately show ?thesis
      by (simp add: GenericType type_params_rec [of "GenericType B args M R"] type_parts_def own_params_def)
  next
    case (FuncType r ps)
    let ?g = "\<lambda>p. case p of Some t \<Rightarrow> Some (substitute Subst t) | None \<Rightarrow> None"
    let ?A = "\<lambda>p. case p of Some t \<Rightarrow> type_params t | None \<Rightarrow> {}"
    have part: "binds Subst (?A p) S' (unify p (?g p) S')" if "p = r \<or> p \<in> set ps" "map_of S' \<subseteq>\<^sub>m map_of Subst" for p S'
    proof (cases p)
      case None
      then show ?thesis using that(2) by (simp add: binds_refl)
    next
      case (Some t)
      have "t \<in> set (type_parts P)" using that(1) Some by (force simp: FuncType type_parts_def)
      from sub [OF this that(2)] show ?thesis by (simp add: Some)
    qed
    have a: "binds Subst (\<Union> (set (map ?A ps))) S (fold (\<lambda>p S. unify p (?g p) S) ps S)"
      by (rule fold_binds [OF part less.prems(2)]) auto
    have b: "binds Subst (?A r) (fold (\<lambda>p S. unify p (?g p) S) ps S) (unify r (?g r) (fold (\<lambda>p S. unify p (?g p) S) ps S))"
      by (rule part) (use a in \<open>auto simp: binds_def\<close>)
    have z: "fold (\<lambda>(p, c) S. unify p c S) (zip ps (map ?g ps)) S = fold (\<lambda>p S. unify p (?g p) S) ps S"
      by (simp add: zip_map2 zip_same_conv_map fold_map comp_def)
    have t: "type_params P = \<Union> (set (map ?A ps)) \<union> ?A r"
      by (auto simp: FuncType type_params_rec [of "FuncType r ps"] type_parts_def own_params_def split: option.splits)
    show ?thesis using binds_trans [OF a b] unfolding t
      by (simp add: FuncType z)
  qed (use sub less.prems(2) own in \<open>auto simp: type_params_leaf type_params_one type_parts_def
      own_params_def pointee_of_def matchable_def binds_refl\<close>)
qed

lemma collected_params:
  "list_all (matchable Subst) (all_parts P) \<Longrightarrow> set (collectParamOrder (Some P) Order) = set Order \<union> type_params P"
proof (induction "size P" arbitrary: P Order rule: less_induct)
  case less
  have own: "matchable Subst P" using less.prems(1) by (simp add: all_parts.simps [of P])
  have sub: "set (collectParamOrder (Some c) Order') = set Order' \<union> type_params c" if "c \<in> set (type_parts P)" for c Order'
    by (rule less.hyps [OF type_parts_size [OF that]])
      (use less.prems(1) all_parts_in [OF that] in \<open>auto simp: list_all_iff\<close>)
  show ?case
  proof (cases P)
    case (GenericType B args M R)
    have "set (fold (\<lambda>a. collectParamOrder (Some a)) as Order') = set Order' \<union> \<Union> (set (map type_params as))"
      if "set as \<subseteq> set args" for as Order'
      using that by (induction as arbitrary: Order') (auto simp: sub GenericType type_parts_def)
    then show ?thesis by (simp add: GenericType type_params_rec [of "GenericType B args M R"] type_parts_def own_params_def)
  next
    case (FuncType r ps)
    let ?A = "\<lambda>p. case p of Some t \<Rightarrow> type_params t | None \<Rightarrow> {}"
    have part: "set (collectParamOrder p Order') = set Order' \<union> ?A p" if "p = r \<or> p \<in> set ps" for p Order'
    proof (cases p)
      case (Some t)
      have "t \<in> set (type_parts P)" using that Some by (force simp: FuncType type_parts_def)
      from sub [OF this] show ?thesis by (simp add: Some)
    qed simp
    have "set (fold collectParamOrder qs Order') = set Order' \<union> \<Union> (set (map ?A qs))" if "set qs \<subseteq> set ps" for qs Order'
      using that by (induction qs arbitrary: Order') (auto simp: part)
    then show ?thesis
      by (auto simp: FuncType part type_params_rec [of "FuncType r ps"] type_parts_def own_params_def split: option.splits)
  next
    case (ArrayType e n sp)
    have "set (collectParamOrder (Some e) Order) = set Order \<union> type_params e"
      by (rule sub) (simp add: ArrayType type_parts_def)
    then show ?thesis
      by (auto simp: ArrayType note_param_def type_params_rec [of "ArrayType e n sp"] type_parts_def own_params_def Let_def)
  qed (use sub own in \<open>auto simp: type_params_leaf type_params_one type_parts_def own_params_def note_param_def matchable_def\<close>)
qed



end
