(* ===== verification/TypeRules.thy ===== *)
theory TypeRules
  imports TypeCompat TypeFacts
begin

text \<open>
  What compatibility of types promises and where it does not: a plain reference is only given where its own name
  is expected, a type parameter behind a reference lets a nullable reference through, and two instantiations can
  have one symbol.
\<close>

section \<open>Names of plain types\<close>

text \<open>Types as programs write them without parameters: names begin like a name, and no pointer to a reference.\<close>

definition plain_name :: "string \<Rightarrow> bool" where
  "plain_name N \<longleftrightarrow> N \<noteq> [] \<and> hd N \<noteq> CHR 0x26 \<and> hd N \<noteq> CHR ''?''"

definition well_named :: "TurfType \<Rightarrow> bool" where
  "well_named t = (case t of
      NamedType N M R \<Rightarrow> plain_name N
    | GenericType N args M R \<Rightarrow> plain_name N
    | TurfStructType N fs ps \<Rightarrow> plain_name N
    | TurfEnumType N Vs U \<Rightarrow> plain_name N
    | TurfMachineType N Vs Es \<Rightarrow> plain_name N
    | TurfUserErrorType N Vs B \<Rightarrow> plain_name N
    | TurfGenericParamType N \<Rightarrow> False
    | TurfSizeValueType V \<Rightarrow> False
    | TurfPointerType p \<Rightarrow> \<not> isReference p \<and> \<not> isNullableReference p
    | _ \<Rightarrow> True)"

definition plain_type :: "TurfType \<Rightarrow> bool" where
  "plain_type t \<longleftrightarrow> list_all well_named (all_parts t)"

lemma plain_own: "plain_type t \<Longrightarrow> well_named t"
  by (simp add: plain_type_def all_parts.simps [of t])

lemma plain_parts: "plain_type t \<Longrightarrow> c \<in> set (type_parts t) \<Longrightarrow> plain_type c"
  using all_parts_in [of c t] by (auto simp: plain_type_def list_all_iff)

lemma plain_not_open: "plain_type t \<Longrightarrow> \<not> open_bare t"
  by (auto simp: open_bare_iff well_named_def dest!: plain_own)

lemma array_base_plain: "plain_type t \<Longrightarrow> plain_type (array_base t)"
proof (induction t rule: array_base.induct)
  case (1 e n p)
  then show ?case using plain_parts [of "ArrayType e n p" e] by (simp add: type_parts_def)
qed simp_all

lemma array_base_not_array [simp]: "\<not> isArray (array_base t)"
  by (induction t rule: array_base.induct) (simp_all add: isArray_def)

definition named_as_reference :: "TurfType \<Rightarrow> bool" where
  "named_as_reference t \<longleftrightarrow> getName t \<noteq> [] \<and> hd (getName t) \<noteq> CHR ''?'' \<and>
    (hd (getName t) = CHR 0x26 \<longleftrightarrow> isReference t \<or> isNullableReference t)"

lemma plain_names: "plain_type t \<Longrightarrow> named_as_reference t"
proof (induction "size t" arbitrary: t rule: less_induct)
  case less
  have own: "well_named t" by (rule plain_own [OF less.prems])
  have sub: "named_as_reference c" if "c \<in> set (type_parts t)" for c
    by (rule less.hyps [OF type_parts_size [OF that] plain_parts [OF less.prems that]])
  note named_as_reference_def [simp] well_named_def [simp] plain_name_def [simp] isReference_def [simp]
    isNullableReference_def [simp] type_parts_def [simp]
  show ?case
  proof (cases t)
    case (ArrayType e n p)
    have "named_as_reference (array_base e)"
    proof (rule less.hyps)
      show "size (array_base e) < size t" using size_array_base [of e] by (simp add: ArrayType)
      show "plain_type (array_base e)" using array_base_plain plain_parts [OF less.prems] by (simp add: ArrayType)
    qed
    then show ?thesis by (auto simp: ArrayType Let_def in_parens_def hd_append)
  next
    case (TurfPointerType p)
    then show ?thesis using own sub [of p] by (auto simp: hd_append)
  qed (use own in \<open>auto simp: hd_append\<close>)
qed

section \<open>Where a reference is expected\<close>

lemma nullable_name_differs:
  assumes "plain_type p" and "plain_type t"
  shows "getName (TurfNullableReferenceType p) \<noteq> getName (TurfReferenceType t)"
  using plain_names [OF assms(2)] by (cases "getName t") (auto simp: named_as_reference_def in_parens_def)

lemma plain_name_is_reference:
  assumes "plain_type From" and "plain_type t" and "getName From = getName (TurfReferenceType t)"
  shows "isReference From"
proof -
  have "hd (getName From) = CHR 0x26" using assms(3) by simp
  then consider "isReference From" | p where "From = TurfNullableReferenceType p"
    using plain_names [OF assms(1)]
    by (auto simp: named_as_reference_def isNullableReference_def split: TurfType.split_asm)
  then show ?thesis
  proof cases
    case 2
    then have "plain_type p" using plain_parts [OF assms(1)] by (simp add: type_parts_def)
    then show ?thesis using nullable_name_differs [OF _ assms(2)] assms(3) 2 by blast
  qed
qed

lemma pointee_plain: "plain_type t \<Longrightarrow> pointee_of t = Some p \<Longrightarrow> plain_type p"
  using plain_parts [of t p] by (auto simp: pointee_of_def type_parts_def split: TurfType.split_asm)

lemma reference_by_name:
  "values_compatible From (TurfReferenceType t) \<longleftrightarrow> getName From = getName (TurfReferenceType t)"
proof -
  let ?T = "TurfReferenceType t"
  have "isReference ?T" "\<not> isNull ?T" "\<not> isPointerLikeStrict ?T" "\<not> isOpaquePtr ?T" "\<not> isNumeric ?T"
    by (auto simp: isReference_def isNull_def isPointerLikeStrict_def isOpaquePtr_def isNumeric_def)
  moreover have "\<not> reference_widens From ?T"
    by (cases From) (simp_all add: reference_widens_def pointee_of_def isReference_def)
  ultimately show ?thesis by (simp add: values_compatible_def)
qed

lemma reference_accepts_by_name:
  assumes "plain_type From" and "plain_type t"
  shows "typesCompatible (Some From) (Some (TurfReferenceType t)) \<longleftrightarrow>
    \<not> isArray From \<and> getName From = getName (TurfReferenceType t)"
proof -
  have open1: "\<not> open_bare From" "\<not> open_bare (TurfReferenceType t)" "\<not> open_bare t"
    using plain_not_open [OF assms(1)] plain_not_open [OF assms(2)] by (auto simp: open_bare_iff)
  have ptr: "\<not> pointers_to_param From (TurfReferenceType t)"
    using pointee_plain [OF assms(1)] plain_not_open open1
    by (auto simp: pointers_to_param_def pointee_of_def [of "TurfReferenceType t"] split: option.split)
  have gen: "\<not> generics_compatible From (TurfReferenceType t)"
    using plain_own [OF assms(1)] by (auto simp: generics_compatible_def well_named_def plain_name_def split: TurfType.split)
  show ?thesis
  proof (cases "isArray From")
    case True
    then have "\<not> typesCompatible (Some From) (Some (TurfReferenceType t))"
      using open1 by (cases From) (simp_all add: typesCompatible.simps arrays_compatible_def isArray_def)
    then show ?thesis using True by simp
  next
    case False
    then have "typesCompatible (Some From) (Some (TurfReferenceType t)) \<longleftrightarrow> values_compatible From (TurfReferenceType t)"
      using open1 ptr gen by (cases From) (simp_all add: typesCompatible.simps isArray_def)
    also have "\<dots> \<longleftrightarrow> getName From = getName (TurfReferenceType t)" by (rule reference_by_name)
    finally show ?thesis using False by simp
  qed
qed



section \<open>Where a reference to a parameter is expected\<close>

lemma plain_pointee:
  assumes "plain_type t"
  shows "plain_type (TurfNullableReferenceType t)"
  using assms by (simp add: plain_type_def all_parts.simps [of "TurfNullableReferenceType t"] type_parts_def well_named_def)

text \<open>
  A nullable reference is accepted where \<open>&T\<close> with a type parameter \<open>T\<close> is expected, and so is a raw pointer.
  The argument binds \<open>T\<close> to what it points to, and in the instance the parameter is a plain reference, where the
  same argument is not accepted.
\<close>

theorem nullable_becomes_reference:
  assumes "plain_type t" and "\<not> isReference t" and "\<not> isNullableReference t"
    and "arg \<in> {TurfNullableReferenceType t, TurfPointerType t}"
  shows "let Param = TurfReferenceType (TurfGenericParamType T); S = unify (Some Param) (Some arg) [] in
    typesCompatible (Some arg) (Some Param) \<and>
    S = [(T, t)] \<and> substitute S Param = TurfReferenceType t \<and>
    \<not> typesCompatible (Some arg) (Some (substitute S Param))"
proof -
  let ?Param = "TurfReferenceType (TurfGenericParamType T)"
  have point: "pointee_of arg = Some t" "\<not> isReference arg" "plain_type arg"
    using assms plain_pointee [OF assms(1)]
    by (auto simp: pointee_of_def isReference_def plain_type_def all_parts.simps [of "TurfPointerType t"] type_parts_def well_named_def)
  have s: "unify (Some ?Param) (Some arg) [] = [(T, t)]" using point(1) by (simp add: emplace_def)
  have "pointers_to_param arg ?Param"
    by (simp add: pointers_to_param_def point(1) pointee_of_def [of ?Param] open_bare_iff)
  moreover have "\<not> isArray arg" using assms(4) by (auto simp: isArray_def)
  ultimately have "typesCompatible (Some arg) (Some ?Param)" by (simp add: typesCompatible.simps isArray_def)
  moreover have "\<not> typesCompatible (Some arg) (Some (TurfReferenceType t))"
    using plain_name_is_reference [OF point(3) assms(1)] point(2)
    by (auto simp: reference_accepts_by_name [OF point(3) assms(1)])
  ultimately show ?thesis unfolding Let_def s by (simp add: bound_or_def)
qed

theorem nullable_becomes_reference_witness:
  "typesCompatible (Some (TurfNullableReferenceType (NamedType ''Node'' [] False)))
      (Some (TurfReferenceType (TurfGenericParamType ''T'')))"
proof -
  have "plain_type (NamedType ''Node'' [] False)"
    by (simp add: plain_type_def all_parts.simps type_parts_def well_named_def plain_name_def)
  then show ?thesis
    using nullable_becomes_reference [of "NamedType ''Node'' [] False" "TurfNullableReferenceType (NamedType ''Node'' [] False)" "''T''"]
    by (simp add: isReference_def isNullableReference_def Let_def)
qed

section \<open>Symbols of instances\<close>

text \<open>
  Two different instances of a generic declaration can have one symbol: the one for a pointer to a type \<open>N\<close>, and
  the one for a type that is called \<open>N_ptr\<close>; the names themselves are different.
\<close>

theorem instances_share_a_symbol:
  "instantiatedDeclName B [TurfPointerType (NamedType N M R)] Module = instantiatedDeclName B [NamedType (N @ ''_ptr'') M R] Module \<and>
   instantiatedDeclName B [NamedType ''a'' M R, NamedType ''b_c'' M R] Module =
     instantiatedDeclName B [NamedType ''a_b'' M R, NamedType ''c'' M R] Module \<and>
   \<not> isEquivalent (TurfPointerType (NamedType N M R)) (Some (NamedType (N @ ''_ptr'') M R))"
  by (simp add: instantiatedDeclName_def isEquivalent.simps)

section \<open>The arguments of a generic struct\<close>

definition within :: "TurfType list \<Rightarrow> SubstMap \<Rightarrow> bool" where
  "within TypeArgs Subst \<longleftrightarrow> length Subst \<le> length TypeArgs \<and> distinct (map fst Subst) \<and> map snd Subst = take (length Subst) TypeArgs"

lemma bind_next_within: "within TypeArgs Subst \<Longrightarrow> \<not> length TypeArgs \<le> length Subst \<Longrightarrow> within TypeArgs (bind_next TypeArgs N Subst)"
  by (auto simp: within_def bind_next_def emplace_def map_of_eq_None_iff take_Suc_conv_app_nth)

lemma fold_within:
  "(\<And>x S. x \<in> set xs \<Longrightarrow> within TypeArgs S \<Longrightarrow> within TypeArgs (f x S)) \<Longrightarrow> within TypeArgs S \<Longrightarrow> within TypeArgs (fold f xs S)"
  by (induction xs arbitrary: S) auto

lemma collected_within: "within TypeArgs Subst \<Longrightarrow> within TypeArgs (collectOrderedFieldSubstitution P TypeArgs Subst Known)"
proof (induction "size_option size P" arbitrary: P Subst rule: less_induct)
  case less
  show ?case
  proof (cases "length TypeArgs \<le> length Subst")
    case True
    then show ?thesis using less.prems by (simp add: collectOrderedFieldSubstitution.simps)
  next
    case False
    note step = collectOrderedFieldSubstitution.simps [of P TypeArgs Subst Known]
    show ?thesis
    proof (cases P)
      case None
      show ?thesis using less.prems by (simp add: step) (simp add: None)
    next
      case (Some t)
      then show ?thesis
      proof (cases t)
        case (GenericType B args M R)
        have "within TypeArgs (collectOrderedFieldSubstitution (Some a) TypeArgs S Known)" if "a \<in> set args" "within TypeArgs S" for a S
          by (rule less.hyps [OF _ that(2)]) (use size_type_in_list [OF that(1)] in \<open>simp add: Some GenericType\<close>)
        then have "within TypeArgs (fold (\<lambda>a S. collectOrderedFieldSubstitution (Some a) TypeArgs S Known) args Subst)"
          by (rule fold_within) (use less.prems in auto)
        then show ?thesis using False step by (simp add: Some GenericType)
      next
        case (FuncType r ps)
        have part: "within TypeArgs (collectOrderedFieldSubstitution p TypeArgs S Known)"
          if "p = r \<or> p \<in> set ps" "within TypeArgs S" for p S
          by (rule less.hyps [OF _ that(2)]) (use that(1) size_option_in_list [of p ps] in \<open>auto simp: Some FuncType\<close>)
        have "within TypeArgs (fold (\<lambda>p S. collectOrderedFieldSubstitution p TypeArgs S Known) ps Subst)"
          by (rule fold_within [OF part less.prems]) auto
        with part show ?thesis using False step by (simp add: Some FuncType)
      qed (use step less.hyps less.prems False bind_next_within in simp_all)
    qed
  qed
qed

text \<open>
  C40. The arguments of a generic struct without a list of parameters are taken in order: as many names are bound as
  there are arguments at most, none twice, and the first name has the first argument, the second the second, so
  that no argument is read that is not there.
\<close>

theorem struct_arguments_in_order:
  "let Subst = structTypeArgSubst Fields [] TypeArgs Known in
    length Subst \<le> length TypeArgs \<and> distinct (map fst Subst) \<and> map snd Subst = take (length Subst) TypeArgs"
proof -
  have "within TypeArgs (fold (\<lambda>(n, t) S. collectOrderedFieldSubstitution (Some t) TypeArgs S Known) Fields [])"
  proof (rule fold_within)
    show "within TypeArgs []" by (simp add: within_def)
  qed (auto intro: collected_within)
  then show ?thesis by (simp add: within_def structTypeArgSubst_def Let_def)
qed

section \<open>Conversions of simple values\<close>

definition simple_types :: "TurfType list" where
  "simple_types =
    [IntType, Int32Type, DoubleType, BoolType, CharType, StringType, AnyErrorType, VoidType, TurfNullType, OpaquePointerType]"

definition conversions :: "(TurfType \<times> TurfType) list" where
  "conversions =
    [(IntType, DoubleType), (Int32Type, IntType), (Int32Type, DoubleType),
     (TurfNullType, OpaquePointerType), (OpaquePointerType, TurfNullType)]"

text \<open>
  Among the simple types the only conversions are the three that widen a number and the one between null and
  the opaque pointer: no bool, char or string is taken for a number, and no number becomes narrower.
\<close>

theorem simple_conversions:
  "filter (\<lambda>(A, B). A \<noteq> B \<and> typesCompatible (Some A) (Some B)) (List.product simple_types simple_types) = conversions \<and>
   list_all (\<lambda>A. typesCompatible (Some A) (Some A)) simple_types"
  by code_simp

end
