(* ===== verification/LexicalScopes.thy ===== *)
theory LexicalScopes
  imports Main
begin

text \<open>
  Lexical scopes as their clients see them: a stack of environments, innermost first. The Resolver's table
  (\<open>ScopeTable\<close>) and the code generator's (\<open>CodegenScopes\<close>) are two implementations.
\<close>

type_synonym 'v environments = "(string \<rightharpoonup> 'v) list"

fun lookup_env :: "'v environments \<Rightarrow> string \<Rightarrow> 'v option" where
  "lookup_env [] x = None"
| "lookup_env (E # Es) x = (case E x of Some v \<Rightarrow> Some v | None \<Rightarrow> lookup_env Es x)"

text \<open>The declarations of a body, block by block, and how a table sees them go by.\<close>

datatype 'd scoped = Declares string 'd | Block "'d scoped list"

fun scoped_run :: "('t \<Rightarrow> 't) \<Rightarrow> ('t \<Rightarrow> 't) \<Rightarrow> (string \<Rightarrow> 'd \<Rightarrow> 't \<Rightarrow> 't) \<Rightarrow> 'd scoped \<Rightarrow> 't \<Rightarrow> 't" where
  "scoped_run enter leave bind (Declares x d) t = bind x d t"
| "scoped_run enter leave bind (Block ss) t = leave (fold (scoped_run enter leave bind) ss (enter t))"

text \<open>
  A client sees one frame per open scope, whatever a frame holds. Opening a scope adds a fresh frame, leaving it
  takes the frame away, and what happens inside changes the innermost frame only.
\<close>

locale scope_stack =
  fixes enter :: "'t \<Rightarrow> 't" and leave :: "'t \<Rightarrow> 't" and bind :: "string \<Rightarrow> 'd \<Rightarrow> 't \<Rightarrow> 't"
    and frames :: "'t \<Rightarrow> 'f list" and fresh :: 'f and ok :: "'t \<Rightarrow> bool"
  assumes enters_ok: "ok t \<Longrightarrow> ok (enter t)"
    and enter_frames: "ok t \<Longrightarrow> frames (enter t) = fresh # frames t"
    and leave_ok: "ok t \<Longrightarrow> 2 \<le> length (frames t) \<Longrightarrow> ok (leave t)"
    and leave_frames: "ok t \<Longrightarrow> 2 \<le> length (frames t) \<Longrightarrow> frames (leave t) = tl (frames t)"
    and bind_ok: "ok t \<Longrightarrow> ok (bind x d t)"
    and bind_frames: "ok t \<Longrightarrow> tl (frames (bind x d t)) = tl (frames t) \<and> frames (bind x d t) \<noteq> []"
    and ok_frames: "ok t \<Longrightarrow> frames t \<noteq> []"
begin

abbreviation run where "run \<equiv> scoped_run enter leave bind"

definition keeps :: "'t \<Rightarrow> 't \<Rightarrow> bool" where
  "keeps t u \<longleftrightarrow> ok u \<and> tl (frames u) = tl (frames t) \<and> frames u \<noteq> []"

lemma fold_keeps: "(\<And>s u. s \<in> set ss \<Longrightarrow> ok u \<Longrightarrow> keeps u (run s u)) \<Longrightarrow> ok u \<Longrightarrow> keeps u (fold run ss u)"
proof (induction ss arbitrary: u)
  case Nil
  then show ?case using ok_frames by (simp add: keeps_def)
next
  case (Cons a ss)
  have "keeps u (run a u)" by (rule Cons.prems) (simp_all add: Cons.prems(2))
  moreover from this have "keeps (run a u) (fold run ss (run a u))"
    by (intro Cons.IH Cons.prems) (simp_all add: keeps_def)
  ultimately show ?case by (simp add: keeps_def)
qed

text \<open>In a block there is one frame more than outside, at least two.\<close>

lemma inside_block:
  assumes "ok t" and "keeps (enter t) u"
  shows "frames u = hd (frames u) # frames t \<and> 2 \<le> length (frames u)"
  using assms enter_frames ok_frames [OF assms(1)] by (cases "frames u"; cases "frames t") (auto simp: keeps_def)

lemma leave_restores:
  assumes "ok t" and "keeps (enter t) u"
  shows "ok (leave u) \<and> frames (leave u) = frames t"
  using inside_block [OF assms] assms(2) leave_ok leave_frames by (metis keeps_def list.sel(3))

lemma run_keeps: "ok t \<Longrightarrow> keeps t (run s t)"
proof (induction s arbitrary: t)
  case (Declares x d)
  then show ?case using bind_ok bind_frames by (simp add: keeps_def)
next
  case (Block ss)
  have "keeps (enter t) (fold run ss (enter t))" by (rule fold_keeps [OF Block.IH enters_ok [OF Block.prems]])
  from leave_restores [OF Block.prems this] show ?case using ok_frames [OF Block.prems] by (simp add: keeps_def)
qed

text \<open>After a block every frame is what it was before.\<close>

lemma block_restores: "ok t \<Longrightarrow> ok (run (Block ss) t) \<and> frames (run (Block ss) t) = frames t"
  using leave_restores [OF _ fold_keeps [OF run_keeps enters_ok]] by simp

end

text \<open>Two tables that see the same declarations go by, and agree on a view of every frame.\<close>

locale scope_pair =
  A: scope_stack enterA leaveA bindA framesA freshA okA + B: scope_stack enterB leaveB bindB framesB freshB okB
  for enterA :: "'t \<Rightarrow> 't" and leaveA :: "'t \<Rightarrow> 't" and bindA :: "string \<Rightarrow> 'd \<Rightarrow> 't \<Rightarrow> 't"
    and framesA :: "'t \<Rightarrow> 'f list" and freshA :: 'f and okA :: "'t \<Rightarrow> bool"
    and enterB :: "'u \<Rightarrow> 'u" and leaveB :: "'u \<Rightarrow> 'u" and bindB :: "string \<Rightarrow> 'd \<Rightarrow> 'u \<Rightarrow> 'u"
    and framesB :: "'u \<Rightarrow> 'g list" and freshB :: 'g and okB :: "'u \<Rightarrow> bool" +
  fixes viewA :: "'f \<Rightarrow> 'v" and viewB :: "'g \<Rightarrow> 'v"
  assumes fresh_view: "viewA freshA = viewB freshB"
    and bind_view: "okA t \<Longrightarrow> okB u \<Longrightarrow> map viewA (framesA t) = map viewB (framesB u) \<Longrightarrow>
      map viewA (framesA (bindA x d t)) = map viewB (framesB (bindB x d u))"
begin

definition agree :: "'t \<Rightarrow> 'u \<Rightarrow> bool" where
  "agree t u \<longleftrightarrow> okA t \<and> okB u \<and> map viewA (framesA t) = map viewB (framesB u)"

lemma run_agree: "agree t u \<Longrightarrow> agree (A.run s t) (B.run s u)"
proof (induction s arbitrary: t u)
  case (Declares x d)
  then show ?case using A.bind_ok B.bind_ok bind_view by (simp add: agree_def)
next
  case (Block ss)
  have f: "agree t u \<Longrightarrow> agree (fold A.run ss t) (fold B.run ss u)" for t u
    using Block.IH
  proof (induction ss arbitrary: t u)
    case (Cons a ss)
    from Cons.prems have "agree (A.run a t) (B.run a u)" by simp
    from Cons.IH [OF this] Cons.prems show ?case by simp
  qed simp
  have e: "agree (enterA t) (enterB u)"
    using Block.prems A.enters_ok B.enters_ok A.enter_frames B.enter_frames fresh_view by (simp add: agree_def)
  let ?a = "fold A.run ss (enterA t)" and ?b = "fold B.run ss (enterB u)"
  have ok: "okA t" "okB u" using Block.prems by (simp_all add: agree_def)
  have "2 \<le> length (framesA ?a)"
    using A.inside_block [OF ok(1) A.fold_keeps [OF A.run_keeps A.enters_ok [OF ok(1)]]] by blast
  moreover have "2 \<le> length (framesB ?b)"
    using B.inside_block [OF ok(2) B.fold_keeps [OF B.run_keeps B.enters_ok [OF ok(2)]]] by blast
  moreover have "agree ?a ?b" by (rule f [OF e])
  ultimately show ?case using A.leave_ok B.leave_ok A.leave_frames B.leave_frames by (simp add: agree_def map_tl)
qed

end

end
