(* ===== verification/ScopeTable.thy ===== *)
theory ScopeTable
  imports Ast LexicalScopes
begin

text \<open>
  The Resolver's stack of scopes (\<open>src/src/resolve/ResolverScopeTable.h\<close>, \<open>ResolverScopeTable.cpp\<close>). The vector
  of scopes has the outermost first; the pointer of a scope to its parent is the index of the parent. A symbol
  is made by \<open>declareVariable\<close> and gets the next free address as its \<open>VarId\<close>.
\<close>

section \<open>The table\<close>

record ScopeSymbol = VariableSymbol +
  ScopeDepth :: nat
  IsImmutable :: bool
  IsParameter :: bool

record ResolverScope =
  Depth :: nat
  Parent :: "nat option"
  Symbols :: "(string \<times> ScopeSymbol) list"

definition lookupLocal :: "string \<Rightarrow> ResolverScope \<Rightarrow> ScopeSymbol option" where
  "lookupLocal Name Sc = map_of (Symbols Sc) Name"

definition has_name :: "string \<Rightarrow> ResolverScope \<Rightarrow> bool" where
  "has_name Name Sc \<longleftrightarrow> map_of (Symbols Sc) Name \<noteq> None"

record ResolverScopeTable =
  ScopeStack :: "ResolverScope list"
  CurDepth :: nat
  NextSymbol :: nat

definition newScopeTable :: ResolverScopeTable where
  "newScopeTable = \<lparr>ScopeStack = [\<lparr>Depth = 0, Parent = None, Symbols = []\<rparr>], CurDepth = 0, NextSymbol = 0\<rparr>"

definition enterScope :: "ResolverScopeTable \<Rightarrow> ResolverScopeTable" where
  "enterScope T = T\<lparr>
     CurDepth := CurDepth T + 1,
     ScopeStack := ScopeStack T @
       [\<lparr>Depth = CurDepth T + 1,
         Parent = (if ScopeStack T = [] then None else Some (length (ScopeStack T) - 1)),
         Symbols = []\<rparr>]\<rparr>"

definition exitScope :: "ResolverScopeTable \<Rightarrow> ResolverScopeTable" where
  "exitScope T = (if length (ScopeStack T) \<le> 1 then T
     else T\<lparr>ScopeStack := butlast (ScopeStack T), CurDepth := CurDepth T - 1\<rparr>)"

function resetToDepth :: "nat \<Rightarrow> ResolverScopeTable \<Rightarrow> ResolverScopeTable" where
  "resetToDepth TargetDepth T =
    (if TargetDepth < CurDepth T \<and> 1 < length (ScopeStack T) then resetToDepth TargetDepth (exitScope T) else T)"
  by pat_completeness auto
termination
  by (relation "measure (\<lambda>(d, T). length (ScopeStack T))") (auto simp: exitScope_def)

declare resetToDepth.simps [simp del]

definition already_declared :: "string \<Rightarrow> string" where
  "already_declared Name = ''Variable '' @ [CHR 0x27] @ Name @ [CHR 0x27] @ '' is already declared in the current scope''"

definition make_symbol :: "ResolverScopeTable \<Rightarrow> string \<Rightarrow> TurfType option \<Rightarrow> SourceLocation \<Rightarrow> bool \<Rightarrow> bool \<Rightarrow> ScopeSymbol" where
  "make_symbol T Name Ty Loc Immutable Parameter =
    \<lparr>VarId = NextSymbol T, VarName = Name, VarType = Ty, VarDeclLoc = Loc,
     ScopeDepth = CurDepth T, IsImmutable = Immutable, IsParameter = Parameter\<rparr>"

definition add_symbol :: "string \<Rightarrow> ScopeSymbol \<Rightarrow> ResolverScope \<Rightarrow> ResolverScope" where
  "add_symbol Name Sym Sc = Sc\<lparr>Symbols := (Name, Sym) # Symbols Sc\<rparr>"

definition declareVariable ::
    "string \<Rightarrow> TurfType option \<Rightarrow> SourceLocation \<Rightarrow> bool \<Rightarrow> bool \<Rightarrow> ResolverScopeTable \<Rightarrow> string + ScopeSymbol \<times> ResolverScopeTable" where
  "declareVariable Name Ty Loc Immutable Parameter T0 =
    (let T = (if ScopeStack T0 = [] then enterScope T0 else T0); Current = last (ScopeStack T)
     in if has_name Name Current then Inl (already_declared Name)
        else let Sym = make_symbol T Name Ty Loc Immutable Parameter
             in Inr (Sym, T\<lparr>ScopeStack := butlast (ScopeStack T) @ [add_symbol Name Sym Current],
                            NextSymbol := NextSymbol T + 1\<rparr>))"

fun lookup_from :: "string \<Rightarrow> ResolverScope list \<Rightarrow> ScopeSymbol option" where
  "lookup_from Name [] = None"
| "lookup_from Name (Sc # Scs) = (case lookupLocal Name Sc of Some S \<Rightarrow> Some S | None \<Rightarrow> lookup_from Name Scs)"

definition lookupVariable :: "string \<Rightarrow> ResolverScopeTable \<Rightarrow> ScopeSymbol option" where
  "lookupVariable Name T = lookup_from Name (rev (ScopeStack T))"

definition isDeclaredInCurrentScope :: "string \<Rightarrow> ResolverScopeTable \<Rightarrow> bool" where
  "isDeclaredInCurrentScope Name T = (if ScopeStack T = [] then False else has_name Name (last (ScopeStack T)))"

definition note_name :: "string \<Rightarrow> string list \<Rightarrow> string list" where
  "note_name Name Names = (if Name \<in> set Names then Names else Names @ [Name])"

definition getAllVisibleNames :: "ResolverScopeTable \<Rightarrow> string list" where
  "getAllVisibleNames T = fold (\<lambda>Sc. fold (\<lambda>(Name, Sym). note_name Name) (Symbols Sc)) (rev (ScopeStack T)) []"

definition dump_symbol :: "ScopeSymbol \<Rightarrow> string" where
  "dump_symbol Sym = ''  Var: '' @ VarName Sym @ '' : '' @
     (case VarType Sym of Some t \<Rightarrow> getName t | None \<Rightarrow> ''unknown'') @
     '' [Loc: '' @ to_string (Line (VarDeclLoc Sym)) @ '':'' @ to_string (Col (VarDeclLoc Sym)) @ '']'' @ [CHR 0x0A]"

definition dump_scope :: "ResolverScope \<Rightarrow> string" where
  "dump_scope Sc = ''Scope Level '' @ to_string (int (Depth Sc)) @ '':'' @ [CHR 0x0A] @
     (if Symbols Sc = [] then ''  (empty)'' @ [CHR 0x0A] else concat (map (\<lambda>(n, Sym). dump_symbol Sym) (Symbols Sc)))"

definition dumpScopes :: "ResolverScopeTable \<Rightarrow> string" where
  "dumpScopes T = ''--- Variable Scopes (depth: '' @ to_string (int (CurDepth T)) @ '') ---'' @ [CHR 0x0A] @
     concat (map dump_scope (rev (ScopeStack T)))"

section \<open>The invariant\<close>

definition table_ids :: "ResolverScope list \<Rightarrow> nat list" where
  "table_ids Scs = concat (map (\<lambda>Sc. map (\<lambda>(n, S). VarId S) (Symbols Sc)) Scs)"

definition scope_ok :: "nat \<Rightarrow> ResolverScope \<Rightarrow> bool" where
  "scope_ok i Sc \<longleftrightarrow> Depth Sc = i \<and> Parent Sc = (if i = 0 then None else Some (i - 1)) \<and>
    distinct (map fst (Symbols Sc)) \<and> (\<forall>(n, S) \<in> set (Symbols Sc). VarName S = n \<and> ScopeDepth S = i)"

definition scopes_ok :: "ResolverScopeTable \<Rightarrow> bool" where
  "scopes_ok T \<longleftrightarrow> length (ScopeStack T) = CurDepth T + 1 \<and>
    (\<forall>i < length (ScopeStack T). scope_ok i (ScopeStack T ! i)) \<and>
    distinct (table_ids (ScopeStack T)) \<and> (\<forall>v \<in> set (table_ids (ScopeStack T)). v < NextSymbol T)"

lemma scopes_ok_nonempty: "scopes_ok T \<Longrightarrow> ScopeStack T \<noteq> []"
  by (auto simp: scopes_ok_def)

lemma table_ids_append [simp]: "table_ids (xs @ ys) = table_ids xs @ table_ids ys"
  by (simp add: table_ids_def)

lemma new_table_ok: "scopes_ok newScopeTable"
  by (simp add: scopes_ok_def newScopeTable_def table_ids_def scope_ok_def)

lemma scope_enter_ok: "scopes_ok T \<Longrightarrow> scopes_ok (enterScope T)"
  by (auto simp: scopes_ok_def enterScope_def table_ids_def scope_ok_def nth_append less_Suc_eq)

lemma exit_ok:
  assumes "scopes_ok T"
  shows "scopes_ok (exitScope T)"
proof -
  obtain Scs Sc where s: "ScopeStack T = Scs @ [Sc]" using scopes_ok_nonempty [OF assms] by (cases "ScopeStack T" rule: rev_cases) auto
  have "Scs ! i = ScopeStack T ! i" if "i < length Scs" for i using that s by (simp add: nth_append)
  then show ?thesis using assms s by (auto simp: scopes_ok_def exitScope_def) 
qed

lemma declared:
  assumes "scopes_ok T" and "declareVariable Name Ty Loc Imm Par T = Inr (Sym, T')"
  shows "scopes_ok T' \<and> Sym = make_symbol T Name Ty Loc Imm Par \<and>
    T' = T\<lparr>ScopeStack := butlast (ScopeStack T) @ [add_symbol Name Sym (last (ScopeStack T))], NextSymbol := NextSymbol T + 1\<rparr> \<and>
    \<not> has_name Name (last (ScopeStack T))"
proof -
  obtain Scs Sc where s: "ScopeStack T = Scs @ [Sc]" using scopes_ok_nonempty [OF assms(1)] by (cases "ScopeStack T" rule: rev_cases) auto
  have new: "\<not> has_name Name Sc" "Sym = make_symbol T Name Ty Loc Imm Par"
    "T' = T\<lparr>ScopeStack := Scs @ [add_symbol Name Sym Sc], NextSymbol := NextSymbol T + 1\<rparr>"
    using assms(2) s by (auto simp: declareVariable_def Let_def split: if_split_asm)
  have ok: "\<forall>i < Suc (length Scs). scope_ok i ((Scs @ [Sc]) ! i)" "length Scs = CurDepth T"
    "distinct (table_ids Scs @ table_ids [Sc])" "\<forall>v \<in> set (table_ids Scs @ table_ids [Sc]). v < NextSymbol T"
    using assms(1) s by (auto simp: scopes_ok_def)
  have "scope_ok (length Scs) Sc" using ok(1) by (metis lessI nth_append_length)
  then have "scope_ok (length Scs) (add_symbol Name Sym Sc)"
    using new(1) ok(2) by (auto simp: scope_ok_def add_symbol_def new(2) make_symbol_def has_name_def map_of_eq_None_iff image_iff)
  moreover have "table_ids [add_symbol Name Sym Sc] = NextSymbol T # table_ids [Sc]"
    by (simp add: table_ids_def add_symbol_def new(2) make_symbol_def)
  ultimately have "scopes_ok T'" using ok by (auto simp: scopes_ok_def new(3) nth_append less_Suc_eq)
  then show ?thesis using new s by simp
qed

lemma reset_ok: "scopes_ok T \<Longrightarrow> scopes_ok (resetToDepth d T)"
proof (induction d T rule: resetToDepth.induct)
  case (1 d T)
  then show ?case using exit_ok [of T] by (simp add: resetToDepth.simps [of d T])
qed

section \<open>Scopes as environments\<close>

definition scope_env :: "ResolverScope \<Rightarrow> string \<rightharpoonup> ScopeSymbol" where
  "scope_env Sc = map_of (Symbols Sc)"

definition table_envs :: "ResolverScopeTable \<Rightarrow> ScopeSymbol environments" where
  "table_envs T = map scope_env (rev (ScopeStack T))"

lemma lookup_from_envs: "lookup_from Name Scs = lookup_env (map scope_env Scs) Name"
  by (induction Scs) (simp_all add: lookupLocal_def scope_env_def split: option.split)

lemma lookup_table: "lookupVariable Name T = lookup_env (table_envs T) Name"
  by (simp add: lookupVariable_def lookup_from_envs table_envs_def)

text \<open>A declaration by a client that reports a failed one and goes on.\<close>

definition try_declare :: "string \<Rightarrow> TurfType option \<times> SourceLocation \<times> bool \<times> bool \<Rightarrow> ResolverScopeTable \<Rightarrow> ResolverScopeTable" where
  "try_declare Name d T = (case d of (Ty, Loc, Immutable, Parameter) \<Rightarrow>
     case declareVariable Name Ty Loc Immutable Parameter T of Inl e \<Rightarrow> T | Inr (Sym, T') \<Rightarrow> T')"

lemma table_envs_last: "ScopeStack T = Scs @ [Sc] \<Longrightarrow> table_envs T = scope_env Sc # map scope_env (rev Scs)"
  by (simp add: table_envs_def)

lemma try_declare_cases:
  assumes "scopes_ok T"
  obtains "try_declare Name d T = T"
  | Sym where "try_declare Name d T =
      T\<lparr>ScopeStack := butlast (ScopeStack T) @ [add_symbol Name Sym (last (ScopeStack T))], NextSymbol := NextSymbol T + 1\<rparr>"
    and "scopes_ok (try_declare Name d T)"
proof (cases d)
  case (fields Ty Loc Imm Par)
  show thesis
  proof (cases "declareVariable Name Ty Loc Imm Par T")
    case (Inl e)
    then show thesis using that(1) fields by (simp add: try_declare_def)
  next
    case (Inr r)
    obtain Sym T' where r: "r = (Sym, T')" by (cases r)
    have same: "try_declare Name d T = T'" using Inr r fields by (simp add: try_declare_def)
    show thesis by (rule that(2) [of Sym]) (use declared [OF assms, of Name Ty Loc Imm Par Sym T'] Inr r same in metis)+
  qed
qed

lemma try_declare_dom:
  assumes "scopes_ok T"
  shows "map dom (table_envs (try_declare Name d T)) = insert Name (dom (hd (table_envs T))) # map dom (tl (table_envs T))"
proof -
  obtain Scs Sc where s: "ScopeStack T = Scs @ [Sc]" using scopes_ok_nonempty [OF assms] by (cases "ScopeStack T" rule: rev_cases) auto
  have e: "table_envs T = scope_env Sc # map scope_env (rev Scs)" by (rule table_envs_last [OF s])
  obtain Ty Loc Imm Par where d: "d = (Ty, Loc, Imm, Par)" by (cases d)
  show ?thesis
  proof (cases "has_name Name Sc")
    case True
    then have "try_declare Name d T = T" using s by (simp add: d try_declare_def declareVariable_def Let_def)
    then show ?thesis using True by (simp add: e insert_absorb has_name_def scope_env_def dom_def)
  next
    case False
    then have "ScopeStack (try_declare Name d T) = Scs @ [add_symbol Name (make_symbol T Name Ty Loc Imm Par) Sc]"
      using s by (simp add: d try_declare_def declareVariable_def Let_def)
    from table_envs_last [OF this] show ?thesis by (simp add: e scope_env_def add_symbol_def)
  qed
qed

interpretation resolver_scopes: scope_stack enterScope exitScope try_declare table_envs Map.empty scopes_ok
proof
  fix t :: ResolverScopeTable and x d
  assume ok: "scopes_ok t"
  obtain Scs Sc where s: "ScopeStack t = Scs @ [Sc]" using scopes_ok_nonempty [OF ok] by (cases "ScopeStack t" rule: rev_cases) auto
  show "scopes_ok (enterScope t)" by (rule scope_enter_ok [OF ok])
  show "table_envs (enterScope t) = Map.empty # table_envs t" by (simp add: table_envs_def enterScope_def scope_env_def)
  show "table_envs t \<noteq> []" by (simp add: table_envs_def s)
  show "scopes_ok (try_declare x d t)" using ok by (cases rule: try_declare_cases [OF ok, of x d]) auto
  show "tl (table_envs (try_declare x d t)) = tl (table_envs t) \<and> table_envs (try_declare x d t) \<noteq> []"
    by (cases rule: try_declare_cases [OF ok, of x d]) (auto simp: table_envs_def s)
next
  fix t :: ResolverScopeTable
  assume ok: "scopes_ok t" and two: "2 \<le> length (table_envs t)"
  show "scopes_ok (exitScope t)" by (rule exit_ok [OF ok])
  obtain Scs Sc where "ScopeStack t = Scs @ [Sc]" using scopes_ok_nonempty [OF ok] by (cases "ScopeStack t" rule: rev_cases) auto
  then show "table_envs (exitScope t) = tl (table_envs t)" using two by (auto simp: table_envs_def exitScope_def)
qed

section \<open>What the Resolver relies on\<close>

inductive scope_run :: "ResolverScopeTable \<Rightarrow> bool" where
  start: "scope_run newScopeTable"
| enter: "scope_run T \<Longrightarrow> scope_run (enterScope T)"
| leave: "scope_run T \<Longrightarrow> scope_run (exitScope T)"
| reset: "scope_run T \<Longrightarrow> scope_run (resetToDepth d T)"
| declares: "scope_run T \<Longrightarrow> declareVariable Name Ty Loc Imm Par T = Inr (Sym, T') \<Longrightarrow> scope_run T'"

lemma run_scopes_ok: "scope_run T \<Longrightarrow> scopes_ok T"
  by (induction rule: scope_run.induct) (auto intro: new_table_ok scope_enter_ok exit_ok reset_ok dest: declared)

text \<open>
  C24. In every table the Resolver can build, the depth of a scope is its place in the stack and its parent the scope
  before it, a name has one symbol in a scope, a symbol carries the name it is found under and the depth of its
  scope, and no symbol is in the table twice.
\<close>

theorem scope_table_invariant:
  assumes "scope_run T"
  shows "length (ScopeStack T) = CurDepth T + 1 \<and>
    (\<forall>i < length (ScopeStack T). let Sc = ScopeStack T ! i in
       Depth Sc = i \<and> Parent Sc = (if i = 0 then None else Some (i - 1)) \<and> distinct (map fst (Symbols Sc)) \<and>
       (\<forall>(n, S) \<in> set (Symbols Sc). VarName S = n \<and> ScopeDepth S = i)) \<and>
    distinct (concat (map (\<lambda>Sc. map (\<lambda>(n, S). VarId S) (Symbols Sc)) (ScopeStack T)))"
  using run_scopes_ok [OF assms] by (simp add: scopes_ok_def scope_ok_def table_ids_def Let_def)

lemma lookup_from_in: "lookup_from y Scs = Some S \<Longrightarrow> \<exists>Sc \<in> set Scs. (y, S) \<in> set (Symbols Sc)"
  by (induction Scs) (auto simp: lookupLocal_def split: option.split_asm dest: map_of_SomeD)

text \<open>
  C25. A declaration fails exactly when the innermost scope has the name already, whatever outer scopes have; when
  it succeeds the name stands for the new symbol, which no name stood for before, and every other name for what it
  stood for before.
\<close>

theorem declaration_effect:
  assumes "scope_run T"
  shows "case declareVariable Name Ty Loc Imm Par T of
      Inl e \<Rightarrow> isDeclaredInCurrentScope Name T
    | Inr (Sym, T') \<Rightarrow> \<not> isDeclaredInCurrentScope Name T \<and> lookupVariable Name T' = Some Sym \<and>
        (\<forall>y. y \<noteq> Name \<longrightarrow> lookupVariable y T' = lookupVariable y T) \<and>
        (\<forall>y S. lookupVariable y T = Some S \<longrightarrow> VarId S \<noteq> VarId Sym)"
proof -
  have ok: "scopes_ok T" by (rule run_scopes_ok [OF assms])
  obtain Scs Sc where s: "ScopeStack T = Scs @ [Sc]" using scopes_ok_nonempty [OF ok] by (cases "ScopeStack T" rule: rev_cases) auto
  have known: "VarId S < NextSymbol T" if "lookupVariable y T = Some S" for y S
  proof -
    have "\<exists>Sc' \<in> set (ScopeStack T). (y, S) \<in> set (Symbols Sc')"
      using lookup_from_in [of y "rev (ScopeStack T)" S] that by (simp add: lookupVariable_def)
    then show ?thesis using ok by (force simp: scopes_ok_def table_ids_def)
  qed
  show ?thesis
  proof (cases "declareVariable Name Ty Loc Imm Par T")
    case (Inl e)
    then show ?thesis using s by (auto simp: declareVariable_def isDeclaredInCurrentScope_def Let_def split: if_split_asm)
  next
    case (Inr r)
    obtain Sym T' where r: "r = (Sym, T')" by (cases r)
    have d: "Sym = make_symbol T Name Ty Loc Imm Par" "\<not> has_name Name Sc"
      "T' = T\<lparr>ScopeStack := Scs @ [add_symbol Name Sym Sc], NextSymbol := NextSymbol T + 1\<rparr>"
      using declared [OF ok, of Name Ty Loc Imm Par Sym T'] Inr r s by auto
    have "VarId Sym = NextSymbol T" by (simp add: d(1) make_symbol_def)
    then have "lookupVariable y T = Some S \<Longrightarrow> VarId S \<noteq> VarId Sym" for y S using known by fastforce
    then show ?thesis using Inr r d(2) s
      by (auto simp: d(3) isDeclaredInCurrentScope_def lookupVariable_def lookupLocal_def add_symbol_def)
  qed
qed

text \<open>
  C26. A block of a body, with the blocks inside it, changes nothing outside: after it every name stands for the
  symbol it stood for before, and names that only the block declared stand for nothing.
\<close>

theorem block_is_local:
  assumes "scope_run T"
  shows "lookupVariable Name (scoped_run enterScope exitScope try_declare (Block ss) T) = lookupVariable Name T"
  using resolver_scopes.block_restores [OF run_scopes_ok [OF assms]] by (simp add: lookup_table)

lemma note_name_set [simp]: "set (note_name n Names) = insert n (set Names)"
  by (auto simp: note_name_def)

lemma note_name_distinct [simp]: "distinct (note_name n Names) \<longleftrightarrow> distinct Names"
  by (auto simp: note_name_def)

lemma visible_names_fold:
  "distinct Names \<Longrightarrow> distinct (fold (\<lambda>(Name, Sym). note_name Name) xs Names) \<and>
    set (fold (\<lambda>(Name, Sym). note_name Name) xs Names) = set Names \<union> fst ` set xs"
  by (induction xs arbitrary: Names) (simp_all add: case_prod_beta)

text \<open>
  The names that suggestions are made from are exactly the names that stand for a symbol, each once.
\<close>

theorem visible_names_exact:
  "distinct (getAllVisibleNames T) \<and> set (getAllVisibleNames T) = {Name. lookupVariable Name T \<noteq> None}"
proof -
  have "distinct Names \<Longrightarrow>
      distinct (fold (\<lambda>Sc. fold (\<lambda>(Name, Sym). note_name Name) (Symbols Sc)) Scs Names) \<and>
      set (fold (\<lambda>Sc. fold (\<lambda>(Name, Sym). note_name Name) (Symbols Sc)) Scs Names) =
        set Names \<union> {Name. lookup_from Name Scs \<noteq> None}" for Scs Names
  proof (induction Scs arbitrary: Names)
    case (Cons Sc Scs)
    have "{Name. lookup_from Name (Sc # Scs) \<noteq> None} = fst ` set (Symbols Sc) \<union> {Name. lookup_from Name Scs \<noteq> None}"
      by (auto simp: lookupLocal_def map_of_eq_None_iff split: option.splits dest: map_of_SomeD intro: rev_image_eqI)
    then show ?case using Cons.IH visible_names_fold [OF Cons.prems, of "Symbols Sc"] by auto
  qed simp
  from this [of "[]" "rev (ScopeStack T)"] show ?thesis by (simp add: getAllVisibleNames_def lookupVariable_def)
qed

section \<open>A function and a block in it\<close>

definition sample_loc :: SourceLocation where
  "sample_loc = loc3 1 1 []"

definition sample_scopes :: ResolverScopeTable where
  "sample_scopes = try_declare ''x'' (Some IntType, sample_loc, False, True) (enterScope newScopeTable)"

lemma sample_run: "scope_run sample_scopes"
proof -
  have "declareVariable ''x'' (Some IntType) sample_loc False True (enterScope newScopeTable) = Inr
      (make_symbol (enterScope newScopeTable) ''x'' (Some IntType) sample_loc False True, sample_scopes)"
    by (simp add: sample_scopes_def try_declare_def declareVariable_def enterScope_def newScopeTable_def has_name_def Let_def)
  then show ?thesis by (rule declares [OF enter [OF start]])
qed

theorem scope_table_invariant_witness: "length (ScopeStack sample_scopes) = 2 \<and> distinct (map fst (Symbols (ScopeStack sample_scopes ! 1)))"
proof -
  have "CurDepth sample_scopes = 1"
    by (simp add: sample_scopes_def try_declare_def declareVariable_def enterScope_def newScopeTable_def has_name_def Let_def)
  then show ?thesis using scope_table_invariant [OF sample_run] by (simp add: Let_def)
qed

theorem declaration_effect_witness:
  "(\<exists>e. declareVariable ''x'' None sample_loc False False sample_scopes = Inl e) \<and>
   (\<exists>S T'. declareVariable ''y'' None sample_loc False False sample_scopes = Inr (S, T') \<and>
      lookupVariable ''y'' T' = Some S \<and> lookupVariable ''x'' T' \<noteq> None)"
proof -
  have here: "isDeclaredInCurrentScope ''x'' sample_scopes" "\<not> isDeclaredInCurrentScope ''y'' sample_scopes"
      "lookupVariable ''x'' sample_scopes \<noteq> None"
    by (simp_all add: sample_scopes_def try_declare_def declareVariable_def enterScope_def newScopeTable_def has_name_def Let_def
        isDeclaredInCurrentScope_def add_symbol_def lookupVariable_def lookupLocal_def)
  from declaration_effect [OF sample_run, of "''x''" None sample_loc False False] here(1)
  have "\<exists>e. declareVariable ''x'' None sample_loc False False sample_scopes = Inl e" by (auto split: sum.split_asm)
  moreover from declaration_effect [OF sample_run, of "''y''" None sample_loc False False] here(2,3)
  have "\<exists>S T'. declareVariable ''y'' None sample_loc False False sample_scopes = Inr (S, T') \<and>
      lookupVariable ''y'' T' = Some S \<and> lookupVariable ''x'' T' \<noteq> None" by (fastforce split: sum.split_asm)
  ultimately show ?thesis ..
qed

theorem block_is_local_witness:
  "lookupVariable ''y'' (scoped_run enterScope exitScope try_declare
      (Block [Declares ''y'' (None, sample_loc, False, False), Block [Declares ''x'' (None, sample_loc, True, False)]])
      sample_scopes) = None"
proof -
  have "lookupVariable ''y'' sample_scopes = None"
    by (simp add: sample_scopes_def try_declare_def declareVariable_def enterScope_def newScopeTable_def has_name_def Let_def
        add_symbol_def lookupVariable_def lookupLocal_def)
  then show ?thesis by (simp only: block_is_local [OF sample_run])
qed

end
