(* ===== verification/CodegenScopes.thy ===== *)
theory CodegenScopes
  imports ScopeTable "HOL-Library.AList"
begin

text \<open>
  The symbol table of the code generator (\<open>src/src/resolve/SymbolTable.h\<close>, \<open>SymbolTable.cpp\<close>): a stack of scopes
  that map names to identifiers, and one map from identifiers to symbols for all scopes. The memory location of a
  symbol is an LLVM pointer, which the table only stores; it is a type parameter.
\<close>

section \<open>The table\<close>

record 'alloca TableSymbol =
  SymID :: nat
  SymName :: string
  SymType :: "TurfType option"
  SymDeclLoc :: SourceLocation
  SymAlloca :: 'alloca
  SymLevel :: nat

record CodegenScope =
  Level :: nat
  ScopeNames :: "(string \<times> nat) list"
  ScopeTypes :: "(string \<times> TurfType) list"
  HasEarlyExit :: bool

record 'alloca CodegenTable =
  CgScopes :: "CodegenScope list"
  AllSymbols :: "(nat \<times> 'alloca TableSymbol) list"
  NextID :: nat
  CurrentModule :: string
  ModuleStack :: "string list"

definition new_scope :: "nat \<Rightarrow> CodegenScope" where
  "new_scope L = \<lparr>Level = L, ScopeNames = [], ScopeTypes = [], HasEarlyExit = False\<rparr>"

definition EnterScope :: "'a CodegenTable \<Rightarrow> 'a CodegenTable" where
  "EnterScope T = T\<lparr>CgScopes := CgScopes T @ [new_scope (length (CgScopes T))]\<rparr>"

definition newSymbolTable :: "'a CodegenTable" where
  "newSymbolTable = EnterScope \<lparr>CgScopes = [], AllSymbols = [], NextID = 1, CurrentModule = [], ModuleStack = []\<rparr>"

definition erase_all :: "nat list \<Rightarrow> (nat \<times> 'a TableSymbol) list \<Rightarrow> (nat \<times> 'a TableSymbol) list" where
  "erase_all ids M = fold AList.delete ids M"

definition ExitScope :: "'a CodegenTable \<Rightarrow> 'a CodegenTable" where
  "ExitScope T = (if CgScopes T = [] then T
     else T\<lparr>AllSymbols := erase_all (map snd (ScopeNames (last (CgScopes T)))) (AllSymbols T),
            CgScopes := butlast (CgScopes T)\<rparr>)"

definition EnterModule :: "string \<Rightarrow> 'a CodegenTable \<Rightarrow> 'a CodegenTable" where
  "EnterModule ModuleName T = T\<lparr>ModuleStack := ModuleStack T @ [CurrentModule T], CurrentModule := ModuleName\<rparr>"

definition ExitModule :: "'a CodegenTable \<Rightarrow> 'a CodegenTable" where
  "ExitModule T = (if ModuleStack T = [] then T
     else T\<lparr>CurrentModule := last (ModuleStack T), ModuleStack := butlast (ModuleStack T)\<rparr>)"

definition on_innermost :: "(CodegenScope \<Rightarrow> CodegenScope) \<Rightarrow> 'a CodegenTable \<Rightarrow> 'a CodegenTable" where
  "on_innermost f T = T\<lparr>CgScopes := butlast (CgScopes T) @ [f (last (CgScopes T))]\<rparr>"

definition with_a_scope :: "'a CodegenTable \<Rightarrow> 'a CodegenTable" where
  "with_a_scope T = (if CgScopes T = [] then EnterScope T else T)"

definition DeclareSymbol ::
    "string \<Rightarrow> TurfType option \<Rightarrow> SourceLocation \<Rightarrow> 'a \<Rightarrow> 'a CodegenTable \<Rightarrow> nat \<times> 'a CodegenTable" where
  "DeclareSymbol Name Ty Loc Alloca T0 =
    (let T = with_a_scope T0; ID = NextID T; L = length (CgScopes T) - 1;
         T1 = on_innermost (\<lambda>Sc. Sc\<lparr>ScopeNames := AList.update Name ID (ScopeNames Sc)\<rparr>) (T\<lparr>NextID := ID + 1\<rparr>)
     in (ID, T1\<lparr>AllSymbols := (if map_of (AllSymbols T1) ID = None
           then (ID, \<lparr>SymID = ID, SymName = Name, SymType = Ty, SymDeclLoc = Loc, SymAlloca = Alloca, SymLevel = L\<rparr>) # AllSymbols T1
           else AllSymbols T1)\<rparr>))"

text \<open>A name whose identifier has no symbol is skipped, and the search goes on outwards.\<close>

fun find_symbol :: "(nat \<times> 'a TableSymbol) list \<Rightarrow> string \<Rightarrow> CodegenScope list \<Rightarrow> 'a TableSymbol option" where
  "find_symbol Syms Name [] = None"
| "find_symbol Syms Name (Sc # Scs) = (case map_of (ScopeNames Sc) Name of
      Some ID \<Rightarrow> (case map_of Syms ID of Some S \<Rightarrow> Some S | None \<Rightarrow> find_symbol Syms Name Scs)
    | None \<Rightarrow> find_symbol Syms Name Scs)"

definition LookupSymbol :: "string \<Rightarrow> 'a CodegenTable \<Rightarrow> 'a TableSymbol option" where
  "LookupSymbol Name T = find_symbol (AllSymbols T) Name (rev (CgScopes T))"

definition LookupSymbolInCurrentScope :: "string \<Rightarrow> 'a CodegenTable \<Rightarrow> 'a TableSymbol option" where
  "LookupSymbolInCurrentScope Name T = (if CgScopes T = [] then None
     else case map_of (ScopeNames (last (CgScopes T))) Name of Some ID \<Rightarrow> map_of (AllSymbols T) ID | None \<Rightarrow> None)"

definition FindShadowedSymbol :: "string \<Rightarrow> 'a CodegenTable \<Rightarrow> 'a TableSymbol option" where
  "FindShadowedSymbol Name T = (if length (CgScopes T) \<le> 1 then None
     else find_symbol (AllSymbols T) Name (tl (rev (CgScopes T))))"

definition IsSymbolInCurrentScope :: "string \<Rightarrow> 'a CodegenTable \<Rightarrow> bool" where
  "IsSymbolInCurrentScope Name T = (if CgScopes T = [] then False
     else map_of (ScopeNames (last (CgScopes T))) Name \<noteq> None)"

definition RegisterType :: "string \<Rightarrow> TurfType \<Rightarrow> 'a CodegenTable \<Rightarrow> 'a CodegenTable" where
  "RegisterType Name Ty T =
    on_innermost (\<lambda>Sc. Sc\<lparr>ScopeTypes := AList.update Name Ty (ScopeTypes Sc)\<rparr>) (with_a_scope T)"

definition RegisterGlobalType :: "string \<Rightarrow> TurfType \<Rightarrow> 'a CodegenTable \<Rightarrow> 'a CodegenTable" where
  "RegisterGlobalType Name Ty T0 = (let T = with_a_scope T0 in
     T\<lparr>CgScopes := (hd (CgScopes T))\<lparr>ScopeTypes := AList.update Name Ty (ScopeTypes (hd (CgScopes T)))\<rparr> # tl (CgScopes T)\<rparr>)"

fun find_type :: "string \<Rightarrow> CodegenScope list \<Rightarrow> TurfType option" where
  "find_type Name [] = None"
| "find_type Name (Sc # Scs) = (case map_of (ScopeTypes Sc) Name of Some Ty \<Rightarrow> Some Ty | None \<Rightarrow> find_type Name Scs)"

definition LookupType :: "string \<Rightarrow> 'a CodegenTable \<Rightarrow> TurfType option" where
  "LookupType Name T = find_type Name (rev (CgScopes T))"

definition MarkEarlyExit :: "'a CodegenTable \<Rightarrow> 'a CodegenTable" where
  "MarkEarlyExit T = (if CgScopes T = [] then T else on_innermost (\<lambda>Sc. Sc\<lparr>HasEarlyExit := True\<rparr>) T)"

definition CurrentScopeHasEarlyExit :: "'a CodegenTable \<Rightarrow> bool" where
  "CurrentScopeHasEarlyExit T = (if CgScopes T = [] then False else HasEarlyExit (last (CgScopes T)))"

definition ResetEarlyExitForCurrentScope :: "'a CodegenTable \<Rightarrow> 'a CodegenTable" where
  "ResetEarlyExitForCurrentScope T = (if CgScopes T = [] then T else on_innermost (\<lambda>Sc. Sc\<lparr>HasEarlyExit := False\<rparr>) T)"

function ResetToDepth :: "nat \<Rightarrow> 'a CodegenTable \<Rightarrow> 'a CodegenTable" where
  "ResetToDepth TargetDepth T = (if TargetDepth < length (CgScopes T) then ResetToDepth TargetDepth (ExitScope T) else T)"
  by pat_completeness auto
termination
  by (relation "measure (\<lambda>(d, T). length (CgScopes T))") (auto simp: ExitScope_def)

declare ResetToDepth.simps [simp del]

section \<open>Scopes as environments\<close>

definition cg_env :: "(nat \<times> 'a TableSymbol) list \<Rightarrow> CodegenScope \<Rightarrow> string \<rightharpoonup> 'a TableSymbol" where
  "cg_env Syms Sc = (\<lambda>x. case map_of (ScopeNames Sc) x of Some ID \<Rightarrow> map_of Syms ID | None \<Rightarrow> None)"

definition cg_envs :: "'a CodegenTable \<Rightarrow> 'a TableSymbol environments" where
  "cg_envs T = map (cg_env (AllSymbols T)) (rev (CgScopes T))"

definition scope_ids :: "CodegenScope list \<Rightarrow> nat list" where
  "scope_ids Scs = concat (map (\<lambda>Sc. map snd (ScopeNames Sc)) Scs)"

definition cg_good :: "'a CodegenTable \<Rightarrow> bool" where
  "cg_good T \<longleftrightarrow> distinct (scope_ids (CgScopes T)) \<and>
    (\<forall>Sc \<in> set (CgScopes T). distinct (map fst (ScopeNames Sc))) \<and>
    (\<forall>i \<in> set (scope_ids (CgScopes T)). i < NextID T \<and> map_of (AllSymbols T) i \<noteq> None) \<and>
    (\<forall>i. NextID T \<le> i \<longrightarrow> map_of (AllSymbols T) i = None)"

definition cg_ok :: "'a CodegenTable \<Rightarrow> bool" where
  "cg_ok T \<longleftrightarrow> CgScopes T \<noteq> [] \<and> cg_good T"

lemma scope_ids_append [simp]: "scope_ids (xs @ ys) = scope_ids xs @ scope_ids ys"
  by (simp add: scope_ids_def)

lemma scope_ids_one [simp]: "scope_ids [Sc] = map snd (ScopeNames Sc)"
  by (simp add: scope_ids_def)

lemma find_symbol_envs: "find_symbol Syms Name Scs = lookup_env (map (cg_env Syms) Scs) Name"
  by (induction Scs) (simp_all add: cg_env_def split: option.split)

lemma lookup_symbol_envs: "LookupSymbol Name T = lookup_env (cg_envs T) Name"
  by (simp add: LookupSymbol_def find_symbol_envs cg_envs_def)

lemma map_of_erase_all: "map_of (erase_all ids M) i = (if i \<in> set ids then None else map_of M i)"
  unfolding erase_all_def by (induction ids arbitrary: M) (auto simp: AList.delete_conv')

lemma scope_ids_in: "Sc \<in> set Scs \<Longrightarrow> map_of (ScopeNames Sc) x = Some ID \<Longrightarrow> ID \<in> set (scope_ids Scs)"
  by (force simp: scope_ids_def dest: map_of_SomeD)

lemma cg_env_cong:
  assumes "\<And>ID. ID \<in> snd ` set (ScopeNames Sc) \<Longrightarrow> map_of Syms ID = map_of Syms' ID"
  shows "cg_env Syms Sc = cg_env Syms' Sc"
  using assms by (auto simp: cg_env_def fun_eq_iff split: option.split dest!: map_of_SomeD) force

lemma cg_enter: "cg_good T \<Longrightarrow> cg_ok (EnterScope T)"
  by (auto simp: cg_ok_def cg_good_def EnterScope_def new_scope_def)

lemma cg_exit:
  assumes "cg_good T" and "CgScopes T = Scs @ [Sc]"
  shows "cg_good (ExitScope T) \<and> cg_envs (ExitScope T) = map (cg_env (AllSymbols T)) (rev Scs)"
proof -
  have d: "set (scope_ids Scs) \<inter> set (map snd (ScopeNames Sc)) = {}" using assms(1,2) by (auto simp: cg_ok_def cg_good_def)
  have keep: "map_of (erase_all (map snd (ScopeNames Sc)) (AllSymbols T)) i = map_of (AllSymbols T) i" if "i \<in> set (scope_ids Scs)" for i
    using that d by (auto simp: map_of_erase_all)
  have "cg_env (erase_all (map snd (ScopeNames Sc)) (AllSymbols T)) S = cg_env (AllSymbols T) S" if "S \<in> set Scs" for S
    by (rule cg_env_cong, rule keep) (use that in \<open>force simp: scope_ids_def\<close>)
  then have "cg_envs (ExitScope T) = map (cg_env (AllSymbols T)) (rev Scs)"
    using assms(2) by (simp add: cg_envs_def ExitScope_def)
  moreover have "cg_good (ExitScope T)"
    using assms keep by (auto simp: cg_ok_def cg_good_def ExitScope_def map_of_erase_all)
  ultimately show ?thesis by simp
qed

lemma update_values:
  "snd ` set (AList.update k v xs) \<subseteq> insert v (snd ` set xs) \<and>
   (distinct (map snd xs) \<and> v \<notin> snd ` set xs \<longrightarrow> distinct (map snd (AList.update k v xs)))"
  by (induction xs) auto

text \<open>Declarations by the code generator.\<close>

definition cg_declare :: "string \<Rightarrow> TurfType option \<times> SourceLocation \<times> 'a \<Rightarrow> 'a CodegenTable \<Rightarrow> 'a CodegenTable" where
  "cg_declare Name d T = (case d of (Ty, Loc, Alloca) \<Rightarrow> snd (DeclareSymbol Name Ty Loc Alloca T))"

lemma cg_declare_fields:
  assumes "cg_ok T" and "CgScopes T = Scs @ [Sc]"
  obtains S where "CgScopes (cg_declare Name (Ty, Loc, A) T) = Scs @ [Sc\<lparr>ScopeNames := AList.update Name (NextID T) (ScopeNames Sc)\<rparr>]"
    and "AllSymbols (cg_declare Name (Ty, Loc, A) T) = (NextID T, S) # AllSymbols T"
    and "NextID (cg_declare Name (Ty, Loc, A) T) = NextID T + 1" and "SymName S = Name" and "SymID S = NextID T"
proof -
  have "map_of (AllSymbols T) (NextID T) = None" using assms(1) by (simp add: cg_ok_def cg_good_def)
  then show thesis
    using that [of "\<lparr>SymID = NextID T, SymName = Name, SymType = Ty, SymDeclLoc = Loc, SymAlloca = A, SymLevel = length (CgScopes T) - 1\<rparr>"]
      assms(2) by (simp add: cg_declare_def DeclareSymbol_def with_a_scope_def on_innermost_def Let_def)
qed

lemma cg_declare:
  assumes "cg_ok T" and "CgScopes T = Scs @ [Sc]"
  shows "cg_ok (cg_declare Name d T) \<and> (\<exists>S. SymName S = Name \<and> SymID S = NextID T \<and>
    cg_envs (cg_declare Name d T) = (cg_env (AllSymbols T) Sc)(Name \<mapsto> S) # map (cg_env (AllSymbols T)) (rev Scs))"
proof -
  obtain Ty Loc A where d: "d = (Ty, Loc, A)" by (cases d)
  let ?T = "cg_declare Name (Ty, Loc, A) T" and ?Sc = "Sc\<lparr>ScopeNames := AList.update Name (NextID T) (ScopeNames Sc)\<rparr>"
  obtain S where f: "CgScopes ?T = Scs @ [?Sc]" "AllSymbols ?T = (NextID T, S) # AllSymbols T" "NextID ?T = NextID T + 1"
      "SymName S = Name" "SymID S = NextID T" by (rule cg_declare_fields [OF assms])
  have fresh: "NextID T \<notin> set (scope_ids (CgScopes T))" using assms(1) by (auto simp: cg_ok_def cg_good_def)
  have old: "cg_env (AllSymbols ?T) S' = cg_env (AllSymbols T) S'" if "S' \<in> set (CgScopes T)" for S'
    by (rule cg_env_cong) (use that fresh f(2) in \<open>force simp: scope_ids_def\<close>)
  have new: "cg_env (AllSymbols ?T) ?Sc = (cg_env (AllSymbols T) Sc)(Name \<mapsto> S)"
    using old [of Sc] assms(2) f(2) by (auto simp: cg_env_def fun_eq_iff update_conv')
  let ?ns = "map snd (AList.update Name (NextID T) (ScopeNames Sc))"
  have ids: "set ?ns \<subseteq> insert (NextID T) (set (map snd (ScopeNames Sc)))" "distinct ?ns"
    using update_values [of Name "NextID T" "ScopeNames Sc"] fresh assms by (auto simp: cg_ok_def cg_good_def)
  have "cg_ok ?T" unfolding cg_ok_def cg_good_def f(1-3)
  proof (intro conjI ballI allI impI)
    have "distinct (scope_ids Scs)" "set (scope_ids Scs) \<inter> insert (NextID T) (set (map snd (ScopeNames Sc))) = {}"
      using fresh assms by (auto simp: cg_ok_def cg_good_def)
    moreover from this have "set (scope_ids Scs) \<inter> set ?ns = {}" using ids(1) by blast
    ultimately show "distinct (scope_ids (Scs @ [?Sc]))" using ids(2) by simp
    show "distinct (map fst (ScopeNames S'))" if "S' \<in> set (Scs @ [?Sc])" for S'
      using that assms by (auto simp: cg_ok_def cg_good_def distinct_update)
    show "i < NextID T + 1" "map_of ((NextID T, S) # AllSymbols T) i \<noteq> None" if "i \<in> set (scope_ids (Scs @ [?Sc]))" for i
    proof -
      have "i = NextID T \<or> i \<in> set (scope_ids (CgScopes T))" using that ids(1) assms(2) by auto
      then show "i < NextID T + 1" "map_of ((NextID T, S) # AllSymbols T) i \<noteq> None" using assms(1) by (auto simp: cg_ok_def cg_good_def)
    qed
    show "map_of ((NextID T, S) # AllSymbols T) i = None" if "NextID T + 1 \<le> i" for i using that assms(1) by (simp add: cg_ok_def cg_good_def)
  qed simp
  moreover have "cg_envs ?T = (cg_env (AllSymbols T) Sc)(Name \<mapsto> S) # map (cg_env (AllSymbols T)) (rev Scs)"
    using old assms(2) by (simp add: cg_envs_def f(1) new)
  ultimately show ?thesis using f(4,5) d by blast
qed

text \<open>What the code generator does inside a scope: it declares, registers a type of the scope, or notes an early exit.\<close>

datatype 'a cg_event = Declared "TurfType option" SourceLocation 'a | TypeRegistered TurfType | EarlyExit

definition cg_event :: "string \<Rightarrow> 'a cg_event \<Rightarrow> 'a CodegenTable \<Rightarrow> 'a CodegenTable" where
  "cg_event Name d T = (case d of
      Declared Ty Loc A \<Rightarrow> cg_declare Name (Ty, Loc, A) T
    | TypeRegistered Ty \<Rightarrow> RegisterType Name Ty T
    | EarlyExit \<Rightarrow> MarkEarlyExit T)"

type_synonym 'a cg_frame = "(string \<rightharpoonup> 'a TableSymbol) \<times> (string \<rightharpoonup> TurfType) \<times> bool"

definition cg_frame :: "(nat \<times> 'a TableSymbol) list \<Rightarrow> CodegenScope \<Rightarrow> 'a cg_frame" where
  "cg_frame Syms Sc = (cg_env Syms Sc, map_of (ScopeTypes Sc), HasEarlyExit Sc)"

definition cg_frames :: "'a CodegenTable \<Rightarrow> 'a cg_frame list" where
  "cg_frames T = map (cg_frame (AllSymbols T)) (rev (CgScopes T))"

lemma cg_frames_parts: "cg_frames T = zip (cg_envs T) (map (\<lambda>Sc. (map_of (ScopeTypes Sc), HasEarlyExit Sc)) (rev (CgScopes T)))"
  by (simp add: cg_frames_def cg_envs_def cg_frame_def zip_map_map zip_same_conv_map)

text \<open>Events that touch neither names nor symbols.\<close>

definition same_names :: "'a CodegenTable \<Rightarrow> 'a CodegenTable \<Rightarrow> bool" where
  "same_names T T' \<longleftrightarrow> map ScopeNames (CgScopes T') = map ScopeNames (CgScopes T) \<and>
    AllSymbols T' = AllSymbols T \<and> NextID T' = NextID T"

lemma cg_good_names:
  "cg_good T \<longleftrightarrow> (let Ns = map ScopeNames (CgScopes T); ids = concat (map (map snd) Ns) in
    distinct ids \<and> list_all (\<lambda>ns. distinct (map fst ns)) Ns \<and>
    (\<forall>i \<in> set ids. i < NextID T \<and> map_of (AllSymbols T) i \<noteq> None) \<and>
    (\<forall>i. NextID T \<le> i \<longrightarrow> map_of (AllSymbols T) i = None))"
  by (simp add: cg_good_def scope_ids_def comp_def list_all_iff Let_def)

lemma same_names_good: "same_names T T' \<Longrightarrow> cg_good T' \<longleftrightarrow> cg_good T"
  by (simp add: same_names_def cg_good_names del: map_map)

lemma cg_envs_names:
  "cg_envs T = map (\<lambda>ns x. case map_of ns x of Some ID \<Rightarrow> map_of (AllSymbols T) ID | None \<Rightarrow> None) (rev (map ScopeNames (CgScopes T)))"
  by (simp add: cg_envs_def cg_env_def rev_map)

lemma same_names_envs: "same_names T T' \<Longrightarrow> cg_envs T' = cg_envs T"
  unfolding same_names_def cg_envs_names by (elim conjE) (simp only:)

lemma register_same: "CgScopes T \<noteq> [] \<Longrightarrow> same_names T (RegisterType Name Ty T)"
  by (cases "CgScopes T" rule: rev_cases) (auto simp: same_names_def RegisterType_def with_a_scope_def on_innermost_def)

lemma mark_same: "same_names T (MarkEarlyExit T)"
  by (cases "CgScopes T" rule: rev_cases) (auto simp: same_names_def MarkEarlyExit_def on_innermost_def)

lemma cg_event_ok:
  assumes "cg_ok T"
  shows "cg_ok (cg_event x d T) \<and> tl (cg_frames (cg_event x d T)) = tl (cg_frames T) \<and> cg_frames (cg_event x d T) \<noteq> []"
proof -
  obtain Scs Sc where s: "CgScopes T = Scs @ [Sc]" using assms by (cases "CgScopes T" rule: rev_cases) (auto simp: cg_ok_def)
  show ?thesis
  proof (cases d)
    case (Declared Ty Loc A)
    obtain S where f: "CgScopes (cg_declare x (Ty, Loc, A) T) = Scs @ [Sc\<lparr>ScopeNames := AList.update x (NextID T) (ScopeNames Sc)\<rparr>]"
      by (rule cg_declare_fields [OF assms s])
    have "map (cg_env (AllSymbols (cg_declare x (Ty, Loc, A) T))) (rev Scs) = map (cg_env (AllSymbols T)) (rev Scs)"
      using cg_declare [OF assms s, of x "(Ty, Loc, A)"] by (auto simp: cg_envs_def f)
    then have "tl (cg_frames (cg_declare x (Ty, Loc, A) T)) = tl (cg_frames T)" by (simp add: cg_frames_def f s cg_frame_def)
    then show ?thesis using cg_declare [OF assms s, of x "(Ty, Loc, A)"] by (auto simp: cg_event_def Declared cg_frames_def f)
  next
    case (TypeRegistered Ty)
    have "cg_ok (RegisterType x Ty T)"
      using same_names_good [OF register_same [of T x Ty]] assms s by (simp add: cg_ok_def RegisterType_def on_innermost_def)
    then show ?thesis using s
      by (simp add: cg_event_def TypeRegistered cg_frames_def RegisterType_def with_a_scope_def on_innermost_def)
  next
    case EarlyExit
    have "cg_ok (MarkEarlyExit T)"
      using same_names_good [OF mark_same [of T]] assms s by (simp add: cg_ok_def MarkEarlyExit_def on_innermost_def)
    then show ?thesis using s by (simp add: cg_event_def EarlyExit cg_frames_def MarkEarlyExit_def on_innermost_def)
  qed
qed

interpretation codegen_scopes: scope_stack EnterScope ExitScope cg_event cg_frames "(Map.empty, Map.empty, False)" cg_ok
proof
  fix t :: "'a CodegenTable" and x d
  assume ok: "cg_ok t"
  show "cg_ok (EnterScope t)" using ok by (intro cg_enter) (simp add: cg_ok_def)
  show "cg_frames (EnterScope t) = (Map.empty, Map.empty, False) # cg_frames t"
    by (simp add: cg_frames_def EnterScope_def new_scope_def cg_frame_def cg_env_def)
  show "cg_frames t \<noteq> []" using ok by (simp add: cg_frames_def cg_ok_def)
  show "cg_ok (cg_event x d t)" "tl (cg_frames (cg_event x d t)) = tl (cg_frames t) \<and> cg_frames (cg_event x d t) \<noteq> []"
    using cg_event_ok [OF ok, of x d] by simp_all
next
  fix t :: "'a CodegenTable"
  assume ok: "cg_ok t" and two: "2 \<le> length (cg_frames t)"
  obtain Scs Sc where s: "CgScopes t = Scs @ [Sc]" using ok by (cases "CgScopes t" rule: rev_cases) (auto simp: cg_ok_def)
  have good: "cg_good t" using ok by (simp add: cg_ok_def)
  have e: "CgScopes (ExitScope t) = Scs" using s by (simp add: ExitScope_def)
  moreover have "Scs \<noteq> []" using two s by (auto simp: cg_frames_def)
  ultimately show "cg_ok (ExitScope t)" using cg_exit [OF good s] by (simp add: cg_ok_def)
  have "map (cg_env (AllSymbols (ExitScope t))) (rev Scs) = map (cg_env (AllSymbols t)) (rev Scs)"
    using cg_exit [OF good s] by (simp add: cg_envs_def e)
  then show "cg_frames (ExitScope t) = tl (cg_frames t)" by (simp add: cg_frames_def e s cg_frame_def)
qed

section \<open>What the code generator relies on\<close>

inductive cg_run :: "'a CodegenTable \<Rightarrow> bool" where
  start: "cg_run newSymbolTable"
| enter: "cg_run T \<Longrightarrow> cg_run (EnterScope T)"
| leave: "cg_run T \<Longrightarrow> cg_run (ExitScope T)"
| declares: "cg_run T \<Longrightarrow> cg_run (snd (DeclareSymbol Name Ty Loc A T))"
| type: "cg_run T \<Longrightarrow> cg_run (RegisterType Name Ty' T)"
| global_type: "cg_run T \<Longrightarrow> cg_run (RegisterGlobalType Name Ty' T)"
| mark: "cg_run T \<Longrightarrow> cg_run (MarkEarlyExit T)"
| unmark: "cg_run T \<Longrightarrow> cg_run (ResetEarlyExitForCurrentScope T)"
| reset: "cg_run T \<Longrightarrow> cg_run (ResetToDepth d T)"
| enter_module: "cg_run T \<Longrightarrow> cg_run (EnterModule M T)"
| exit_module: "cg_run T \<Longrightarrow> cg_run (ExitModule T)"

lemma cg_exit_good: "cg_good T \<Longrightarrow> cg_good (ExitScope T)"
  using cg_exit [of T] by (cases "CgScopes T" rule: rev_cases) (auto simp: ExitScope_def)

lemma cg_with_scope: "cg_good T \<Longrightarrow> cg_ok (with_a_scope T)"
  using cg_enter by (auto simp: with_a_scope_def cg_ok_def)

lemma cg_declare_good: "cg_good T \<Longrightarrow> cg_good (snd (DeclareSymbol Name Ty Loc A T))"
proof -
  assume "cg_good T"
  then have ok: "cg_ok (with_a_scope T)" by (rule cg_with_scope)
  then obtain Scs Sc where s: "CgScopes (with_a_scope T) = Scs @ [Sc]"
    by (cases "CgScopes (with_a_scope T)" rule: rev_cases) (auto simp: cg_ok_def)
  have "with_a_scope (with_a_scope T) = with_a_scope T" using ok by (simp add: with_a_scope_def [of "with_a_scope T"] cg_ok_def)
  then have "snd (DeclareSymbol Name Ty Loc A T) = cg_declare Name (Ty, Loc, A) (with_a_scope T)"
    by (simp add: cg_declare_def DeclareSymbol_def)
  then show ?thesis using cg_declare [OF ok s, of Name "(Ty, Loc, A)"] by (simp add: cg_ok_def)
qed

lemma cg_reset_good: "cg_good T \<Longrightarrow> cg_good (ResetToDepth d T)"
proof (induction d T rule: ResetToDepth.induct)
  case (1 d T)
  then show ?case using cg_exit_good [of T] by (simp add: ResetToDepth.simps [of d T])
qed

lemma run_cg_good: "cg_run T \<Longrightarrow> cg_good T"
proof (induction rule: cg_run.induct)
  case start
  then show ?case by (simp add: newSymbolTable_def EnterScope_def new_scope_def cg_good_def scope_ids_def)
next
  case (enter T)
  then show ?case using cg_enter [of T] by (simp add: cg_ok_def)
next
  case (type T Name Ty')
  have "cg_ok (with_a_scope T)" by (rule cg_with_scope [OF type.IH])
  then have "same_names (with_a_scope T) (RegisterType Name Ty' T)"
    using register_same [of "with_a_scope T" Name Ty'] by (simp add: cg_ok_def RegisterType_def with_a_scope_def)
  then show ?case using same_names_good \<open>cg_ok (with_a_scope T)\<close> by (auto simp: cg_ok_def)
next
  case (global_type T Name Ty')
  have ok: "cg_ok (with_a_scope T)" by (rule cg_with_scope [OF global_type.IH])
  then have "same_names (with_a_scope T) (RegisterGlobalType Name Ty' T)"
    by (cases "CgScopes (with_a_scope T)") (auto simp: cg_ok_def RegisterGlobalType_def same_names_def Let_def)
  then show ?case using same_names_good ok by (auto simp: cg_ok_def)
next
  case (unmark T)
  have "same_names T (ResetEarlyExitForCurrentScope T)"
    by (cases "CgScopes T" rule: rev_cases) (auto simp: same_names_def ResetEarlyExitForCurrentScope_def on_innermost_def)
  then show ?case using same_names_good unmark.IH by blast
next
  case (mark T)
  then show ?case using same_names_good [OF mark_same] by blast
next
  case (enter_module T M)
  then show ?case by (simp add: cg_good_def EnterModule_def)
next
  case (exit_module T)
  then show ?case by (simp add: cg_good_def ExitModule_def)
qed (auto intro: cg_exit_good cg_declare_good cg_reset_good)

text \<open>
  A block of code that is generated changes nothing outside, whatever it declares, registers or ends early, and
  whatever blocks are in it: after it every name has the symbol it had before, every type name its type, and the
  enclosing scope is marked as ended early exactly if it was before.
\<close>

theorem generated_block_is_local:
  assumes "cg_run T" and "CgScopes T \<noteq> []"
  shows "let T' = scoped_run EnterScope ExitScope cg_event (Block ss) T in
    LookupSymbol Name T' = LookupSymbol Name T \<and> LookupType Name T' = LookupType Name T \<and>
    CurrentScopeHasEarlyExit T' = CurrentScopeHasEarlyExit T \<and> length (CgScopes T') = length (CgScopes T)"
proof -
  have "cg_ok T" using assms run_cg_good by (simp add: cg_ok_def)
  from codegen_scopes.block_restores [OF this]
  have f: "cg_frames (scoped_run EnterScope ExitScope cg_event (Block ss) T) = cg_frames T" by blast
  have symbols: "LookupSymbol Name T = lookup_env (map fst (cg_frames T)) Name" for T :: "'a CodegenTable"
    by (simp add: lookup_symbol_envs cg_envs_def cg_frames_def cg_frame_def comp_def)
  have find: "find_type Name Scs = lookup_env (map (\<lambda>Sc. map_of (ScopeTypes Sc)) Scs) Name" for Scs
    by (induction Scs) (simp_all split: option.split)
  have types: "LookupType Name T = lookup_env (map (fst \<circ> snd) (cg_frames T)) Name" for T :: "'a CodegenTable"
    by (simp add: LookupType_def find cg_frames_def cg_frame_def comp_def)
  have flag: "CurrentScopeHasEarlyExit T = (case cg_frames T of [] \<Rightarrow> False | F # Fs \<Rightarrow> snd (snd F))" for T :: "'a CodegenTable"
    by (cases "CgScopes T" rule: rev_cases) (simp_all add: CurrentScopeHasEarlyExit_def cg_frames_def cg_frame_def)
  have size: "length (CgScopes T) = length (cg_frames T)" for T :: "'a CodegenTable" by (simp add: cg_frames_def)
  show ?thesis by (simp add: Let_def symbols types flag size f del: scoped_run.simps)
qed

theorem generated_block_is_local_witness:
  "\<not> CurrentScopeHasEarlyExit (scoped_run EnterScope ExitScope cg_event
     (Block [Declares ''x'' (Declared (Some IntType) sample_loc ()), Declares [] EarlyExit]) (newSymbolTable :: unit CodegenTable))"
proof -
  have n: "CgScopes (newSymbolTable :: unit CodegenTable) \<noteq> []" "\<not> CurrentScopeHasEarlyExit (newSymbolTable :: unit CodegenTable)"
    by (simp_all add: newSymbolTable_def EnterScope_def new_scope_def CurrentScopeHasEarlyExit_def)
  show ?thesis using generated_block_is_local [OF cg_run.start n(1)] n(2) by (simp add: Let_def del: scoped_run.simps)
qed

section \<open>The Resolver and the code generator\<close>

text \<open>
  The same declarations in both tables. The Resolver rejects a second declaration of a name in a scope and keeps the
  first, the code generator replaces it.
\<close>

type_synonym 'a both_decl = "TurfType option \<times> SourceLocation \<times> bool \<times> bool \<times> 'a"

definition in_resolver :: "string \<Rightarrow> 'a both_decl \<Rightarrow> ResolverScopeTable \<Rightarrow> ResolverScopeTable" where
  "in_resolver x d = (case d of (Ty, Loc, Imm, Par, A) \<Rightarrow> try_declare x (Ty, Loc, Imm, Par))"

definition in_codegen :: "string \<Rightarrow> 'a both_decl \<Rightarrow> 'a CodegenTable \<Rightarrow> 'a CodegenTable" where
  "in_codegen x d = (case d of (Ty, Loc, Imm, Par, A) \<Rightarrow> cg_event x (Declared Ty Loc A))"

lemma cg_declare_dom:
  assumes "cg_ok T"
  shows "map (\<lambda>F. dom (fst F)) (cg_frames (cg_event x (Declared Ty Loc A) T)) =
    insert x (dom (fst (hd (cg_frames T)))) # map (\<lambda>F. dom (fst F)) (tl (cg_frames T))"
proof -
  obtain Scs Sc where s: "CgScopes T = Scs @ [Sc]" using assms by (cases "CgScopes T" rule: rev_cases) (auto simp: cg_ok_def)
  have fst_frames: "map (\<lambda>F. dom (fst F)) (cg_frames T) = map dom (cg_envs T)" for T :: "'a CodegenTable"
    by (simp add: cg_frames_def cg_envs_def cg_frame_def)
  obtain S where "cg_envs (cg_declare x (Ty, Loc, A) T) = (cg_env (AllSymbols T) Sc)(x \<mapsto> S) # map (cg_env (AllSymbols T)) (rev Scs)"
    using cg_declare [OF assms s, of x "(Ty, Loc, A)"] by blast
  then show ?thesis using s by (simp add: cg_event_def fst_frames) (simp add: cg_frames_def cg_frame_def)
qed

interpretation both_tables: scope_pair enterScope exitScope in_resolver table_envs Map.empty scopes_ok
  EnterScope ExitScope in_codegen cg_frames "(Map.empty, Map.empty, False)" cg_ok dom "\<lambda>F. dom (fst F)"
proof
  fix T :: ResolverScopeTable and U :: "'a CodegenTable" and x and d :: "'a both_decl"
  obtain Ty Loc Imm Par A where d: "d = (Ty, Loc, Imm, Par, A)" by (cases d)
  show "scopes_ok T \<Longrightarrow> scopes_ok (in_resolver x d T)"
    and "scopes_ok T \<Longrightarrow> tl (table_envs (in_resolver x d T)) = tl (table_envs T) \<and> table_envs (in_resolver x d T) \<noteq> []"
    using resolver_scopes.bind_ok resolver_scopes.bind_frames by (simp_all add: in_resolver_def d)
  show "cg_ok U \<Longrightarrow> cg_ok (in_codegen x d U)"
    and "cg_ok U \<Longrightarrow> tl (cg_frames (in_codegen x d U)) = tl (cg_frames U) \<and> cg_frames (in_codegen x d U) \<noteq> []"
    using codegen_scopes.bind_ok codegen_scopes.bind_frames by (simp_all add: in_codegen_def d)
  assume ok: "scopes_ok T" "cg_ok U" and same: "map dom (table_envs T) = map (\<lambda>F. dom (fst F)) (cg_frames U)"
  show "map dom (table_envs (in_resolver x d T)) = map (\<lambda>F. dom (fst F)) (cg_frames (in_codegen x d U))"
    using try_declare_dom [OF ok(1), of x "(Ty, Loc, Imm, Par)"] cg_declare_dom [OF ok(2), of x Ty Loc A] same
      resolver_scopes.ok_frames [OF ok(1)] codegen_scopes.ok_frames [OF ok(2)]
    by (cases "table_envs T"; cases "cg_frames U") (simp_all add: in_resolver_def in_codegen_def d)
qed (use resolver_scopes.scope_stack_axioms codegen_scopes.scope_stack_axioms in \<open>auto simp: scope_stack_def\<close>)

lemma dom_lookup_env: "lookup_env Es x \<noteq> None \<longleftrightarrow> (\<exists>E \<in> set Es. x \<in> dom E)"
  by (induction Es) (auto split: option.split)



end
