(* ===== verification/MutatingMethods.thy ===== *)
theory MutatingMethods
  imports LexToken Rounds "HOL-Library.AList"
begin

text \<open>
  Which methods change their receiver (\<open>src/src/resolve/ResolverSymbolTable.h\<close>, \<open>ResolverSymbolTable.cpp\<close>): the
  Resolver notes the methods, the ones that assign to a field of \<open>self\<close> themselves, and the calls of methods on
  \<open>self\<close>; a query closes these facts and keeps the answer until a new fact is noted.
\<close>

section \<open>The table\<close>

text \<open>A declaration is its address, with the name and the number of parameters a key is made of.\<close>

record MethodDecl =
  DeclId :: nat
  DeclName :: string
  DeclParams :: nat

record MethodTable =
  MethodsByKey :: "(string \<times> nat list) list"
  DirectMutators :: "nat set"
  SelfCalls :: "(nat \<times> string list) list"
  Mutating :: "nat set"
  ClosureDirty :: bool

definition empty_methods :: MethodTable where
  "empty_methods = \<lparr>MethodsByKey = [], DirectMutators = {}, SelfCalls = [], Mutating = {}, ClosureDirty = False\<rparr>"

definition call_key :: "string \<Rightarrow> string \<Rightarrow> int \<Rightarrow> string" where
  "call_key Module Name Arity = Module @ ''::'' @ Name @ ''/'' @ to_string Arity"

definition methodKey :: "string \<Rightarrow> MethodDecl \<Rightarrow> string" where
  "methodKey Module D = call_key Module (DeclName D) (int (DeclParams D))"

text \<open>The vector of a key, empty when there is none yet.\<close>

definition entry_of :: "('k \<times> 'v list) list \<Rightarrow> 'k \<Rightarrow> 'v list" where
  "entry_of M k = (case map_of M k of Some vs \<Rightarrow> vs | None \<Rightarrow> [])"

definition push_back_at :: "'k \<Rightarrow> 'v \<Rightarrow> ('k \<times> 'v list) list \<Rightarrow> ('k \<times> 'v list) list" where
  "push_back_at k v M = AList.update k (entry_of M k @ [v]) M"

definition noteInstanceMethod :: "MethodDecl \<Rightarrow> string \<Rightarrow> bool \<Rightarrow> MethodTable \<Rightarrow> MethodTable" where
  "noteInstanceMethod D Module DirectlyMutates T = T\<lparr>
     MethodsByKey := push_back_at (methodKey Module D) (DeclId D) (MethodsByKey T),
     DirectMutators := (if DirectlyMutates then insert (DeclId D) (DirectMutators T) else DirectMutators T),
     ClosureDirty := True\<rparr>"

definition noteSelfCall :: "nat \<Rightarrow> string \<Rightarrow> string \<Rightarrow> int \<Rightarrow> MethodTable \<Rightarrow> MethodTable" where
  "noteSelfCall Caller Module CalleeName Arity T = T\<lparr>
     SelfCalls := push_back_at Caller (call_key Module CalleeName Arity) (SelfCalls T),
     ClosureDirty := True\<rparr>"

section \<open>The closure\<close>

text \<open>A call counts when its key has methods and all of them are known to mutate.\<close>

definition key_mutates :: "MethodTable \<Rightarrow> nat set \<Rightarrow> string \<Rightarrow> bool" where
  "key_mutates T M Key = (case map_of (MethodsByKey T) Key of
      None \<Rightarrow> False
    | Some ms \<Rightarrow> ms \<noteq> [] \<and> list_all (\<lambda>m. m \<in> M) ms)"

definition visit_caller :: "MethodTable \<Rightarrow> nat \<times> string list \<Rightarrow> bool \<times> nat set \<Rightarrow> bool \<times> nat set" where
  "visit_caller T CC s = (case (CC, s) of ((Caller, Callees), (Changed, M)) \<Rightarrow>
     if Caller \<in> M then (Changed, M)
     else if list_ex (key_mutates T M) Callees then (True, insert Caller M)
     else (Changed, M))"

definition closure_of :: "MethodTable \<Rightarrow> (bool \<times> nat set) option" where
  "closure_of T = while_option fst (\<lambda>(Changed, M). fold (visit_caller T) (SelfCalls T) (False, M)) (True, DirectMutators T)"

definition computeMutatingClosure :: "MethodTable \<Rightarrow> MethodTable option" where
  "computeMutatingClosure T = (case closure_of T of
      Some (Changed, M) \<Rightarrow> Some (T\<lparr>Mutating := M, ClosureDirty := False\<rparr>)
    | None \<Rightarrow> None)"

definition mutatesSelfTransitively :: "nat option \<Rightarrow> MethodTable \<Rightarrow> (bool \<times> MethodTable) option" where
  "mutatesSelfTransitively Decl T = (case Decl of
      None \<Rightarrow> Some (False, T)
    | Some D \<Rightarrow>
        (case (if ClosureDirty T then computeMutatingClosure T else Some T) of
           Some T' \<Rightarrow> Some (D \<in> Mutating T', T')
         | None \<Rightarrow> None))"

section \<open>What the closure means\<close>

text \<open>
  A method changes its receiver when it does so itself, or when it makes some call on \<open>self\<close> that can only mean
  methods that change it. The least set with these rules: two methods that only call each other are not in it.
\<close>

inductive mutates :: "MethodTable \<Rightarrow> nat \<Rightarrow> bool" for T where
  direct: "d \<in> DirectMutators T \<Longrightarrow> mutates T d"
| through_call: "map_of (SelfCalls T) d = Some Keys \<Longrightarrow> Key \<in> set Keys \<Longrightarrow> map_of (MethodsByKey T) Key = Some ms \<Longrightarrow>
    ms \<noteq> [] \<Longrightarrow> (\<And>m. m \<in> set ms \<Longrightarrow> mutates T m) \<Longrightarrow> mutates T d"

definition callers_once :: "MethodTable \<Rightarrow> bool" where
  "callers_once T \<longleftrightarrow> distinct (map fst (SelfCalls T))"

definition sound_set :: "MethodTable \<Rightarrow> nat set \<Rightarrow> bool" where
  "sound_set T M \<longleftrightarrow> DirectMutators T \<subseteq> M \<and> (\<forall>d \<in> M. mutates T d)"

definition settled_caller :: "MethodTable \<Rightarrow> nat \<times> string list \<Rightarrow> nat set \<Rightarrow> bool" where
  "settled_caller T CC M \<longleftrightarrow> fst CC \<in> M \<or> \<not> list_ex (key_mutates T M) (snd CC)"

lemma key_mutates_sound:
  assumes "sound_set T M" and "map_of (SelfCalls T) d = Some Keys" and "list_ex (key_mutates T M) Keys"
  shows "mutates T d"
proof -
  from assms(3) obtain Key where "Key \<in> set Keys" "key_mutates T M Key" by (auto simp: list_ex_iff)
  then show ?thesis using assms(1,2)
    by (auto simp: key_mutates_def list_all_iff sound_set_def split: option.split_asm intro: through_call)
qed

lemma visit_caller_moves:
  assumes "callers_once T" and "sound_set T M" and "CC \<in> set (SelfCalls T)"
  shows "visit_caller T CC (chg, M) = (chg, M) \<and> settled_caller T CC M \<or>
    (\<exists>M'. visit_caller T CC (chg, M) = (True, M') \<and> sound_set T M' \<and>
      card (fst ` set (SelfCalls T) - M') < card (fst ` set (SelfCalls T) - M))"
proof (cases "fst CC \<in> M \<or> \<not> list_ex (key_mutates T M) (snd CC)")
  case True
  then show ?thesis by (cases CC) (auto simp: visit_caller_def settled_caller_def)
next
  case False
  obtain c ks where CC: "CC = (c, ks)" by (cases CC)
  have "map_of (SelfCalls T) c = Some ks" using assms(1,3) CC by (auto simp: callers_once_def)
  then have "mutates T c" using key_mutates_sound [OF assms(2)] False CC by simp
  then have sound: "sound_set T (insert c M)" using assms(2) by (auto simp: sound_set_def)
  have "c \<in> fst ` set (SelfCalls T)" using assms(3) CC by force
  then have "fst ` set (SelfCalls T) - insert c M \<subset> fst ` set (SelfCalls T) - M" using False CC by auto
  then have "card (fst ` set (SelfCalls T) - insert c M) < card (fst ` set (SelfCalls T) - M)"
    by (intro psubset_card_mono) auto
  then show ?thesis using False sound CC by (auto simp: visit_caller_def)
qed

lemma closure_ends:
  assumes "callers_once T"
  obtains M where "closure_of T = Some (False, M)" and "sound_set T M"
    and "\<And>CC. CC \<in> set (SelfCalls T) \<Longrightarrow> settled_caller T CC M"
proof -
  have "sound_set T (DirectMutators T)" by (simp add: sound_set_def direct)
  from rounds_end [of "sound_set T" "SelfCalls T" "visit_caller T" "settled_caller T", OF visit_caller_moves [OF assms] this]
  obtain M where "while_option fst (\<lambda>(chg, M). fold (visit_caller T) (SelfCalls T) (False, M)) (True, DirectMutators T) = Some (False, M)"
      "sound_set T M" "\<And>CC. CC \<in> set (SelfCalls T) \<Longrightarrow> settled_caller T CC M" by blast
  then show thesis by (intro that) (simp_all add: closure_of_def)
qed

lemma settled_contains:
  assumes "sound_set T M" and "\<And>CC. CC \<in> set (SelfCalls T) \<Longrightarrow> settled_caller T CC M" and "mutates T d"
  shows "d \<in> M"
  using assms(3)
proof induction
  case (direct d)
  then show ?case using assms(1) by (auto simp: sound_set_def)
next
  case (through_call d Keys Key ms)
  have "(d, Keys) \<in> set (SelfCalls T)" using through_call.hyps(1) by (rule map_of_SomeD)
  moreover have "list_ex (key_mutates T M) Keys"
    using through_call by (auto simp: list_ex_iff key_mutates_def list_all_iff intro!: bexI [of _ Key])
  ultimately show ?case using assms(2) by (force simp: settled_caller_def)
qed

lemma computed_closure:
  assumes "callers_once T"
  shows "\<exists>M. computeMutatingClosure T = Some (T\<lparr>Mutating := M, ClosureDirty := False\<rparr>) \<and> (\<forall>d. d \<in> M \<longleftrightarrow> mutates T d)"
  using assms
proof (rule closure_ends)
  fix M
  assume c: "closure_of T = Some (False, M)" and s: "sound_set T M"
    and all: "\<And>CC. CC \<in> set (SelfCalls T) \<Longrightarrow> settled_caller T CC M"
  have "d \<in> M \<longleftrightarrow> mutates T d" for d using s settled_contains [OF s all] by (auto simp: sound_set_def)
  then show ?thesis by (simp add: computeMutatingClosure_def c) blast
qed

section \<open>Notes and queries in any order\<close>

inductive method_run :: "MethodTable \<Rightarrow> bool" where
  start: "method_run empty_methods"
| note_method: "method_run T \<Longrightarrow> method_run (noteInstanceMethod D Module DirectlyMutates T)"
| note_call: "method_run T \<Longrightarrow> method_run (noteSelfCall Caller Module CalleeName Arity T)"
| query: "method_run T \<Longrightarrow> mutatesSelfTransitively Decl T = Some (b, T') \<Longrightarrow> method_run T'"

definition cache_valid :: "MethodTable \<Rightarrow> bool" where
  "cache_valid T \<longleftrightarrow> callers_once T \<and> (\<not> ClosureDirty T \<longrightarrow> (\<forall>d. d \<in> Mutating T \<longleftrightarrow> mutates T d))"

lemma mutates_cong:
  assumes "DirectMutators T = DirectMutators T'" and "SelfCalls T = SelfCalls T'" and "MethodsByKey T = MethodsByKey T'"
  shows "mutates T d \<longleftrightarrow> mutates T' d"
proof -
  have "mutates T' d" if "mutates T d" "DirectMutators T = DirectMutators T'" "SelfCalls T = SelfCalls T'"
      "MethodsByKey T = MethodsByKey T'" for T T' d
    using that by induction (auto intro: mutates.intros)
  then show ?thesis using assms by metis
qed

lemma mutates_cached [simp]: "mutates (T\<lparr>Mutating := M, ClosureDirty := b\<rparr>) d \<longleftrightarrow> mutates T d"
  by (rule mutates_cong) simp_all

lemma nothing_mutates: "\<not> mutates empty_methods d"
proof
  assume "mutates empty_methods d"
  then show False by cases (simp_all add: empty_methods_def)
qed

lemma query_answers:
  assumes "cache_valid T"
  obtains T' where "mutatesSelfTransitively Decl T = Some (case Decl of None \<Rightarrow> False | Some d \<Rightarrow> mutates T d, T')"
    and "cache_valid T'" and "\<And>d. mutates T' d \<longleftrightarrow> mutates T d"
proof (cases "Decl = None \<or> \<not> ClosureDirty T")
  case True
  then show thesis using assms by (intro that [of T]) (auto simp: mutatesSelfTransitively_def cache_valid_def split: option.split)
next
  case False
  obtain M where c: "computeMutatingClosure T = Some (T\<lparr>Mutating := M, ClosureDirty := False\<rparr>)" "\<And>d. d \<in> M \<longleftrightarrow> mutates T d"
    using computed_closure [of T] assms unfolding cache_valid_def by blast
  then show thesis using False assms
    by (intro that [of "T\<lparr>Mutating := M, ClosureDirty := False\<rparr>"])
      (auto simp: mutatesSelfTransitively_def cache_valid_def callers_once_def)
qed

lemma run_cache_valid: "method_run T \<Longrightarrow> cache_valid T"
proof (induction rule: method_run.induct)
  case start
  then show ?case using nothing_mutates by (simp add: cache_valid_def callers_once_def) (simp add: empty_methods_def)
next
  case (query T Decl b T')
  then show ?case by (metis query_answers option.inject prod.inject)
qed (auto simp: cache_valid_def callers_once_def noteInstanceMethod_def noteSelfCall_def push_back_at_def distinct_update)

text \<open>
  C21. Whatever methods, calls and questions came before, the question whether a method changes its receiver is
  always answered, and the answer is the least closure of the facts noted so far: no answer is lost to the stored
  set, and no order of the calls matters.
\<close>

theorem transitive_mutation_exact:
  assumes "method_run T"
  shows "\<exists>T'. mutatesSelfTransitively Decl T = Some (case Decl of None \<Rightarrow> False | Some d \<Rightarrow> mutates T d, T')"
  using query_answers [OF run_cache_valid [OF assms], of Decl] by metis

definition wrapper_methods :: MethodTable where
  "wrapper_methods = noteSelfCall 2 [] ''Box.bump'' 1
     (noteInstanceMethod \<lparr>DeclId = 2, DeclName = ''Box.wrapper'', DeclParams = 1\<rparr> [] False
       (noteInstanceMethod \<lparr>DeclId = 1, DeclName = ''Box.bump'', DeclParams = 1\<rparr> [] True empty_methods))"

theorem transitive_mutation_exact_witness:
  "\<exists>T'. mutatesSelfTransitively (Some 2) wrapper_methods = Some (True, T')"
proof -
  have "method_run wrapper_methods" unfolding wrapper_methods_def by (intro method_run.intros)
  moreover have "mutates wrapper_methods 2"
  proof (rule through_call)
    show "map_of (SelfCalls wrapper_methods) 2 = Some [''::Box.bump/1'']"
      by (simp add: wrapper_methods_def empty_methods_def noteSelfCall_def noteInstanceMethod_def push_back_at_def entry_of_def
          call_key_def) code_simp
    show "map_of (MethodsByKey wrapper_methods) ''::Box.bump/1'' = Some [1]"
      by (simp add: wrapper_methods_def empty_methods_def noteSelfCall_def noteInstanceMethod_def push_back_at_def entry_of_def
          methodKey_def call_key_def) code_simp
    show "mutates wrapper_methods m" if "m \<in> set [1 :: nat]" for m
      using that by (intro direct) (simp add: wrapper_methods_def empty_methods_def noteSelfCall_def noteInstanceMethod_def)
  qed simp_all
  ultimately show ?thesis using transitive_mutation_exact [of wrapper_methods "Some 2"] by simp
qed

end
