(* ===== verification/ModuleTable.thy ===== *)
theory ModuleTable
  imports TypeWalk "HOL-Library.AList" "HOL-Library.Word"
begin

text \<open>
  The modules of a program, the functions of the main file and the imports of every file
  (\<open>src/src/resolve/ResolverModuleTable.h\<close>, \<open>ResolverModuleTable.cpp\<close>), with the function symbols of
  \<open>ResolverSymbolBase.h\<close>. A hash map is a list of pairs without repeated keys; the code walks some of them in
  their own order, so what is proved of those answers is their set.
\<close>

section \<open>Symbols\<close>

text \<open>
  Of a function symbol, the fields that the tables and the two spellings of a signature read. An empty
  \<open>SourceModule\<close> is the file being compiled.
\<close>

record FunctionParam =
  ParamName :: string
  ParamType :: "TurfType option"

record ResolverFunctionSymbol =
  BaseName :: string
  SourceModule :: string
  Params :: "FunctionParam list"
  ReturnType :: "TurfType option"
  FnDeclLoc :: "int \<times> int"
  IsVarArg :: bool
  IsExtern :: bool
  IsPublic :: bool

text \<open>An exported constant; its double is kept as the bits of the value.\<close>

record ResolverConstantSymbol =
  ConstName :: string
  ConstModule :: string
  ConstType :: "TurfType option"
  ConstDeclLoc :: "int \<times> int"
  ConstIntVal :: string
  ConstDoubleVal :: "64 word"
  ConstBoolVal :: bool
  ConstStringVal :: string

definition arity :: "ResolverFunctionSymbol \<Rightarrow> nat" where
  "arity Sym = length (Params Sym)"

definition paramTypes :: "ResolverFunctionSymbol \<Rightarrow> TurfType option list" where
  "paramTypes Sym = map ParamType (Params Sym)"

definition param_text :: "FunctionParam \<Rightarrow> string" where
  "param_text P = (case ParamType P of Some t \<Rightarrow> getName t | None \<Rightarrow> ''?'') @ (if ParamName P = [] then [] else '' '' @ ParamName P)"

definition signature :: "ResolverFunctionSymbol \<Rightarrow> string" where
  "signature Sym = BaseName Sym @ ''('' @ join '', '' (map param_text (Params Sym)) @ '') -> '' @
     (case ReturnType Sym of Some t \<Rightarrow> getName t | None \<Rightarrow> ''void'')"

definition mangled_params :: "ResolverFunctionSymbol \<Rightarrow> string" where
  "mangled_params Sym = concat (map (\<lambda>P. case ParamType P of Some t \<Rightarrow> ''_'' @ getMangledName t | None \<Rightarrow> []) (Params Sym))"

definition mangledName :: "ResolverFunctionSymbol \<Rightarrow> string" where
  "mangledName Sym =
    (if BaseName Sym = ''main'' then ''main''
     else if IsExtern Sym then BaseName Sym
     else ''turf_'' @ (if SourceModule Sym = [] then [] else SourceModule Sym @ ''_'') @
       sanitizeSymbolName (BaseName Sym) @ mangled_params Sym)"

definition mangledNameForInstantiation :: "TurfType option list \<Rightarrow> ResolverFunctionSymbol \<Rightarrow> string" where
  "mangledNameForInstantiation TypeArgs Sym =
    ''turf_'' @ (if SourceModule Sym = [] then [] else SourceModule Sym @ ''_'') @ sanitizeSymbolName (BaseName Sym) @
    ''_gen'' @ to_string (int (length TypeArgs)) @
    concat (map (\<lambda>A. case A of Some t \<Rightarrow> ''_'' @ getMangledName t | None \<Rightarrow> []) TypeArgs) @ mangled_params Sym"

section \<open>Overloads\<close>

text \<open>Two symbols are one when they agree on arity and the names of the parameter types; a missing type agrees with nothing.\<close>

definition same_type_name :: "TurfType option \<Rightarrow> TurfType option \<Rightarrow> bool" where
  "same_type_name E P = (case (E, P) of (Some e, Some p) \<Rightarrow> getName e = getName p | _ \<Rightarrow> False)"

definition same_params :: "ResolverFunctionSymbol \<Rightarrow> ResolverFunctionSymbol \<Rightarrow> bool" where
  "same_params Existing Sym \<longleftrightarrow> arity Existing = arity Sym \<and> list_all2 same_type_name (paramTypes Existing) (paramTypes Sym)"

definition add_overload :: "ResolverFunctionSymbol \<Rightarrow> ResolverFunctionSymbol list \<Rightarrow> ResolverFunctionSymbol list" where
  "add_overload Sym Overloads = (if list_ex (\<lambda>E. same_params E Sym) Overloads then Overloads else Overloads @ [Sym])"

type_synonym function_map = "(string \<times> ResolverFunctionSymbol list) list"

definition overloads :: "function_map \<Rightarrow> string \<Rightarrow> ResolverFunctionSymbol list" where
  "overloads M Name = (case map_of M Name of Some os \<Rightarrow> os | None \<Rightarrow> [])"

definition registerFunction :: "ResolverFunctionSymbol \<Rightarrow> function_map \<Rightarrow> function_map" where
  "registerFunction Sym M = AList.update (BaseName Sym) (add_overload Sym (overloads M (BaseName Sym))) M"

definition getFunctionNames :: "function_map \<Rightarrow> string list" where
  "getFunctionNames M = sort (map fst M)"

definition getPublicFunctionNames :: "function_map \<Rightarrow> string list" where
  "getPublicFunctionNames M = sort (map fst (filter (\<lambda>(Name, os). CHR ''.'' \<notin> set Name \<and> list_ex IsPublic os) M))"

section \<open>The table\<close>

record ResolverModule =
  Functions :: function_map
  Variables :: "(string \<times> ResolverConstantSymbol) list"

record FlatImportedSymbol =
  FlatSource :: string
  FlatLoc :: "int \<times> int"

text \<open>The imports of a context, by name, and the contexts by label; the empty label is the main file.\<close>

type_synonym flat_map = "(string \<times> (string \<times> FlatImportedSymbol) list) list"

record ResolverModuleTable =
  Modules :: "(string \<times> ResolverModule) list"
  CurrentFileFunctions :: function_map
  FlatImportedFunctions :: flat_map
  BareImports :: "(string \<times> string list) list"
  SymbolImports :: "(string \<times> string list) list"
  FlatImportedTypes :: flat_map
  CurrentFileConstants :: "(string \<times> ResolverConstantSymbol) list"
  FlatImportedConstants :: flat_map

definition no_modules :: ResolverModuleTable where
  "no_modules = \<lparr>Modules = [], CurrentFileFunctions = [], FlatImportedFunctions = [], BareImports = [], SymbolImports = [],
     FlatImportedTypes = [], CurrentFileConstants = [], FlatImportedConstants = []\<rparr>"

definition empty_module :: ResolverModule where
  "empty_module = \<lparr>Functions = [], Variables = []\<rparr>"

definition the_module :: "string \<Rightarrow> ResolverModuleTable \<Rightarrow> ResolverModule" where
  "the_module M T = (case map_of (Modules T) M of Some D \<Rightarrow> D | None \<Rightarrow> empty_module)"

definition registerModule :: "string \<Rightarrow> ResolverModuleTable \<Rightarrow> ResolverModuleTable" where
  "registerModule M T = T\<lparr>Modules := emplace M empty_module (Modules T)\<rparr>"

definition registerModuleFunction :: "string \<Rightarrow> ResolverFunctionSymbol \<Rightarrow> ResolverModuleTable \<Rightarrow> ResolverModuleTable" where
  "registerModuleFunction M Sym T =
    (let D = the_module M T in T\<lparr>Modules := AList.update M (D\<lparr>Functions := registerFunction Sym (Functions D)\<rparr>) (Modules T)\<rparr>)"

definition registerModuleConstant :: "string \<Rightarrow> ResolverConstantSymbol \<Rightarrow> ResolverModuleTable \<Rightarrow> ResolverModuleTable" where
  "registerModuleConstant M Sym T =
    (let D = the_module M T
     in T\<lparr>Modules := AList.update M (D\<lparr>Variables := AList.update (ConstName Sym) Sym (Variables D)\<rparr>) (Modules T)\<rparr>)"

definition findModuleConstant :: "string \<Rightarrow> string \<Rightarrow> ResolverModuleTable \<Rightarrow> ResolverConstantSymbol option" where
  "findModuleConstant M Name T = (case map_of (Modules T) M of None \<Rightarrow> None | Some D \<Rightarrow> map_of (Variables D) Name)"

definition hasModule :: "string \<Rightarrow> ResolverModuleTable \<Rightarrow> bool" where
  "hasModule M T \<longleftrightarrow> map_of (Modules T) M \<noteq> None"

section \<open>Imports\<close>

definition note_in :: "string \<Rightarrow> string \<Rightarrow> (string \<times> string list) list \<Rightarrow> (string \<times> string list) list" where
  "note_in Context M I = AList.update Context (case map_of I Context of Some ms \<Rightarrow> List.insert M ms | None \<Rightarrow> [M]) I"

definition noted :: "string \<Rightarrow> string \<Rightarrow> (string \<times> string list) list \<Rightarrow> bool" where
  "noted Context M I = (case map_of I Context of Some ms \<Rightarrow> M \<in> set ms | None \<Rightarrow> False)"

definition noteBareImport :: "string \<Rightarrow> string \<Rightarrow> ResolverModuleTable \<Rightarrow> ResolverModuleTable" where
  "noteBareImport Context M T = T\<lparr>BareImports := note_in Context M (BareImports T)\<rparr>"

definition noteSymbolImport :: "string \<Rightarrow> string \<Rightarrow> ResolverModuleTable \<Rightarrow> ResolverModuleTable" where
  "noteSymbolImport Context M T = T\<lparr>SymbolImports := note_in Context M (SymbolImports T)\<rparr>"

definition hasSymbolImport :: "string \<Rightarrow> string \<Rightarrow> ResolverModuleTable \<Rightarrow> bool" where
  "hasSymbolImport M Context T = noted Context M (SymbolImports T)"

definition isModuleImportedBy :: "string \<Rightarrow> string \<Rightarrow> ResolverModuleTable \<Rightarrow> bool" where
  "isModuleImportedBy M Context T \<longleftrightarrow> (if M = Context then True else noted Context M (BareImports T))"

text \<open>The first import of a name into a context stays; a later one is answered with it.\<close>

definition context_of :: "string \<Rightarrow> flat_map \<Rightarrow> (string \<times> FlatImportedSymbol) list" where
  "context_of Context I = (case map_of I Context of Some C \<Rightarrow> C | None \<Rightarrow> [])"

definition register_flat :: "string \<Rightarrow> string \<Rightarrow> FlatImportedSymbol \<Rightarrow> flat_map \<Rightarrow> FlatImportedSymbol option \<times> flat_map" where
  "register_flat Context Name Sym I =
    (let C = context_of Context I
     in case map_of C Name of
          Some Prev \<Rightarrow> (Some Prev, AList.update Context C I)
        | None \<Rightarrow> (None, AList.update Context (emplace Name Sym C) I))"

definition lookup_flat :: "string \<Rightarrow> string \<Rightarrow> flat_map \<Rightarrow> FlatImportedSymbol option" where
  "lookup_flat Context Name I = (case map_of I Context of None \<Rightarrow> None | Some C \<Rightarrow> map_of C Name)"

definition registerFlatFunctionImport ::
    "string \<Rightarrow> string \<Rightarrow> FlatImportedSymbol \<Rightarrow> ResolverModuleTable \<Rightarrow> FlatImportedSymbol option \<times> ResolverModuleTable" where
  "registerFlatFunctionImport Context Name Sym T =
    (case register_flat Context Name Sym (FlatImportedFunctions T) of (p, I) \<Rightarrow> (p, T\<lparr>FlatImportedFunctions := I\<rparr>))"

definition registerFlatConstantImport ::
    "string \<Rightarrow> string \<Rightarrow> FlatImportedSymbol \<Rightarrow> ResolverModuleTable \<Rightarrow> FlatImportedSymbol option \<times> ResolverModuleTable" where
  "registerFlatConstantImport Context Name Sym T =
    (case register_flat Context Name Sym (FlatImportedConstants T) of (p, I) \<Rightarrow> (p, T\<lparr>FlatImportedConstants := I\<rparr>))"

definition registerFlatTypeImport ::
    "string \<Rightarrow> string \<Rightarrow> FlatImportedSymbol \<Rightarrow> ResolverModuleTable \<Rightarrow> FlatImportedSymbol option \<times> ResolverModuleTable" where
  "registerFlatTypeImport Context Name Sym T =
    (case register_flat Context Name Sym (FlatImportedTypes T) of (p, I) \<Rightarrow> (p, T\<lparr>FlatImportedTypes := I\<rparr>))"

definition lookupFlatFunctionImport :: "string \<Rightarrow> string \<Rightarrow> ResolverModuleTable \<Rightarrow> FlatImportedSymbol option" where
  "lookupFlatFunctionImport Context Name T = lookup_flat Context Name (FlatImportedFunctions T)"

definition lookupFlatConstantImport :: "string \<Rightarrow> string \<Rightarrow> ResolverModuleTable \<Rightarrow> FlatImportedSymbol option" where
  "lookupFlatConstantImport Context Name T = lookup_flat Context Name (FlatImportedConstants T)"

definition lookupFlatTypeImport :: "string \<Rightarrow> string \<Rightarrow> ResolverModuleTable \<Rightarrow> FlatImportedSymbol option" where
  "lookupFlatTypeImport Context Name T = lookup_flat Context Name (FlatImportedTypes T)"

definition hasFlatTypeImport :: "string \<Rightarrow> string \<Rightarrow> ResolverModuleTable \<Rightarrow> bool" where
  "hasFlatTypeImport Context Name T \<longleftrightarrow> lookupFlatTypeImport Context Name T \<noteq> None"

section \<open>The main file\<close>

definition registerCurrentFileFunction :: "ResolverFunctionSymbol \<Rightarrow> ResolverModuleTable \<Rightarrow> ResolverModuleTable" where
  "registerCurrentFileFunction Sym T = T\<lparr>CurrentFileFunctions := registerFunction Sym (CurrentFileFunctions T)\<rparr>"

definition lookupCurrentFileFunctions :: "string \<Rightarrow> ResolverModuleTable \<Rightarrow> ResolverFunctionSymbol list" where
  "lookupCurrentFileFunctions Name T = overloads (CurrentFileFunctions T) Name"

definition registerCurrentFileConstant :: "ResolverConstantSymbol \<Rightarrow> ResolverModuleTable \<Rightarrow> ResolverModuleTable" where
  "registerCurrentFileConstant Sym T = T\<lparr>CurrentFileConstants := AList.update (ConstName Sym) Sym (CurrentFileConstants T)\<rparr>"

definition lookupCurrentFileConstant :: "string \<Rightarrow> ResolverModuleTable \<Rightarrow> ResolverConstantSymbol option" where
  "lookupCurrentFileConstant Name T = map_of (CurrentFileConstants T) Name"

definition getAllCurrentFileFunctionNames :: "ResolverModuleTable \<Rightarrow> string list" where
  "getAllCurrentFileFunctionNames T = sort (map fst (CurrentFileFunctions T))"

section \<open>Lists of names\<close>

definition getAllModuleNames :: "ResolverModuleTable \<Rightarrow> string list" where
  "getAllModuleNames T = map fst (Modules T)"

definition getModuleFunctionNames :: "string \<Rightarrow> ResolverModuleTable \<Rightarrow> string list" where
  "getModuleFunctionNames M T = (case map_of (Modules T) M of None \<Rightarrow> [] | Some D \<Rightarrow> getFunctionNames (Functions D))"

definition getModulePublicFunctionNames :: "string \<Rightarrow> ResolverModuleTable \<Rightarrow> string list" where
  "getModulePublicFunctionNames M T = (case map_of (Modules T) M of None \<Rightarrow> [] | Some D \<Rightarrow> getPublicFunctionNames (Functions D))"

definition getModuleConstantNames :: "string \<Rightarrow> ResolverModuleTable \<Rightarrow> string list" where
  "getModuleConstantNames M T = (case map_of (Modules T) M of None \<Rightarrow> [] | Some D \<Rightarrow> sort (map fst (Variables D)))"

text \<open>All function maps, the ones of the modules before the one of the main file.\<close>

definition all_functions :: "ResolverModuleTable \<Rightarrow> function_map" where
  "all_functions T = concat (map (\<lambda>(M, D). Functions D) (Modules T)) @ CurrentFileFunctions T"

definition getPublicMethodNames :: "string \<Rightarrow> ResolverModuleTable \<Rightarrow> string list" where
  "getPublicMethodNames Owner T =
    (let Prefix = Owner @ ''.''
     in sort (remdups (map (\<lambda>(Key, os). drop (length Prefix) Key)
          (filter (\<lambda>(Key, os). starts_with Prefix Key \<and> list_ex IsPublic os) (all_functions T)))))"

definition findInModules :: "string \<Rightarrow> ResolverModuleTable \<Rightarrow> (string \<times> ResolverFunctionSymbol) list" where
  "findInModules Name T = concat (map (\<lambda>(M, D). map (Pair M) (overloads (Functions D) Name)) (Modules T))"

definition getAllModuleFunctionNames :: "ResolverModuleTable \<Rightarrow> string list" where
  "getAllModuleFunctionNames T = sort (remdups (concat (map (\<lambda>(M, D). map fst (Functions D)) (Modules T))))"

section \<open>The listings of \<open>--dump-modules\<close>\<close>

definition located :: "int \<times> int \<Rightarrow> string" where
  "located L = to_string (fst L) @ '':'' @ to_string (snd L)"

definition newline_text :: string where
  "newline_text = [CHR 0x0A]"

definition quoted_name :: "string \<Rightarrow> string" where
  "quoted_name N = [CHR 0x27] @ N @ [CHR 0x27]"

definition dumpCurrentFileFunctionsBrief :: "ResolverModuleTable \<Rightarrow> string" where
  "dumpCurrentFileFunctionsBrief T = newline_text @ ''--- Current-File Functions (Tier 1) ---'' @ newline_text @
    (if CurrentFileFunctions T = [] then ''  (none registered yet)'' @ newline_text
     else concat (map (\<lambda>(Name, os). concat (map (\<lambda>S. ''  fn '' @ signature S @ '' [Loc: '' @ located (FnDeclLoc S) @ '']'' @ newline_text) os))
       (CurrentFileFunctions T)))"

definition dumpModuleFunctionsBrief :: "ResolverModuleTable \<Rightarrow> string" where
  "dumpModuleFunctionsBrief T = newline_text @ ''--- Imported Module Functions (Tier 2) ---'' @ newline_text @
    (if Modules T = [] then ''  (no modules imported)'' @ newline_text
     else concat (map (\<lambda>(M, D). ''Module '' @ quoted_name M @ '':'' @ newline_text @
       (if Functions D = [] then ''  (empty)'' @ newline_text
        else concat (map (\<lambda>(Name, os). concat (map (\<lambda>S. ''  fn '' @ signature S @ newline_text) os)) (Functions D)))) (Modules T)))"

definition dump_function :: "ResolverFunctionSymbol \<Rightarrow> string" where
  "dump_function S = ''    fn '' @ signature S @ (if IsExtern S then ''  [extern]'' else []) @
    (if IsVarArg S then ''  [vararg]'' else []) @ ''  @ '' @ located (FnDeclLoc S) @ newline_text"

definition dumpModulesDetailed :: "ResolverModuleTable \<Rightarrow> string" where
  "dumpModulesDetailed T = ''--- Imported Modules ---'' @ newline_text @
    (if Modules T = [] then ''  (no modules imported)'' @ newline_text
     else concat (map (\<lambda>M. ''Module '' @ quoted_name M @ '':'' @ newline_text @
       (let D = the_module M T
        in if Functions D = [] then ''    (no functions)'' @ newline_text
           else concat (map (\<lambda>Name. concat (map dump_function (overloads (Functions D) Name))) (sort (map fst (Functions D))))))
       (sort (map fst (Modules T)))))"

definition dump_flat_import :: "string \<times> FlatImportedSymbol \<Rightarrow> string" where
  "dump_flat_import P = ''    '' @ fst P @ ''  <- from module '' @ quoted_name (FlatSource (snd P)) @
    '' (imported at '' @ located (FlatLoc (snd P)) @ '')'' @ newline_text"

definition dumpFlatImports :: "ResolverModuleTable \<Rightarrow> string" where
  "dumpFlatImports T = newline_text @ ''--- On-Demand Flat Imports (import module::sym / [list] / [*]) ---'' @ newline_text @
    (if FlatImportedFunctions T = []
     then ''  (none -- every import in this program is bare, qualified-access-only)'' @ newline_text
     else concat (map (\<lambda>C. (if C = [] then ''(main file)'' else ''Module '' @ quoted_name C) @ '' flat-imports:'' @ newline_text @
       (let I = context_of C (FlatImportedFunctions T)
        in if I = [] then ''    (none)'' @ newline_text else concat (map dump_flat_import (sort_key fst I))))
       (sort (map fst (FlatImportedFunctions T)))))"

definition dumpCurrentFileFunctionsDetailed :: "ResolverModuleTable \<Rightarrow> string" where
  "dumpCurrentFileFunctionsDetailed T = newline_text @ ''--- Main-File Top-Level Functions ---'' @ newline_text @
    (if CurrentFileFunctions T = [] then ''  (none)'' @ newline_text
     else concat (map (\<lambda>Name. concat (map (\<lambda>S. ''  fn '' @ signature S @ ''  @ '' @ located (FnDeclLoc S) @ newline_text)
         (overloads (CurrentFileFunctions T) Name)))
       (sort (map fst (CurrentFileFunctions T)))))"

section \<open>Runs\<close>

text \<open>The changes of the table, in the order the Resolver makes them.\<close>

datatype module_op =
    AddModule string
  | AddFunction string ResolverFunctionSymbol
  | AddConstant string ResolverConstantSymbol
  | AddFileFunction ResolverFunctionSymbol
  | AddFileConstant ResolverConstantSymbol
  | BareImport string string
  | SymbolImport string string
  | FlatFunction string string FlatImportedSymbol
  | FlatConstant string string FlatImportedSymbol
  | FlatType string string FlatImportedSymbol

fun module_step :: "module_op \<Rightarrow> ResolverModuleTable \<Rightarrow> ResolverModuleTable" where
  "module_step (AddModule M) T = registerModule M T"
| "module_step (AddFunction M S) T = registerModuleFunction M S T"
| "module_step (AddConstant M S) T = registerModuleConstant M S T"
| "module_step (AddFileFunction S) T = registerCurrentFileFunction S T"
| "module_step (AddFileConstant S) T = registerCurrentFileConstant S T"
| "module_step (BareImport C M) T = noteBareImport C M T"
| "module_step (SymbolImport C M) T = noteSymbolImport C M T"
| "module_step (FlatFunction C N F) T = snd (registerFlatFunctionImport C N F T)"
| "module_step (FlatConstant C N F) T = snd (registerFlatConstantImport C N F T)"
| "module_step (FlatType C N F) T = snd (registerFlatTypeImport C N F T)"

definition module_run :: "module_op list \<Rightarrow> ResolverModuleTable" where
  "module_run ops = fold module_step ops no_modules"

text \<open>The registrations of a run that concern one key, in order.\<close>

fun file_functions :: "module_op list \<Rightarrow> ResolverFunctionSymbol list" where
  "file_functions [] = []"
| "file_functions (AddFileFunction S # ops) = S # file_functions ops"
| "file_functions (_ # ops) = file_functions ops"

fun module_functions :: "string \<Rightarrow> module_op list \<Rightarrow> ResolverFunctionSymbol list" where
  "module_functions M [] = []"
| "module_functions M (AddFunction M' S # ops) = (if M' = M then S # module_functions M ops else module_functions M ops)"
| "module_functions M (_ # ops) = module_functions M ops"

fun flat_functions :: "string \<Rightarrow> module_op list \<Rightarrow> (string \<times> FlatImportedSymbol) list" where
  "flat_functions C [] = []"
| "flat_functions C (FlatFunction C' N F # ops) = (if C' = C then (N, F) # flat_functions C ops else flat_functions C ops)"
| "flat_functions C (_ # ops) = flat_functions C ops"

fun flat_constants :: "string \<Rightarrow> module_op list \<Rightarrow> (string \<times> FlatImportedSymbol) list" where
  "flat_constants C [] = []"
| "flat_constants C (FlatConstant C' N F # ops) = (if C' = C then (N, F) # flat_constants C ops else flat_constants C ops)"
| "flat_constants C (_ # ops) = flat_constants C ops"

fun flat_types :: "string \<Rightarrow> module_op list \<Rightarrow> (string \<times> FlatImportedSymbol) list" where
  "flat_types C [] = []"
| "flat_types C (FlatType C' N F # ops) = (if C' = C then (N, F) # flat_types C ops else flat_types C ops)"
| "flat_types C (_ # ops) = flat_types C ops"

text \<open>Of symbols that are one, the first.\<close>

fun firsts :: "ResolverFunctionSymbol list \<Rightarrow> ResolverFunctionSymbol list" where
  "firsts [] = []"
| "firsts (S # Ss) = S # filter (\<lambda>U. \<not> same_params S U) (firsts Ss)"

section \<open>Overloads, once\<close>

lemma same_type_name_trans: "same_type_name a b \<Longrightarrow> same_type_name b c \<Longrightarrow> same_type_name a c"
  by (auto simp: same_type_name_def split: option.splits)

lemma same_params_trans: "same_params a b \<Longrightarrow> same_params b c \<Longrightarrow> same_params a c"
  by (auto simp: same_params_def intro: list_all2_trans [where ?P1.0 = same_type_name and ?P2.0 = same_type_name, OF same_type_name_trans])

lemma add_overloads:
  "fold add_overload Ss os = os @ filter (\<lambda>U. \<not> list_ex (\<lambda>E. same_params E U) os) (firsts Ss)"
proof (induction Ss arbitrary: os)
  case (Cons S Ss)
  show ?case
  proof (cases "list_ex (\<lambda>E. same_params E S) os")
    case True
    then have "\<not> list_ex (\<lambda>E. same_params E U) os \<Longrightarrow> \<not> same_params S U" for U
      by (auto simp: list_ex_iff intro: same_params_trans)
    then have "filter (\<lambda>U. \<not> list_ex (\<lambda>E. same_params E U) os \<and> \<not> same_params S U) (firsts Ss) =
        filter (\<lambda>U. \<not> list_ex (\<lambda>E. same_params E U) os) (firsts Ss)" by (intro filter_cong) auto
    moreover have "add_overload S os = os" using True by (simp add: add_overload_def)
    ultimately show ?thesis using True Cons.IH by (simp add: conj_commute)
  next
    case False
    then have "add_overload S os = os @ [S]" by (simp add: add_overload_def)
    then show ?thesis using False Cons.IH [of "os @ [S]"] by (simp add: conj_commute)
  qed
qed simp

lemma overloads_register [simp]:
  "overloads (registerFunction S M) N = (if BaseName S = N then add_overload S (overloads M N) else overloads M N)"
  by (simp add: overloads_def registerFunction_def update_conv')

lemma module_overloads:
  "overloads (Functions (the_module M (module_step g T))) N =
    fold add_overload (filter (\<lambda>S. BaseName S = N) (module_functions M [g])) (overloads (Functions (the_module M T)) N)"
  by (cases g) (auto simp: the_module_def registerModule_def emplace_def empty_module_def overloads_def [of "[]"] update_conv' Let_def
    registerModuleFunction_def registerModuleConstant_def registerCurrentFileFunction_def registerCurrentFileConstant_def
    noteBareImport_def noteSymbolImport_def registerFlatFunctionImport_def registerFlatConstantImport_def
    registerFlatTypeImport_def map_add_def split: option.splits prod.splits)

lemma module_functions_Cons: "module_functions M (g # ops) = module_functions M [g] @ module_functions M ops"
  by (cases g) auto

lemma file_functions_Cons: "file_functions (g # ops) = file_functions [g] @ file_functions ops"
  by (cases g) auto

text \<open>What one change does to each part of the table.\<close>

lemmas table_parts = registerModule_def registerModuleFunction_def registerModuleConstant_def registerCurrentFileFunction_def
  registerCurrentFileConstant_def noteBareImport_def noteSymbolImport_def registerFlatFunctionImport_def
  registerFlatConstantImport_def registerFlatTypeImport_def

lemma file_overloads:
  "overloads (CurrentFileFunctions (module_step g T)) N =
    fold add_overload (filter (\<lambda>S. BaseName S = N) (file_functions [g])) (overloads (CurrentFileFunctions T) N)"
  by (cases g) (auto simp: table_parts Let_def split: prod.splits)

lemma noted_in: "noted C M (note_in C' M' I) \<longleftrightarrow> (C = C' \<and> M = M') \<or> noted C M I"
  by (auto simp: noted_def note_in_def update_conv' split: option.splits)

lemma bare_step: "noted C M (BareImports (module_step g T)) \<longleftrightarrow> g = BareImport C M \<or> noted C M (BareImports T)"
  by (cases g) (auto simp: table_parts Let_def noted_in split: prod.splits)

lemma symbol_step: "noted C M (SymbolImports (module_step g T)) \<longleftrightarrow> g = SymbolImport C M \<or> noted C M (SymbolImports T)"
  by (cases g) (auto simp: table_parts Let_def noted_in split: prod.splits)

lemma has_module_step:
  "hasModule M (module_step g T) \<longleftrightarrow> hasModule M T \<or> g = AddModule M \<or> (\<exists>S. g = AddFunction M S) \<or> (\<exists>S. g = AddConstant M S)"
  by (cases g) (auto simp: table_parts Let_def hasModule_def emplace_def update_conv' map_add_def split: prod.splits option.splits)

lemma register_flat_lookup:
  "lookup_flat C N (snd (register_flat C' N' F I)) =
    (case lookup_flat C N I of Some P \<Rightarrow> Some P | None \<Rightarrow> if C' = C \<and> N' = N then Some F else None)"
  by (auto simp: register_flat_def lookup_flat_def context_of_def Let_def emplace_def update_conv' map_add_def split: option.splits)

lemma register_flat_answer: "fst (register_flat C N F I) = lookup_flat C N I"
  by (auto simp: register_flat_def lookup_flat_def context_of_def Let_def split: option.splits)

lemma flat_function_step:
  "lookupFlatFunctionImport C N (module_step g T) =
    (case lookupFlatFunctionImport C N T of Some P \<Rightarrow> Some P | None \<Rightarrow> map_of (flat_functions C [g]) N)"
  by (cases g) (auto simp: table_parts Let_def lookupFlatFunctionImport_def case_prod_beta register_flat_lookup split: option.splits)

lemma flat_constant_step:
  "lookupFlatConstantImport C N (module_step g T) =
    (case lookupFlatConstantImport C N T of Some P \<Rightarrow> Some P | None \<Rightarrow> map_of (flat_constants C [g]) N)"
  by (cases g) (auto simp: table_parts Let_def lookupFlatConstantImport_def case_prod_beta register_flat_lookup split: option.splits)

lemma flat_type_step:
  "lookupFlatTypeImport C N (module_step g T) =
    (case lookupFlatTypeImport C N T of Some P \<Rightarrow> Some P | None \<Rightarrow> map_of (flat_types C [g]) N)"
  by (cases g) (auto simp: table_parts Let_def lookupFlatTypeImport_def case_prod_beta register_flat_lookup split: option.splits)

section \<open>What a run leaves\<close>

lemma file_run:
  "overloads (CurrentFileFunctions (fold module_step ops T)) N =
    fold add_overload (filter (\<lambda>S. BaseName S = N) (file_functions ops)) (overloads (CurrentFileFunctions T) N)"
proof (induction ops arbitrary: T)
  case (Cons g ops)
  then show ?case using file_functions_Cons [of g ops] by (simp add: file_overloads)
qed simp

lemma modules_run:
  "overloads (Functions (the_module M (fold module_step ops T))) N =
    fold add_overload (filter (\<lambda>S. BaseName S = N) (module_functions M ops)) (overloads (Functions (the_module M T)) N)"
proof (induction ops arbitrary: T)
  case (Cons g ops)
  then show ?case using module_functions_Cons [of M g ops] by (simp add: module_overloads)
qed simp

lemma file_functions_of_run:
  "lookupCurrentFileFunctions N (module_run ops) = firsts (filter (\<lambda>S. BaseName S = N) (file_functions ops))"
  by (simp add: lookupCurrentFileFunctions_def module_run_def file_run add_overloads)
     (simp add: no_modules_def overloads_def)

lemma functions_of_run:
  "overloads (Functions (the_module M (module_run ops))) N = firsts (filter (\<lambda>S. BaseName S = N) (module_functions M ops))"
  by (simp add: module_run_def modules_run add_overloads)
     (simp add: no_modules_def the_module_def empty_module_def overloads_def)

lemma bare_run: "noted C M (BareImports (fold module_step ops T)) \<longleftrightarrow> BareImport C M \<in> set ops \<or> noted C M (BareImports T)"
  by (induction ops arbitrary: T) (auto simp: bare_step)

lemma symbol_run: "noted C M (SymbolImports (fold module_step ops T)) \<longleftrightarrow> SymbolImport C M \<in> set ops \<or> noted C M (SymbolImports T)"
  by (induction ops arbitrary: T) (auto simp: symbol_step)

lemma has_module_run:
  "hasModule M (fold module_step ops T) \<longleftrightarrow>
    hasModule M T \<or> AddModule M \<in> set ops \<or> (\<exists>S. AddFunction M S \<in> set ops) \<or> (\<exists>S. AddConstant M S \<in> set ops)"
  by (induction ops arbitrary: T) (auto simp: has_module_step)

lemma flat_function_run:
  "lookupFlatFunctionImport C N (fold module_step ops T) =
    (case lookupFlatFunctionImport C N T of Some P \<Rightarrow> Some P | None \<Rightarrow> map_of (flat_functions C ops) N)"
proof (induction ops arbitrary: T)
  case (Cons g ops)
  moreover have "flat_functions C (g # ops) = flat_functions C [g] @ flat_functions C ops" by (cases g) auto
  ultimately show ?case by (simp add: flat_function_step map_add_def split: option.split)
qed (simp split: option.split)

lemma flat_constant_run:
  "lookupFlatConstantImport C N (fold module_step ops T) =
    (case lookupFlatConstantImport C N T of Some P \<Rightarrow> Some P | None \<Rightarrow> map_of (flat_constants C ops) N)"
proof (induction ops arbitrary: T)
  case (Cons g ops)
  moreover have "flat_constants C (g # ops) = flat_constants C [g] @ flat_constants C ops" by (cases g) auto
  ultimately show ?case by (simp add: flat_constant_step map_add_def split: option.split)
qed (simp split: option.split)

lemma flat_type_run:
  "lookupFlatTypeImport C N (fold module_step ops T) =
    (case lookupFlatTypeImport C N T of Some P \<Rightarrow> Some P | None \<Rightarrow> map_of (flat_types C ops) N)"
proof (induction ops arbitrary: T)
  case (Cons g ops)
  moreover have "flat_types C (g # ops) = flat_types C [g] @ flat_types C ops" by (cases g) auto
  ultimately show ?case by (simp add: flat_type_step map_add_def split: option.split)
qed (simp split: option.split)

lemma nothing_yet [simp]:
  "lookupFlatFunctionImport C N no_modules = None" "lookupFlatConstantImport C N no_modules = None"
  "lookupFlatTypeImport C N no_modules = None" "\<not> noted C M (BareImports no_modules)"
  "\<not> noted C M (SymbolImports no_modules)" "\<not> hasModule M no_modules"
  by (simp_all add: no_modules_def lookupFlatFunctionImport_def lookupFlatConstantImport_def lookupFlatTypeImport_def
    lookup_flat_def noted_def hasModule_def)

text \<open>The modules have their keys once, so a search through all of them finds what each of them has.\<close>

lemma module_keys: "distinct (map fst (Modules T)) \<Longrightarrow> distinct (map fst (Modules (module_step g T)))"
  by (cases g) (auto simp: table_parts Let_def emplace_def map_of_eq_None_iff AList.distinct_update split: prod.splits)

lemma module_keys_run: "distinct (map fst (Modules (module_run ops)))"
proof -
  have "distinct (map fst (Modules T)) \<Longrightarrow> distinct (map fst (Modules (fold module_step ops T)))" for T
    by (induction ops arbitrary: T) (auto intro: module_keys)
  then show ?thesis by (simp add: module_run_def no_modules_def)
qed

lemma found_pairs:
  "(M, S) \<in> set (findInModules N T) \<longleftrightarrow> (\<exists>D. (M, D) \<in> set (Modules T) \<and> S \<in> set (overloads (Functions D) N))"
  by (force simp: findInModules_def)

lemma in_modules:
  assumes "distinct (map fst (Modules T))"
  shows "(M, S) \<in> set (findInModules N T) \<longleftrightarrow> S \<in> set (overloads (Functions (the_module M T)) N)"
proof -
  have "(M, D) \<in> set (Modules T) \<longleftrightarrow> map_of (Modules T) M = Some D" for D
    using assms by (simp add: map_of_eq_Some_iff)
  then show ?thesis unfolding found_pairs
    by (cases "map_of (Modules T) M") (simp_all add: the_module_def empty_module_def overloads_def [of "[]"])
qed

lemma firsts_sub: "set (firsts Ss) \<subseteq> set Ss"
  by (induction Ss) auto

lemma firsts_differ: "sorted_wrt (\<lambda>a b. \<not> same_params a b) (firsts Ss)"
  by (induction Ss) (auto simp: sorted_wrt_filter)



section \<open>Symbol names\<close>

definition plain_function :: "string \<Rightarrow> TurfType option list \<Rightarrow> ResolverFunctionSymbol" where
  "plain_function Name Types = \<lparr>BaseName = Name, SourceModule = [], Params = map (\<lambda>t. \<lparr>ParamName = ''x'', ParamType = t\<rparr>) Types,
     ReturnType = Some IntType, FnDeclLoc = (1, 1), IsVarArg = False, IsExtern = False, IsPublic = False\<rparr>"

text \<open>The name of an instance is the name of an ordinary function that spells the marker itself.\<close>

lemma instance_name_collides:
  "mangledNameForInstantiation [Some IntType] (plain_function ''identity'' [Some IntType]) =
   mangledName (plain_function ''identity_gen1_int'' [Some IntType])"
  by code_simp

text \<open>Foreign functions and \<open>main\<close> keep their own names.\<close>

lemma mangled_foreign: "IsExtern Sym \<or> BaseName Sym = ''main'' \<Longrightarrow> mangledName Sym = BaseName Sym"
  by (auto simp: mangledName_def)

end
