(* ===== verification/TypeRegistry.thy ===== *)
theory TypeRegistry
  imports TypeWalk
begin

text \<open>
  The registry of the structs, enums and error types of a program (\<open>src/src/resolve/ResolverTypeRegistry.h\<close>,
  \<open>ResolverTypeRegistry.cpp\<close>). Everything is keyed by the identity of a type. A hash map is a list of pairs
  without repeated keys; the answers that are sorted do not depend on its order.
\<close>

type_synonym ResolverSourceLocation = "int \<times> int"

record TypeVisibilityInfo =
  VisIsPublic :: bool
  VisDeclLoc :: ResolverSourceLocation
  VisKeyword :: string

record ResolverTypeRegistry =
  RegisteredStructs :: "(string \<times> ResolverSourceLocation) list"
  RegisteredEnums :: "(string \<times> TurfType) list"
  EnumDeclLocs :: "(string \<times> ResolverSourceLocation) list"
  RegisteredErrorTypes :: "(string \<times> TurfType) list"
  ErrorDeclLocs :: "(string \<times> ResolverSourceLocation) list"
  TypeOwningModule :: "(string \<times> string) list"
  TypeVisibility :: "(string \<times> TypeVisibilityInfo) list"

definition empty_registry :: ResolverTypeRegistry where
  "empty_registry = \<lparr>RegisteredStructs = [], RegisteredEnums = [], EnumDeclLocs = [], RegisteredErrorTypes = [],
     ErrorDeclLocs = [], TypeOwningModule = [], TypeVisibility = []\<rparr>"

section \<open>Registration\<close>

text \<open>A key that is not owned by the module that registers it ends the compiler; \<open>Inl\<close> is its message.\<close>

definition checkIdentityKey :: "string \<Rightarrow> string \<Rightarrow> string \<Rightarrow> string option" where
  "checkIdentityKey Identity ModuleName Kind =
    (if owningModule Identity = ModuleName then None
     else Some (''Internal compiler error: '' @ Kind @ '' type '' @ [CHR 0x27] @ Identity @ [CHR 0x27] @ '' registered as owned by module ''
       @ [CHR 0x27] @ (if ModuleName = [] then ''(main file)'' else ModuleName) @ [CHR 0x27]
       @ '' (INV-TYPE-3). This is a compiler bug.''))"

definition registerStruct ::
    "string \<Rightarrow> ResolverSourceLocation \<Rightarrow> string \<Rightarrow> ResolverTypeRegistry \<Rightarrow> string + ResolverSourceLocation option \<times> ResolverTypeRegistry" where
  "registerStruct Name Loc ModuleName R = (case checkIdentityKey Name ModuleName ''struct'' of
      Some msg \<Rightarrow> Inl msg
    | None \<Rightarrow>
        (case map_of (RegisteredStructs R) Name of
           Some Prev \<Rightarrow> Inr (Some Prev, R)
         | None \<Rightarrow> Inr (None, R\<lparr>RegisteredStructs := emplace Name Loc (RegisteredStructs R),
                               TypeOwningModule := emplace Name ModuleName (TypeOwningModule R)\<rparr>)))"

definition registerEnumType ::
    "string \<Rightarrow> ResolverSourceLocation \<Rightarrow> TurfType \<Rightarrow> string \<Rightarrow> ResolverTypeRegistry \<Rightarrow>
     string + ResolverSourceLocation option \<times> ResolverTypeRegistry" where
  "registerEnumType Name Loc ET ModuleName R = (case checkIdentityKey Name ModuleName ''enum'' of
      Some msg \<Rightarrow> Inl msg
    | None \<Rightarrow>
        (case map_of (EnumDeclLocs R) Name of
           Some Prev \<Rightarrow> Inr (Some Prev, R)
         | None \<Rightarrow> Inr (None, R\<lparr>EnumDeclLocs := emplace Name Loc (EnumDeclLocs R),
                               RegisteredEnums := AList.update Name ET (RegisteredEnums R),
                               TypeOwningModule := emplace Name ModuleName (TypeOwningModule R)\<rparr>)))"

definition registerErrorType ::
    "string \<Rightarrow> ResolverSourceLocation \<Rightarrow> TurfType \<Rightarrow> string \<Rightarrow> ResolverTypeRegistry \<Rightarrow>
     string + ResolverSourceLocation option \<times> ResolverTypeRegistry" where
  "registerErrorType Name Loc ET ModuleName R = (case checkIdentityKey Name ModuleName ''error'' of
      Some msg \<Rightarrow> Inl msg
    | None \<Rightarrow>
        (case map_of (ErrorDeclLocs R) Name of
           Some Prev \<Rightarrow> Inr (Some Prev, R)
         | None \<Rightarrow> Inr (None, R\<lparr>ErrorDeclLocs := emplace Name Loc (ErrorDeclLocs R),
                               RegisteredErrorTypes := AList.update Name ET (RegisteredErrorTypes R),
                               TypeOwningModule := emplace Name ModuleName (TypeOwningModule R)\<rparr>)))"

definition markTypeVisibility :: "string \<Rightarrow> TypeVisibilityInfo \<Rightarrow> ResolverTypeRegistry \<Rightarrow> ResolverTypeRegistry" where
  "markTypeVisibility Identity Info R = R\<lparr>TypeVisibility := AList.update Identity Info (TypeVisibility R)\<rparr>"

section \<open>Queries\<close>

definition isKnownStruct :: "string \<Rightarrow> ResolverTypeRegistry \<Rightarrow> bool" where
  "isKnownStruct Name R \<longleftrightarrow> map_of (RegisteredStructs R) Name \<noteq> None"

definition getAllStructNames :: "ResolverTypeRegistry \<Rightarrow> string list" where
  "getAllStructNames R = sort (map fst (RegisteredStructs R))"

definition lookupEnumType :: "string \<Rightarrow> ResolverTypeRegistry \<Rightarrow> TurfType option" where
  "lookupEnumType Name R = map_of (RegisteredEnums R) Name"

definition isEnumName :: "string \<Rightarrow> ResolverTypeRegistry \<Rightarrow> bool" where
  "isEnumName Name R \<longleftrightarrow> map_of (RegisteredEnums R) Name \<noteq> None"

definition getAllEnumNames :: "ResolverTypeRegistry \<Rightarrow> string list" where
  "getAllEnumNames R = sort (map fst (RegisteredEnums R))"

definition lookupErrorType :: "string \<Rightarrow> ResolverTypeRegistry \<Rightarrow> TurfType option" where
  "lookupErrorType Name R = map_of (RegisteredErrorTypes R) Name"

definition isErrorTypeName :: "string \<Rightarrow> ResolverTypeRegistry \<Rightarrow> bool" where
  "isErrorTypeName Name R \<longleftrightarrow> map_of (RegisteredErrorTypes R) Name \<noteq> None"

definition getAllErrorTypeNames :: "ResolverTypeRegistry \<Rightarrow> string list" where
  "getAllErrorTypeNames R = sort (map fst (RegisteredErrorTypes R))"

definition getTypeOwningModule :: "string \<Rightarrow> ResolverTypeRegistry \<Rightarrow> string" where
  "getTypeOwningModule Name R = (case map_of (TypeOwningModule R) Name of None \<Rightarrow> [] | Some M \<Rightarrow> M)"

definition isKnownTypeIdentity :: "string \<Rightarrow> ResolverTypeRegistry \<Rightarrow> bool" where
  "isKnownTypeIdentity Identity R \<longleftrightarrow> map_of (TypeOwningModule R) Identity \<noteq> None"

definition getModuleTypeNames :: "string \<Rightarrow> ResolverTypeRegistry \<Rightarrow> string list" where
  "getModuleTypeNames ModuleName R =
    sort (map (\<lambda>(Ident, M). bareName Ident) (filter (\<lambda>(Ident, M). M = ModuleName) (TypeOwningModule R)))"

definition typeVisibility :: "string \<Rightarrow> ResolverTypeRegistry \<Rightarrow> TypeVisibilityInfo option" where
  "typeVisibility Identity R = map_of (TypeVisibility R) Identity"

definition isTypePublic :: "string \<Rightarrow> ResolverTypeRegistry \<Rightarrow> bool" where
  "isTypePublic Identity R = (case typeVisibility Identity R of Some Info \<Rightarrow> VisIsPublic Info | None \<Rightarrow> False)"

definition getModulePublicTypeNames :: "string \<Rightarrow> ResolverTypeRegistry \<Rightarrow> string list" where
  "getModulePublicTypeNames ModuleName R =
    sort (map (\<lambda>(Ident, M). bareName Ident) (filter (\<lambda>(Ident, M). M = ModuleName \<and> isTypePublic Ident R) (TypeOwningModule R)))"

definition identitiesWithBareName :: "string \<Rightarrow> ResolverTypeRegistry \<Rightarrow> string list" where
  "identitiesWithBareName Name R = sort (map fst (filter (\<lambda>(Ident, M). bareName Ident = Name) (TypeOwningModule R)))"

section \<open>The listing of \<open>--dump-modules\<close>\<close>

definition dumpStructNames :: "ResolverTypeRegistry \<Rightarrow> string" where
  "dumpStructNames R = ''--- Registered Struct Names (Pass 1 Hoist) ---'' @ [CHR 0x0A] @
    (if RegisteredStructs R = [] then ''  (none)'' @ [CHR 0x0A]
     else concat (map (\<lambda>N. ''  struct '' @ N @ [CHR 0x0A]) (getAllStructNames R)))"

text \<open>By module, the main file first; within a module sorted by identity.\<close>

definition owners :: "ResolverTypeRegistry \<Rightarrow> string list" where
  "owners R = sort (remdups (map snd (TypeOwningModule R)))"

definition dump_owned :: "ResolverTypeRegistry \<Rightarrow> string \<Rightarrow> string" where
  "dump_owned R M =
    (if M = [] then ''(main file)'' else ''Module '' @ [CHR 0x27] @ M @ [CHR 0x27]) @ '' declares:'' @ [CHR 0x0A] @
    concat (map (\<lambda>T. ''    '' @ (if map_of (RegisteredEnums R) T \<noteq> None then ''enum'' else ''struct'') @ '' '' @ T @ [CHR 0x0A])
      (sort (map fst (filter (\<lambda>(Ident, M'). M' = M) (TypeOwningModule R)))))"

definition dumpTypeOwnership :: "ResolverTypeRegistry \<Rightarrow> string" where
  "dumpTypeOwnership R = [CHR 0x0A] @ ''--- Struct/Enum Type Ownership ---'' @ [CHR 0x0A] @
    (if TypeOwningModule R = [] then ''  (no struct/enum types registered)'' @ [CHR 0x0A]
     else concat (map (dump_owned R) (owners R)))"

section \<open>The invariant\<close>

definition keys :: "('k \<times> 'v) list \<Rightarrow> 'k set" where
  "keys M = fst ` set M"

lemma keys_emplace [simp]: "keys (emplace k v M) = insert k (keys M)"
  by (force simp: keys_def emplace_def dest: map_of_SomeD)

lemma keys_update [simp]: "keys (AList.update k v M) = insert k (keys M)"
  by (simp add: keys_def AList.dom_update)

lemma keys_map_of: "map_of M k \<noteq> None \<longleftrightarrow> k \<in> keys M"
  by (simp add: keys_def map_of_eq_None_iff)

lemma keys_Nil [simp]: "keys [] = {}"
  by (simp add: keys_def)

definition owned_well :: "(string \<times> string) list \<Rightarrow> bool" where
  "owned_well M \<longleftrightarrow> distinct (map fst M) \<and> list_all (\<lambda>(Ident, Module). owningModule Ident = Module) M"

lemma owned_well_emplace: "owned_well M \<Longrightarrow> owningModule Ident = Module \<Longrightarrow> owned_well (emplace Ident Module M)"
  by (auto simp: owned_well_def emplace_def map_of_eq_None_iff list_all_iff)

definition registry_ok :: "ResolverTypeRegistry \<Rightarrow> bool" where
  "registry_ok R \<longleftrightarrow> owned_well (TypeOwningModule R) \<and>
    keys (TypeOwningModule R) = keys (RegisteredStructs R) \<union> keys (EnumDeclLocs R) \<union> keys (ErrorDeclLocs R) \<and>
    keys (RegisteredEnums R) = keys (EnumDeclLocs R) \<and> keys (RegisteredErrorTypes R) = keys (ErrorDeclLocs R)"

lemma owned_key [simp]: "checkIdentityKey Ident M Kind = None \<longleftrightarrow> owningModule Ident = M"
  by (simp add: checkIdentityKey_def)

text \<open>What a registration that does not end the compiler does.\<close>

lemma registered_struct:
  assumes "registerStruct Name Loc M R = Inr (p, R')"
  shows "owningModule Name = M \<and> p = map_of (RegisteredStructs R) Name \<and>
    R' = (if p = None then R\<lparr>RegisteredStructs := emplace Name Loc (RegisteredStructs R),
                            TypeOwningModule := emplace Name M (TypeOwningModule R)\<rparr> else R)"
  using assms by (auto simp: registerStruct_def split: option.split_asm)

lemma registered_enum:
  assumes "registerEnumType Name Loc ET M R = Inr (p, R')"
  shows "owningModule Name = M \<and> p = map_of (EnumDeclLocs R) Name \<and>
    R' = (if p = None then R\<lparr>EnumDeclLocs := emplace Name Loc (EnumDeclLocs R),
                            RegisteredEnums := AList.update Name ET (RegisteredEnums R),
                            TypeOwningModule := emplace Name M (TypeOwningModule R)\<rparr> else R)"
  using assms by (auto simp: registerEnumType_def split: option.split_asm)

lemma registered_error:
  assumes "registerErrorType Name Loc ET M R = Inr (p, R')"
  shows "owningModule Name = M \<and> p = map_of (ErrorDeclLocs R) Name \<and>
    R' = (if p = None then R\<lparr>ErrorDeclLocs := emplace Name Loc (ErrorDeclLocs R),
                            RegisteredErrorTypes := AList.update Name ET (RegisteredErrorTypes R),
                            TypeOwningModule := emplace Name M (TypeOwningModule R)\<rparr> else R)"
  using assms by (auto simp: registerErrorType_def split: option.split_asm)

lemma register_struct_ok: "registry_ok R \<Longrightarrow> registerStruct Name Loc M R = Inr (p, R') \<Longrightarrow> registry_ok R'"
  using registered_struct [of Name Loc M R p R'] by (auto simp: registry_ok_def owned_well_emplace)

lemma register_enum_ok: "registry_ok R \<Longrightarrow> registerEnumType Name Loc ET M R = Inr (p, R') \<Longrightarrow> registry_ok R'"
  using registered_enum [of Name Loc ET M R p R'] by (auto simp: registry_ok_def owned_well_emplace)

lemma register_error_ok: "registry_ok R \<Longrightarrow> registerErrorType Name Loc ET M R = Inr (p, R') \<Longrightarrow> registry_ok R'"
  using registered_error [of Name Loc ET M R p R'] by (auto simp: registry_ok_def owned_well_emplace)

lemma mark_ok [simp]: "registry_ok (markTypeVisibility Name Info R) = registry_ok R"
  by (simp add: registry_ok_def markTypeVisibility_def)

lemma empty_registry_ok: "registry_ok empty_registry"
  by (simp add: registry_ok_def empty_registry_def owned_well_def)

section \<open>Identities\<close>

lemma known_owner: "registry_ok R \<Longrightarrow> isKnownTypeIdentity Ident R \<Longrightarrow> getTypeOwningModule Ident R = owningModule Ident"
  by (auto simp: registry_ok_def owned_well_def list_all_iff isKnownTypeIdentity_def getTypeOwningModule_def dest!: map_of_SomeD)

lemma find_after_plain: "CHR '':'' \<notin> set M \<Longrightarrow> str_find ''::'' (M @ ''::'' @ N) = Some (length M)"
  by (induction M) (auto simp: starts_with_iff)

lemma find_plain: "CHR '':'' \<notin> set N \<Longrightarrow> str_find ''::'' N = None"
  by (auto simp: str_find_None)

lemma identity_parts:
  assumes "CHR '':'' \<notin> set Module" and "Module = [] \<Longrightarrow> CHR '':'' \<notin> set Name"
  shows "owningModule (identity_of Module Name) = Module \<and> bareName (identity_of Module Name) = Name \<and>
    (isModuleQualified (identity_of Module Name) \<longleftrightarrow> Module \<noteq> [])"
  using assms find_after_plain [OF assms(1), of Name] find_plain [of Name]
  by (simp add: identity_of_def owningModule_def bareName_def isModuleQualified_def)

lemma identity_again: "identity_of (owningModule Ident) (bareName Ident) = Ident \<or> owningModule Ident = []"
proof (cases "str_find ''::'' Ident")
  case (Some P)
  then have "Ident = take P Ident @ ''::'' @ drop (P + 2) Ident"
  proof (induction Ident arbitrary: P)
    case (Cons c cs)
    show ?case
    proof (cases "starts_with ''::'' (c # cs)")
      case True
      then show ?thesis using Cons.prems by (auto simp: starts_with_iff)
    next
      case False
      with Cons.prems obtain Q where "str_find ''::'' cs = Some Q" "P = Suc Q" by auto
      with Cons.IH show ?thesis by simp
    qed
  qed simp
  then show ?thesis using Some by (auto simp: identity_of_def owningModule_def bareName_def)
qed (simp add: owningModule_def)

text \<open>What the lists of names contain.\<close>

lemma keys_iff: "k \<in> keys M \<longleftrightarrow> (\<exists>v. (k, v) \<in> set M)"
proof
  assume "k \<in> keys M"
  then obtain p where "p \<in> set M" "k = fst p" by (auto simp: keys_def)
  then have "(k, snd p) \<in> set M" by simp
  then show "\<exists>v. (k, v) \<in> set M" ..
next
  assume "\<exists>v. (k, v) \<in> set M"
  then obtain v where "(k, v) \<in> set M" ..
  then have "fst (k, v) \<in> fst ` set M" by (rule imageI)
  then show "k \<in> keys M" by (simp add: keys_def)
qed

lemma known_in: "isKnownTypeIdentity Ident R \<longleftrightarrow> (\<exists>M. (Ident, M) \<in> set (TypeOwningModule R))"
  by (simp only: isKnownTypeIdentity_def keys_map_of keys_iff)

lemma owned_pair:
  assumes "registry_ok R" and "(Ident, M) \<in> set (TypeOwningModule R)"
  shows "owningModule Ident = M"
  using assms by (auto simp: registry_ok_def owned_well_def list_all_iff)

lemma owned_pairs:
  assumes "registry_ok R"
  shows "(Ident, M) \<in> set (TypeOwningModule R) \<longleftrightarrow> isKnownTypeIdentity Ident R \<and> owningModule Ident = M"
  using owned_pair [OF assms] by (auto simp: known_in)

lemma module_type_names:
  assumes "registry_ok R"
  shows "set (getModuleTypeNames M R) = {bareName Ident | Ident. isKnownTypeIdentity Ident R \<and> owningModule Ident = M}"
  by (auto simp: getModuleTypeNames_def owned_pairs [OF assms] image_iff)

lemma identities_with_name:
  "set (identitiesWithBareName Name R) = {Ident. isKnownTypeIdentity Ident R \<and> bareName Ident = Name}"
  by (force simp: identitiesWithBareName_def known_in)

section \<open>Runs\<close>

text \<open>The registrations of a program, in the order the resolver makes them.\<close>

datatype registration =
    RegStruct string ResolverSourceLocation string
  | RegEnum string ResolverSourceLocation TurfType string
  | RegError string ResolverSourceLocation TurfType string
  | MarkVisible string TypeVisibilityInfo

fun register_one :: "registration \<Rightarrow> ResolverTypeRegistry \<Rightarrow> string + ResolverSourceLocation option \<times> ResolverTypeRegistry" where
  "register_one (RegStruct Name Loc M) R = registerStruct Name Loc M R"
| "register_one (RegEnum Name Loc ET M) R = registerEnumType Name Loc ET M R"
| "register_one (RegError Name Loc ET M) R = registerErrorType Name Loc ET M R"
| "register_one (MarkVisible Name Info) R = Inr (None, markTypeVisibility Name Info R)"

fun register_all :: "registration list \<Rightarrow> ResolverTypeRegistry \<Rightarrow> string + ResolverTypeRegistry" where
  "register_all [] R = Inr R"
| "register_all (g # gs) R = (case register_one g R of Inl msg \<Rightarrow> Inl msg | Inr (_, R') \<Rightarrow> register_all gs R')"

lemma register_one_ok: "registry_ok R \<Longrightarrow> register_one g R = Inr (p, R') \<Longrightarrow> registry_ok R'"
  by (cases g) (auto intro: register_struct_ok register_enum_ok register_error_ok)

lemma register_all_ok: "registry_ok R \<Longrightarrow> register_all gs R = Inr R' \<Longrightarrow> registry_ok R'"
  by (induction gs arbitrary: R) (auto split: sum.split_asm intro: register_one_ok)

text \<open>A declaration, once registered, keeps its place and its type.\<close>

lemma emplace_keeps: "map_of M k = Some v \<Longrightarrow> map_of (emplace k' v' M) k = Some v"
  by (auto simp: emplace_def)

lemma keys_Some: "map_of M k = Some v \<Longrightarrow> k \<in> keys M"
  by (metis keys_map_of option.distinct(1))

lemma keys_None: "map_of M k = None \<longleftrightarrow> k \<notin> keys M"
  by (metis keys_map_of)

lemma update_keeps:
  "map_of M k = Some v \<Longrightarrow> k \<in> K \<Longrightarrow> k' \<notin> K \<Longrightarrow> map_of (AList.update k' v' M) k = Some v"
  by (auto simp: AList.update_conv')

lemma struct_stays:
  assumes "register_one g R = Inr (p, R')" and "map_of (RegisteredStructs R) Name = Some Loc"
  shows "map_of (RegisteredStructs R') Name = Some Loc"
  using assms by (cases g) (auto dest!: registered_struct registered_enum registered_error simp: emplace_keeps markTypeVisibility_def)

lemma enum_stays:
  assumes "register_one g R = Inr (p, R')" and "registry_ok R" and "lookupEnumType Name R = Some ET"
  shows "lookupEnumType Name R' = Some ET"
proof -
  have "Name \<in> keys (EnumDeclLocs R)" using assms(2,3) by (auto simp: lookupEnumType_def registry_ok_def dest: keys_Some)
  then show ?thesis using assms(1,3)
    by (cases g) (auto dest!: registered_struct registered_enum registered_error
      simp: lookupEnumType_def keys_None markTypeVisibility_def intro: update_keeps)
qed

lemma error_stays:
  assumes "register_one g R = Inr (p, R')" and "registry_ok R" and "lookupErrorType Name R = Some ET"
  shows "lookupErrorType Name R' = Some ET"
proof -
  have "Name \<in> keys (ErrorDeclLocs R)" using assms(2,3) by (auto simp: lookupErrorType_def registry_ok_def dest: keys_Some)
  then show ?thesis using assms(1,3)
    by (cases g) (auto dest!: registered_struct registered_enum registered_error
      simp: lookupErrorType_def keys_None markTypeVisibility_def intro: update_keeps)
qed

lemma enum_stays_all:
  "register_all gs R = Inr R' \<Longrightarrow> registry_ok R \<Longrightarrow> lookupEnumType Name R = Some ET \<Longrightarrow> lookupEnumType Name R' = Some ET"
  by (induction gs arbitrary: R) (auto split: sum.split_asm dest: register_one_ok intro: enum_stays)

text \<open>
  The registry of user types, after any sequence of registrations that did not end the compiler
  (INV-TYPE-3): every registered identity is owned by the module its own name spells; it is registered as a
  struct, an enum or an error type, and nothing else is; enums and error types have a type exactly where they
  have a place; the types of a module are the bare names of the identities that name spells; the candidates of
  a bare name are the known identities that end in it; and an enum keeps the type of its first declaration
  whatever is registered afterwards.
\<close>

theorem registered_types_are_owned:
  assumes "register_all gs empty_registry = Inr R"
  shows "(isKnownTypeIdentity Ident R \<longrightarrow> getTypeOwningModule Ident R = owningModule Ident) \<and>
    (isKnownTypeIdentity Ident R \<longleftrightarrow> isKnownStruct Ident R \<or> isEnumName Ident R \<or> isErrorTypeName Ident R) \<and>
    set (getModuleTypeNames M R) = {bareName I | I. isKnownTypeIdentity I R \<and> owningModule I = M} \<and>
    set (identitiesWithBareName Name R) = {I. isKnownTypeIdentity I R \<and> bareName I = Name} \<and>
    (lookupEnumType Ident R = Some ET \<longrightarrow> (\<forall>hs R'. register_all hs R = Inr R' \<longrightarrow> lookupEnumType Ident R' = Some ET))"
proof -
  have ok: "registry_ok R" using register_all_ok [OF empty_registry_ok assms] .
  have "isKnownTypeIdentity Ident R \<longleftrightarrow> isKnownStruct Ident R \<or> isEnumName Ident R \<or> isErrorTypeName Ident R"
    using ok unfolding isKnownTypeIdentity_def isKnownStruct_def isEnumName_def isErrorTypeName_def keys_map_of registry_ok_def by blast
  moreover have "lookupEnumType Ident R = Some ET \<longrightarrow>
      (\<forall>hs R'. register_all hs R = Inr R' \<longrightarrow> lookupEnumType Ident R' = Some ET)"
    using enum_stays_all ok by iprover
  ultimately show ?thesis
    by (intro conjI impI known_owner [OF ok] module_type_names [OF ok] identities_with_name) iprover+
qed

definition registered_example :: "registration list" where
  "registered_example = [RegStruct ''Point'' (1, 1) [], RegEnum ''geo::Color'' (3, 1) VoidType ''geo'',
     RegStruct ''geo::Point'' (5, 1) ''geo'', MarkVisible ''geo::Color'' \<lparr>VisIsPublic = True, VisDeclLoc = (3, 1), VisKeyword = ''enum''\<rparr>,
     RegEnum ''geo::Color'' (9, 1) IntType ''geo'', RegError ''IoError'' (7, 1) VoidType []]"

theorem registered_types_are_owned_witness:
  "\<exists>R. register_all registered_example empty_registry = Inr R \<and> getTypeOwningModule ''geo::Color'' R = ''geo'' \<and>
    getModuleTypeNames ''geo'' R = [''Color'', ''Point''] \<and> lookupEnumType ''geo::Color'' R = Some VoidType \<and>
    identitiesWithBareName ''Point'' R = [''Point'', ''geo::Point'']"
proof -
  let ?R = "case register_all registered_example empty_registry of Inr R \<Rightarrow> R | Inl _ \<Rightarrow> empty_registry"
  have run: "register_all registered_example empty_registry = Inr ?R" by code_simp
  have known: "isKnownTypeIdentity ''geo::Color'' ?R" and names: "getModuleTypeNames ''geo'' ?R = [''Color'', ''Point'']"
    and kept: "lookupEnumType ''geo::Color'' ?R = Some VoidType"
    and found: "identitiesWithBareName ''Point'' ?R = [''Point'', ''geo::Point'']" by code_simp+
  have "owningModule ''geo::Color'' = ''geo''" by code_simp
  moreover have "getTypeOwningModule ''geo::Color'' ?R = owningModule ''geo::Color''"
    using registered_types_are_owned [OF run, THEN conjunct1] known by (rule mp)
  ultimately have "getTypeOwningModule ''geo::Color'' ?R = ''geo''" by (simp only:)
  then show ?thesis by (intro exI conjI) (rule run names kept found | assumption)+
qed

end
