(* ===== verification/NameTables.thy ===== *)
theory NameTables
  imports ModuleTable TypeRegistry
begin

text \<open>
  Pass 1a of the Resolver: every type declaration and every import of a program is entered into the tables before
  anything is resolved (\<open>src/src/resolve/ResolverTypeIdentity.cpp\<close>), and the questions that need both the modules
  and the types (\<open>ResolverSymbolTable.h\<close>, \<open>ResolverVisibility.cpp\<close>). An error that is raised ends the pass; it is
  the left value of the result.
\<close>

section \<open>State\<close>

record NameState =
  ModuleTab :: ResolverModuleTable
  TypeReg :: ResolverTypeRegistry
  HoistedStructDecls :: "string list"
  GenericStructIdentities :: "(string \<times> string list) list"
  ModuleFiles :: "(string \<times> string) list"

definition no_names :: NameState where
  "no_names = \<lparr>ModuleTab = no_modules, TypeReg = empty_registry, HoistedStructDecls = [],
     GenericStructIdentities = [], ModuleFiles = []\<rparr>"

section \<open>Visibility\<close>

definition isTypeVisibleFrom :: "string \<Rightarrow> string \<Rightarrow> NameState \<Rightarrow> bool" where
  "isTypeVisibleFrom Identity FromModule T \<longleftrightarrow>
    owningModule Identity = FromModule \<or> isTypePublic Identity (TypeReg T)"

definition isTypeVisibleUnqualified :: "string \<Rightarrow> string \<Rightarrow> NameState \<Rightarrow> bool" where
  "isTypeVisibleUnqualified Context Identity T =
    (if owningModule Identity = Context then isKnownTypeIdentity Identity (TypeReg T)
     else (case lookupFlatTypeImport Context (bareName Identity) (ModuleTab T) of
             None \<Rightarrow> False | Some Flat \<Rightarrow> FlatSource Flat = owningModule Identity))"

definition unqualifiedTypeCandidates :: "string \<Rightarrow> string \<Rightarrow> NameState \<Rightarrow> string list" where
  "unqualifiedTypeCandidates Context Name T =
    (let Own = identity_of Context Name
     in (if isKnownTypeIdentity Own (TypeReg T) then [Own] else []) @
        (case lookupFlatTypeImport Context Name (ModuleTab T) of
           None \<Rightarrow> []
         | Some Flat \<Rightarrow>
             (let Imported = identity_of (FlatSource Flat) Name
              in if Imported \<noteq> Own \<and> isKnownTypeIdentity Imported (TypeReg T) then [Imported] else [])))"

definition PreludeModuleNames :: "string list" where
  "PreludeModuleNames = [''int'', ''double'', ''bool'', ''char'', ''strings'', ''array'', ''io'', ''math'', ''sys'']"

definition IsPreludeModuleName :: "string \<Rightarrow> bool" where
  "IsPreludeModuleName Name \<longleftrightarrow> Name \<in> set PreludeModuleNames"

definition mayQualifyWith :: "string \<Rightarrow> string \<Rightarrow> NameState \<Rightarrow> bool" where
  "mayQualifyWith Module Context T \<longleftrightarrow> IsPreludeModuleName Module \<or> isModuleImportedBy Module Context (ModuleTab T)"

text \<open>
  The overloads another module may call. A name whose overloads are all private is an error, raised for the module
  of the first one dropped, as a method when the name has a dot.
\<close>

definition filterToVisibleOverloads ::
    "string \<Rightarrow> string \<Rightarrow> (string \<times> ResolverFunctionSymbol) list \<Rightarrow> string \<times> bool + (string \<times> ResolverFunctionSymbol) list" where
  "filterToVisibleOverloads From Name Matches =
    (let Kept = filter (\<lambda>(M, S). M = From \<or> IsPublic S) Matches;
         Dropped = filter (\<lambda>(M, S). \<not> (M = From \<or> IsPublic S)) Matches
     in if Kept = [] \<and> Dropped \<noteq> [] then Inl (fst (hd Dropped), CHR ''.'' \<in> set Name) else Inr Kept)"

section \<open>Declarations of types\<close>

datatype ImportMode = BareMode | SymbolMode | SymbolListMode | WildcardMode

text \<open>What the pass reads of a declaration. Every name is already the identity the Parser gave it.\<close>

datatype TopDecl =
    StructDecl string ResolverSourceLocation bool "string list"
  | EnumDecl string ResolverSourceLocation bool "string list" TurfType
  | MachineDecl string ResolverSourceLocation bool "string list" "(string \<times> string) list"
  | ErrorDecl string ResolverSourceLocation bool "(string \<times> (string \<times> TurfType) list) list" bool
  | ModuleImport string ImportMode ResolverSourceLocation string "(string \<times> ResolverSourceLocation) list" "TopDecl list"
  | OtherDecl

datatype hoist_error =
    DuplicateTypeName ResolverSourceLocation string string ResolverSourceLocation
  | ImportSymbolCollision ResolverSourceLocation string string string ResolverSourceLocation
  | InternalError string

text \<open>The edges of a machine, as the sorted map of sorted sets the code builds.\<close>

definition edge_map :: "(string \<times> string) list \<Rightarrow> (string \<times> string list) list" where
  "edge_map Es = map (\<lambda>f. (f, sort (remdups (map snd (filter (\<lambda>e. fst e = f) Es))))) (sort (remdups (map fst Es)))"

text \<open>The end of a registration: the error of a second one, or the mark of its visibility.\<close>

definition registered ::
    "string \<Rightarrow> ResolverSourceLocation \<Rightarrow> string \<Rightarrow> TypeVisibilityInfo \<Rightarrow>
     string + ResolverSourceLocation option \<times> ResolverTypeRegistry \<Rightarrow> NameState \<Rightarrow> hoist_error + NameState" where
  "registered Name Loc Kind Info r T = (case r of
      Inl msg \<Rightarrow> Inl (InternalError msg)
    | Inr (Some Prev, R) \<Rightarrow> Inl (DuplicateTypeName Loc Name Kind Prev)
    | Inr (None, R) \<Rightarrow> Inr (T\<lparr>TypeReg := markTypeVisibility Name Info R\<rparr>))"

definition visibility :: "bool \<Rightarrow> ResolverSourceLocation \<Rightarrow> string \<Rightarrow> TypeVisibilityInfo" where
  "visibility Pub Loc Keyword = \<lparr>VisIsPublic = Pub, VisDeclLoc = Loc, VisKeyword = Keyword\<rparr>"

text \<open>An import of one name as a type: names that are not types and private types are left to another pass.\<close>

definition import_type ::
    "string \<Rightarrow> string \<Rightarrow> string \<times> ResolverSourceLocation \<Rightarrow> NameState \<Rightarrow> hoist_error + NameState" where
  "import_type Src Context Ref T =
    (let Id' = identity_of Src (fst Ref)
     in if \<not> isKnownTypeIdentity Id' (TypeReg T) then Inr T
        else if \<not> isTypeVisibleFrom Id' Context T then Inr T
        else (case registerFlatTypeImport Context (fst Ref) \<lparr>FlatSource = Src, FlatLoc = snd Ref\<rparr> (ModuleTab T) of
            (Some Prev, M) \<Rightarrow>
              if FlatSource Prev \<noteq> Src
              then Inl (ImportSymbolCollision (snd Ref) (fst Ref) (FlatSource Prev) Src (FlatLoc Prev))
              else Inr (T\<lparr>ModuleTab := M\<rparr>)
          | (None, M) \<Rightarrow> Inr (T\<lparr>ModuleTab := M\<rparr>)))"

fun import_types ::
    "string \<Rightarrow> string \<Rightarrow> (string \<times> ResolverSourceLocation) list \<Rightarrow> NameState \<Rightarrow> hoist_error + NameState" where
  "import_types Src Context [] T = Inr T"
| "import_types Src Context (Ref # Refs) T =
    (case import_type Src Context Ref T of Inl e \<Rightarrow> Inl e | Inr T' \<Rightarrow> import_types Src Context Refs T')"

definition registerOnDemandTypeImports ::
    "string \<Rightarrow> ImportMode \<Rightarrow> ResolverSourceLocation \<Rightarrow> (string \<times> ResolverSourceLocation) list \<Rightarrow> string \<Rightarrow>
     NameState \<Rightarrow> hoist_error + NameState" where
  "registerOnDemandTypeImports Src Mode Loc Requested Context T =
    (if Mode = BareMode then Inr T
     else if Mode = WildcardMode
     then import_types Src Context (map (\<lambda>N. (N, Loc)) (getModuleTypeNames Src (TypeReg T))) T
     else import_types Src Context Requested T)"

text \<open>The import itself, before the declarations of the module it names.\<close>

definition note_import :: "string \<Rightarrow> ImportMode \<Rightarrow> string \<Rightarrow> string \<Rightarrow> NameState \<Rightarrow> NameState" where
  "note_import Inner Mode Path Context T = T\<lparr>
     ModuleTab := (if Mode = BareMode then noteBareImport Context Inner else noteSymbolImport Context Inner)
       (registerModule Inner (ModuleTab T)),
     ModuleFiles := (if Path = [] then ModuleFiles T else emplace Inner Path (ModuleFiles T))\<rparr>"

fun hoistTypesIn :: "string \<Rightarrow> TopDecl \<Rightarrow> NameState \<Rightarrow> hoist_error + NameState"
and hoistAll :: "string \<Rightarrow> TopDecl list \<Rightarrow> NameState \<Rightarrow> hoist_error + NameState" where
  "hoistTypesIn ModuleName (StructDecl Name Loc Pub TypeParams) T =
    (case registered Name Loc ''struct'' (visibility Pub Loc ''struct'')
            (registerStruct Name Loc ModuleName (TypeReg T)) T of
       Inl e \<Rightarrow> Inl e
     | Inr T' \<Rightarrow> Inr (T'\<lparr>HoistedStructDecls := HoistedStructDecls T' @ [Name],
         GenericStructIdentities := (if TypeParams = [] then GenericStructIdentities T'
                                     else AList.update Name TypeParams (GenericStructIdentities T'))\<rparr>))"
| "hoistTypesIn ModuleName (EnumDecl Name Loc Pub Variants Underlying) T =
    registered Name Loc ''enum'' (visibility Pub Loc ''enum'')
      (registerEnumType Name Loc (TurfEnumType Name Variants Underlying) ModuleName (TypeReg T)) T"
| "hoistTypesIn ModuleName (MachineDecl Name Loc Pub States Edges) T =
    registered Name Loc ''state machine'' (visibility Pub Loc ''machine'')
      (registerEnumType Name Loc (TurfMachineType Name States (edge_map Edges)) ModuleName (TypeReg T)) T"
| "hoistTypesIn ModuleName (ErrorDecl Name Loc Pub Variants BareForm) T =
    registered Name Loc ''error'' (visibility Pub Loc ''error'')
      (registerErrorType Name Loc (TurfUserErrorType Name Variants BareForm) ModuleName (TypeReg T)) T"
| "hoistTypesIn ModuleName (ModuleImport Inner Mode Loc Path Requested Body) T =
    (case hoistAll Inner Body (note_import Inner Mode Path ModuleName T) of
       Inl e \<Rightarrow> Inl e
     | Inr T' \<Rightarrow> registerOnDemandTypeImports Inner Mode Loc Requested ModuleName T')"
| "hoistTypesIn ModuleName OtherDecl T = Inr T"
| "hoistAll ModuleName [] T = Inr T"
| "hoistAll ModuleName (d # ds) T = (case hoistTypesIn ModuleName d T of Inl e \<Rightarrow> Inl e | Inr T' \<Rightarrow> hoistAll ModuleName ds T')"

definition hoistTypes :: "TopDecl list \<Rightarrow> NameState \<Rightarrow> hoist_error + NameState" where
  "hoistTypes Nodes T = hoistAll [] Nodes T"

section \<open>What hoisting keeps\<close>

fun declared_types :: "TopDecl \<Rightarrow> string list" where
  "declared_types (StructDecl Name _ _ _) = [Name]"
| "declared_types (EnumDecl Name _ _ _ _) = [Name]"
| "declared_types (MachineDecl Name _ _ _ _) = [Name]"
| "declared_types (ErrorDecl Name _ _ _ _) = [Name]"
| "declared_types (ModuleImport _ _ _ _ _ Body) = concat (map declared_types Body)"
| "declared_types OtherDecl = []"

definition known_types :: "NameState \<Rightarrow> string set" where
  "known_types T = keys (TypeOwningModule (TypeReg T))"

lemma known_types_iff: "isKnownTypeIdentity Ident (TypeReg T) \<longleftrightarrow> Ident \<in> known_types T"
  by (simp only: known_types_def isKnownTypeIdentity_def keys_map_of)

definition imports_ok :: "NameState \<Rightarrow> bool" where
  "imports_ok T \<longleftrightarrow> registry_ok (TypeReg T) \<and>
    (\<forall>C N F. lookupFlatTypeImport C N (ModuleTab T) = Some F \<longrightarrow>
       identity_of (FlatSource F) N \<in> known_types T \<and> isTypeVisibleFrom (identity_of (FlatSource F) N) C T)"

lemma no_names_ok: "imports_ok no_names"
  by (simp add: imports_ok_def no_names_def empty_registry_ok)

text \<open>A registration of a new name.\<close>

definition new_name :: "string \<Rightarrow> NameState \<Rightarrow> NameState \<Rightarrow> bool" where
  "new_name Name T T' \<longleftrightarrow> registry_ok (TypeReg T') \<and> known_types T' = insert Name (known_types T) \<and>
    ModuleTab T' = ModuleTab T \<and> (\<forall>Ident. Ident \<noteq> Name \<longrightarrow> isTypePublic Ident (TypeReg T') = isTypePublic Ident (TypeReg T))"

lemma new_name_ok:
  assumes "new_name Name T T'" and "imports_ok T" and "Name \<notin> known_types T"
  shows "imports_ok T' \<and> known_types T' = insert Name (known_types T)"
  using assms unfolding imports_ok_def new_name_def isTypeVisibleFrom_def by (metis insert_iff)

lemma public_mark: "isTypePublic Ident (markTypeVisibility Name Info R) = (if Ident = Name then VisIsPublic Info else isTypePublic Ident R)"
  by (simp add: isTypePublic_def typeVisibility_def markTypeVisibility_def update_conv')

lemma public_same:
  "TypeVisibility R' = TypeVisibility R \<Longrightarrow> isTypePublic Ident R' = isTypePublic Ident R"
  by (simp add: isTypePublic_def typeVisibility_def)

lemma mark_owner [simp]: "TypeOwningModule (markTypeVisibility Name Info R) = TypeOwningModule R"
  by (simp add: markTypeVisibility_def)

lemma registered_new:
  assumes "registered Name Loc Kind Info r T = Inr T'"
    and "\<And>p R. r = Inr (p, R) \<Longrightarrow> registry_ok R \<and> (p = None \<longrightarrow>
      keys (TypeOwningModule R) = insert Name (known_types T) \<and> TypeVisibility R = TypeVisibility (TypeReg T))"
  shows "new_name Name T T'"
proof -
  obtain R where r: "r = Inr (None, R)" and T': "T' = T\<lparr>TypeReg := markTypeVisibility Name Info R\<rparr>"
    using assms(1) by (auto simp: registered_def split: sum.split_asm prod.split_asm option.split_asm)
  with assms(2) [OF r] show ?thesis
    by (auto simp: new_name_def known_types_def public_mark dest: public_same [of R "TypeReg T"])
qed

lemma struct_new:
  assumes "imports_ok T" and "registered Name Loc Kind Info (registerStruct Name L M (TypeReg T)) T = Inr T'"
  shows "new_name Name T T'"
proof (rule registered_new [OF assms(2)])
  fix p R assume r: "registerStruct Name L M (TypeReg T) = Inr (p, R)"
  have "registry_ok (TypeReg T)" using assms(1) by (simp add: imports_ok_def)
  then have "registry_ok R" using r by (rule register_struct_ok)
  then show "registry_ok R \<and> (p = None \<longrightarrow>
      keys (TypeOwningModule R) = insert Name (known_types T) \<and> TypeVisibility R = TypeVisibility (TypeReg T))"
    using registered_struct [OF r] by (simp add: known_types_def)
qed

lemma enum_new:
  assumes "imports_ok T" and "registered Name Loc Kind Info (registerEnumType Name L ET M (TypeReg T)) T = Inr T'"
  shows "new_name Name T T'"
proof (rule registered_new [OF assms(2)])
  fix p R assume r: "registerEnumType Name L ET M (TypeReg T) = Inr (p, R)"
  have "registry_ok (TypeReg T)" using assms(1) by (simp add: imports_ok_def)
  then have "registry_ok R" using r by (rule register_enum_ok)
  then show "registry_ok R \<and> (p = None \<longrightarrow>
      keys (TypeOwningModule R) = insert Name (known_types T) \<and> TypeVisibility R = TypeVisibility (TypeReg T))"
    using registered_enum [OF r] by (simp add: known_types_def)
qed

lemma error_new:
  assumes "imports_ok T" and "registered Name Loc Kind Info (registerErrorType Name L ET M (TypeReg T)) T = Inr T'"
  shows "new_name Name T T'"
proof (rule registered_new [OF assms(2)])
  fix p R assume r: "registerErrorType Name L ET M (TypeReg T) = Inr (p, R)"
  have "registry_ok (TypeReg T)" using assms(1) by (simp add: imports_ok_def)
  then have "registry_ok R" using r by (rule register_error_ok)
  then show "registry_ok R \<and> (p = None \<longrightarrow>
      keys (TypeOwningModule R) = insert Name (known_types T) \<and> TypeVisibility R = TypeVisibility (TypeReg T))"
    using registered_error [OF r] by (simp add: known_types_def)
qed

text \<open>Changes that touch neither the types nor the imported types.\<close>

lemma same_types_ok:
  assumes "TypeReg T' = TypeReg T" and "\<And>C N. lookupFlatTypeImport C N (ModuleTab T') = lookupFlatTypeImport C N (ModuleTab T)"
  shows "imports_ok T' = imports_ok T" and "known_types T' = known_types T"
  using assms by (simp_all add: imports_ok_def known_types_def isTypeVisibleFrom_def)

lemma note_import_types [simp]:
  "imports_ok (note_import Inner Mode Path C T) = imports_ok T" "known_types (note_import Inner Mode Path C T) = known_types T"
proof -
  let ?T = "note_import Inner Mode Path C T"
  have a: "TypeReg ?T = TypeReg T" by (simp add: note_import_def)
  have b: "lookupFlatTypeImport D N (ModuleTab ?T) = lookupFlatTypeImport D N (ModuleTab T)" for D N
    by (simp add: note_import_def noteBareImport_def noteSymbolImport_def registerModule_def lookupFlatTypeImport_def)
  show "imports_ok ?T = imports_ok T" "known_types ?T = known_types T" by (rule same_types_ok [OF a b])+
qed

lemma lookup_after_flat:
  "lookupFlatTypeImport C N (snd (registerFlatTypeImport C' N' F M)) =
    (case lookupFlatTypeImport C N M of Some P \<Rightarrow> Some P | None \<Rightarrow> if C' = C \<and> N' = N then Some F else None)"
  by (simp add: registerFlatTypeImport_def lookupFlatTypeImport_def case_prod_beta register_flat_lookup split: option.split)

lemma import_type_ok:
  assumes "import_type Src C Ref T = Inr T'" and "imports_ok T"
  shows "imports_ok T' \<and> known_types T' = known_types T"
proof (cases "identity_of Src (fst Ref) \<in> known_types T \<and> isTypeVisibleFrom (identity_of Src (fst Ref)) C T")
  case True
  let ?M = "snd (registerFlatTypeImport C (fst Ref) \<lparr>FlatSource = Src, FlatLoc = snd Ref\<rparr> (ModuleTab T))"
  have T': "T' = T\<lparr>ModuleTab := ?M\<rparr>" using assms(1) True
    by (auto simp: import_type_def Let_def known_types_iff split: prod.split_asm option.split_asm if_split_asm)
  then have "TypeReg T' = TypeReg T" "known_types T' = known_types T" by (simp_all add: known_types_def)
  moreover have "identity_of (FlatSource F) N \<in> known_types T \<and> isTypeVisibleFrom (identity_of (FlatSource F) N) D T"
    if "lookupFlatTypeImport D N ?M = Some F" for D N F
    using that True assms(2) by (auto simp: lookup_after_flat imports_ok_def split: option.split_asm if_split_asm)
  ultimately show ?thesis using assms(2) by (simp add: imports_ok_def isTypeVisibleFrom_def T')
next
  case False
  then have "T' = T" using assms(1) by (auto simp: import_type_def Let_def known_types_iff split: if_split_asm)
  then show ?thesis using assms(2) by simp
qed

lemma import_types_ok:
  "import_types Src C Refs T = Inr T' \<Longrightarrow> imports_ok T \<Longrightarrow> imports_ok T' \<and> known_types T' = known_types T"
proof (induction Refs arbitrary: T)
  case (Cons Ref Refs)
  then obtain U where "import_type Src C Ref T = Inr U" "import_types Src C Refs U = Inr T'" by (auto split: sum.split_asm)
  with Cons import_type_ok show ?case by metis
qed simp

lemma on_demand_ok:
  "registerOnDemandTypeImports Src Mode Loc Req C T = Inr T' \<Longrightarrow> imports_ok T \<Longrightarrow> imports_ok T' \<and> known_types T' = known_types T"
  by (auto simp: registerOnDemandTypeImports_def dest: import_types_ok split: if_split_asm)

text \<open>The pass, when no identity is declared twice.\<close>

definition fresh_for :: "string list \<Rightarrow> NameState \<Rightarrow> bool" where
  "fresh_for Names T \<longleftrightarrow> distinct Names \<and> set Names \<inter> known_types T = {}"

lemma hoist_ok:
  shows "hoistTypesIn M d T = Inr T' \<Longrightarrow> imports_ok T \<Longrightarrow> fresh_for (declared_types d) T \<Longrightarrow>
      imports_ok T' \<and> known_types T' = set (declared_types d) \<union> known_types T"
    and "hoistAll M ds T = Inr T' \<Longrightarrow> imports_ok T \<Longrightarrow> fresh_for (concat (map declared_types ds)) T \<Longrightarrow>
      imports_ok T' \<and> known_types T' = set (concat (map declared_types ds)) \<union> known_types T"
proof (induction M d T and M ds T arbitrary: T' and T' rule: hoistTypesIn_hoistAll.induct)
  case (1 M Name Loc Pub TypeParams T)
  then obtain U where U: "registered Name Loc ''struct'' (visibility Pub Loc ''struct'') (registerStruct Name Loc M (TypeReg T)) T = Inr U"
    and T': "TypeReg T' = TypeReg U" "ModuleTab T' = ModuleTab U" by (auto split: sum.split_asm)
  have "imports_ok U \<and> known_types U = insert Name (known_types T)"
    using new_name_ok struct_new [OF _ U] 1(2,3) by (simp add: fresh_for_def)
  then show ?case using same_types_ok [of T' U] T' by simp
next
  case (2 M Name Loc Pub Variants Underlying T)
  have "new_name Name T T'" using 2(1) by (intro enum_new [OF 2(2)]) (simp only: hoistTypesIn.simps)
  then show ?case using new_name_ok 2(2,3) by (simp add: fresh_for_def)
next
  case (3 M Name Loc Pub States Edges T)
  have "new_name Name T T'" using 3(1) by (intro enum_new [OF 3(2)]) (simp only: hoistTypesIn.simps)
  then show ?case using new_name_ok 3(2,3) by (simp add: fresh_for_def)
next
  case (4 M Name Loc Pub Variants BareForm T)
  have "new_name Name T T'" using 4(1) by (intro error_new [OF 4(2)]) (simp only: hoistTypesIn.simps)
  then show ?case using new_name_ok 4(2,3) by (simp add: fresh_for_def)
next
  case (5 M Inner Mode Loc Path Requested Body T)
  then obtain U where U: "hoistAll Inner Body (note_import Inner Mode Path M T) = Inr U"
    and T': "registerOnDemandTypeImports Inner Mode Loc Requested M U = Inr T'" by (auto split: sum.split_asm)
  from 5 U have "imports_ok U \<and> known_types U = set (declared_types (ModuleImport Inner Mode Loc Path Requested Body)) \<union> known_types T"
    by (simp add: fresh_for_def)
  with on_demand_ok [OF T'] show ?case by simp
next
  case (8 M d ds T)
  then obtain U where U: "hoistTypesIn M d T = Inr U" and T': "hoistAll M ds U = Inr T'" by (auto split: sum.split_asm)
  have "imports_ok U \<and> known_types U = set (declared_types d) \<union> known_types T"
    using 8(1) [OF U] 8(4,5) by (auto simp: fresh_for_def)
  moreover from this have "fresh_for (concat (map declared_types ds)) U" using 8(5) by (auto simp: fresh_for_def)
  ultimately show ?case using 8(2) [OF U T'] by auto
qed auto

lemma hoisted_ok:
  assumes "hoistTypes Nodes no_names = Inr T" and "distinct (concat (map declared_types Nodes))"
  shows "imports_ok T" and "known_types T = set (concat (map declared_types Nodes))"
proof -
  have none: "known_types no_names = {}" by (simp add: known_types_def no_names_def empty_registry_def)
  then have "fresh_for (concat (map declared_types Nodes)) no_names" using assms(2) by (simp only: fresh_for_def Int_empty_right simp_thms)
  from hoist_ok(2) [OF assms(1) [unfolded hoistTypes_def] no_names_ok this] none
  show "imports_ok T" "known_types T = set (concat (map declared_types Nodes))" by (simp_all only: Un_empty_right)
qed

text \<open>
  C16. Nothing private is imported. When every type of a program is declared once and Pass 1a succeeds, the known
  identities are the declared ones, each owned by the module its name spells; and a bare name that a context
  imported as a type, by name, in a list or with a wildcard, stands for a declared type of the module it was
  imported from, which that context may name: it is the context's own or it is public.
\<close>

theorem imported_types_are_visible:
  assumes "hoistTypes Nodes no_names = Inr T" and "distinct (concat (map declared_types Nodes))"
  shows "(isKnownTypeIdentity Ident (TypeReg T) \<longleftrightarrow> Ident \<in> set (concat (map declared_types Nodes))) \<and>
    (isKnownTypeIdentity Ident (TypeReg T) \<longrightarrow> getTypeOwningModule Ident (TypeReg T) = owningModule Ident) \<and>
    (lookupFlatTypeImport C N (ModuleTab T) = Some F \<longrightarrow>
      isKnownTypeIdentity (identity_of (FlatSource F) N) (TypeReg T) \<and> isTypeVisibleFrom (identity_of (FlatSource F) N) C T)"
proof -
  note ok = hoisted_ok [OF assms]
  then have "registry_ok (TypeReg T)" by (simp add: imports_ok_def)
  from known_owner [OF this, of Ident] ok show ?thesis by (simp add: known_types_iff imports_ok_def)
qed

definition two_modules :: "TopDecl list" where
  "two_modules = [
     ModuleImport ''geo'' WildcardMode (1, 1) ''geo.tr'' []
       [EnumDecl ''geo::Color'' (1, 1) True [''Red'', ''Green''] IntType, StructDecl ''geo::Secret'' (2, 1) False []],
     StructDecl ''Point'' (3, 1) False []]"

theorem imported_types_are_visible_witness:
  "\<exists>T F. hoistTypes two_modules no_names = Inr T \<and> lookupFlatTypeImport [] ''Color'' (ModuleTab T) = Some F \<and>
    isTypeVisibleFrom (identity_of (FlatSource F) ''Color'') [] T \<and> lookupFlatTypeImport [] ''Secret'' (ModuleTab T) = None"
proof -
  let ?T = "case hoistTypes two_modules no_names of Inr T \<Rightarrow> T | Inl _ \<Rightarrow> no_names"
  let ?F = "\<lparr>FlatSource = ''geo'', FlatLoc = (1, 1)\<rparr>"
  have run: "hoistTypes two_modules no_names = Inr ?T" by code_simp
  have once: "distinct (concat (map declared_types two_modules))" by code_simp
  have color: "lookupFlatTypeImport [] ''Color'' (ModuleTab ?T) = Some ?F" by code_simp
  have secret: "lookupFlatTypeImport [] ''Secret'' (ModuleTab ?T) = None" by code_simp
  have "isTypeVisibleFrom (identity_of (FlatSource ?F) ''Color'') [] ?T"
    using imported_types_are_visible [OF run once, THEN conjunct2, THEN conjunct2, THEN mp, OF color] by (rule conjunct2)
  then show ?thesis by (intro exI conjI) (rule run color secret | assumption)+
qed

text \<open>A struct and an enum of one module may have the same name: each is looked up among its own kind only.\<close>

lemma struct_and_enum_share_a_name:
  "case hoistTypes [StructDecl ''Color'' (1, 1) True [], EnumDecl ''Color'' (5, 1) False [''Red''] IntType] no_names of
     Inr T \<Rightarrow> isKnownStruct ''Color'' (TypeReg T) \<and> isEnumName ''Color'' (TypeReg T) \<and> \<not> isTypePublic ''Color'' (TypeReg T)
   | Inl _ \<Rightarrow> False"
  by code_simp

end
