(* ===== verification/TypeSpelling.thy ===== *)
theory TypeSpelling
  imports NameTables
begin

text \<open>
  From the spelling of a type to its identity (\<open>src/src/resolve/ResolverTypeIdentity.cpp\<close>, \<open>ResolverDecl.cpp\<close>,
  \<open>ResolverVisibility.cpp\<close>): the silent walk of Pass 1b and the checking one of Pass 2. The code rewrites a type in
  place; here the rewritten type is the result. An error that is raised ends the walk and is its left value;
  the candidates a message suggests are left out.
\<close>

section \<open>Context\<close>

record SpellingContext =
  Names :: NameState
  CurrentModule :: string
  CurrentSizeParams :: "string list"
  SuppressUnqualifiedVisibilityCheck :: bool

definition isPrimitiveSpelling :: "string \<Rightarrow> bool" where
  "isPrimitiveSpelling Name \<longleftrightarrow>
    Name \<in> set [''int'', ''int32'', ''double'', ''bool'', ''char'', ''string'', ''void'', ''null'', ''ptr'', ''void*'']"

text \<open>The checking walk has its own list.\<close>

definition KnownPrimitives :: "string list" where
  "KnownPrimitives = [''int'', ''double'', ''bool'', ''string'', ''void'', ''null'', ''ptr'', ''void*'']"

section \<open>The silent walk\<close>

definition tryResolveTypeSpelling :: "SpellingContext \<Rightarrow> string \<Rightarrow> string \<Rightarrow> string \<Rightarrow> string option" where
  "tryResolveTypeSpelling X Qualifier Name Context =
    (let T = Names X in
     if isModuleQualified Name then (if isKnownTypeIdentity Name (TypeReg T) then Some Name else None)
     else if Qualifier \<noteq> [] then
       (if \<not> hasModule Qualifier (ModuleTab T) then None
        else if \<not> mayQualifyWith Qualifier Context T then None
        else (let Id' = identity_of Qualifier Name
              in if isKnownTypeIdentity Id' (TypeReg T) \<and> isTypeVisibleFrom Id' Context T then Some Id' else None))
     else if SuppressUnqualifiedVisibilityCheck X then None
     else (case unqualifiedTypeCandidates Context Name T of [Id'] \<Rightarrow> Some Id' | _ \<Rightarrow> None))"

definition resolve_named :: "SpellingContext \<Rightarrow> string \<Rightarrow> string list \<Rightarrow> string \<Rightarrow> string \<Rightarrow> bool \<Rightarrow> TurfType" where
  "resolve_named X Context TypeParams N M R =
    (if isResolvedIdentity N R \<or> isPrimitiveSpelling N \<or> (M = [] \<and> N \<in> set TypeParams) then NamedType N M R
     else (case tryResolveTypeSpelling X M N Context of
             Some Id' \<Rightarrow> resolveTo Id' (NamedType N M R) | None \<Rightarrow> NamedType N M R))"

text \<open>The name and the mark of a generic type after its base was looked up.\<close>

definition resolve_base :: "SpellingContext \<Rightarrow> string \<Rightarrow> string list \<Rightarrow> string \<Rightarrow> string \<Rightarrow> bool \<Rightarrow> string \<times> bool" where
  "resolve_base X Context TypeParams B M R =
    (if isResolvedIdentity B R \<or> (M = [] \<and> B \<in> set TypeParams) then (B, R)
     else (case tryResolveTypeSpelling X M B Context of Some Id' \<Rightarrow> (Id', True) | None \<Rightarrow> (B, R)))"

function (sequential) resolveTypeSpellingsSilently :: "SpellingContext \<Rightarrow> string \<Rightarrow> string list \<Rightarrow> TurfType \<Rightarrow> TurfType" where
  "resolveTypeSpellingsSilently X C P (NamedType N M R) = resolve_named X C P N M R"
| "resolveTypeSpellingsSilently X C P (GenericType B args M R) =
    (case resolve_base X C P B M R of
       (B', R') \<Rightarrow> GenericType B' (map (\<lambda>a. resolveTypeSpellingsSilently X C P a) args) M R')"
| "resolveTypeSpellingsSilently X C P (TurfPointerType t) = TurfPointerType (resolveTypeSpellingsSilently X C P t)"
| "resolveTypeSpellingsSilently X C P (TurfReferenceType t) = TurfReferenceType (resolveTypeSpellingsSilently X C P t)"
| "resolveTypeSpellingsSilently X C P (TurfNullableReferenceType t) =
    TurfNullableReferenceType (resolveTypeSpellingsSilently X C P t)"
| "resolveTypeSpellingsSilently X C P (ArrayType e n sp) = ArrayType (resolveTypeSpellingsSilently X C P e) n sp"
| "resolveTypeSpellingsSilently X C P (TurfErrorUnionType t) = TurfErrorUnionType (resolveTypeSpellingsSilently X C P t)"
| "resolveTypeSpellingsSilently X C P (FuncType r ps) =
    FuncType (map_option (\<lambda>t. resolveTypeSpellingsSilently X C P t) r)
      (map (map_option (\<lambda>t. resolveTypeSpellingsSilently X C P t)) ps)"
| "resolveTypeSpellingsSilently X C P t = t"
  by pat_completeness auto
termination
  by (relation "measure (\<lambda>(X, C, P, t). size t)") (auto dest: size_type_in_list size_type_in_options)

section \<open>The checking walk\<close>

datatype spelling_error =
    SizeParameterUsed string
  | ModuleNotImported string string bool string
  | PrivateType string
  | UnknownType string
  | UnknownScopeQualifier string string
  | UnknownModuleSymbol string string
  | AmbiguousTypeReference string "string list"
  | UnqualifiedTypeNotVisible string string
  | MissingTypeArguments string
  | WrongTypeArgumentCount string nat nat

definition requireModuleImported :: "SpellingContext \<Rightarrow> string \<Rightarrow> string \<Rightarrow> string \<Rightarrow> spelling_error option" where
  "requireModuleImported X Module Context Spelled =
    (if mayQualifyWith Module Context (Names X) then None
     else Some (ModuleNotImported Module Context (hasSymbolImport Module Context (ModuleTab (Names X)))
       (Module @ ''::'' @ Spelled)))"

definition validateModuleQualifier :: "SpellingContext \<Rightarrow> string \<Rightarrow> string \<Rightarrow> spelling_error option" where
  "validateModuleQualifier X Qualifier TypeName =
    (if Qualifier = [] then None
     else if \<not> hasModule Qualifier (ModuleTab (Names X)) then Some (UnknownScopeQualifier Qualifier TypeName)
     else (case requireModuleImported X Qualifier (CurrentModule X) (bareName TypeName) of
         Some e \<Rightarrow> Some e
       | None \<Rightarrow>
           (let Bare = bareName TypeName; Id' = identity_of Qualifier Bare
            in if \<not> isKnownTypeIdentity Id' (TypeReg (Names X)) then Some (UnknownModuleSymbol Qualifier Bare)
               else if \<not> isTypeVisibleFrom Id' (CurrentModule X) (Names X) then Some (PrivateType Id')
               else None)))"

text \<open>
  The identity of a spelling, or the error that reports it. \<open>Inr None\<close> leaves the spelling as it is: inside a clone
  of a generic, a bare name of the call site; or a wrongly qualified name of which nothing is left to report.
\<close>

definition resolve_qualified :: "SpellingContext \<Rightarrow> string \<Rightarrow> string \<Rightarrow> spelling_error + string option" where
  "resolve_qualified X Qualifier Spelling =
    (let T = Names X; Id' = identity_of Qualifier Spelling
     in if hasModule Qualifier (ModuleTab T) \<and> isKnownTypeIdentity Id' (TypeReg T)
        then (case requireModuleImported X Qualifier (CurrentModule X) Spelling of
            Some e \<Rightarrow> Inl e
          | None \<Rightarrow> if \<not> isTypeVisibleFrom Id' (CurrentModule X) T then Inl (PrivateType Id') else Inr (Some Id'))
        else if identitiesWithBareName Spelling (TypeReg T) = [] then Inl (UnknownType Spelling)
        else (case validateModuleQualifier X Qualifier Spelling of Some e \<Rightarrow> Inl e | None \<Rightarrow> Inr None))"

definition resolve_bare :: "SpellingContext \<Rightarrow> string \<Rightarrow> spelling_error + string option" where
  "resolve_bare X Spelling =
    (let T = Names X; Everywhere = identitiesWithBareName Spelling (TypeReg T)
     in if SuppressUnqualifiedVisibilityCheck X \<and> Everywhere \<noteq> [] then Inr None
        else (case unqualifiedTypeCandidates (CurrentModule X) Spelling T of
            [Id'] \<Rightarrow> Inr (Some Id')
          | [] \<Rightarrow> (case Everywhere of
                [] \<Rightarrow> Inl (UnknownType Spelling)
              | Id' # _ \<Rightarrow> Inl (UnqualifiedTypeNotVisible Spelling (owningModule Id')))
          | Visible \<Rightarrow> Inl (AmbiguousTypeReference Spelling Visible)))"

definition ResolveOrReport :: "SpellingContext \<Rightarrow> string \<Rightarrow> string \<Rightarrow> spelling_error + string option" where
  "ResolveOrReport X Qualifier Spelling =
    (if Qualifier = [] \<and> Spelling \<in> set (CurrentSizeParams X) then Inl (SizeParameterUsed Spelling)
     else if Qualifier \<noteq> [] then resolve_qualified X Qualifier Spelling
     else resolve_bare X Spelling)"

definition RejectBareGeneric :: "SpellingContext \<Rightarrow> bool \<Rightarrow> string \<Rightarrow> spelling_error option" where
  "RejectBareGeneric X AllowBareGeneric Id' =
    (if AllowBareGeneric \<or> map_of (GenericStructIdentities (Names X)) Id' = None then None
     else Some (MissingTypeArguments (bareName Id')))"

definition validate_name :: "SpellingContext \<Rightarrow> string list \<Rightarrow> bool \<Rightarrow> string \<Rightarrow> string \<Rightarrow> bool \<Rightarrow> spelling_error + TurfType" where
  "validate_name X P Allow N M R =
    (if (M = [] \<and> N \<in> set P) \<or> N \<in> set KnownPrimitives then Inr (NamedType N M R)
     else if isResolvedIdentity N R
     then (case RejectBareGeneric X Allow N of Some e \<Rightarrow> Inl e | None \<Rightarrow> Inr (NamedType N M R))
     else (case ResolveOrReport X M N of
         Inl e \<Rightarrow> Inl e
       | Inr None \<Rightarrow> Inr (NamedType N M R)
       | Inr (Some Id') \<Rightarrow>
           (case RejectBareGeneric X Allow Id' of Some e \<Rightarrow> Inl e | None \<Rightarrow> Inr (resolveTo Id' (NamedType N M R)))))"

text \<open>The base of a generic type and the number of its arguments.\<close>

definition validate_base :: "SpellingContext \<Rightarrow> string list \<Rightarrow> string \<Rightarrow> string \<Rightarrow> bool \<Rightarrow> spelling_error + string \<times> bool" where
  "validate_base X P B M R =
    (if isResolvedIdentity B R \<or> (M = [] \<and> B \<in> set P) then Inr (B, R)
     else (case ResolveOrReport X M B of
         Inl e \<Rightarrow> Inl e | Inr None \<Rightarrow> Inr (B, R) | Inr (Some Id') \<Rightarrow> Inr (Id', True)))"

definition check_count :: "SpellingContext \<Rightarrow> bool \<Rightarrow> string \<Rightarrow> bool \<Rightarrow> nat \<Rightarrow> spelling_error option" where
  "check_count X OwnTypeParam B R Given =
    (if \<not> OwnTypeParam \<and> isResolvedIdentity B R
     then (let Expected = (case map_of (GenericStructIdentities (Names X)) B of None \<Rightarrow> 0 | Some Ps \<Rightarrow> length Ps)
           in if Given \<noteq> Expected then Some (WrongTypeArgumentCount (bareName B) Expected Given) else None)
     else None)"

text \<open>A walk over the parts of a type that stops at the first error.\<close>

fun traverse :: "('a \<Rightarrow> 'e + 'b) \<Rightarrow> 'a list \<Rightarrow> 'e + 'b list" where
  "traverse f [] = Inr []"
| "traverse f (x # xs) =
    (case f x of Inl e \<Rightarrow> Inl e | Inr y \<Rightarrow> (case traverse f xs of Inl e \<Rightarrow> Inl e | Inr ys \<Rightarrow> Inr (y # ys)))"

fun when_present :: "('a \<Rightarrow> 'e + 'b) \<Rightarrow> 'a option \<Rightarrow> 'e + 'b option" where
  "when_present f None = Inr None"
| "when_present f (Some x) = (case f x of Inl e \<Rightarrow> Inl e | Inr y \<Rightarrow> Inr (Some y))"

lemma traverse_cong [fundef_cong]: "xs = ys \<Longrightarrow> (\<And>x. x \<in> set ys \<Longrightarrow> f x = g x) \<Longrightarrow> traverse f xs = traverse g ys"
  by (induction ys arbitrary: xs) (auto split: sum.split)

lemma when_present_cong [fundef_cong]: "x = y \<Longrightarrow> (\<And>z. y = Some z \<Longrightarrow> f z = g z) \<Longrightarrow> when_present f x = when_present g y"
  by (cases y) auto

text \<open>
  One pointer is looked through, then arrays; what is left is checked. Whatever happens, the silent walk runs over
  the whole type last.
\<close>

definition then_rest :: "SpellingContext \<Rightarrow> string list \<Rightarrow> spelling_error + TurfType \<Rightarrow> spelling_error + TurfType" where
  "then_rest X P r = (case r of Inl e \<Rightarrow> Inl e | Inr t \<Rightarrow> Inr (resolveTypeSpellingsSilently X (CurrentModule X) P t))"

definition rebuilt :: "(TurfType \<Rightarrow> TurfType) \<Rightarrow> spelling_error + TurfType \<Rightarrow> spelling_error + TurfType" where
  "rebuilt f r = (case r of Inl e \<Rightarrow> Inl e | Inr t \<Rightarrow> Inr (f t))"

function (sequential) validateNamedType :: "SpellingContext \<Rightarrow> string list \<Rightarrow> bool \<Rightarrow> TurfType \<Rightarrow> spelling_error + TurfType"
and validate_arrays :: "SpellingContext \<Rightarrow> string list \<Rightarrow> bool \<Rightarrow> TurfType \<Rightarrow> spelling_error + TurfType"
and validate_bare :: "SpellingContext \<Rightarrow> string list \<Rightarrow> bool \<Rightarrow> TurfType \<Rightarrow> spelling_error + TurfType" where
  "validateNamedType X P A (TurfPointerType t) = then_rest X P (rebuilt TurfPointerType (validate_arrays X P A t))"
| "validateNamedType X P A (TurfReferenceType t) = then_rest X P (rebuilt TurfReferenceType (validate_arrays X P A t))"
| "validateNamedType X P A (TurfNullableReferenceType t) =
    then_rest X P (rebuilt TurfNullableReferenceType (validate_arrays X P A t))"
| "validateNamedType X P A t = then_rest X P (validate_arrays X P A t)"
| "validate_arrays X P A (ArrayType e n sp) = rebuilt (\<lambda>e. ArrayType e n sp) (validate_arrays X P A e)"
| "validate_arrays X P A t = validate_bare X P A t"
| "validate_bare X P A (FuncType r ps) =
    (case traverse (when_present (\<lambda>t. validateNamedType X P False t)) ps of
       Inl e \<Rightarrow> Inl e
     | Inr ps' \<Rightarrow>
         (case when_present (\<lambda>t. validateNamedType X P False t) r of
            Inl e \<Rightarrow> Inl e | Inr r' \<Rightarrow> Inr (FuncType r' ps')))"
| "validate_bare X P A (GenericType B args M R) =
    (case validate_base X P B M R of
       Inl e \<Rightarrow> Inl e
     | Inr (B', R') \<Rightarrow>
         (case check_count X (M = [] \<and> B \<in> set P) B' R' (length args) of
            Some e \<Rightarrow> Inl e
          | None \<Rightarrow>
              (case traverse (\<lambda>t. validateNamedType X P False t) args of
                 Inl e \<Rightarrow> Inl e | Inr args' \<Rightarrow> Inr (GenericType B' args' M R'))))"
| "validate_bare X P A (NamedType N M R) = validate_name X P A N M R"
| "validate_bare X P A t = Inr t"
  by pat_completeness auto
termination
  by (relation "measure (\<lambda>x. case x of Inl (X, P, A, t) \<Rightarrow> 3 * size t + 2
        | Inr (Inl (X, P, A, t)) \<Rightarrow> 3 * size t + 1 | Inr (Inr (X, P, A, t)) \<Rightarrow> 3 * size t)")
     (auto dest!: size_type_in_list size_type_in_options)

section \<open>The left of a scope access\<close>

text \<open>\<open>Left::Right\<close>, possibly with a module in front; the flag says that the left side is an identity already.\<close>

record ScopeAccess =
  ModuleQualifier :: string
  LeftName :: string
  LeftIsTypeIdentity :: bool

definition resolveLeftTypeTo :: "string \<Rightarrow> ScopeAccess \<Rightarrow> ScopeAccess" where
  "resolveLeftTypeTo Id' Node = Node\<lparr>LeftName := Id', LeftIsTypeIdentity := True\<rparr>"

text \<open>The identity, empty when the left side is no type, and the rewritten access.\<close>

definition resolveScopeLeftType :: "SpellingContext \<Rightarrow> ScopeAccess \<Rightarrow> spelling_error + string \<times> ScopeAccess" where
  "resolveScopeLeftType X Node =
    (let T = Names X; Left = LeftName Node; Qualifier = ModuleQualifier Node in
     if LeftIsTypeIdentity Node then Inr (Left, Node)
     else if isModuleQualified Left then
       (if \<not> isKnownTypeIdentity Left (TypeReg T) then Inr ([], Node) else Inr (Left, resolveLeftTypeTo Left Node))
     else if Qualifier \<noteq> [] then
       (let Id' = identity_of Qualifier Left in
        if isKnownTypeIdentity Id' (TypeReg T) then
          (if \<not> isTypeVisibleFrom Id' (CurrentModule X) T then Inl (PrivateType Id') else Inr (Id', resolveLeftTypeTo Id' Node))
        else if identitiesWithBareName Left (TypeReg T) \<noteq> [] then
          (case validateModuleQualifier X Qualifier Left of Some e \<Rightarrow> Inl e | None \<Rightarrow> Inr ([], Node))
        else Inr ([], Node))
     else
       (let Candidates = unqualifiedTypeCandidates (CurrentModule X) Left T in
        if 1 < length Candidates then Inl (AmbiguousTypeReference Left Candidates)
        else (let Candidates = (if Candidates = [] then identitiesWithBareName Left (TypeReg T) else Candidates) in
          if 1 < length Candidates then Inl (AmbiguousTypeReference Left Candidates)
          else (case Candidates of [] \<Rightarrow> Inr ([], Node) | Id' # _ \<Rightarrow> Inr (Id', resolveLeftTypeTo Id' Node)))))"

section \<open>The two walks agree\<close>

text \<open>A module's own name has no colon, so its own types are spelled inside it.\<close>

lemma owner_of_identity: "CHR '':'' \<notin> set C \<Longrightarrow> \<not> isModuleQualified N \<Longrightarrow> owningModule (identity_of C N) = C"
  using find_after_plain [of C N] by (cases "C = []") (auto simp: identity_of_def owningModule_def isModuleQualified_def)

lemma candidates_cases:
  "unqualifiedTypeCandidates C N T = [] \<or> (\<exists>a. unqualifiedTypeCandidates C N T = [a]) \<or> (\<exists>a b. unqualifiedTypeCandidates C N T = [a, b])"
  by (auto simp: unqualifiedTypeCandidates_def Let_def split: option.split)

lemma candidates_visible:
  assumes "imports_ok T" and "CHR '':'' \<notin> set C" and "\<not> isModuleQualified N"
    and "Ident \<in> set (unqualifiedTypeCandidates C N T)"
  shows "isKnownTypeIdentity Ident (TypeReg T) \<and> isTypeVisibleFrom Ident C T"
  using assms owner_of_identity [OF assms(2,3)]
  by (cases "lookupFlatTypeImport C N (ModuleTab T)")
     (auto simp: unqualifiedTypeCandidates_def Let_def isTypeVisibleFrom_def imports_ok_def split: if_split_asm)

lemma try_visible:
  assumes "imports_ok (Names X)" and "CHR '':'' \<notin> set C" and "\<not> isModuleQualified N"
    and "tryResolveTypeSpelling X Q N C = Some Ident"
  shows "isKnownTypeIdentity Ident (TypeReg (Names X)) \<and> isTypeVisibleFrom Ident C (Names X)"
  using assms candidates_visible [OF assms(1,2,3), of Ident]
  by (auto simp: tryResolveTypeSpelling_def Let_def split: if_split_asm list.split_asm)

lemma qualified_agrees:
  assumes "Q \<noteq> []" and "\<not> isModuleQualified N"
  shows "case tryResolveTypeSpelling X Q N (CurrentModule X) of
      Some Ident \<Rightarrow> resolve_qualified X Q N = Inr (Some Ident) | None \<Rightarrow> (\<exists>e. resolve_qualified X Q N = Inl e)"
proof -
  have "bareName N = N" using assms(2) by (simp add: bareName_def isModuleQualified_def)
  then show ?thesis using assms
    by (auto simp: tryResolveTypeSpelling_def resolve_qualified_def requireModuleImported_def validateModuleQualifier_def Let_def
      split: option.split sum.split)
qed

lemma bare_agrees:
  assumes "\<not> SuppressUnqualifiedVisibilityCheck X" and "\<not> isModuleQualified N"
  shows "case tryResolveTypeSpelling X [] N (CurrentModule X) of
      Some Ident \<Rightarrow> resolve_bare X N = Inr (Some Ident) | None \<Rightarrow> (\<exists>e. resolve_bare X N = Inl e)"
  using assms candidates_cases [of "CurrentModule X" N "Names X"]
  by (auto simp: tryResolveTypeSpelling_def resolve_bare_def Let_def split: list.split)

lemma walks_agree:
  assumes "\<not> SuppressUnqualifiedVisibilityCheck X" and "\<not> isModuleQualified N" and "Q = [] \<Longrightarrow> N \<notin> set (CurrentSizeParams X)"
  shows "case tryResolveTypeSpelling X Q N (CurrentModule X) of
      Some Ident \<Rightarrow> ResolveOrReport X Q N = Inr (Some Ident) | None \<Rightarrow> (\<exists>e. ResolveOrReport X Q N = Inl e)"
  using qualified_agrees [of Q N X] bare_agrees [of X N] assms
  by (cases "Q = []") (auto simp: ResolveOrReport_def split: option.split_asm)

text \<open>Inside a clone a bare name is left alone by both walks, or it is unknown.\<close>

lemma suppressed_bare:
  "SuppressUnqualifiedVisibilityCheck X \<Longrightarrow> \<not> isModuleQualified N \<Longrightarrow> tryResolveTypeSpelling X [] N C = None"
  by (simp add: tryResolveTypeSpelling_def)

lemma left_alone:
  assumes "ResolveOrReport X M N = Inr None" and "\<not> isModuleQualified N"
  shows "tryResolveTypeSpelling X M N (CurrentModule X) = None"
proof (cases "M = []")
  case True
  show ?thesis
  proof (cases "SuppressUnqualifiedVisibilityCheck X")
    case False
    with walks_agree [of X N M] assms True show ?thesis by (auto simp: ResolveOrReport_def split: option.split_asm if_split_asm)
  qed (use assms True suppressed_bare in simp)
next
  case False
  with qualified_agrees [of M N X] assms show ?thesis by (auto simp: ResolveOrReport_def split: option.split_asm)
qed

section \<open>Walking twice\<close>

lemma resolved_again [simp]: "resolve_named X C P N M True = NamedType N M True"
  by (simp add: resolve_named_def isResolvedIdentity_def)

lemma named_cases:
  "resolve_named X C P N M R = NamedType N M R \<or> (\<exists>Ident. resolve_named X C P N M R = NamedType Ident M True)"
  by (auto simp: resolve_named_def resolveTo_def split: option.split)

lemma silent_named_again:
  "resolveTypeSpellingsSilently X C P (resolve_named X C P N M R) = resolve_named X C P N M R"
  using named_cases [of X C P N M R] by auto

lemma silent_base_again: "resolve_base X C P B M R = (B', R') \<Longrightarrow> resolve_base X C P B' M R' = (B', R')"
  by (auto simp: resolve_base_def isResolvedIdentity_def split: if_split_asm option.split_asm)

lemma silent_again [simp]:
  "resolveTypeSpellingsSilently X C P (resolveTypeSpellingsSilently X C P t) = resolveTypeSpellingsSilently X C P t"
proof (induction X C P t rule: resolveTypeSpellingsSilently.induct)
  case (1 X C P N M R)
  show ?case by (simp add: silent_named_again)
next
  case (2 X C P B args M R)
  obtain B' R' where b: "resolve_base X C P B M R = (B', R')" by (cases "resolve_base X C P B M R")
  with 2 silent_base_again [OF b] show ?case by simp
next
  case (8 X C P r ps)
  then show ?case by (cases r) (auto simp: option.map_comp comp_def map_option_case split: option.split)
qed auto

lemma traverse_all: "traverse f xs = Inr ys \<Longrightarrow> list_all2 (\<lambda>x y. f x = Inr y) xs ys"
  by (induction xs arbitrary: ys) (auto split: sum.split_asm)

lemma traverse_fixed: "(\<And>x. x \<in> set xs \<Longrightarrow> f x = Inr x) \<Longrightarrow> traverse f xs = Inr xs"
  by (induction xs) auto

lemma present_fixed: "(\<And>y. x = Some y \<Longrightarrow> f y = Inr y) \<Longrightarrow> when_present f x = Inr x"
  by (cases x) auto

lemma primitive_spelling: "N \<in> set KnownPrimitives \<Longrightarrow> isPrimitiveSpelling N"
  by (auto simp: KnownPrimitives_def isPrimitiveSpelling_def)

lemma name_again:
  assumes "validate_name X P A N M R = Inr u"
  shows "\<exists>N' R'. u = NamedType N' M R' \<and> validate_name X P A N' M R' = Inr u \<and>
    resolveTypeSpellingsSilently X (CurrentModule X) P u = u"
proof -
  consider (plain) "(M = [] \<and> N \<in> set P) \<or> N \<in> set KnownPrimitives"
    | (fixed) "\<not> ((M = [] \<and> N \<in> set P) \<or> N \<in> set KnownPrimitives)" "isResolvedIdentity N R"
    | (looked) "\<not> ((M = [] \<and> N \<in> set P) \<or> N \<in> set KnownPrimitives)" "\<not> isResolvedIdentity N R" by blast
  then show ?thesis
  proof cases
    case plain
    then have "u = NamedType N M R" using assms by (simp add: validate_name_def)
    with plain assms show ?thesis by (auto simp: resolve_named_def primitive_spelling)
  next
    case fixed
    then have "u = NamedType N M R" using assms by (auto simp: validate_name_def split: option.split_asm)
    with fixed assms show ?thesis by (auto simp: resolve_named_def)
  next
    case looked
    then have q: "\<not> isModuleQualified N" by (simp add: isResolvedIdentity_def)
    show ?thesis
    proof (cases "ResolveOrReport X M N")
      case (Inl e)
      then have False using looked assms by (auto simp: validate_name_def split: if_split_asm)
      then show ?thesis ..
    next
      case (Inr r)
      show ?thesis
      proof (cases r)
        case None
        with looked Inr assms have "u = NamedType N M R" by (auto simp: validate_name_def split: if_split_asm)
        with left_alone [of X M N] q Inr None assms show ?thesis by (simp add: resolve_named_def)
      next
        case (Some Ident)
        with looked Inr assms have "u = NamedType Ident M True" "RejectBareGeneric X A Ident = None"
          by (auto simp: validate_name_def resolveTo_def split: option.split_asm)
        then show ?thesis by (intro exI [of _ Ident] exI [of _ True]) (simp add: validate_name_def isResolvedIdentity_def)
      qed
    qed
  qed
qed

lemma base_again:
  assumes "validate_base X P B M R = Inr (B', R')"
  shows "validate_base X P B' M R' = Inr (B', R') \<and> resolve_base X (CurrentModule X) P B' M R' = (B', R')"
  using assms left_alone [of X M B]
  by (auto simp: validate_base_def resolve_base_def isResolvedIdentity_def split: if_split_asm option.split_asm sum.split_asm)

lemma count_again:
  assumes "validate_base X P B M R = Inr (B', R')" and "check_count X (M = [] \<and> B \<in> set P) B' R' n = None"
  shows "check_count X (M = [] \<and> B' \<in> set P) B' R' n = None"
  using assms by (auto simp: check_count_def validate_base_def Let_def split: if_split_asm option.split_asm sum.split_asm)

lemma then_rest_Inr: "then_rest X P r = Inr u \<longleftrightarrow> (\<exists>t. r = Inr t \<and> u = resolveTypeSpellingsSilently X (CurrentModule X) P t)"
  by (auto simp: then_rest_def split: sum.split)

lemma rebuilt_Inr: "rebuilt f r = Inr u \<longleftrightarrow> (\<exists>t. r = Inr t \<and> u = f t)"
  by (auto simp: rebuilt_def split: sum.split)

lemma checked_is_rested: "validateNamedType X P A t = Inr u \<Longrightarrow> resolveTypeSpellingsSilently X (CurrentModule X) P u = u"
  by (cases t) (auto simp: then_rest_Inr)

text \<open>What the inner walks return has the constructor it started from, up to the arrays.\<close>

definition stays :: "SpellingContext \<Rightarrow> string list \<Rightarrow> bool \<Rightarrow> TurfType \<Rightarrow> bool" where
  "stays X P A t \<longleftrightarrow> validateNamedType X P A t = Inr t"

lemma list_all2_in: "list_all2 R xs ys \<Longrightarrow> y \<in> set ys \<Longrightarrow> \<exists>x \<in> set xs. R x y"
  by (induction rule: list_all2_induct) auto

lemma all_stay:
  assumes "list_all2 (\<lambda>a b. validateNamedType X P False a = Inr b) args args'"
    and "\<And>a b. a \<in> set args \<Longrightarrow> validateNamedType X P False a = Inr b \<Longrightarrow> stays X P False b"
  shows "traverse (\<lambda>t. validateNamedType X P False t) args' = Inr args' \<and>
    map (\<lambda>t. resolveTypeSpellingsSilently X (CurrentModule X) P t) args' = args'"
proof -
  have "stays X P False b \<and> resolveTypeSpellingsSilently X (CurrentModule X) P b = b" if b: "b \<in> set args'" for b
  proof -
    obtain a where "a \<in> set args" "validateNamedType X P False a = Inr b"
      using list_all2_in [OF assms(1) b] by blast
    then show ?thesis using assms(2) checked_is_rested by blast
  qed
  then show ?thesis by (auto simp: stays_def intro: traverse_fixed map_idI)
qed

lemma generic_again:
  assumes "validate_bare X P A (GenericType B args M R) = Inr u"
    and "\<And>a b. a \<in> set args \<Longrightarrow> validateNamedType X P False a = Inr b \<Longrightarrow> stays X P False b"
  shows "\<exists>B' args' R'. u = GenericType B' args' M R' \<and> validate_bare X P A u = Inr u \<and>
    resolveTypeSpellingsSilently X (CurrentModule X) P u = u"
proof -
  obtain B' R' args' where b: "validate_base X P B M R = Inr (B', R')"
    and c: "check_count X (M = [] \<and> B \<in> set P) B' R' (length args) = None"
    and a: "traverse (\<lambda>t. validateNamedType X P False t) args = Inr args'" and u: "u = GenericType B' args' M R'"
    using assms(1) by (auto split: sum.split_asm option.split_asm)
  have l: "list_all2 (\<lambda>a b. validateNamedType X P False a = Inr b) args args'" using a by (rule traverse_all)
  have "traverse (\<lambda>t. validateNamedType X P False t) args' = Inr args' \<and>
    map (\<lambda>t. resolveTypeSpellingsSilently X (CurrentModule X) P t) args' = args'"
    by (rule all_stay [OF l]) (rule assms(2))
  then have args: "traverse (\<lambda>t. validateNamedType X P False t) args' = Inr args'"
    "map (\<lambda>t. resolveTypeSpellingsSilently X (CurrentModule X) P t) args' = args'" by simp_all
  have "length args' = length args" using list_all2_lengthD [OF l] by simp
  then have "validate_bare X P A u = Inr u" using base_again [OF b] count_again [OF b c] args(1) by (simp add: u)
  moreover have "resolveTypeSpellingsSilently X (CurrentModule X) P u = u" using base_again [OF b] args(2) by (simp add: u)
  ultimately show ?thesis using u by blast
qed

lemma present_stay:
  assumes "when_present (\<lambda>t. validateNamedType X P False t) r = Inr r'"
    and "\<And>a b. r = Some a \<Longrightarrow> validateNamedType X P False a = Inr b \<Longrightarrow> stays X P False b"
  shows "when_present (\<lambda>t. validateNamedType X P False t) r' = Inr r' \<and>
    map_option (\<lambda>t. resolveTypeSpellingsSilently X (CurrentModule X) P t) r' = r'"
  using assms by (cases r) (auto simp: stays_def checked_is_rested split: sum.split_asm)

lemma params_stay:
  assumes "traverse (when_present (\<lambda>t. validateNamedType X P False t)) ps = Inr ps'"
    and "\<And>a b. Some a \<in> set ps \<Longrightarrow> validateNamedType X P False a = Inr b \<Longrightarrow> stays X P False b"
  shows "traverse (when_present (\<lambda>t. validateNamedType X P False t)) ps' = Inr ps' \<and>
    map (map_option (\<lambda>t. resolveTypeSpellingsSilently X (CurrentModule X) P t)) ps' = ps'"
proof -
  have "when_present (\<lambda>t. validateNamedType X P False t) q = Inr q \<and>
      map_option (\<lambda>t. resolveTypeSpellingsSilently X (CurrentModule X) P t) q = q" if q: "q \<in> set ps'" for q
  proof -
    obtain p where "p \<in> set ps" "when_present (\<lambda>t. validateNamedType X P False t) p = Inr q"
      using list_all2_in [OF traverse_all [OF assms(1)] q] by blast
    then show ?thesis by (intro present_stay [of X P p q]) (auto intro: assms(2))
  qed
  then show ?thesis by (auto intro!: traverse_fixed map_idI)
qed

lemma function_again:
  assumes "validate_bare X P A (FuncType r ps) = Inr u"
    and "\<And>a b. Some a \<in> set ps \<Longrightarrow> validateNamedType X P False a = Inr b \<Longrightarrow> stays X P False b"
    and "\<And>a b. r = Some a \<Longrightarrow> validateNamedType X P False a = Inr b \<Longrightarrow> stays X P False b"
  shows "\<exists>r' ps'. u = FuncType r' ps' \<and> validate_bare X P A u = Inr u \<and>
    resolveTypeSpellingsSilently X (CurrentModule X) P u = u"
proof -
  obtain r' ps' where p: "traverse (when_present (\<lambda>t. validateNamedType X P False t)) ps = Inr ps'"
    and r: "when_present (\<lambda>t. validateNamedType X P False t) r = Inr r'" and u: "u = FuncType r' ps'"
    using assms(1) by (auto split: sum.split_asm)
  have "traverse (when_present (\<lambda>t. validateNamedType X P False t)) ps' = Inr ps' \<and>
    map (map_option (\<lambda>t. resolveTypeSpellingsSilently X (CurrentModule X) P t)) ps' = ps'"
    by (rule params_stay [OF p]) (rule assms(2))
  moreover have "when_present (\<lambda>t. validateNamedType X P False t) r' = Inr r' \<and>
    map_option (\<lambda>t. resolveTypeSpellingsSilently X (CurrentModule X) P t) r' = r'"
    by (rule present_stay [OF r]) (rule assms(3))
  ultimately show ?thesis using u by simp
qed

text \<open>The head of a type decides which walk looks at it; no walk changes it.\<close>

definition array_head :: "TurfType \<Rightarrow> bool" where
  "array_head t \<longleftrightarrow> (case t of ArrayType _ _ _ \<Rightarrow> True | _ \<Rightarrow> False)"

definition pointer_head :: "TurfType \<Rightarrow> bool" where
  "pointer_head t \<longleftrightarrow> (case t of TurfPointerType _ \<Rightarrow> True | TurfReferenceType _ \<Rightarrow> True
    | TurfNullableReferenceType _ \<Rightarrow> True | _ \<Rightarrow> False)"

lemma silent_array_head [simp]: "array_head (resolveTypeSpellingsSilently X C P t) = array_head t"
proof (cases t)
  case (NamedType N M R)
  then show ?thesis using named_cases [of X C P N M R] by (auto simp: array_head_def)
qed (simp_all add: array_head_def split: prod.split)

lemma silent_pointer_head [simp]: "pointer_head (resolveTypeSpellingsSilently X C P t) = pointer_head t"
proof (cases t)
  case (NamedType N M R)
  then show ?thesis using named_cases [of X C P N M R] by (auto simp: pointer_head_def)
qed (simp_all add: pointer_head_def split: prod.split)

lemma bare_heads:
  assumes "validate_bare X P A t = Inr u"
  shows "array_head u = array_head t \<and> pointer_head u = pointer_head t"
proof (cases t)
  case (NamedType N M R)
  then show ?thesis using name_again [of X P A N M R u] assms by (auto simp: array_head_def pointer_head_def)
next
  case (GenericType B args M R)
  then show ?thesis using assms by (auto simp: array_head_def pointer_head_def split: sum.split_asm option.split_asm)
next
  case (FuncType r ps)
  then show ?thesis using assms by (auto simp: array_head_def pointer_head_def split: sum.split_asm)
qed (use assms in auto)

lemma arrays_plain: "\<not> array_head t \<Longrightarrow> validate_arrays X P A t = validate_bare X P A t"
  by (cases t) (simp_all add: array_head_def)

lemma named_plain: "\<not> pointer_head t \<Longrightarrow> validateNamedType X P A t = then_rest X P (validate_arrays X P A t)"
  by (cases t) (simp_all add: pointer_head_def)

lemma arrays_heads: "validate_arrays X P A t = Inr u \<Longrightarrow> pointer_head u = pointer_head t"
proof (cases "array_head t")
  case True
  moreover assume "validate_arrays X P A t = Inr u"
  ultimately show ?thesis by (cases t) (auto simp: array_head_def pointer_head_def rebuilt_Inr)
qed (simp add: arrays_plain bare_heads)

lemma bare_again:
  assumes "validate_bare X P A t = Inr u"
    and "\<And>a b. size a < size t \<Longrightarrow> validateNamedType X P False a = Inr b \<Longrightarrow> stays X P False b"
  shows "validate_bare X P A (resolveTypeSpellingsSilently X (CurrentModule X) P u) =
    Inr (resolveTypeSpellingsSilently X (CurrentModule X) P u)"
proof (cases t)
  case (GenericType B args M R)
  have "stays X P False b" if "a \<in> set args" "validateNamedType X P False a = Inr b" for a b
    by (rule assms(2) [OF _ that(2)]) (use size_type_in_list [OF that(1)] in \<open>simp add: GenericType\<close>)
  from generic_again [OF assms(1) [unfolded GenericType] this] show ?thesis by fastforce
next
  case (FuncType r ps)
  have ps: "stays X P False b" if "Some a \<in> set ps" "validateNamedType X P False a = Inr b" for a b
    by (rule assms(2) [OF _ that(2)]) (use size_type_in_options [OF that(1)] in \<open>simp add: FuncType\<close>)
  have "stays X P False b" if "r = Some a" "validateNamedType X P False a = Inr b" for a b
    by (rule assms(2) [OF _ that(2)]) (simp add: FuncType that(1))
  from function_again [OF assms(1) [unfolded FuncType] ps this] show ?thesis by fastforce
next
  case (NamedType N M R)
  from name_again [of X P A N M R u] assms(1) show ?thesis by (auto simp: NamedType)
qed (use assms(1) in auto)

lemma stays_pointer:
  "validateNamedType X P A (TurfPointerType p) = Inr u \<Longrightarrow>
    (\<And>v. validate_arrays X P A p = Inr v \<Longrightarrow> validate_arrays X P A (resolveTypeSpellingsSilently X (CurrentModule X) P v) =
      Inr (resolveTypeSpellingsSilently X (CurrentModule X) P v)) \<Longrightarrow> stays X P A u"
  by (auto simp: stays_def then_rest_def rebuilt_def split: sum.split_asm)

lemma stays_reference:
  "validateNamedType X P A (TurfReferenceType p) = Inr u \<Longrightarrow>
    (\<And>v. validate_arrays X P A p = Inr v \<Longrightarrow> validate_arrays X P A (resolveTypeSpellingsSilently X (CurrentModule X) P v) =
      Inr (resolveTypeSpellingsSilently X (CurrentModule X) P v)) \<Longrightarrow> stays X P A u"
  by (auto simp: stays_def then_rest_def rebuilt_def split: sum.split_asm)

lemma stays_nullable:
  "validateNamedType X P A (TurfNullableReferenceType p) = Inr u \<Longrightarrow>
    (\<And>v. validate_arrays X P A p = Inr v \<Longrightarrow> validate_arrays X P A (resolveTypeSpellingsSilently X (CurrentModule X) P v) =
      Inr (resolveTypeSpellingsSilently X (CurrentModule X) P v)) \<Longrightarrow> stays X P A u"
  by (auto simp: stays_def then_rest_def rebuilt_def split: sum.split_asm)

lemma again:
  "validateNamedType X P A t = Inr u \<Longrightarrow> stays X P A u"
  "validate_arrays X P A t = Inr v \<Longrightarrow> validate_arrays X P A (resolveTypeSpellingsSilently X (CurrentModule X) P v) =
    Inr (resolveTypeSpellingsSilently X (CurrentModule X) P v)"
proof (induction "size t" arbitrary: t A u v rule: less_induct)
  case less
  have arrays: "validate_arrays X P A (resolveTypeSpellingsSilently X (CurrentModule X) P v) =
      Inr (resolveTypeSpellingsSilently X (CurrentModule X) P v)" if v: "validate_arrays X P A t = Inr v" for A v
  proof (cases "array_head t")
    case True
    then obtain e n sp w where "t = ArrayType e n sp" "validate_arrays X P A e = Inr w" "v = ArrayType w n sp"
      using v by (cases t) (auto simp: array_head_def rebuilt_Inr)
    then show ?thesis using less(2) [of e A w] by (simp add: rebuilt_def)
  next
    case False
    then have b: "validate_bare X P A t = Inr v" using v by (simp add: arrays_plain)
    have "validate_bare X P A (resolveTypeSpellingsSilently X (CurrentModule X) P v) =
        Inr (resolveTypeSpellingsSilently X (CurrentModule X) P v)"
      by (rule bare_again [OF b]) (rule less(1))
    then show ?thesis using bare_heads [OF b] False by (simp add: arrays_plain)
  qed
  {
    case 1
    show ?case
    proof (cases "pointer_head t")
      case True
      then obtain p where p: "t \<in> {TurfPointerType p, TurfReferenceType p, TurfNullableReferenceType p}"
        by (cases t) (auto simp: pointer_head_def)
      then have "size p < size t" by auto
      from less(2) [OF this] p 1 show ?thesis by (auto intro: stays_pointer stays_reference stays_nullable)
    next
      case False
      then obtain w where w: "validate_arrays X P A t = Inr w" "u = resolveTypeSpellingsSilently X (CurrentModule X) P w"
        using 1 by (auto simp: named_plain then_rest_Inr)
      then have "\<not> pointer_head u" using arrays_heads [OF w(1)] False by simp
      then show ?thesis using arrays [OF w(1)] by (simp add: stays_def named_plain w(2) then_rest_def)
    qed
  next
    case 2
    then show ?case by (rule arrays)
  }
qed

section \<open>The names a check looks at\<close>

text \<open>Below one pointer and then arrays, in the arguments of generic types and in function types.\<close>

inductive looked_at :: "TurfType \<Rightarrow> string \<Rightarrow> string \<Rightarrow> bool \<Rightarrow> bool"
and looked_at_array :: "TurfType \<Rightarrow> string \<Rightarrow> string \<Rightarrow> bool \<Rightarrow> bool"
and looked_at_bare :: "TurfType \<Rightarrow> string \<Rightarrow> string \<Rightarrow> bool \<Rightarrow> bool" where
  pointer: "looked_at_array t N M R \<Longrightarrow> looked_at (TurfPointerType t) N M R"
| reference: "looked_at_array t N M R \<Longrightarrow> looked_at (TurfReferenceType t) N M R"
| nullable: "looked_at_array t N M R \<Longrightarrow> looked_at (TurfNullableReferenceType t) N M R"
| no_pointer: "\<not> pointer_head t \<Longrightarrow> looked_at_array t N M R \<Longrightarrow> looked_at t N M R"
| element: "looked_at_array e N M R \<Longrightarrow> looked_at_array (ArrayType e n sp) N M R"
| no_array: "\<not> array_head t \<Longrightarrow> looked_at_bare t N M R \<Longrightarrow> looked_at_array t N M R"
| name: "looked_at_bare (NamedType N M R) N M R"
| base: "looked_at_bare (GenericType N args M R) N M R"
| argument: "a \<in> set args \<Longrightarrow> looked_at a N M R \<Longrightarrow> looked_at_bare (GenericType B args M' R') N M R"
| param: "Some a \<in> set ps \<Longrightarrow> looked_at a N M R \<Longrightarrow> looked_at_bare (FuncType r ps) N M R"
| result: "looked_at a N M R \<Longrightarrow> looked_at_bare (FuncType (Some a) ps) N M R"

definition settled_name :: "string list \<Rightarrow> string \<Rightarrow> string \<Rightarrow> bool \<Rightarrow> bool" where
  "settled_name P N M R \<longleftrightarrow> (M = [] \<and> N \<in> set P) \<or> N \<in> set KnownPrimitives \<or> isResolvedIdentity N R"

lemma never_left:
  assumes "\<not> SuppressUnqualifiedVisibilityCheck X" and "\<not> isResolvedIdentity N R"
  shows "ResolveOrReport X M N \<noteq> Inr None"
proof (cases "M = [] \<and> N \<in> set (CurrentSizeParams X)")
  case False
  then show ?thesis using walks_agree [of X N M] assms by (auto simp: isResolvedIdentity_def split: option.split_asm)
qed (simp add: ResolveOrReport_def)

lemma settled_leaf: "\<not> SuppressUnqualifiedVisibilityCheck X \<Longrightarrow> validate_name X P A N M R = Inr (NamedType N M R) \<Longrightarrow> settled_name P N M R"
  using never_left [of X N R M]
  by (auto simp: validate_name_def settled_name_def isResolvedIdentity_def resolveTo_def
    split: if_split_asm option.split_asm sum.split_asm)

lemma settled_base: "\<not> SuppressUnqualifiedVisibilityCheck X \<Longrightarrow> validate_base X P N M R = Inr (N, R) \<Longrightarrow> settled_name P N M R"
  using never_left [of X N R M]
  by (auto simp: validate_base_def settled_name_def isResolvedIdentity_def split: if_split_asm option.split_asm sum.split_asm)

lemma traverse_same: "traverse f xs = Inr xs \<Longrightarrow> x \<in> set xs \<Longrightarrow> f x = Inr x"
  by (induction xs) (auto split: sum.split_asm)

lemma arrays_stay:
  assumes "then_rest X P (rebuilt f (validate_arrays X P A t)) = Inr (f t)" and "inj f"
    and "\<And>v. resolveTypeSpellingsSilently X (CurrentModule X) P (f v) = f (resolveTypeSpellingsSilently X (CurrentModule X) P v)"
  shows "validate_arrays X P A t = Inr t"
proof -
  obtain v where v: "validate_arrays X P A t = Inr v" "f t = resolveTypeSpellingsSilently X (CurrentModule X) P (f v)"
    using assms(1) by (auto simp: then_rest_Inr rebuilt_Inr)
  then have "t = resolveTypeSpellingsSilently X (CurrentModule X) P v" using assms(2,3) by (simp add: inj_eq)
  then show ?thesis using again(2) [OF v(1)] by simp
qed

lemma all_settled:
  assumes "\<not> SuppressUnqualifiedVisibilityCheck X"
  shows "looked_at t N M R \<Longrightarrow> validateNamedType X P A t = Inr t \<Longrightarrow> settled_name P N M R"
    and "looked_at_array t N M R \<Longrightarrow> validate_arrays X P A t = Inr t \<Longrightarrow> settled_name P N M R"
    and "looked_at_bare t N M R \<Longrightarrow> validate_bare X P A t = Inr t \<Longrightarrow> settled_name P N M R"
proof (induction arbitrary: A and A and A rule: looked_at_looked_at_array_looked_at_bare.inducts)
  case (pointer t N M R)
  then show ?case using arrays_stay [of X P TurfPointerType A t] by (simp add: inj_on_def)
next
  case (reference t N M R)
  then show ?case using arrays_stay [of X P TurfReferenceType A t] by (simp add: inj_on_def)
next
  case (nullable t N M R)
  then show ?case using arrays_stay [of X P TurfNullableReferenceType A t] by (simp add: inj_on_def)
next
  case (no_pointer t N M R)
  have "rebuilt id r = r" for r by (simp add: rebuilt_def split: sum.split)
  then show ?case using no_pointer arrays_stay [of X P id A t] by (simp add: named_plain)
next
  case (element e N M R n sp)
  then show ?case by (auto simp: rebuilt_Inr)
next
  case (no_array t N M R)
  then show ?case by (simp add: arrays_plain)
next
  case (name N M R)
  then show ?case using settled_leaf [OF assms] by simp
next
  case (base N args M R)
  then show ?case using settled_base [OF assms] by (auto split: sum.split_asm option.split_asm)
next
  case (argument a args N M R B M' R')
  then have "traverse (\<lambda>t. validateNamedType X P False t) args = Inr args" by (auto split: sum.split_asm option.split_asm)
  from traverse_same [OF this argument(1)] show ?case by (rule argument(3))
next
  case (param a ps N M R r)
  then have "traverse (when_present (\<lambda>t. validateNamedType X P False t)) ps = Inr ps" by (auto split: sum.split_asm)
  from traverse_same [OF this param(1)] have "validateNamedType X P False a = Inr a" by (simp split: sum.split_asm)
  then show ?case by (rule param(3))
next
  case (result a N M R ps)
  then have "validateNamedType X P False a = Inr a" by (auto split: sum.split_asm)
  then show ?case by (rule result(2))
qed

section \<open>What spelling resolution promises\<close>


definition sample_context :: "TopDecl list \<Rightarrow> SpellingContext" where
  "sample_context Nodes = \<lparr>Names = (case hoistTypes Nodes no_names of Inr T \<Rightarrow> T | Inl _ \<Rightarrow> no_names), CurrentModule = [],
     CurrentSizeParams = [''N''], SuppressUnqualifiedVisibilityCheck = False\<rparr>"






text \<open>A type the check does not look at is accepted although nothing has its name, below a second pointer for one.\<close>

lemma deep_unknown_type_accepted:
  assumes "tryResolveTypeSpelling X M N (CurrentModule X) = None"
  shows "validateNamedType X P A (TurfPointerType (TurfPointerType (NamedType N M False))) =
      Inr (TurfPointerType (TurfPointerType (NamedType N M False)))"
    and "validateNamedType X P A (ArrayType (TurfPointerType (NamedType N M False)) 3 []) =
      Inr (ArrayType (TurfPointerType (NamedType N M False)) 3 [])"
    and "validateNamedType X P A (TurfErrorUnionType (NamedType N M False)) = Inr (TurfErrorUnionType (NamedType N M False))"
  using assms by (simp_all add: then_rest_def rebuilt_def resolve_named_def)

text \<open>The left of \<open>Secret::A\<close> finds a private enum of another module that \<open>geo::Secret::A\<close> may not name.\<close>

definition private_enum :: "TopDecl list" where
  "private_enum = [ModuleImport ''geo'' BareMode (1, 1) ''geo.tr'' [] [EnumDecl ''geo::Secret'' (1, 1) False [''A''] IntType]]"

lemma private_enum_reached_bare:
  "resolveScopeLeftType (sample_context private_enum) \<lparr>ModuleQualifier = [], LeftName = ''Secret'', LeftIsTypeIdentity = False\<rparr> =
     Inr (''geo::Secret'', \<lparr>ModuleQualifier = [], LeftName = ''geo::Secret'', LeftIsTypeIdentity = True\<rparr>)"
  "resolveScopeLeftType (sample_context private_enum) \<lparr>ModuleQualifier = ''geo'', LeftName = ''Secret'', LeftIsTypeIdentity = False\<rparr> =
     Inl (PrivateType ''geo::Secret'')"
  by code_simp+

end
