(* ===== verification/Spec2Isabelle.thy ===== *)
theory Spec2Isabelle
  imports SuggestionIndex Lookahead DiagLog FixWriting CfgReport ConstCases Liveness NullCases TypeRules
    CodegenScopes MutatingMethods TypeSpelling
begin

text \<open>
  A verification of the core of the Turf compiler (\<open>src/src\<close>, C++): its lexer, its diagnostic engine, the
  control-flow graph of a function body and the data-flow analyses that run on the graph. The compiler
  reads a file with the lexer, the parser asks it for tokens with lookahead and reports through the engine;
  the analyses take the body of a function as a tree, build its graph, and report or annotate the tree.

  \<^bold>\<open>How the code is modelled.\<close> Every theory translates one file or one part of a file, in the order of the
  source and with its names. A class with state is a record and its methods are functions on the record;
  an exception is the left side of a sum; a loop is a fold over its index range, a structural or well-founded
  recursion, or \<open>while_option\<close> where only a theorem says that it ends, so that not ending is \<open>None\<close>.
  Strings are lists of characters, one per byte. Pointers between nodes of a graph are block numbers, a
  pointer to a variable symbol is the number \<open>VarId\<close>, and a null child of a node is \<open>NoExpr\<close>. Columns and
  lines are integers without a bound. \<open>Prelude\<close> and \<open>CppString\<close> hold the rule for counting loops, tables and
  the operations of \<open>std::string\<close> that the sources use.

  \<^bold>\<open>The lexer\<close> (\<open>frontend/Lexer.h\<close>, \<open>Lexer.cpp\<close>, \<open>diagnostics/ErrorsLex.h\<close>). \<open>LexToken\<close> has locations, token
  codes and the keyword table; \<open>LexScan\<close> has \<open>LexerState\<close>, \<open>gettokScan\<close> with its branches, \<open>gettok\<close> and the
  lookahead queue. \<open>LexFacts\<close>, \<open>LexNumber\<close> and \<open>Lexer\<close> show what a step reads and that it makes progress;
  \<open>LexRun\<close> drives the scanner over a text (interface \<open>scanner\<close>: a call reads a prefix and leaves the rest),
  so a text of length \<open>n\<close> is used up after at most \<open>n + 2\<close> calls; \<open>LexLiterals\<close> says which token and value a
  text has; \<open>Lookahead\<close> shows that peeking is lexing ahead.

  \<^bold>\<open>Diagnostics.\<close> \<open>ErrorCodes\<close> is \<open>ErrorCategory.h\<close> and \<open>ErrorCodes.h\<close>; \<open>LintLevels\<close>, \<open>CompilerFix\<close> and
  \<open>DiagJson\<close> are the files of those names; \<open>SuggestionIndex\<close> is the trie of names with the pruned search and
  \<open>EditDistance\<close> the distance of \<open>analysis/Algorithms.cpp\<close> that it must agree with. \<open>DiagEngine\<close> is the class
  \<open>DiagnosticEngine\<close> with the test registry it asks, \<open>DiagFlush\<close> prints, \<open>DiagLog\<close> is \<open>LogErrorAt\<close>.
  \<open>DiagCascade\<close> has the runs a client can make of the engine as a step relation, \<open>DiagRules\<close> the promises
  over all runs, and \<open>FixWriting\<close> what the file of accepted fixes contains.

  \<^bold>\<open>Types\<close> (\<open>sema/Types.h\<close>, \<open>Types.cpp\<close>, \<open>TypeWalk.cpp\<close>). \<open>Types\<close> has one constructor per type class with the
  names, the mangled names and the equivalence of each; \<open>TypeWalk\<close> the walks (open parameters, substitution,
  matching, the order of parameters); \<open>TypeCompat\<close> the rules of \<open>typesCompatible\<close>. A type is a value: an object
  the code returns unchanged is an equal one here. \<open>TypeFacts\<close> shows that an instance has no parameter left and
  that matching finds the arguments of an instance; \<open>TypeRules\<close> says which types are accepted where a plain
  reference is expected and where the rules for type parameters and the names of instances fall short.

  \<^bold>\<open>The tree and the graph.\<close> \<open>Ast\<close> is the syntax tree with \<open>ASTChildWalker\<close>. \<open>FlowGraph\<close> is \<open>CFG.h\<close> and the
  queries of \<open>CFG.cpp\<close>; \<open>CfgBuilder\<close> is the class \<open>CFGBuilder\<close>, one definition per visitor. \<open>CfgFacts\<close>,
  \<open>CfgHandlers\<close>, \<open>CfgBranches\<close> and \<open>CfgLoops\<close> show the contract of a visitor, \<open>CfgSound\<close> gives the runs of a
  body and what the graph says about them, \<open>CfgReturns\<close> concludes for whole functions, and \<open>CfgReport\<close> has
  the diagnostics of the graph and its listing. A condition is anything: both branches may be taken.

  \<^bold>\<open>Value-range analysis\<close> (\<open>analysis/ValueRange.cpp\<close>). \<open>ConstEval\<close> has the 65-bit arithmetic and the tests for
  overflow, \<open>ConstFlow\<close> the trackability scan, the transfer and the worklist solver, \<open>ValueRange\<close> the bounds
  report and the marking of checks. \<open>ConstSolver\<close> shows that the solver ends (each turn lowers a weight)
  in a fixed point. \<open>ConstSound\<close> gives the values an expression may have in a store and the runs of a graph;
  \<open>ConstRuns\<close> shows that a marked check cannot fail and a reported index is outside. Assumed of a graph
  (\<open>analysable\<close>) is what name resolution provides: one symbol is declared in one function, and what other
  code may write is in the set \<open>shared\<close>. All integers are 64 bits wide there, as in the pass; the narrower
  types, which the pass does not know either, are not. \<open>ConstCases\<close> has concrete functions.

  \<^bold>\<open>Flow passes\<close> (\<open>analysis/Analysis.cpp\<close>). \<open>AstAccess\<close> and \<open>FlowEvents\<close> are the reads and definitions of a
  statement. \<open>MustFlow\<close> has the forward loop that two passes share; its locale \<open>must_flow\<close> asks of a pass that
  its transfer adds facts, and shows that the loop computes exactly the facts of all walks.
  \<open>DefiniteAssignment\<close> interprets it for locals and for the fields of a constructor and says exactly what is
  reported; \<open>Liveness\<close> is the backward pass with its unused-variable and dead-store warnings. A walk is a
  path of the graph, whether or not a run of the program can take it. \<open>Rounds\<close> is the loop of rounds the
  passes share, with the rule that it ends. \<open>NullFlow\<close> is the nullability pass: what comparisons with null and
  assignments prove, and the errors for references that are used unproven. \<open>NullSound\<close> gives the runs it is
  about, where a state says which variables hold null and a branch on a comparison with null goes the way the
  state says; \<open>NullRuns\<close> shows that an accepted function reads through no null reference, and that the pass
  answers: it analyses run blocks on graphs of their own, and the statements of a built graph are no bigger
  than the body (\<open>CfgSizes\<close>), so fuel of one more than the size of the body is enough. \<open>NullCases\<close> has a guarded
  read and the reads the pass accepts although nothing guards them.

  \<^bold>\<open>Name resolution\<close> (\<open>resolve\<close>). The tables the Resolver fills. \<open>LexicalScopes\<close> holds the contract of a stack
  of scopes (locale \<open>scope_stack\<close>: a block changes nothing outside it) and of two such stacks that are driven
  alike (\<open>scope_pair\<close>). \<open>ScopeTable\<close> is the Resolver's stack and interprets the first; \<open>CodegenScopes\<close> is the one
  of the code generator, interprets it too, and with the Resolver's interprets the second: after the same
  declarations both know the same names. \<open>MutatingMethods\<close> is the closure that says which methods change their
  receiver. \<open>ModuleTable\<close> has the modules, overloads and imports, \<open>TypeRegistry\<close> the structs, enums and error
  types with the module that owns each; \<open>NameTables\<close> has the visibility questions over both and Pass 1a, which
  enters all types and imports of a program. \<open>TypeSpelling\<close> is how the spelling of a type becomes an identity: the
  silent walk of Pass 1b and the checking one of Pass 2, which agree. A hash map is a list of pairs without repeated keys; where the
  code walks one in its own order, what is proved of the answer is its set.

  \<^bold>\<open>What is not modelled.\<close> The parser, the Resolver's walk over bodies and functions, the type checker over the tree, the monomorphizer
  (but for the names of its instances), the escape, alias and lint passes and the tools are not modelled yet; the modelled passes take the symbols and
  types those attach to the tree as given (\<open>TypeTable\<close>, \<open>BlockInCFG\<close> and the symbols of the nodes are
  arguments). Code generation is calls of LLVM, which is not part of the repository; the driver is files and
  processes; the language model is a parameter of the engine; the run-time library and the standard library
  are in C and Turf. The rest of \<open>Algorithms.cpp\<close> (unrestricted Damerau-Levenshtein) and
  \<open>hasUnbreakableLoop\<close> of \<open>CFG.cpp\<close> are missing too.
\<close>

end
